(* ===== verification/Prelude.thy ===== *)
theory Prelude
  imports Main "HOL-Library.Word"
begin

text \<open>
  Shared vocabulary of the development: how C text, C buffers and the C library's
  character classes are represented, and the generic list and option lemmas that the
  component theories use.

  Conventions. A \<^typ>\<open>char\<close> is one byte. A NUL-terminated C string is the
  \<^typ>\<open>string\<close> of its bytes before the terminator. A pointer into a text is an
  offset (\<^typ>\<open>nat\<close>) into that string, and dereferencing it is \<open>ch_at\<close>, which
  yields the terminator at and after the end. A \<open>snprintf(buf, sizeof(buf), "%s", s)\<close>
  into a buffer of \<open>n\<close> bytes leaves the C string \<open>copy_into n s\<close>. A buffer that was zeroed
  and then had bytes written from its start holds the C string \<open>cstr\<close> of the bytes.
\<close>

section \<open>Automation collections\<close>

named_theorems scan_simps \<open>equations of the text scanners on literal input\<close>
named_theorems scan_bounds \<open>a successful scan moves forward and stays within its limit\<close>
named_theorems store_inv \<open>operations of a store keep its invariant\<close>

section \<open>Bytes and character classes of the C locale\<close>

abbreviation NUL :: char where
  "NUL \<equiv> CHR 0x00"

abbreviation DQ :: char where
  "DQ \<equiv> CHR 0x22"

abbreviation BSL :: char where
  "BSL \<equiv> CHR 0x5C"

definition byte :: "char \<Rightarrow> nat" where
  "byte c = of_char c"

definition is_space :: "char \<Rightarrow> bool" where
  "is_space c \<longleftrightarrow> c = CHR '' '' \<or> (9 \<le> byte c \<and> byte c \<le> 13)"

definition is_digit :: "char \<Rightarrow> bool" where
  "is_digit c \<longleftrightarrow> 48 \<le> byte c \<and> byte c \<le> 57"

definition is_upper :: "char \<Rightarrow> bool" where
  "is_upper c \<longleftrightarrow> 65 \<le> byte c \<and> byte c \<le> 90"

definition is_lower :: "char \<Rightarrow> bool" where
  "is_lower c \<longleftrightarrow> 97 \<le> byte c \<and> byte c \<le> 122"

definition is_alpha :: "char \<Rightarrow> bool" where
  "is_alpha c \<longleftrightarrow> is_upper c \<or> is_lower c"

definition is_alnum :: "char \<Rightarrow> bool" where
  "is_alnum c \<longleftrightarrow> is_alpha c \<or> is_digit c"

definition is_xdigit :: "char \<Rightarrow> bool" where
  "is_xdigit c \<longleftrightarrow> is_digit c \<or> (65 \<le> byte c \<and> byte c \<le> 70) \<or> (97 \<le> byte c \<and> byte c \<le> 102)"

definition is_ctrl :: "char \<Rightarrow> bool" where
  "is_ctrl c \<longleftrightarrow> byte c < 32"

definition to_lower :: "char \<Rightarrow> char" where
  "to_lower c = (if is_upper c then char_of (byte c + 32) else c)"

lemmas char_class_defs = is_space_def is_digit_def is_upper_def is_lower_def is_alpha_def
  is_alnum_def is_xdigit_def is_ctrl_def byte_def

lemma byte_less [simp]: "byte c < 256"
  by (simp add: byte_def)

lemma byte_inject [simp]: "byte c = byte d \<longleftrightarrow> c = d"
  by (simp add: byte_def)

lemma char_of_byte [simp]: "char_of (byte c) = c"
  by (simp add: byte_def)

lemma byte_char_of [simp]: "n < 256 \<Longrightarrow> byte (char_of n) = n"
  by (simp add: byte_def)

lemma NUL_classes [simp]: "\<not> is_space NUL" "\<not> is_digit NUL" "\<not> is_xdigit NUL" "is_ctrl NUL"
  by (simp_all add: char_class_defs)

lemma digit_not_space [simp]: "is_digit c \<Longrightarrow> \<not> is_space c"
  by (auto simp: char_class_defs)

section \<open>Text access\<close>

definition ch_at :: "string \<Rightarrow> nat \<Rightarrow> char" where
  "ch_at t p = (if p < length t then t ! p else NUL)"

lemma ch_at_beyond [simp]: "length t \<le> p \<Longrightarrow> ch_at t p = NUL"
  by (simp add: ch_at_def)

lemma ch_at_nth: "p < length t \<Longrightarrow> ch_at t p = t ! p"
  by (simp add: ch_at_def)

lemma ch_at_NotNUL: "ch_at t p \<noteq> NUL \<Longrightarrow> p < length t"
  by (auto simp: ch_at_def split: if_splits)

lemma ch_at_drop: "ch_at t p = (case drop p t of [] \<Rightarrow> NUL | c # _ \<Rightarrow> c)"
  by (cases "p < length t") (auto simp: ch_at_def Cons_nth_drop_Suc [symmetric])

lemma drop_Cons_ch_at: "drop p t = c # w \<Longrightarrow> ch_at t p = c \<and> p < length t \<and> drop (Suc p) t = w"
  by (metis ch_at_drop drop_Suc list.sel(3) list.simps(5) not_less drop_all list.simps(3) tl_drop)

lemma drop_append_length: "drop p t = v @ w \<Longrightarrow> drop (p + length v) t = w"
  by (metis add.commute append_eq_conv_conj drop_drop)

lemma drop_eq_append_le: "drop p t = v @ w \<Longrightarrow> v \<noteq> [] \<Longrightarrow> p + length v \<le> length t"
  by (metis add.commute append_is_Nil_conv drop_all length_append length_drop linorder_not_le
      nat_le_linear le_add1 le_diff_conv2)

text \<open>The span of a text between two offsets.\<close>

definition span :: "string \<Rightarrow> nat \<Rightarrow> nat \<Rightarrow> string" where
  "span t p q = take (q - p) (drop p t)"

lemma length_span [simp]: "q \<le> length t \<Longrightarrow> length (span t p q) = q - p"
  by (simp add: span_def)

lemma span_empty [simp]: "span t p p = []"
  by (simp add: span_def)

lemma span_append:
  assumes "p \<le> q" and "q \<le> r"
  shows "span t p q @ span t q r = span t p r"
proof -
  have "r - p = (q - p) + (r - q)" using assms by simp
  then have "span t p r = take (q - p) (drop p t) @ take (r - q) (drop (q - p) (drop p t))"
    by (simp only: span_def take_add)
  then show ?thesis using assms by (simp add: span_def)
qed

lemma span_Cons: "p < q \<Longrightarrow> p < length t \<Longrightarrow> span t p q = t ! p # span t (Suc p) q"
  by (simp add: span_def Cons_nth_drop_Suc [symmetric] take_Cons' Suc_diff_Suc)

lemma drop_span: "p \<le> q \<Longrightarrow> drop p t = span t p q @ drop q t"
  by (simp add: span_def) (metis append_take_drop_id drop_drop le_add_diff_inverse2)

lemma span_eqI: "drop p t = v @ w \<Longrightarrow> span t p (p + length v) = v"
  by (simp add: span_def)

section \<open>C strings in buffers\<close>

definition cstr :: "string \<Rightarrow> string" where
  "cstr w = takeWhile (\<lambda>c. c \<noteq> NUL) w"

definition copy_into :: "nat \<Rightarrow> string \<Rightarrow> string" where
  "copy_into n s = take (n - 1) s"

definition no_nul :: "string \<Rightarrow> bool" where
  "no_nul s \<longleftrightarrow> NUL \<notin> set s"

lemma cstr_id [simp]: "no_nul s \<Longrightarrow> cstr s = s"
  by (simp add: cstr_def no_nul_def takeWhile_eq_all_conv) metis

lemma no_nul_cstr [simp]: "no_nul (cstr s)"
  by (auto simp: cstr_def no_nul_def dest: set_takeWhileD)

lemma length_cstr_le: "length (cstr s) \<le> length s"
  by (simp add: cstr_def length_takeWhile_le)

lemma copy_into_id [simp]: "length s < n \<Longrightarrow> copy_into n s = s"
  by (simp add: copy_into_def)

lemma length_copy_into [simp]: "0 < n \<Longrightarrow> length (copy_into n s) < n"
  by (auto simp: copy_into_def)

lemma no_nul_copy_into [simp]: "no_nul s \<Longrightarrow> no_nul (copy_into n s)"
  by (auto simp: copy_into_def no_nul_def dest: in_set_takeD)

lemma no_nul_Nil [simp]: "no_nul []"
  by (simp add: no_nul_def)

lemma no_nul_Cons [simp]: "no_nul (c # s) \<longleftrightarrow> c \<noteq> NUL \<and> no_nul s"
  by (auto simp: no_nul_def)

lemma no_nul_append [simp]: "no_nul (s @ r) \<longleftrightarrow> no_nul s \<and> no_nul r"
  by (auto simp: no_nul_def)

section \<open>Bits\<close>

unbundle bit_operations_syntax

lemma push_or_add:
  fixes v h :: nat
  assumes "h < 2 ^ n"
  shows "push_bit n v OR h = 2 ^ n * v + h"
proof -
  have "take_bit n h = h" using assms by (simp add: take_bit_nat_eq_self_iff)
  then have "push_bit n v AND h = 0"
    by (intro bit_eqI) (metis bit_and_iff bit_push_bit_iff bit_take_bit_iff bit_0_eq bot_apply bot_bool_def not_le)
  then have "push_bit n v + h = push_bit n v OR h" by (rule disjunctive_add_eq_or)
  then show ?thesis by (simp add: push_bit_eq_mult mult.commute)
qed
section \<open>First index and list removal\<close>

text \<open>The common C idiom: scan an array for the first entry that satisfies a test.\<close>

fun find_index :: "('a \<Rightarrow> bool) \<Rightarrow> 'a list \<Rightarrow> nat option" where
  "find_index P [] = None"
| "find_index P (x # xs) = (if P x then Some 0 else map_option Suc (find_index P xs))"

lemma find_index_None_iff: "find_index P xs = None \<longleftrightarrow> (\<forall>x \<in> set xs. \<not> P x)"
  by (induction xs) auto

lemma find_index_SomeD:
  "find_index P xs = Some i \<Longrightarrow> i < length xs \<and> P (xs ! i) \<and> (\<forall>j < i. \<not> P (xs ! j))"
  by (induction xs arbitrary: i) (auto split: if_splits simp: less_Suc_eq_0_disj)

text \<open>\<open>memmove(&a[i], &a[i + 1], ...)\<close> followed by \<open>count--\<close>.\<close>

definition remove_nth :: "nat \<Rightarrow> 'a list \<Rightarrow> 'a list" where
  "remove_nth i xs = take i xs @ drop (Suc i) xs"

lemma length_remove_nth [simp]: "i < length xs \<Longrightarrow> length (remove_nth i xs) = length xs - 1"
  by (auto simp: remove_nth_def)

lemma remove_nth_0 [simp]: "remove_nth 0 (x # xs) = xs"
  by (simp add: remove_nth_def)

lemma remove_nth_Suc [simp]: "remove_nth (Suc i) (x # xs) = x # remove_nth i xs"
  by (simp add: remove_nth_def)

lemma set_remove_nth_subset: "set (remove_nth i xs) \<subseteq> set xs"
  by (auto simp: remove_nth_def dest: in_set_takeD in_set_dropD)

lemma distinct_map_remove_nth: "distinct (map f xs) \<Longrightarrow> distinct (map f (remove_nth i xs))"
proof (induction xs arbitrary: i)
  case Nil
  then show ?case by (simp add: remove_nth_def)
next
  case (Cons x xs)
  then show ?case
    by (cases i) (use set_remove_nth_subset [of _ xs] in auto)
qed

end
