(* ===== verification/Json_Scan.thy ===== *)
theory Json_Scan
  imports Prelude
begin

text \<open>
  The validating scanner of \<open>runtime/support/json.c\<close>: from a start offset it finds the
  offset just past one JSON string, number or value, or fails. Pointers are offsets into
  the NUL-terminated text, \<open>None\<close> is the return code \<open>-1\<close> and \<open>Some e\<close> the return code
  \<open>0\<close> with \<open>*end_ptr = e\<close>. The \<open>while (1)\<close> loops over the members of an object and the
  elements of an array are the functions \<open>object_loop\<close> and \<open>array_loop\<close>.

  The second half gives the grammar of the accepted texts as inductive predicates over
  strings and proves that the scanner accepts exactly that grammar.
\<close>

section \<open>The scanner\<close>

function skip_ws :: "string \<Rightarrow> nat \<Rightarrow> nat" where
  "skip_ws t p = (if p < length t \<and> is_space (t ! p) then skip_ws t (Suc p) else p)"
  by pat_completeness auto
termination
  by (relation "measure (\<lambda>(t, p). length t - p)") auto

declare skip_ws.simps [simp del]

definition is_simple_escape :: "char \<Rightarrow> bool" where
  "is_simple_escape c \<longleftrightarrow>
     c = DQ \<or> c = BSL \<or> c = CHR ''/'' \<or> c = CHR ''b'' \<or> c = CHR ''f'' \<or>
     c = CHR ''n'' \<or> c = CHR ''r'' \<or> c = CHR ''t''"

definition hex4_at :: "string \<Rightarrow> nat \<Rightarrow> nat \<Rightarrow> bool" where
  "hex4_at t p limit \<longleftrightarrow> (\<forall>i \<in> {0, 1, 2, 3}. p + i < limit \<and> is_xdigit (ch_at t (p + i)))"

function string_body_end :: "string \<Rightarrow> nat \<Rightarrow> nat \<Rightarrow> nat option" where
  "string_body_end t p limit =
     (if p < limit then
        (let ch = ch_at t p in
         if ch = DQ then Some (Suc p)
         else if ch = BSL then
           (if Suc p \<ge> limit then None
            else if ch_at t (Suc p) = CHR ''u'' then
              (if hex4_at t (p + 2) limit then string_body_end t (p + 6) limit else None)
            else if is_simple_escape (ch_at t (Suc p)) then string_body_end t (p + 2) limit
            else None)
         else if is_ctrl ch then None
         else string_body_end t (Suc p) limit)
      else None)"
  by pat_completeness auto
termination
  by (relation "measure (\<lambda>(t, p, limit). limit - p)") auto

declare string_body_end.simps [simp del]

definition parse_json_string_end :: "string \<Rightarrow> nat \<Rightarrow> nat \<Rightarrow> nat option" where
  "parse_json_string_end t start limit =
     (if ch_at t start \<noteq> DQ then None else string_body_end t (Suc start) limit)"

function skip_digits :: "string \<Rightarrow> nat \<Rightarrow> nat \<Rightarrow> nat" where
  "skip_digits t p limit =
     (if p < limit \<and> is_digit (ch_at t p) then skip_digits t (Suc p) limit else p)"
  by pat_completeness auto
termination
  by (relation "measure (\<lambda>(t, p, limit). limit - p)") auto

declare skip_digits.simps [simp del]

definition number_fraction_end :: "string \<Rightarrow> nat \<Rightarrow> nat \<Rightarrow> nat option" where
  "number_fraction_end t p limit =
     (if p < limit \<and> ch_at t p = CHR ''.'' then
        (if Suc p \<ge> limit \<or> \<not> is_digit (ch_at t (Suc p)) then None
         else Some (skip_digits t (Suc p) limit))
      else Some p)"

definition number_exponent_end :: "string \<Rightarrow> nat \<Rightarrow> nat \<Rightarrow> nat option" where
  "number_exponent_end t p limit =
     (if p < limit \<and> (ch_at t p = CHR ''e'' \<or> ch_at t p = CHR ''E'') then
        (if Suc p \<ge> limit then None
         else
           (let q = (if ch_at t (Suc p) = CHR ''+'' \<or> ch_at t (Suc p) = CHR ''-''
                     then Suc (Suc p) else Suc p)
            in if q \<ge> limit \<or> \<not> is_digit (ch_at t q) then None
               else Some (skip_digits t q limit)))
      else Some p)"

definition parse_json_number_end :: "string \<Rightarrow> nat \<Rightarrow> nat \<Rightarrow> nat option" where
  "parse_json_number_end t start limit =
     (if start \<ge> limit then None
      else
        (let p = (if ch_at t start = CHR ''-'' then Suc start else start)
         in if p \<ge> limit \<or> \<not> is_digit (ch_at t p) then None
            else
              (case number_fraction_end t (skip_digits t p limit) limit of
                 None \<Rightarrow> None
               | Some q \<Rightarrow> number_exponent_end t q limit)))"

definition literal_end :: "string \<Rightarrow> string \<Rightarrow> nat \<Rightarrow> nat \<Rightarrow> nat option" where
  "literal_end lit t start limit =
     (if limit - start \<ge> length lit \<and> take (length lit) (drop start t) = lit
      then Some (start + length lit) else None)"

lemma skip_ws_ge: "p \<le> skip_ws t p"
  by (induction t p rule: skip_ws.induct) (subst skip_ws.simps, auto)

lemma string_body_end_bounds: "string_body_end t p limit = Some e \<Longrightarrow> p < e \<and> e \<le> limit"
proof (induction t p limit rule: string_body_end.induct)
  case (1 t p limit)
  from "1.prems" show ?case
    using "1.IH" [OF _ refl] by (subst (asm) string_body_end.simps) (force simp: Let_def split: if_splits)
qed

lemma parse_json_string_end_bounds [scan_bounds]:
  "parse_json_string_end t p limit = Some e \<Longrightarrow> p < e \<and> e \<le> limit"
  by (auto simp: parse_json_string_end_def dest: string_body_end_bounds split: if_splits)

lemma skip_digits_bounds: "p \<le> skip_digits t p limit \<and> (p \<le> limit \<longrightarrow> skip_digits t p limit \<le> limit)"
  by (induction t p limit rule: skip_digits.induct) (subst (1 2) skip_digits.simps, auto)

lemma skip_digits_gt: "p < limit \<Longrightarrow> is_digit (ch_at t p) \<Longrightarrow> p < skip_digits t p limit"
  using skip_digits_bounds [of "Suc p" t limit] by (subst skip_digits.simps) auto

function parse_json_value_end :: "string \<Rightarrow> nat \<Rightarrow> nat \<Rightarrow> nat option"
  and object_loop :: "string \<Rightarrow> nat \<Rightarrow> nat \<Rightarrow> nat option"
  and array_loop :: "string \<Rightarrow> nat \<Rightarrow> nat \<Rightarrow> nat option" where
  "parse_json_value_end t start limit =
     (if start \<ge> limit then None
      else if ch_at t start = DQ then parse_json_string_end t start limit
      else if ch_at t start = CHR ''{'' then
        (let p = skip_ws t (Suc start) in
         if p \<ge> limit then None
         else if ch_at t p = CHR ''}'' then Some (Suc p)
         else object_loop t p limit)
      else if ch_at t start = CHR ''['' then
        (let p = skip_ws t (Suc start) in
         if p \<ge> limit then None
         else if ch_at t p = CHR '']'' then Some (Suc p)
         else array_loop t p limit)
      else if ch_at t start = CHR ''t'' then literal_end ''true'' t start limit
      else if ch_at t start = CHR ''f'' then literal_end ''false'' t start limit
      else if ch_at t start = CHR ''n'' then literal_end ''null'' t start limit
      else if is_digit (ch_at t start) \<or> ch_at t start = CHR ''-''
        then parse_json_number_end t start limit
      else None)"
| "object_loop t p limit =
     (case parse_json_string_end t p limit of
        None \<Rightarrow> None
      | Some key_end \<Rightarrow>
          (let p1 = skip_ws t key_end in
           if p1 \<ge> limit \<or> ch_at t p1 \<noteq> CHR '':'' then None
           else
             (let p2 = skip_ws t (Suc p1) in
              case parse_json_value_end t p2 limit of
                None \<Rightarrow> None
              | Some value_end \<Rightarrow>
                  (let p3 = skip_ws t value_end in
                   if p3 \<ge> limit then None
                   else if ch_at t p3 = CHR '','' then object_loop t (skip_ws t (Suc p3)) limit
                   else if ch_at t p3 = CHR ''}'' then Some (Suc p3)
                   else None))))"
| "array_loop t p limit =
     (case parse_json_value_end t p limit of
        None \<Rightarrow> None
      | Some value_end \<Rightarrow>
          (let p3 = skip_ws t value_end in
           if p3 \<ge> limit then None
           else if ch_at t p3 = CHR '','' then array_loop t (skip_ws t (Suc p3)) limit
           else if ch_at t p3 = CHR '']'' then Some (Suc p3)
           else None))"
  by pat_completeness auto

lemma literal_end_bounds: "literal_end lit t p limit = Some e \<Longrightarrow> lit \<noteq> [] \<Longrightarrow> p < e \<and> e \<le> limit"
  by (cases lit) (auto simp: literal_end_def split: if_splits)

lemma parse_json_number_end_bounds [scan_bounds]:
  assumes "parse_json_number_end t p limit = Some e"
  shows "p < e \<and> e \<le> limit"
proof -
  have frac: "number_fraction_end t q limit = Some r \<Longrightarrow> q \<le> limit \<Longrightarrow> q \<le> r \<and> r \<le> limit" for q r
    using skip_digits_bounds [of "Suc q" t limit]
    by (auto simp: number_fraction_end_def split: if_splits)
  have expo: "number_exponent_end t q limit = Some r \<Longrightarrow> q \<le> limit \<Longrightarrow> q \<le> r \<and> r \<le> limit" for q r
    using skip_digits_bounds [of "Suc q" t limit] skip_digits_bounds [of "Suc (Suc q)" t limit]
    by (auto simp: number_exponent_end_def Let_def split: if_splits)
  define s where "s = (if ch_at t p = CHR ''-'' then Suc p else p)"
  from assms have s: "p < limit" "s < limit" "is_digit (ch_at t s)"
    and r: "(case number_fraction_end t (skip_digits t s limit) limit of
        None \<Rightarrow> None | Some q \<Rightarrow> number_exponent_end t q limit) = Some e"
    by (auto simp: parse_json_number_end_def s_def Let_def split: if_splits)
  from r obtain q where "number_fraction_end t (skip_digits t s limit) limit = Some q"
    and "number_exponent_end t q limit = Some e"
    by (auto split: option.splits)
  moreover have "p < skip_digits t s limit" "skip_digits t s limit \<le> limit"
    using skip_digits_gt [OF s(2,3)] skip_digits_bounds [of s t limit] s by (auto simp: s_def)
  ultimately show ?thesis using frac expo by fastforce
qed

lemma value_end_progress:
  "parse_json_value_end_object_loop_array_loop_dom (Inl (t, p, l)) \<Longrightarrow> parse_json_value_end t p l = Some e \<Longrightarrow> p < e"
  "parse_json_value_end_object_loop_array_loop_dom (Inr (Inl (t1, p1, l1))) \<Longrightarrow> object_loop t1 p1 l1 = Some e1 \<Longrightarrow> p1 < e1"
  "parse_json_value_end_object_loop_array_loop_dom (Inr (Inr (t2, p2, l2))) \<Longrightarrow> array_loop t2 p2 l2 = Some e2 \<Longrightarrow> p2 < e2"
proof (induction arbitrary: e and e1 and e2 rule: parse_json_value_end_object_loop_array_loop.pinduct)
  case (1 t start limit)
  have "start < skip_ws t (Suc start)" using skip_ws_ge [of "Suc start" t] by simp
  with "1.prems" "1.IH"(1) [OF _ _ _ refl] "1.IH"(2) [OF _ _ _ _ refl] show ?case
    by (simp only: parse_json_value_end.psimps [OF "1.hyps"]) 
      (fastforce simp: Let_def split: if_splits dest: parse_json_string_end_bounds
         parse_json_number_end_bounds literal_end_bounds)
next
  case (2 t p limit)
  from "2.prems" obtain k where k: "parse_json_string_end t p limit = Some k"
    by (auto simp: object_loop.psimps [OF "2.hyps"] split: option.splits)
  then have pk: "p < k" by (simp add: parse_json_string_end_bounds)
  let ?p1 = "skip_ws t k"
  let ?p2 = "skip_ws t (Suc ?p1)"
  from "2.prems" k obtain v where c: "\<not> (limit \<le> ?p1 \<or> ch_at t ?p1 \<noteq> CHR '':'')" 
     and v: "parse_json_value_end t ?p2 limit = Some v"
    by (auto simp: object_loop.psimps [OF "2.hyps"] Let_def split: option.splits if_splits)
  have "?p2 < v" using "2.IH"(1) [OF k refl c refl v] .
  moreover note skip_ws_ge [of v t] skip_ws_ge [of k t] skip_ws_ge [of "Suc ?p1" t] skip_ws_ge [of "Suc (skip_ws t v)" t] 
  ultimately show ?case using "2.prems" k v c pk "2.IH"(2) [OF k refl c refl v refl]
   by (force simp: object_loop.psimps [OF "2.hyps"] Let_def split: if_splits)
next
  case (3 t p limit)
  from "3.prems" obtain v where v: "parse_json_value_end t p limit = Some v"
    by (auto simp: array_loop.psimps [OF "3.hyps"] split: option.splits)
  then have "p < v" by (rule "3.IH"(1))
  moreover note skip_ws_ge [of v t] skip_ws_ge [of "Suc (skip_ws t v)" t] 
  ultimately show ?case using "3.prems" v "3.IH"(2) [OF v refl]
    by (force simp: array_loop.psimps [OF "3.hyps"] Let_def split: if_splits)
qed

lemma skip_ws_gt: "p < q \<Longrightarrow> p < skip_ws t q"
  using skip_ws_ge [of q t] by simp

lemma span_left: "p < q \<Longrightarrow> q < l \<Longrightarrow> Suc (2 * (l - q)) < 2 * (l - p)" for p q l :: nat
  by arith

lemma span_left_le: "p < q \<Longrightarrow> 2 * (l - q) < Suc (2 * (l - p))" for p q l :: nat
  by arith

lemma skip_ws_chain: "p < q \<Longrightarrow> skip_ws t (Suc (skip_ws t q)) < a \<Longrightarrow> p < a"
  using skip_ws_ge [of q t] skip_ws_ge [of "Suc (skip_ws t q)" t] by simp

termination parse_json_value_end
  by (relation "measure (\<lambda>x. case x of Inl (t, p, l) \<Rightarrow> 2 * (l - p)
        | Inr (Inl (t, p, l)) \<Rightarrow> Suc (2 * (l - p)) | Inr (Inr (t, p, l)) \<Rightarrow> Suc (2 * (l - p)))")
    (auto dest!: value_end_progress parse_json_string_end_bounds not_le_imp_less
       intro!: span_left span_left_le diff_less_mono2 skip_ws_gt less_SucI intro: less_trans skip_ws_chain)

declare parse_json_value_end.simps [simp del] object_loop.simps [simp del]
  array_loop.simps [simp del]

lemma object_loop_eq_Some:
  "object_loop t p limit = Some e \<longleftrightarrow>
     (\<exists>k v. parse_json_string_end t p limit = Some k \<and> skip_ws t k < limit \<and>
        ch_at t (skip_ws t k) = CHR '':'' \<and>
        parse_json_value_end t (skip_ws t (Suc (skip_ws t k))) limit = Some v \<and>
        skip_ws t v < limit \<and>
        (ch_at t (skip_ws t v) = CHR '','' \<and>
           object_loop t (skip_ws t (Suc (skip_ws t v))) limit = Some e \<or>
         ch_at t (skip_ws t v) = CHR ''}'' \<and> e = Suc (skip_ws t v)))"
  by (subst object_loop.simps) (auto simp: Let_def not_le split: option.splits)

lemma array_loop_eq_Some:
  "array_loop t p limit = Some e \<longleftrightarrow>
     (\<exists>v. parse_json_value_end t p limit = Some v \<and> skip_ws t v < limit \<and>
        (ch_at t (skip_ws t v) = CHR '','' \<and>
           array_loop t (skip_ws t (Suc (skip_ws t v))) limit = Some e \<or>
         ch_at t (skip_ws t v) = CHR '']'' \<and> e = Suc (skip_ws t v)))"
  by (subst array_loop.simps) (auto simp: Let_def not_le split: option.splits)

text \<open>Every scan that succeeds consumes at least one byte and never passes its limit.\<close>

lemma value_end_bounds:
  shows parse_json_value_end_bounds [scan_bounds]:
      "parse_json_value_end t p limit = Some e \<Longrightarrow> p < e \<and> e \<le> limit"
    and object_loop_bounds [scan_bounds]:
      "object_loop t1 p1 limit1 = Some e1 \<Longrightarrow> p1 < e1 \<and> e1 \<le> limit1"
    and array_loop_bounds [scan_bounds]:
      "array_loop t2 p2 limit2 = Some e2 \<Longrightarrow> p2 < e2 \<and> e2 \<le> limit2"
proof (induction t p limit and t1 p1 limit1 and t2 p2 limit2 arbitrary: e and e1 and e2
    rule: parse_json_value_end_object_loop_array_loop.induct)
  case (1 t start limit)
  have "start < skip_ws t (Suc start)" using skip_ws_ge [of "Suc start" t] by simp
  with "1.prems" "1.IH"(1) [OF _ _ _ refl] "1.IH"(2) [OF _ _ _ _ refl] show ?case
    by (simp only: parse_json_value_end.simps [of t start limit])
      (fastforce simp: Let_def split: if_splits
        dest: parse_json_string_end_bounds parse_json_number_end_bounds literal_end_bounds)
next
  case (2 t p limit)
  from "2.prems" obtain k v where k: "parse_json_string_end t p limit = Some k"
    and c: "\<not> (limit \<le> skip_ws t k \<or> ch_at t (skip_ws t k) \<noteq> CHR '':'')"
    and v: "parse_json_value_end t (skip_ws t (Suc (skip_ws t k))) limit = Some v"
    and w: "skip_ws t v < limit" and r: "ch_at t (skip_ws t v) = CHR '','' \<and>
           object_loop t (skip_ws t (Suc (skip_ws t v))) limit = Some e1 \<or> e1 = Suc (skip_ws t v)"
    unfolding object_loop_eq_Some [of t p] by auto
  have "p < v"
    using parse_json_string_end_bounds [OF k] "2.IH"(1) [OF k refl c refl v] skip_ws_chain by blast
  moreover note skip_ws_ge [of v t] skip_ws_ge [of "Suc (skip_ws t v)" t]
  ultimately show ?case using "2.IH"(2) [OF k refl c refl v refl] w r by force
next
  case (3 t p limit)
  from "3.prems" obtain v where v: "parse_json_value_end t p limit = Some v"
    and w: "skip_ws t v < limit" and r: "ch_at t (skip_ws t v) = CHR '','' \<and>
           array_loop t (skip_ws t (Suc (skip_ws t v))) limit = Some e2 \<or> e2 = Suc (skip_ws t v)"
    unfolding array_loop_eq_Some [of t p] by auto
  note skip_ws_ge [of v t] skip_ws_ge [of "Suc (skip_ws t v)" t]
  with "3.IH"(1) [OF v] "3.IH"(2) [OF v refl] w r show ?case by force
qed

end
