(* ===== verification/Json_Grammar.thy ===== *)
theory Json_Grammar
  imports Json_Scan
begin

text \<open>
  The grammar of the JSON texts that \<open>runtime/support/json.c\<close> accepts, as predicates on
  strings, and the proof that the scanner of \<open>Json_Scan\<close> accepts exactly this grammar.
  It is the RFC 8259 grammar except that numbers may have leading zeros and that the
  white space is the C locale's \<open>isspace\<close>.
\<close>

section \<open>The grammar\<close>

definition jws :: "string \<Rightarrow> bool" where
  "jws w \<longleftrightarrow> list_all is_space w"

inductive jchars :: "string \<Rightarrow> bool" where
  jchars_Nil: "jchars []"
| jchars_plain: "\<not> is_ctrl c \<Longrightarrow> c \<noteq> DQ \<Longrightarrow> c \<noteq> BSL \<Longrightarrow> jchars w \<Longrightarrow> jchars (c # w)"
| jchars_escape: "is_simple_escape c \<Longrightarrow> jchars w \<Longrightarrow> jchars (BSL # c # w)"
| jchars_unicode: "is_xdigit a \<Longrightarrow> is_xdigit b \<Longrightarrow> is_xdigit c \<Longrightarrow> is_xdigit d \<Longrightarrow> jchars w \<Longrightarrow>
    jchars (BSL # CHR ''u'' # a # b # c # d # w)"

definition jstring :: "string \<Rightarrow> bool" where
  "jstring s \<longleftrightarrow> (\<exists>w. jchars w \<and> s = DQ # w @ [DQ])"

definition jdigits :: "string \<Rightarrow> bool" where
  "jdigits s \<longleftrightarrow> s \<noteq> [] \<and> list_all is_digit s"

definition jfraction :: "string \<Rightarrow> bool" where
  "jfraction s \<longleftrightarrow> s = [] \<or> (\<exists>ds. s = CHR ''.'' # ds \<and> jdigits ds)"

definition jexponent :: "string \<Rightarrow> bool" where
  "jexponent s \<longleftrightarrow> s = [] \<or>
     (\<exists>e sg ds. s = e # sg @ ds \<and> (e = CHR ''e'' \<or> e = CHR ''E'') \<and>
        (sg = [] \<or> sg = ''+'' \<or> sg = ''-'') \<and> jdigits ds)"

definition jnumber :: "string \<Rightarrow> bool" where
  "jnumber s \<longleftrightarrow> (\<exists>sg ds fr ex. s = sg @ ds @ fr @ ex \<and> (sg = [] \<or> sg = ''-'') \<and>
     jdigits ds \<and> jfraction fr \<and> jexponent ex)"

inductive jvalue :: "string \<Rightarrow> bool"
  and jmembers :: "string \<Rightarrow> bool"
  and jelements :: "string \<Rightarrow> bool" where
  jvalue_string: "jstring s \<Longrightarrow> jvalue s"
| jvalue_number: "jnumber s \<Longrightarrow> jvalue s"
| jvalue_true: "jvalue ''true''"
| jvalue_false: "jvalue ''false''"
| jvalue_null: "jvalue ''null''"
| jvalue_empty_object: "jws w \<Longrightarrow> jvalue (CHR ''{'' # w @ ''}'')"
| jvalue_object: "jws w \<Longrightarrow> jmembers m \<Longrightarrow> jvalue (CHR ''{'' # w @ m)"
| jvalue_empty_array: "jws w \<Longrightarrow> jvalue (CHR ''['' # w @ '']'')"
| jvalue_array: "jws w \<Longrightarrow> jelements m \<Longrightarrow> jvalue (CHR ''['' # w @ m)"
| jmembers_last: "jstring k \<Longrightarrow> jws a \<Longrightarrow> jws b \<Longrightarrow> jvalue v \<Longrightarrow> jws c \<Longrightarrow>
    jmembers (k @ a @ CHR '':'' # b @ v @ c @ ''}'')"
| jmembers_more: "jstring k \<Longrightarrow> jws a \<Longrightarrow> jws b \<Longrightarrow> jvalue v \<Longrightarrow> jws c \<Longrightarrow> jws d \<Longrightarrow> jmembers m \<Longrightarrow>
    jmembers (k @ a @ CHR '':'' # b @ v @ c @ CHR '','' # d @ m)"
| jelements_last: "jvalue v \<Longrightarrow> jws c \<Longrightarrow> jelements (v @ c @ '']'')"
| jelements_more: "jvalue v \<Longrightarrow> jws c \<Longrightarrow> jws d \<Longrightarrow> jelements m \<Longrightarrow>
    jelements (v @ c @ CHR '','' # d @ m)"

section \<open>Soundness: what the scanner accepts is in the grammar\<close>

lemma skip_ws_le: "p \<le> length t \<Longrightarrow> skip_ws t p \<le> length t"
  by (induction t p rule: skip_ws.induct) (subst skip_ws.simps, auto)

lemma jws_span_skip_ws: "p \<le> length t \<Longrightarrow> jws (span t p (skip_ws t p))"
proof (induction t p rule: skip_ws.induct)
  case (1 t p)
  show ?case
  proof (cases "p < length t \<and> is_space (t ! p)")
    case True
    then have s: "skip_ws t p = skip_ws t (Suc p)" by (subst skip_ws.simps) simp
    moreover have "p < skip_ws t (Suc p)" by (rule skip_ws_gt) simp
    ultimately show ?thesis using True "1.IH" [OF True] by (simp add: span_Cons jws_def)
  next
    case False
    then have "skip_ws t p = p" by (subst skip_ws.simps) auto
    then show ?thesis by (simp add: jws_def)
  qed
qed

lemma span_ch: "p < q \<Longrightarrow> p < length t \<Longrightarrow> span t p q = ch_at t p # span t (Suc p) q"
  by (simp add: span_Cons ch_at_nth)

lemma span_step: "p < length t \<Longrightarrow> span t p (Suc p) = [ch_at t p]"
  by (simp add: span_ch)

lemma hex4_span:
  assumes "hex4_at t p limit" and "limit \<le> length t" and "q = p + 4"
  shows "\<exists>a b c d. span t p q = [a, b, c, d] \<and> is_xdigit a \<and> is_xdigit b \<and>
    is_xdigit c \<and> is_xdigit d"
  using assms by (auto simp: hex4_at_def span_ch numeral_eq_Suc)

lemma jchars_string_body:
  "string_body_end t p limit = Some e \<Longrightarrow> limit \<le> length t \<Longrightarrow>
     \<exists>w. jchars w \<and> span t p e = w @ [DQ]"
proof (induction t p limit rule: string_body_end.induct)
  case (1 t p limit)
  from "1.prems" have pl: "p < limit" "p < length t"
    by (auto simp: string_body_end.simps [of t p] split: if_splits)
  have pe: "p < e" using string_body_end_bounds [OF "1.prems"(1)] by simp
  consider (quote) "ch_at t p = DQ" "e = Suc p"
    | (uni) "ch_at t p = BSL" "Suc p < limit" "ch_at t (Suc p) = CHR ''u''" "hex4_at t (p + 2) limit"
        "string_body_end t (p + 6) limit = Some e"
    | (esc) "ch_at t p = BSL" "Suc p < limit" "ch_at t (Suc p) \<noteq> CHR ''u''" "is_simple_escape (ch_at t (Suc p))"
        "string_body_end t (p + 2) limit = Some e"
    | (plain) "ch_at t p \<noteq> DQ" "ch_at t p \<noteq> BSL" "\<not> is_ctrl (ch_at t p)"
        "string_body_end t (Suc p) limit = Some e"
    using "1.prems"(1) by (auto simp: string_body_end.simps [of t p] Let_def not_le split: if_splits)
  then show ?case
  proof cases
    case quote
    then show ?thesis using pl by (intro exI [of _ "[]"]) (simp add: span_step jchars_Nil)
  next
    case uni
    then obtain w where w: "jchars w" "span t (p + 6) e = w @ [DQ]"
      using "1.IH"(1) [OF pl(1) refl _ uni(1)] "1.prems"(2) by auto
    obtain a b c d where h: "span t (p + 2) (p + 6) = [a, b, c, d]" "is_xdigit a" "is_xdigit b"
        "is_xdigit c" "is_xdigit d"
      using hex4_span [OF uni(4) "1.prems"(2), of "p + 6"] by auto
    have le: "p + 6 \<le> e" using string_body_end_bounds [OF uni(5)] by simp
    have "span t (p + 2) e = [a, b, c, d] @ w @ [DQ]"
      using span_append [of "p + 2" "p + 6" e t] le h w by simp
    then have "span t p e = BSL # CHR ''u'' # a # b # c # d # w @ [DQ]"
      using le uni pl "1.prems"(2) by (simp add: span_ch)
    then show ?thesis using jchars_unicode [OF h(2-5) w(1)] by fastforce
  next
    case esc
    then obtain w where w: "jchars w" "span t (p + 2) e = w @ [DQ]"
      using "1.IH"(2) [OF pl(1) refl _ esc(1)] "1.prems"(2) by auto
    have "p + 2 < e" using string_body_end_bounds [OF esc(5)] by simp
    then have "span t p e = BSL # ch_at t (Suc p) # w @ [DQ]"
      using esc pl w "1.prems"(2) by (simp add: span_ch)
    then show ?thesis using jchars_escape [OF esc(4) w(1)] by fastforce
  next
    case plain
    then obtain w where w: "jchars w" "span t (Suc p) e = w @ [DQ]"
      using "1.IH"(3) [OF pl(1) refl] "1.prems"(2) by auto
    then show ?thesis
      using plain pe pl jchars_plain [OF plain(3,1,2) w(1)] by (fastforce simp: span_ch)
  qed
qed

lemma jstring_sound:
  assumes "parse_json_string_end t p limit = Some e" and "limit \<le> length t"
  shows "jstring (span t p e)"
proof -
  have q: "ch_at t p = DQ" and b: "string_body_end t (Suc p) limit = Some e"
    using assms by (auto simp: parse_json_string_end_def split: if_splits)
  obtain w where "jchars w" "span t (Suc p) e = w @ [DQ]"
    using jchars_string_body [OF b assms(2)] by auto
  moreover have "p < e" "p < length t" using string_body_end_bounds [OF b] assms(2) by auto
  ultimately show ?thesis using q by (auto simp: jstring_def span_ch)
qed

lemma jdigits_skip_digits:
  "p < limit \<Longrightarrow> limit \<le> length t \<Longrightarrow> is_digit (ch_at t p) \<Longrightarrow> jdigits (span t p (skip_digits t p limit))"
proof (induction t p limit rule: skip_digits.induct)
  case (1 t p limit)
  then have s: "skip_digits t p limit = skip_digits t (Suc p) limit" by (subst skip_digits.simps) simp
  have gt: "p < skip_digits t (Suc p) limit" using skip_digits_bounds [of "Suc p" t limit] by simp
  show ?case
  proof (cases "Suc p < limit \<and> is_digit (ch_at t (Suc p))")
    case True
    then show ?thesis using 1 s gt by (simp add: span_ch jdigits_def)
  next
    case False
    then have "skip_digits t (Suc p) limit = Suc p" by (subst skip_digits.simps) auto
    then show ?thesis using 1 s by (simp add: span_ch jdigits_def)
  qed
qed

lemma jfraction_sound:
  "number_fraction_end t p limit = Some q \<Longrightarrow> limit \<le> length t \<Longrightarrow> p \<le> limit \<Longrightarrow>
     jfraction (span t p q) \<and> p \<le> q \<and> q \<le> limit"
  using skip_digits_bounds [of "Suc p" t limit] jdigits_skip_digits [of "Suc p" limit t]
  by (auto simp: number_fraction_end_def jfraction_def span_ch split: if_splits)

lemma jexponent_sound:
  assumes "number_exponent_end t p limit = Some r" and "limit \<le> length t" and "p \<le> limit"
  shows "jexponent (span t p r) \<and> p \<le> r"
proof (cases "p < limit \<and> (ch_at t p = CHR ''e'' \<or> ch_at t p = CHR ''E'')")
  case False
  with assms show ?thesis by (simp add: number_exponent_end_def jexponent_def)
next
  case True
  define q where "q = (if ch_at t (Suc p) = CHR ''+'' \<or> ch_at t (Suc p) = CHR ''-''
                     then Suc (Suc p) else Suc p)"
  have q: "q < limit" "is_digit (ch_at t q)" "r = skip_digits t q limit" "Suc p < limit"
    using assms True by (auto simp: number_exponent_end_def q_def Let_def split: if_splits)
  then have ds: "jdigits (span t q r)" and "q < r" "Suc p \<le> q"
    using jdigits_skip_digits [of q limit t] skip_digits_gt [of q limit t] assms
    by (auto simp: q_def)
  moreover have sg: "span t (Suc p) q = [] \<or> span t (Suc p) q = ''+'' \<or> span t (Suc p) q = ''-''"
    using q assms by (auto simp: q_def span_ch)
  ultimately have "span t p r = ch_at t p # span t (Suc p) q @ span t q r"
    using span_append [of "Suc p" q r t] q assms by (simp add: span_ch)
  then show ?thesis using True sg ds \<open>q < r\<close> \<open>Suc p \<le> q\<close> unfolding jexponent_def by auto
qed

lemma jnumber_sound:
  assumes "parse_json_number_end t p limit = Some e" and "limit \<le> length t"
  shows "jnumber (span t p e)"
proof -
  define s where "s = (if ch_at t p = CHR ''-'' then Suc p else p)"
  define d where "d = skip_digits t s limit"
  from assms obtain q where s: "p < limit" "s < limit" "is_digit (ch_at t s)"
    and q: "number_fraction_end t d limit = Some q" and e: "number_exponent_end t q limit = Some e"
    by (auto simp: parse_json_number_end_def s_def d_def Let_def split: if_splits option.splits)
  have d: "jdigits (span t s d)" "s \<le> d" "d \<le> limit" "p \<le> s"
    using s assms jdigits_skip_digits skip_digits_bounds [of s t limit] by (auto simp: d_def s_def)
  note f = jfraction_sound [OF q assms(2) d(3)]
  with jexponent_sound [OF e assms(2)] have x: "jexponent (span t q e)" "q \<le> e" by auto
  have "span t p s = [] \<or> span t p s = ''-''"
    using s assms by (auto simp: s_def span_ch)
  moreover have "span t p e = span t p s @ span t s d @ span t d q @ span t q e"
    using d f x by (simp add: span_append)
  ultimately show ?thesis using d(1) f x(1) unfolding jnumber_def by blast
qed

lemma literal_span: "literal_end lit t p limit = Some e \<Longrightarrow> span t p e = lit"
  by (auto simp: literal_end_def span_def split: if_splits)

lemma jvalue_literal:
  "literal_end lit t p limit = Some e \<Longrightarrow> lit \<in> {''true'', ''false'', ''null''} \<Longrightarrow> jvalue (span t p e)"
  by (auto simp: literal_span intro: jvalue_jmembers_jelements.intros)

lemma ws_split:
  assumes "p \<le> length t" and "skip_ws t p \<le> e"
  obtains w where "jws w" and "span t p e = w @ span t (skip_ws t p) e"
  using assms span_append [of p "skip_ws t p" e t] jws_span_skip_ws [of p t] skip_ws_ge [of p t]
  by metis

lemma parse_object_eq_Some:
  "ch_at t p = CHR ''{'' \<Longrightarrow> parse_json_value_end t p limit = Some e \<longleftrightarrow>
     skip_ws t (Suc p) < limit \<and> p < limit \<and>
     (if ch_at t (skip_ws t (Suc p)) = CHR ''}'' then e = Suc (skip_ws t (Suc p))
      else object_loop t (skip_ws t (Suc p)) limit = Some e)"
  by (subst parse_json_value_end.simps) (auto simp: Let_def)

lemma parse_array_eq_Some:
  "ch_at t p = CHR ''['' \<Longrightarrow> parse_json_value_end t p limit = Some e \<longleftrightarrow>
     skip_ws t (Suc p) < limit \<and> p < limit \<and>
     (if ch_at t (skip_ws t (Suc p)) = CHR '']'' then e = Suc (skip_ws t (Suc p))
      else array_loop t (skip_ws t (Suc p)) limit = Some e)"
  by (subst parse_json_value_end.simps) (auto simp: Let_def)

lemma parse_atom:
  "ch_at t p \<noteq> CHR ''{'' \<Longrightarrow> ch_at t p \<noteq> CHR ''['' \<Longrightarrow> parse_json_value_end t p limit =
    (if p \<ge> limit then None
     else if ch_at t p = DQ then parse_json_string_end t p limit
     else if ch_at t p = CHR ''t'' then literal_end ''true'' t p limit
     else if ch_at t p = CHR ''f'' then literal_end ''false'' t p limit
     else if ch_at t p = CHR ''n'' then literal_end ''null'' t p limit
     else if is_digit (ch_at t p) \<or> ch_at t p = CHR ''-'' then parse_json_number_end t p limit
     else None)"
  by (subst parse_json_value_end.simps) auto

lemma ws_ch_split:
  assumes "p \<le> length t" and "skip_ws t p < e" and "e \<le> length t"
  obtains w where "jws w"
    and "span t p e = w @ ch_at t (skip_ws t p) # span t (Suc (skip_ws t p)) e"
  using assms ws_split [of p t e] span_ch [of "skip_ws t p" e t] by (metis less_imp_le_nat less_le_trans)

lemma element_split:
  assumes "p \<le> v" and "skip_ws t v < e" and "e \<le> length t"
  obtains c where "jws c"
    and "span t p e = span t p v @ c @ ch_at t (skip_ws t v) # span t (Suc (skip_ws t v)) e"
  using assms ws_ch_split [of v t e] span_append [of p v e t] skip_ws_ge [of v t]
  by (metis le_trans less_imp_le_nat)

lemma member_split:
  assumes k: "parse_json_string_end t p limit = Some k"
    and a: "skip_ws t k < limit" "ch_at t (skip_ws t k) = CHR '':''"
    and v: "parse_json_value_end t (skip_ws t (Suc (skip_ws t k))) limit = Some v"
    and e: "skip_ws t v < e" "e \<le> length t"
  obtains a b c where "jws a" "jws b" "jws c"
    and "span t p e = span t p k @ a @ CHR '':'' # b @
       span t (skip_ws t (Suc (skip_ws t k))) v @ c @
       ch_at t (skip_ws t v) # span t (Suc (skip_ws t v)) e"
proof -
  let ?a = "skip_ws t k" and ?b = "skip_ws t (Suc (skip_ws t k))"
  note le = parse_json_string_end_bounds [OF k] parse_json_value_end_bounds [OF v]
    skip_ws_ge [of k t] skip_ws_ge [of "Suc ?a" t] skip_ws_ge [of v t]
  have b: "?b \<le> e" "Suc ?a \<le> length t" "k \<le> length t" "?a < e" "p \<le> k" "k \<le> e" "?b \<le> v"
    using le e by linarith+
  obtain c where c: "jws c" "span t ?b e = span t ?b v @ c @
      ch_at t (skip_ws t v) # span t (Suc (skip_ws t v)) e"
    using element_split [OF b(7) e] by blast
  obtain bb where bb: "jws bb" "span t (Suc ?a) e = bb @ span t ?b e"
    using ws_split [OF b(2,1)] by blast
  obtain aa where aa: "jws aa" "span t k e = aa @ CHR '':'' # span t (Suc ?a) e"
    using ws_ch_split [OF b(3,4) e(2)] a(2) by metis
  have "span t p e = span t p k @ span t k e" using b by (simp add: span_append)
  with aa bb c show thesis by (auto intro!: that [OF aa(1) bb(1) c(1)])
qed

lemma value_end_sound:
  shows jvalue_sound: "parse_json_value_end t p limit = Some e \<Longrightarrow> limit \<le> length t \<Longrightarrow> jvalue (span t p e)"
    and jmembers_sound: "object_loop t1 p1 limit1 = Some e1 \<Longrightarrow> limit1 \<le> length t1 \<Longrightarrow>
      jmembers (span t1 p1 e1)"
    and jelements_sound: "array_loop t2 p2 limit2 = Some e2 \<Longrightarrow> limit2 \<le> length t2 \<Longrightarrow>
      jelements (span t2 p2 e2)"
proof (induction t p limit and t1 p1 limit1 and t2 p2 limit2 arbitrary: e and e1 and e2
    rule: parse_json_value_end_object_loop_array_loop.induct)
  case (1 t start limit)
  let ?q = "skip_ws t (Suc start)"
  have st: "start < limit" "start < length t" "start < e" "e \<le> limit"
    using "1.prems"(2) parse_json_value_end_bounds [OF "1.prems"(1)] by linarith+
  have sp: "span t start e = ch_at t start # span t (Suc start) e"
    using st by (simp add: span_ch)
  consider (obj) "ch_at t start = CHR ''{''" | (arr) "ch_at t start = CHR ''[''"
    | (atom) "ch_at t start \<noteq> CHR ''{''" "ch_at t start \<noteq> CHR ''[''" by blast
  then show ?case
  proof cases
    case obj
    note o = "1.prems"(1) [unfolded parse_object_eq_Some [OF obj]]
    have "?q \<le> e" using o object_loop_bounds by (fastforce split: if_splits)
    with st obtain w where w: "jws w" "span t (Suc start) e = w @ span t ?q e"
      using ws_split [of "Suc start" t e] by (metis Suc_leI)
    show ?thesis
    proof (cases "ch_at t ?q = CHR ''}''")
      case True
      with o "1.prems"(2) have "span t ?q e = ''}''" by (simp add: span_step)
      with sp w obj show ?thesis by (simp add: jvalue_empty_object)
    next
      case False
      with o "1.IH"(1) [OF _ _ obj refl] st "1.prems"(2) obj have "jmembers (span t ?q e)" by auto
      with sp w obj show ?thesis by (simp add: jvalue_object)
    qed
  next
    case arr
    note o = "1.prems"(1) [unfolded parse_array_eq_Some [OF arr]]
    have "?q \<le> e" using o array_loop_bounds by (fastforce split: if_splits)
    with st obtain w where w: "jws w" "span t (Suc start) e = w @ span t ?q e"
      using ws_split [of "Suc start" t e] by (metis Suc_leI)
    show ?thesis
    proof (cases "ch_at t ?q = CHR '']''")
      case True
      with o "1.prems"(2) have "span t ?q e = '']''" by (simp add: span_step)
      with sp w arr show ?thesis by (simp add: jvalue_empty_array)
    next
      case False
      with o "1.IH"(2) [OF _ _ _ arr refl] st "1.prems"(2) arr have "jelements (span t ?q e)" by auto
      with sp w arr show ?thesis by (simp add: jvalue_array)
    qed
  next
    case atom
    with "1.prems" show ?thesis
      by (auto simp: parse_atom split: if_splits dest: jstring_sound jnumber_sound jvalue_literal
          intro: jvalue_jmembers_jelements.intros)
  qed
next
  case (2 t p limit)
  from "2.prems"(1) obtain k v where k: "parse_json_string_end t p limit = Some k"
    and c: "\<not> (limit \<le> skip_ws t k \<or> ch_at t (skip_ws t k) \<noteq> CHR '':'')"
    and v: "parse_json_value_end t (skip_ws t (Suc (skip_ws t k))) limit = Some v"
    and w: "skip_ws t v < limit" and r: "ch_at t (skip_ws t v) = CHR '','' \<and>
           object_loop t (skip_ws t (Suc (skip_ws t v))) limit = Some e1 \<or>
         ch_at t (skip_ws t v) = CHR ''}'' \<and> e1 = Suc (skip_ws t v)"
    unfolding object_loop_eq_Some [of t p] by auto
  have ks: "jstring (span t p k)" using jstring_sound [OF k "2.prems"(2)] .
  have vs: "jvalue (span t (skip_ws t (Suc (skip_ws t k))) v)"
    using "2.IH"(1) [OF k refl c refl v "2.prems"(2)] .
  have e: "skip_ws t v < e1" "e1 \<le> length t"
    using r object_loop_bounds [OF "2.prems"(1)] "2.prems"(2) skip_ws_ge [of "Suc (skip_ws t v)" t]
    by (auto dest!: object_loop_bounds)
  obtain a b c where ws: "jws a" "jws b" "jws c"
    and sp: "span t p e1 = span t p k @ a @ CHR '':'' # b @
       span t (skip_ws t (Suc (skip_ws t k))) v @ c @
       ch_at t (skip_ws t v) # span t (Suc (skip_ws t v)) e1"
    using member_split [OF k _ _ v e] c by (metis not_le)
  from r show ?case
  proof (elim disjE conjE)
    assume m: "ch_at t (skip_ws t v) = CHR '',''"
      "object_loop t (skip_ws t (Suc (skip_ws t v))) limit = Some e1"
    have "jmembers (span t (skip_ws t (Suc (skip_ws t v))) e1)"
      using "2.IH"(2) [OF k refl c refl v refl _ m(1,2) "2.prems"(2)] w by simp
    moreover obtain d where "jws d" "span t (Suc (skip_ws t v)) e1 =
        d @ span t (skip_ws t (Suc (skip_ws t v))) e1"
      using ws_split [of "Suc (skip_ws t v)" t e1] e w object_loop_bounds [OF m(2)] by auto
    ultimately show ?thesis using jmembers_more [OF ks ws(1,2) vs ws(3)] sp m by simp
  next
    assume "ch_at t (skip_ws t v) = CHR ''}''" "e1 = Suc (skip_ws t v)"
    then show ?thesis using jmembers_last [OF ks ws(1,2) vs ws(3)] sp by simp
  qed
next
  case (3 t p limit)
  from "3.prems" obtain v where v: "parse_json_value_end t p limit = Some v"
    and w: "skip_ws t v < limit" and r: "ch_at t (skip_ws t v) = CHR '','' \<and>
           array_loop t (skip_ws t (Suc (skip_ws t v))) limit = Some e2 \<or>
         ch_at t (skip_ws t v) = CHR '']'' \<and> e2 = Suc (skip_ws t v)"
    unfolding array_loop_eq_Some [of t p] by auto
  have vs: "jvalue (span t p v)" using "3.IH"(1) [OF v "3.prems"(2)] .
  have e: "skip_ws t v < e2" "e2 \<le> length t" "p \<le> v"
    using r array_loop_bounds [OF "3.prems"(1)] "3.prems"(2) skip_ws_ge [of "Suc (skip_ws t v)" t]
      parse_json_value_end_bounds [OF v]
    by (auto dest!: array_loop_bounds)
  obtain c where c: "jws c"
    and sp: "span t p e2 = span t p v @ c @
       ch_at t (skip_ws t v) # span t (Suc (skip_ws t v)) e2"
    using element_split [OF e(3,1,2)] by metis
  from r show ?case
  proof (elim disjE conjE)
    assume m: "ch_at t (skip_ws t v) = CHR '',''"
      "array_loop t (skip_ws t (Suc (skip_ws t v))) limit = Some e2"
    have "jelements (span t (skip_ws t (Suc (skip_ws t v))) e2)"
      using "3.IH"(2) [OF v refl _ m(1,2) "3.prems"(2)] w by simp
    moreover obtain d where "jws d" "span t (Suc (skip_ws t v)) e2 =
        d @ span t (skip_ws t (Suc (skip_ws t v))) e2"
      using ws_split [of "Suc (skip_ws t v)" t e2] e w array_loop_bounds [OF m(2)] by auto
    ultimately show ?thesis using jelements_more [OF vs c] sp m by simp
  next
    assume "ch_at t (skip_ws t v) = CHR '']''" "e2 = Suc (skip_ws t v)"
    then show ?thesis using jelements_last [OF vs c] sp by simp
  qed
qed

section \<open>Completeness: the scanner accepts all of the grammar\<close>

lemmas drop_chD = drop_Cons_ch_at [THEN conjunct1] drop_Cons_ch_at [THEN conjunct2, THEN conjunct2]

lemma skip_ws_complete:
  "drop p t = w @ r \<Longrightarrow> jws w \<Longrightarrow> r = [] \<or> \<not> is_space (hd r) \<Longrightarrow> skip_ws t p = p + length w"
proof (induction w arbitrary: p)
  case Nil
  then show ?case by (subst skip_ws.simps) (auto simp: hd_drop_conv_nth)
next
  case (Cons c w)
  then show ?case
    using drop_Cons_ch_at [of p t c "w @ r"] by (subst skip_ws.simps) (auto simp: jws_def ch_at_nth)
qed

lemma string_body_complete:
  "jchars w \<Longrightarrow> drop p t = w @ DQ # r \<Longrightarrow> p + length w < limit \<Longrightarrow>
     string_body_end t p limit = Some (Suc (p + length w))"
proof (induction arbitrary: p rule: jchars.induct)
  case jchars_Nil
  then show ?case using drop_chD by (subst string_body_end.simps) fastforce
next
  case (jchars_plain c w)
  then show ?case
    using drop_chD [of p t c "w @ DQ # r"] by (subst string_body_end.simps) (simp add: Let_def)
next
  case (jchars_escape c w)
  then have "c \<noteq> CHR ''u''" by (auto simp: is_simple_escape_def)
  then show ?case
    using jchars_escape drop_chD [of p t BSL "c # w @ DQ # r"] drop_chD [of "Suc p" t c "w @ DQ # r"]
    by (subst string_body_end.simps) (simp add: Let_def)
next
  case (jchars_unicode a b c d w)
  let ?r = "w @ DQ # r"
  note dr = drop_chD [of p t BSL "CHR ''u'' # a # b # c # d # ?r"]
    drop_chD [of "Suc p" t "CHR ''u''" "a # b # c # d # ?r"]
    drop_chD [of "p + 2" t a "b # c # d # ?r"] drop_chD [of "p + 3" t b "c # d # ?r"]
    drop_chD [of "p + 4" t c "d # ?r"] drop_chD [of "p + 5" t d ?r]
  from jchars_unicode.prems have "drop (p + 6) t = ?r" "ch_at t p = BSL" "ch_at t (Suc p) = CHR ''u''"
    and "hex4_at t (p + 2) limit"
    using dr jchars_unicode.hyps by (auto simp: hex4_at_def numeral_eq_Suc)
  then show ?case
    using jchars_unicode.IH [of "p + 6"] jchars_unicode.prems
    by (subst string_body_end.simps) (simp add: Let_def)
qed

lemma jstring_complete:
  assumes "jstring s" and "drop p t = s @ r" and "p + length s \<le> limit"
  shows "parse_json_string_end t p limit = Some (p + length s)"
proof -
  from assms(1) obtain w where w: "jchars w" "s = DQ # w @ [DQ]" by (auto simp: jstring_def)
  with assms drop_chD [of p t DQ "w @ DQ # r"] show ?thesis
    using string_body_complete [of w "Suc p" t r limit] by (simp add: parse_json_string_end_def)
qed

lemma skip_digits_complete:
  "list_all is_digit ds \<Longrightarrow> drop p t = ds @ r \<Longrightarrow> p + length ds \<le> limit \<Longrightarrow>
     p + length ds < limit \<longrightarrow> \<not> is_digit (ch_at t (p + length ds)) \<Longrightarrow>
     skip_digits t p limit = p + length ds"
proof (induction ds arbitrary: p)
  case Nil
  then show ?case by (subst skip_digits.simps) auto
next
  case (Cons d ds)
  then show ?case using drop_chD [of p t d "ds @ r"] by (subst skip_digits.simps) auto
qed

definition number_stop :: "string \<Rightarrow> nat \<Rightarrow> nat \<Rightarrow> bool" where
  "number_stop t e limit \<longleftrightarrow> (e < limit \<longrightarrow> \<not> is_digit (ch_at t e) \<and> ch_at t e \<noteq> CHR ''.'' \<and>
     ch_at t e \<noteq> CHR ''e'' \<and> ch_at t e \<noteq> CHR ''E'')"

lemma jexponent_complete:
  assumes "jexponent ex" and "drop p t = ex @ r" and "p + length ex \<le> limit"
    and "number_stop t (p + length ex) limit"
  shows "number_exponent_end t p limit = Some (p + length ex)"
proof (cases "ex = []")
  case True
  with assms show ?thesis by (auto simp: number_exponent_end_def number_stop_def)
next
  case False
  with assms(1) obtain e sg ds where ex: "ex = e # sg @ ds" and e: "e = CHR ''e'' \<or> e = CHR ''E''"
    and sg: "sg = [] \<or> sg = ''+'' \<or> sg = ''-''" and ds: "jdigits ds"
    unfolding jexponent_def by auto
  define q where "q = Suc p + length sg"
  from assms ex have d1: "ch_at t p = e" "drop (Suc p) t = sg @ ds @ r"
    using drop_chD [of p t e "sg @ ds @ r"] by auto
  then have d2: "drop q t = ds @ r" by (auto simp: q_def dest: drop_append_length)
  from ds obtain d ds' where dd: "ds = d # ds'" "is_digit d" by (cases ds) (auto simp: jdigits_def)
  then have cq: "ch_at t q = d" using d2 drop_chD by fastforce
  have q: "q = (if ch_at t (Suc p) = CHR ''+'' \<or> ch_at t (Suc p) = CHR ''-''
                     then Suc (Suc p) else Suc p)"
    using sg d1 dd drop_chD [of "Suc p" t] by (auto simp: q_def char_class_defs)
  have "skip_digits t q limit = q + length ds"
    using ds d2 assms ex by (intro skip_digits_complete [of ds q t r])
      (auto simp: jdigits_def q_def number_stop_def add_ac)
  moreover have "q + length ds = p + length ex" "q < limit" "Suc p < limit" "p < limit"
    using assms(3) ex dd by (auto simp: q_def)
  moreover have "number_exponent_end t p limit = Some (skip_digits t q limit)"
    unfolding number_exponent_end_def Let_def q [symmetric]
    using calculation e d1(1) cq dd(2) by auto
  ultimately show ?thesis by simp
qed

lemma jfraction_complete:
  assumes "jfraction fr" and "drop p t = fr @ r" and "p + length fr \<le> limit"
    and "p + length fr < limit \<longrightarrow> \<not> is_digit (ch_at t (p + length fr)) \<and> ch_at t (p + length fr) \<noteq> CHR ''.''"
  shows "number_fraction_end t p limit = Some (p + length fr)"
proof (cases fr)
  case Nil
  with assms show ?thesis by (auto simp: number_fraction_end_def)
next
  case (Cons c ds)
  with assms(1) have c: "c = CHR ''.''" "jdigits ds" by (auto simp: jfraction_def)
  then obtain d ds' where dd: "ds = d # ds'" "is_digit d" by (cases ds) (auto simp: jdigits_def)
  from assms Cons have d1: "ch_at t p = c" "drop (Suc p) t = ds @ r" "ch_at t (Suc p) = d"
    using drop_chD [of p t c "ds @ r"] drop_chD [of "Suc p" t d "ds' @ r"] dd by auto
  have "skip_digits t (Suc p) limit = Suc p + length ds"
    using c d1 assms Cons by (intro skip_digits_complete [of ds "Suc p" t r]) (auto simp: jdigits_def)
  then show ?thesis using Cons c d1 dd assms(3) by (simp add: number_fraction_end_def)
qed

lemma jnumber_complete:
  assumes "jnumber s" and "drop p t = s @ r" and "p + length s \<le> limit"
    and "number_stop t (p + length s) limit"
  shows "parse_json_number_end t p limit = Some (p + length s)"
proof -
  from assms(1) obtain sg ds fr ex where s: "s = sg @ ds @ fr @ ex" and sg: "sg = [] \<or> sg = ''-''"
    and ds: "jdigits ds" and fr: "jfraction fr" and ex: "jexponent ex"
    unfolding jnumber_def by blast
  define q1 where "q1 = p + length sg"
  define q2 where "q2 = q1 + length ds"
  define q3 where "q3 = q2 + length fr"
  have dr: "drop q1 t = ds @ fr @ ex @ r" "drop q2 t = fr @ ex @ r" "drop q3 t = ex @ r"
    using assms(2) s unfolding q1_def q2_def q3_def
    by (metis append.assoc drop_append_length)+
  have lim: "q3 + length ex \<le> limit" "q3 + length ex = p + length s"
    using assms(3) s by (auto simp: q1_def q2_def q3_def)
  have stop3: "q3 < limit \<longrightarrow> \<not> is_digit (ch_at t q3) \<and> ch_at t q3 \<noteq> CHR ''.''"
  proof (cases ex)
    case Nil
    then show ?thesis using assms(4) lim by (auto simp: number_stop_def)
  next
    case (Cons c w)
    then have "c = CHR ''e'' \<or> c = CHR ''E''" using ex by (auto simp: jexponent_def)
    then show ?thesis using Cons dr(3) drop_chD [of q3 t c "w @ r"] by (auto simp: char_class_defs)
  qed
  have stop2: "q2 < limit \<longrightarrow> \<not> is_digit (ch_at t q2)"
  proof (cases fr)
    case Nil
    then show ?thesis using stop3 by (simp add: q3_def)
  next
    case (Cons c w)
    then have "c = CHR ''.''" using fr by (auto simp: jfraction_def)
    then show ?thesis using Cons dr(2) drop_chD [of q2 t c "w @ ex @ r"] by (auto simp: char_class_defs)
  qed
  obtain d ds' where dd: "ds = d # ds'" "is_digit d" using ds by (cases ds) (auto simp: jdigits_def)
  have q1: "ch_at t q1 = d" "q1 < limit" using dr(1) dd drop_chD [of q1 t d] lim by (auto simp: q2_def q3_def)
  have "q1 = (if ch_at t p = CHR ''-'' then Suc p else p)"
    using sg assms(2) s q1 dd drop_chD [of p t] by (auto simp: q1_def char_class_defs)
  moreover have "skip_digits t q1 limit = q2"
    unfolding q2_def using ds dr(1) lim stop2
    by (intro skip_digits_complete [of ds q1 t "fr @ ex @ r"]) (auto simp: jdigits_def q2_def q3_def)
  moreover have "number_fraction_end t q2 limit = Some q3"
    unfolding q3_def using fr dr(2) lim stop3
    by (intro jfraction_complete [of fr q2 t "ex @ r"]) (auto simp: q3_def)
  moreover have "number_exponent_end t q3 limit = Some (p + length s)"
    using jexponent_complete [OF ex dr(3) lim(1)] assms(4) lim(2) by simp
  ultimately show ?thesis
    using q1 dd by (auto simp: parse_json_number_end_def Let_def split: if_splits)
qed


definition value_start :: "char \<Rightarrow> bool" where
  "value_start c \<longleftrightarrow> \<not> is_space c \<and> c \<noteq> CHR '']'' \<and> c \<noteq> CHR ''}''"

lemma value_start_simps [simp]:
  "value_start DQ" "value_start (CHR ''{'')" "value_start (CHR ''['')" "value_start (CHR ''t'')"
  "value_start (CHR ''f'')" "value_start (CHR ''n'')" "value_start (CHR ''-'')"
  by (simp_all add: value_start_def char_class_defs)

lemma value_start_digit [simp]: "is_digit c \<Longrightarrow> value_start c"
  by (auto simp: value_start_def char_class_defs)

lemma jnumber_start: "jnumber s \<Longrightarrow> \<exists>c w. s = c # w \<and> (is_digit c \<or> c = CHR ''-'')"
  by (auto simp: jnumber_def jdigits_def neq_Nil_conv)

lemma jvalue_hd:
  shows "jvalue v \<Longrightarrow> v \<noteq> [] \<and> value_start (hd v)"
    and "jmembers m \<Longrightarrow> m \<noteq> [] \<and> hd m = DQ"
    and "jelements l \<Longrightarrow> l \<noteq> [] \<and> value_start (hd l)"
proof (induction rule: jvalue_jmembers_jelements.inducts)
  case (jvalue_number s)
  then show ?case using jnumber_start [of s] by auto
qed (auto simp: jstring_def)

lemma jvalue_start:
  shows "jvalue v \<Longrightarrow> \<exists>c w. v = c # w \<and> value_start c"
    and "jmembers m \<Longrightarrow> \<exists>w. m = DQ # w"
    and "jelements l \<Longrightarrow> \<exists>c w. l = c # w \<and> value_start c"
  by (metis jvalue_hd list.collapse)+

lemma skip_ws_to:
  assumes "drop p t = w @ c # r" and "jws w" and "\<not> is_space c"
  shows "skip_ws t p = p + length w" and "ch_at t (p + length w) = c"
    and "drop (p + length w) t = c # r" and "drop (Suc (p + length w)) t = r"
  using assms skip_ws_complete [of p t w "c # r"] drop_append_length [of p t w "c # r"]
    drop_chD [of "p + length w" t c r] by simp_all

lemma number_stop_ws:
  assumes "drop p t = c @ d # r" and "jws c" and "d = CHR '','' \<or> d = CHR ''}'' \<or> d = CHR '']''"
  shows "number_stop t p limit"
proof (cases c)
  case Nil
  then show ?thesis using assms drop_chD [of p t d r] by (auto simp: number_stop_def char_class_defs)
next
  case (Cons x y)
  then have "ch_at t p = x" "is_space x" using assms drop_chD [of p t x "y @ d # r"] by (auto simp: jws_def)
  then show ?thesis by (auto simp: number_stop_def char_class_defs)
qed

lemma literal_complete:
  "drop p t = lit @ r \<Longrightarrow> p + length lit \<le> limit \<Longrightarrow> literal_end lit t p limit = Some (p + length lit)"
  by (auto simp: literal_end_def)

lemma element_positions:
  assumes d: "drop p t = v @ c @ x # r" and ws: "jws c"
    and x: "x = CHR '','' \<or> x = CHR ''}'' \<or> x = CHR '']''"
  shows "skip_ws t (p + length v) = p + length v + length c"
    and "ch_at t (p + length v + length c) = x"
    and "drop (Suc (p + length v + length c)) t = r" and "number_stop t (p + length v) limit"
proof -
  have d': "drop (p + length v) t = c @ x # r" using d by (rule drop_append_length)
  moreover have "\<not> is_space x" using x by (auto simp: char_class_defs)
  ultimately show "skip_ws t (p + length v) = p + length v + length c"
    and "ch_at t (p + length v + length c) = x"
    and "drop (Suc (p + length v + length c)) t = r" and "number_stop t (p + length v) limit"
    using skip_ws_to [OF d' ws] number_stop_ws [OF d' ws x] by auto
qed

lemma member_positions:
  assumes d: "drop p t = k @ a @ CHR '':'' # b @ v @ r" and k: "jstring k" and ws: "jws a" "jws b"
    and v: "jvalue v" and lim: "p + length k \<le> limit"
  defines "q \<equiv> p + length k + length a + 1 + length b"
  shows "parse_json_string_end t p limit = Some (p + length k)"
    and "skip_ws t (p + length k) = p + length k + length a"
    and "ch_at t (p + length k + length a) = CHR '':''"
    and "skip_ws t (Suc (p + length k + length a)) = q" and "drop q t = v @ r"
proof -
  show "parse_json_string_end t p limit = Some (p + length k)" using jstring_complete [OF k d lim] .
  have d1: "drop (p + length k) t = a @ CHR '':'' # b @ v @ r" using d by (rule drop_append_length)
  have "\<not> is_space (CHR '':'')" by (simp add: char_class_defs)
  note s1 = skip_ws_to [OF d1 ws(1) this]
  show "skip_ws t (p + length k) = p + length k + length a"
    and "ch_at t (p + length k + length a) = CHR '':''" using s1 by auto
  obtain c w where c: "v = c # w" "\<not> is_space c" using jvalue_start(1) [OF v] by (auto simp: value_start_def)
  with s1(4) have "drop (Suc (p + length k + length a)) t = b @ c # w @ r" by simp
  from skip_ws_to [OF this ws(2) c(2)] show "skip_ws t (Suc (p + length k + length a)) = q"
    and "drop q t = v @ r" using c by (simp_all add: q_def)
qed

lemma value_end_complete:
  shows jvalue_complete: "jvalue v \<Longrightarrow> drop p t = v @ r \<Longrightarrow> p + length v \<le> limit \<Longrightarrow>
      number_stop t (p + length v) limit \<Longrightarrow> parse_json_value_end t p limit = Some (p + length v)"
    and jmembers_complete: "jmembers m \<Longrightarrow> drop p1 t = m @ r1 \<Longrightarrow> p1 + length m \<le> limit \<Longrightarrow>
      object_loop t p1 limit = Some (p1 + length m)"
    and jelements_complete: "jelements l \<Longrightarrow> drop p2 t = l @ r2 \<Longrightarrow> p2 + length l \<le> limit \<Longrightarrow>
      array_loop t p2 limit = Some (p2 + length l)"
proof (induction arbitrary: p r and p1 r1 and p2 r2 rule: jvalue_jmembers_jelements.inducts)
  case (jvalue_string s)
  then show ?case using jstring_complete [of s p t r limit] drop_chD [of p t DQ]
    by (subst parse_atom) (auto simp: jstring_def)
next
  case (jvalue_number s)
  then obtain c w where c: "s = c # w" "is_digit c \<or> c = CHR ''-''" using jnumber_start by blast
  then have "ch_at t p = c" using jvalue_number drop_chD [of p t c "w @ r"] by auto
  then show ?case using jvalue_number jnumber_complete [of s p t r limit] c
    by (subst parse_atom) (auto simp: char_class_defs)
next
  case jvalue_true
  then show ?case using literal_complete [of p t "''true''"] drop_chD [of p t "CHR ''t''"]
    by (subst parse_atom) auto
next
  case jvalue_false
  then show ?case using literal_complete [of p t "''false''"] drop_chD [of p t "CHR ''f''"]
    by (subst parse_atom) auto
next
  case jvalue_null
  then show ?case using literal_complete [of p t "''null''"] drop_chD [of p t "CHR ''n''"]
    by (subst parse_atom) auto
next
  case (jvalue_empty_object w)
  note d = drop_chD [of p t "CHR ''{''" "w @ CHR ''}'' # r"]
  have "skip_ws t (Suc p) = Suc p + length w" "ch_at t (Suc p + length w) = CHR ''}''"
    using skip_ws_to [of "Suc p" t w "CHR ''}''" r] jvalue_empty_object d by (auto simp: char_class_defs)
  then show ?case using jvalue_empty_object d by (subst parse_object_eq_Some) auto
next
  case (jvalue_object w m)
  obtain m' where m: "m = DQ # m'" using jvalue_start(2) [OF jvalue_object(2)] by blast
  note d = drop_chD [of p t "CHR ''{''" "w @ m @ r"]
  have s: "skip_ws t (Suc p) = Suc p + length w" "ch_at t (Suc p + length w) = DQ"
      "drop (Suc p + length w) t = m @ r"
    using skip_ws_to [of "Suc p" t w DQ "m' @ r"] jvalue_object d m by (auto simp: char_class_defs)
  then show ?case using jvalue_object.IH(1) [OF s(3)] jvalue_object.prems d m
    by (subst parse_object_eq_Some) auto
next
  case (jvalue_empty_array w)
  note d = drop_chD [of p t "CHR ''[''" "w @ CHR '']'' # r"]
  have "skip_ws t (Suc p) = Suc p + length w" "ch_at t (Suc p + length w) = CHR '']''"
    using skip_ws_to [of "Suc p" t w "CHR '']''" r] jvalue_empty_array d by (auto simp: char_class_defs)
  then show ?case using jvalue_empty_array d by (subst parse_array_eq_Some) auto
next
  case (jvalue_array w m)
  obtain c m' where m: "m = c # m'" "value_start c" using jvalue_start(3) [OF jvalue_array(2)] by blast
  note d = drop_chD [of p t "CHR ''[''" "w @ m @ r"]
  have s: "skip_ws t (Suc p) = Suc p + length w" "ch_at t (Suc p + length w) = c"
      "drop (Suc p + length w) t = m @ r"
    using skip_ws_to [of "Suc p" t w c "m' @ r"] jvalue_array d m by (auto simp: value_start_def)
  then show ?case using jvalue_array.IH(1) [OF s(3)] jvalue_array.prems d m
    by (subst parse_array_eq_Some) (auto simp: value_start_def)
next
  case (jmembers_last k a b v c)
  let ?q = "p1 + length k + length a + 1 + length b"
  have d: "drop p1 t = k @ a @ CHR '':'' # b @ v @ c @ CHR ''}'' # r1" using jmembers_last.prems by simp
  have "p1 + length k \<le> limit" using jmembers_last.prems by simp
  note m = member_positions [OF d jmembers_last.hyps(1-3) \<open>jvalue v\<close> this]
  note e = element_positions [OF m(5) \<open>jws c\<close>]
  have "parse_json_value_end t ?q limit = Some (?q + length v)"
    using jmembers_last.IH(1) [OF m(5)] e jmembers_last.prems by simp
  then show ?case using m e jmembers_last.prems by (subst object_loop_eq_Some) auto
next
  case (jmembers_more k a b v c d m)
  let ?q = "p1 + length k + length a + 1 + length b"
  have d: "drop p1 t = k @ a @ CHR '':'' # b @ v @ c @ CHR '','' # d @ m @ r1"
    using jmembers_more.prems by simp
  have "p1 + length k \<le> limit" using jmembers_more.prems by simp
  note m = member_positions [OF d jmembers_more.hyps(1-3) \<open>jvalue v\<close> this]
  note e = element_positions [OF m(5) \<open>jws c\<close>]
  have v: "parse_json_value_end t ?q limit = Some (?q + length v)"
    using jmembers_more.IH(1) [OF m(5)] e jmembers_more.prems by simp
  obtain m' where m': "m = DQ # m'" using jvalue_start(2) [OF \<open>jmembers m\<close>] by blast
  let ?s = "Suc (?q + length v + length c)"
  have "drop ?s t = d @ DQ # m' @ r1" using e m' by simp
  from skip_ws_to [OF this \<open>jws d\<close>] m' have s: "skip_ws t ?s = ?s + length d"
    "drop (?s + length d) t = m @ r1" by (auto simp: char_class_defs)
  have "object_loop t (?s + length d) limit = Some (?s + length d + length m)"
    using jmembers_more.IH(2) [OF s(2)] jmembers_more.prems by simp
  then show ?case using m e v s jmembers_more.prems by (subst object_loop_eq_Some) auto
next
  case (jelements_last v c)
  note e = element_positions [of p2 t v c "CHR '']''" r2]
  have "parse_json_value_end t p2 limit = Some (p2 + length v)"
    using jelements_last e by (intro jelements_last.IH(1) [of _ "c @ CHR '']'' # r2"]) auto
  then show ?case using e jelements_last by (subst array_loop_eq_Some) auto
next
  case (jelements_more v c d m)
  note e = element_positions [of p2 t v c "CHR '',''" "d @ m @ r2"]
  have v: "parse_json_value_end t p2 limit = Some (p2 + length v)"
    using jelements_more e by (intro jelements_more.IH(1) [of _ "c @ CHR '','' # d @ m @ r2"]) auto
  obtain x m' where m': "m = x # m'" "\<not> is_space x"
    using jvalue_start(3) [OF \<open>jelements m\<close>] by (auto simp: value_start_def)
  let ?s = "Suc (p2 + length v + length c)"
  have "drop ?s t = d @ x # m' @ r2" using e m' jelements_more by simp
  from skip_ws_to [OF this \<open>jws d\<close>] m' have s: "skip_ws t ?s = ?s + length d"
    "drop (?s + length d) t = m @ r2" by auto
  have "array_loop t (?s + length d) limit = Some (?s + length d + length m)"
    using jelements_more.IH(2) [OF s(2)] jelements_more.prems by simp
  then show ?case using e v s jelements_more by (subst array_loop_eq_Some) auto
qed

end
