(* ===== verification/Json_Ref.thy ===== *)
theory Json_Ref
  imports Json_Grammar
begin

text \<open>
  The accessors of \<open>runtime/support/json.c\<close>: \<open>JsonRef\<close> values (spans of a text with the
  type of their first byte), construction from a text, object and array access, string
  decoding and scalar conversion. A \<open>const char *\<close> argument is the C string it points
  to; the guards for \<open>NULL\<close> pointers have no counterpart. Where a function fills a caller's
  buffer, the model returns the bytes written: \<open>json_ref_string_copy\<close> returns its success
  flag with the bytes it wrote even when it fails, since callers that ignore the return
  code keep them.
\<close>

unbundle bit_operations_syntax

section \<open>Spans\<close>

datatype json_ref_type =
    JSON_REF_INVALID | JSON_REF_OBJECT | JSON_REF_ARRAY | JSON_REF_STRING
  | JSON_REF_NUMBER | JSON_REF_BOOL | JSON_REF_NULL

record json_ref =
  jr_json :: string
  jr_start :: nat
  jr_end :: nat
  jr_type :: json_ref_type

definition json_ref_infer_type :: "char \<Rightarrow> json_ref_type" where
  "json_ref_infer_type c =
     (if c = CHR ''{'' then JSON_REF_OBJECT
      else if c = CHR ''['' then JSON_REF_ARRAY
      else if c = DQ then JSON_REF_STRING
      else if c = CHR ''t'' \<or> c = CHR ''f'' then JSON_REF_BOOL
      else if c = CHR ''n'' then JSON_REF_NULL
      else if is_digit c \<or> c = CHR ''-'' then JSON_REF_NUMBER
      else JSON_REF_INVALID)"

definition mk_ref :: "string \<Rightarrow> nat \<Rightarrow> nat \<Rightarrow> json_ref" where
  "mk_ref t s e = \<lparr>jr_json = t, jr_start = s, jr_end = e,
     jr_type = json_ref_infer_type (ch_at t s)\<rparr>"

lemma mk_ref_sel [simp]:
  "jr_json (mk_ref t s e) = t" "jr_start (mk_ref t s e) = s" "jr_end (mk_ref t s e) = e"
  "jr_type (mk_ref t s e) = json_ref_infer_type (ch_at t s)"
  by (simp_all add: mk_ref_def)

definition json_ref_init_span :: "string \<Rightarrow> nat \<Rightarrow> nat \<Rightarrow> json_ref option" where
  "json_ref_init_span t s e =
     (if e < s then None
      else if jr_type (mk_ref t s e) = JSON_REF_INVALID then None
      else Some (mk_ref t s e))"

definition json_ref_from_text :: "string \<Rightarrow> json_ref option" where
  "json_ref_from_text t =
     (let start = skip_ws t 0 in
      if ch_at t start = NUL then None
      else
        (case parse_json_value_end t start (length t) of
           None \<Rightarrow> None
         | Some e \<Rightarrow>
             if ch_at t (skip_ws t e) \<noteq> NUL then None
             else json_ref_init_span t start e))"

definition json_ref_top_object :: "string \<Rightarrow> json_ref option" where
  "json_ref_top_object t =
     (case json_ref_from_text t of
        None \<Rightarrow> None
      | Some r \<Rightarrow> if jr_type r \<noteq> JSON_REF_OBJECT then None else Some r)"

function first_object_from :: "string \<Rightarrow> nat \<Rightarrow> json_ref option" where
  "first_object_from t offset =
     (if offset < length t then
        (if t ! offset \<noteq> CHR ''{'' then first_object_from t (Suc offset)
         else
           (case parse_json_value_end t offset (length t) of
              None \<Rightarrow> first_object_from t (Suc offset)
            | Some e \<Rightarrow> json_ref_init_span t offset e))
      else None)"
  by pat_completeness auto
termination
  by (relation "measure (\<lambda>(t, p). length t - p)") auto

declare first_object_from.simps [simp del]

definition json_ref_first_object :: "string \<Rightarrow> json_ref option" where
  "json_ref_first_object t = first_object_from t 0"

section \<open>String decoding\<close>

definition hex_value :: "char \<Rightarrow> nat option" where
  "hex_value c =
     (if 48 \<le> byte c \<and> byte c \<le> 57 then Some (byte c - 48)
      else if 97 \<le> byte c \<and> byte c \<le> 102 then Some (10 + (byte c - 97))
      else if 65 \<le> byte c \<and> byte c \<le> 70 then Some (10 + (byte c - 65))
      else None)"

fun hex_digits :: "nat \<Rightarrow> string \<Rightarrow> nat option" where
  "hex_digits value [] = Some value"
| "hex_digits value (c # cs) =
     (case hex_value c of
        None \<Rightarrow> None
      | Some hv \<Rightarrow> hex_digits (push_bit 4 value OR hv) cs)"

definition parse_hex4 :: "string \<Rightarrow> nat \<Rightarrow> nat \<Rightarrow> nat option" where
  "parse_hex4 t p limit =
     (if p + 4 > limit then None
      else hex_digits 0 [ch_at t p, ch_at t (p + 1), ch_at t (p + 2), ch_at t (p + 3)])"

text \<open>\<open>utf8_write\<close> appends the encoding of a code point to the bytes already written.\<close>

definition utf8_write :: "nat \<Rightarrow> string \<Rightarrow> nat \<Rightarrow> string option" where
  "utf8_write cp out out_len =
     (if length out \<ge> out_len then None
      else if cp \<le> 0x7F then
        (if length out + 1 \<ge> out_len then None else Some (out @ [char_of cp]))
      else if cp \<le> 0x7FF then
        (if length out + 2 \<ge> out_len then None
         else Some (out @ [char_of (0xC0 OR drop_bit 6 cp), char_of (0x80 OR (cp AND 0x3F))]))
      else if cp \<le> 0xFFFF then
        (if length out + 3 \<ge> out_len then None
         else Some (out @ [char_of (0xE0 OR drop_bit 12 cp),
           char_of (0x80 OR (drop_bit 6 cp AND 0x3F)), char_of (0x80 OR (cp AND 0x3F))]))
      else if cp \<le> 0x10FFFF then
        (if length out + 4 \<ge> out_len then None
         else Some (out @ [char_of (0xF0 OR drop_bit 18 cp),
           char_of (0x80 OR (drop_bit 12 cp AND 0x3F)),
           char_of (0x80 OR (drop_bit 6 cp AND 0x3F)), char_of (0x80 OR (cp AND 0x3F))]))
      else None)"

definition simple_escape_value :: "char \<Rightarrow> char option" where
  "simple_escape_value c =
     (if c = DQ \<or> c = BSL \<or> c = CHR ''/'' then Some c
      else if c = CHR ''b'' then Some (CHR 0x08)
      else if c = CHR ''f'' then Some (CHR 0x0C)
      else if c = CHR ''n'' then Some (CHR 0x0A)
      else if c = CHR ''r'' then Some (CHR 0x0D)
      else if c = CHR ''t'' then Some (CHR 0x09)
      else None)"

text \<open>The code point of a \<open>\u\<close> escape whose hex digits start at \<open>p\<close>, with the offset after it.\<close>

definition unicode_escape :: "string \<Rightarrow> nat \<Rightarrow> nat \<Rightarrow> (nat \<times> nat) option" where
  "unicode_escape t p vend =
     (case parse_hex4 t p vend of
        None \<Rightarrow> None
      | Some hi \<Rightarrow>
          (if 0xD800 \<le> hi \<and> hi \<le> 0xDBFF then
             (if p + 4 + 2 \<ge> vend \<or> ch_at t (p + 4) \<noteq> BSL \<or> ch_at t (p + 5) \<noteq> CHR ''u'' then None
              else
                (case parse_hex4 t (p + 6) vend of
                   None \<Rightarrow> None
                 | Some lo \<Rightarrow>
                     if lo < 0xDC00 \<or> lo > 0xDFFF then None
                     else Some (0x10000 + (push_bit 10 (hi - 0xD800) OR (lo - 0xDC00)), p + 10)))
           else if 0xDC00 \<le> hi \<and> hi \<le> 0xDFFF then None
           else Some (hi, p + 4)))"

lemma unicode_escape_gt: "unicode_escape t p vend = Some (cp, q) \<Longrightarrow> p < q"
  by (auto simp: unicode_escape_def split: option.splits if_splits)

function string_copy_loop :: "string \<Rightarrow> nat \<Rightarrow> nat \<Rightarrow> nat \<Rightarrow> string \<Rightarrow> bool \<times> string" where
  "string_copy_loop t p vend out_len out =
     (if p < vend then
        (let ch = ch_at t p in
         if ch = DQ then (length out < out_len, out)
         else if ch = BSL then
           (if Suc p \<ge> vend then (False, out)
            else
              (case simple_escape_value (ch_at t (Suc p)) of
                 Some d \<Rightarrow>
                   (if length out + 1 \<ge> out_len then (False, out)
                    else string_copy_loop t (p + 2) vend out_len (out @ [d]))
               | None \<Rightarrow>
                   (if ch_at t (Suc p) \<noteq> CHR ''u'' then (False, out)
                    else
                      (case unicode_escape t (p + 2) vend of
                         None \<Rightarrow> (False, out)
                       | Some (cp, q) \<Rightarrow>
                           (case utf8_write cp out out_len of
                              None \<Rightarrow> (False, out)
                            | Some out' \<Rightarrow> string_copy_loop t q vend out_len out')))))
         else if length out + 1 \<ge> out_len then (False, out)
         else if is_ctrl ch then (False, out)
         else string_copy_loop t (Suc p) vend out_len (out @ [ch]))
      else (False, out))"
  by pat_completeness auto
termination
  by (relation "measure (\<lambda>(t, p, vend, out_len, out). vend - p)")
    (auto dest!: unicode_escape_gt)

declare string_copy_loop.simps [simp del]

definition json_ref_string_copy :: "json_ref \<Rightarrow> nat \<Rightarrow> bool \<times> string" where
  "json_ref_string_copy v out_len =
     (if out_len = 0 \<or> jr_type v \<noteq> JSON_REF_STRING \<or> ch_at (jr_json v) (jr_start v) \<noteq> DQ \<or>
         jr_start v \<ge> jr_end v then (False, [])
      else string_copy_loop (jr_json v) (Suc (jr_start v)) (jr_end v) out_len [])"

section \<open>Objects\<close>

text \<open>
  The member loop of \<open>json_ref_object_get\<close>. A key that does not decode into the 256-byte
  buffer ends the lookup.
\<close>

function object_get_loop :: "string \<Rightarrow> nat \<Rightarrow> nat \<Rightarrow> string \<Rightarrow> (nat \<times> nat) option" where
  "object_get_loop t p oend key =
     (case parse_json_string_end t p oend of
        None \<Rightarrow> None
      | Some key_end \<Rightarrow>
          (case json_ref_string_copy
                  \<lparr>jr_json = t, jr_start = p, jr_end = key_end, jr_type = JSON_REF_STRING\<rparr> 256 of
             (False, _) \<Rightarrow> None
           | (True, key_decoded) \<Rightarrow>
               (let p1 = skip_ws t key_end in
                if p1 \<ge> oend \<or> ch_at t p1 \<noteq> CHR '':'' then None
                else
                  (let p2 = skip_ws t (Suc p1) in
                   case parse_json_value_end t p2 oend of
                     None \<Rightarrow> None
                   | Some value_end \<Rightarrow>
                       if cstr key_decoded = key then Some (p2, value_end)
                       else
                         (let p3 = skip_ws t value_end in
                          if p3 \<ge> oend then None
                          else if ch_at t p3 = CHR '',''
                            then object_get_loop t (skip_ws t (Suc p3)) oend key
                          else None)))))"
  by pat_completeness auto
termination
  by (relation "measure (\<lambda>(t, p, oend, key). oend - p)")
    (auto dest!: scan_bounds not_le_imp_less
       intro!: diff_less_mono2 skip_ws_gt less_SucI intro: less_trans skip_ws_chain)

declare object_get_loop.simps [simp del]

definition json_ref_object_get :: "json_ref \<Rightarrow> string \<Rightarrow> json_ref option" where
  "json_ref_object_get obj key =
     (if jr_type obj \<noteq> JSON_REF_OBJECT \<or> Suc (jr_start obj) > jr_end obj then None
      else
        (let p = skip_ws (jr_json obj) (Suc (jr_start obj)) in
         if p > jr_end obj then None
         else if p = jr_end obj - 1 \<and> ch_at (jr_json obj) p = CHR ''}'' then None
         else map_option (\<lambda>(vs, ve). mk_ref (jr_json obj) vs ve)
                (object_get_loop (jr_json obj) p (jr_end obj) key)))"

datatype iter_result = Iter_Error | Iter_End | Iter_Entry string json_ref nat

function object_iter_loop :: "string \<Rightarrow> nat \<Rightarrow> nat \<Rightarrow> nat \<Rightarrow> nat \<Rightarrow> nat \<Rightarrow> iter_result" where
  "object_iter_loop t p oend pos cursor key_out_len =
     (case parse_json_string_end t p oend of
        None \<Rightarrow> Iter_Error
      | Some key_end \<Rightarrow>
          (let p1 = skip_ws t key_end; p2 = skip_ws t (Suc p1) in
           if pos = cursor then
             (case json_ref_string_copy
                     \<lparr>jr_json = t, jr_start = p, jr_end = key_end, jr_type = JSON_REF_STRING\<rparr>
                     key_out_len of
                (False, _) \<Rightarrow> Iter_Error
              | (True, key) \<Rightarrow>
                  (if p1 \<ge> oend \<or> ch_at t p1 \<noteq> CHR '':'' then Iter_Error
                   else
                     (case parse_json_value_end t p2 oend of
                        None \<Rightarrow> Iter_Error
                      | Some value_end \<Rightarrow> Iter_Entry (cstr key) (mk_ref t p2 value_end) (Suc pos))))
           else if p1 \<ge> oend \<or> ch_at t p1 \<noteq> CHR '':'' then Iter_Error
           else
             (case parse_json_value_end t p2 oend of
                None \<Rightarrow> Iter_Error
              | Some value_end \<Rightarrow>
                  (let p3 = skip_ws t value_end in
                   if p3 \<ge> oend then Iter_End
                   else if ch_at t p3 = CHR ''}'' then Iter_End
                   else object_iter_loop t
                          (if ch_at t p3 = CHR '','' then skip_ws t (Suc p3) else p3)
                          oend (Suc pos) cursor key_out_len))))"
  by pat_completeness auto
termination
  by (relation "measure (\<lambda>(t, p, oend, pos, cursor, n). oend - p)")
    (auto dest!: scan_bounds not_le_imp_less
       intro!: diff_less_mono2 skip_ws_gt less_SucI intro: less_trans skip_ws_chain)

declare object_iter_loop.simps [simp del]

definition json_ref_object_iter :: "json_ref \<Rightarrow> nat \<Rightarrow> nat \<Rightarrow> iter_result" where
  "json_ref_object_iter obj cursor key_out_len =
     (if key_out_len = 0 \<or> jr_type obj \<noteq> JSON_REF_OBJECT then Iter_Error
      else
        (let p = skip_ws (jr_json obj) (Suc (jr_start obj)) in
         if p \<ge> jr_end obj \<or> ch_at (jr_json obj) p = CHR ''}'' then Iter_End
         else object_iter_loop (jr_json obj) p (jr_end obj) 0 cursor key_out_len))"

section \<open>Arrays\<close>

fun array_get_loop :: "string \<Rightarrow> nat \<Rightarrow> nat \<Rightarrow> nat \<Rightarrow> (nat \<times> nat) option" where
  "array_get_loop t p aend 0 =
     map_option (Pair p) (parse_json_value_end t p aend)"
| "array_get_loop t p aend (Suc left) =
     (case parse_json_value_end t p aend of
        None \<Rightarrow> None
      | Some value_end \<Rightarrow>
          (let p1 = skip_ws t value_end in
           if p1 \<ge> aend \<or> ch_at t p1 \<noteq> CHR '','' then None
           else array_get_loop t (skip_ws t (Suc p1)) aend left))"

definition json_ref_array_get :: "json_ref \<Rightarrow> nat \<Rightarrow> json_ref option" where
  "json_ref_array_get arr index =
     (if jr_type arr \<noteq> JSON_REF_ARRAY then None
      else
        (let p = skip_ws (jr_json arr) (Suc (jr_start arr)) in
         if p \<ge> jr_end arr \<or> ch_at (jr_json arr) p = CHR '']'' then None
         else map_option (\<lambda>(vs, ve). mk_ref (jr_json arr) vs ve)
                (array_get_loop (jr_json arr) p (jr_end arr) index)))"

function array_size_loop :: "string \<Rightarrow> nat \<Rightarrow> nat \<Rightarrow> nat \<Rightarrow> nat" where
  "array_size_loop t p aend n =
     (case parse_json_value_end t p aend of
        None \<Rightarrow> 0
      | Some value_end \<Rightarrow>
          (let p1 = skip_ws t value_end in
           if p1 \<ge> aend then 0
           else if ch_at t p1 = CHR '','' then array_size_loop t (skip_ws t (Suc p1)) aend (Suc n)
           else if ch_at t p1 = CHR '']'' then Suc n
           else 0))"
  by pat_completeness auto
termination
  by (relation "measure (\<lambda>(t, p, aend, n). aend - p)")
    (auto dest!: scan_bounds not_le_imp_less
       intro!: diff_less_mono2 skip_ws_gt less_SucI intro: less_trans skip_ws_chain)

declare array_size_loop.simps [simp del]

definition json_ref_array_size :: "json_ref \<Rightarrow> nat" where
  "json_ref_array_size arr =
     (if jr_type arr \<noteq> JSON_REF_ARRAY then 0
      else
        (let p = skip_ws (jr_json arr) (Suc (jr_start arr)) in
         if p \<ge> jr_end arr then 0
         else if ch_at (jr_json arr) p = CHR '']'' then 0
         else array_size_loop (jr_json arr) p (jr_end arr) 0))"

definition json_ref_array_first :: "json_ref \<Rightarrow> json_ref option" where
  "json_ref_array_first arr =
     (if jr_type arr \<noteq> JSON_REF_ARRAY \<or> json_ref_array_size arr = 0 then None
      else json_ref_array_get arr 0)"

section \<open>Copies and scalars\<close>

definition json_ref_value_copy :: "json_ref \<Rightarrow> nat \<Rightarrow> string option" where
  "json_ref_value_copy v out_len =
     (if out_len = 0 \<or> jr_end v < jr_start v then None
      else if (jr_end v - jr_start v) + 1 > out_len then None
      else Some (span (jr_json v) (jr_start v) (jr_end v)))"

text \<open>
  The heap-allocating variants. \<open>malloc_ok n\<close> says whether the allocation of \<open>n\<close> bytes
  succeeds; a failed one makes them return \<open>NULL\<close>.
\<close>

definition json_ref_string_dup :: "(nat \<Rightarrow> bool) \<Rightarrow> json_ref \<Rightarrow> string option" where
  "json_ref_string_dup malloc_ok v =
     (if jr_end v < jr_start v then None
      else
        (let cap = (jr_end v - jr_start v) + 1 in
         if \<not> malloc_ok cap then None
         else
           (case json_ref_string_copy v cap of
              (False, _) \<Rightarrow> None
            | (True, s) \<Rightarrow> Some (cstr s))))"

definition json_ref_value_dup :: "(nat \<Rightarrow> bool) \<Rightarrow> json_ref \<Rightarrow> string option" where
  "json_ref_value_dup malloc_ok v =
     (if jr_end v < jr_start v then None
      else
        (let n = jr_end v - jr_start v in
         if \<not> malloc_ok (n + 1) then None else json_ref_value_copy v (n + 1)))"

text \<open>
  \<open>strtoll(p, &scan, 10)\<close> in the C locale: optional white space and sign, then the longest
  run of digits. The result is the value and the offset of the first byte not used; without
  digits nothing is used. A value out of the range of \<open>long long\<close> sets \<open>errno\<close> (here
  \<open>False\<close> in the last component) and is clamped.
\<close>

definition LLONG_MAX :: int where
  "LLONG_MAX = 9223372036854775807"

definition LLONG_MIN :: int where
  "LLONG_MIN = - 9223372036854775808"

definition digit_value :: "char \<Rightarrow> int" where
  "digit_value c = int (byte c) - 48"

definition digits_value :: "string \<Rightarrow> int" where
  "digits_value ds = foldl (\<lambda>n c. 10 * n + digit_value c) 0 ds"

definition strtoll :: "string \<Rightarrow> nat \<Rightarrow> int \<times> nat \<times> bool" where
  "strtoll t start =
     (let p = skip_ws t start;
          q = (if ch_at t p = CHR ''-'' \<or> ch_at t p = CHR ''+'' then Suc p else p);
          e = skip_digits t q (length t)
      in if e = q then (0, start, True)
         else
           (let m = digits_value (span t q e);
                n = (if ch_at t p = CHR ''-'' then - m else m)
            in if n > LLONG_MAX then (LLONG_MAX, e, False)
               else if n < LLONG_MIN then (LLONG_MIN, e, False)
               else (n, e, True)))"

definition json_ref_get_long :: "json_ref \<Rightarrow> int option" where
  "json_ref_get_long v =
     (if jr_type v \<noteq> JSON_REF_NUMBER then None
      else if parse_json_number_end (jr_json v) (jr_start v) (jr_end v) \<noteq> Some (jr_end v) then None
      else
        (case strtoll (jr_json v) (jr_start v) of
           (n, scan, ok) \<Rightarrow> if scan \<noteq> jr_end v \<or> \<not> ok then None else Some n))"

definition json_ref_get_bool :: "json_ref \<Rightarrow> bool option" where
  "json_ref_get_bool v =
     (if jr_type v \<noteq> JSON_REF_BOOL then None
      else if span (jr_json v) (jr_start v) (jr_end v) = ''true'' then Some True
      else if span (jr_json v) (jr_start v) (jr_end v) = ''false'' then Some False
      else None)"

definition json_ref_is_null :: "json_ref \<Rightarrow> bool" where
  "json_ref_is_null v \<longleftrightarrow> jr_type v = JSON_REF_NULL"

section \<open>Typed member access\<close>

definition json_ref_object_get_object :: "json_ref \<Rightarrow> string \<Rightarrow> json_ref option" where
  "json_ref_object_get_object obj key =
     (case json_ref_object_get obj key of
        None \<Rightarrow> None
      | Some r \<Rightarrow> if jr_type r \<noteq> JSON_REF_OBJECT then None else Some r)"

definition json_ref_object_get_array :: "json_ref \<Rightarrow> string \<Rightarrow> json_ref option" where
  "json_ref_object_get_array obj key =
     (case json_ref_object_get obj key of
        None \<Rightarrow> None
      | Some r \<Rightarrow> if jr_type r \<noteq> JSON_REF_ARRAY then None else Some r)"

definition json_ref_object_get_string :: "json_ref \<Rightarrow> string \<Rightarrow> nat \<Rightarrow> bool \<times> string" where
  "json_ref_object_get_string obj key out_len =
     (if out_len = 0 then (False, [])
      else
        (case json_ref_object_get obj key of
           None \<Rightarrow> (False, [])
         | Some r \<Rightarrow> json_ref_string_copy r out_len))"

definition json_ref_object_get_long :: "json_ref \<Rightarrow> string \<Rightarrow> int option" where
  "json_ref_object_get_long obj key =
     (case json_ref_object_get obj key of
        None \<Rightarrow> None
      | Some r \<Rightarrow> json_ref_get_long r)"

definition json_ref_object_get_bool :: "json_ref \<Rightarrow> string \<Rightarrow> bool option" where
  "json_ref_object_get_bool obj key =
     (case json_ref_object_get obj key of
        None \<Rightarrow> None
      | Some r \<Rightarrow> json_ref_get_bool r)"

text \<open>
  The idiom \<open>char buf[n] = ""; (void)json_ref_object_get_string(obj, key, buf, n)\<close>: the C
  string left in the zeroed buffer, whatever the return code.
\<close>

definition get_string_or_empty :: "json_ref \<Rightarrow> string \<Rightarrow> nat \<Rightarrow> string" where
  "get_string_or_empty obj key n = cstr (snd (json_ref_object_get_string obj key n))"

text \<open>The C string of a member when the call returns 0.\<close>

definition get_string :: "json_ref \<Rightarrow> string \<Rightarrow> nat \<Rightarrow> string option" where
  "get_string obj key n = (case json_ref_object_get_string obj key n of (ok, s) \<Rightarrow> if ok then Some (cstr s) else None)"

definition get_long_or :: "int \<Rightarrow> json_ref \<Rightarrow> string \<Rightarrow> int" where
  "get_long_or d obj key =
     (case json_ref_object_get_long obj key of None \<Rightarrow> d | Some n \<Rightarrow> n)"

end
