(* ===== verification/Json_Laws.thy ===== *)
theory Json_Laws
  imports Json_Ref
begin

text \<open>
  What the accessors of \<open>Json_Ref\<close> compute, stated over the grammar of \<open>Json_Grammar\<close>:
  which texts are accepted, which member an object lookup returns, what a string decodes
  to, and which integers are read back.
\<close>

section \<open>Accepted texts\<close>

lemma skip_ws_stop: "skip_ws t p < length t \<Longrightarrow> \<not> is_space (t ! skip_ws t p)"
  by (induction t p rule: skip_ws.induct) (subst skip_ws.simps, subst (asm) (1) skip_ws.simps, auto)

lemma skip_ws_at_end:
  assumes "no_nul t" and "p \<le> length t" and "ch_at t (skip_ws t p) = NUL"
  shows "jws (drop p t)"
proof -
  have "skip_ws t p = length t"
    using assms skip_ws_le [OF assms(2)] nth_mem [of "skip_ws t p" t]
    by (fastforce simp: ch_at_def no_nul_def split: if_splits)
  with jws_span_skip_ws [OF assms(2)] show ?thesis by (simp add: span_def)
qed

lemma infer_type_valid:
  "parse_json_value_end t p limit = Some e \<Longrightarrow> json_ref_infer_type (ch_at t p) \<noteq> JSON_REF_INVALID"
  by (subst (asm) parse_json_value_end.simps) (auto simp: json_ref_infer_type_def Let_def split: if_splits)

lemma json_ref_from_text_eq_Some:
  "json_ref_from_text t = Some r \<longleftrightarrow>
     (\<exists>e. parse_json_value_end t (skip_ws t 0) (length t) = Some e \<and>
        ch_at t (skip_ws t e) = NUL \<and> r = mk_ref t (skip_ws t 0) e)"
proof -
  have "parse_json_value_end t p (length t) = Some e \<Longrightarrow> ch_at t p \<noteq> NUL" for p e
    by (subst (asm) parse_json_value_end.simps) (auto simp: Let_def split: if_splits)
  then show ?thesis
    by (auto simp: json_ref_from_text_def Let_def json_ref_init_span_def mk_ref_def
        dest: infer_type_valid parse_json_value_end_bounds split: option.splits)
qed

lemma from_text_sound:
  assumes "no_nul t" and "json_ref_from_text t = Some r"
  shows "\<exists>a v b. t = a @ v @ b \<and> jws a \<and> jvalue v \<and> jws b \<and> r = mk_ref t (length a) (length a + length v)"
proof -
  define s where "s = skip_ws t 0"
  from assms(2) obtain e where e: "parse_json_value_end t s (length t) = Some e"
    and z: "ch_at t (skip_ws t e) = NUL" and r: "r = mk_ref t s e"
    unfolding json_ref_from_text_eq_Some s_def by blast
  note be = parse_json_value_end_bounds [OF e]
  have "t = span t 0 s @ span t s e @ drop e t"
    using be drop_span [of 0 s t] drop_span [of s e t] by simp
  moreover have "jws (span t 0 s)" "jws (drop e t)"
    using jws_span_skip_ws [of 0 t] skip_ws_at_end [OF assms(1) _ z] be by (simp_all add: s_def)
  moreover have "jvalue (span t s e)" using jvalue_sound [OF e] by simp
  ultimately show ?thesis using r be
    by (intro exI [of _ "span t 0 s"] exI [of _ "span t s e"] exI [of _ "drop e t"]) auto
qed

lemma jws_skip_end: "jws (drop p t) \<Longrightarrow> p \<le> length t \<Longrightarrow> skip_ws t p = length t"
  using skip_ws_complete [of p t "drop p t" "[]"] by simp

lemma from_text_complete:
  assumes "jws a" and "jvalue v" and "jws b"
  shows "json_ref_from_text (a @ v @ b) = Some (mk_ref (a @ v @ b) (length a) (length a + length v))"
proof -
  let ?t = "a @ v @ b"
  obtain c w where c: "v = c # w" "\<not> is_space c"
    using jvalue_start(1) [OF assms(2)] by (auto simp: value_start_def)
  have s: "skip_ws ?t 0 = length a"
    using skip_ws_complete [of 0 ?t a "v @ b"] assms(1) c by simp
  have "number_stop ?t (length a + length v) (length ?t)"
    using assms(3) by (cases b) (auto simp: number_stop_def jws_def ch_at_drop char_class_defs)
  then have "parse_json_value_end ?t (length a) (length ?t) = Some (length a + length v)"
    using jvalue_complete [OF assms(2), of "length a" ?t b "length ?t"] by simp
  moreover have "skip_ws ?t (length a + length v) = length ?t"
    using assms(3) by (intro jws_skip_end) auto
  ultimately show ?thesis using s by (simp add: json_ref_from_text_eq_Some)
qed




section \<open>String decoding\<close>

text \<open>
  The bytes a JSON string body denotes: escapes are resolved, \<open>\u\<close> escapes become UTF-8,
  a surrogate pair is one code point, and a lone surrogate denotes nothing.
\<close>

definition utf8_bytes :: "nat \<Rightarrow> string" where
  "utf8_bytes cp =
     (if cp \<le> 0x7F then [char_of cp]
      else if cp \<le> 0x7FF then [char_of (0xC0 OR drop_bit 6 cp), char_of (0x80 OR (cp AND 0x3F))]
      else if cp \<le> 0xFFFF then
        [char_of (0xE0 OR drop_bit 12 cp), char_of (0x80 OR (drop_bit 6 cp AND 0x3F)),
         char_of (0x80 OR (cp AND 0x3F))]
      else
        [char_of (0xF0 OR drop_bit 18 cp), char_of (0x80 OR (drop_bit 12 cp AND 0x3F)),
         char_of (0x80 OR (drop_bit 6 cp AND 0x3F)), char_of (0x80 OR (cp AND 0x3F))])"

definition surrogate_pair :: "nat \<Rightarrow> nat \<Rightarrow> nat" where
  "surrogate_pair hi lo = 0x10000 + (push_bit 10 (hi - 0xD800) OR (lo - 0xDC00))"

definition junicode :: "string \<Rightarrow> (nat \<times> string) option" where
  "junicode w =
     (case hex_digits 0 (take 4 w) of
        None \<Rightarrow> None
      | Some hi \<Rightarrow>
          if 0xD800 \<le> hi \<and> hi \<le> 0xDBFF then
            (if take 2 (drop 4 w) \<noteq> [BSL, CHR ''u''] then None
             else
               (case hex_digits 0 (take 4 (drop 6 w)) of
                  None \<Rightarrow> None
                | Some lo \<Rightarrow>
                    if lo < 0xDC00 \<or> lo > 0xDFFF then None
                    else Some (surrogate_pair hi lo, drop 10 w)))
          else if 0xDC00 \<le> hi \<and> hi \<le> 0xDFFF then None
          else Some (hi, drop 4 w))"

lemma junicode_shorter: "junicode w = Some (cp, w') \<Longrightarrow> length w' \<le> length w"
  by (auto simp: junicode_def split: option.splits if_splits)

function jdecode :: "string \<Rightarrow> string option" where
  "jdecode w =
     (case w of
        [] \<Rightarrow> Some []
      | c # w1 \<Rightarrow>
          if c \<noteq> BSL then map_option ((#) c) (jdecode w1)
          else
            (case w1 of
               [] \<Rightarrow> None
             | d # w2 \<Rightarrow>
                 (case simple_escape_value d of
                    Some x \<Rightarrow> map_option ((#) x) (jdecode w2)
                  | None \<Rightarrow>
                      if d \<noteq> CHR ''u'' then None
                      else
                        (case junicode w2 of
                           None \<Rightarrow> None
                         | Some (cp, w3) \<Rightarrow> map_option ((@) (utf8_bytes cp)) (jdecode w3)))))"
  by pat_completeness auto
termination
  by (relation "measure length") (auto dest: junicode_shorter)

declare jdecode.simps [simp del]

lemma hex_value_xdigit: "is_xdigit c \<Longrightarrow> \<exists>h. hex_value c = Some h \<and> h < 16"
  by (auto simp: char_class_defs hex_value_def)

lemma hex_digits4:
  assumes "is_xdigit a" "is_xdigit b" "is_xdigit c" "is_xdigit d"
  shows "\<exists>v. hex_digits 0 [a, b, c, d] = Some v \<and> v \<le> 0xFFFF"
proof -
  obtain h1 h2 h3 h4 where h: "hex_value a = Some h1" "hex_value b = Some h2"
      "hex_value c = Some h3" "hex_value d = Some h4" "h1 < 16" "h2 < 16" "h3 < 16" "h4 < 16"
    using assms hex_value_xdigit by metis
  then show ?thesis using push_or_add [of _ 4] by simp
qed

lemma utf8_write_eq:
  "cp \<le> 0x10FFFF \<Longrightarrow> length out < out_len \<Longrightarrow>
     utf8_write cp out out_len =
       (if length out + length (utf8_bytes cp) \<ge> out_len then None else Some (out @ utf8_bytes cp))"
  by (auto simp: utf8_write_def utf8_bytes_def)

lemma surrogate_pair_le:
  "hi \<le> 0xDBFF \<Longrightarrow> lo \<le> 0xDFFF \<Longrightarrow> surrogate_pair hi lo \<le> 0x10FFFF"
  using push_or_add [of "lo - 0xDC00" 10 "hi - 0xD800"] by (simp add: surrogate_pair_def)

lemma simple_escape_value_iff: "is_simple_escape c \<longleftrightarrow> (\<exists>x. simple_escape_value c = Some x)"
  by (auto simp: is_simple_escape_def simple_escape_value_def)

lemma simple_escape_value_u: "simple_escape_value (CHR ''u'') = None"
  by (simp add: simple_escape_value_def)

lemma ch_at_drop_nth: "drop p t = w \<Longrightarrow> i < length w \<Longrightarrow> ch_at t (p + i) = w ! i"
  by (auto simp: ch_at_def)

lemma parse_hex4_drop:
  assumes "drop p t = a # b # c # d # r" and "p + 4 \<le> limit"
  shows "parse_hex4 t p limit = hex_digits 0 [a, b, c, d]"
  using assms ch_at_drop_nth [OF assms(1), of 0] ch_at_drop_nth [OF assms(1), of 1]
    ch_at_drop_nth [OF assms(1), of 2] ch_at_drop_nth [OF assms(1), of 3]
  by (simp add: parse_hex4_def)

lemma jchars_BSL_u:
  assumes "jchars w" and "w = BSL # CHR ''u'' # w'"
  obtains a b c d w'' where "w' = a # b # c # d # w''" "is_xdigit a" "is_xdigit b" "is_xdigit c"
    "is_xdigit d" "jchars w''"
  using assms by (cases rule: jchars.cases) (auto simp: is_simple_escape_def)

lemma unicode_escape_refines:
  assumes w: "jchars w" and x: "is_xdigit a" "is_xdigit b" "is_xdigit c" "is_xdigit d"
    and d: "drop p t = a # b # c # d # w @ DQ # r" and lim: "p + 4 + length w < vend"
  shows "unicode_escape t p vend = None \<and> junicode (a # b # c # d # w) = None \<or>
    (\<exists>cp q w'. unicode_escape t p vend = Some (cp, q) \<and> junicode (a # b # c # d # w) = Some (cp, w') \<and>
       cp \<le> 0x10FFFF \<and> jchars w' \<and> drop q t = w' @ DQ # r \<and> q + length w' < vend \<and> length w' \<le> length w)"
proof -
  obtain hi where hi: "hex_digits 0 [a, b, c, d] = Some hi" "hi \<le> 0xFFFF" using hex_digits4 [OF x] by blast
  have ph: "parse_hex4 t p vend = Some hi" using parse_hex4_drop [OF d] lim hi by simp
  have dr: "drop (p + 4) t = w @ DQ # r" using drop_append_length [of p t "[a, b, c, d]"] d by (simp add: numeral_eq_Suc)
  have dr2: "drop (p + 4 + length w) t = DQ # r" using dr by (rule drop_append_length)
  show ?thesis
  proof (cases "0xD800 \<le> hi \<and> hi \<le> 0xDBFF")
    case False
    then show ?thesis using ph hi dr lim w by (auto simp: unicode_escape_def junicode_def)
  next
    case True
    show ?thesis
    proof (cases "\<exists>v. w = BSL # CHR ''u'' # v")
      case False
      then have n: "take 2 w \<noteq> [BSL, CHR ''u'']"
        by (cases w; cases "tl w") (auto simp: numeral_2_eq_2)
      have "ch_at t (p + 4) \<noteq> BSL \<or> ch_at t (p + 5) \<noteq> CHR ''u''"
      proof (cases w)
        case Nil
        then show ?thesis using dr drop_chD [of "p + 4" t DQ r] by simp
      next
        case (Cons y ys)
        then show ?thesis
          using False dr drop_chD [of "p + 4" t y "ys @ DQ # r"] drop_chD [of "p + 5" t _ _]
          by (cases ys) (auto simp: numeral_eq_Suc)
      qed
      then show ?thesis using True ph hi n by (auto simp: unicode_escape_def junicode_def)
    next
      case t2: True
      then obtain v where v: "w = BSL # CHR ''u'' # v" by blast
      obtain e f g h w' where w': "v = e # f # g # h # w'" "is_xdigit e" "is_xdigit f" "is_xdigit g"
          "is_xdigit h" "jchars w'"
        using jchars_BSL_u [OF w v] by metis
      obtain lo where lo: "hex_digits 0 [e, f, g, h] = Some lo" using hex_digits4 w'(2-5) by blast
      have d6: "drop (p + 6) t = e # f # g # h # w' @ DQ # r" and u: "ch_at t (p + 4) = BSL"
          "ch_at t (p + 5) = CHR ''u''"
        using dr v w' drop_append_length [of "p + 4" t "[BSL, CHR ''u'']"] ch_at_drop_nth [OF dr, of 0]
          ch_at_drop_nth [OF dr, of 1] by (auto simp: numeral_eq_Suc)
      have p6: "parse_hex4 t (p + 6) vend = Some lo" using parse_hex4_drop [OF d6] lim v w' lo by simp
      have "drop (p + 10) t = w' @ DQ # r" using drop_append_length [of "p + 6" t "[e, f, g, h]"] d6 by (simp add: numeral_eq_Suc)
      then show ?thesis
        using True ph p6 hi lo u lim v w' surrogate_pair_le [of hi lo]
        by (auto simp: unicode_escape_def junicode_def surrogate_pair_def)
    qed
  qed
qed

lemma string_copy_loop_iff:
  "jchars w \<Longrightarrow> drop p t = w @ DQ # r \<Longrightarrow> p + length w < vend \<Longrightarrow> length out < out_len \<Longrightarrow>
     string_copy_loop t p vend out_len out = (True, s) \<longleftrightarrow>
       (\<exists>d. jdecode w = Some d \<and> length out + length d < out_len \<and> s = out @ d)"
proof (induction "length w" arbitrary: w p out rule: less_induct)
  case less
  note dr = less.prems(2)
  have pv: "p < vend" using less.prems(3) by simp
  from less.prems(1) show ?case
  proof (cases rule: jchars.cases)
    case jchars_Nil
    then have "ch_at t p = DQ" using dr drop_chD [of p t DQ r] by simp
    then show ?thesis using jchars_Nil pv less.prems(4)
      by (subst string_copy_loop.simps, subst jdecode.simps) auto
  next
    case (jchars_plain c v)
    have c: "ch_at t p = c" "drop (Suc p) t = v @ DQ # r"
      using dr jchars_plain drop_chD [of p t c "v @ DQ # r"] by auto
    have "jdecode w = map_option ((#) c) (jdecode v)" using jchars_plain by (subst jdecode.simps) simp
    then show ?thesis
      using pv c jchars_plain less.hyps [of v "Suc p" "out @ [c]"] less.prems
      by (subst string_copy_loop.simps) auto
  next
    case (jchars_escape c v)
    then obtain x where x: "simple_escape_value c = Some x" using simple_escape_value_iff by blast
    have c: "ch_at t p = BSL" "ch_at t (Suc p) = c" "drop (p + 2) t = v @ DQ # r"
      using dr jchars_escape drop_chD [of p t BSL "c # v @ DQ # r"] drop_chD [of "Suc p" t c "v @ DQ # r"]
      by auto
    have "jdecode w = map_option ((#) x) (jdecode v)" using jchars_escape x by (subst jdecode.simps) simp
    then show ?thesis
      using pv c x jchars_escape less.hyps [of v "p + 2" "out @ [x]"] less.prems
      by (subst string_copy_loop.simps) auto
  next
    case (jchars_unicode a b c e v)
    let ?w = "a # b # c # e # v"
    have d: "ch_at t p = BSL" "ch_at t (Suc p) = CHR ''u''" "drop (p + 2) t = ?w @ DQ # r"
      using dr jchars_unicode drop_chD [of p t BSL "CHR ''u'' # ?w @ DQ # r"]
        drop_chD [of "Suc p" t "CHR ''u''" "?w @ DQ # r"] by auto
    note u = unicode_escape_refines [OF jchars_unicode(6,2-5), of "p + 2" t r vend]
    have jd: "jdecode w = (case junicode ?w of None \<Rightarrow> None
        | Some (cp, w3) \<Rightarrow> map_option ((@) (utf8_bytes cp)) (jdecode w3))"
      using jchars_unicode by (subst jdecode.simps) (simp add: simple_escape_value_u)
    have lp: "string_copy_loop t p vend out_len out =
       (case unicode_escape t (p + 2) vend of None \<Rightarrow> (False, out)
        | Some (cp, q) \<Rightarrow> (case utf8_write cp out out_len of None \<Rightarrow> (False, out)
            | Some out' \<Rightarrow> string_copy_loop t q vend out_len out'))"
      using pv d less.prems jchars_unicode
      by (subst string_copy_loop.simps) (simp add: simple_escape_value_u)
    from u d less.prems(3) jchars_unicode(1) consider
        "unicode_escape t (p + 2) vend = None" "junicode ?w = None"
      | cp q w' where "unicode_escape t (p + 2) vend = Some (cp, q)" "junicode ?w = Some (cp, w')"
          "cp \<le> 0x10FFFF" "jchars w'" "drop q t = w' @ DQ # r" "q + length w' < vend" "length w' \<le> length v"
      by fastforce
    then show ?thesis
    proof cases
      case 1
      then show ?thesis using lp jd by simp
    next
      case 2
      then show ?thesis
        using lp jd less.prems(4) jchars_unicode(1) less.hyps [of w' q "out @ utf8_bytes cp"]
        by (auto simp: utf8_write_eq)
    qed
  qed
qed

lemma literal_copy:
  assumes "jchars w" and "0 < out_len"
  shows "json_ref_string_copy (mk_ref (pre @ DQ # w @ DQ # post) (length pre) (length pre + length w + 2)) out_len
      = (True, s) \<longleftrightarrow> jdecode w = Some s \<and> length s < out_len"
proof -
  let ?t = "pre @ DQ # w @ DQ # post"
  have "ch_at ?t (length pre) = DQ" by (simp add: ch_at_drop)
  then show ?thesis
    using string_copy_loop_iff [OF assms(1), of "Suc (length pre)" ?t post "length pre + length w + 2" "[]" out_len s]
      assms(2)
    by (simp add: json_ref_string_copy_def json_ref_infer_type_def)
qed

text \<open>
  Decoding a string literal succeeds exactly when its body denotes a byte string that
  fits the buffer with its terminator, and then yields that byte string. What a body denotes
  is \<open>jdecode\<close>: escapes replaced, \<open>\u\<close> escapes and surrogate pairs encoded as UTF-8, unpaired
  surrogates denoting nothing.
\<close>

theorem string_copy_decodes:
  assumes "jchars w" and "0 < out_len"
  shows "json_ref_string_copy (mk_ref (pre @ DQ # w @ DQ # post) (length pre) (length pre + length w + 2)) out_len
      = (True, s) \<longleftrightarrow> jdecode w = Some s \<and> length s < out_len"
  using assms by (rule literal_copy)

theorem string_copy_decodes_witness:
  "json_ref_string_copy (mk_ref ([] @ DQ # ''a'' @ DQ # []) (length []) (length [] + length ''a'' + 2)) 2
     = (True, ''a'')"
proof -
  have "jchars ''a''" by (intro jchars.intros) (simp_all add: char_class_defs)
  moreover have "jdecode ''a'' = Some ''a''" by code_simp
  ultimately show ?thesis using string_copy_decodes [of "''a''" 2 "[]" "[]" "''a''"] by simp
qed

section \<open>Objects and arrays by their members\<close>

inductive jmember_list :: "(string \<times> string) list \<Rightarrow> string \<Rightarrow> bool" where
  jml_last: "jstring k \<Longrightarrow> jws a \<Longrightarrow> jws b \<Longrightarrow> jvalue v \<Longrightarrow> jws c \<Longrightarrow>
    jmember_list [(k, v)] (k @ a @ CHR '':'' # b @ v @ c @ ''}'')"
| jml_more: "jstring k \<Longrightarrow> jws a \<Longrightarrow> jws b \<Longrightarrow> jvalue v \<Longrightarrow> jws c \<Longrightarrow> jws d \<Longrightarrow> jmember_list ms m \<Longrightarrow>
    jmember_list ((k, v) # ms) (k @ a @ CHR '':'' # b @ v @ c @ CHR '','' # d @ m)"

inductive jelement_list :: "string list \<Rightarrow> string \<Rightarrow> bool" where
  jel_last: "jvalue v \<Longrightarrow> jws c \<Longrightarrow> jelement_list [v] (v @ c @ '']'')"
| jel_more: "jvalue v \<Longrightarrow> jws c \<Longrightarrow> jws d \<Longrightarrow> jelement_list vs m \<Longrightarrow>
    jelement_list (v # vs) (v @ c @ CHR '','' # d @ m)"

definition jobject :: "(string \<times> string) list \<Rightarrow> string \<Rightarrow> bool" where
  "jobject ms s \<longleftrightarrow> (\<exists>w m. jws w \<and> s = CHR ''{'' # w @ m \<and> (if ms = [] then m = ''}'' else jmember_list ms m))"

definition jarray :: "string list \<Rightarrow> string \<Rightarrow> bool" where
  "jarray vs s \<longleftrightarrow> (\<exists>w m. jws w \<and> s = CHR ''['' # w @ m \<and> (if vs = [] then m = '']'' else jelement_list vs m))"

lemma jmember_list_jmembers: "jmember_list ms m \<Longrightarrow> jmembers m"
  by (induction rule: jmember_list.induct) (auto intro: jvalue_jmembers_jelements.intros)

lemma jelement_list_jelements: "jelement_list vs m \<Longrightarrow> jelements m"
  by (induction rule: jelement_list.induct) (auto intro: jvalue_jmembers_jelements.intros)

lemma jobject_jvalue: "jobject ms s \<Longrightarrow> jvalue s"
  by (auto simp: jobject_def split: if_splits dest: jmember_list_jmembers
      intro: jvalue_jmembers_jelements.intros)

lemma jarray_jvalue: "jarray vs s \<Longrightarrow> jvalue s"
  by (auto simp: jarray_def split: if_splits dest: jelement_list_jelements
      intro: jvalue_jmembers_jelements.intros)

text \<open>The key a literal names, and whether the lookup's 256-byte key buffer can hold it.\<close>

definition key_name :: "string \<Rightarrow> string" where
  "key_name k = cstr (the (jdecode (butlast (tl k))))"

definition key_fits :: "string \<Rightarrow> bool" where
  "key_fits k \<longleftrightarrow> (\<exists>d. jdecode (butlast (tl k)) = Some d \<and> length d < 256)"

definition find_member :: "string \<Rightarrow> (string \<times> string) list \<Rightarrow> string option" where
  "find_member key ms = map_option snd (find (\<lambda>(k, v). key_name k = key) ms)"

lemma find_member_simps [simp]:
  "find_member key [] = None"
  "find_member key ((k, v) # ms) = (if key_name k = key then Some v else find_member key ms)"
  by (simp_all add: find_member_def)

lemma key_copy:
  assumes "jstring k" and "drop p t = k @ r" and "key_fits k"
  shows "\<exists>d. json_ref_string_copy
      \<lparr>jr_json = t, jr_start = p, jr_end = p + length k, jr_type = JSON_REF_STRING\<rparr> 256 = (True, d) \<and>
      cstr d = key_name k"
proof -
  obtain w where w: "jchars w" "k = DQ # w @ [DQ]" using assms(1) by (auto simp: jstring_def)
  obtain d where d: "jdecode w = Some d" "length d < 256" using assms(3) w by (auto simp: key_fits_def)
  have dr: "ch_at t p = DQ" "drop (Suc p) t = w @ DQ # r" using assms(2) w drop_chD [of p t DQ] by auto
  have "string_copy_loop t (Suc p) (p + length k) 256 [] = (True, d)"
    using string_copy_loop_iff [OF w(1) dr(2)] w(2) d by simp
  then show ?thesis using dr w d by (auto simp: json_ref_string_copy_def key_name_def)
qed

text \<open>One turn of the member loop, on a text that has a member at the offset.\<close>

lemma object_get_step:
  assumes d: "drop p t = k @ a @ CHR '':'' # b @ v @ c @ s # r"
    and g: "jstring k" "jws a" "jws b" "jvalue v" "jws c" "s = CHR '','' \<or> s = CHR ''}''"
    and l: "p + length k + length a + 1 + length b + length v + length c < oend" and f: "key_fits k"
    and q: "q = p + length k + length a + 1 + length b"
  shows "object_get_loop t p oend key =
      (if key_name k = key then Some (q, q + length v)
       else if s = CHR '','' then object_get_loop t (skip_ws t (Suc (q + length v + length c))) oend key
       else None) \<and> drop q t = v @ c @ s # r \<and> drop (Suc (q + length v + length c)) t = r"
proof -
  have "p + length k \<le> oend" using l by simp
  note m = member_positions [OF d g(1-4) this]
  have "s = CHR '','' \<or> s = CHR ''}'' \<or> s = CHR '']''" using g(6) by blast
  note e = element_positions [OF m(5) g(5) this]
  have v: "parse_json_value_end t q oend = Some (q + length v)"
    using jvalue_complete [OF g(4) m(5)] e l q by simp
  obtain kd where kd: "json_ref_string_copy
      \<lparr>jr_json = t, jr_start = p, jr_end = p + length k, jr_type = JSON_REF_STRING\<rparr> 256 = (True, kd)"
      "cstr kd = key_name k"
    using key_copy [OF g(1) d f] by auto
  show ?thesis using m e v kd l q g by (subst object_get_loop.simps) (auto simp: Let_def)
qed

lemma ws_separator_no_digit:
  "jws c \<Longrightarrow> x = CHR '','' \<or> x = CHR ''}'' \<Longrightarrow> c @ x # r \<noteq> [] \<and> \<not> is_digit (hd (c @ x # r))"
  by (cases c) (auto simp: jws_def char_class_defs)

lemma object_get_loop_finds:
  "jmember_list ms m \<Longrightarrow> drop p t = m @ r \<Longrightarrow> p + length m \<le> oend \<Longrightarrow> \<forall>(k, v) \<in> set ms. key_fits k \<Longrightarrow>
     (case find_member key ms of
        None \<Rightarrow> object_get_loop t p oend key = None
      | Some v \<Rightarrow> \<exists>q r'. object_get_loop t p oend key = Some (q, q + length v) \<and> drop q t = v @ r' \<and>
          r' \<noteq> [] \<and> \<not> is_digit (hd r') \<and> p \<le> q \<and> q + length v < oend \<and> jvalue v)"
proof (induction arbitrary: p r rule: jmember_list.induct)
  case (jml_last k a b v c)
  have d: "drop p t = k @ a @ CHR '':'' # b @ v @ c @ CHR ''}'' # r" using jml_last.prems by simp
  have "object_get_loop t p oend key =
      (if key_name k = key then Some (p + length k + length a + 1 + length b, p + length k + length a + 1 + length b + length v)
       else None) \<and> drop (p + length k + length a + 1 + length b) t = v @ c @ CHR ''}'' # r"
    using object_get_step [OF d jml_last(1-5) _ _ _ refl, of oend key] jml_last.prems by simp
  then show ?case using jml_last.prems \<open>jvalue v\<close> ws_separator_no_digit [OF \<open>jws c\<close>] by auto
next
  case (jml_more k a b v c d ms m)
  let ?q = "p + length k + length a + 1 + length b"
  let ?s = "Suc (?q + length v + length c)"
  have d: "drop p t = k @ a @ CHR '':'' # b @ v @ c @ CHR '','' # d @ m @ r" using jml_more.prems by simp
  have step: "object_get_loop t p oend key =
      (if key_name k = key then Some (?q, ?q + length v) else object_get_loop t (skip_ws t ?s) oend key)"
      "drop ?q t = v @ c @ CHR '','' # d @ m @ r" "drop ?s t = d @ m @ r"
    using object_get_step [OF d jml_more(1-5) _ _ _ refl, of oend key] jml_more.prems by simp_all
  obtain m' where m': "m = DQ # m'"
    using jvalue_start(2) [OF jmember_list_jmembers [OF \<open>jmember_list ms m\<close>]] by blast
  then have "drop ?s t = d @ DQ # m' @ r" using step by simp
  from skip_ws_to [OF this \<open>jws d\<close>] m' have s: "skip_ws t ?s = ?s + length d"
    "drop (?s + length d) t = m @ r" by (auto simp: char_class_defs)
  show ?case
  proof (cases "key_name k = key")
    case True
    then show ?thesis using step jml_more.prems \<open>jvalue v\<close> ws_separator_no_digit [OF \<open>jws c\<close>, of "CHR '',''"] by auto
  next
    case False
    then show ?thesis using step s jml_more.IH [OF s(2)] jml_more.prems by (auto split: option.splits)
  qed
qed

lemma object_get_member:
  assumes "jobject ms s" and "drop p t = s @ r" and "\<forall>(k, v) \<in> set ms. key_fits k"
  shows "case find_member key ms of
      None \<Rightarrow> json_ref_object_get (mk_ref t p (p + length s)) key = None
    | Some v \<Rightarrow> \<exists>q. json_ref_object_get (mk_ref t p (p + length s)) key = Some (mk_ref t q (q + length v)) \<and>
        (\<exists>r'. drop q t = v @ r' \<and> r' \<noteq> [] \<and> \<not> is_digit (hd r')) \<and> p < q \<and> q + length v < p + length s"
proof -
  obtain w m where w: "jws w" "s = CHR ''{'' # w @ m" and m: "if ms = [] then m = ''}'' else jmember_list ms m"
    using assms(1) by (auto simp: jobject_def)
  obtain x m' where x: "m = x # m'" "\<not> is_space x" "ms = [] \<or> x \<noteq> CHR ''}''"
  proof (cases "ms = []")
    case True
    then show ?thesis using that m by (simp add: char_class_defs)
  next
    case False
    then obtain m' where "m = DQ # m'" using m jvalue_start(2) [OF jmember_list_jmembers [of ms m]] by auto
    then show ?thesis using that by (simp add: char_class_defs)
  qed
  have d: "drop p t = CHR ''{'' # w @ x # m' @ r" using assms(2) w x by simp
  have dw: "drop (Suc p) t = w @ x # m' @ r" and b: "ch_at t p = CHR ''{''" using drop_chD [OF d] by auto
  let ?p = "Suc p + length w"
  have p1: "skip_ws t (Suc p) = ?p" "ch_at t ?p = x" "drop ?p t = m @ r"
    using skip_ws_to [OF dw w(1) x(2)] x by auto
  have ty: "jr_type (mk_ref t p (p + length s)) = JSON_REF_OBJECT" using b by (simp add: json_ref_infer_type_def)
  show ?thesis
  proof (cases "ms = []")
    case True
    then show ?thesis using p1 m w x ty by (simp add: json_ref_object_get_def)
  next
    case False
    then have get: "json_ref_object_get (mk_ref t p (p + length s)) key =
        map_option (\<lambda>(vs, ve). mk_ref t vs ve) (object_get_loop t ?p (p + length s) key)"
      using p1 w x ty by (simp add: json_ref_object_get_def)
    have "jmember_list ms m" "?p + length m \<le> p + length s" using m w False by auto
    note fin = object_get_loop_finds [OF this(1) p1(3) this(2) assms(3), of key]
    show ?thesis
    proof (cases "find_member key ms")
      case (Some v)
      then obtain q r' where "object_get_loop t ?p (p + length s) key = Some (q, q + length v)"
          "drop q t = v @ r'" "r' \<noteq> []" "\<not> is_digit (hd r')" "?p \<le> q" "q + length v < p + length s" using fin by auto
      then show ?thesis using Some get by (auto intro!: exI [of _ q])
    qed (use fin get in simp)
  qed
qed

text \<open>
  Member lookup is first-match: on a span that is an object with the members \<open>ms\<close>
  (keys and values as they stand in the text), \<open>json_ref_object_get\<close> returns the span of
  the value of the first member whose decoded key is the one asked for, typed by its first
  byte, and fails when no member has that key. The lookup's 256-byte key buffer makes this
  depend on every key fitting into it.
\<close>

theorem object_get_first_match:
  assumes "jobject ms s" and "drop p t = s @ r" and "\<forall>(k, v) \<in> set ms. key_fits k"
  shows "case find_member key ms of
      None \<Rightarrow> json_ref_object_get (mk_ref t p (p + length s)) key = None
    | Some v \<Rightarrow> \<exists>q. json_ref_object_get (mk_ref t p (p + length s)) key = Some (mk_ref t q (q + length v)) \<and>
        span t q (q + length v) = v \<and> p < q \<and> q + length v < p + length s"
  using object_get_member [OF assms, of key] by (auto split: option.splits intro: span_eqI)

lemma jws_simps [simp]: "jws []" "jws (c # w) \<longleftrightarrow> is_space c \<and> jws w"
  by (simp_all add: jws_def)

lemma jnumber_digits: "ds \<noteq> [] \<Longrightarrow> list_all is_digit ds \<Longrightarrow> jnumber ds"
  unfolding jnumber_def
  by (intro exI [of _ "[]"] exI [of _ ds]) (simp add: jdigits_def jfraction_def jexponent_def)

theorem object_get_first_match_witness:
  \<open>\<exists>q. json_ref_object_get (mk_ref ''{"a":1}'' 0 7) ''a'' = Some (mk_ref ''{"a":1}'' q (q + 1)) \<and>
     span ''{"a":1}'' q (q + 1) = ''1''\<close>
proof -
  have a: "jchars ''a''" by (intro jchars.intros) (simp_all add: char_class_defs)
  have n: "jvalue ''1''" by (intro jvalue_number jnumber_digits) (simp_all add: char_class_defs)
  have "jmember_list [([DQ] @ ''a'' @ [DQ], ''1'')] (([DQ] @ ''a'' @ [DQ]) @ [] @ CHR '':'' # [] @ ''1'' @ [] @ ''}'')"
    by (rule jml_last) (use a n in \<open>auto simp: jstring_def\<close>)
  then have "jobject [([DQ] @ ''a'' @ [DQ], ''1'')] (''{'' @ [DQ] @ ''a'' @ [DQ] @ '':1}'')"
    unfolding jobject_def
    by (intro exI [of _ "[]"] exI [of _ "[DQ] @ ''a'' @ [DQ] @ '':1}''"]) simp
  moreover have "jdecode ''a'' = Some ''a''" by code_simp
  then have "key_fits ([DQ] @ ''a'' @ [DQ])" "key_name ([DQ] @ ''a'' @ [DQ]) = ''a''"
    by (simp_all add: key_fits_def key_name_def)
  ultimately show ?thesis
    using object_get_first_match [of "[([DQ] @ ''a'' @ [DQ], ''1'')]" "''{'' @ [DQ] @ ''a'' @ [DQ] @ '':1}''"
        0 "''{'' @ [DQ] @ ''a'' @ [DQ] @ '':1}''" "[]" "''a''"] by (auto simp: numeral_eq_Suc)
qed

section \<open>Arrays\<close>

lemma element_step:
  assumes "drop p t = v @ c @ x # r" and "jvalue v" and "jws c"
    and x: "x = CHR '','' \<or> x = CHR '']''" and "p + length v + length c < aend"
  shows "parse_json_value_end t p aend = Some (p + length v)"
    and "skip_ws t (p + length v) = p + length v + length c" and "ch_at t (p + length v + length c) = x"
    and "drop (Suc (p + length v + length c)) t = r" and "span t p (p + length v) = v"
proof -
  have "x = CHR '','' \<or> x = CHR ''}'' \<or> x = CHR '']''" using x by blast
  note e = element_positions [OF assms(1,3) this]
  then show "parse_json_value_end t p aend = Some (p + length v)"
    using jvalue_complete [OF assms(2,1)] assms(5) by simp
  show "skip_ws t (p + length v) = p + length v + length c" and "ch_at t (p + length v + length c) = x"
    and "drop (Suc (p + length v + length c)) t = r" and "span t p (p + length v) = v"
    using e assms(1) by (simp_all add: span_eqI)
qed

lemma next_element:
  assumes "drop s t = d @ m @ r" and "jws d" and "jelement_list vs m"
  shows "skip_ws t s = s + length d" and "drop (s + length d) t = m @ r"
proof -
  obtain c w where c: "m = c # w" "\<not> is_space c"
    using jvalue_start(3) [OF jelement_list_jelements [OF assms(3)]] by (auto simp: value_start_def)
  then have "drop s t = d @ c # w @ r" using assms(1) by simp
  from skip_ws_to [OF this assms(2) c(2)] c show "skip_ws t s = s + length d" and "drop (s + length d) t = m @ r"
    by auto
qed

lemma array_loops:
  "jelement_list vs m \<Longrightarrow> drop p t = m @ r \<Longrightarrow> p + length m \<le> aend \<Longrightarrow>
     array_size_loop t p aend n = n + length vs \<and>
     (case array_get_loop t p aend i of
        None \<Rightarrow> length vs \<le> i
      | Some (q, q') \<Rightarrow> i < length vs \<and> q' = q + length (vs ! i) \<and> span t q q' = vs ! i \<and> p \<le> q \<and> q' < aend)"
proof (induction arbitrary: p r n i rule: jelement_list.induct)
  case (jel_last v c)
  have "drop p t = v @ c @ CHR '']'' # r" "p + length v + length c < aend" using jel_last.prems by simp_all
  note e = element_step [OF this(1) \<open>jvalue v\<close> \<open>jws c\<close> _ this(2), simplified]
  show ?case
    by (cases i) (use e jel_last.prems in \<open>auto simp: array_size_loop.simps [of t p] Let_def\<close>)
next
  case (jel_more v c d vs m)
  let ?s = "Suc (p + length v + length c)"
  have "drop p t = v @ c @ CHR '','' # d @ m @ r" "p + length v + length c < aend" using jel_more.prems by simp_all
  note e = element_step [OF this(1) \<open>jvalue v\<close> \<open>jws c\<close> _ this(2), simplified]
  note nx = next_element [OF e(4) \<open>jws d\<close> \<open>jelement_list vs m\<close>]
  have "?s + length d + length m \<le> aend" using jel_more.prems by simp
  note IH = jel_more.IH [OF nx(2) this]
  show ?case
  proof (cases i)
    case 0
    then show ?thesis
      using e nx IH [of "Suc n" 0] jel_more.prems by (simp add: array_size_loop.simps [of t p] Let_def)
  next
    case (Suc j)
    then show ?thesis
      using e nx IH [of "Suc n" j] jel_more.prems
      by (auto simp: array_size_loop.simps [of t p] Let_def split: option.splits)
  qed
qed

lemma array_element:
  assumes "jarray vs s" and "drop p t = s @ r"
  shows "json_ref_array_size (mk_ref t p (p + length s)) = length vs \<and>
    (if i < length vs then
       \<exists>q. json_ref_array_get (mk_ref t p (p + length s)) i = Some (mk_ref t q (q + length (vs ! i))) \<and>
         span t q (q + length (vs ! i)) = vs ! i \<and> p < q \<and> q + length (vs ! i) < p + length s
     else json_ref_array_get (mk_ref t p (p + length s)) i = None)"
proof -
  obtain w m where w: "jws w" "s = CHR ''['' # w @ m" and m: "if vs = [] then m = '']'' else jelement_list vs m"
    using assms(1) by (auto simp: jarray_def)
  obtain x m' where x: "m = x # m'" "\<not> is_space x" "vs = [] \<or> x \<noteq> CHR '']''"
  proof (cases "vs = []")
    case True
    then show ?thesis using that m by (simp add: char_class_defs)
  next
    case False
    then show ?thesis using that m jvalue_start(3) [OF jelement_list_jelements [of vs m]] by (auto simp: value_start_def)
  qed
  have d: "drop p t = CHR ''['' # w @ x # m' @ r" using assms(2) w x by simp
  have dw: "drop (Suc p) t = w @ x # m' @ r" and b: "ch_at t p = CHR ''[''" using drop_chD [OF d] by auto
  let ?p = "Suc p + length w"
  have p1: "skip_ws t (Suc p) = ?p" "ch_at t ?p = x" "drop ?p t = m @ r"
    using skip_ws_to [OF dw w(1) x(2)] x by auto
  have ty: "jr_type (mk_ref t p (p + length s)) = JSON_REF_ARRAY" using b by (simp add: json_ref_infer_type_def)
  show ?thesis
  proof (cases "vs = []")
    case True
    then show ?thesis using p1 m w x ty by (simp add: json_ref_array_get_def json_ref_array_size_def)
  next
    case False
    have "jelement_list vs m" "?p + length m \<le> p + length s" using m w False by auto
    note l = array_loops [OF this(1) p1(3) this(2), of 0 i]
    show ?thesis using l False p1 w x ty
      by (auto simp: json_ref_array_get_def json_ref_array_size_def split: option.splits)
  qed
qed

text \<open>
  On a span that is an array of the elements \<open>vs\<close>, \<open>json_ref_array_size\<close> is their
  number, and \<open>json_ref_array_get\<close> returns the span of the element of the given index,
  typed by its first byte, exactly for the indices below the size.
\<close>

theorem array_get_nth:
  assumes "jarray vs s" and "drop p t = s @ r"
  shows "json_ref_array_size (mk_ref t p (p + length s)) = length vs \<and>
    (if i < length vs then
       \<exists>q. json_ref_array_get (mk_ref t p (p + length s)) i = Some (mk_ref t q (q + length (vs ! i))) \<and>
         span t q (q + length (vs ! i)) = vs ! i \<and> p < q \<and> q + length (vs ! i) < p + length s
     else json_ref_array_get (mk_ref t p (p + length s)) i = None)"
  using assms by (rule array_element)

theorem array_get_nth_witness:
  "\<exists>q. json_ref_array_get (mk_ref ''[7]'' 0 3) 0 = Some (mk_ref ''[7]'' q (q + 1)) \<and>
     json_ref_array_size (mk_ref ''[7]'' 0 3) = 1 \<and> json_ref_array_get (mk_ref ''[7]'' 0 3) 1 = None"
proof -
  have n: "jvalue ''7''" by (intro jvalue_number jnumber_digits) (simp_all add: char_class_defs)
  have "jelement_list [''7''] (''7'' @ [] @ '']'')" by (rule jel_last) (use n in auto)
  then have "jarray [''7''] ''[7]''" unfolding jarray_def by (intro exI [of _ "[]"] exI [of _ "''7]''"]) simp
  then show ?thesis
    using array_get_nth [of "[''7'']" "''[7]''" 0 "''[7]''" "[]" 0]
      array_get_nth [of "[''7'']" "''[7]''" 0 "''[7]''" "[]" 1] by (auto simp: numeral_eq_Suc)
qed

section \<open>Integers\<close>

definition jint :: "string \<Rightarrow> int option" where
  "jint s = (case s of [] \<Rightarrow> None
     | c # ds \<Rightarrow>
         if c = CHR ''-'' then (if jdigits ds then Some (- digits_value ds) else None)
         else if jdigits s then Some (digits_value s) else None)"

lemma get_long_value:
  assumes "jnumber s" and "drop p t = s @ r" and "r = [] \<or> \<not> is_digit (hd r)"
  shows "json_ref_get_long (mk_ref t p (p + length s)) =
    (case jint s of None \<Rightarrow> None | Some n \<Rightarrow> if LLONG_MIN \<le> n \<and> n \<le> LLONG_MAX then Some n else None)"
proof -
  obtain sg ds fr xp where "s = sg @ ds @ fr @ xp" and sg: "sg = [] \<or> sg = ''-''" and ds: "jdigits ds"
    and fr: "jfraction fr" "jexponent xp"
    using assms(1) by (auto simp: jnumber_def)
  then obtain ex where s: "s = sg @ ds @ ex" and x: "ex = fr @ xp" by blast
  have ex: "ex = [] \<or> \<not> is_digit (hd ex)"
    using fr by (auto simp: x jfraction_def jexponent_def char_class_defs)
  let ?q = "p + length sg" and ?e = "p + length sg + length ds"
  obtain d ds' where dd: "ds = d # ds'" "is_digit d" using ds by (cases ds) (auto simp: jdigits_def)
  have d1: "drop ?q t = ds @ ex @ r" using assms(2) s by (metis append.assoc drop_append_length)
  have chq: "ch_at t ?q = d" using d1 dd drop_chD [of ?q t d] by simp
  have chp: "ch_at t p = (if sg = [] then d else CHR ''-'')" using assms(2) s sg dd drop_chD [of p t] by force
  have "drop ?e t = ex @ r" using d1 by (rule drop_append_length)
  then have che: "\<not> is_digit (ch_at t ?e)" using ex assms(3) by (cases ex; cases r) (auto simp: ch_at_drop)
  have "?e \<le> length t" using drop_eq_append_le [OF d1] dd by simp
  then have e: "skip_digits t ?q (length t) = ?e"
    using d1 ds che by (intro skip_digits_complete [of ds ?q t "ex @ r"]) (auto simp: jdigits_def)
  have nm: "d \<noteq> CHR ''-''" "d \<noteq> CHR ''+''" "\<not> is_space d" "\<not> is_space (CHR ''-'')"
    using dd by (auto simp: char_class_defs)
  have ws: "skip_ws t p = p" using chp nm by (subst skip_ws.simps) (auto simp: ch_at_def split: if_splits)
  have sp: "span t ?q ?e = ds" using d1 by (rule span_eqI)
  have st: "strtoll t p = (let n = (if sg = [] then digits_value ds else - digits_value ds) in
      if n > LLONG_MAX then (LLONG_MAX, ?e, False) else if n < LLONG_MIN then (LLONG_MIN, ?e, False) else (n, ?e, True))"
  proof (cases "sg = []")
    case True
    then show ?thesis using ws chp nm e sp dd by (simp add: strtoll_def Let_def)
  next
    case False
    then show ?thesis using ws chp e sp dd sg by (simp add: strtoll_def Let_def)
  qed
  have ty: "json_ref_infer_type (ch_at t p) = JSON_REF_NUMBER"
    using chp dd by (cases "sg = []") (auto simp: json_ref_infer_type_def is_digit_def byte_def)
  have "parse_json_number_end t p (p + length s) = Some (p + length s)"
    using jnumber_complete [OF assms(1,2)] by (simp add: number_stop_def)
  moreover have "jint s = (if ex = [] then Some (if sg = [] then digits_value ds else - digits_value ds) else None)"
    using s sg ds dd ex nm by (cases ex) (auto simp: jint_def jdigits_def)
  ultimately show ?thesis using ty st s by (auto simp: json_ref_get_long_def Let_def)
qed

text \<open>
  \<open>json_ref_get_long\<close> is exact: on a number span followed by a byte that cannot
  extend it, it yields the integer the digits denote when the number is an integer that fits
  into 64 bits, and fails for fractions, exponents and values out of range.
\<close>

theorem get_long_exact:
  assumes "jnumber s" and "drop p t = s @ r" and "r = [] \<or> \<not> is_digit (hd r)"
  shows "json_ref_get_long (mk_ref t p (p + length s)) =
    (case jint s of None \<Rightarrow> None | Some n \<Rightarrow> if LLONG_MIN \<le> n \<and> n \<le> LLONG_MAX then Some n else None)"
  using assms by (rule get_long_value)

theorem get_long_exact_witness:
  "json_ref_get_long (mk_ref ''-42,'' 0 3) = Some (- 42)"
proof -
  have "jnumber ''-42''" unfolding jnumber_def
    by (intro exI [of _ "''-''"] exI [of _ "''42''"] exI [of _ "[]"])
      (simp add: jdigits_def jfraction_def jexponent_def char_class_defs)
  moreover have "jint ''-42'' = Some (- 42)" by code_simp
  moreover have "\<not> is_digit (CHR '','')" by (simp add: char_class_defs)
  ultimately show ?thesis
    using get_long_exact [of "''-42''" 0 "''-42,''" "'',''"] by (simp add: LLONG_MIN_def LLONG_MAX_def numeral_eq_Suc)
qed

end
