(* ===== verification/Json_Print.thy ===== *)
theory Json_Print
  imports Json_Laws
begin

text \<open>
  The two writers of \<open>runtime/support/json.c\<close>: \<open>json_escape\<close>, which turns a C string into
  the body of a JSON string, and \<open>json_compact\<close>, which drops white space outside strings.
  Both write into a bounded buffer; \<open>json_escape\<close> leaves a terminated string in it even when
  it fails, so the model returns the text in both cases.
\<close>

section \<open>Escaping\<close>

definition hex_char :: "nat \<Rightarrow> char" where
  "hex_char n = (if n < 10 then char_of (48 + n) else char_of (87 + n))"

definition format_u04x :: "char \<Rightarrow> string" where
  "format_u04x c = [BSL, CHR ''u'', CHR ''0'', CHR ''0'', hex_char (byte c div 16), hex_char (byte c mod 16)]"

definition short_escape :: "char \<Rightarrow> string option" where
  "short_escape c =
     (if c = DQ then Some [BSL, DQ]
      else if c = BSL then Some [BSL, BSL]
      else if c = CHR 0x08 then Some [BSL, CHR ''b'']
      else if c = CHR 0x0C then Some [BSL, CHR ''f'']
      else if c = CHR 0x0A then Some [BSL, CHR ''n'']
      else if c = CHR 0x0D then Some [BSL, CHR ''r'']
      else if c = CHR 0x09 then Some [BSL, CHR ''t'']
      else None)"

fun escape_loop :: "string \<Rightarrow> nat \<Rightarrow> string \<Rightarrow> bool \<times> string" where
  "escape_loop [] out_len out = (True, out)"
| "escape_loop (c # cs) out_len out =
     (case short_escape c of
        Some escaped \<Rightarrow>
          (if length out + length escaped + 1 > out_len then (False, out)
           else escape_loop cs out_len (out @ escaped))
      | None \<Rightarrow>
          (if is_ctrl c then
             (if length (format_u04x c) + 1 > out_len - length out then (False, out)
              else escape_loop cs out_len (out @ format_u04x c))
           else if length out + 2 > out_len then (False, out)
           else escape_loop cs out_len (out @ [c])))"

definition json_escape :: "string \<Rightarrow> nat \<Rightarrow> bool \<times> string" where
  "json_escape src out_len = (if out_len = 0 then (False, []) else escape_loop src out_len [])"

section \<open>Compaction\<close>

fun compact_loop :: "string \<Rightarrow> bool \<Rightarrow> nat \<Rightarrow> string \<Rightarrow> string option" where
  "compact_loop [] in_string out_len out = (if in_string then None else Some out)"
| "compact_loop (ch # rest) in_string out_len out =
     (if in_string then
        (if ch = BSL then
           (if length out + 2 \<ge> out_len then None
            else
              (case rest of
                 [] \<Rightarrow> None
               | nx # rest' \<Rightarrow> compact_loop rest' True out_len (out @ [ch, nx])))
         else if length out + 1 \<ge> out_len then None
         else compact_loop rest (ch \<noteq> DQ) out_len (out @ [ch]))
      else if ch = DQ then
        (if length out + 1 \<ge> out_len then None
         else compact_loop rest True out_len (out @ [ch]))
      else if \<not> is_space ch then
        (if length out + 1 \<ge> out_len then None
         else compact_loop rest False out_len (out @ [ch]))
      else compact_loop rest False out_len out)"

definition json_compact :: "string \<Rightarrow> nat \<Rightarrow> string option" where
  "json_compact src out_len = (if out_len = 0 then None else compact_loop src False out_len [])"

definition json_ref_value_compact_dup :: "(nat \<Rightarrow> bool) \<Rightarrow> json_ref \<Rightarrow> string option" where
  "json_ref_value_compact_dup malloc_ok v =
     (if jr_end v < jr_start v then None
      else
        (let cap = (jr_end v - jr_start v) + 1 in
         case json_ref_value_dup malloc_ok v of
           None \<Rightarrow> None
         | Some raw \<Rightarrow> if \<not> malloc_ok cap then None else json_compact raw cap))"

section \<open>Laws of escaping\<close>

text \<open>What one byte is escaped to, independent of any buffer.\<close>

definition escape_unit :: "char \<Rightarrow> string" where
  "escape_unit c = (case short_escape c of Some e \<Rightarrow> e | None \<Rightarrow> if is_ctrl c then format_u04x c else [c])"

definition escape_text :: "string \<Rightarrow> string" where
  "escape_text s = concat (map escape_unit s)"

lemma escape_text_simps [simp]:
  "escape_text [] = []" "escape_text (c # s) = escape_unit c @ escape_text s"
  "escape_text (s @ r) = escape_text s @ escape_text r"
  by (simp_all add: escape_text_def)

lemma escape_loop_Cons:
  "length out < out_len \<Longrightarrow> escape_loop (c # cs) out_len out =
     (if length out + length (escape_unit c) \<ge> out_len then (False, out)
      else escape_loop cs out_len (out @ escape_unit c))"
  by (auto simp: escape_unit_def format_u04x_def split: option.splits)

declare escape_loop.simps(2) [simp del]

lemma escape_loop_prefix:
  "length out < out_len \<Longrightarrow> escape_loop src out_len out = (ok, e) \<Longrightarrow>
     \<exists>k \<le> length src. e = out @ escape_text (take k src) \<and> length e < out_len \<and> (ok \<longrightarrow> k = length src)"
proof (induction src arbitrary: out)
  case Nil
  then show ?case by simp
next
  case (Cons c cs)
  show ?case
  proof (cases "length out + length (escape_unit c) \<ge> out_len")
    case True
    then have "ok = False" "e = out" using Cons.prems by (auto simp: escape_loop_Cons)
    then show ?thesis using Cons.prems by (intro exI [of _ 0]) simp
  next
    case False
    then have "escape_loop cs out_len (out @ escape_unit c) = (ok, e)"
      using Cons.prems by (simp add: escape_loop_Cons)
    moreover have "length (out @ escape_unit c) < out_len" using False by simp
    ultimately obtain k where "k \<le> length cs" "e = (out @ escape_unit c) @ escape_text (take k cs)"
      "length e < out_len" "ok \<longrightarrow> k = length cs"
      using Cons.IH by blast
    then show ?thesis by (intro exI [of _ "Suc k"]) simp
  qed
qed

lemma escape_loop_fits:
  "length out + length (escape_text src) < out_len \<Longrightarrow>
     escape_loop src out_len out = (True, out @ escape_text src)"
proof (induction src arbitrary: out)
  case (Cons c cs)
  then show ?case using Cons.IH [of "out @ escape_unit c"] by (simp add: escape_loop_Cons)
qed simp

lemma hex_char_xdigit: "n < 16 \<Longrightarrow> is_xdigit (hex_char n) \<and> hex_value (hex_char n) = Some n"
  by (auto simp: hex_char_def hex_value_def is_xdigit_def is_digit_def)

lemma hex_zero: "is_xdigit (CHR ''0'')" "hex_value (CHR ''0'') = Some 0"
  by (simp_all add: hex_value_def char_class_defs)

lemma jchars_append: "jchars v \<Longrightarrow> jchars w \<Longrightarrow> jchars (v @ w)"
  by (induction rule: jchars.induct) (auto intro: jchars.intros)

lemma jchars_escape_unit: "jchars (escape_unit c)"
proof (cases "short_escape c")
  case None
  then have c: "c \<noteq> DQ" "c \<noteq> BSL" by (auto simp: short_escape_def)
  have "byte c div 16 < 16" using byte_less [of c] by linarith
  then have "jchars (format_u04x c)" unfolding format_u04x_def
    by (intro jchars_unicode jchars_Nil) (simp_all add: hex_char_xdigit hex_zero)
  moreover have "\<not> is_ctrl c \<Longrightarrow> jchars [c]" using c by (intro jchars_plain jchars_Nil)
  ultimately show ?thesis using None by (simp add: escape_unit_def)
next
  case (Some e)
  then show ?thesis
    by (auto simp: escape_unit_def short_escape_def is_simple_escape_def split: if_splits intro!: jchars.intros)
qed

lemma jchars_escape_text: "jchars (escape_text s)"
  by (induction s) (auto intro: jchars.intros jchars_append jchars_escape_unit)

lemma append_single: "(@) [c] = (#) c"
  by (rule ext) simp

lemma jdecode_escape_unit: "jdecode (escape_unit c @ w) = map_option ((#) c) (jdecode w)"
proof (cases "short_escape c")
  case (Some e)
  then show ?thesis
    by (subst jdecode.simps) (auto simp: escape_unit_def short_escape_def simple_escape_value_def split: if_splits)
next
  case None
  show ?thesis
  proof (cases "is_ctrl c")
    case False
    have "c \<noteq> BSL" using None by (auto simp: short_escape_def)
    then show ?thesis using None False by (subst jdecode.simps) (simp add: escape_unit_def)
  next
    case True
    then have b: "byte c < 32" by (simp add: is_ctrl_def)
    then have h: "hex_value (hex_char (byte c div 16)) = Some (byte c div 16)"
        "hex_value (hex_char (byte c mod 16)) = Some (byte c mod 16)"
      using hex_char_xdigit [of "byte c div 16"] hex_char_xdigit [of "byte c mod 16"] by auto
    have "push_bit 4 (byte c div 16) OR (byte c mod 16) = byte c"
      using push_or_add [of "byte c mod 16" 4 "byte c div 16"] by simp
    then have "junicode ([CHR ''0'', CHR ''0'', hex_char (byte c div 16), hex_char (byte c mod 16)] @ w) = Some (byte c, w)"
      using b h hex_zero by (simp add: junicode_def)
    then show ?thesis using None True b
      by (subst jdecode.simps) (simp add: escape_unit_def format_u04x_def simple_escape_value_u utf8_bytes_def append_single)
  qed
qed

lemma jdecode_escape_text: "jdecode (escape_text s) = Some s"
proof (induction s)
  case Nil
  then show ?case by (subst jdecode.simps) simp
next
  case (Cons c s)
  then show ?case by (simp add: jdecode_escape_unit)
qed

text \<open>
  C17. Escaping round trip: when \<open>json_escape\<close> reports success, the escaped text between
  quotes is a JSON string that decodes to the original bytes, and success is reported
  exactly when the escaped text and its terminator fit the buffer. On failure the buffer
  holds the escape of a prefix of the input, never half an escape sequence.
\<close>

theorem json_escape_roundtrip:
  "json_escape src n = (ok, e) \<Longrightarrow> 0 < n \<Longrightarrow>
     (ok \<longleftrightarrow> length (escape_text src) < n) \<and> length e < n \<and>
     (\<exists>k \<le> length src. (ok \<longrightarrow> k = length src) \<and>
        json_ref_from_text (DQ # e @ [DQ]) = Some (mk_ref (DQ # e @ [DQ]) 0 (length e + 2)) \<and>
        (\<forall>m > k. json_ref_string_copy (mk_ref (DQ # e @ [DQ]) 0 (length e + 2)) m = (True, take k src)))"
proof -
  assume e: "json_escape src n = (ok, e)" and n: "0 < n"
  then have "escape_loop src n [] = (ok, e)" by (simp add: json_escape_def)
  then obtain k where k: "k \<le> length src" "e = escape_text (take k src)" "length e < n" "ok \<longrightarrow> k = length src"
    using escape_loop_prefix [of "[]" n src ok e] n by auto
  have w: "jchars e" using k jchars_escape_text by simp
  then have "jvalue (DQ # e @ [DQ])" by (intro jvalue_string) (auto simp: jstring_def)
  then have "json_ref_from_text (DQ # e @ [DQ]) = Some (mk_ref (DQ # e @ [DQ]) 0 (length e + 2))"
    using from_text_complete [of "[]" "DQ # e @ [DQ]" "[]"] by simp
  moreover have "json_ref_string_copy (mk_ref (DQ # e @ [DQ]) 0 (length e + 2)) m = (True, take k src)" if "k < m" for m
    using literal_copy [OF w, of m "[]" "[]" "take k src"] k that jdecode_escape_text [of "take k src"] by simp
  moreover have "ok \<longleftrightarrow> length (escape_text src) < n"
    using k escape_loop_fits [of "[]" src n] \<open>escape_loop src n [] = (ok, e)\<close> by auto
  ultimately show ?thesis using k by blast
qed

theorem json_escape_roundtrip_witness:
  "json_ref_string_copy (mk_ref [DQ, BSL, CHR ''n'', CHR ''a'', DQ] 0 5) 3 = (True, [CHR 0x0A, CHR ''a''])"
proof -
  have "json_escape [CHR 0x0A, CHR ''a''] 4 = (True, [BSL, CHR ''n'', CHR ''a''])" by code_simp
  from json_escape_roundtrip [OF this] show ?thesis by (auto simp: numeral_eq_Suc)
qed

section \<open>Laws of compaction\<close>

text \<open>Compacting \<open>v\<close> in front of anything writes \<open>v'\<close>, if the buffer could hold \<open>v\<close> itself.\<close>

definition squeezes :: "string \<Rightarrow> string \<Rightarrow> bool" where
  "squeezes v v' \<longleftrightarrow> length v' \<le> length v \<and>
     (\<forall>rest out n. length out + length v < n \<longrightarrow>
        compact_loop (v @ rest) False n out = compact_loop rest False n (out @ v'))"

lemma squeezes_Nil [simp]: "squeezes [] []"
  by (simp add: squeezes_def)

lemma squeezes_append:
  assumes "squeezes a a'" and "squeezes b b'"
  shows "squeezes (a @ b) (a' @ b')"
  using assms by (fastforce simp: squeezes_def)

lemma squeezes_space: "is_space c \<Longrightarrow> squeezes [c] []"
  by (auto simp: squeezes_def char_class_defs)

lemma squeezes_plain: "\<not> is_space c \<Longrightarrow> c \<noteq> DQ \<Longrightarrow> squeezes [c] [c]"
  by (simp add: squeezes_def)

lemma squeezes_Cons: "squeezes [c] cs \<Longrightarrow> squeezes w w' \<Longrightarrow> squeezes (c # w) (cs @ w')"
  using squeezes_append [of "[c]" cs w w'] by simp

lemma squeezes_ws: "jws w \<Longrightarrow> squeezes w []"
  by (induction w) (use squeezes_Cons [OF squeezes_space] in \<open>force simp: jws_def\<close>)+

definition tight :: "char \<Rightarrow> bool" where
  "tight c \<longleftrightarrow> \<not> is_space c \<and> c \<noteq> DQ"

lemma squeezes_tight: "tight c \<Longrightarrow> squeezes w w' \<Longrightarrow> squeezes (c # w) (c # w')"
  using squeezes_Cons [OF squeezes_plain] by (simp add: tight_def)

lemma squeezes_ws_append: "jws a \<Longrightarrow> squeezes w w' \<Longrightarrow> squeezes (a @ w) w'"
  using squeezes_append [OF squeezes_ws] by simp

lemma squeezes_all_tight: "list_all tight w \<Longrightarrow> squeezes w w"
  by (induction w) (auto intro: squeezes_tight)

lemma tight_punct [simp]: "tight (CHR '':'')" "tight (CHR '','')" "tight (CHR ''{'')" "tight (CHR ''}'')"
  "tight (CHR ''['')" "tight (CHR '']'')" "tight (CHR ''-'')" "tight (CHR ''+'')" "tight (CHR ''.'')"
  "tight (CHR ''e'')" "tight (CHR ''E'')"
  by (simp_all add: tight_def char_class_defs)

lemma xdigit_plain: "is_xdigit c \<Longrightarrow> c \<noteq> DQ \<and> c \<noteq> BSL \<and> \<not> is_space c"
  by (auto simp: char_class_defs)

lemma compact_string_body:
  "jchars w \<Longrightarrow> length out + length w + 1 < n \<Longrightarrow>
     compact_loop (w @ DQ # rest) True n out = compact_loop rest False n (out @ w @ [DQ])"
proof (induction arbitrary: out rule: jchars.induct)
  case (jchars_unicode a b c d w)
  then show ?case using xdigit_plain [of a] xdigit_plain [of b] xdigit_plain [of c] xdigit_plain [of d] by simp
qed simp_all

lemma squeezes_string: "jstring k \<Longrightarrow> squeezes k k"
  unfolding jstring_def squeezes_def by (auto simp: compact_string_body)

lemma digits_tight: "list_all is_digit ds \<Longrightarrow> list_all tight ds"
  by (erule list.pred_mono_strong) (auto simp: tight_def char_class_defs)

lemma squeezes_number: "jnumber s \<Longrightarrow> squeezes s s"
  by (rule squeezes_all_tight) (auto simp: jnumber_def jfraction_def jexponent_def jdigits_def digits_tight)

lemmas squeeze_rules = squeezes_append squeezes_tight squeezes_ws_append squeezes_string squeezes_Nil

lemma squeezes_literals: "squeezes ''true'' ''true''" "squeezes ''false'' ''false''" "squeezes ''null'' ''null''"
  by (rule squeezes_all_tight, simp add: tight_def char_class_defs)+

lemma compact_structure:
  shows "jvalue v \<Longrightarrow> \<exists>v'. jvalue v' \<and> squeezes v v' \<and> squeezes v' v'"
    and "jmembers m \<Longrightarrow> \<exists>m'. jmembers m' \<and> squeezes m m' \<and> squeezes m' m'"
    and "jelements l \<Longrightarrow> \<exists>l'. jelements l' \<and> squeezes l l' \<and> squeezes l' l'"
proof (induction rule: jvalue_jmembers_jelements.inducts)
  case (jvalue_object w m)
  then obtain m' where "jmembers m'" "squeezes m m'" "squeezes m' m'" by blast
  then show ?case using jvalue_jmembers_jelements.jvalue_object [of "[]" m'] jvalue_object(1)
    by (intro exI [of _ "CHR ''{'' # m'"]) (simp add: squeeze_rules)
next
  case (jvalue_array w m)
  then obtain m' where "jelements m'" "squeezes m m'" "squeezes m' m'" by blast
  then show ?case using jvalue_jmembers_jelements.jvalue_array [of "[]" m'] jvalue_array(1)
    by (intro exI [of _ "CHR ''['' # m'"]) (simp add: squeeze_rules)
next
  case (jmembers_last k a b v c)
  then obtain v' where "jvalue v'" "squeezes v v'" "squeezes v' v'" by blast
  then show ?case using jvalue_jmembers_jelements.jmembers_last [of k "[]" "[]" v' "[]"] jmembers_last(1-3,5,6)
    by (intro exI [of _ "k @ CHR '':'' # v' @ ''}''"]) (simp add: squeeze_rules)
next
  case (jmembers_more k a b v c d m)
  then obtain v' m' where "jvalue v'" "squeezes v v'" "squeezes v' v'" "jmembers m'" "squeezes m m'" "squeezes m' m'" by blast
  then show ?case using jvalue_jmembers_jelements.jmembers_more [of k "[]" "[]" v' "[]" "[]" m'] jmembers_more(1-3,5,6,7)
    by (intro exI [of _ "k @ CHR '':'' # v' @ CHR '','' # m'"]) (simp add: squeeze_rules)
next
  case (jelements_last v c)
  then obtain v' where "jvalue v'" "squeezes v v'" "squeezes v' v'" by blast
  then show ?case using jvalue_jmembers_jelements.jelements_last [of v' "[]"] jelements_last(2,3)
    by (intro exI [of _ "v' @ '']''"]) (simp add: squeeze_rules)
next
  case (jelements_more v c d m)
  then obtain v' m' where "jvalue v'" "squeezes v v'" "squeezes v' v'" "jelements m'" "squeezes m m'" "squeezes m' m'" by blast
  then show ?case using jvalue_jmembers_jelements.jelements_more [of v' "[]" "[]" m'] jelements_more(2,3,4)
    by (intro exI [of _ "v' @ CHR '','' # m'"]) (simp add: squeeze_rules)
next
  case (jvalue_empty_object w)
  then show ?case using jvalue_jmembers_jelements.jvalue_empty_object [of "[]"]
    by (intro exI [of _ "''{}''"]) (simp add: squeeze_rules)
next
  case (jvalue_empty_array w)
  then show ?case using jvalue_jmembers_jelements.jvalue_empty_array [of "[]"]
    by (intro exI [of _ "''[]''"]) (simp add: squeeze_rules)
qed (blast intro: jvalue_jmembers_jelements.intros squeezes_string squeezes_number squeezes_literals)+

lemma compact_loop_Cons:
  "compact_loop (ch # rest) b n out = Some c \<longleftrightarrow>
     (if b \<and> ch = BSL then \<exists>nx rest'. rest = nx # rest' \<and> length out + 2 < n \<and> compact_loop rest' True n (out @ [ch, nx]) = Some c
      else if \<not> b \<and> is_space ch \<and> ch \<noteq> DQ then compact_loop rest False n out = Some c
      else length out + 1 < n \<and> compact_loop rest (b \<noteq> (ch = DQ)) n (out @ [ch]) = Some c)"
  by (auto split: list.split)

lemma compact_loop_mono:
  "compact_loop s b n out = Some c \<Longrightarrow> length out < n \<Longrightarrow> n \<le> m \<Longrightarrow> compact_loop s b m out = Some c \<and> length c < n"
proof (induction s arbitrary: b out rule: length_induct)
  case (1 s)
  show ?case
  proof (cases s)
    case (Cons ch rest)
    note d = "1.prems"(1) [unfolded Cons compact_loop_Cons]
    have IH: "compact_loop s' b' m out' = Some c \<and> length c < n"
      if "length s' \<le> length rest" "compact_loop s' b' n out' = Some c" "length out' < n" for s' b' out'
      using "1.IH" [rule_format, of s' b' out'] that "1.prems"(3) Cons by simp
    consider (esc) nx rest' where "b \<and> ch = BSL" "rest = nx # rest'" "length out + 2 < n" "compact_loop rest' True n (out @ [ch, nx]) = Some c"
      | (ws) "\<not> (b \<and> ch = BSL)" "\<not> b \<and> is_space ch \<and> ch \<noteq> DQ" "compact_loop rest False n out = Some c"
      | (plain) "\<not> (b \<and> ch = BSL)" "\<not> (\<not> b \<and> is_space ch \<and> ch \<noteq> DQ)" "length out + 1 < n"
          "compact_loop rest (b \<noteq> (ch = DQ)) n (out @ [ch]) = Some c"
      using d by (metis (no_types))
    then show ?thesis
    proof cases
      case esc
      have "compact_loop rest' True m (out @ [ch, nx]) = Some c \<and> length c < n" by (rule IH [OF _ esc(4)]) (use esc(2,3) in simp_all)
      then show ?thesis unfolding Cons compact_loop_Cons using esc(1,2,3) "1.prems"(3) by auto
    next
      case ws
      have "compact_loop rest False m out = Some c \<and> length c < n" by (rule IH [OF _ ws(3)]) (use "1.prems"(2) in simp_all)
      then show ?thesis unfolding Cons compact_loop_Cons if_not_P [OF ws(1)] if_P [OF ws(2)] .
    next
      case plain
      have "compact_loop rest (b \<noteq> (ch = DQ)) m (out @ [ch]) = Some c \<and> length c < n" by (rule IH [OF _ plain(4)]) (use plain(3) in simp_all)
      then show ?thesis unfolding Cons compact_loop_Cons if_not_P [OF plain(1)] if_not_P [OF plain(2)] using plain(3) "1.prems"(3) by simp
    qed
  qed (use 1 in \<open>auto split: if_splits\<close>)
qed

lemma compact_fixed: "squeezes c c \<Longrightarrow> length c < n \<Longrightarrow> json_compact c n = Some c"
  unfolding json_compact_def squeezes_def
  by (metis append_Nil append_Nil2 compact_loop.simps(1) gr_implies_not_zero list.size(3) add_0)

lemma compact_value:
  assumes "jvalue v" and "json_compact v n = Some c"
  shows "jvalue c" and "squeezes c c" and "length c < n" and "length c \<le> length v"
proof -
  obtain c' where c': "jvalue c'" "squeezes v c'" "squeezes c' c'" using compact_structure(1) [OF assms(1)] by blast
  have n: "0 < n" and l: "compact_loop v False n [] = Some c" using assms(2) by (auto simp: json_compact_def split: if_splits)
  let ?m = "max n (Suc (length v))"
  have "compact_loop v False ?m [] = Some c" using compact_loop_mono [OF l _ max.cobounded1] n by simp
  moreover have "compact_loop (v @ []) False ?m [] = compact_loop [] False ?m ([] @ c')"
    using c'(2) unfolding squeezes_def by (metis add_0 lessI list.size(3) max.strict_coboundedI2)
  ultimately have "c = c'" by simp
  then show "jvalue c" "squeezes c c" "length c \<le> length v" using c' by (auto simp: squeezes_def)
  show "length c < n" using compact_loop_mono [OF l _ order_refl] n by simp
qed

text \<open>
  Compaction keeps the text a JSON value: \<open>json_compact\<close> of a value that fits the
  buffer succeeds, its result is a JSON value no longer than the input, and compacting the
  result again changes nothing.
\<close>

theorem json_compact_value:
  assumes "jvalue v" and "length v < n"
  shows "\<exists>c. json_compact v n = Some c \<and> jvalue c \<and> length c \<le> length v \<and> json_compact c n = Some c"
proof -
  obtain c where c: "jvalue c" "squeezes v c" "squeezes c c" using compact_structure(1) [OF assms(1)] by blast
  have "compact_loop v False n [] = Some c" "compact_loop c False n [] = Some c" "length c \<le> length v"
    using c assms(2) by (simp_all add: squeezes_def) (metis append_Nil2 append_Nil compact_loop.simps(1) list.size(3) add_0 le_less_trans)+
  then show ?thesis using c assms(2) by (auto simp: json_compact_def)
qed

theorem json_compact_value_witness:
  "\<exists>c. json_compact ''[ 1 ]'' 6 = Some c \<and> jvalue c \<and> length c \<le> 5 \<and> json_compact c 6 = Some c"
proof -
  have "jvalue ''1''" by (intro jvalue_number jnumber_digits) (simp_all add: char_class_defs)
  then have "jelements (''1'' @ '' '' @ '']'')" by (rule jelements_last) (simp add: char_class_defs)
  then have "jvalue ''[ 1 ]''" using jvalue_array [of "'' ''" "''1'' @ '' '' @ '']''"] by (simp add: char_class_defs)
  from json_compact_value [OF this, of 6] show ?thesis by (simp add: numeral_eq_Suc)
qed

end
