(* ===== verification/C_Text.thy ===== *)
theory C_Text
  imports Prelude
begin

text \<open>
  Scanning and formatting of C text that several components share: the pointer loop that skips
  bytes of a class, \<open>memchr\<close>, and the decimal output of \<open>printf\<close>.
\<close>

section \<open>Scanning\<close>

function scan_while :: "(char \<Rightarrow> bool) \<Rightarrow> string \<Rightarrow> nat \<Rightarrow> nat \<Rightarrow> nat" where
  "scan_while P t p e = (if p < e \<and> P (ch_at t p) then scan_while P t (Suc p) e else p)"
  by pat_completeness auto
termination by (relation "measure (\<lambda>(P, t, p, e). e - p)") auto

declare scan_while.simps [simp del]

lemma scan_while_ge: "p \<le> scan_while P t p e"
  by (induction P t p e rule: scan_while.induct) (subst scan_while.simps, auto)

lemma scan_while_gt: "p < e \<Longrightarrow> P (ch_at t p) \<Longrightarrow> p < scan_while P t p e"
  using scan_while_ge [of "Suc p" P t e] by (subst scan_while.simps) simp

lemma scan_while_le: "p \<le> e \<Longrightarrow> scan_while P t p e \<le> e"
  by (induction P t p e rule: scan_while.induct) (subst scan_while.simps, auto)

lemma ch_at_offset: "drop p t = v @ r \<Longrightarrow> i < length v \<Longrightarrow> ch_at t (p + i) = v ! i"
proof -
  assume d: "drop p t = v @ r" and i: "i < length v"
  then have "p + i < length t" using drop_eq_append_le [OF d] by fastforce
  moreover from this have "t ! (p + i) = (v @ r) ! i" using d by (metis add.commute less_imp_le nth_drop trans_le_add2 le_add1 order.trans)
  ultimately show ?thesis using i by (simp add: ch_at_nth nth_append)
qed

lemma scan_while_to:
  "list_all P v \<Longrightarrow> drop p t = v @ r \<Longrightarrow> p + length v \<le> e \<Longrightarrow> p + length v < e \<longrightarrow> \<not> P (ch_at t (p + length v)) \<Longrightarrow>
     scan_while P t p e = p + length v"
proof (induction v arbitrary: p)
  case Nil
  then show ?case by (subst scan_while.simps) auto
next
  case (Cons x v)
  have "ch_at t p = x" "drop (Suc p) t = v @ r" using Cons.prems drop_Cons_ch_at [of p t x] by auto
  then show ?case using Cons.IH [of "Suc p"] Cons.prems by (subst scan_while.simps) simp
qed

lemma scan_while_stop: "b \<le> q \<Longrightarrow> \<not> P (ch_at t q) \<Longrightarrow> scan_while P t b e \<le> q"
proof (induction P t b e rule: scan_while.induct)
  case (1 P t p e)
  then have "P (ch_at t p) \<Longrightarrow> Suc p \<le> q" by (cases "p = q") auto
  then show ?case using 1 by (subst scan_while.simps) auto
qed

text \<open>\<open>memchr(p, c, end - p)\<close>\<close>

definition memchr :: "string \<Rightarrow> char \<Rightarrow> nat \<Rightarrow> nat \<Rightarrow> nat option" where
  "memchr t c p e = (let q = scan_while (\<lambda>x. x \<noteq> c) t p e in if q < e then Some q else None)"

lemma scan_while_span: "q \<in> {p..<scan_while P t p e} \<Longrightarrow> P (ch_at t q)"
proof (induction P t p e rule: scan_while.induct)
  case (1 P t p e)
  then show ?case
    by (cases "q = p") (auto simp: scan_while.simps [of P t p e] split: if_splits)
qed

lemma memchr_SomeD:
  assumes "memchr t c p e = Some q"
  shows "p \<le> q" "q < e" "ch_at t q = c"
proof -
  have q: "q = scan_while (\<lambda>x. x \<noteq> c) t p e" "q < e" using assms by (auto simp: memchr_def Let_def split: if_splits)
  then show "p \<le> q" "q < e" by (auto simp: scan_while_ge)
  have "scan_while P t p e < e \<Longrightarrow> \<not> P (ch_at t (scan_while P t p e))" for P
    by (induction P t p e rule: scan_while.induct) (subst scan_while.simps, subst (asm) (1) scan_while.simps, auto)
  then show "ch_at t q = c" using q by auto
qed

lemma memchr_bounds: "memchr t c p e = Some q \<Longrightarrow> p \<le> q \<and> q < e"
  by (simp add: memchr_SomeD)

lemma memchr_at:
  assumes "drop p t = v @ c # r" and "c \<notin> set v" and "p + length v < e"
  shows "memchr t c p e = Some (p + length v)"
proof -
  have "ch_at t (p + length v) = c" using drop_append_length [OF assms(1)] drop_Cons_ch_at by blast
  then have "scan_while (\<lambda>x. x \<noteq> c) t p e = p + length v"
    using assms by (intro scan_while_to [of _ v p t "c # r"]) (auto simp: list_all_iff)
  then show ?thesis using assms(3) by (simp add: memchr_def)
qed

section \<open>Decimal output\<close>

definition digit_char :: "nat \<Rightarrow> char" where
  "digit_char d = char_of (48 + d)"

fun show_nat :: "nat \<Rightarrow> string" where
  "show_nat n = (if n < 10 then [digit_char n] else show_nat (n div 10) @ [digit_char (n mod 10)])"

declare show_nat.simps [simp del]

definition show_int :: "int \<Rightarrow> string" where
  "show_int i = (if i < 0 then CHR ''-'' # show_nat (nat (- i)) else show_nat (nat i))"

definition nat_of_digits :: "string \<Rightarrow> nat" where
  "nat_of_digits ds = foldl (\<lambda>n c. n * 10 + (byte c - 48)) 0 ds"

lemma digit_char_digit [simp]: "d < 10 \<Longrightarrow> is_digit (digit_char d) \<and> byte (digit_char d) = 48 + d"
  by (simp add: digit_char_def is_digit_def)

lemma show_nat_digits: "show_nat n \<noteq> [] \<and> list_all is_digit (show_nat n)"
  by (induction n rule: show_nat.induct) (subst show_nat.simps, subst (2) show_nat.simps, auto)

lemma nat_of_digits_show [simp]: "nat_of_digits (show_nat n) = n"
proof (induction n rule: show_nat.induct)
  case (1 n)
  then show ?case by (subst show_nat.simps) (auto simp: nat_of_digits_def)
qed

end
