(* ===== verification/Fjson_Repair.thy ===== *)
theory Fjson_Repair
  imports Json_Print C_Text
begin

text \<open>
  The best-effort JSON repair of \<open>runtime/fjson_repair/repair.c\<close>. The input is a
  length-delimited buffer, so it may contain NUL bytes and pointers into it are offsets below
  \<open>end\<close>. The writer is the record \<open>fjr_writer\<close>: the bytes \<open>out[0..pos)\<close> written so far (the
  C code keeps a terminator behind them), the capacity and the report. Every append threads the
  writer and says whether it succeeded, so that a failed call leaves what it wrote. The main
  loop of \<open>repair_candidate\<close> is one step function iterated until it breaks, returns or reaches
  the end; the stack of open containers has its top at the head of the list.
\<close>

section \<open>Data\<close>

definition FJR_STACK_MAX :: nat where
  "FJR_STACK_MAX = 128"

datatype fjr_status =
    FJR_OK_UNCHANGED | FJR_OK_REPAIRED | FJR_ERR_UNREPAIRABLE | FJR_ERR_OUTPUT_TOO_SMALL
  | FJR_ERR_AMBIGUOUS

datatype fjr_ctx =
    FJR_CTX_OBJECT_KEY_OR_END | FJR_CTX_OBJECT_COLON | FJR_CTX_OBJECT_VALUE
  | FJR_CTX_OBJECT_COMMA_OR_END | FJR_CTX_ARRAY_VALUE_OR_END | FJR_CTX_ARRAY_COMMA_OR_END

record fjr_stack_item =
  si_opener :: char
  si_ctx :: fjr_ctx

text \<open>The one-bit fields of \<open>FjrReport\<close> are indexed by their names.\<close>

datatype fjr_flag =
    Stripped_Fence | Stripped_Prose | Added_Missing_Quote | Added_Missing_Comma
  | Removed_Trailing_Comma | Closed_String | Closed_Object | Closed_Array
  | Substituted_Wrong_Closer | Converted_Single_Quotes | Replaced_Invalid_Literal
  | Trimmed_Trailing_Junk | Stripped_Comments

record fjr_report =
  fr_flag :: "fjr_flag \<Rightarrow> bool"
  fr_repairs :: nat
  fr_candidate_offset :: nat
  fr_candidate_len :: nat
  fr_error_offset :: nat

record fjr_writer =
  fw_out :: string
  fw_cap :: nat
  fw_report :: fjr_report

definition FJR_MARK :: "fjr_flag \<Rightarrow> fjr_report \<Rightarrow> fjr_report" where
  "FJR_MARK f r =
     (if fr_flag r f then r
      else r\<lparr>fr_flag := (fr_flag r)(f := True), fr_repairs := fr_repairs r + 1\<rparr>)"

definition mark :: "fjr_flag \<Rightarrow> fjr_writer \<Rightarrow> fjr_writer" where
  "mark f w = w\<lparr>fw_report := FJR_MARK f (fw_report w)\<rparr>"

definition set_error_offset :: "nat \<Rightarrow> fjr_writer \<Rightarrow> fjr_writer" where
  "set_error_offset n w = w\<lparr>fw_report := (fw_report w)\<lparr>fr_error_offset := n\<rparr>\<rparr>"

section \<open>Scanning and writing\<close>

definition skip_ws_span :: "string \<Rightarrow> nat \<Rightarrow> nat \<Rightarrow> nat" where
  "skip_ws_span t p e = scan_while is_space t p e"

fun trim_end_ws :: "string \<Rightarrow> nat \<Rightarrow> nat \<Rightarrow> nat" where
  "trim_end_ws t start 0 = 0"
| "trim_end_ws t start (Suc e) =
     (if Suc e > start \<and> is_space (ch_at t e) then trim_end_ws t start e else Suc e)"

definition append_char :: "fjr_writer \<Rightarrow> char \<Rightarrow> bool \<times> fjr_writer" where
  "append_char w ch =
     (if fw_cap w = 0 \<or> length (fw_out w) + 1 \<ge> fw_cap w then (False, w)
      else (True, w\<lparr>fw_out := fw_out w @ [ch]\<rparr>))"

definition append_text :: "fjr_writer \<Rightarrow> string \<Rightarrow> bool \<times> fjr_writer" where
  "append_text w s =
     (if length (fw_out w) + length s \<ge> fw_cap w then (False, w)
      else (True, w\<lparr>fw_out := fw_out w @ s\<rparr>))"

fun append_chars :: "fjr_writer \<Rightarrow> string \<Rightarrow> bool \<times> fjr_writer" where
  "append_chars w [] = (True, w)"
| "append_chars w (c # cs) =
     (case append_char w c of (ok, w') \<Rightarrow> if \<not> ok then (False, w') else append_chars w' cs)"

definition is_ident_start :: "char \<Rightarrow> bool" where
  "is_ident_start ch \<longleftrightarrow> is_alpha ch \<or> ch = CHR ''_'' \<or> ch = CHR ''$''"

definition is_ident_char :: "char \<Rightarrow> bool" where
  "is_ident_char ch \<longleftrightarrow> is_alnum ch \<or> ch = CHR ''_'' \<or> ch = CHR ''-'' \<or> ch = CHR ''.'' \<or> ch = CHR ''$''"

definition is_simple_json_escape :: "char \<Rightarrow> bool" where
  "is_simple_json_escape ch \<longleftrightarrow> ch = DQ \<or> ch = BSL \<or> ch = CHR ''/'' \<or> ch = CHR ''b'' \<or>
     ch = CHR ''f'' \<or> ch = CHR ''n'' \<or> ch = CHR ''r'' \<or> ch = CHR ''t''"

section \<open>The container stack\<close>

fun is_value_expected :: "fjr_stack_item list \<Rightarrow> bool" where
  "is_value_expected [] \<longleftrightarrow> True"
| "is_value_expected (i # _) \<longleftrightarrow> si_ctx i = FJR_CTX_OBJECT_VALUE \<or> si_ctx i = FJR_CTX_ARRAY_VALUE_OR_END"

fun is_key_expected :: "fjr_stack_item list \<Rightarrow> bool" where
  "is_key_expected [] \<longleftrightarrow> False"
| "is_key_expected (i # _) \<longleftrightarrow> si_opener i = CHR ''{'' \<and> si_ctx i = FJR_CTX_OBJECT_KEY_OR_END"

fun set_top_ctx :: "fjr_ctx \<Rightarrow> fjr_stack_item list \<Rightarrow> fjr_stack_item list" where
  "set_top_ctx c [] = []"
| "set_top_ctx c (i # rest) = i\<lparr>si_ctx := c\<rparr> # rest"

fun mark_value_done :: "fjr_stack_item list \<Rightarrow> fjr_stack_item list" where
  "mark_value_done [] = []"
| "mark_value_done (i # rest) =
     (if si_ctx i = FJR_CTX_OBJECT_VALUE then i\<lparr>si_ctx := FJR_CTX_OBJECT_COMMA_OR_END\<rparr> # rest
      else if si_ctx i = FJR_CTX_ARRAY_VALUE_OR_END then i\<lparr>si_ctx := FJR_CTX_ARRAY_COMMA_OR_END\<rparr> # rest
      else i # rest)"

definition push_container :: "fjr_stack_item list \<Rightarrow> char \<Rightarrow> fjr_stack_item list option" where
  "push_container stack opener =
     (if length stack \<ge> FJR_STACK_MAX then None
      else Some (\<lparr>si_opener = opener,
        si_ctx = (if opener = CHR ''{'' then FJR_CTX_OBJECT_KEY_OR_END else FJR_CTX_ARRAY_VALUE_OR_END)\<rparr> # stack))"

section \<open>Strings, keys and scalars\<close>

text \<open>
  The body loop of \<open>append_json_string\<close>: success, the writer, the offset reached and whether
  the closing quote was seen.
\<close>

definition hex4_before :: "string \<Rightarrow> nat \<Rightarrow> nat \<Rightarrow> bool" where
  "hex4_before t p e \<longleftrightarrow> p + 5 < e \<and> is_xdigit (ch_at t (p + 2)) \<and> is_xdigit (ch_at t (p + 3)) \<and>
     is_xdigit (ch_at t (p + 4)) \<and> is_xdigit (ch_at t (p + 5))"

text \<open>
  What one turn of the loop writes for the byte at \<open>p\<close>: whether the turn is a repair (it
  marks \<open>closed_string\<close> first and then writes the text in one piece), the bytes, and how many
  bytes of the input they stand for.
\<close>

definition string_unit :: "string \<Rightarrow> nat \<Rightarrow> nat \<Rightarrow> char \<Rightarrow> bool \<times> string \<times> nat" where
  "string_unit t p e quote =
     (let c = ch_at t p; c1 = ch_at t (p + 1) in
      if quote = DQ \<and> c = BSL then
        (if p + 1 \<ge> e then (True, [BSL, BSL], 1)
         else if is_simple_json_escape c1 then (False, [c, c1], 2)
         else if c1 = CHR ''u'' \<and> hex4_before t p e then (False, span t p (p + 6), 6)
         else (True, [BSL, BSL], 1))
      else if quote = CHR 0x27 \<and> c = BSL \<and> p + 1 < e \<and> c1 = CHR 0x27 then (False, [CHR 0x27], 2)
      else if quote = CHR 0x27 \<and> (c = DQ \<or> c = BSL) then (False, [BSL, c], 1)
      else if c = CHR 0x0A then (True, [BSL, CHR ''n''], 1)
      else if c = CHR 0x09 then (True, [BSL, CHR ''t''], 1)
      else if is_ctrl c then (True, format_u04x c, 1)
      else (False, [c], 1))"

definition string_unit_len :: "string \<Rightarrow> nat \<Rightarrow> nat \<Rightarrow> char \<Rightarrow> nat" where
  "string_unit_len t p e quote = snd (snd (string_unit t p e quote))"

lemma string_unit_len_pos: "0 < string_unit_len t p e quote"
  by (simp add: string_unit_len_def string_unit_def Let_def)

definition emit_string_unit :: "string \<Rightarrow> nat \<Rightarrow> nat \<Rightarrow> char \<Rightarrow> fjr_writer \<Rightarrow> bool \<times> fjr_writer" where
  "emit_string_unit t p e quote w =
     (case string_unit t p e quote of (repair, bytes, _) \<Rightarrow>
        if repair then append_text (mark Closed_String w) bytes else append_chars w bytes)"

function json_string_loop :: "string \<Rightarrow> nat \<Rightarrow> nat \<Rightarrow> char \<Rightarrow> fjr_writer \<Rightarrow> bool \<times> fjr_writer \<times> nat \<times> bool" where
  "json_string_loop t p e quote w =
     (if p \<ge> e then (True, w, p, False)
      else if ch_at t p = quote then (True, w, p + 1, True)
      else
        (case emit_string_unit t p e quote w of (ok, w') \<Rightarrow>
            if \<not> ok then (False, w', p, False)
            else json_string_loop t (p + string_unit_len t p e quote) e quote w'))"
  by pat_completeness auto
termination
  by (relation "measure (\<lambda>(t, p, e, quote, w). e - p)") (auto intro!: diff_less_mono2 simp: string_unit_len_pos)

declare json_string_loop.simps [simp del]

definition append_json_string :: "fjr_writer \<Rightarrow> string \<Rightarrow> nat \<Rightarrow> nat \<Rightarrow> char \<Rightarrow> bool \<times> fjr_writer \<times> nat" where
  "append_json_string w t p e quote =
     (case append_char w DQ of
        (ok, w1) \<Rightarrow> if \<not> ok then (False, w1, p)
      else
          (case json_string_loop t (p + 1) e quote w1 of
             (ok, w2, q, closed) \<Rightarrow> if \<not> ok then (False, w2, q)
           else
               (case append_char (if closed then w2 else mark Closed_String w2) DQ of
                  (ok, w3) \<Rightarrow> if \<not> ok then (False, w3, q)
                else
                    (True, if quote = CHR 0x27 then mark Converted_Single_Quotes w3 else w3, q))))"

text \<open>Copying a bare word between quotes, with a backslash before quotes and backslashes.\<close>

definition quoted_char :: "char \<Rightarrow> string" where
  "quoted_char c = (if c = DQ \<or> c = BSL then [BSL, c] else [c])"

datatype key_result = Key_Ok fjr_writer nat | Key_Error fjr_writer | Key_Too_Small fjr_writer

definition append_bare_key :: "fjr_writer \<Rightarrow> string \<Rightarrow> nat \<Rightarrow> nat \<Rightarrow> key_result" where
  "append_bare_key w t p e =
     (let q = scan_while is_ident_char t p e; r = skip_ws_span t q e in
      if r \<ge> e \<or> ch_at t r \<noteq> CHR '':'' then Key_Error w
      else if length (fw_out w) + (q - p) + 2 \<ge> fw_cap w then Key_Too_Small w
      else
        (case append_chars w (DQ # concat (map quoted_char (span t p q)) @ [DQ]) of
           (ok, w') \<Rightarrow> if \<not> ok then Key_Error w'
         else Key_Ok (mark Added_Missing_Quote w') q))"

definition token_boundary :: "string \<Rightarrow> nat \<Rightarrow> nat \<Rightarrow> bool" where
  "token_boundary t p e \<longleftrightarrow> p \<ge> e \<or> is_space (ch_at t p) \<or> ch_at t p = CHR '','' \<or>
     ch_at t p = CHR ''}'' \<or> ch_at t p = CHR '']''"

definition token_can_start_value :: "char \<Rightarrow> bool" where
  "token_can_start_value ch \<longleftrightarrow> ch = CHR ''{'' \<or> ch = CHR ''['' \<or> ch = DQ \<or> ch = CHR 0x27 \<or>
     ch = CHR ''-'' \<or> is_digit ch \<or> is_ident_start ch"

definition is_bare_value_char :: "char \<Rightarrow> bool" where
  "is_bare_value_char ch \<longleftrightarrow> ch \<noteq> CHR '','' \<and> ch \<noteq> CHR ''}'' \<and> ch \<noteq> CHR '']'' \<and> \<not> is_space ch"

definition looks_like_bare_key :: "string \<Rightarrow> nat \<Rightarrow> nat \<Rightarrow> bool" where
  "looks_like_bare_key t p e \<longleftrightarrow> is_ident_start (ch_at t p) \<and>
     (let q = skip_ws_span t (scan_while is_ident_char t p e) e in q < e \<and> ch_at t q = CHR '':'')"

definition word_at :: "string \<Rightarrow> string \<Rightarrow> nat \<Rightarrow> nat \<Rightarrow> bool" where
  "word_at lit t p e \<longleftrightarrow> e - p \<ge> length lit \<and> take (length lit) (drop p t) = lit \<and>
     token_boundary t (p + length lit) e"

definition is_number_char :: "char \<Rightarrow> bool" where
  "is_number_char c \<longleftrightarrow> is_digit c \<or> c = CHR ''.'' \<or> c = CHR ''e'' \<or> c = CHR ''E'' \<or>
     c = CHR ''+'' \<or> c = CHR ''-''"

definition copy_span :: "fjr_writer \<Rightarrow> string \<Rightarrow> nat \<Rightarrow> nat \<Rightarrow> bool \<times> fjr_writer \<times> nat" where
  "copy_span w t p q =
     (if length (fw_out w) + (q - p) \<ge> fw_cap w then (False, w, p)
      else (True, w\<lparr>fw_out := fw_out w @ span t p q\<rparr>, q))"

definition append_literal_or_number :: "fjr_writer \<Rightarrow> string \<Rightarrow> nat \<Rightarrow> nat \<Rightarrow> bool \<times> fjr_writer \<times> nat" where
  "append_literal_or_number w t p e =
     (let replace = (\<lambda>s n. case append_text w s of
                              (ok, w') \<Rightarrow> if \<not> ok then (False, w', p)
                            else (True, mark Replaced_Invalid_Literal w', p + n)) in
      if word_at ''True'' t p e then replace ''true'' 4
      else if word_at ''False'' t p e then replace ''false'' 5
      else if word_at ''None'' t p e then replace ''null'' 4
      else if word_at ''true'' t p e then copy_span w t p (p + 4)
      else if word_at ''false'' t p e then copy_span w t p (p + 5)
      else if word_at ''null'' t p e then copy_span w t p (p + 4)
      else if ch_at t p = CHR ''-'' \<or> is_digit (ch_at t p)
        then copy_span w t p (scan_while is_number_char t (p + 1) e)
      else if is_ident_start (ch_at t p) \<or> is_bare_value_char (ch_at t p) then
        (let q = scan_while is_bare_value_char t p e in
         case append_chars w (DQ # concat (map quoted_char (span t p q)) @ [DQ]) of
           (ok, w') \<Rightarrow> if \<not> ok then (False, w', p)
         else (True, mark Added_Missing_Quote w', q))
      else (False, w, p))"

section \<open>Closing containers\<close>

definition expected_closer :: "fjr_stack_item \<Rightarrow> char" where
  "expected_closer i = (if si_opener i = CHR ''{'' then CHR ''}'' else CHR '']'')"

definition can_close_top :: "fjr_stack_item \<Rightarrow> char \<Rightarrow> bool" where
  "can_close_top i closer \<longleftrightarrow>
     (if (si_opener i = CHR ''{'' \<and> closer \<noteq> CHR ''}'') \<or> (si_opener i = CHR ''['' \<and> closer \<noteq> CHR '']'') then False
      else if si_opener i = CHR ''{''
        then si_ctx i = FJR_CTX_OBJECT_KEY_OR_END \<or> si_ctx i = FJR_CTX_OBJECT_COMMA_OR_END
      else si_ctx i = FJR_CTX_ARRAY_VALUE_OR_END \<or> si_ctx i = FJR_CTX_ARRAY_COMMA_OR_END)"

definition is_any_closer :: "char \<Rightarrow> bool" where
  "is_any_closer ch \<longleftrightarrow> ch = CHR ''}'' \<or> ch = CHR '']'' \<or> ch = CHR '')'' \<or> ch = CHR ''>''"

definition retract_trailing_comma :: "fjr_writer \<Rightarrow> fjr_writer" where
  "retract_trailing_comma w =
     (let p = trim_end_ws (fw_out w) 0 (length (fw_out w)) in
      if p > 0 \<and> ch_at (fw_out w) (p - 1) = CHR '',''
      then mark Removed_Trailing_Comma (w\<lparr>fw_out := take (p - 1) (fw_out w)\<rparr>)
      else w)"

text \<open>The result of the helpers that return 0 or an error status.\<close>

type_synonym close_result = "fjr_status option \<times> fjr_stack_item list \<times> fjr_writer"

text \<open>
  Each turn of \<open>close_remaining\<close> pops the top and marks the value done below it; the recursion
  is on the stack, with the change to the new top pending until it is looked at.
\<close>

function close_remaining :: "fjr_stack_item list \<Rightarrow> fjr_writer \<Rightarrow> close_result" where
  "close_remaining [] w = (None, [], w)"
| "close_remaining (i # rest) w =
     (let closer = expected_closer i in
      if \<not> can_close_top i closer then (Some FJR_ERR_UNREPAIRABLE, i # rest, w)
      else
        (let w1 = retract_trailing_comma w in
         case append_char w1 closer of
           (ok, w2) \<Rightarrow> if \<not> ok then (Some FJR_ERR_OUTPUT_TOO_SMALL, i # rest, w2)
         else
             close_remaining (mark_value_done rest)
               (mark (if closer = CHR ''}'' then Closed_Object else Closed_Array) w2)))"
  by pat_completeness auto

lemma length_mark_value_done [simp]: "length (mark_value_done st) = length st"
  by (cases st) auto

termination close_remaining by (relation "measure (\<lambda>(st, w). length st)") auto

datatype comma_result = Comma_None | Comma_Inserted "fjr_stack_item list" fjr_writer | Comma_Too_Small fjr_writer

definition maybe_insert_missing_comma ::
  "fjr_stack_item list \<Rightarrow> fjr_writer \<Rightarrow> string \<Rightarrow> nat \<Rightarrow> nat \<Rightarrow> char \<Rightarrow> comma_result" where
  "maybe_insert_missing_comma st w t p e ch =
     (case st of
        [] \<Rightarrow> Comma_None
      | i # _ \<Rightarrow>
          if si_ctx i = FJR_CTX_OBJECT_COMMA_OR_END \<and> ch \<noteq> CHR '','' \<and> ch \<noteq> CHR ''}'' \<and>
             (ch = DQ \<or> ch = CHR 0x27 \<or> looks_like_bare_key t p e) then
            (case append_char w (CHR '','') of
               (ok, w') \<Rightarrow> if \<not> ok then Comma_Too_Small w'
             else Comma_Inserted (set_top_ctx FJR_CTX_OBJECT_KEY_OR_END st) (mark Added_Missing_Comma w'))
          else if si_ctx i = FJR_CTX_ARRAY_COMMA_OR_END \<and> ch \<noteq> CHR '','' \<and> ch \<noteq> CHR '']'' \<and>
             token_can_start_value ch then
            (case append_char w (CHR '','') of
               (ok, w') \<Rightarrow> if \<not> ok then Comma_Too_Small w'
             else Comma_Inserted (set_top_ctx FJR_CTX_ARRAY_VALUE_OR_END st) (mark Added_Missing_Comma w'))
          else Comma_None)"

section \<open>The repair loop\<close>

record fjr_state =
  rs_p :: nat
  rs_stack :: "fjr_stack_item list"
  rs_root_started :: bool
  rs_w :: fjr_writer

text \<open>What one turn of the loop does: continue, break out of it, or return a status.\<close>

datatype fjr_step = Step_Continue fjr_state | Step_Break fjr_state | Step_Return fjr_status fjr_state

definition unrepairable_at :: "fjr_state \<Rightarrow> fjr_step" where
  "unrepairable_at s =
     Step_Return FJR_ERR_UNREPAIRABLE (s\<lparr>rs_w := set_error_offset (rs_p s) (rs_w s)\<rparr>)"

text \<open>Append one byte and go on behind the current one, or report a full buffer.\<close>

definition emit_and_advance :: "char \<Rightarrow> fjr_state \<Rightarrow> fjr_step" where
  "emit_and_advance ch s =
     (case append_char (rs_w s) ch of
        (ok, w) \<Rightarrow> if \<not> ok then Step_Return FJR_ERR_OUTPUT_TOO_SMALL (s\<lparr>rs_w := w\<rparr>)
      else Step_Continue (s\<lparr>rs_w := w, rs_p := rs_p s + 1\<rparr>))"

function block_comment_end :: "string \<Rightarrow> nat \<Rightarrow> nat \<Rightarrow> nat" where
  "block_comment_end t p e =
     (if p + 1 < e \<and> \<not> (ch_at t p = CHR ''*'' \<and> ch_at t (p + 1) = CHR ''/'')
      then block_comment_end t (p + 1) e else p)"
  by pat_completeness auto
termination by (relation "measure (\<lambda>(t, p, e). e - p)") auto

declare block_comment_end.simps [simp del]

definition step_line_comment :: "string \<Rightarrow> nat \<Rightarrow> fjr_state \<Rightarrow> fjr_step" where
  "step_line_comment t e s =
     Step_Continue (s\<lparr>rs_p := scan_while (\<lambda>c. c \<noteq> CHR 0x0A) t (rs_p s + 2) e,
       rs_w := mark Stripped_Comments (rs_w s)\<rparr>)"

definition step_block_comment :: "string \<Rightarrow> nat \<Rightarrow> fjr_state \<Rightarrow> fjr_step" where
  "step_block_comment t e s =
     (let q = block_comment_end t (rs_p s + 2) e in
      Step_Continue (s\<lparr>rs_p := (if q + 1 \<ge> e then e else q + 2),
        rs_w := mark Stripped_Comments (rs_w s)\<rparr>))"

definition step_open :: "char \<Rightarrow> fjr_state \<Rightarrow> fjr_step" where
  "step_open ch s =
     (if rs_root_started s \<and> \<not> is_value_expected (rs_stack s) then unrepairable_at s
      else
        (case append_char (rs_w s) ch of
           (ok, w) \<Rightarrow> if \<not> ok then Step_Return FJR_ERR_OUTPUT_TOO_SMALL (s\<lparr>rs_w := w\<rparr>)
         else
             (case push_container (rs_stack s) ch of
                None \<Rightarrow> unrepairable_at (s\<lparr>rs_w := w\<rparr>)
              | Some st \<Rightarrow>
                  Step_Continue (s\<lparr>rs_w := w, rs_stack := st, rs_root_started := True, rs_p := rs_p s + 1\<rparr>))))"

text \<open>\<open>close_top\<close> and what \<open>repair_candidate\<close> does with its result.\<close>

definition close_top :: "char \<Rightarrow> fjr_state \<Rightarrow> fjr_step" where
  "close_top actual s =
     (case rs_stack s of
        [] \<Rightarrow> Step_Break (s\<lparr>rs_w := mark Trimmed_Trailing_Junk (rs_w s)\<rparr>)
      | i # rest \<Rightarrow>
          (let want = expected_closer i in
           if \<not> can_close_top i want then unrepairable_at s
           else
             (case append_char (rs_w s) want of
                (ok, w) \<Rightarrow> if \<not> ok then Step_Return FJR_ERR_OUTPUT_TOO_SMALL (s\<lparr>rs_w := w\<rparr>)
              else
                  (let s' = s\<lparr>rs_w := (if actual \<noteq> want then mark Substituted_Wrong_Closer w else w),
                        rs_stack := mark_value_done rest, rs_p := rs_p s + 1\<rparr>
                   in if rest = [] then Step_Break s' else Step_Continue s'))))"

definition step_comma :: "string \<Rightarrow> nat \<Rightarrow> fjr_state \<Rightarrow> fjr_step" where
  "step_comma t e s =
     (let nn = skip_ws_span t (rs_p s + 1) e in
      if nn < e \<and> (ch_at t nn = CHR ''}'' \<or> ch_at t nn = CHR '']'') then
        Step_Continue (s\<lparr>rs_w := mark Removed_Trailing_Comma (rs_w s), rs_p := rs_p s + 1\<rparr>)
      else
        (case rs_stack s of
           [] \<Rightarrow> unrepairable_at s
         | i # _ \<Rightarrow>
             if si_ctx i = FJR_CTX_OBJECT_COMMA_OR_END
               then emit_and_advance (CHR '','') (s\<lparr>rs_stack := set_top_ctx FJR_CTX_OBJECT_KEY_OR_END (rs_stack s)\<rparr>)
             else if si_ctx i = FJR_CTX_ARRAY_COMMA_OR_END
               then emit_and_advance (CHR '','') (s\<lparr>rs_stack := set_top_ctx FJR_CTX_ARRAY_VALUE_OR_END (rs_stack s)\<rparr>)
             else unrepairable_at s))"

definition step_colon :: "fjr_state \<Rightarrow> fjr_step" where
  "step_colon s =
     (case rs_stack s of
        [] \<Rightarrow> unrepairable_at s
      | i # _ \<Rightarrow>
          if si_ctx i \<noteq> FJR_CTX_OBJECT_COLON then unrepairable_at s
          else emit_and_advance (CHR '':'') (s\<lparr>rs_stack := set_top_ctx FJR_CTX_OBJECT_VALUE (rs_stack s)\<rparr>))"

definition step_quote :: "string \<Rightarrow> nat \<Rightarrow> char \<Rightarrow> fjr_state \<Rightarrow> fjr_step" where
  "step_quote t e ch s =
     (if ch = CHR 0x27 \<and> \<not> (is_key_expected (rs_stack s) \<or> is_value_expected (rs_stack s)) then unrepairable_at s
      else
        (case append_json_string (rs_w s) t (rs_p s) e ch of
           (ok, w, after) \<Rightarrow> if \<not> ok then Step_Return FJR_ERR_OUTPUT_TOO_SMALL (s\<lparr>rs_w := w\<rparr>)
         else
             Step_Continue (s\<lparr>rs_w := w, rs_p := after,
               rs_stack := (if is_key_expected (rs_stack s)
                            then set_top_ctx FJR_CTX_OBJECT_COLON (rs_stack s)
                            else mark_value_done (rs_stack s))\<rparr>)))"

definition step_bare_key :: "string \<Rightarrow> nat \<Rightarrow> fjr_state \<Rightarrow> fjr_step" where
  "step_bare_key t e s =
     (case append_bare_key (rs_w s) t (rs_p s) e of
        Key_Too_Small w \<Rightarrow> Step_Return FJR_ERR_OUTPUT_TOO_SMALL (s\<lparr>rs_w := w\<rparr>)
      | Key_Error w \<Rightarrow> unrepairable_at (s\<lparr>rs_w := w\<rparr>)
      | Key_Ok w after \<Rightarrow>
          Step_Continue (s\<lparr>rs_w := w, rs_p := after, rs_stack := set_top_ctx FJR_CTX_OBJECT_COLON (rs_stack s)\<rparr>))"

definition step_value :: "string \<Rightarrow> nat \<Rightarrow> fjr_state \<Rightarrow> fjr_step" where
  "step_value t e s =
     (case append_literal_or_number (rs_w s) t (rs_p s) e of
        (ok, w, after) \<Rightarrow> if \<not> ok then unrepairable_at (s\<lparr>rs_w := w\<rparr>)
      else
          Step_Continue (s\<lparr>rs_w := w, rs_p := after, rs_stack := mark_value_done (rs_stack s)\<rparr>))"

definition step_junk :: "fjr_state \<Rightarrow> fjr_step" where
  "step_junk s =
     (case rs_stack s of
        [] \<Rightarrow> unrepairable_at s
      | i # _ \<Rightarrow>
          if si_ctx i = FJR_CTX_OBJECT_COMMA_OR_END \<or> si_ctx i = FJR_CTX_ARRAY_COMMA_OR_END then
            (case close_remaining (rs_stack s) (rs_w s) of
               (Some rc, st, w) \<Rightarrow> Step_Return rc (s\<lparr>rs_stack := st, rs_w := w\<rparr>)
             | (None, st, w) \<Rightarrow> Step_Break (s\<lparr>rs_stack := st, rs_w := mark Trimmed_Trailing_Junk w\<rparr>))
          else unrepairable_at s)"

definition repair_token :: "string \<Rightarrow> nat \<Rightarrow> fjr_state \<Rightarrow> fjr_step" where
  "repair_token t e s =
     (let ch = ch_at t (rs_p s) in
      if ch = CHR ''{'' \<or> ch = CHR ''['' then step_open ch s
      else if is_any_closer ch then close_top ch s
      else if ch = CHR '','' then step_comma t e s
      else if ch = CHR '':'' then step_colon s
      else if ch = DQ \<or> ch = CHR 0x27 then step_quote t e ch s
      else if is_key_expected (rs_stack s) \<and> is_ident_start ch then step_bare_key t e s
      else if is_value_expected (rs_stack s) then step_value t e s
      else step_junk s)"

definition repair_step :: "string \<Rightarrow> nat \<Rightarrow> fjr_state \<Rightarrow> fjr_step" where
  "repair_step t e s =
     (let p = rs_p s; ch = ch_at t p in
      if is_space ch then emit_and_advance ch s
      else if ch = CHR ''/'' \<and> p + 1 < e \<and> ch_at t (p + 1) = CHR ''/'' then step_line_comment t e s
      else if ch = CHR ''/'' \<and> p + 1 < e \<and> ch_at t (p + 1) = CHR ''*'' then step_block_comment t e s
      else
        (case maybe_insert_missing_comma (rs_stack s) (rs_w s) t p e ch of
           Comma_Too_Small w \<Rightarrow> Step_Return FJR_ERR_OUTPUT_TOO_SMALL (s\<lparr>rs_w := w\<rparr>)
         | Comma_Inserted st w \<Rightarrow> Step_Continue (s\<lparr>rs_stack := st, rs_w := w\<rparr>)
         | Comma_None \<Rightarrow> repair_token t e s))"

text \<open>
  Every turn moves forward, except that inserting a missing comma first changes the context
  of the top container so that the next turn does not insert again.
\<close>

fun awaits_comma :: "fjr_stack_item list \<Rightarrow> bool" where
  "awaits_comma [] \<longleftrightarrow> False"
| "awaits_comma (i # _) \<longleftrightarrow> si_ctx i = FJR_CTX_OBJECT_COMMA_OR_END \<or> si_ctx i = FJR_CTX_ARRAY_COMMA_OR_END"

lemma block_comment_end_bounds: "p \<le> block_comment_end t p e"
  by (induction t p e rule: block_comment_end.induct) (subst block_comment_end.simps, auto)

lemma json_string_loop_ge: "json_string_loop t p e quote w = (ok, w', q, cl) \<Longrightarrow> p \<le> q"
proof (induction t p e quote w rule: json_string_loop.induct)
  case (1 t p e quote w)
  show ?case
    using "1.prems" "1.IH"
    by (subst (asm) json_string_loop.simps) (fastforce split: if_splits prod.splits)
qed

lemma ident_start_char: "is_ident_start c \<Longrightarrow> is_ident_char c \<and> is_bare_value_char c"
  by (auto simp: is_ident_start_def is_ident_char_def is_bare_value_char_def is_alnum_def)
    (auto simp: char_class_defs)

lemma append_literal_gt:
  assumes "append_literal_or_number w t p e = (True, w', q)" and "p < e"
  shows "p < q"
proof -
  have "p < scan_while is_number_char t (p + 1) e" using scan_while_ge [of "p + 1" is_number_char t e] by simp
  moreover have "is_ident_start (ch_at t p) \<or> is_bare_value_char (ch_at t p) \<Longrightarrow> p < scan_while is_bare_value_char t p e"
    using scan_while_gt [OF assms(2), of is_bare_value_char t] ident_start_char [of "ch_at t p"] by blast
  ultimately show ?thesis using assms(1)
    unfolding append_literal_or_number_def copy_span_def Let_def
    by (simp split: if_split_asm prod.splits)
qed

lemma append_json_string_gt: "append_json_string w t p e quote = (True, w', q) \<Longrightarrow> p < q"
  by (auto simp: append_json_string_def split: prod.splits if_splits dest!: json_string_loop_ge)

lemma append_bare_key_gt:
  "append_bare_key w t p e = Key_Ok w' q \<Longrightarrow> p < e \<Longrightarrow> is_ident_start (ch_at t p) \<Longrightarrow> p < q"
  using scan_while_gt [of p e is_ident_char t] ident_start_char [of "ch_at t p"]
  by (auto simp: append_bare_key_def Let_def split: prod.splits if_splits)

lemma emit_progress: "emit_and_advance ch s = Step_Continue s' \<Longrightarrow> rs_p s < rs_p s'"
  by (auto simp: emit_and_advance_def split: prod.splits if_splits)

lemma token_progress:
  assumes "repair_token t e s = Step_Continue s'" and "rs_p s < e"
  shows "rs_p s < rs_p s'"
proof -
  have "step_open ch s = Step_Continue s' \<Longrightarrow> rs_p s < rs_p s'" for ch
    by (auto simp: step_open_def unrepairable_at_def split: prod.splits if_splits option.splits)
  moreover have "close_top ch s = Step_Continue s' \<Longrightarrow> rs_p s < rs_p s'" for ch
    by (auto simp: close_top_def unrepairable_at_def Let_def split: prod.splits if_splits list.splits)
  moreover have "step_comma t e s = Step_Continue s' \<Longrightarrow> rs_p s < rs_p s'"
    by (auto simp: step_comma_def unrepairable_at_def Let_def split: if_splits list.splits dest!: emit_progress)
  moreover have "step_colon s = Step_Continue s' \<Longrightarrow> rs_p s < rs_p s'"
    by (auto simp: step_colon_def unrepairable_at_def split: if_splits list.splits dest!: emit_progress)
  moreover have "step_quote t e ch s = Step_Continue s' \<Longrightarrow> rs_p s < rs_p s'" for ch
    by (auto simp: step_quote_def unrepairable_at_def split: prod.splits if_splits dest!: append_json_string_gt)
  moreover have "is_ident_start (ch_at t (rs_p s)) \<Longrightarrow> step_bare_key t e s = Step_Continue s' \<Longrightarrow> rs_p s < rs_p s'"
    using assms(2)
    by (auto simp: step_bare_key_def unrepairable_at_def split: key_result.splits dest!: append_bare_key_gt)
  moreover have "step_value t e s = Step_Continue s' \<Longrightarrow> rs_p s < rs_p s'"
    using assms(2)
    by (auto simp: step_value_def unrepairable_at_def split: prod.splits if_splits dest!: append_literal_gt)
  moreover have "step_junk s \<noteq> Step_Continue s'"
    by (auto simp: step_junk_def unrepairable_at_def split: prod.splits if_splits list.splits option.splits)
  ultimately show ?thesis using assms(1) unfolding repair_token_def Let_def by (metis (no_types, lifting))
qed

lemma comma_inserted_ctx:
  "maybe_insert_missing_comma st w t p e ch = Comma_Inserted st' w' \<Longrightarrow>
     awaits_comma st \<and> \<not> awaits_comma st' \<and> length st' = length st"
  by (auto simp: maybe_insert_missing_comma_def split: list.splits prod.splits if_splits)

lemma step_progress:
  assumes "repair_step t e s = Step_Continue s'" and "rs_p s < e"
  shows "rs_p s < rs_p s' \<or> (rs_p s' = rs_p s \<and> awaits_comma (rs_stack s) \<and> \<not> awaits_comma (rs_stack s'))"
proof -
  have "step_line_comment t e s = Step_Continue s' \<Longrightarrow> rs_p s < rs_p s'"
    using scan_while_ge [of "rs_p s + 2" "\<lambda>c. c \<noteq> CHR 0x0A" t e] by (auto simp: step_line_comment_def)
  moreover have "step_block_comment t e s = Step_Continue s' \<Longrightarrow> rs_p s < rs_p s'"
    using block_comment_end_bounds [of "rs_p s + 2" t e] assms(2) by (auto simp: step_block_comment_def Let_def)
  ultimately show ?thesis
    using assms emit_progress [of _ s s'] token_progress [of t e s s']
    by (auto simp: repair_step_def Let_def split: if_splits comma_result.splits dest: comma_inserted_ctx)
qed

function repair_loop :: "string \<Rightarrow> nat \<Rightarrow> fjr_state \<Rightarrow> fjr_step" where
  "repair_loop t e s =
     (if rs_p s < e then
        (case repair_step t e s of
           Step_Continue s' \<Rightarrow> repair_loop t e s'
         | Step_Break s' \<Rightarrow> Step_Break s'
         | Step_Return rc s' \<Rightarrow> Step_Return rc s')
      else Step_Break s)"
  by pat_completeness auto
termination
  by (relation "measures [\<lambda>(t, e, s). e - rs_p s, \<lambda>(t, e, s). of_bool (awaits_comma (rs_stack s))]")
    (auto dest!: step_progress)

declare repair_loop.simps [simp del]

text \<open>
  \<open>repair_candidate\<close>: \<open>Step_Break\<close> carries the state of a successful return, with the
  consumed offset in \<open>rs_p\<close>.
\<close>

definition repair_candidate :: "string \<Rightarrow> nat \<Rightarrow> nat \<Rightarrow> fjr_writer \<Rightarrow> fjr_step" where
  "repair_candidate t start e w =
     (case repair_loop t e \<lparr>rs_p = start, rs_stack = [], rs_root_started = False, rs_w = w\<rparr> of
        Step_Return rc s \<Rightarrow> Step_Return rc s
      | Step_Continue s \<Rightarrow> Step_Continue s
      | Step_Break s \<Rightarrow>
          if \<not> rs_root_started s then Step_Return FJR_ERR_UNREPAIRABLE s
          else
            (case close_remaining (rs_stack s) (rs_w s) of
               (Some rc, st, w') \<Rightarrow>
                 Step_Return rc (s\<lparr>rs_stack := st, rs_w := set_error_offset e w'\<rparr>)
             | (None, st, w') \<Rightarrow> Step_Break (s\<lparr>rs_stack := st, rs_w := w'\<rparr>)))"

section \<open>The entry point\<close>

definition is_opener :: "char \<Rightarrow> bool" where
  "is_opener c \<longleftrightarrow> c = CHR ''{'' \<or> c = CHR ''[''"

definition has_later_candidate :: "string \<Rightarrow> nat \<Rightarrow> nat \<Rightarrow> bool" where
  "has_later_candidate t p e \<longleftrightarrow> list_ex is_opener (span t p e)"

definition is_fence :: "string \<Rightarrow> nat \<Rightarrow> bool" where
  "is_fence t p \<longleftrightarrow> ch_at t p = CHR 0x60 \<and> ch_at t (p + 1) = CHR 0x60 \<and> ch_at t (p + 2) = CHR 0x60"

function last_fence :: "string \<Rightarrow> nat \<Rightarrow> nat \<Rightarrow> nat option \<Rightarrow> nat option" where
  "last_fence t p e lst =
     (if p + 2 < e then last_fence t (p + 1) e (if is_fence t p then Some p else lst) else lst)"
  by pat_completeness auto
termination by (relation "measure (\<lambda>(t, p, e, lst). e - p)") auto

declare last_fence.simps [simp del]

text \<open>The span between the fences, \<open>None\<close> for a fence without a line break.\<close>

definition strip_fence :: "string \<Rightarrow> nat \<Rightarrow> nat \<Rightarrow> fjr_report \<Rightarrow> (nat \<times> nat \<times> fjr_report) option" where
  "strip_fence t b e r =
     (if e - b \<ge> 3 \<and> is_fence t b then
        (let nl = scan_while (\<lambda>c. c \<noteq> CHR 0x0A) t b e; lst = last_fence t (b + 3) e None in
         if nl \<ge> e then None
         else
           (let b' = nl + 1;
                e' = (case lst of Some l \<Rightarrow> if l > b' then trim_end_ws t b' l else e | None \<Rightarrow> e)
            in Some (b', e', FJR_MARK Stripped_Fence r)))
      else Some (b, e, r))"

definition empty_report :: fjr_report where
  "empty_report = \<lparr>fr_flag = (\<lambda>_. False), fr_repairs = 0, fr_candidate_offset = 0,
     fr_candidate_len = 0, fr_error_offset = 0\<rparr>"

text \<open>
  The status, the bytes left in the buffer before the last terminator written, the value of
  \<open>*out_len\<close> and the report.
\<close>

record fjr_result =
  fo_status :: fjr_status
  fo_out :: string
  fo_out_len :: nat
  fo_report :: fjr_report

definition fjr_fail :: "fjr_status \<Rightarrow> string \<Rightarrow> fjr_report \<Rightarrow> fjr_result" where
  "fjr_fail st out r = \<lparr>fo_status = st, fo_out = out, fo_out_len = 0, fo_report = r\<rparr>"

definition repair_span :: "string \<Rightarrow> nat \<Rightarrow> nat \<Rightarrow> nat \<Rightarrow> fjr_report \<Rightarrow> fjr_result" where
  "repair_span t start e out_cap r =
     (case repair_candidate t start e \<lparr>fw_out = [], fw_cap = out_cap, fw_report = r\<rparr> of
        Step_Return rc s \<Rightarrow> fjr_fail rc (fw_out (rs_w s)) (fw_report (rs_w s))
      | Step_Continue s \<Rightarrow> fjr_fail FJR_ERR_UNREPAIRABLE (fw_out (rs_w s)) (fw_report (rs_w s))
      | Step_Break s \<Rightarrow>
          (let consumed = rs_p s; out = fw_out (rs_w s); r1 = fw_report (rs_w s) in
           if has_later_candidate t consumed e then fjr_fail FJR_ERR_AMBIGUOUS out r1
           else
             (let r2 = (if skip_ws_span t consumed e < e then FJR_MARK Trimmed_Trailing_Junk r1 else r1) in
              if json_ref_from_text (cstr out) = None then fjr_fail FJR_ERR_UNREPAIRABLE out r2
              else
                \<lparr>fo_status = (if fr_repairs r2 \<noteq> 0 then FJR_OK_REPAIRED else FJR_OK_UNCHANGED),
                 fo_out = out, fo_out_len = length out,
                 fo_report = r2\<lparr>fr_candidate_offset := start, fr_candidate_len := consumed - start\<rparr>\<rparr>)))"

definition fjson_repair :: "string \<Rightarrow> nat \<Rightarrow> fjr_result" where
  "fjson_repair t out_cap =
     (if out_cap = 0 then fjr_fail FJR_ERR_UNREPAIRABLE [] empty_report
      else if length t + 1 \<le> out_cap \<and> json_ref_from_text (cstr t) \<noteq> None then
        \<lparr>fo_status = FJR_OK_UNCHANGED, fo_out = t, fo_out_len = length t,
         fo_report = empty_report\<lparr>fr_candidate_offset := 0, fr_candidate_len := length t\<rparr>\<rparr>
      else
        (let buf = (if length t + 1 \<le> out_cap then t else []);
             b = skip_ws_span t 0 (length t);
             e = trim_end_ws t b (length t)
         in case strip_fence t b e empty_report of
              None \<Rightarrow> fjr_fail FJR_ERR_UNREPAIRABLE buf empty_report
            | Some (b', e', r) \<Rightarrow>
                (let start = scan_while (\<lambda>c. \<not> is_opener c) t b' e' in
                 if start \<ge> e' then fjr_fail FJR_ERR_UNREPAIRABLE buf r
                 else
                   repair_span t start e' out_cap
                     (if skip_ws_span t b' start < start then FJR_MARK Stripped_Prose r else r))))"

end
