(* ===== verification/Fjson_Laws.thy ===== *)
theory Fjson_Laws
  imports Fjson_Repair
begin

text \<open>
  Laws of the repair: no path writes past the buffer or past the container stack, the report
  counts exactly the kinds of repair made, every offset reported lies in the input, and a
  success means that the output is a JSON text.
\<close>

section \<open>Writer and stack invariant\<close>

instance fjr_flag :: finite
proof
  have "UNIV = {Stripped_Fence, Stripped_Prose, Added_Missing_Quote, Added_Missing_Comma,
    Removed_Trailing_Comma, Closed_String, Closed_Object, Closed_Array, Substituted_Wrong_Closer,
    Converted_Single_Quotes, Replaced_Invalid_Literal, Trimmed_Trailing_Junk, Stripped_Comments}"
    by (auto intro: fjr_flag.exhaust)
  then show "finite (UNIV :: fjr_flag set)" by (rule ssubst) simp
qed

definition counts_flags :: "fjr_report \<Rightarrow> bool" where
  "counts_flags r \<longleftrightarrow> fr_repairs r = card {f. fr_flag r f}"

lemma counts_mark [simp]: "counts_flags r \<Longrightarrow> counts_flags (FJR_MARK f r)"
proof -
  assume r: "counts_flags r"
  have "{g. ((fr_flag r)(f := True)) g} = insert f {g. fr_flag r g}" by auto
  then show ?thesis using r by (simp add: counts_flags_def FJR_MARK_def)
qed

lemma error_offset_mark [simp]: "fr_error_offset (FJR_MARK f r) = fr_error_offset r"
  by (simp add: FJR_MARK_def)

definition writer_inv :: "nat \<Rightarrow> nat \<Rightarrow> fjr_writer \<Rightarrow> bool" where
  "writer_inv cap e w \<longleftrightarrow> fw_cap w = cap \<and> length (fw_out w) < cap \<and> counts_flags (fw_report w) \<and>
     fr_error_offset (fw_report w) \<le> e"

definition state_inv :: "nat \<Rightarrow> nat \<Rightarrow> fjr_state \<Rightarrow> bool" where
  "state_inv cap e s \<longleftrightarrow> writer_inv cap e (rs_w s) \<and> length (rs_stack s) \<le> FJR_STACK_MAX \<and> rs_p s \<le> e"

fun step_state :: "fjr_step \<Rightarrow> fjr_state" where
  "step_state (Step_Continue s) = s"
| "step_state (Step_Break s) = s"
| "step_state (Step_Return rc s) = s"

named_theorems writer_inv_dests \<open>writer operations keep the writer invariant\<close>

lemma mark_inv [simp, intro!]: "writer_inv cap e w \<Longrightarrow> writer_inv cap e (mark f w)"
  by (simp add: writer_inv_def mark_def)

lemma set_error_offset_inv [simp, intro!]:
  "writer_inv cap e w \<Longrightarrow> n \<le> e \<Longrightarrow> writer_inv cap e (set_error_offset n w)"
  by (simp add: writer_inv_def set_error_offset_def counts_flags_def)

lemma append_char_inv [writer_inv_dests]:
  "append_char w c = (ok, w') \<Longrightarrow> writer_inv cap e w \<Longrightarrow> writer_inv cap e w'"
  by (auto simp: writer_inv_def append_char_def split: if_splits)

lemma append_text_inv [writer_inv_dests]:
  "append_text w s = (ok, w') \<Longrightarrow> writer_inv cap e w \<Longrightarrow> writer_inv cap e w'"
  by (auto simp: writer_inv_def append_text_def split: if_splits)

lemma append_chars_inv [writer_inv_dests]:
  "append_chars w cs = (ok, w') \<Longrightarrow> writer_inv cap e w \<Longrightarrow> writer_inv cap e w'"
  by (induction w cs rule: append_chars.induct) (auto split: prod.splits if_splits dest: append_char_inv)

lemma retract_inv [simp, intro!]: "writer_inv cap e w \<Longrightarrow> writer_inv cap e (retract_trailing_comma w)"
proof -
  assume w: "writer_inv cap e w"
  then have "writer_inv cap e (w\<lparr>fw_out := take n (fw_out w)\<rparr>)" for n by (auto simp: writer_inv_def)
  then show ?thesis using w by (auto simp: retract_trailing_comma_def Let_def intro: mark_inv)
qed

lemma emit_string_unit_inv:
  "emit_string_unit t p e' quote w = (ok, w') \<Longrightarrow> writer_inv cap e w \<Longrightarrow> writer_inv cap e w'"
  by (auto simp: emit_string_unit_def split: prod.splits if_splits dest: writer_inv_dests)

lemma json_string_loop_inv:
  "json_string_loop t p e' quote w = (ok, w', q, cl) \<Longrightarrow> writer_inv cap e w \<Longrightarrow> writer_inv cap e w'"
proof (induction t p e' quote w rule: json_string_loop.induct)
  case (1 t p e' quote w)
  obtain ok1 w1 where em: "emit_string_unit t p e' quote w = (ok1, w1)" by (cases "emit_string_unit t p e' quote w")
  note w1 = emit_string_unit_inv [OF em "1.prems"(2)]
  show ?case using "1.prems" "1.IH" em w1
    by (subst (asm) json_string_loop.simps) (auto split: if_splits)
qed

lemma append_json_string_inv [writer_inv_dests]:
  "append_json_string w t p e' quote = (ok, w', q) \<Longrightarrow> writer_inv cap e w \<Longrightarrow> writer_inv cap e w'"
  by (auto simp: append_json_string_def split: prod.splits if_splits
      dest: writer_inv_dests json_string_loop_inv)

lemma copy_span_inv [writer_inv_dests]:
  "copy_span w t p q = (ok, w', q') \<Longrightarrow> q \<le> length t \<Longrightarrow> writer_inv cap e w \<Longrightarrow> writer_inv cap e w'"
  by (auto simp: copy_span_def writer_inv_def split: if_splits)

lemma word_at_le:
  assumes "p < e"
  shows "word_at ''True'' t p e \<Longrightarrow> p + 4 \<le> e" and "word_at ''False'' t p e \<Longrightarrow> p + 5 \<le> e"
    and "word_at ''None'' t p e \<Longrightarrow> p + 4 \<le> e" and "word_at ''true'' t p e \<Longrightarrow> p + 4 \<le> e"
    and "word_at ''false'' t p e \<Longrightarrow> p + 5 \<le> e" and "word_at ''null'' t p e \<Longrightarrow> p + 4 \<le> e"
  using assms by (auto simp: word_at_def)

lemma append_literal_inv [writer_inv_dests]:
  assumes "append_literal_or_number w t p e' = (ok, w', q)" and "writer_inv cap e w"
    and "p < e'" "e' \<le> length t"
  shows "writer_inv cap e w'"
proof -
  have "word_at ''true'' t p e' \<Longrightarrow> p + 4 \<le> length t" "word_at ''false'' t p e' \<Longrightarrow> p + 5 \<le> length t"
    "word_at ''null'' t p e' \<Longrightarrow> p + 4 \<le> length t"
    using word_at_le [OF assms(3), of t] assms(4) by (auto intro: order_trans)
  moreover have "scan_while is_number_char t (p + 1) e' \<le> length t"
    using scan_while_le [of "p + 1" e' is_number_char t] assms(3,4) by linarith
  ultimately show ?thesis using assms(1,2)
    unfolding append_literal_or_number_def Let_def
    by (simp split: if_split_asm prod.splits) (auto dest: writer_inv_dests)
qed

lemma append_bare_key_inv:
  assumes "writer_inv cap e w"
  shows "append_bare_key w t p e' = Key_Ok w' q \<Longrightarrow> writer_inv cap e w'"
    and "append_bare_key w t p e' = Key_Error w' \<Longrightarrow> writer_inv cap e w'"
    and "append_bare_key w t p e' = Key_Too_Small w' \<Longrightarrow> writer_inv cap e w'"
  using assms by (auto simp: append_bare_key_def Let_def split: prod.splits if_splits dest: writer_inv_dests)

lemma close_remaining_inv:
  "close_remaining st w = (rc, st', w') \<Longrightarrow> writer_inv cap e w \<Longrightarrow> writer_inv cap e w' \<and> length st' \<le> length st"
proof (induction st w rule: close_remaining.induct)
  case (2 i rest w)
  obtain ok w1 where "append_char (retract_trailing_comma w) (expected_closer i) = (ok, w1)" by fastforce
  moreover note append_char_inv [OF this retract_inv [OF "2.prems"(2)]]
  ultimately show ?case using "2.prems" "2.IH" by (fastforce simp: Let_def split: if_splits)
qed auto

lemma string_loop_le: "json_string_loop t p e quote w = (True, w', q, cl) \<Longrightarrow> p \<le> e \<Longrightarrow> q \<le> e"
proof (induction t p e quote w rule: json_string_loop.induct)
  case (1 t p e quote w)
  obtain ok1 w1 where em: "emit_string_unit t p e quote w = (ok1, w1)" by (cases "emit_string_unit t p e quote w")
  have "p < e \<Longrightarrow> p + string_unit_len t p e quote \<le> e"
    by (auto simp: string_unit_len_def string_unit_def hex4_before_def Let_def)
  then show ?case using "1.prems" "1.IH" em
    by (subst (asm) json_string_loop.simps) (auto split: if_splits)
qed

lemma append_json_string_le: "append_json_string w t p e quote = (True, w', q) \<Longrightarrow> p < e \<Longrightarrow> q \<le> e"
  by (auto simp: append_json_string_def split: prod.splits if_splits dest!: string_loop_le)

lemma append_literal_le:
  assumes "append_literal_or_number w t p e = (True, w', q)" and "p < e"
  shows "q \<le> e"
  using assms(1) word_at_le [OF assms(2), of t]
    scan_while_le [of "p + 1" e is_number_char t] scan_while_le [of p e is_bare_value_char t] assms(2)
  unfolding append_literal_or_number_def copy_span_def Let_def
  by (simp split: if_split_asm prod.splits)

lemma append_bare_key_le: "append_bare_key w t p e = Key_Ok w' q \<Longrightarrow> p < e \<Longrightarrow> q \<le> e"
  using scan_while_le [of p e is_ident_char t]
  by (auto simp: append_bare_key_def Let_def split: prod.splits if_splits)

lemma block_comment_end_le: "p \<le> e \<Longrightarrow> block_comment_end t p e \<le> e"
  by (induction t p e rule: block_comment_end.induct) (subst block_comment_end.simps, auto)

lemma length_set_top_ctx [simp]: "length (set_top_ctx c st) = length st"
  by (cases st) auto

lemma unrepairable_inv: "state_inv cap e s \<Longrightarrow> state_inv cap e (step_state (unrepairable_at s))"
  by (simp add: state_inv_def unrepairable_at_def)

lemma emit_inv: "state_inv cap e s \<Longrightarrow> rs_p s < e \<Longrightarrow> state_inv cap e (step_state (emit_and_advance ch s))"
  by (auto simp: state_inv_def emit_and_advance_def split: prod.splits dest: writer_inv_dests)

lemma state_inv_stack: "state_inv cap e s \<Longrightarrow> length st = length (rs_stack s) \<Longrightarrow> state_inv cap e (s\<lparr>rs_stack := st\<rparr>)"
  by (simp add: state_inv_def)

lemma state_inv_writer: "state_inv cap e s \<Longrightarrow> writer_inv cap e w \<Longrightarrow> state_inv cap e (s\<lparr>rs_w := w\<rparr>)"
  by (simp add: state_inv_def)

lemma token_inv:
  assumes s: "state_inv cap e s" and p: "rs_p s < e" and e: "e \<le> length t"
  shows "state_inv cap e (step_state (repair_token t e s))"
proof -
  note d = state_inv_def unrepairable_at_def
  have "state_inv cap e (step_state (step_open ch s))" for ch
    using s p by (auto simp: step_open_def push_container_def d split: prod.splits option.splits if_splits dest: writer_inv_dests)
  moreover have "state_inv cap e (step_state (close_top ch s))" for ch
    using s p by (auto simp: close_top_def d Let_def split: prod.splits list.splits if_splits dest: writer_inv_dests)
  moreover have "state_inv cap e (step_state (step_comma t e s))"
    using s p by (auto simp: step_comma_def Let_def intro!: emit_inv unrepairable_inv state_inv_stack split: list.splits)
      (auto simp: state_inv_def)
  moreover have "state_inv cap e (step_state (step_colon s))"
    using s p by (auto simp: step_colon_def intro!: emit_inv unrepairable_inv state_inv_stack split: list.splits)
  moreover have "state_inv cap e (step_state (step_quote t e ch s))" for ch
    using s p by (auto simp: step_quote_def d split: prod.splits dest: writer_inv_dests append_json_string_le)
  moreover have "state_inv cap e (step_state (step_bare_key t e s))"
    using s p by (auto simp: step_bare_key_def d split: key_result.splits dest: append_bare_key_inv append_bare_key_le)
  moreover have "state_inv cap e (step_state (step_value t e s))"
    using s p e by (auto simp: step_value_def d split: prod.splits dest: append_literal_inv append_literal_le)
  moreover have "state_inv cap e (step_state (step_junk s))"
    using s p close_remaining_inv [of "rs_stack s" "rs_w s" _ _ _ cap e]
    by (fastforce simp: step_junk_def d simp del: close_remaining.simps split: prod.splits list.splits option.splits)
  ultimately show ?thesis by (simp add: repair_token_def Let_def)
qed

lemma maybe_insert_inv:
  assumes "writer_inv cap e w"
  shows "maybe_insert_missing_comma st w t p e' ch = Comma_Inserted st' w' \<Longrightarrow> writer_inv cap e w'"
    and "maybe_insert_missing_comma st w t p e' ch = Comma_Too_Small w' \<Longrightarrow> writer_inv cap e w'"
  using assms
  by (auto simp: maybe_insert_missing_comma_def split: list.splits prod.splits if_splits dest: writer_inv_dests)

lemma step_inv:
  assumes s: "state_inv cap e s" and p: "rs_p s < e" and e: "e \<le> length t"
  shows "state_inv cap e (step_state (repair_step t e s))"
proof -
  have "rs_p s + 1 < e \<Longrightarrow> state_inv cap e (step_state (step_line_comment t e s))"
    using s scan_while_le [of "rs_p s + 2" e "\<lambda>c. c \<noteq> CHR 0x0A" t] by (auto simp: step_line_comment_def state_inv_def)
  moreover have "rs_p s + 1 < e \<Longrightarrow> state_inv cap e (step_state (step_block_comment t e s))"
    using s block_comment_end_le [of "rs_p s + 2" e t]
    by (auto simp: step_block_comment_def state_inv_def Let_def)
  moreover have "writer_inv cap e (rs_w s)" using s by (simp add: state_inv_def)
  ultimately show ?thesis
    using s emit_inv [OF s p] token_inv [OF s p e]
    by (auto simp: repair_step_def Let_def state_inv_def split: comma_result.splits
        dest: maybe_insert_inv comma_inserted_ctx)
qed

lemma loop_inv: "state_inv cap e s \<Longrightarrow> e \<le> length t \<Longrightarrow> state_inv cap e (step_state (repair_loop t e s))"
proof (induction t e s rule: repair_loop.induct)
  case (1 t e s)
  then show ?case
    using step_inv [of cap e s t] by (subst repair_loop.simps) (auto split: fjr_step.splits)
qed

lemma loop_not_continue: "repair_loop t e s \<noteq> Step_Continue s'"
  by (induction t e s rule: repair_loop.induct) (subst repair_loop.simps, auto split: fjr_step.splits)

lemma candidate_inv:
  assumes "writer_inv cap e w" and "start \<le> e" and "e \<le> length t"
  shows "state_inv cap e (step_state (repair_candidate t start e w))"
proof -
  let ?s = "\<lparr>rs_p = start, rs_stack = [], rs_root_started = False, rs_w = w\<rparr>"
  have "state_inv cap e ?s" using assms by (simp add: state_inv_def)
  note l = loop_inv [OF this assms(3)]
  show ?thesis
  proof (cases "repair_loop t e ?s")
    case (Step_Break s)
    then have "state_inv cap e s" using l by simp
    then show ?thesis using Step_Break close_remaining_inv [of "rs_stack s" "rs_w s" _ _ _ cap e]
      by (fastforce simp: repair_candidate_def state_inv_def split: prod.splits option.splits)
  qed (use l in \<open>auto simp: repair_candidate_def\<close>)
qed

lemma break_not_back:
  assumes "repair_step t e s = Step_Break s'"
  shows "rs_p s \<le> rs_p s'"
proof -
  have u [simp]: "unrepairable_at s1 \<noteq> Step_Break s'" for s1 by (simp add: unrepairable_at_def)
  have e [simp]: "emit_and_advance ch s1 \<noteq> Step_Break s'" for ch s1 by (simp add: emit_and_advance_def split: prod.splits)
  have "step_open ch s \<noteq> Step_Break s'" for ch by (auto simp: step_open_def split: prod.splits option.splits)
  moreover have "step_comma t e s \<noteq> Step_Break s'" by (auto simp: step_comma_def Let_def split: list.splits)
  moreover have "step_colon s \<noteq> Step_Break s'" by (auto simp: step_colon_def split: list.splits)
  moreover have "step_quote t e ch s \<noteq> Step_Break s'" for ch by (auto simp: step_quote_def split: prod.splits)
  moreover have "step_bare_key t e s \<noteq> Step_Break s'" by (auto simp: step_bare_key_def split: key_result.splits)
  moreover have "step_value t e s \<noteq> Step_Break s'" by (auto simp: step_value_def split: prod.splits)
  moreover have "close_top ch s = Step_Break s' \<Longrightarrow> rs_p s \<le> rs_p s'" for ch
    by (auto simp: close_top_def Let_def split: list.splits prod.splits if_splits)
  moreover have "step_junk s = Step_Break s' \<Longrightarrow> rs_p s \<le> rs_p s'"
    by (auto simp: step_junk_def split: list.splits prod.splits if_splits option.splits)
  ultimately have "repair_token t e s = Step_Break s' \<Longrightarrow> rs_p s \<le> rs_p s'"
    unfolding repair_token_def Let_def by (metis (no_types, lifting))
  then show ?thesis using assms
    by (auto simp: repair_step_def Let_def step_line_comment_def step_block_comment_def split: if_splits comma_result.splits)
qed

lemma loop_rs_p: "repair_loop t e s = Step_Break s' \<Longrightarrow> rs_p s \<le> rs_p s'"
proof (induction t e s rule: repair_loop.induct)
  case (1 t e s)
  show ?case using "1.prems" "1.IH" break_not_back [of t e s] step_progress [of t e s]
    by (subst (asm) repair_loop.simps) (fastforce split: if_splits fjr_step.splits)
qed

section \<open>The contract of the entry point\<close>

fun succeeded :: "fjr_status \<Rightarrow> bool" where
  "succeeded FJR_OK_UNCHANGED \<longleftrightarrow> True"
| "succeeded FJR_OK_REPAIRED \<longleftrightarrow> True"
| "succeeded _ \<longleftrightarrow> False"

definition result_inv :: "nat \<Rightarrow> nat \<Rightarrow> fjr_result \<Rightarrow> bool" where
  "result_inv n cap r \<longleftrightarrow> length (fo_out r) < cap \<and> counts_flags (fo_report r) \<and>
     fr_error_offset (fo_report r) \<le> n \<and>
     (if succeeded (fo_status r) then
        fo_out_len r = length (fo_out r) \<and> json_ref_from_text (cstr (fo_out r)) \<noteq> None \<and>
        (fo_status r = FJR_OK_UNCHANGED \<longleftrightarrow> fr_repairs (fo_report r) = 0) \<and>
        fr_candidate_offset (fo_report r) + fr_candidate_len (fo_report r) \<le> n
      else fo_out_len r = 0)"

lemma counts_empty [simp]: "counts_flags empty_report"
  by (simp add: counts_flags_def empty_report_def)

lemma counts_candidate [simp]:
  "counts_flags (r\<lparr>fr_candidate_offset := a, fr_candidate_len := b\<rparr>) = counts_flags r"
  by (simp add: counts_flags_def)

lemma candidate_break_p:
  assumes "repair_candidate t start e w = Step_Break s"
  shows "start \<le> rs_p s"
  using assms loop_rs_p [of t e "\<lparr>rs_p = start, rs_stack = [], rs_root_started = False, rs_w = w\<rparr>"]
  by (auto simp: repair_candidate_def split: fjr_step.splits prod.splits option.splits if_splits)

lemma close_remaining_fails: "close_remaining st w = (Some rc, st', w') \<Longrightarrow> \<not> succeeded rc"
proof (induction st w rule: close_remaining.induct)
  case (2 i rest w)
  then show ?case
    by (cases "append_char (retract_trailing_comma w) (expected_closer i)") (auto simp: Let_def split: if_splits)
qed simp

lemma step_return_fails:
  assumes "repair_step t e s = Step_Return rc s'"
  shows "\<not> succeeded rc"
proof -
  have u: "unrepairable_at s1 = Step_Return rc s' \<Longrightarrow> \<not> succeeded rc" for s1 by (auto simp: unrepairable_at_def)
  have e: "emit_and_advance ch s1 = Step_Return rc s' \<Longrightarrow> \<not> succeeded rc" for ch s1
    by (auto simp: emit_and_advance_def split: prod.splits if_splits)
  note d = step_open_def step_comma_def step_colon_def step_quote_def step_bare_key_def step_value_def close_top_def Let_def
  have "step_open ch s = Step_Return rc s' \<Longrightarrow> \<not> succeeded rc" for ch
    by (auto simp: d split: prod.splits option.splits if_splits dest: u)
  moreover have "step_comma t e s = Step_Return rc s' \<Longrightarrow> \<not> succeeded rc"
    by (auto simp: d split: list.splits if_splits dest: u e)
  moreover have "step_colon s = Step_Return rc s' \<Longrightarrow> \<not> succeeded rc"
    by (auto simp: d split: list.splits if_splits dest: u e)
  moreover have "step_quote t e ch s = Step_Return rc s' \<Longrightarrow> \<not> succeeded rc" for ch
    by (auto simp: d split: prod.splits if_splits dest: u)
  moreover have "step_bare_key t e s = Step_Return rc s' \<Longrightarrow> \<not> succeeded rc"
    by (auto simp: d split: key_result.splits dest: u)
  moreover have "step_value t e s = Step_Return rc s' \<Longrightarrow> \<not> succeeded rc"
    by (auto simp: d split: prod.splits if_splits dest: u)
  moreover have "close_top ch s = Step_Return rc s' \<Longrightarrow> \<not> succeeded rc" for ch
    by (auto simp: d split: list.splits prod.splits if_splits dest: u)
  moreover have "step_junk s = Step_Return rc s' \<Longrightarrow> \<not> succeeded rc"
    by (auto simp: step_junk_def simp del: close_remaining.simps split: list.splits prod.splits if_splits option.splits
        dest: u close_remaining_fails)
  ultimately have "repair_token t e s = Step_Return rc s' \<Longrightarrow> \<not> succeeded rc"
    unfolding repair_token_def Let_def by (metis (no_types, lifting))
  then show ?thesis using assms
    by (auto simp: repair_step_def Let_def step_line_comment_def step_block_comment_def
        split: if_splits comma_result.splits dest: e)
qed

lemma loop_return_fails: "repair_loop t e s = Step_Return rc s' \<Longrightarrow> \<not> succeeded rc"
proof (induction t e s rule: repair_loop.induct)
  case (1 t e s)
  show ?case using "1.prems" "1.IH" step_return_fails [of t e s]
    by (subst (asm) repair_loop.simps) (fastforce split: if_splits fjr_step.splits)
qed

lemma candidate_return_fails: "repair_candidate t start e w = Step_Return rc s \<Longrightarrow> \<not> succeeded rc"
  by (auto simp: repair_candidate_def split: fjr_step.splits prod.splits option.splits if_splits
      dest: loop_return_fails close_remaining_fails)

lemma repair_span_inv:
  assumes "0 < cap" and "start \<le> e" and "e \<le> length t" and "counts_flags r" and "fr_error_offset r \<le> e"
  shows "result_inv (length t) cap (repair_span t start e cap r)"
proof -
  let ?w = "\<lparr>fw_out = [], fw_cap = cap, fw_report = r\<rparr>"
  have "writer_inv cap e ?w" using assms by (simp add: writer_inv_def)
  note c = candidate_inv [OF this assms(2,3)]
  show ?thesis
  proof (cases "repair_candidate t start e ?w")
    case (Step_Break s)
    moreover have "start \<le> rs_p s" using candidate_break_p [OF Step_Break] .
    ultimately show ?thesis using c assms
      by (auto simp: repair_span_def Let_def result_inv_def fjr_fail_def state_inv_def writer_inv_def)
  qed (use c assms candidate_return_fails in \<open>auto simp: repair_span_def result_inv_def fjr_fail_def state_inv_def writer_inv_def\<close>)
qed

lemma trim_end_ws_bounds: "start \<le> e \<Longrightarrow> start \<le> trim_end_ws t start e \<and> trim_end_ws t start e \<le> e"
  by (induction e) (auto simp: le_Suc_eq)

lemma strip_fence_bounds:
  assumes "strip_fence t b e r = Some (b', e', r')" and "b \<le> e"
  shows "b' \<le> e' \<and> e' \<le> e \<and> r' \<in> {r, FJR_MARK Stripped_Fence r}"
proof -
  have lf: "last_fence t p e l0 = Some l \<Longrightarrow> (\<forall>x. l0 = Some x \<longrightarrow> x < e) \<Longrightarrow> l < e" for p l0 l
  proof (induction t p e l0 rule: last_fence.induct)
    case (1 t p e l0)
    show ?case using "1.prems" "1.IH" by (subst (asm) last_fence.simps) (auto split: if_splits)
  qed
  let ?b = "Suc (scan_while (\<lambda>c. c \<noteq> CHR 0x0A) t b e)"
  have "last_fence t (b + 3) e None = Some l \<Longrightarrow> ?b < l \<Longrightarrow> ?b \<le> trim_end_ws t ?b l \<and> trim_end_ws t ?b l \<le> e" for l
    using lf [of "b + 3" None l] trim_end_ws_bounds [of ?b l t] by simp
  then show ?thesis using assms
    by (auto simp: strip_fence_def Let_def split: if_splits option.splits)
qed

text \<open>
  C10. The contract of \<open>fjson_repair\<close>, for every input and every non-empty buffer: the output
  and its terminator fit the buffer; on success the output is an accepted JSON text whose length
  is reported, the candidate span lies in the input, and the status is \<open>FJR_OK_UNCHANGED\<close>
  exactly when no repair was counted; on failure the reported length is 0. The number of
  repairs is the number of flags set, and the error offset lies in the input.
\<close>

theorem fjson_repair_contract:
  assumes "0 < out_cap"
  shows "result_inv (length t) out_cap (fjson_repair t out_cap)"
proof -
  let ?b = "skip_ws_span t 0 (length t)" and ?n = "length t"
  let ?e = "trim_end_ws t ?b ?n"
  have b: "?b \<le> ?n" by (simp add: skip_ws_span_def scan_while_le)
  note e = trim_end_ws_bounds [OF b, of t]
  show ?thesis
  proof (cases "length t + 1 \<le> out_cap \<and> json_ref_from_text (cstr t) \<noteq> None")
    case True
    then show ?thesis using assms
      by (auto simp: fjson_repair_def result_inv_def counts_flags_def empty_report_def)
  next
    case False
    show ?thesis
    proof (cases "strip_fence t ?b ?e empty_report")
      case None
      then show ?thesis using assms False
        by (auto simp: fjson_repair_def Let_def result_inv_def fjr_fail_def empty_report_def counts_flags_def)
    next
      case (Some x)
      then obtain b' e' r where x: "strip_fence t ?b ?e empty_report = Some (b', e', r)" by (cases x) auto
      note sf = strip_fence_bounds [OF x conjunct1 [OF e]]
      have r: "counts_flags r" "fr_error_offset r = 0" using sf by (auto simp: empty_report_def counts_flags_def FJR_MARK_def)
      have "scan_while (\<lambda>c. \<not> is_opener c) t b' e' \<le> e'" using sf scan_while_le by blast
      moreover have "e' \<le> length t" using sf e by simp
      ultimately show ?thesis using assms False x r
        by (auto simp: fjson_repair_def Let_def intro!: repair_span_inv)
          (auto simp: result_inv_def fjr_fail_def)
    qed
  qed
qed

theorem fjson_repair_contract_witness:
  "result_inv 3 8 (fjson_repair ''[1,'' 8)"
  using fjson_repair_contract [of 8 "''[1,''"] by (simp add: numeral_eq_Suc)

end
