(* ===== verification/Fjson_Valid.thy ===== *)
theory Fjson_Valid
  imports Fjson_Laws
begin

text \<open>
  The repair loop is the identity on valid input: a JSON object or array inside surrounding
  text is copied byte for byte, without any repair being counted for the value itself.
\<close>

section \<open>Single turns on valid input\<close>

definition put :: "fjr_writer \<Rightarrow> string \<Rightarrow> fjr_writer" where
  "put w x = w\<lparr>fw_out := fw_out w @ x\<rparr>"

definition room :: "fjr_writer \<Rightarrow> nat \<Rightarrow> bool" where
  "room w n \<longleftrightarrow> length (fw_out w) + n < fw_cap w"

definition running :: "nat \<Rightarrow> fjr_stack_item list \<Rightarrow> fjr_writer \<Rightarrow> fjr_state" where
  "running p st w = \<lparr>rs_p = p, rs_stack = st, rs_root_started = True, rs_w = w\<rparr>"

lemma running_sel [simp]:
  "rs_p (running p st w) = p" "rs_stack (running p st w) = st" "rs_root_started (running p st w)"
  "rs_w (running p st w) = w"
  by (simp_all add: running_def)

lemma running_upd [simp]:
  "(running p st w)\<lparr>rs_p := q\<rparr> = running q st w" "(running p st w)\<lparr>rs_stack := st'\<rparr> = running p st' w"
  "(running p st w)\<lparr>rs_w := w'\<rparr> = running p st w'" "(running p st w)\<lparr>rs_root_started := True\<rparr> = running p st w"
  by (simp_all add: running_def)

lemma put_put [simp]: "put (put w x) y = put w (x @ y)" "put w [] = w"
  by (simp_all add: put_def)

lemma room_put [simp]: "room (put w x) n = room w (length x + n)"
  by (simp add: room_def put_def add_ac)

lemma room_mono: "room w n \<Longrightarrow> m \<le> n \<Longrightarrow> room w m"
  by (simp add: room_def)

lemma append_char_room: "room w 1 \<Longrightarrow> append_char w c = (True, put w [c])"
  by (simp add: append_char_def room_def put_def)

lemma append_chars_room: "room w (length cs) \<Longrightarrow> append_chars w cs = (True, put w cs)"
  by (induction cs arbitrary: w) (auto simp: append_char_room room_mono)

lemma loop_step: "p < e \<Longrightarrow> repair_step t e (running p st w) = Step_Continue s \<Longrightarrow>
    repair_loop t e (running p st w) = repair_loop t e s"
  by (subst repair_loop.simps) simp

lemma loop_ws:
  "jws c \<Longrightarrow> drop p t = c @ r \<Longrightarrow> p + length c \<le> e \<Longrightarrow> room w (length c) \<Longrightarrow>
     repair_loop t e (running p st w) = repair_loop t e (running (p + length c) st (put w c))"
proof (induction c arbitrary: p w)
  case (Cons x c)
  have d: "ch_at t p = x" "drop (Suc p) t = c @ r" using Cons.prems drop_chD [of p t x] by auto
  have "repair_step t e (running p st w) = Step_Continue (running (Suc p) st (put w [x]))"
    using Cons.prems d by (simp add: repair_step_def emit_and_advance_def append_char_room room_mono)
  then have "repair_loop t e (running p st w) = repair_loop t e (running (Suc p) st (put w [x]))"
    using Cons.prems by (intro loop_step) auto
  then show ?case using Cons.IH [OF _ d(2), of "put w [x]"] Cons.prems by simp
qed simp

lemma simple_escapes_agree: "is_simple_json_escape c = is_simple_escape c"
  by (auto simp: is_simple_json_escape_def is_simple_escape_def)

lemma string_loop_unit:
  "p < e \<Longrightarrow> ch_at t p \<noteq> DQ \<Longrightarrow> string_unit t p e DQ = (False, bs, n) \<Longrightarrow> room w (length bs) \<Longrightarrow>
     json_string_loop t p e DQ w = json_string_loop t (p + n) e DQ (put w bs)"
  by (subst json_string_loop.simps) (simp add: emit_string_unit_def append_chars_room string_unit_len_def)

lemma string_loop_valid:
  "jchars v \<Longrightarrow> drop p t = v @ DQ # r \<Longrightarrow> p + length v < e \<Longrightarrow> room w (length v) \<Longrightarrow>
     json_string_loop t p e DQ w = (True, put w v, p + length v + 1, True)"
proof (induction v arbitrary: p w rule: jchars.induct)
  case jchars_Nil
  then show ?case using drop_chD [of p t DQ r] by (subst json_string_loop.simps) simp
next
  case (jchars_plain c v)
  have d: "ch_at t p = c" "drop (Suc p) t = v @ DQ # r" using jchars_plain.prems drop_chD [of p t c] by auto
  have "string_unit t p e DQ = (False, [c], 1)"
    using jchars_plain.hyps d by (auto simp: string_unit_def Let_def is_ctrl_def byte_def)
  from string_loop_unit [OF _ _ this, of w] show ?case
    using jchars_plain d jchars_plain.IH [OF d(2), of "put w [c]"] by (simp add: room_mono)
next
  case (jchars_escape c v)
  have d: "ch_at t p = BSL" "ch_at t (p + 1) = c" "drop (p + 2) t = v @ DQ # r"
    using jchars_escape.prems drop_chD [of p t BSL] drop_chD [of "Suc p" t c] by auto
  have "string_unit t p e DQ = (False, [BSL, c], 2)"
    using jchars_escape d by (auto simp: string_unit_def Let_def simple_escapes_agree)
  from string_loop_unit [OF _ _ this, of w] show ?case
    using jchars_escape d jchars_escape.IH [OF d(3), of "put w [BSL, c]"] by (simp add: room_mono)
next
  case (jchars_unicode a b c d v)
  let ?u = "[BSL, CHR ''u'', a, b, c, d]"
  have dr: "drop p t = ?u @ v @ DQ # r" using jchars_unicode.prems by simp
  then have ch: "ch_at t p = BSL" "ch_at t (p + 1) = CHR ''u''" "ch_at t (p + 2) = a" "ch_at t (p + 3) = b"
    "ch_at t (p + 4) = c" "ch_at t (p + 5) = d"
    using ch_at_offset [OF dr, of 0] ch_at_offset [OF dr, of 1] ch_at_offset [OF dr, of 2]
      ch_at_offset [OF dr, of 3] ch_at_offset [OF dr, of 4] ch_at_offset [OF dr, of 5]
    by (simp_all add: numeral_eq_Suc)
  have d6: "drop (p + 6) t = v @ DQ # r" using drop_append_length [OF dr] by (simp add: numeral_eq_Suc)
  have "span t p (p + 6) = ?u" using span_eqI [OF dr] by (simp add: numeral_eq_Suc)
  moreover have "\<not> is_simple_json_escape (CHR ''u'')" by (simp add: is_simple_json_escape_def)
  ultimately have "string_unit t p e DQ = (False, ?u, 6)"
    using jchars_unicode ch by (simp add: string_unit_def Let_def hex4_before_def)
  from string_loop_unit [OF _ _ this, of w] show ?case
    using jchars_unicode ch jchars_unicode.IH [OF d6, of "put w ?u"] by (simp add: room_mono)
qed

lemma append_string_valid:
  assumes "jstring k" and "drop p t = k @ r" and "p + length k \<le> e" and "room w (length k)"
  shows "append_json_string w t p e DQ = (True, put w k, p + length k)"
proof -
  obtain v where v: "jchars v" "k = DQ # v @ [DQ]" using assms(1) by (auto simp: jstring_def)
  have "drop (Suc p) t = v @ DQ # r" using assms(2) v drop_chD [of p t DQ] by auto
  from string_loop_valid [OF v(1) this, of e "put w [DQ]"] show ?thesis
    using assms v by (simp add: append_json_string_def append_char_room room_mono)
qed

definition value_stop :: "string \<Rightarrow> nat \<Rightarrow> nat \<Rightarrow> bool" where
  "value_stop t q e \<longleftrightarrow> q < e \<and> (is_space (ch_at t q) \<or> ch_at t q = CHR '','' \<or> ch_at t q = CHR ''}'' \<or> ch_at t q = CHR '']'')"

lemma number_chars: "jnumber s \<Longrightarrow> list_all is_number_char s"
proof -
  have "list_all is_digit ds \<Longrightarrow> list_all is_number_char ds" for ds
    by (erule list.pred_mono_strong) (simp add: is_number_char_def)
  then show "jnumber s \<Longrightarrow> list_all is_number_char s"
    by (auto simp: jnumber_def jfraction_def jexponent_def jdigits_def is_number_char_def)
qed

lemma literal_words:
  assumes "drop p t = c # r" and "c = CHR ''-'' \<or> is_digit c"
  shows "\<not> word_at ''True'' t p e" "\<not> word_at ''False'' t p e" "\<not> word_at ''None'' t p e"
    "\<not> word_at ''true'' t p e" "\<not> word_at ''false'' t p e" "\<not> word_at ''null'' t p e"
  using assms by (auto simp: word_at_def is_digit_def byte_def)

lemma number_char_not_stop:
  "is_number_char c \<Longrightarrow> \<not> is_space c \<and> c \<noteq> CHR '','' \<and> c \<noteq> CHR ''}'' \<and> c \<noteq> CHR '']''"
  by (auto simp: is_number_char_def) (simp_all add: char_class_defs)

lemma number_valid:
  assumes s: "jnumber s" "drop p t = s @ r" and e: "value_stop t (p + length s) e" and w: "room w (length s)"
  shows "append_literal_or_number w t p e = (True, put w s, p + length s)"
proof -
  obtain c s' where c: "s = c # s'" "c = CHR ''-'' \<or> is_digit c"
    using jnumber_start [OF s(1)] by blast
  have d: "drop p t = c # s' @ r" "ch_at t p = c" "drop (p + 1) t = s' @ r" using s(2) c drop_chD [of p t c] by auto
  have "\<not> is_number_char (ch_at t (p + length s))"
    using e number_char_not_stop [of "ch_at t (p + length s)"] by (auto simp: value_stop_def)
  then have "scan_while is_number_char t (p + 1) e = p + length s"
    using scan_while_to [OF _ d(3), of is_number_char e] number_chars [OF s(1)] c(1) e by (simp add: value_stop_def)
  moreover have "span t p (p + length s) = s" using s(2) by (rule span_eqI)
  ultimately show ?thesis using literal_words [OF d(1) c(2)] d(2) c(2) w
    by (simp add: append_literal_or_number_def copy_span_def put_def room_def)
qed

lemma word_at_hd: "drop p t = c # r \<Longrightarrow> d \<noteq> c \<Longrightarrow> \<not> word_at (d # lit) t p e"
  by (simp add: word_at_def)

lemma word_at_here: "drop p t = s @ r \<Longrightarrow> value_stop t (p + length s) e \<Longrightarrow> word_at s t p e"
  by (auto simp: word_at_def token_boundary_def value_stop_def)

lemma literal_valid:
  assumes s: "s = ''true'' \<or> s = ''false'' \<or> s = ''null''" "drop p t = s @ r"
    and e: "value_stop t (p + length s) e" and w: "room w (length s)"
  shows "append_literal_or_number w t p e = (True, put w s, p + length s)"
proof -
  have here: "word_at s t p e" using word_at_here [OF s(2) e] .
  have sp: "span t p (p + length s) = s" using s(2) by (rule span_eqI)
  have copy: "copy_span w t p (p + length s) = (True, put w s, p + length s)"
    using w sp by (simp add: copy_span_def put_def room_def)
  from s(1) consider "s = ''true''" | "s = ''false''" | "s = ''null''" by blast
  then show ?thesis
  proof cases
    case 1
    then show ?thesis using here copy s(2) word_at_hd [of p t "CHR ''t''"]
      by (simp add: append_literal_or_number_def Let_def numeral_eq_Suc)
  next
    case 2
    then show ?thesis using here copy s(2) word_at_hd [of p t "CHR ''f''"]
      by (simp add: append_literal_or_number_def Let_def numeral_eq_Suc)
  next
    case 3
    then show ?thesis using here copy s(2) word_at_hd [of p t "CHR ''n''"]
      by (simp add: append_literal_or_number_def Let_def numeral_eq_Suc)
  qed
qed

abbreviation obj :: "fjr_ctx \<Rightarrow> fjr_stack_item" where
  "obj c \<equiv> \<lparr>si_opener = CHR ''{'', si_ctx = c\<rparr>"

abbreviation arr :: "fjr_ctx \<Rightarrow> fjr_stack_item" where
  "arr c \<equiv> \<lparr>si_opener = CHR ''['', si_ctx = c\<rparr>"

definition closed :: "string \<Rightarrow> nat \<Rightarrow> nat \<Rightarrow> fjr_stack_item list \<Rightarrow> fjr_writer \<Rightarrow> fjr_step" where
  "closed t e p st w =
     (if st = [] then Step_Break (running p [] w) else repair_loop t e (running p (mark_value_done st) w))"

lemma no_comma_inserted: "\<not> awaits_comma st \<Longrightarrow> maybe_insert_missing_comma st w t p e ch = Comma_None"
  by (auto simp: maybe_insert_missing_comma_def split: list.splits)

lemma step_is_token:
  "\<not> is_space (ch_at t p) \<Longrightarrow> ch_at t p \<noteq> CHR ''/'' \<Longrightarrow> \<not> awaits_comma st \<Longrightarrow>
     repair_step t e (running p st w) = repair_token t e (running p st w)"
  by (simp add: repair_step_def Let_def no_comma_inserted)

lemma punct_classes [simp]:
  "\<not> is_space (CHR ''{'')" "\<not> is_space (CHR ''['')" "\<not> is_space (CHR ''}'')" "\<not> is_space (CHR '']'')"
  "\<not> is_space (CHR '':'')" "\<not> is_space (CHR '','')" "\<not> is_space DQ"
  by (simp_all add: char_class_defs)

lemma value_expected_ctx: "is_value_expected st \<Longrightarrow> \<not> awaits_comma st \<and> \<not> is_key_expected st"
  by (cases st) auto

lemma turn_open:
  assumes "p < e" and "ch_at t p = c" and "c = CHR ''{'' \<or> c = CHR ''[''" and "is_value_expected st"
    and "length st < FJR_STACK_MAX" and "room w 1"
  shows "repair_loop t e (running p st w) = repair_loop t e (running (p + 1)
      ((if c = CHR ''{'' then obj FJR_CTX_OBJECT_KEY_OR_END else arr FJR_CTX_ARRAY_VALUE_OR_END) # st) (put w [c]))"
proof (rule loop_step [OF assms(1)])
  have "repair_step t e (running p st w) = repair_token t e (running p st w)"
    using assms value_expected_ctx [OF assms(4)] by (intro step_is_token) auto
  then show "repair_step t e (running p st w) = Step_Continue (running (p + 1)
      ((if c = CHR ''{'' then obj FJR_CTX_OBJECT_KEY_OR_END else arr FJR_CTX_ARRAY_VALUE_OR_END) # st) (put w [c]))"
    using assms by (auto simp: repair_token_def Let_def step_open_def push_container_def append_char_room)
qed

lemma turn_close:
  assumes "p < e" and "ch_at t p = expected_closer i" and "can_close_top i (expected_closer i)"
    and "i = obj c \<or> i = arr c" and "room w 1"
  shows "repair_loop t e (running p (i # st) w) = closed t e (p + 1) st (put w [expected_closer i])"
proof -
  have "maybe_insert_missing_comma (i # st) w t p e (expected_closer i) = Comma_None"
    using assms(3,4) by (auto simp: maybe_insert_missing_comma_def expected_closer_def can_close_top_def
        token_can_start_value_def is_ident_start_def char_class_defs looks_like_bare_key_def)
  then have "repair_step t e (running p (i # st) w) = close_top (expected_closer i) (running p (i # st) w)"
    using assms(2,4) by (auto simp: repair_step_def repair_token_def Let_def expected_closer_def is_any_closer_def)
  then show ?thesis using assms
    by (subst repair_loop.simps) (auto simp: close_top_def Let_def append_char_room closed_def)
qed

lemma turn_colon:
  assumes "p < e" and "ch_at t p = CHR '':''" and "room w 1"
  shows "repair_loop t e (running p (obj FJR_CTX_OBJECT_COLON # st) w) =
    repair_loop t e (running (p + 1) (obj FJR_CTX_OBJECT_VALUE # st) (put w '':''))"
  using assms by (intro loop_step)
    (auto simp: step_is_token repair_token_def Let_def is_any_closer_def step_colon_def emit_and_advance_def append_char_room)

lemma turn_comma:
  assumes p: "p < e" and ch: "ch_at t p = CHR '',''" and w: "room w 1"
    and nx: "skip_ws_span t (p + 1) e = q" "q < e" "ch_at t q \<noteq> CHR ''}''" "ch_at t q \<noteq> CHR '']''"
    and i: "(i, j) = (obj FJR_CTX_OBJECT_COMMA_OR_END, obj FJR_CTX_OBJECT_KEY_OR_END) \<or>
      (i, j) = (arr FJR_CTX_ARRAY_COMMA_OR_END, arr FJR_CTX_ARRAY_VALUE_OR_END)"
  shows "repair_loop t e (running p (i # st) w) = repair_loop t e (running (p + 1) (j # st) (put w '',''))"
proof (rule loop_step [OF p])
  have "maybe_insert_missing_comma (i # st) w t p e (CHR '','') = Comma_None"
    by (simp add: maybe_insert_missing_comma_def)
  then have "repair_step t e (running p (i # st) w) = step_comma t e (running p (i # st) w)"
    using ch by (simp add: repair_step_def repair_token_def Let_def is_any_closer_def)
  then show "repair_step t e (running p (i # st) w) = Step_Continue (running (p + 1) (j # st) (put w '',''))"
    using i nx w by (auto simp: step_comma_def Let_def emit_and_advance_def append_char_room)
qed

lemma turn_string:
  assumes "jstring k" and "drop p t = k @ r" and "p + length k \<le> e" and "room w (length k)"
    and "(st, st') = (obj FJR_CTX_OBJECT_KEY_OR_END # st0, obj FJR_CTX_OBJECT_COLON # st0) \<or>
      is_value_expected st \<and> st' = mark_value_done st"
  shows "repair_loop t e (running p st w) = repair_loop t e (running (p + length k) st' (put w k))"
proof (rule loop_step)
  have ch: "ch_at t p = DQ" and l: "0 < length k" using assms(1,2) drop_chD [of p t DQ] by (auto simp: jstring_def)
  show "p < e" using l assms(3) by linarith
  have "\<not> awaits_comma st" using assms(5) value_expected_ctx by auto
  then have "repair_step t e (running p st w) = step_quote t e DQ (running p st w)"
    using ch by (simp add: step_is_token repair_token_def Let_def is_any_closer_def)
  then show "repair_step t e (running p st w) = Step_Continue (running (p + length k) st' (put w k))"
    using append_string_valid [OF assms(1-4)] assms(5) value_expected_ctx [of st] by (auto simp: step_quote_def)
qed

lemma turn_literal:
  assumes "append_literal_or_number w t p e = (True, w', q)" and "p < e" and "is_value_expected st"
    and "c = ch_at t p" and "c = CHR ''-'' \<or> is_digit c \<or> is_lower c"
  shows "repair_loop t e (running p st w) = repair_loop t e (running q (mark_value_done st) w')"
proof (rule loop_step [OF assms(2)])
  have c: "\<not> is_space c \<and> c \<noteq> CHR ''/'' \<and> c \<noteq> CHR ''{'' \<and> c \<noteq> CHR ''['' \<and> \<not> is_any_closer c \<and> c \<noteq> CHR '','' \<and>
      c \<noteq> CHR '':'' \<and> c \<noteq> DQ \<and> c \<noteq> CHR 0x27"
    using assms(5) by (auto simp: char_class_defs is_any_closer_def)
  then have "repair_step t e (running p st w) = step_value t e (running p st w)"
    using value_expected_ctx [OF assms(3)] assms(3,4) by (simp add: step_is_token repair_token_def Let_def)
  then show "repair_step t e (running p st w) = Step_Continue (running q (mark_value_done st) w')"
    using assms(1) by (simp add: step_value_def)
qed

section \<open>Whole values\<close>

definition openers :: "string \<Rightarrow> nat" where
  "openers v = length (filter is_opener v)"

lemma openers_simps [simp]:
  "openers [] = 0" "openers (v @ x) = openers v + openers x"
  "openers (c # v) = (if is_opener c then Suc (openers v) else openers v)"
  by (simp_all add: openers_def)

lemma is_opener_simps [simp]: "is_opener (CHR ''{'')" "is_opener (CHR ''['')" "\<not> is_opener (CHR ''}'')"
  "\<not> is_opener (CHR '']'')" "\<not> is_opener (CHR '':'')" "\<not> is_opener (CHR '','')"
  by (simp_all add: is_opener_def)

lemma value_stop_after:
  assumes "drop q t = c @ x # r" and "jws c" and "x = CHR '','' \<or> x = CHR ''}'' \<or> x = CHR '']''"
    and "q + length c < e"
  shows "value_stop t q e"
  using assms drop_chD [of q t] by (cases c) (auto simp: value_stop_def)

lemma skip_ws_span_to:
  assumes "drop p t = d @ x # r" and "jws d" and "\<not> is_space x" and "p + length d < e"
  shows "skip_ws_span t p e = p + length d" and "ch_at t (p + length d) = x"
proof -
  have x: "ch_at t (p + length d) = x" using drop_append_length [OF assms(1)] drop_chD by auto
  then show "ch_at t (p + length d) = x" .
  show "skip_ws_span t p e = p + length d"
    using scan_while_to [of is_space d p t "x # r" e] assms x by (simp add: skip_ws_span_def jws_def)
qed

text \<open>A member up to the colon and the white space behind its value.\<close>

lemma member_turns:
  assumes d: "drop p t = k @ a @ CHR '':'' # b @ v @ c @ x # r"
    and g: "jstring k" "jws a" "jws b" "jvalue v" "jws c"
    and x: "x = CHR '','' \<or> x = CHR ''}''" and e: "p + length (k @ a @ CHR '':'' # b @ v @ c) < e"
    and w: "room w (length (k @ a @ CHR '':'' # b @ v @ c))"
    and v: "\<And>q w. drop q t = v @ c @ x # r \<Longrightarrow> value_stop t (q + length v) e \<Longrightarrow> q + length v \<le> e \<Longrightarrow> room w (length v) \<Longrightarrow>
      repair_loop t e (running q (obj FJR_CTX_OBJECT_VALUE # st) w) =
      repair_loop t e (running (q + length v) (obj FJR_CTX_OBJECT_COMMA_OR_END # st) (put w v))"
  defines "m \<equiv> k @ a @ CHR '':'' # b @ v @ c"
  shows "repair_loop t e (running p (obj FJR_CTX_OBJECT_KEY_OR_END # st) w) =
      repair_loop t e (running (p + length m) (obj FJR_CTX_OBJECT_COMMA_OR_END # st) (put w m))"
    and "drop (p + length m) t = x # r"
proof -
  let ?q1 = "p + length k" let ?q2 = "?q1 + length a" let ?q3 = "?q2 + 1 + length b" let ?q4 = "?q3 + length v"
  have d1: "drop ?q1 t = a @ CHR '':'' # b @ v @ c @ x # r" using d by (rule drop_append_length)
  have d2: "drop ?q2 t = CHR '':'' # b @ v @ c @ x # r" using d1 by (rule drop_append_length)
  have c2: "ch_at t ?q2 = CHR '':''" "drop (?q2 + 1) t = b @ v @ c @ x # r" using drop_chD [OF d2] by auto
  have d3: "drop ?q3 t = v @ c @ x # r" using c2(2) by (rule drop_append_length)
  have d4: "drop ?q4 t = c @ x # r" using d3 by (rule drop_append_length)
  have "drop (?q4 + length c) t = x # r" using d4 by (rule drop_append_length)
  then show "drop (p + length m) t = x # r" by (simp add: m_def add_ac)
  have st: "value_stop t ?q4 e" using value_stop_after [OF d4 g(5)] x e by (simp add: add_ac) blast
  have "repair_loop t e (running p (obj FJR_CTX_OBJECT_KEY_OR_END # st) w) =
      repair_loop t e (running ?q1 (obj FJR_CTX_OBJECT_COLON # st) (put w k))"
    using turn_string [OF g(1) d, of e w] e w by (simp add: room_mono)
  also have "\<dots> = repair_loop t e (running ?q2 (obj FJR_CTX_OBJECT_COLON # st) (put w (k @ a)))"
    using loop_ws [OF g(2) d1, of e "put w k"] e w by (simp add: room_mono)
  also have "\<dots> = repair_loop t e (running (?q2 + 1) (obj FJR_CTX_OBJECT_VALUE # st) (put w (k @ a @ '':'')))"
    using turn_colon [OF _ c2(1), of e "put w (k @ a)" st] e w by (simp add: room_mono)
  also have "\<dots> = repair_loop t e (running ?q3 (obj FJR_CTX_OBJECT_VALUE # st) (put w (k @ a @ '':'' @ b)))"
    using loop_ws [OF g(3) c2(2), of e "put w (k @ a @ '':'')"] e w by (simp add: room_mono)
  also have "\<dots> = repair_loop t e (running ?q4 (obj FJR_CTX_OBJECT_COMMA_OR_END # st) (put w (k @ a @ '':'' @ b @ v)))"
    using v [OF d3 st, of "put w (k @ a @ '':'' @ b)"] e w by (simp add: room_mono)
  also have "\<dots> = repair_loop t e (running (p + length m) (obj FJR_CTX_OBJECT_COMMA_OR_END # st) (put w m))"
    using loop_ws [OF g(5) d4, of e "put w (k @ a @ '':'' @ b @ v)"] e w by (simp add: room_mono m_def add_ac)
  finally show "repair_loop t e (running p (obj FJR_CTX_OBJECT_KEY_OR_END # st) w) =
      repair_loop t e (running (p + length m) (obj FJR_CTX_OBJECT_COMMA_OR_END # st) (put w m))" .
qed

lemma element_turns:
  assumes d: "drop p t = v @ c @ x # r" and g: "jvalue v" "jws c"
    and x: "x = CHR '','' \<or> x = CHR '']''" and e: "p + length v + length c < e"
    and w: "room w (length v + length c)"
    and v: "\<And>q w. drop q t = v @ c @ x # r \<Longrightarrow> value_stop t (q + length v) e \<Longrightarrow> q + length v \<le> e \<Longrightarrow> room w (length v) \<Longrightarrow>
      repair_loop t e (running q (arr FJR_CTX_ARRAY_VALUE_OR_END # st) w) =
      repair_loop t e (running (q + length v) (arr FJR_CTX_ARRAY_COMMA_OR_END # st) (put w v))"
  shows "repair_loop t e (running p (arr FJR_CTX_ARRAY_VALUE_OR_END # st) w) =
      repair_loop t e (running (p + length v + length c) (arr FJR_CTX_ARRAY_COMMA_OR_END # st) (put w (v @ c)))"
    and "drop (p + length v + length c) t = x # r"
proof -
  have d1: "drop (p + length v) t = c @ x # r" using d by (rule drop_append_length)
  then show "drop (p + length v + length c) t = x # r" by (rule drop_append_length)
  have "value_stop t (p + length v) e" using value_stop_after [OF d1 g(2)] x e by blast
  then show "repair_loop t e (running p (arr FJR_CTX_ARRAY_VALUE_OR_END # st) w) =
      repair_loop t e (running (p + length v + length c) (arr FJR_CTX_ARRAY_COMMA_OR_END # st) (put w (v @ c)))"
    using v [OF d, of w] loop_ws [OF g(2) d1, of e "put w v"] e w by (simp add: room_mono)
qed

text \<open>The comma behind a member or element and the white space that follows it.\<close>

lemma comma_turns:
  assumes dp: "drop p t = CHR '','' # d @ y # r" and g: "jws d" "\<not> is_space y" "y \<noteq> CHR ''}''" "y \<noteq> CHR '']''"
    and e: "p + length d + 1 < e" and w: "room w (length d + 1)"
    and i: "(i, j) = (obj FJR_CTX_OBJECT_COMMA_OR_END, obj FJR_CTX_OBJECT_KEY_OR_END) \<or>
      (i, j) = (arr FJR_CTX_ARRAY_COMMA_OR_END, arr FJR_CTX_ARRAY_VALUE_OR_END)"
  shows "repair_loop t e (running p (i # st) w) =
      repair_loop t e (running (p + 1 + length d) (j # st) (put w (CHR '','' # d)))"
    and "drop (p + 1 + length d) t = y # r"
proof -
  have c: "ch_at t p = CHR '',''" "drop (p + 1) t = d @ y # r" using drop_chD [OF dp] by auto
  show "drop (p + 1 + length d) t = y # r" using c(2) by (rule drop_append_length)
  have "p + 1 + length d < e" using e by simp
  note sp = skip_ws_span_to [OF c(2) g(1,2) this]
  have "repair_loop t e (running p (i # st) w) = repair_loop t e (running (p + 1) (j # st) (put w '',''))"
    by (rule turn_comma [OF _ c(1) _ sp(1) _ _ _ i]) (use e w sp g in \<open>auto simp: room_mono\<close>)
  also have "\<dots> = repair_loop t e (running (p + 1 + length d) (j # st) (put w (CHR '','' # d)))"
    using loop_ws [OF g(1) c(2), of e "put w '',''"] e w by simp
  finally show "repair_loop t e (running p (i # st) w) =
      repair_loop t e (running (p + 1 + length d) (j # st) (put w (CHR '','' # d)))" .
qed

lemma open_turns:
  assumes d: "drop p t = c # a @ r" and c: "c = CHR ''{'' \<or> c = CHR ''[''" and a: "jws a"
    and e: "p + length a + 1 \<le> e" and w: "room w (length a + 1)" and st: "is_value_expected st" "length st < FJR_STACK_MAX"
  shows "repair_loop t e (running p st w) = repair_loop t e (running (p + 1 + length a)
      ((if c = CHR ''{'' then obj FJR_CTX_OBJECT_KEY_OR_END else arr FJR_CTX_ARRAY_VALUE_OR_END) # st) (put w (c # a)))"
    and "drop (p + 1 + length a) t = r"
proof -
  have h: "ch_at t p = c" "drop (p + 1) t = a @ r" using drop_chD [OF d] by auto
  show "drop (p + 1 + length a) t = r" using h(2) by (rule drop_append_length)
  show "repair_loop t e (running p st w) = repair_loop t e (running (p + 1 + length a)
      ((if c = CHR ''{'' then obj FJR_CTX_OBJECT_KEY_OR_END else arr FJR_CTX_ARRAY_VALUE_OR_END) # st) (put w (c # a)))"
    using turn_open [OF _ h(1) c st, of e w] loop_ws [OF a h(2), of e "put w [c]"] e w by (simp add: room_mono)
qed

lemma closer_turn:
  assumes "drop p t = expected_closer i # r" and "p < e" and "room w 1"
    and "i = obj FJR_CTX_OBJECT_KEY_OR_END \<or> i = obj FJR_CTX_OBJECT_COMMA_OR_END \<or>
      i = arr FJR_CTX_ARRAY_VALUE_OR_END \<or> i = arr FJR_CTX_ARRAY_COMMA_OR_END"
  shows "repair_loop t e (running p (i # st) w) = closed t e (p + 1) st (put w [expected_closer i])"
  using assms drop_chD [OF assms(1)] by (intro turn_close [where c = "si_ctx i"])
    (auto simp: can_close_top_def expected_closer_def)

lemma scalar_turn:
  assumes "jnumber s \<or> s = ''true'' \<or> s = ''false'' \<or> s = ''null''" and "drop p t = s @ r"
    and "value_stop t (p + length s) e" and "room w (length s)" and "is_value_expected st"
  shows "repair_loop t e (running p st w) = repair_loop t e (running (p + length s) (mark_value_done st) (put w s))"
proof -
  have a: "append_literal_or_number w t p e = (True, put w s, p + length s)"
    using assms number_valid [OF _ assms(2-4)] literal_valid [OF _ assms(2-4)] by blast
  have "\<exists>c s'. s = c # s' \<and> (c = CHR ''-'' \<or> is_digit c \<or> is_lower c)"
  proof (cases "jnumber s")
    case True
    then show ?thesis using jnumber_start by blast
  next
    case False
    have "is_lower (CHR ''t'')" "is_lower (CHR ''f'')" "is_lower (CHR ''n'')" by (simp_all add: is_lower_def byte_def)
    then show ?thesis using False assms(1) by blast
  qed
  then obtain c s' where c: "s = c # s'" "c = CHR ''-'' \<or> is_digit c \<or> is_lower c" by blast
  then have "ch_at t p = c" using assms(2) drop_chD [of p t c] by simp
  moreover have "p < e" using assms(3) by (simp add: value_stop_def)
  ultimately show ?thesis using turn_literal [OF a _ assms(5) refl] c by blast
qed

text \<open>A container as a value below the root, given what happens behind its opening bracket.\<close>

lemma container_turns:
  assumes d: "drop p t = (c # a @ m) @ r" and c: "c = CHR ''{'' \<or> c = CHR ''[''" and a: "jws a"
    and e: "value_stop t (p + length (c # a @ m)) e" and w: "room w (length (c # a @ m))"
    and st: "is_value_expected st" "st \<noteq> []" "length st < FJR_STACK_MAX"
    and body: "\<And>q w. drop q t = m @ r \<Longrightarrow> q + length m \<le> e \<Longrightarrow> room w (length m) \<Longrightarrow>
      repair_loop t e (running q ((if c = CHR ''{'' then obj FJR_CTX_OBJECT_KEY_OR_END else arr FJR_CTX_ARRAY_VALUE_OR_END) # st) w)
      = closed t e (q + length m) st (put w m)"
  shows "repair_loop t e (running p st w) =
    repair_loop t e (running (p + length (c # a @ m)) (mark_value_done st) (put w (c # a @ m)))"
proof -
  have d': "drop p t = c # a @ m @ r" using d by simp
  have "p + length a + 1 \<le> e" "room w (length a + 1)" using e w by (auto simp: value_stop_def room_mono)
  note o = open_turns [OF d' c a this st(1,3)]
  show ?thesis using o(1) body [OF o(2), of "put w (c # a)"] e w st(2)
    by (simp add: closed_def value_stop_def add_ac)
qed

lemma valid_turns:
  shows value_turns: "jvalue v \<Longrightarrow> drop p t = v @ r \<Longrightarrow> value_stop t (p + length v) e \<Longrightarrow> room w (length v) \<Longrightarrow>
      is_value_expected st \<Longrightarrow> st \<noteq> [] \<Longrightarrow> openers v + length st \<le> FJR_STACK_MAX \<Longrightarrow>
      repair_loop t e (running p st w) = repair_loop t e (running (p + length v) (mark_value_done st) (put w v))"
    and members_turns: "jmembers m \<Longrightarrow> drop p1 t = m @ r1 \<Longrightarrow> p1 + length m \<le> e \<Longrightarrow> room w1 (length m) \<Longrightarrow>
      openers m + length st1 < FJR_STACK_MAX \<Longrightarrow>
      repair_loop t e (running p1 (obj FJR_CTX_OBJECT_KEY_OR_END # st1) w1) = closed t e (p1 + length m) st1 (put w1 m)"
    and elements_turns: "jelements l \<Longrightarrow> drop p2 t = l @ r2 \<Longrightarrow> p2 + length l \<le> e \<Longrightarrow> room w2 (length l) \<Longrightarrow>
      openers l + length st2 < FJR_STACK_MAX \<Longrightarrow>
      repair_loop t e (running p2 (arr FJR_CTX_ARRAY_VALUE_OR_END # st2) w2) = closed t e (p2 + length l) st2 (put w2 l)"
proof (induction arbitrary: p r w st and p1 r1 w1 st1 and p2 r2 w2 st2 rule: jvalue_jmembers_jelements.inducts)
  case (jvalue_string s)
  then show ?case by (intro turn_string) (auto simp: value_stop_def)
next
  case (jvalue_number s)
  then show ?case by (intro scalar_turn) auto
next
  case jvalue_true
  then show ?case by (intro scalar_turn) auto
next
  case jvalue_false
  then show ?case by (intro scalar_turn) auto
next
  case jvalue_null
  then show ?case by (intro scalar_turn) auto
next
  case (jvalue_empty_object a)
  then show ?case
    using closer_turn [of _ t "obj FJR_CTX_OBJECT_KEY_OR_END" r e _ st]
    by (intro container_turns) (auto simp: expected_closer_def)
next
  case (jvalue_object a m)
  then show ?case by (intro container_turns) auto
next
  case (jvalue_empty_array a)
  then show ?case
    using closer_turn [of _ t "arr FJR_CTX_ARRAY_VALUE_OR_END" r e _ st]
    by (intro container_turns) (auto simp: expected_closer_def)
next
  case (jvalue_array a m)
  then show ?case by (intro container_turns) auto
next
  case (jmembers_last k a b v c)
  have d: "drop p1 t = k @ a @ CHR '':'' # b @ v @ c @ CHR ''}'' # r1" using jmembers_last.prems by simp
  have v: "repair_loop t e (running q (obj FJR_CTX_OBJECT_VALUE # st1) w) =
      repair_loop t e (running (q + length v) (obj FJR_CTX_OBJECT_COMMA_OR_END # st1) (put w v))"
    if "drop q t = v @ c @ CHR ''}'' # r1" "value_stop t (q + length v) e" "room w (length v)" for q w
    using jmembers_last.IH [OF that, of "obj FJR_CTX_OBJECT_VALUE # st1"] jmembers_last.prems by simp
  let ?x = "k @ a @ CHR '':'' # b @ v @ c"
  have l: "p1 + length ?x < e" "room w1 (length ?x)" using jmembers_last.prems by (auto simp: room_mono)
  note x = member_turns [OF d jmembers_last.hyps disjI2 [OF refl] l v]
  have dx: "drop (p1 + length ?x) t = expected_closer (obj FJR_CTX_OBJECT_COMMA_OR_END) # r1"
    using x(2) by (simp add: expected_closer_def)
  have r: "room (put w1 ?x) 1" using jmembers_last.prems by (simp add: add_ac)
  have "repair_loop t e (running (p1 + length ?x) (obj FJR_CTX_OBJECT_COMMA_OR_END # st1) (put w1 ?x)) =
      closed t e (p1 + length ?x + 1) st1 (put w1 (?x @ ''}''))"
    using closer_turn [OF dx l(1) r, of st1] by (simp add: expected_closer_def)
  then show ?case using x(1) by (simp add: add_ac)
next
  case (jmembers_more k a b v c d m)
  let ?x = "k @ a @ CHR '':'' # b @ v @ c"
  obtain m' where m': "m = DQ # m'" using jvalue_start(2) [OF \<open>jmembers m\<close>] by blast
  have d: "drop p1 t = k @ a @ CHR '':'' # b @ v @ c @ CHR '','' # d @ m @ r1" using jmembers_more.prems by simp
  have v: "repair_loop t e (running q (obj FJR_CTX_OBJECT_VALUE # st1) w) =
      repair_loop t e (running (q + length v) (obj FJR_CTX_OBJECT_COMMA_OR_END # st1) (put w v))"
    if "drop q t = v @ c @ CHR '','' # d @ m @ r1" "value_stop t (q + length v) e" "room w (length v)" for q w
    using jmembers_more.IH(1) [OF that, of "obj FJR_CTX_OBJECT_VALUE # st1"] jmembers_more.prems by simp
  have l: "p1 + length ?x < e" "room w1 (length ?x)" using jmembers_more.prems by (auto simp: room_mono)
  note x = member_turns [OF d jmembers_more.hyps(1-4,5) disjI1 [OF refl] l v]
  have dx: "drop (p1 + length ?x) t = CHR '','' # d @ DQ # m' @ r1" using x(2) m' by simp
  have r: "p1 + length ?x + length d + 1 < e" "room (put w1 ?x) (length d + 1)"
    using jmembers_more.prems m' by (auto simp: room_mono add_ac)
  note y = comma_turns [OF dx \<open>jws d\<close> _ _ _ r disjI1 [OF refl], simplified]
  have "drop (p1 + length ?x + 1 + length d) t = m @ r1" using y(2) m' by simp
  note z = jmembers_more.IH(2) [OF this, of "put w1 (?x @ CHR '','' # d)" st1]
  show ?case using x(1) y(1) z jmembers_more.prems m' by (simp add: room_mono add_ac)
next
  case (jelements_last v c)
  have d: "drop p2 t = v @ c @ CHR '']'' # r2" using jelements_last.prems by simp
  have v: "repair_loop t e (running q (arr FJR_CTX_ARRAY_VALUE_OR_END # st2) w) =
      repair_loop t e (running (q + length v) (arr FJR_CTX_ARRAY_COMMA_OR_END # st2) (put w v))"
    if "drop q t = v @ c @ CHR '']'' # r2" "value_stop t (q + length v) e" "room w (length v)" for q w
    using jelements_last.IH [OF that, of "arr FJR_CTX_ARRAY_VALUE_OR_END # st2"] jelements_last.prems by simp
  have l: "p2 + length v + length c < e" "room w2 (length v + length c)" using jelements_last.prems by (auto simp: room_mono)
  note m = element_turns [OF d jelements_last.hyps disjI2 [OF refl] l v]
  show ?case
    using m closer_turn [of "p2 + length v + length c" t "arr FJR_CTX_ARRAY_COMMA_OR_END" r2 e
        "put w2 (v @ c)" st2] jelements_last.prems
    by (simp add: expected_closer_def room_mono add_ac)
next
  case (jelements_more v c d m)
  obtain y m' where m': "m = y # m'" "value_start y" using jvalue_start(3) [OF \<open>jelements m\<close>] by blast
  then have ys: "\<not> is_space y" "y \<noteq> CHR ''}''" "y \<noteq> CHR '']''" by (auto simp: value_start_def)
  have d: "drop p2 t = v @ c @ CHR '','' # d @ m @ r2" using jelements_more.prems by simp
  have v: "repair_loop t e (running q (arr FJR_CTX_ARRAY_VALUE_OR_END # st2) w) =
      repair_loop t e (running (q + length v) (arr FJR_CTX_ARRAY_COMMA_OR_END # st2) (put w v))"
    if "drop q t = v @ c @ CHR '','' # d @ m @ r2" "value_stop t (q + length v) e" "room w (length v)" for q w
    using jelements_more.IH(1) [OF that, of "arr FJR_CTX_ARRAY_VALUE_OR_END # st2"] jelements_more.prems by simp
  have l: "p2 + length v + length c < e" "room w2 (length v + length c)" using jelements_more.prems by (auto simp: room_mono)
  note x = element_turns [OF d jelements_more.hyps(1,2) disjI1 [OF refl] l v]
  have dx: "drop (p2 + length v + length c) t = CHR '','' # d @ y # m' @ r2" using x(2) m' by simp
  have r: "p2 + length v + length c + length d + 1 < e" "room (put w2 (v @ c)) (length d + 1)"
    using jelements_more.prems m' by (auto simp: room_mono add_ac)
  note z = comma_turns [OF dx \<open>jws d\<close> ys r disjI2 [OF refl], simplified]
  have "drop (p2 + length v + length c + 1 + length d) t = m @ r2" using z(2) m' by simp
  note u = jelements_more.IH(2) [OF this, of "put w2 ((v @ c) @ CHR '','' # d)" st2]
  show ?case using x(1) z(1) u jelements_more.prems m'(1) by (simp add: room_mono add_ac)
qed

section \<open>Extraction of a valid value\<close>

definition jcontainer :: "string \<Rightarrow> bool" where
  "jcontainer v \<longleftrightarrow> jvalue v \<and> is_opener (hd v)"

lemma jvalue_no_nul:
  shows "jvalue v \<Longrightarrow> no_nul v" and "jmembers m \<Longrightarrow> no_nul m" and "jelements l \<Longrightarrow> no_nul l"
proof -
  have ws: "jws w \<Longrightarrow> no_nul w" for w by (induction w) (auto simp: char_class_defs)
  have chars: "jchars w \<Longrightarrow> no_nul w" for w
    by (induction rule: jchars.induct) (auto simp: is_simple_escape_def is_xdigit_def is_digit_def byte_def is_ctrl_def)
  then have str: "jstring k \<Longrightarrow> no_nul k" for k by (auto simp: jstring_def)
  have num: "jnumber s \<Longrightarrow> no_nul s" for s
    using number_chars [of s] by (auto simp: no_nul_def list_all_iff is_number_char_def)
  show "jvalue v \<Longrightarrow> no_nul v" and "jmembers m \<Longrightarrow> no_nul m" and "jelements l \<Longrightarrow> no_nul l"
    by (induction rule: jvalue_jmembers_jelements.inducts) (auto dest: ws str num)
qed

lemma first_turn:
  assumes "p < e" and "ch_at t p = c" and "is_opener c" and "room w 1"
  shows "repair_loop t e \<lparr>rs_p = p, rs_stack = [], rs_root_started = False, rs_w = w\<rparr> = repair_loop t e (running (p + 1)
      [if c = CHR ''{'' then obj FJR_CTX_OBJECT_KEY_OR_END else arr FJR_CTX_ARRAY_VALUE_OR_END] (put w [c]))"
proof -
  let ?s = "\<lparr>rs_p = p, rs_stack = [], rs_root_started = False, rs_w = w\<rparr>"
  have "repair_step t e ?s = Step_Continue (running (p + 1)
      [if c = CHR ''{'' then obj FJR_CTX_OBJECT_KEY_OR_END else arr FJR_CTX_ARRAY_VALUE_OR_END] (put w [c]))"
    using assms by (auto simp: repair_step_def repair_token_def Let_def is_opener_def maybe_insert_missing_comma_def
        step_open_def append_char_room push_container_def FJR_STACK_MAX_def running_def)
  then show ?thesis using assms(1) by (subst repair_loop.simps) simp
qed

lemma root_container:
  assumes d: "drop p t = (c # a @ m) @ r" and c: "is_opener c" and a: "jws a"
    and e: "p + length (c # a @ m) \<le> e" and w: "room w (length (c # a @ m))"
    and body: "\<And>q w. drop q t = m @ r \<Longrightarrow> q + length m \<le> e \<Longrightarrow> room w (length m) \<Longrightarrow>
      repair_loop t e (running q [if c = CHR ''{'' then obj FJR_CTX_OBJECT_KEY_OR_END else arr FJR_CTX_ARRAY_VALUE_OR_END] w)
      = closed t e (q + length m) [] (put w m)"
  shows "repair_loop t e \<lparr>rs_p = p, rs_stack = [], rs_root_started = False, rs_w = w\<rparr> =
    Step_Break (running (p + length (c # a @ m)) [] (put w (c # a @ m)))"
proof -
  have h: "ch_at t p = c" "drop (p + 1) t = a @ m @ r" using d drop_chD [of p t c] by auto
  have dm: "drop (p + 1 + length a) t = m @ r" using h(2) by (rule drop_append_length)
  have l: "p < e" "room w 1" using e w by (auto simp: room_mono)
  show ?thesis
    using first_turn [OF l(1) h(1) c l(2)] loop_ws [OF a h(2), of e "put w [c]"] body [OF dm, of "put w (c # a)"] e w
    by (simp add: closed_def room_mono add_ac)
qed

lemma root_turns:
  assumes v: "jcontainer v" "drop p t = v @ r" and e: "p + length v \<le> e" and w: "room w (length v)"
    and n: "openers v \<le> FJR_STACK_MAX"
  shows "repair_loop t e \<lparr>rs_p = p, rs_stack = [], rs_root_started = False, rs_w = w\<rparr> =
    Step_Break (running (p + length v) [] (put w v))"
proof -
  have "jvalue v" "is_opener (hd v)" using v(1) by (auto simp: jcontainer_def)
  from this(1) show ?thesis
  proof (cases rule: jvalue.cases)
    case (jvalue_empty_object a)
    then show ?thesis using v(2) e w closer_turn [of _ t "obj FJR_CTX_OBJECT_KEY_OR_END" r e _ "[]"]
      by (simp only:, intro root_container) (auto simp: expected_closer_def)
  next
    case (jvalue_object a m)
    then show ?thesis using v(2) e w n members_turns [of m _ t r e _ "[]"]
      by (simp only:, intro root_container) auto
  next
    case (jvalue_empty_array a)
    then show ?thesis using v(2) e w closer_turn [of _ t "arr FJR_CTX_ARRAY_VALUE_OR_END" r e _ "[]"]
      by (simp only:, intro root_container) (auto simp: expected_closer_def)
  next
    case (jvalue_array a m)
    then show ?thesis using v(2) e w n elements_turns [of m _ t r e _ "[]"]
      by (simp only:, intro root_container) auto
  next
    case (jvalue_number)
    then show ?thesis using \<open>is_opener (hd v)\<close> jnumber_start [of v] by (auto simp: is_opener_def is_digit_def byte_def)
  qed (use \<open>is_opener (hd v)\<close> in \<open>auto simp: is_opener_def jstring_def\<close>)
qed

lemma candidate_valid:
  assumes "jcontainer v" and "drop p t = v @ r" and "p + length v \<le> e" and "room w (length v)"
    and "openers v \<le> FJR_STACK_MAX"
  shows "repair_candidate t p e w = Step_Break (running (p + length v) [] (put w v))"
  using root_turns [OF assms] by (simp add: repair_candidate_def)

lemma span_valid:
  fixes rep :: fjr_report
  assumes v: "jcontainer v" "drop p t = v @ r" and e: "p + length v \<le> e" and n: "openers v \<le> FJR_STACK_MAX"
    and cap: "length v < cap" and later: "list_all (\<lambda>c. \<not> is_opener c) (span t (p + length v) e)"
  defines "rep' \<equiv> if skip_ws_span t (p + length v) e < e then FJR_MARK Trimmed_Trailing_Junk rep else rep"
  shows "repair_span t p e cap rep =
    \<lparr>fo_status = (if fr_repairs rep' \<noteq> 0 then FJR_OK_REPAIRED else FJR_OK_UNCHANGED), fo_out = v, fo_out_len = length v,
     fo_report = rep'\<lparr>fr_candidate_offset := p, fr_candidate_len := length v\<rparr>\<rparr>"
proof -
  have "room \<lparr>fw_out = [], fw_cap = cap, fw_report = rep\<rparr> (length v)" using cap by (simp add: room_def)
  note c = candidate_valid [OF v e this n]
  have jv: "jvalue v" using v(1) by (simp add: jcontainer_def)
  obtain y where "json_ref_from_text v = Some y" using from_text_complete [of "[]" v "[]"] jv by auto
  moreover have "\<not> has_later_candidate t (p + length v) e"
    using later by (simp add: has_later_candidate_def list_ex_iff list_all_iff)
  ultimately show ?thesis using c jvalue_no_nul(1) [OF jv]
    by (simp add: repair_span_def Let_def rep'_def put_def)
qed

lemma trim_end_ws_stop:
  "s \<le> p \<Longrightarrow> p \<le> e \<Longrightarrow> \<not> is_space (ch_at t p) \<Longrightarrow> p < e \<Longrightarrow> p < trim_end_ws t s e"
  by (induction e) (auto simp: less_Suc_eq)

lemma container_last: "jcontainer v \<Longrightarrow> \<not> is_space (last v) \<and> v \<noteq> []"
proof -
  have "jvalue x \<Longrightarrow> True" "jmembers m \<Longrightarrow> last m = CHR ''}'' \<and> m \<noteq> []" "jelements l \<Longrightarrow> last l = CHR '']'' \<and> l \<noteq> []" for x m l
    by (induction rule: jvalue_jmembers_jelements.inducts) auto
  note ml = this
  assume "jcontainer v"
  then have "jvalue v" and o: "is_opener (hd v)" by (auto simp: jcontainer_def)
  from this(1) show ?thesis
  proof (cases rule: jvalue.cases)
    case jvalue_number
    then show ?thesis using o jnumber_start [of v] by (auto simp: is_opener_def is_digit_def byte_def)
  qed (use o ml in \<open>auto simp: is_opener_def jstring_def char_class_defs\<close>)
qed

lemma value_before_trimmed:
  assumes "jcontainer v" and "s \<le> length pre"
  shows "length pre + length v \<le> trim_end_ws (pre @ v @ post) s (length (pre @ v @ post))"
proof -
  let ?t = "pre @ v @ post" let ?p = "length pre + length v - 1"
  have v: "\<not> is_space (last v)" "v \<noteq> []" using container_last [OF assms(1)] by auto
  then have "ch_at ?t ?p = last v"
    by (cases v rule: rev_cases) (auto simp: ch_at_nth nth_append)
  moreover have "s \<le> ?p" "?p < length ?t" using v(2) assms(2) by (cases v; simp)+
  ultimately have "?p < trim_end_ws ?t s (length ?t)" using v(1) by (intro trim_end_ws_stop) auto
  then show ?thesis by linarith
qed

lemma scan_to_value:
  assumes "list_all P (drop b pre)" and "\<not> P (hd v)" and "v \<noteq> []" and "b \<le> length pre" and "length pre \<le> e"
  shows "scan_while P (pre @ v @ post) b e = length pre"
proof -
  have "ch_at (pre @ v @ post) (length pre) = hd v" using assms(3) by (cases v) (auto simp: ch_at_nth nth_append)
  then show ?thesis
    using scan_while_to [OF assms(1), of b "pre @ v @ post" "v @ post" e] assms by simp
qed

text \<open>
  A valid object or array surrounded by prose that contains no bracket is extracted
  unchanged: the output is that value byte for byte, the candidate span is its position, and
  the only flags that can be set are the two for stripped prose and trimmed trailing text. The
  hypotheses exclude texts that are accepted as they stand and texts that open with a code
  fence, bound the brackets by the stack and the value by the buffer.
\<close>

theorem repair_extracts_value:
  assumes v: "jcontainer v" "openers v \<le> 128" "length v < out_cap"
    and pre: "list_all (\<lambda>c. \<not> is_opener c) pre" and post: "list_all (\<lambda>c. \<not> is_opener c) post"
    and strict: "json_ref_from_text (cstr (pre @ v @ post)) = None"
    and fence: "\<not> is_fence (pre @ v @ post) (skip_ws_span (pre @ v @ post) 0 (length (pre @ v @ post)))"
  shows "\<exists>r. fjson_repair (pre @ v @ post) out_cap = r \<and> succeeded (fo_status r) \<and> fo_out r = v \<and>
    fo_out_len r = length v \<and> fr_candidate_offset (fo_report r) = length pre \<and>
    fr_candidate_len (fo_report r) = length v \<and>
    (\<forall>f. fr_flag (fo_report r) f \<longrightarrow> f = Stripped_Prose \<or> f = Trimmed_Trailing_Junk)"
proof -
  let ?t = "pre @ v @ post" let ?n = "length ?t"
  let ?b = "skip_ws_span ?t 0 ?n" let ?e = "trim_end_ws ?t ?b ?n"
  have o: "is_opener (hd v)" "v \<noteq> []" using v(1) container_last by (auto simp: jcontainer_def)
  have hd: "ch_at ?t (length pre) = hd v" using o(2) by (cases v) (auto simp: ch_at_nth nth_append)
  have "\<not> is_space (hd v)" using o(1) by (auto simp: is_opener_def)
  then have b: "?b \<le> length pre" using hd by (auto simp: skip_ws_span_def intro: scan_while_stop)
  have e: "length pre + length v \<le> ?e" "?e \<le> ?n"
    using value_before_trimmed [OF v(1) b, of post] trim_end_ws_bounds [of ?b ?n ?t] b by auto
  have start: "scan_while (\<lambda>c. \<not> is_opener c) ?t ?b ?e = length pre"
    using pre o b e by (intro scan_to_value) (auto simp: list_all_iff dest: in_set_dropD)
  have "set (span ?t (length pre + length v) ?e) \<subseteq> set post" by (auto simp: span_def dest: in_set_takeD)
  then have later: "list_all (\<lambda>c. \<not> is_opener c) (span ?t (length pre + length v) ?e)"
    using post by (auto simp: list_all_iff)
  let ?rep = "if skip_ws_span ?t ?b (length pre) < length pre then FJR_MARK Stripped_Prose empty_report else empty_report"
  have "openers v \<le> FJR_STACK_MAX" using v(2) by (simp add: FJR_STACK_MAX_def)
  note sv = span_valid [OF v(1) _ e(1) this v(3) later, of post ?rep, simplified]
  have lt: "length pre < ?e" using e(1) o(2) by (simp add: less_le_trans [of _ "length pre + length v"])
  have "fjson_repair ?t out_cap = repair_span ?t (length pre) ?e out_cap ?rep"
    using strict fence v(3) start lt by (simp add: fjson_repair_def strip_fence_def Let_def)
  then show ?thesis using sv by (auto simp: FJR_MARK_def empty_report_def split: if_splits)
qed

theorem repair_extracts_value_witness:
  "fo_out (fjson_repair ''x []'' 9) = ''[]''"
proof -
  have "jcontainer ''[]''" using jvalue_empty_array [of "[]"] by (simp add: jcontainer_def)
  moreover have "json_ref_from_text (cstr (''x '' @ ''[]'' @ [])) = None" by code_simp
  moreover have "\<not> is_fence (''x '' @ ''[]'' @ []) (skip_ws_span (''x '' @ ''[]'' @ []) 0 (length (''x '' @ ''[]'' @ [])))"
    by code_simp
  ultimately show ?thesis using repair_extracts_value [of "''[]''" 9 "''x ''" "[]"]
    by (simp add: openers_def is_opener_def)
qed

lemma backtick_rejected: "json_ref_from_text (CHR 0x60 # t) = None"
proof -
  let ?t = "CHR 0x60 # t"
  have s: "skip_ws ?t 0 = 0" by (subst skip_ws.simps) (simp add: char_class_defs)
  have "parse_json_value_end ?t 0 (length ?t) = None"
    by (subst parse_json_value_end.simps) (simp add: ch_at_def char_class_defs literal_end_def)
  with s show ?thesis by (simp add: json_ref_from_text_def ch_at_def)
qed

lemma last_fence_at:
  "is_fence t (e - 3) \<Longrightarrow> p + 3 \<le> e \<Longrightarrow> last_fence t p e l0 = Some (e - 3)"
proof (induction t p e l0 rule: last_fence.induct)
  case (1 t p e l0)
  show ?case
  proof (cases "p = e - 3")
    case True
    have "\<not> p + 1 + 2 < e" using True by simp
    then have "last_fence t (p + 1) e (Some p) = Some p" by (subst last_fence.simps) simp
    moreover have "p + 2 < e" using 1 by simp
    ultimately show ?thesis using 1 True by (subst last_fence.simps) simp
  next
    case False
    then show ?thesis using 1 by (subst last_fence.simps) auto
  qed
qed

abbreviation fence :: string where
  "fence \<equiv> [CHR 0x60, CHR 0x60, CHR 0x60]"

text \<open>
  A valid object or array in a Markdown code fence, whatever the info string behind the
  opening fence, is extracted unchanged, and the only repair counted is the stripped fence.
\<close>

theorem repair_strips_fence:
  assumes v: "jcontainer v" "openers v \<le> 128" "length v < out_cap" and lang: "CHR 0x0A \<notin> set lang"
  shows "\<exists>r. fjson_repair (fence @ lang @ [CHR 0x0A] @ v @ [CHR 0x0A] @ fence) out_cap = r \<and>
    fo_status r = FJR_OK_REPAIRED \<and> fo_out r = v \<and> fo_out_len r = length v \<and>
    fr_flag (fo_report r) = (\<lambda>f. f = Stripped_Fence)"
proof -
  define pre where "pre = fence @ lang @ [CHR 0x0A]"
  define t where "t = pre @ v @ [CHR 0x0A] @ fence"
  let ?n = "length t" let ?p = "length pre"
  have o: "is_opener (hd v)" "v \<noteq> []" using v(1) container_last by (auto simp: jcontainer_def)
  have hdv: "ch_at t ?p = hd v" using o(2) by (cases v) (auto simp: t_def ch_at_nth nth_append)
  have t: "t = CHR 0x60 # CHR 0x60 # CHR 0x60 # lang @ [CHR 0x0A] @ v @ [CHR 0x0A] @ fence"
    by (simp add: t_def pre_def)
  have bt: "\<not> is_space (CHR 0x60)" by (simp add: char_class_defs)
  have l: "ch_at t (?n - 1) = CHR 0x60" "is_fence t (?n - 3)" "is_fence t 0"
    by (auto simp: t_def pre_def ch_at_nth nth_append is_fence_def)
  have b: "skip_ws_span t 0 ?n = 0" 
    using bt l(3) by (simp add: skip_ws_span_def is_fence_def scan_while.simps [of is_space t 0])
  have "?n - 1 < trim_end_ws t 0 ?n" using l(1) bt by (intro trim_end_ws_stop) (auto simp: t_def)
  then have e: "trim_end_ws t 0 ?n = ?n" using trim_end_ws_bounds [of 0 ?n t] by simp
  have nl: "scan_while (\<lambda>c. c \<noteq> CHR 0x0A) t 0 ?n = length fence + length lang"
    using scan_while_to [of "\<lambda>c. c \<noteq> CHR 0x0A" "fence @ lang" 0 t "[CHR 0x0A] @ v @ [CHR 0x0A] @ fence" ?n] lang
    by (auto simp: t list_all_iff ch_at_nth nth_append)
  have lf: "last_fence t 3 ?n None = Some (?p + length v + 1)"
    using last_fence_at [OF l(2), of 3 None] o(2) by (simp add: t_def pre_def)
  have tr: "trim_end_ws t ?p (?p + length v + 1) = ?p + length v"
  proof -
    have "ch_at t (?p + length v) = CHR 0x0A" by (simp add: t_def ch_at_nth nth_append)
    moreover have "\<not> is_space (ch_at t (?p + length v - 1))"
      using container_last [OF v(1)] o(2) by (cases v rule: rev_cases) (auto simp: t_def ch_at_nth nth_append)
    ultimately show ?thesis using o(2) by (cases "?p + length v") (auto simp: char_class_defs)
  qed
  have sf: "strip_fence t 0 ?n empty_report = Some (?p, ?p + length v, FJR_MARK Stripped_Fence empty_report)"
    using l(3) nl lf tr o(2) by (simp add: strip_fence_def t_def pre_def Let_def)
  have st: "scan_while (\<lambda>c. \<not> is_opener c) t ?p (?p + length v) = ?p" "skip_ws_span t ?p ?p = ?p"
    using hdv o(1) by (simp_all add: scan_while.simps [of _ t ?p] skip_ws_span_def)
  have "fjson_repair t out_cap = repair_span t ?p (?p + length v) out_cap (FJR_MARK Stripped_Fence empty_report)"
    using b e sf st v(3) o(2) backtick_rejected by (simp add: fjson_repair_def Let_def t cstr_def)
  moreover have "openers v \<le> FJR_STACK_MAX" using v(2) by (simp add: FJR_STACK_MAX_def)
  note span_valid [OF v(1) _ le_refl this v(3), of ?p t "[CHR 0x0A] @ fence" "FJR_MARK Stripped_Fence empty_report"]
  moreover have "skip_ws_span t (?p + length v) (?p + length v) = ?p + length v"
    by (simp add: skip_ws_span_def scan_while.simps [of _ t "?p + length v"])
  ultimately have "fjson_repair t out_cap = \<lparr>fo_status = FJR_OK_REPAIRED, fo_out = v, fo_out_len = length v,
      fo_report = (FJR_MARK Stripped_Fence empty_report)\<lparr>fr_candidate_offset := ?p, fr_candidate_len := length v\<rparr>\<rparr>"
    by (simp add: t_def FJR_MARK_def empty_report_def)
  then show ?thesis by (auto simp: t_def pre_def FJR_MARK_def empty_report_def fun_eq_iff)
qed

theorem repair_strips_fence_witness:
  "fo_out (fjson_repair (fence @ ''json'' @ [CHR 0x0A] @ ''[]'' @ [CHR 0x0A] @ fence) 9) = ''[]''"
proof -
  have "jcontainer ''[]''" using jvalue_empty_array [of "[]"] by (simp add: jcontainer_def)
  from repair_strips_fence [OF this, of 9 "''json''"] show ?thesis by (auto simp: openers_def is_opener_def)
qed

end
