(* ===== verification/Reconnect_Backoff.thy ===== *)
theory Reconnect_Backoff
  imports Prelude
begin

text \<open>
  The reconnect delay policy of \<open>runtime/support/reconnect_backoff.c\<close>: exponential backoff
  with deterministic jitter. Every integer has its C width (\<open>unsigned\<close> is 32 bits), so the
  shifts and products wrap as they do in the code.
\<close>

unbundle bit_operations_syntax

section \<open>State and operations\<close>

definition FC_RECONNECT_BASE_MS :: "64 word" where
  "FC_RECONNECT_BASE_MS = 1000"

definition FC_RECONNECT_CAP_MS :: "64 word" where
  "FC_RECONNECT_CAP_MS = 300000"

definition FC_RECONNECT_STABLE_MS :: "64 word" where
  "FC_RECONNECT_STABLE_MS = 60000"

definition UINT_MAX :: "32 word" where
  "UINT_MAX = 0xFFFFFFFF"

record reconnect_backoff =
  rb_attempt :: "32 word"
  rb_random_state :: "32 word"
  rb_stable_since_ms :: "64 word"
  rb_connected :: bool

record reconnect_delay =
  rd_attempt :: "32 word"
  rd_delay_ms :: "64 word"

fun identity_hash :: "32 word \<Rightarrow> string \<Rightarrow> 32 word" where
  "identity_hash hash [] = hash"
| "identity_hash hash (c # cs) = identity_hash ((hash XOR of_nat (byte c)) * 16777619) cs"

definition identity_seed :: "string \<Rightarrow> 32 word" where
  "identity_seed identity =
     (let hash = identity_hash 2166136261 identity in if hash \<noteq> 0 then hash else 0x9e3779b9)"

definition xorshift :: "32 word \<Rightarrow> 32 word" where
  "xorshift x0 =
     (let x1 = x0 XOR push_bit 13 x0; x2 = x1 XOR drop_bit 17 x1 in x2 XOR push_bit 5 x2)"

definition next_random :: "reconnect_backoff \<Rightarrow> 32 word \<times> reconnect_backoff" where
  "next_random b =
     (let x = xorshift (if rb_random_state b = 0 then 0x9e3779b9 else rb_random_state b)
      in (x, b\<lparr>rb_random_state := x\<rparr>))"

text \<open>The loop of \<open>nominal_delay\<close>, with the turns left as its recursion argument.\<close>

fun nominal_loop :: "nat \<Rightarrow> 64 word \<Rightarrow> 64 word" where
  "nominal_loop 0 delay = delay"
| "nominal_loop (Suc left) delay =
     (if \<not> delay < FC_RECONNECT_CAP_MS then delay
      else if delay > FC_RECONNECT_CAP_MS div 2 then FC_RECONNECT_CAP_MS
      else nominal_loop left (delay * 2))"

definition nominal_delay :: "32 word \<Rightarrow> 64 word" where
  "nominal_delay attempt =
     (let delay = nominal_loop (unat attempt - 1) FC_RECONNECT_BASE_MS
      in if delay > FC_RECONNECT_CAP_MS then FC_RECONNECT_CAP_MS else delay)"

definition fc_reconnect_backoff_init :: "string \<Rightarrow> reconnect_backoff" where
  "fc_reconnect_backoff_init identity =
     \<lparr>rb_attempt = 0, rb_random_state = identity_seed identity, rb_stable_since_ms = 0, rb_connected = False\<rparr>"

definition fc_reconnect_backoff_mark_connected :: "reconnect_backoff \<Rightarrow> 64 word \<Rightarrow> reconnect_backoff" where
  "fc_reconnect_backoff_mark_connected b now_ms =
     (if rb_connected b then b else b\<lparr>rb_connected := True, rb_stable_since_ms := now_ms\<rparr>)"

definition fc_reconnect_backoff_maybe_reset :: "reconnect_backoff \<Rightarrow> 64 word \<Rightarrow> bool \<times> reconnect_backoff" where
  "fc_reconnect_backoff_maybe_reset b now_ms =
     (if \<not> rb_connected b \<or> now_ms < rb_stable_since_ms b \<or>
         now_ms - rb_stable_since_ms b < FC_RECONNECT_STABLE_MS then (False, b)
      else (True, b\<lparr>rb_attempt := 0, rb_stable_since_ms := now_ms\<rparr>))"

definition fc_reconnect_backoff_next :: "reconnect_backoff \<Rightarrow> 64 word \<Rightarrow> reconnect_delay \<times> reconnect_backoff" where
  "fc_reconnect_backoff_next b0 now_ms =
     (let b1 = snd (fc_reconnect_backoff_maybe_reset b0 now_ms);
          b2 = b1\<lparr>rb_connected := False, rb_stable_since_ms := 0\<rparr>;
          b3 = (if rb_attempt b2 < UINT_MAX then b2\<lparr>rb_attempt := rb_attempt b2 + 1\<rparr> else b2);
          nominal = nominal_delay (rb_attempt b3);
          spread = nominal div 5;
          width = spread * 2 + 1;
          (x, b4) = next_random b3;
          jittered = nominal - spread + (ucast x :: 64 word) mod width
      in (\<lparr>rd_attempt = rb_attempt b3,
           rd_delay_ms = (if jittered > FC_RECONNECT_CAP_MS then FC_RECONNECT_CAP_MS else jittered)\<rparr>, b4))"

section \<open>The delay\<close>

text \<open>What the delay is before jitter: the base doubled for each further attempt, capped.\<close>

definition backoff_spec :: "nat \<Rightarrow> nat" where
  "backoff_spec attempt = min 300000 (1000 * 2 ^ (attempt - 1))"

lemma reconnect_consts [simp]:
  "unat FC_RECONNECT_BASE_MS = 1000" "unat FC_RECONNECT_CAP_MS = 300000"
  "unat (FC_RECONNECT_CAP_MS div 2) = 150000"
  by (simp_all add: FC_RECONNECT_BASE_MS_def FC_RECONNECT_CAP_MS_def)

lemma nominal_loop_spec:
  "0 < unat d \<Longrightarrow> unat d \<le> 300000 \<Longrightarrow> unat (nominal_loop n d) = min 300000 (unat d * 2 ^ n)"
proof (induction n arbitrary: d)
  case (Suc n)
  have pw: "(1 :: nat) \<le> 2 ^ n" by simp
  consider "unat d = 300000" | "150000 < unat d" "unat d < 300000" | "unat d \<le> 150000" using Suc.prems by linarith
  then show ?case
  proof cases
    case 1
    then show ?thesis using pw by (simp add: word_less_nat_alt)
  next
    case 2
    have "300000 \<le> unat d * 2 ^ Suc n" using 2 pw mult_le_mono [of 150000 "unat d" 2 "2 ^ Suc n"] by simp
    then show ?thesis using 2 by (simp add: word_less_nat_alt)
  next
    case 3
    have "unat (d * 2) = unat d * 2" using 3 by (subst unat_mult_lem [THEN iffD1]) simp_all
    then show ?thesis using 3 Suc.IH [of "d * 2"] Suc.prems by (simp add: word_less_nat_alt mult.assoc)
  qed
qed simp

lemma nominal_delay_spec: "unat (nominal_delay a) = backoff_spec (unat a)"
  using nominal_loop_spec [of FC_RECONNECT_BASE_MS "unat a - 1"]
  by (simp add: nominal_delay_def backoff_spec_def Let_def word_less_nat_alt)

lemma backoff_spec_bounds: "1000 \<le> backoff_spec n \<and> backoff_spec n \<le> 300000"
  by (simp add: backoff_spec_def)

text \<open>Attempts never wrap: the counter stays at its maximum.\<close>

definition next_attempt :: "reconnect_backoff \<Rightarrow> 64 word \<Rightarrow> nat" where
  "next_attempt b now_ms =
     min (unat UINT_MAX) (Suc (if fst (fc_reconnect_backoff_maybe_reset b now_ms) then 0 else unat (rb_attempt b)))"

lemma attempt_counts:
  fixes b :: reconnect_backoff and now_ms :: "64 word"
  defines "c \<equiv> rb_attempt (snd (fc_reconnect_backoff_maybe_reset b now_ms))"
  shows "unat (if c < UINT_MAX then c + 1 else c) = next_attempt b now_ms"
proof -
  have c: "unat c = (if fst (fc_reconnect_backoff_maybe_reset b now_ms) then 0 else unat (rb_attempt b))"
    by (simp add: c_def fc_reconnect_backoff_maybe_reset_def)
  show ?thesis
  proof (cases "c < UINT_MAX")
    case True
    then have "unat (c + 1) = Suc (unat c)"
      by (subst unat_add_lem [THEN iffD1]) (simp_all add: word_less_nat_alt UINT_MAX_def)
    then show ?thesis using True c by (auto simp: next_attempt_def word_less_nat_alt)
  next
    case False
    moreover have "unat c < 2 ^ 32" using unsigned_less [of c, where ?'a = nat] by simp
    ultimately show ?thesis using c by (auto simp: next_attempt_def word_less_nat_alt UINT_MAX_def)
  qed
qed

text \<open>
  The delay before reconnect attempt \<open>n\<close> is within 20 percent of the capped exponential
  \<open>1000 * 2 ^ (n - 1)\<close> and never exceeds five minutes, jitter included; the attempt number is the
  previous one plus one without wrapping, starting over after a stable connection. It holds for
  every state and time.
\<close>

theorem reconnect_delay_bounds:
  "case fc_reconnect_backoff_next b now_ms of (d, b') \<Rightarrow>
     unat (rd_attempt d) = next_attempt b now_ms \<and> rb_attempt b' = rd_attempt d \<and>
     (let n = backoff_spec (unat (rd_attempt d)) in
        n - n div 5 \<le> unat (rd_delay_ms d) \<and> unat (rd_delay_ms d) \<le> min 300000 (n + n div 5)) \<and>
     \<not> rb_connected b'"
proof -
  let ?b1 = "snd (fc_reconnect_backoff_maybe_reset b now_ms)"
  define a where "a = (if rb_attempt ?b1 < UINT_MAX then rb_attempt ?b1 + 1 else rb_attempt ?b1)"
  define n where "n = nominal_delay a"
  define x where "x = (ucast (xorshift (if rb_random_state ?b1 = 0 then 0x9e3779b9 else rb_random_state ?b1)) :: 64 word)"
  define j where "j = n - n div 5 + x mod (n div 5 * 2 + 1)"
  have un: "unat n = backoff_spec (unat a)" by (simp add: n_def nominal_delay_spec)
  then have nb: "1000 \<le> unat n" "unat n \<le> 300000" using backoff_spec_bounds by auto
  have sp: "unat (n div 5) = unat n div 5" by (simp add: unat_div)
  have "unat (n div 5 * 2) = unat n div 5 * 2" using sp nb by (subst unat_mult_lem [THEN iffD1]) simp_all
  then have wd: "unat (n div 5 * 2 + 1) = unat n div 5 * 2 + 1" using nb by (subst unat_add_lem [THEN iffD1]) simp_all
  have md: "unat (x mod (n div 5 * 2 + 1)) \<le> unat n div 5 * 2"
    using wd mod_less_divisor [of "unat n div 5 * 2 + 1" "unat x"] by (simp add: unat_mod)
  have df: "unat (n - n div 5) = unat n - unat n div 5" using sp by (subst unat_sub) (simp_all add: word_le_nat_alt)
  have uj: "unat j = unat n - unat n div 5 + unat (x mod (n div 5 * 2 + 1))"
    unfolding j_def using df md nb by (subst unat_add_lem [THEN iffD1]) simp_all
  have ua: "unat a = next_attempt b now_ms" unfolding a_def by (rule attempt_counts)
  have nx: "fc_reconnect_backoff_next b now_ms = (\<lparr>rd_attempt = a, rd_delay_ms = (if j > FC_RECONNECT_CAP_MS then FC_RECONNECT_CAP_MS else j)\<rparr>, b')
     \<and> rb_attempt b' = a \<and> \<not> rb_connected b'"
    if "b' = snd (fc_reconnect_backoff_next b now_ms)" for b'
    using that by (simp add: fc_reconnect_backoff_next_def next_random_def Let_def a_def n_def j_def x_def)
  show ?thesis using nx [OF refl] ua uj un md nb by (auto simp: Let_def word_less_nat_alt)
qed

section \<open>The jitter source\<close>

lemma shifted_self_zero:
  fixes x :: "'a::len word"
  assumes "0 < n"
  shows "x = push_bit n x \<Longrightarrow> x = 0" and "x = drop_bit n x \<Longrightarrow> x = 0"
proof -
  assume l: "x = push_bit n x"
  have "\<not> bit x i" for i
  proof (induction i rule: less_induct)
    case (less i)
    have "bit x i \<longleftrightarrow> bit (push_bit n x) i" using l by simp
    then show ?case using less assms by (auto simp: bit_push_bit_iff)
  qed
  then show "x = 0" by (intro bit_eqI) simp
next
  assume r: "x = drop_bit n x"
  have "bit x i \<longleftrightarrow> bit x (i + n * m)" for i m
  proof (induction m arbitrary: i)
    case (Suc m)
    have "bit x (i + n * m) \<longleftrightarrow> bit (drop_bit n x) (i + n * m)" using r by simp
    then show ?case using Suc by (simp add: bit_drop_bit_eq add_ac)
  qed simp
  then have "\<not> bit x i" for i
  proof -
    have "LENGTH('a) \<le> i + n * LENGTH('a)" using assms by (cases n) auto
    then have "\<not> bit x (i + n * LENGTH('a))" using bit_imp_le_length by fastforce
    then show ?thesis using \<open>\<And>i m. bit x i \<longleftrightarrow> bit x (i + n * m)\<close> by blast
  qed
  then show "x = 0" by (intro bit_eqI) simp
qed

lemma xor_zero_iff: "x XOR y = 0 \<longleftrightarrow> x = y" for x y :: "'a::len word"
  by (metis xor.assoc xor_self_eq xor.right_neutral xor.left_neutral)

text \<open>
  The generator never gets stuck: from any state, also after wrap-around, the next random
  value is not zero, so the substitute seed is used at most once; and a freshly initialised
  state is already non-zero.
\<close>

theorem random_never_zero:
  "fst (next_random b) \<noteq> 0 \<and> rb_random_state (snd (next_random b)) = fst (next_random b) \<and>
     rb_random_state (fc_reconnect_backoff_init identity) \<noteq> 0"
proof -
  have l: "y XOR push_bit n y \<noteq> 0" and r: "y XOR drop_bit n y \<noteq> 0" if "y \<noteq> 0" "0 < n" for y :: "32 word" and n
    using that shifted_self_zero [of n y] unfolding xor_zero_iff by auto
  have "xorshift x \<noteq> 0" if "x \<noteq> 0" for x
    unfolding xorshift_def Let_def by (intro l r that) simp_all
  then show ?thesis by (simp add: next_random_def Let_def fc_reconnect_backoff_init_def identity_seed_def)
qed

section \<open>Resets\<close>

text \<open>
  The reset is an edge: once it fired, it does not fire again before the connection has been
  stable for another full interval.
\<close>

lemma reset_is_edge:
  assumes "fc_reconnect_backoff_maybe_reset b now1 = (True, b')" and "now1 \<le> now2"
    and "now2 - now1 < FC_RECONNECT_STABLE_MS"
  shows "fc_reconnect_backoff_maybe_reset b' now2 = (False, b')" and "rb_attempt b' = 0"
  using assms by (auto simp: fc_reconnect_backoff_maybe_reset_def split: if_splits)

end
