(* ===== verification/Http1.thy ===== *)
theory Http1
  imports C_Text
begin

text \<open>
  The HTTP/1.1 request builder and response reader of \<open>runtime/support/http1.c\<close>. The receive
  buffer is the string of its \<open>len\<close> bytes; a missing body buffer is a capacity of 0. The reader
  is called again with a longer buffer until the response is complete, so its results are
  \<open>Http_Need_More\<close>, \<open>Http_Done\<close> and \<open>Http_Bad\<close> with the reason the code puts into \<open>out->error\<close>.
  Sizes are natural numbers: every sz the code adds is bounded by a buffer that exists.
\<close>

section \<open>Head and headers\<close>

definition HTTP1_HEAD_MAX :: nat where
  "HTTP1_HEAD_MAX = 16384"

definition HTTP1_CHUNK_LINE_MAX :: nat where
  "HTTP1_CHUNK_LINE_MAX = 64"

abbreviation CR :: char where
  "CR \<equiv> CHR 0x0D"

abbreviation LF :: char where
  "LF \<equiv> CHR 0x0A"

abbreviation HT :: char where
  "HT \<equiv> CHR 0x09"

definition blank_at :: "string \<Rightarrow> nat \<Rightarrow> bool" where
  "blank_at buf i \<longleftrightarrow> ch_at buf i = CR \<and> ch_at buf (i + 1) = LF \<and> ch_at buf (i + 2) = CR \<and> ch_at buf (i + 3) = LF"

text \<open>The offset just past the first blank line, 0 when there is none yet.\<close>

function head_end_from :: "string \<Rightarrow> nat \<Rightarrow> nat" where
  "head_end_from buf i =
     (if i + 3 < length buf then (if blank_at buf i then i + 4 else head_end_from buf (i + 1)) else 0)"
  by pat_completeness auto
termination by (relation "measure (\<lambda>(buf, i). length buf - i)") auto

declare head_end_from.simps [simp del]

definition head_end :: "string \<Rightarrow> nat" where
  "head_end buf = head_end_from buf 0"

definition ci_equal :: "string \<Rightarrow> string \<Rightarrow> bool" where
  "ci_equal a b \<longleftrightarrow> length a = length b \<and> list_all2 (\<lambda>x y. to_lower x = to_lower y) a b"

text \<open>The trimmed value of a header line, from behind the colon to the line feed.\<close>

definition trim_value :: "string \<Rightarrow> string" where
  "trim_value v =
     rev (dropWhile (\<lambda>c. c = CR \<or> c = CHR '' '' \<or> c = HT) (rev (dropWhile (\<lambda>c. c = CHR '' '' \<or> c = HT) v)))"

text \<open>
  The header walk: the callback gets the name and value spans and its state, and says
  whether to stop.
\<close>

function header_loop ::
  "(string \<Rightarrow> string \<Rightarrow> 's \<Rightarrow> 's \<times> bool) \<Rightarrow> string \<Rightarrow> nat \<Rightarrow> nat \<Rightarrow> 's \<Rightarrow> 's" where
  "header_loop fn t p e s =
     (if p < e then
        (case memchr t LF p e of
           None \<Rightarrow> s
         | Some line_end \<Rightarrow>
             if line_end = p \<or> (line_end = p + 1 \<and> ch_at t p = CR) then s
             else
               (case memchr t (CHR '':'') p line_end of
                  None \<Rightarrow> header_loop fn t (line_end + 1) e s
                | Some colon \<Rightarrow>
                    (case fn (span t p colon) (trim_value (span t (colon + 1) line_end)) s of
                       (s', stop) \<Rightarrow> if stop then s' else header_loop fn t (line_end + 1) e s')))
      else s)"
  by pat_completeness auto
termination
  by (relation "measure (\<lambda>(fn, t, p, e, s). e - p)") (auto dest!: memchr_bounds intro!: diff_less_mono2)

declare header_loop.simps [simp del]

definition for_each_header ::
  "(string \<Rightarrow> string \<Rightarrow> 's \<Rightarrow> 's \<times> bool) \<Rightarrow> string \<Rightarrow> nat \<Rightarrow> 's \<Rightarrow> 's option" where
  "for_each_header fn t head_len s =
     (case memchr t LF 0 head_len of
        None \<Rightarrow> None
      | Some line_end \<Rightarrow> Some (header_loop fn t (line_end + 1) head_len s))"

definition lookup_header :: "string \<Rightarrow> nat \<Rightarrow> string \<Rightarrow> string \<Rightarrow> string option \<Rightarrow> string option \<times> bool" where
  "lookup_header want out_cap name v s =
     (if \<not> ci_equal name want then (s, False)
      else if length v + 1 > out_cap then (s, True)
      else (Some v, True))"

definition fc_http1_header :: "string \<Rightarrow> string \<Rightarrow> nat \<Rightarrow> string option" where
  "fc_http1_header buf name out_cap =
     (if out_cap = 0 then None
      else
        (let head_len = head_end buf in
         if head_len = 0 then None
         else
           (case for_each_header (lookup_header name out_cap) buf head_len None of
              None \<Rightarrow> None
            | Some found \<Rightarrow> found)))"

section \<open>Framing\<close>

record head_info =
  hi_content_length :: "nat option"
  hi_chunked :: bool
  hi_close_requested :: bool
  hi_bad :: bool

text \<open>The digits of a Content-Length value; \<open>None\<close> for a bad value.\<close>

fun content_length_loop :: "nat \<Rightarrow> string \<Rightarrow> nat option" where
  "content_length_loop n [] = Some n"
| "content_length_loop n (c # cs) =
     (if \<not> is_digit c then None
      else
        (let n' = n * 10 + (byte c - 48) in
         if n' > HTTP1_HEAD_MAX * 1024 then None else content_length_loop n' cs))"

definition scan_head :: "string \<Rightarrow> string \<Rightarrow> head_info \<Rightarrow> head_info \<times> bool" where
  "scan_head name v h =
     (if ci_equal name ''content-length'' then
        (if v = [] then (h\<lparr>hi_bad := True\<rparr>, True)
         else
           (case content_length_loop 0 v of
              None \<Rightarrow> (h\<lparr>hi_bad := True\<rparr>, True)
            | Some n \<Rightarrow> (h\<lparr>hi_content_length := Some n\<rparr>, False)))
      else if ci_equal name ''transfer-encoding'' then
        (if length v \<ge> 7 \<and> ci_equal (drop (length v - 7) v) ''chunked''
         then (h\<lparr>hi_chunked := True\<rparr>, False) else (h\<lparr>hi_bad := True\<rparr>, False))
      else if ci_equal name ''connection'' then
        (if length v = 5 \<and> ci_equal v ''close'' then (h\<lparr>hi_close_requested := True\<rparr>, False) else (h, False))
      else (h, False))"

text \<open>Chunked bodies. \<open>Chunk_Done\<close> carries the decoded body and the offset behind it.\<close>

datatype chunk_result = Chunk_Need_More | Chunk_Bad string | Chunk_Done string nat

definition hex_digit :: "char \<Rightarrow> nat option" where
  "hex_digit c =
     (if 48 \<le> byte c \<and> byte c \<le> 57 then Some (byte c - 48)
      else if 97 \<le> byte c \<and> byte c \<le> 102 then Some (10 + (byte c - 97))
      else if 65 \<le> byte c \<and> byte c \<le> 70 then Some (10 + (byte c - 65))
      else None)"

fun chunk_size_loop :: "nat \<Rightarrow> nat \<Rightarrow> nat \<Rightarrow> string \<Rightarrow> string + nat" where
  "chunk_size_loop body_cap sz digits [] = (if digits = 0 then Inl ''empty chunk size'' else Inr sz)"
| "chunk_size_loop body_cap sz digits (d # ds) =
     (if d = CHR '';'' \<or> d = CR then (if digits = 0 then Inl ''empty chunk size'' else Inr sz)
      else
        (case hex_digit d of
           None \<Rightarrow> Inl ''malformed chunk size''
         | Some v \<Rightarrow>
             (let sz' = sz * 16 + v in
              if sz' > body_cap + 1 then Inl ''chunked body exceeds cap''
              else chunk_size_loop body_cap sz' (digits + 1) ds)))"

function trailer_loop :: "string \<Rightarrow> nat \<Rightarrow> nat \<Rightarrow> nat option" where
  "trailer_loop t p e =
     (case memchr t LF p e of
        None \<Rightarrow> None
      | Some q \<Rightarrow> if q = p \<or> (q = p + 1 \<and> ch_at t p = CR) then Some (q + 1) else trailer_loop t (q + 1) e)"
  by pat_completeness auto
termination
  by (relation "measure (\<lambda>(t, p, e). e - p)") (auto dest!: memchr_bounds intro!: diff_less_mono2)

declare trailer_loop.simps [simp del]

function decode_chunked_from :: "string \<Rightarrow> nat \<Rightarrow> nat \<Rightarrow> nat \<Rightarrow> string \<Rightarrow> chunk_result" where
  "decode_chunked_from t p e body_cap body =
     (case memchr t LF p e of
        None \<Rightarrow> Chunk_Need_More
      | Some line_end \<Rightarrow>
          if line_end - p > HTTP1_CHUNK_LINE_MAX then Chunk_Bad ''chunk size line too long''
          else
            (case chunk_size_loop body_cap 0 0 (span t p line_end) of
               Inl reason \<Rightarrow> Chunk_Bad reason
             | Inr sz \<Rightarrow>
                 (let p1 = line_end + 1 in
                  if sz = 0 then
                    (case trailer_loop t p1 e of None \<Rightarrow> Chunk_Need_More | Some q \<Rightarrow> Chunk_Done body q)
                  else if e - p1 < sz + 2 then Chunk_Need_More
                  else if length body + sz > body_cap then Chunk_Bad ''chunked body exceeds cap''
                  else
                    (let p2 = p1 + sz in
                     if p2 + 1 \<ge> e \<or> ch_at t p2 \<noteq> CR \<or> ch_at t (p2 + 1) \<noteq> LF then
                       (if e - p2 < 2 then Chunk_Need_More else Chunk_Bad ''missing chunk terminator'')
                     else decode_chunked_from t (p2 + 2) e body_cap (body @ span t p1 p2)))))"
  by pat_completeness auto
termination
  by (relation "measure (\<lambda>(t, p, e, body_cap, body). e - p)") (auto dest!: memchr_bounds intro!: diff_less_mono2)

declare decode_chunked_from.simps [simp del]

definition decode_chunked :: "string \<Rightarrow> nat \<Rightarrow> nat \<Rightarrow> nat \<Rightarrow> chunk_result" where
  "decode_chunked t p e body_cap = decode_chunked_from t p e body_cap []"

section \<open>Responses\<close>

record http1_response =
  hr_status :: nat
  hr_keep_alive :: bool
  hr_body :: string
  hr_consumed :: nat

datatype http1_result = Http_Need_More "http1_response option" | Http_Done http1_response | Http_Bad string

definition status_code :: "string \<Rightarrow> string + nat" where
  "status_code buf =
     (if length buf < 12 \<or> take 7 buf \<noteq> ''HTTP/1.'' \<or> (ch_at buf 7 \<noteq> CHR ''0'' \<and> ch_at buf 7 \<noteq> CHR ''1'') \<or>
         ch_at buf 8 \<noteq> CHR '' '' then Inl ''not an HTTP/1.x status line''
      else if \<not> (is_digit (ch_at buf 9) \<and> is_digit (ch_at buf 10) \<and> is_digit (ch_at buf 11))
        then Inl ''malformed status code''
      else Inr ((byte (ch_at buf 9) - 48) * 100 + (byte (ch_at buf 10) - 48) * 10 + (byte (ch_at buf 11) - 48)))"

definition bodyless :: "nat \<Rightarrow> bool" where
  "bodyless st \<longleftrightarrow> st = 204 \<or> st = 304 \<or> (100 \<le> st \<and> st < 200)"

text \<open>
  The body of a response whose head is complete. A response without a framing header runs to
  the close of the connection: the code reports \<open>FC_HTTP1_NEED_MORE\<close> and fills the body with
  what has arrived, which is the \<open>Some\<close> of \<open>Http_Need_More\<close>.
\<close>

definition response_body :: "string \<Rightarrow> nat \<Rightarrow> nat \<Rightarrow> head_info \<Rightarrow> nat \<Rightarrow> bool \<Rightarrow> http1_result" where
  "response_body buf head_len body_cap info st keep =
     (let avail = length buf - head_len in
      if bodyless st then
        Http_Done \<lparr>hr_status = st, hr_keep_alive = keep, hr_body = [], hr_consumed = head_len\<rparr>
      else if hi_chunked info then
        (if body_cap = 0 then Http_Bad ''no body buffer''
         else
           (case decode_chunked buf head_len (length buf) (body_cap - 1) of
              Chunk_Bad reason \<Rightarrow> Http_Bad reason
            | Chunk_Need_More \<Rightarrow> Http_Need_More None
            | Chunk_Done body q \<Rightarrow>
                Http_Done \<lparr>hr_status = st, hr_keep_alive = keep, hr_body = body, hr_consumed = q\<rparr>))
      else
        (case hi_content_length info of
           Some want \<Rightarrow>
             (if body_cap = 0 then Http_Bad ''no body buffer''
              else if want + 1 > body_cap then Http_Bad ''body exceeds cap''
              else if avail < want then Http_Need_More None
              else Http_Done \<lparr>hr_status = st, hr_keep_alive = keep,
                hr_body = span buf head_len (head_len + want), hr_consumed = head_len + want\<rparr>)
         | None \<Rightarrow>
             (if body_cap = 0 then Http_Bad ''no body buffer''
              else if avail + 1 > body_cap then Http_Bad ''body exceeds cap''
              else Http_Need_More (Some \<lparr>hr_status = st, hr_keep_alive = False,
                hr_body = drop head_len buf, hr_consumed = length buf\<rparr>))))"

definition no_info :: head_info where
  "no_info = \<lparr>hi_content_length = None, hi_chunked = False, hi_close_requested = False, hi_bad = False\<rparr>"

definition fc_http1_parse_response :: "string \<Rightarrow> nat \<Rightarrow> http1_result" where
  "fc_http1_parse_response buf body_cap =
     (let head_len = head_end buf in
      if length buf > HTTP1_HEAD_MAX \<and> head_len = 0 then Http_Bad ''response head exceeds bound''
      else if head_len = 0 then Http_Need_More None
      else
        (case status_code buf of
           Inl reason \<Rightarrow> Http_Bad reason
         | Inr st \<Rightarrow>
             (let info = (case for_each_header scan_head buf head_len no_info of None \<Rightarrow> no_info | Some h \<Rightarrow> h) in
              if hi_bad info then Http_Bad ''unsupported or malformed framing header''
              else
                response_body buf head_len body_cap info st
                  (\<not> (ch_at buf 7 = CHR ''0'' \<or> hi_close_requested info)))))"

section \<open>Requests\<close>

text \<open>\<open>NULL\<close> arguments are \<open>None\<close>; the result is the text written and whether all of it fitted.\<close>

definition CRLF :: string where
  "CRLF = [CR, LF]"

definition fc_http1_build_request ::
  "nat \<Rightarrow> string \<Rightarrow> string \<Rightarrow> string \<Rightarrow> string option \<Rightarrow> string option \<Rightarrow> string option \<Rightarrow> string option \<Rightarrow> string option" where
  "fc_http1_build_request out_cap meth path host user_agent extra_headers content_type body =
     (if out_cap = 0 then None
      else
        (let length_header = (case body of None \<Rightarrow> [] | Some b \<Rightarrow> ''Content-Length: '' @ show_nat (length b) @ CRLF);
             type_header = (case body of None \<Rightarrow> []
               | Some _ \<Rightarrow> (case content_type of None \<Rightarrow> [] | Some ct \<Rightarrow> ''Content-Type: '' @ ct @ CRLF));
             text = meth @ '' '' @ path @ '' HTTP/1.1'' @ CRLF @
               ''Host: '' @ host @ CRLF @
               ''User-Agent: '' @ (case user_agent of None \<Rightarrow> ''floofclaw''
                  | Some ua \<Rightarrow> if ua = [] then ''floofclaw'' else ua) @ CRLF @
               ''Accept: */*'' @ CRLF @
               (case extra_headers of None \<Rightarrow> [] | Some h \<Rightarrow> h) @ type_header @ length_header @ CRLF @
               (case body of None \<Rightarrow> [] | Some b \<Rightarrow> b)
         in if length length_header \<ge> 64 \<or> length type_header \<ge> 128 \<or> length text \<ge> out_cap then None
            else Some text))"

end
