(* ===== verification/Http1_Laws.thy ===== *)
theory Http1_Laws
  imports Http1
begin

text \<open>
  Laws of the HTTP reader: results are stable when more bytes arrive, bodies stay inside their
  buffer, and decoding a chunked stream gives back the chunks.
\<close>

section \<open>More input does not change what was read\<close>

lemma ch_at_append: "p < length t \<Longrightarrow> ch_at (t @ x) p = ch_at t p"
  by (simp add: ch_at_nth nth_append)

lemma scan_while_append: "e \<le> length t \<Longrightarrow> scan_while P (t @ x) p e = scan_while P t p e"
proof (induction P t p e rule: scan_while.induct)
  case (1 P t p e)
  then show ?case by (subst (1 2) scan_while.simps) (auto simp: ch_at_append)
qed

lemma scan_while_mono: "scan_while P t p e < e \<Longrightarrow> e \<le> e' \<Longrightarrow> scan_while P t p e' = scan_while P t p e"
proof (induction P t p e rule: scan_while.induct)
  case (1 P t p e)
  then show ?case
    by (subst (asm) (1) scan_while.simps, subst (1 2) scan_while.simps) (auto split: if_splits simp: scan_while.simps [of P t p e])
qed

lemma memchr_append: "e \<le> length t \<Longrightarrow> memchr (t @ x) c p e = memchr t c p e"
  by (simp add: memchr_def scan_while_append)

lemma memchr_grow: "memchr t c p (length t) = Some q \<Longrightarrow> memchr (t @ x) c p (length (t @ x)) = Some q"
  using scan_while_mono [of "\<lambda>y. y \<noteq> c" "t @ x" p "length t" "length (t @ x)"]
  by (auto simp: memchr_def Let_def scan_while_append split: if_splits)

lemma span_append_text: "q \<le> length t \<Longrightarrow> span (t @ x) p q = span t p q"
  by (simp add: span_def)

lemma header_loop_append: "e \<le> length t \<Longrightarrow> header_loop fn (t @ x) p e s = header_loop fn t p e s"
proof (induction fn t p e s rule: header_loop.induct)
  case (1 fn t p e s)
  note m = memchr_append [OF "1.prems", of x]
  show ?case
  proof (cases "memchr t LF p e")
    case (Some q)
    then have q: "p \<le> q" "q < e" by (auto dest: memchr_bounds)
    then have "memchr (t @ x) (CHR '':'') p q = memchr t (CHR '':'') p q" using "1.prems" by (intro memchr_append) simp
    moreover have "memchr t (CHR '':'') p q = Some c \<Longrightarrow> span (t @ x) p c = span t p c \<and> span (t @ x) (c + 1) q = span t (c + 1) q" for c
      using q "1.prems" by (auto simp: span_append_text dest!: memchr_bounds)
    moreover have "p < e \<Longrightarrow> ch_at (t @ x) p = ch_at t p" using "1.prems" by (simp add: ch_at_append)
    ultimately show ?thesis using Some "1.IH" "1.prems" m
      by (subst (1 2) header_loop.simps) (auto split: option.splits prod.splits)
  qed (use m in \<open>simp add: header_loop.simps [of _ _ p]\<close>)
qed

lemma head_end_from_bounds: "head_end_from t i = h \<Longrightarrow> 0 < h \<Longrightarrow> i < h \<and> h \<le> length t"
  by (induction t i rule: head_end_from.induct) (subst (asm) (2) head_end_from.simps, auto split: if_splits)

lemma head_end_from_append:
  "0 < head_end_from t i \<Longrightarrow> head_end_from (t @ x) i = head_end_from t i"
proof (induction t i rule: head_end_from.induct)
  case (1 t i)
  have "i + 3 < length t \<Longrightarrow> blank_at (t @ x) i = blank_at t i" by (simp add: blank_at_def ch_at_append)
  then show ?case using 1 by (subst (asm) (2) head_end_from.simps, subst (1 2) head_end_from.simps) (auto split: if_splits)
qed

lemma trailer_loop_grow:
  "trailer_loop t p (length t) = Some q \<Longrightarrow> trailer_loop (t @ x) p (length (t @ x)) = Some q \<and> p < q \<and> q \<le> length t"
proof (induction t p "length t" rule: trailer_loop.induct)
  case (1 t p)
  obtain r where r: "memchr t LF p (length t) = Some r" using "1.prems"
    by (subst (asm) trailer_loop.simps) (auto split: option.splits)
  have b: "p \<le> r" "r < length t" using memchr_bounds [OF r] by auto
  have "ch_at (t @ x) p = ch_at t p" using b by (simp add: ch_at_append)
  then show ?case using "1.prems" "1.hyps" [OF r] memchr_grow [OF r, of x] r b
    by (subst (asm) (1) trailer_loop.simps, subst trailer_loop.simps) (fastforce split: if_splits)
qed

text \<open>One turn of the chunk decoder, on the data it has.\<close>

lemma decode_step:
  assumes "memchr t LF p e = Some le" and "le - p \<le> HTTP1_CHUNK_LINE_MAX"
    and "chunk_size_loop cap 0 0 (span t p le) = Inr n"
  shows "decode_chunked_from t p e cap body =
    (if n = 0 then (case trailer_loop t (le + 1) e of None \<Rightarrow> Chunk_Need_More | Some q \<Rightarrow> Chunk_Done body q)
     else if e - (le + 1) < n + 2 then Chunk_Need_More
     else if length body + n > cap then Chunk_Bad ''chunked body exceeds cap''
     else if ch_at t (le + 1 + n) \<noteq> CR \<or> ch_at t (le + 2 + n) \<noteq> LF then Chunk_Bad ''missing chunk terminator''
     else decode_chunked_from t (le + 3 + n) e cap (body @ span t (le + 1) (le + 1 + n)))"
  using assms by (subst decode_chunked_from.simps) (auto simp: Let_def numeral_eq_Suc)

lemma decode_line:
  assumes "decode_chunked_from t p e cap body = Chunk_Done b q"
  obtains le n where "memchr t LF p e = Some le" "le - p \<le> HTTP1_CHUNK_LINE_MAX"
    "chunk_size_loop cap 0 0 (span t p le) = Inr n"
  using assms by (subst (asm) decode_chunked_from.simps) (auto split: option.splits if_splits sum.splits)

lemma decode_grow:
  "decode_chunked_from t p (length t) cap body = Chunk_Done b q \<Longrightarrow> length body \<le> cap \<Longrightarrow>
     decode_chunked_from (t @ x) p (length (t @ x)) cap body = Chunk_Done b q \<and> length b \<le> cap \<and> p < q \<and> q \<le> length t"
proof (induction "length t - p" arbitrary: p body rule: less_induct)
  case less
  obtain le n where m: "memchr t LF p (length t) = Some le" "le - p \<le> HTTP1_CHUNK_LINE_MAX"
    and c: "chunk_size_loop cap 0 0 (span t p le) = Inr n" using decode_line [OF less.prems(1)] .
  note b = memchr_bounds [OF m(1)]
  note st = decode_step [OF m c, of body]
  have "span (t @ x) p le = span t p le" using b by (simp add: span_append_text)
  then have "chunk_size_loop cap 0 0 (span (t @ x) p le) = Inr n" using c by simp
  note st' = decode_step [OF memchr_grow [OF m(1), of x] m(2) this, of body]
  show ?case
  proof (cases "n = 0")
    case True
    then obtain q' where "trailer_loop t (le + 1) (length t) = Some q'" "b = body" "q = q'"
      using st less.prems(1) by (auto split: option.splits)
    then show ?thesis using True st' trailer_loop_grow [of t "le + 1" q' x] less.prems(2) b by auto
  next
    case False
    then have k: "\<not> length t - (le + 1) < n + 2" "length body + n \<le> cap" "ch_at t (le + 1 + n) = CR" "ch_at t (le + 2 + n) = LF"
      and r: "decode_chunked_from t (le + 3 + n) (length t) cap (body @ span t (le + 1) (le + 1 + n)) = Chunk_Done b q"
      using st less.prems(1) by (auto split: if_splits)
    have l: "le + 3 + n \<le> length t" using k(1) b by simp
    then have sp: "span (t @ x) (le + 1) (le + 1 + n) = span t (le + 1) (le + 1 + n)" "length (span t (le + 1) (le + 1 + n)) = n"
      by (simp_all add: span_append_text)
    have ch: "ch_at (t @ x) (le + 1 + n) = CR" "ch_at (t @ x) (le + 2 + n) = LF" using k(3,4) l by (simp_all add: ch_at_append)
    have "length t - (le + 3 + n) < length t - p" using b l by linarith
    note ih = less.hyps [OF this r]
    show ?thesis using st' False k ch sp ih b by simp
  qed
qed

lemma status_code_append: "status_code t = Inr st \<Longrightarrow> status_code (t @ x) = Inr st \<and> ch_at (t @ x) 7 = ch_at t 7"
  by (auto simp: status_code_def ch_at_append split: if_splits)

lemma for_each_header_append: "e \<le> length t \<Longrightarrow> for_each_header fn (t @ x) e s = for_each_header fn t e s"
  by (simp add: for_each_header_def memchr_append header_loop_append split: option.splits)

lemma response_body_done:
  assumes "response_body t h cap info st keep = Http_Done r" and "h \<le> length t"
  shows "response_body (t @ x) h cap info st keep = Http_Done r \<and> h \<le> hr_consumed r \<and> hr_consumed r \<le> length t \<and>
    (hr_body r = [] \<or> length (hr_body r) < cap)"
proof (cases "bodyless st")
  case True
  then show ?thesis using assms by (auto simp: response_body_def Let_def)
next
  case False
  show ?thesis
  proof (cases "hi_chunked info")
    case True
    then obtain b q where d: "decode_chunked t h (length t) (cap - 1) = Chunk_Done b q" "0 < cap"
      and r: "r = \<lparr>hr_status = st, hr_keep_alive = keep, hr_body = b, hr_consumed = q\<rparr>"
      using assms False by (auto simp: response_body_def Let_def split: if_splits chunk_result.splits)
    show ?thesis using decode_grow [of t h "cap - 1" "[]" b q x] d r False True
      by (auto simp: response_body_def Let_def decode_chunked_def)
  next
    case F: False
    then show ?thesis using assms False
      by (auto simp: response_body_def Let_def span_append_text split: option.splits if_splits)
  qed
qed

text \<open>
  C12. A finished response is final: when the reader reports \<open>FC_HTTP1_DONE\<close> on the bytes received
  so far, it reports the same status, body and consumed length for every longer buffer, the
  consumed bytes lie in the buffer behind the head, and the body leaves room for its terminator.
\<close>

theorem http1_done_stable:
  assumes "fc_http1_parse_response buf body_cap = Http_Done r"
  shows "fc_http1_parse_response (buf @ later) body_cap = Http_Done r \<and>
    head_end buf \<le> hr_consumed r \<and> hr_consumed r \<le> length buf \<and> (hr_body r = [] \<or> length (hr_body r) < body_cap)"
proof -
  let ?h = "head_end buf"
  have h: "0 < ?h" using assms by (auto simp: fc_http1_parse_response_def Let_def split: if_splits)
  then have l: "?h \<le> length buf" using head_end_from_bounds [of buf 0 ?h] by (simp add: head_end_def)
  have h': "head_end (buf @ later) = ?h" using h by (simp add: head_end_def head_end_from_append)
  obtain st where st: "status_code buf = Inr st" using assms h by (auto simp: fc_http1_parse_response_def Let_def split: sum.splits)
  define info where "info = (case for_each_header scan_head buf ?h no_info of None \<Rightarrow> no_info | Some h \<Rightarrow> h)"
  let ?k = "\<not> (ch_at buf 7 = CHR ''0'' \<or> hi_close_requested info)"
  have r: "\<not> hi_bad info" "response_body buf ?h body_cap info st ?k = Http_Done r"
    using assms h st by (auto simp: fc_http1_parse_response_def Let_def info_def split: if_splits)
  have "fc_http1_parse_response (buf @ later) body_cap = response_body (buf @ later) ?h body_cap info st ?k"
    using h h' status_code_append [OF st, of later] r(1)
    by (simp add: fc_http1_parse_response_def Let_def for_each_header_append [OF l] info_def)
  then show ?thesis using response_body_done [OF r(2) l, of later] by simp
qed

theorem http1_done_stable_witness:
  "fc_http1_parse_response ((''HTTP/1.1 204 X'' @ CRLF @ CRLF) @ ''next'') 9 =
     Http_Done \<lparr>hr_status = 204, hr_keep_alive = True, hr_body = [], hr_consumed = 18\<rparr>"
proof -
  have "fc_http1_parse_response (''HTTP/1.1 204 X'' @ CRLF @ CRLF) 9 =
     Http_Done \<lparr>hr_status = 204, hr_keep_alive = True, hr_body = [], hr_consumed = 18\<rparr>" by code_simp
  from http1_done_stable [OF this, of "''next''"] show ?thesis by simp
qed

section \<open>Chunked round trip\<close>

definition hex_lower :: "nat \<Rightarrow> char" where
  "hex_lower d = (if d < 10 then char_of (48 + d) else char_of (87 + d))"

fun show_hex :: "nat \<Rightarrow> string" where
  "show_hex n = (if n < 16 then [hex_lower n] else show_hex (n div 16) @ [hex_lower (n mod 16)])"

declare show_hex.simps [simp del]

definition encode_chunk :: "string \<Rightarrow> string" where
  "encode_chunk c = show_hex (length c) @ CRLF @ c @ CRLF"

definition encode_chunked :: "string list \<Rightarrow> string" where
  "encode_chunked cs = concat (map encode_chunk cs) @ ''0'' @ CRLF @ CRLF"

lemma hex_lower_digit: "d < 16 \<Longrightarrow> hex_digit (hex_lower d) = Some d \<and> hex_lower d \<noteq> CR \<and> hex_lower d \<noteq> LF \<and> hex_lower d \<noteq> CHR '';''"
proof -
  assume "d < 16"
  then have "byte (hex_lower d) = (if d < 10 then 48 + d else 87 + d)" by (simp add: hex_lower_def)
  then show ?thesis using \<open>d < 16\<close> by (auto simp: hex_digit_def) (auto simp: byte_def split: if_splits)
qed

lemma show_hex_size:
  "n \<le> cap + 1 \<Longrightarrow> chunk_size_loop cap 0 0 (show_hex n @ w) = chunk_size_loop cap n (length (show_hex n)) w"
proof (induction n arbitrary: w rule: show_hex.induct)
  case (1 n)
  show ?case
  proof (cases "n < 16")
    case True
    then show ?thesis using "1.prems" hex_lower_digit [of n] by (subst (1 2) show_hex.simps) simp
  next
    case False
    have "n div 16 \<le> cap + 1" using "1.prems" by (meson div_le_dividend order_trans)
    moreover have "n div 16 * 16 + n mod 16 = n" by simp
    ultimately show ?thesis using "1.prems" "1.IH" [OF False, of "hex_lower (n mod 16) # w"] hex_lower_digit [of "n mod 16"] False
      by (subst (1 2) show_hex.simps) simp
  qed
qed

lemma show_hex_clean: "LF \<notin> set (show_hex n) \<and> show_hex n \<noteq> []"
proof (induction n rule: show_hex.induct)
  case (1 n)
  then show ?case using hex_lower_digit [of "n mod 16"] hex_lower_digit [of n] by (subst (1 2) show_hex.simps) auto
qed

lemma show_hex_length: "n < 16 ^ k \<Longrightarrow> 0 < k \<Longrightarrow> length (show_hex n) \<le> k"
proof (induction k arbitrary: n)
  case (Suc k)
  show ?case
  proof (cases "n < 16")
    case False
    then have "0 < k" using Suc.prems by (cases k) auto
    moreover have "n div 16 < 16 ^ k" using Suc.prems by (simp add: less_mult_imp_div_less mult.commute)
    ultimately show ?thesis using Suc.IH [of "n div 16"] False by (subst show_hex.simps) simp
  qed (simp add: show_hex.simps)
qed simp

lemma decode_one_chunk:
  assumes d: "drop p t = encode_chunk c @ r" and c: "c \<noteq> []" "length body + length c \<le> cap" and cap: "cap < 2 ^ 64"
  shows "decode_chunked_from t p (length t) cap body =
      decode_chunked_from t (p + length (encode_chunk c)) (length t) cap (body @ c)"
proof -
  let ?x = "show_hex (length c) @ [CR]"
  have d': "drop p t = ?x @ LF # c @ CRLF @ r" using d by (simp add: encode_chunk_def CRLF_def)
  have hx: "LF \<notin> set ?x" using show_hex_clean by simp
  have len: "p + length (encode_chunk c) \<le> length t" using drop_eq_append_le [OF d] by (simp add: encode_chunk_def CRLF_def)
  have le: "p + length ?x < length t" using len by (simp add: encode_chunk_def CRLF_def)
  have m: "memchr t LF p (length t) = Some (p + length ?x)" using memchr_at [OF d' hx le] .
  have "length c < 16 ^ 16" using c(2) cap by simp
  then have l64: "p + length ?x - p \<le> HTTP1_CHUNK_LINE_MAX"
    using show_hex_length [of "length c" 16] by (simp add: HTTP1_CHUNK_LINE_MAX_def)
  have sz: "chunk_size_loop cap 0 0 (span t p (p + length ?x)) = Inr (length c)"
    using show_hex_size [of "length c" cap "[CR]"] show_hex_clean [of "length c"] c(2) span_eqI [OF d'] by simp
  have d2: "drop (p + length ?x + 1) t = c @ CR # LF # r"
    using drop_append_length [of p t "?x @ [LF]" "c @ CRLF @ r"] d' by (simp add: CRLF_def)
  have ch: "ch_at t (p + length ?x + 1 + length c) = CR" "ch_at t (p + length ?x + 2 + length c) = LF"
    using drop_append_length [OF d2] drop_Cons_ch_at [of "p + length ?x + 1 + length c" t CR "LF # r"]
      drop_Cons_ch_at [of "Suc (p + length ?x + 1 + length c)" t LF r] by simp_all
  have sp: "span t (p + length ?x + 1) (p + length ?x + 1 + length c) = c" using d2 by (rule span_eqI)
  have room: "\<not> length t - (p + length ?x + 1) < length c + 2" using len by (simp add: encode_chunk_def CRLF_def)
  have pos: "p + length ?x + 3 + length c = p + length (encode_chunk c)" by (simp add: encode_chunk_def CRLF_def)
  show ?thesis using decode_step [OF m l64 sz, of body] c ch sp room unfolding pos by simp
qed

lemma decode_last_chunk:
  assumes d: "drop p t = ''0'' @ CRLF @ CRLF @ r"
  shows "decode_chunked_from t p (length t) cap body = Chunk_Done body (p + 5)"
proof -
  have d': "drop p t = [CHR ''0'', CR] @ LF # CRLF @ r" using d by (simp add: CRLF_def)
  have len: "p + 5 \<le> length t" using drop_eq_append_le [of p t "''0'' @ CRLF @ CRLF" r] d by (simp add: CRLF_def)
  have m: "memchr t LF p (length t) = Some (p + 2)" using memchr_at [OF d', of "length t"] len by simp
  have sp: "span t p (p + 2) = [CHR ''0'', CR]" using span_eqI [OF d'] by (simp add: numeral_eq_Suc)
  have sz: "chunk_size_loop cap 0 0 (span t p (p + 2)) = Inr 0" unfolding sp by (simp add: hex_digit_def byte_def)
  have d2: "drop (p + 3) t = [CR] @ LF # r"
    using drop_append_length [of p t "[CHR ''0'', CR, LF]" "CRLF @ r"] d by (simp add: CRLF_def numeral_eq_Suc)
  have m2: "memchr t LF (p + 3) (length t) = Some (p + 4)" using memchr_at [OF d2, of "length t"] len by (simp add: numeral_eq_Suc)
  have "ch_at t (p + 3) = CR" using drop_Cons_ch_at [of "p + 3" t CR] d2 by simp
  then have "trailer_loop t (p + 3) (length t) = Some (p + 5)" using m2 by (subst trailer_loop.simps) (simp add: numeral_eq_Suc)
  then show ?thesis using decode_step [OF m _ sz, of body] by (simp add: HTTP1_CHUNK_LINE_MAX_def numeral_eq_Suc)
qed

lemma decode_chunks:
  "drop p t = encode_chunked cs @ r \<Longrightarrow> [] \<notin> set cs \<Longrightarrow> length body + length (concat cs) \<le> cap \<Longrightarrow> cap < 2 ^ 64 \<Longrightarrow>
     decode_chunked_from t p (length t) cap body = Chunk_Done (body @ concat cs) (p + length (encode_chunked cs))"
proof (induction cs arbitrary: p body)
  case Nil
  then show ?case using decode_last_chunk [of p t r cap body] by (simp add: encode_chunked_def CRLF_def)
next
  case (Cons c cs)
  have d: "drop p t = encode_chunk c @ encode_chunked cs @ r" using Cons.prems by (simp add: encode_chunked_def)
  have "decode_chunked_from t p (length t) cap body =
      decode_chunked_from t (p + length (encode_chunk c)) (length t) cap (body @ c)"
    using Cons.prems by (intro decode_one_chunk [OF d]) auto
  also have "\<dots> = Chunk_Done ((body @ c) @ concat cs) (p + length (encode_chunk c) + length (encode_chunked cs))"
    using Cons.IH [OF drop_append_length [OF d], of "body @ c"] Cons.prems by simp
  finally show ?case by (simp add: encode_chunked_def)
qed

text \<open>
  C11. Chunked round trip: on a stream that starts with the chunked encoding of non-empty chunks
  (size in hexadecimal, CRLF, data, CRLF, then the zero chunk), the decoder returns the
  concatenated data and the offset just behind the encoding, whatever follows it, as long as the data
  fits the buffer.
\<close>

theorem chunked_roundtrip:
  assumes "[] \<notin> set chunks" and "length (concat chunks) \<le> body_cap" and "body_cap < 2 ^ 64"
  shows "decode_chunked (head @ encode_chunked chunks @ rest) (length head)
      (length (head @ encode_chunked chunks @ rest)) body_cap =
    Chunk_Done (concat chunks) (length head + length (encode_chunked chunks))"
  using decode_chunks [of "length head" "head @ encode_chunked chunks @ rest" chunks rest "[]" body_cap] assms
  by (simp add: decode_chunked_def)

theorem chunked_roundtrip_witness:
  "decode_chunked (''H'' @ encode_chunked [''abc'', ''d''] @ ''T'') 1 (length (''H'' @ encode_chunked [''abc'', ''d''] @ ''T'')) 4 =
     Chunk_Done ''abcd'' (1 + length (encode_chunked [''abc'', ''d'']))"
  using chunked_roundtrip [of "[''abc'', ''d'']" 4 "''H''" "''T''"] by simp

end
