(* ===== verification/Rt_Base.thy ===== *)
theory Rt_Base
  imports C_Text "HOL-Library.Word"
begin

text \<open>
  What the stateful parts of the runtime share: the buffer sizes of \<open>runtime/runtime.h\<close>, the
  bounded append of \<open>support/append.h\<close> and the bounded file read of \<open>support/fsutil.c\<close>.
\<close>

definition RT_SMALL :: nat where
  "RT_SMALL = 128"

definition RT_MED :: nat where
  "RT_MED = 512"

definition RT_LARGE :: nat where
  "RT_LARGE = 4096"

definition RT_XL :: nat where
  "RT_XL = 65536"

lemmas rt_sizes = RT_SMALL_def RT_MED_def RT_LARGE_def RT_XL_def

text \<open>The text in a buffer of \<open>out_len\<close> bytes after an append; \<open>None\<close> when it does not fit.\<close>

definition rt_append_text :: "nat \<Rightarrow> string \<Rightarrow> string \<Rightarrow> string option" where
  "rt_append_text out_len out txt = (if length out + length txt \<ge> out_len then None else Some (out @ txt))"

definition FS_READ_TEXT_DEFAULT_CAP :: nat where
  "FS_READ_TEXT_DEFAULT_CAP = 64 * 1024 * 1024"

definition read_cap :: "nat \<Rightarrow> nat" where
  "read_cap requested =
     (if requested = 0 \<or> requested > FS_READ_TEXT_DEFAULT_CAP then FS_READ_TEXT_DEFAULT_CAP else requested)"

text \<open>
  Reading a whole file; its content is \<open>None\<close> when it cannot be opened or read. The caller sees
  the bytes as a C string.
\<close>

definition fs_read_text :: "string option \<Rightarrow> nat \<Rightarrow> string option" where
  "fs_read_text file max_bytes =
     (case file of
        None \<Rightarrow> None
      | Some content \<Rightarrow> if length content > read_cap max_bytes then None else Some (cstr content))"

text \<open>The conversion to \<open>int\<close> keeps the low 32 bits.\<close>

definition to_int32 :: "int \<Rightarrow> int" where
  "to_int32 v = sint (word_of_int v :: 32 word)"

end
