(* ===== verification/Reactor.thy ===== *)
theory Reactor
  imports Prelude
begin

text \<open>
  The reactor of \<open>runtime/gateway/reactor.c\<close>: the poll set, module registration, error and
  latency statistics, the poll timeout and one pass of the main loop. A module is named by a
  handle (its pointer in C). What lies outside the file is a parameter: the callbacks of the
  modules, the clock and \<open>poll\<close> act on a world \<open>'w\<close>, and \<open>stopped\<close> reads the stop flag. Messages
  to \<open>stderr\<close> and the narration are not modelled; the counters that drive them are.
\<close>

section \<open>The poll set\<close>

definition FC_POLL_MAX_FDS :: nat where
  "FC_POLL_MAX_FDS = 128"

definition FC_REACTOR_MAX_MODULES :: nat where
  "FC_REACTOR_MAX_MODULES = 16"

definition FC_REACTOR_SLOW_TICK_MS :: "64 word" where
  "FC_REACTOR_SLOW_TICK_MS = 250"

definition FC_NO_DEADLINE :: "64 word" where
  "FC_NO_DEADLINE = - 1"

text \<open>The tag is the module's cookie for the descriptor, here a number.\<close>

record poll_entry =
  pe_fd :: int
  pe_events :: int
  pe_owner :: nat
  pe_tag :: nat

record pollset =
  ps_entries :: "poll_entry list"
  ps_overflows :: "64 word"

definition fc_pollset_clear :: "pollset \<Rightarrow> pollset" where
  "fc_pollset_clear ps = \<lparr>ps_entries = [], ps_overflows = 0\<rparr>"

definition fc_pollset_add :: "pollset \<Rightarrow> int \<Rightarrow> int \<Rightarrow> nat \<Rightarrow> nat \<Rightarrow> int \<times> pollset" where
  "fc_pollset_add ps fd events own tag =
     (if fd < 0 then (- 1, ps)
      else if length (ps_entries ps) \<ge> FC_POLL_MAX_FDS then (- 1, ps\<lparr>ps_overflows := ps_overflows ps + 1\<rparr>)
      else (0, ps\<lparr>ps_entries := ps_entries ps @ [\<lparr>pe_fd = fd, pe_events = events, pe_owner = own, pe_tag = tag\<rparr>]\<rparr>))"

section \<open>Modules and statistics\<close>

record module_stats =
  ms_callback_errors :: "64 word"
  ms_collect_fds_errors :: "64 word"
  ms_on_fd_errors :: "64 word"
  ms_tick_errors :: "64 word"
  ms_slow_ticks :: "64 word"
  ms_last_tick_ms :: "64 word"
  ms_max_tick_ms :: "64 word"

definition zero_stats :: module_stats where
  "zero_stats = \<lparr>ms_callback_errors = 0, ms_collect_fds_errors = 0, ms_on_fd_errors = 0,
     ms_tick_errors = 0, ms_slow_ticks = 0, ms_last_tick_ms = 0, ms_max_tick_ms = 0\<rparr>"

text \<open>The callbacks of a module; \<open>None\<close> is a \<open>NULL\<close> function pointer.\<close>

record 'w module_ops =
  mo_init :: "('w \<Rightarrow> int \<times> 'w) option"
  mo_collect_fds :: "(pollset \<Rightarrow> 'w \<Rightarrow> int \<times> pollset \<times> 'w) option"
  mo_on_fd :: "(int \<Rightarrow> int \<Rightarrow> nat \<Rightarrow> 'w \<Rightarrow> int \<times> 'w) option"
  mo_tick :: "(64 word \<Rightarrow> 'w \<Rightarrow> int \<times> 'w) option"
  mo_shutdown :: "('w \<Rightarrow> 'w) option"
  mo_next_deadline_ms :: "(64 word \<Rightarrow> 'w \<Rightarrow> 64 word \<times> 'w) option"

text \<open>
  The array \<open>module_stats\<close> is kept for the registered modules only: the code never looks at
  the entries behind \<open>module_count\<close>, which \<open>fc_reactor_init\<close> zeroes.
\<close>

record reactor =
  re_modules :: "nat list"
  re_default_timeout_ms :: int
  re_total_ticks :: "64 word"
  re_total_polls :: "64 word"
  re_poll_overflows :: "64 word"
  re_stats :: "module_stats list"

definition fc_reactor_init :: reactor where
  "fc_reactor_init = \<lparr>re_modules = [], re_default_timeout_ms = 200, re_total_ticks = 0,
     re_total_polls = 0, re_poll_overflows = 0, re_stats = []\<rparr>"

definition fc_reactor_register :: "reactor \<Rightarrow> nat \<Rightarrow> int \<times> reactor" where
  "fc_reactor_register r m =
     (if length (re_modules r) \<ge> FC_REACTOR_MAX_MODULES then (- 1, r)
      else (0, r\<lparr>re_modules := re_modules r @ [m], re_stats := re_stats r @ [zero_stats]\<rparr>))"

definition module_index :: "reactor \<Rightarrow> nat \<Rightarrow> nat" where
  "module_index r m =
     (case find_index (\<lambda>x. x = m) (re_modules r) of None \<Rightarrow> FC_REACTOR_MAX_MODULES | Some i \<Rightarrow> i)"

unbundle bit_operations_syntax

definition report_count :: "64 word \<Rightarrow> bool" where
  "report_count n \<longleftrightarrow> n = 1 \<or> (n \<noteq> 0 \<and> n AND (n - 1) = 0)"

datatype callback = Collect_Fds | On_Fd | Tick

definition count_error :: "callback \<Rightarrow> module_stats \<Rightarrow> module_stats" where
  "count_error cb s =
     (let s1 = s\<lparr>ms_callback_errors := ms_callback_errors s + 1\<rparr> in
      case cb of
        Collect_Fds \<Rightarrow> s1\<lparr>ms_collect_fds_errors := ms_collect_fds_errors s1 + 1\<rparr>
      | On_Fd \<Rightarrow> s1\<lparr>ms_on_fd_errors := ms_on_fd_errors s1 + 1\<rparr>
      | Tick \<Rightarrow> s1\<lparr>ms_tick_errors := ms_tick_errors s1 + 1\<rparr>)"

definition record_callback_error :: "callback \<Rightarrow> nat \<Rightarrow> reactor \<Rightarrow> reactor" where
  "record_callback_error cb i r =
     (if i \<ge> length (re_modules r) then r
      else r\<lparr>re_stats := (re_stats r)[i := count_error cb (re_stats r ! i)]\<rparr>)"

definition tick_stats :: "64 word \<Rightarrow> module_stats \<Rightarrow> module_stats" where
  "tick_stats duration s =
     (let s1 = s\<lparr>ms_last_tick_ms := duration\<rparr>;
          s2 = (if duration > ms_max_tick_ms s1 then s1\<lparr>ms_max_tick_ms := duration\<rparr> else s1)
      in if duration < FC_REACTOR_SLOW_TICK_MS then s2 else s2\<lparr>ms_slow_ticks := ms_slow_ticks s2 + 1\<rparr>)"

definition record_tick :: "nat \<Rightarrow> 64 word \<Rightarrow> reactor \<Rightarrow> reactor" where
  "record_tick i duration r =
     (if i \<ge> length (re_modules r) then r
      else r\<lparr>re_stats := (re_stats r)[i := tick_stats duration (re_stats r ! i)]\<rparr>)"

section \<open>One pass of the loop\<close>

text \<open>What \<open>poll\<close> reports: an interrupted call, another error, or the ready descriptors' events.\<close>

datatype poll_outcome = Poll_EINTR | Poll_Error | Poll_Ready "int list"

record 'w environment =
  en_ops :: "nat \<Rightarrow> 'w module_ops"
  en_now_ms :: "'w \<Rightarrow> 64 word \<times> 'w"
  en_poll :: "poll_entry list \<Rightarrow> int \<Rightarrow> 'w \<Rightarrow> poll_outcome \<times> 'w"
  en_stopped :: "'w \<Rightarrow> bool"

fun init_modules :: "'w environment \<Rightarrow> nat list \<Rightarrow> 'w \<Rightarrow> bool \<times> 'w" where
  "init_modules env [] w = (True, w)"
| "init_modules env (m # ms) w =
     (case mo_init (en_ops env m) of
        None \<Rightarrow> init_modules env ms w
      | Some f \<Rightarrow> (case f w of (rc, w') \<Rightarrow> if rc \<noteq> 0 then (False, w') else init_modules env ms w'))"

text \<open>The loops over the modules carry the index of the module at hand.\<close>

fun collect_all :: "'w environment \<Rightarrow> nat \<Rightarrow> nat list \<Rightarrow> reactor \<Rightarrow> pollset \<Rightarrow> 'w \<Rightarrow> reactor \<times> pollset \<times> 'w" where
  "collect_all env i [] r ps w = (r, ps, w)"
| "collect_all env i (m # ms) r ps w =
     (case mo_collect_fds (en_ops env m) of
        None \<Rightarrow> collect_all env (Suc i) ms r ps w
      | Some f \<Rightarrow>
          (case f ps w of (rc, ps', w') \<Rightarrow>
             collect_all env (Suc i) ms (if rc \<noteq> 0 then record_callback_error Collect_Fds i r else r) ps' w'))"

definition note_overflows :: "pollset \<Rightarrow> reactor \<Rightarrow> reactor" where
  "note_overflows ps r =
     (if ps_overflows ps > 0 then r\<lparr>re_poll_overflows := re_poll_overflows r + ps_overflows ps\<rparr> else r)"

fun earliest_deadline :: "'w environment \<Rightarrow> nat list \<Rightarrow> 64 word \<Rightarrow> 64 word \<Rightarrow> 'w \<Rightarrow> 64 word \<times> 'w" where
  "earliest_deadline env [] now earliest w = (earliest, w)"
| "earliest_deadline env (m # ms) now earliest w =
     (case mo_next_deadline_ms (en_ops env m) of
        None \<Rightarrow> earliest_deadline env ms now earliest w
      | Some f \<Rightarrow>
          (case f now w of (d, w') \<Rightarrow>
             earliest_deadline env ms now (if d \<noteq> FC_NO_DEADLINE \<and> d < earliest then d else earliest) w'))"

text \<open>The conversion to \<open>int\<close> keeps the low 32 bits.\<close>

definition poll_timeout :: "int \<Rightarrow> 64 word \<Rightarrow> 64 word \<Rightarrow> int" where
  "poll_timeout default_timeout now earliest =
     (let t = (if earliest \<le> now then 0 else sint (ucast (earliest - now) :: 32 word))
      in if t > default_timeout then default_timeout else t)"

fun dispatch :: "'w environment \<Rightarrow> (poll_entry \<times> int) list \<Rightarrow> reactor \<Rightarrow> 'w \<Rightarrow> reactor \<times> 'w" where
  "dispatch env [] r w = (r, w)"
| "dispatch env ((pe, revents) # rest) r w =
     (if revents = 0 then dispatch env rest r w
      else
        (case mo_on_fd (en_ops env (pe_owner pe)) of
           None \<Rightarrow> dispatch env rest r w
         | Some f \<Rightarrow>
             (case f (pe_fd pe) revents (pe_tag pe) w of (rc, w') \<Rightarrow>
                dispatch env rest
                  (if rc \<noteq> 0 then record_callback_error On_Fd (module_index r (pe_owner pe)) r else r) w')))"

fun tick_all :: "'w environment \<Rightarrow> nat \<Rightarrow> nat list \<Rightarrow> 64 word \<Rightarrow> reactor \<Rightarrow> 'w \<Rightarrow> reactor \<times> 'w" where
  "tick_all env i [] now r w = (r, w)"
| "tick_all env i (m # ms) now r w =
     (case mo_tick (en_ops env m) of
        None \<Rightarrow> tick_all env (Suc i) ms now r w
      | Some f \<Rightarrow>
          (case en_now_ms env w of (started, w1) \<Rightarrow>
           case f now w1 of (rc, w2) \<Rightarrow>
           case en_now_ms env w2 of (finished, w3) \<Rightarrow>
             let duration = (if finished \<ge> started then finished - started else 0);
                 r1 = record_tick i duration r
             in tick_all env (Suc i) ms now (if rc \<noteq> 0 then record_callback_error Tick i r1 else r1) w3))"

datatype 'w pass_result = Pass_Next reactor 'w | Pass_Stop reactor 'w

definition reactor_pass :: "'w environment \<Rightarrow> reactor \<Rightarrow> 'w \<Rightarrow> 'w pass_result" where
  "reactor_pass env r0 w0 =
     (case collect_all env 0 (re_modules r0) r0 \<lparr>ps_entries = [], ps_overflows = 0\<rparr> w0 of (r1, ps, w1) \<Rightarrow>
      let r2 = note_overflows ps r1 in
      case en_now_ms env w1 of (now_pre, w2) \<Rightarrow>
      case earliest_deadline env (re_modules r2) now_pre
             (now_pre + word_of_int (re_default_timeout_ms r2)) w2 of (earliest, w3) \<Rightarrow>
      case en_poll env (ps_entries ps) (poll_timeout (re_default_timeout_ms r2) now_pre earliest) w3 of (outcome, w4) \<Rightarrow>
      let r3 = r2\<lparr>re_total_polls := re_total_polls r2 + 1\<rparr> in
      case outcome of
        Poll_EINTR \<Rightarrow> Pass_Next r3 w4
      | Poll_Error \<Rightarrow> Pass_Stop r3 w4
      | Poll_Ready revents \<Rightarrow>
          (case dispatch env (zip (ps_entries ps) revents) r3 w4 of (r4, w5) \<Rightarrow>
           case en_now_ms env w5 of (now, w6) \<Rightarrow>
           case tick_all env 0 (re_modules r4) now r4 w6 of (r5, w7) \<Rightarrow>
             Pass_Next (r5\<lparr>re_total_ticks := re_total_ticks r5 + 1\<rparr>) w7))"

text \<open>The main loop runs until the stop flag is set; \<open>None\<close> says that the fuel ran out before.\<close>

fun reactor_loop :: "nat \<Rightarrow> 'w environment \<Rightarrow> reactor \<Rightarrow> 'w \<Rightarrow> (reactor \<times> 'w) option" where
  "reactor_loop 0 env r w = (if en_stopped env w then Some (r, w) else None)"
| "reactor_loop (Suc fuel) env r w =
     (if en_stopped env w then Some (r, w)
      else
        (case reactor_pass env r w of
           Pass_Stop r' w' \<Rightarrow> Some (r', w')
         | Pass_Next r' w' \<Rightarrow> reactor_loop fuel env r' w'))"

definition fc_reactor_run :: "nat \<Rightarrow> 'w environment \<Rightarrow> int \<Rightarrow> reactor \<Rightarrow> 'w \<Rightarrow> (int \<times> reactor \<times> 'w) option" where
  "fc_reactor_run fuel env default_timeout r w =
     (let r1 = (if default_timeout > 0 then r\<lparr>re_default_timeout_ms := default_timeout\<rparr> else r) in
      case init_modules env (re_modules r1) w of (ok, w1) \<Rightarrow>
        if \<not> ok then Some (- 1, r1, w1)
        else map_option (\<lambda>(r', w'). (0, r', w')) (reactor_loop fuel env r1 w1))"

definition fc_reactor_total_module_errors :: "reactor \<Rightarrow> 64 word" where
  "fc_reactor_total_module_errors r = sum_list (map ms_callback_errors (re_stats r))"

definition fc_reactor_total_slow_ticks :: "reactor \<Rightarrow> 64 word" where
  "fc_reactor_total_slow_ticks r = sum_list (map ms_slow_ticks (re_stats r))"

fun fc_reactor_shutdown :: "'w environment \<Rightarrow> nat list \<Rightarrow> 'w \<Rightarrow> 'w" where
  "fc_reactor_shutdown env [] w = w"
| "fc_reactor_shutdown env (m # ms) w =
     fc_reactor_shutdown env ms (case mo_shutdown (en_ops env m) of None \<Rightarrow> w | Some f \<Rightarrow> f w)"

definition fc_reactor_poll_overflows :: "reactor \<Rightarrow> 64 word" where
  "fc_reactor_poll_overflows r = re_poll_overflows r"

section \<open>The noop module\<close>

record noop_state =
  ns_tick_count :: "64 word"
  ns_last_tick_ms :: "64 word"

definition noop_tick :: "64 word \<Rightarrow> noop_state \<Rightarrow> int \<times> noop_state" where
  "noop_tick now s = (0, s\<lparr>ns_tick_count := ns_tick_count s + 1, ns_last_tick_ms := now\<rparr>)"

definition fc_noop_module_create :: "noop_state module_ops" where
  "fc_noop_module_create = \<lparr>mo_init = Some (\<lambda>s. (0, s)), mo_collect_fds = Some (\<lambda>ps s. (0, ps, s)),
     mo_on_fd = Some (\<lambda>fd rev tag s. (0, s)), mo_tick = Some noop_tick, mo_shutdown = Some (\<lambda>s. s),
     mo_next_deadline_ms = None\<rparr>"

definition fc_noop_module_tick_count :: "noop_state \<Rightarrow> 64 word" where
  "fc_noop_module_tick_count s = ns_tick_count s"

end
