(* ===== verification/Jobrunner.thy ===== *)
theory Jobrunner
  imports Rt_Base Reactor
begin

text \<open>
  The job runner of \<open>runtime/gateway/jobrunner.c\<close> and its reactor module
  \<open>runtime/gateway/jobrunner_module.c\<close>. The operating system is the record \<open>jos\<close>: the files
  (path to content), the results that \<open>read\<close> will give per descriptor, the status \<open>waitpid\<close> has
  for a process, and the log of the \<open>kill\<close> calls made. The secret broker is another component;
  what servicing it does is the parameter \<open>jo_broker\<close>. The linked list of jobs is a list with the
  same order; a job pointer is the number the job was created with.
\<close>

section \<open>Data\<close>

definition PATH_MAX :: nat where
  "PATH_MAX = 4096"

definition JOB_OUTPUT_CAP_STDOUT_DEFAULT :: nat where
  "JOB_OUTPUT_CAP_STDOUT_DEFAULT = 8 * 1024 * 1024"

definition JOB_OUTPUT_CAP_STDERR_DEFAULT :: nat where
  "JOB_OUTPUT_CAP_STDERR_DEFAULT = 1024 * 1024"

definition JOB_KILL_GRACE_MS_DEFAULT :: "64 word" where
  "JOB_KILL_GRACE_MS_DEFAULT = 1000"

definition JOB_PROGRESS_RECORD_CAP :: nat where
  "JOB_PROGRESS_RECORD_CAP = 4096"

definition JOB_PROGRESS_QUEUE_CAP :: nat where
  "JOB_PROGRESS_QUEUE_CAP = 64"

definition JOB_PROGRESS_PARTIAL_CAP :: nat where
  "JOB_PROGRESS_PARTIAL_CAP = 8192"

datatype job_kind = JOB_AGENT | JOB_ACTION

datatype job_state = JOB_RUNNING | JOB_FINISHED | JOB_FAILED

record secret_broker =
  br_fd :: int
  br_closed :: bool

record rt_job =
  jb_ref :: nat
  jb_kind :: job_kind
  jb_state :: job_state
  jb_job_id :: string
  jb_run_id :: string
  jb_origin_event_id :: string
  jb_step_id :: string
  jb_request_id :: string
  jb_bound_task_id :: string
  jb_bound_work_rev :: int
  jb_pid :: int
  jb_launched_ms :: "64 word"
  jb_deadline_ms :: "64 word"
  jb_in_path :: string
  jb_out_path :: string
  jb_err_path :: string
  jb_stdout_cap :: nat
  jb_stderr_cap :: nat
  jb_stdout_fd :: int
  jb_stderr_fd :: int
  jb_progress_fd :: int
  jb_secret_broker :: "secret_broker option"
  jb_stdout_eof :: bool
  jb_stderr_eof :: bool
  jb_progress_eof :: bool
  jb_stdout_drained :: nat
  jb_stderr_drained :: nat
  jb_progress_partial :: string
  jb_progress_dropped :: bool
  jb_out_open :: bool
  jb_err_open :: bool
  jb_exited :: bool
  jb_exit_status :: int
  jb_signaled :: bool
  jb_term_signal :: int
  jb_killed_for_timeout :: bool
  jb_killed_for_output_limit :: bool
  jb_sigterm_at_ms :: "64 word"

record rt_job_progress =
  jp_job_id :: string
  jp_run_id :: string
  jp_origin_event_id :: string
  jp_record :: string

record rt_jobrunner =
  jr_jobs :: "rt_job list"
  jr_kill_grace_ms :: "64 word"
  jr_next_job_id :: nat
  jr_progress_queue :: "rt_job_progress list"
  jr_progress_head :: nat
  jr_progress_count :: nat
  jr_progress_dropped :: "64 word"

datatype read_result = Read_Bytes string | Read_Eof | Read_Again | Read_Intr | Read_Error

datatype wait_status = Wait_Exited int | Wait_Signaled int

datatype posix_signal = SIGTERM | SIGKILL

record jos =
  jo_files :: "string \<Rightarrow> string option"
  jo_reads :: "int \<Rightarrow> read_result list"
  jo_wait :: "int \<Rightarrow> wait_status option"
  jo_signals :: "(int \<times> posix_signal) list"
  jo_broker :: "secret_broker \<Rightarrow> secret_broker"

definition empty_progress :: rt_job_progress where
  "empty_progress = \<lparr>jp_job_id = [], jp_run_id = [], jp_origin_event_id = [], jp_record = []\<rparr>"

text \<open>The array of progress records is not cleared by \<open>rt_jobrunner_init\<close>: it is a parameter.\<close>

definition rt_jobrunner_init :: "rt_job_progress list \<Rightarrow> rt_jobrunner" where
  "rt_jobrunner_init queue = \<lparr>jr_jobs = [], jr_kill_grace_ms = JOB_KILL_GRACE_MS_DEFAULT, jr_next_job_id = 1,
     jr_progress_queue = queue, jr_progress_head = 0, jr_progress_count = 0, jr_progress_dropped = 0\<rparr>"

section \<open>Files and pipes\<close>

definition out_partial_path :: "rt_job \<Rightarrow> string option" where
  "out_partial_path job =
     (let p = jb_out_path job @ ''.partial'' in if length p \<ge> PATH_MAX then None else Some p)"

text \<open>
  Closing the drained stdout artifact and moving it to its final name; an empty one does not
  replace a file that the child wrote itself.
\<close>

definition finalize_out_file :: "rt_job \<Rightarrow> jos \<Rightarrow> rt_job \<times> jos" where
  "finalize_out_file job os =
     (if \<not> jb_out_open job then (job, os)
      else
        (let job1 = job\<lparr>jb_out_open := False\<rparr> in
         case out_partial_path job1 of
           None \<Rightarrow> (job1, os)
         | Some partial \<Rightarrow>
             (case jo_files os partial of
                None \<Rightarrow> (job1, os)
              | Some content \<Rightarrow>
                  if content = [] \<and> jo_files os (jb_out_path job1) \<noteq> None
                  then (job1, os\<lparr>jo_files := (jo_files os)(partial := None)\<rparr>)
                  else (job1, os\<lparr>jo_files := (jo_files os)(partial := None, jb_out_path job1 := Some content)\<rparr>))))"

definition close_pipes :: "rt_job \<Rightarrow> jos \<Rightarrow> rt_job \<times> jos" where
  "close_pipes job os =
     (case finalize_out_file (job\<lparr>jb_stdout_fd := - 1, jb_stderr_fd := - 1, jb_progress_fd := - 1,
             jb_secret_broker := None\<rparr>) os of
        (job1, os1) \<Rightarrow> (job1\<lparr>jb_err_open := False\<rparr>, os1))"

text \<open>The body of a tee file grows by what was read.\<close>

definition append_file :: "string \<Rightarrow> string \<Rightarrow> jos \<Rightarrow> jos" where
  "append_file path bytes os =
     (case jo_files os path of
        None \<Rightarrow> os
      | Some content \<Rightarrow> os\<lparr>jo_files := (jo_files os)(path := Some (content @ bytes))\<rparr>)"

datatype drain_end = Drain_More | Drain_Eof | Drain_Error

text \<open>
  The read loop of \<open>drain_pipe\<close> over the results that \<open>read\<close> gives (none left means that the
  pipe is empty, \<open>EAGAIN\<close>): the bytes read, the new total, whether the total ever exceeded the
  cap, how the loop ended and the results not used.
\<close>

fun drain_pipe :: "read_result list \<Rightarrow> nat \<Rightarrow> nat \<Rightarrow> bool \<Rightarrow> string \<Rightarrow> string \<times> nat \<times> bool \<times> drain_end \<times> read_result list" where
  "drain_pipe [] drained cap over acc = (acc, drained, over, Drain_More, [])"
| "drain_pipe (Read_Bytes b # rs) drained cap over acc =
     (let drained' = drained + length b
      in drain_pipe rs drained' cap (over \<or> (cap > 0 \<and> drained' > cap)) (acc @ b))"
| "drain_pipe (Read_Eof # rs) drained cap over acc = (acc, drained, over, Drain_Eof, rs)"
| "drain_pipe (Read_Again # rs) drained cap over acc = (acc, drained, over, Drain_More, rs)"
| "drain_pipe (Read_Intr # rs) drained cap over acc = drain_pipe rs drained cap over acc"
| "drain_pipe (Read_Error # rs) drained cap over acc = (acc, drained, over, Drain_Error, rs)"

section \<open>Progress records\<close>

definition drop_progress :: "rt_jobrunner \<Rightarrow> rt_job \<Rightarrow> rt_jobrunner \<times> rt_job" where
  "drop_progress r job = (r\<lparr>jr_progress_dropped := jr_progress_dropped r + 1\<rparr>, job\<lparr>jb_progress_dropped := True\<rparr>)"

definition queue_progress :: "rt_jobrunner \<Rightarrow> rt_job \<Rightarrow> string \<Rightarrow> rt_jobrunner \<times> rt_job" where
  "queue_progress r job record_bytes =
     (if record_bytes = [] then (r, job)
      else if length record_bytes \<ge> JOB_PROGRESS_RECORD_CAP \<or> jr_progress_count r \<ge> JOB_PROGRESS_QUEUE_CAP
        then drop_progress r job
      else
        (let slot = (jr_progress_head r + jr_progress_count r) mod JOB_PROGRESS_QUEUE_CAP;
             p = \<lparr>jp_job_id = jb_job_id job, jp_run_id = jb_run_id job,
                  jp_origin_event_id = jb_origin_event_id job, jp_record = record_bytes\<rparr>
         in (r\<lparr>jr_progress_queue := (jr_progress_queue r)[slot := p],
              jr_progress_count := jr_progress_count r + 1\<rparr>, job)))"

function progress_consume_bytes :: "rt_jobrunner \<Rightarrow> rt_job \<Rightarrow> string \<Rightarrow> rt_jobrunner \<times> rt_job" where
  "progress_consume_bytes r job bytes =
     (if bytes = [] then (r, job)
      else
        (let part = takeWhile (\<lambda>c. c \<noteq> CHR 0x0A) bytes;
             has_nl = (CHR 0x0A \<in> set bytes);
             rest = drop (length part + 1) bytes
         in if length (jb_progress_partial job) + length part \<ge> JOB_PROGRESS_PARTIAL_CAP then
              (case drop_progress r (job\<lparr>jb_progress_partial := []\<rparr>) of (r1, job1) \<Rightarrow>
                 if \<not> has_nl then (r1, job1) else progress_consume_bytes r1 job1 rest)
            else
              (let job1 = job\<lparr>jb_progress_partial := jb_progress_partial job @ part\<rparr> in
               if \<not> has_nl then (r, job1)
               else
                 (case (if jb_progress_partial job1 \<noteq> [] then queue_progress r job1 (jb_progress_partial job1)
                        else (r, job1)) of
                    (r2, job2) \<Rightarrow> progress_consume_bytes r2 (job2\<lparr>jb_progress_partial := []\<rparr>) rest))))"
  by pat_completeness auto
termination by (relation "measure (\<lambda>(r, job, bytes). length bytes)") auto

declare progress_consume_bytes.simps [simp del]

fun drain_progress_pipe :: "read_result list \<Rightarrow> rt_jobrunner \<Rightarrow> rt_job \<Rightarrow> rt_jobrunner \<times> rt_job \<times> drain_end \<times> read_result list" where
  "drain_progress_pipe [] r job = (r, job, Drain_More, [])"
| "drain_progress_pipe (Read_Bytes b # rs) r job =
     (case progress_consume_bytes r job b of (r', job') \<Rightarrow> drain_progress_pipe rs r' job')"
| "drain_progress_pipe (Read_Eof # rs) r job = (r, job, Drain_Eof, rs)"
| "drain_progress_pipe (Read_Again # rs) r job = (r, job, Drain_More, rs)"
| "drain_progress_pipe (Read_Intr # rs) r job = drain_progress_pipe rs r job"
| "drain_progress_pipe (Read_Error # rs) r job = (r, job, Drain_Error, rs)"

definition set_reads :: "int \<Rightarrow> read_result list \<Rightarrow> jos \<Rightarrow> jos" where
  "set_reads fd rs os = os\<lparr>jo_reads := (jo_reads os)(fd := rs)\<rparr>"

definition drain_stdout :: "rt_job \<Rightarrow> jos \<Rightarrow> rt_job \<times> jos" where
  "drain_stdout job os =
     (if jb_stdout_fd job \<ge> 0 \<and> \<not> jb_stdout_eof job then
        (case drain_pipe (jo_reads os (jb_stdout_fd job)) (jb_stdout_drained job) (jb_stdout_cap job) False [] of
           (bytes, drained, over, ending, rs) \<Rightarrow>
             (let os1 = set_reads (jb_stdout_fd job) rs os;
                  os2 = (case out_partial_path job of None \<Rightarrow> os1
                    | Some p \<Rightarrow> if jb_out_open job then append_file p bytes os1 else os1);
                  job1 = job\<lparr>jb_stdout_drained := drained,
                    jb_killed_for_output_limit := jb_killed_for_output_limit job \<or> over\<rparr>
              in if ending = Drain_More then (job1, os2)
                 else finalize_out_file (job1\<lparr>jb_stdout_fd := - 1, jb_stdout_eof := True\<rparr>) os2))
      else (job, os))"

definition drain_stderr :: "rt_job \<Rightarrow> jos \<Rightarrow> rt_job \<times> jos" where
  "drain_stderr job os =
     (if jb_stderr_fd job \<ge> 0 \<and> \<not> jb_stderr_eof job then
        (case drain_pipe (jo_reads os (jb_stderr_fd job)) (jb_stderr_drained job) (jb_stderr_cap job) False [] of
           (bytes, drained, over, ending, rs) \<Rightarrow>
             (let os1 = set_reads (jb_stderr_fd job) rs os;
                  os2 = (if jb_err_open job then append_file (jb_err_path job) bytes os1 else os1);
                  job1 = job\<lparr>jb_stderr_drained := drained,
                    jb_killed_for_output_limit := jb_killed_for_output_limit job \<or> over\<rparr>
              in if ending = Drain_More then (job1, os2)
                 else (job1\<lparr>jb_stderr_fd := - 1, jb_stderr_eof := True, jb_err_open := False\<rparr>, os2)))
      else (job, os))"

definition drain_progress :: "rt_jobrunner \<Rightarrow> rt_job \<Rightarrow> jos \<Rightarrow> rt_jobrunner \<times> rt_job \<times> jos" where
  "drain_progress r job os =
     (if jb_progress_fd job \<ge> 0 \<and> \<not> jb_progress_eof job then
        (case drain_progress_pipe (jo_reads os (jb_progress_fd job)) r job of
           (r1, job1, ending, rs) \<Rightarrow>
             (let os1 = set_reads (jb_progress_fd job) rs os in
              if ending = Drain_More then (r1, job1, os1)
              else
                (let job2 = job1\<lparr>jb_progress_fd := - 1, jb_progress_eof := True\<rparr> in
                 if jb_progress_partial job2 \<noteq> [] then
                   (case drop_progress r1 (job2\<lparr>jb_progress_partial := []\<rparr>) of (r2, job3) \<Rightarrow> (r2, job3, os1))
                 else (r1, job2, os1))))
      else (r, job, os))"

definition drain_pending :: "rt_jobrunner \<Rightarrow> rt_job \<Rightarrow> jos \<Rightarrow> rt_jobrunner \<times> rt_job \<times> jos" where
  "drain_pending r job os =
     (case drain_stdout job os of (job1, os1) \<Rightarrow>
      case drain_stderr job1 os1 of (job2, os2) \<Rightarrow> drain_progress r job2 os2)"

section \<open>Signals and the tick\<close>

definition send_sigterm :: "rt_job \<Rightarrow> 64 word \<Rightarrow> jos \<Rightarrow> rt_job \<times> jos" where
  "send_sigterm job now os =
     (if jb_pid job \<le> 0 \<or> jb_sigterm_at_ms job \<noteq> 0 then (job, os)
      else (job\<lparr>jb_sigterm_at_ms := now\<rparr>, os\<lparr>jo_signals := jo_signals os @ [(jb_pid job, SIGTERM)]\<rparr>))"

definition send_sigkill :: "rt_job \<Rightarrow> jos \<Rightarrow> jos" where
  "send_sigkill job os =
     (if jb_pid job \<le> 0 then os else os\<lparr>jo_signals := jo_signals os @ [(jb_pid job, SIGKILL)]\<rparr>)"

definition broker_open :: "rt_job \<Rightarrow> bool" where
  "broker_open job \<longleftrightarrow> (case jb_secret_broker job of None \<Rightarrow> False | Some b \<Rightarrow> \<not> br_closed b \<and> br_fd b \<ge> 0)"

definition service_broker :: "rt_job \<Rightarrow> jos \<Rightarrow> rt_job" where
  "service_broker job os =
     (if broker_open job then job\<lparr>jb_secret_broker := map_option (jo_broker os) (jb_secret_broker job)\<rparr> else job)"

definition enforce_deadline :: "rt_job \<Rightarrow> 64 word \<Rightarrow> jos \<Rightarrow> rt_job \<times> jos" where
  "enforce_deadline job now os =
     (if jb_deadline_ms job > 0 \<and> now \<ge> jb_deadline_ms job \<and> jb_sigterm_at_ms job = 0
      then send_sigterm (job\<lparr>jb_killed_for_timeout := True\<rparr>) now os else (job, os))"

definition enforce_output_cap :: "rt_job \<Rightarrow> 64 word \<Rightarrow> jos \<Rightarrow> rt_job \<times> jos" where
  "enforce_output_cap job now os =
     (if jb_killed_for_output_limit job \<and> jb_sigterm_at_ms job = 0 then send_sigterm job now os else (job, os))"

definition escalate :: "64 word \<Rightarrow> rt_job \<Rightarrow> 64 word \<Rightarrow> jos \<Rightarrow> jos" where
  "escalate grace job now os =
     (if jb_sigterm_at_ms job \<noteq> 0 \<and> now \<ge> jb_sigterm_at_ms job + grace then send_sigkill job os else os)"

definition reap :: "rt_jobrunner \<Rightarrow> rt_job \<Rightarrow> jos \<Rightarrow> rt_jobrunner \<times> rt_job \<times> jos" where
  "reap r job os =
     (if jb_exited job then (r, job, os)
      else
        (case jo_wait os (jb_pid job) of
           None \<Rightarrow> (r, job, os)
         | Some st \<Rightarrow>
             (let job1 = (case st of
                   Wait_Exited code \<Rightarrow> job\<lparr>jb_exit_status := code, jb_signaled := False\<rparr>
                 | Wait_Signaled sig \<Rightarrow> job\<lparr>jb_signaled := True, jb_term_signal := sig, jb_exit_status := 128 + sig\<rparr>)
              in drain_pending r (job1\<lparr>jb_exited := True\<rparr>) os)))"

definition broker_done :: "rt_job \<Rightarrow> bool" where
  "broker_done job \<longleftrightarrow> (case jb_secret_broker job of None \<Rightarrow> True | Some b \<Rightarrow> br_closed b)"

definition settle :: "rt_job \<Rightarrow> rt_job" where
  "settle job =
     (if jb_exited job \<and> jb_stdout_eof job \<and> jb_stderr_eof job \<and> jb_progress_eof job \<and> broker_done job then
        job\<lparr>jb_state := (if jb_exit_status job = 0 \<and> \<not> jb_killed_for_timeout job \<and> \<not> jb_killed_for_output_limit job
                        then JOB_FINISHED else JOB_FAILED)\<rparr>
      else job)"

definition tick_job :: "64 word \<Rightarrow> rt_jobrunner \<Rightarrow> rt_job \<Rightarrow> jos \<Rightarrow> rt_jobrunner \<times> rt_job \<times> jos" where
  "tick_job now r job os =
     (if jb_state job \<noteq> JOB_RUNNING then (r, job, os)
      else
        (case drain_pending r (service_broker job os) os of (r1, job1, os1) \<Rightarrow>
         case enforce_deadline job1 now os1 of (job2, os2) \<Rightarrow>
         case enforce_output_cap job2 now os2 of (job3, os3) \<Rightarrow>
         case reap r1 job3 (escalate (jr_kill_grace_ms r1) job3 now os3) of (r4, job4, os4) \<Rightarrow>
           (r4, settle job4, os4)))"

text \<open>The loop over the job list; the runner's other fields are threaded through it.\<close>

fun tick_jobs :: "64 word \<Rightarrow> rt_job list \<Rightarrow> rt_jobrunner \<Rightarrow> jos \<Rightarrow> rt_job list \<times> rt_jobrunner \<times> jos" where
  "tick_jobs now [] r os = ([], r, os)"
| "tick_jobs now (job # jobs) r os =
     (case tick_job now r job os of (r1, job1, os1) \<Rightarrow>
      case tick_jobs now jobs r1 os1 of (jobs', r2, os2) \<Rightarrow> (job1 # jobs', r2, os2))"

definition rt_jobrunner_tick :: "rt_jobrunner \<Rightarrow> 64 word \<Rightarrow> jos \<Rightarrow> rt_jobrunner \<times> jos" where
  "rt_jobrunner_tick r now os =
     (case tick_jobs now (jr_jobs r) r os of (jobs, r', os') \<Rightarrow> (r'\<lparr>jr_jobs := jobs\<rparr>, os'))"

section \<open>Launching\<close>

text \<open>
  What the operating system answers during a launch: whether each call succeeded, the read
  ends of the pipes, the broker and the process id (\<open>None\<close> when \<open>fork\<close> fails). The child's side
  between \<open>fork\<close> and \<open>exec\<close> is another process.
\<close>

record launch_os =
  lo_alloc_ok :: bool
  lo_out_file_ok :: bool
  lo_err_file_ok :: bool
  lo_pipe_out :: "int option"
  lo_pipe_err :: "int option"
  lo_pipe_progress :: "int option"
  lo_broker :: "secret_broker option"
  lo_pid :: "int option"
  lo_now_ms :: "64 word"

record launch_args =
  la_in_path :: string
  la_out_path :: string
  la_err_path :: string
  la_kind :: job_kind
  la_run_id :: string
  la_origin_event_id :: string
  la_step_id :: string
  la_request_id :: string
  la_bound_task_id :: string
  la_bound_work_rev :: int
  la_action_id :: string
  la_private_credentials :: bool
  la_deadline_ms :: "64 word"
  la_stdout_cap :: nat
  la_stderr_cap :: nat

definition show_pad3 :: "nat \<Rightarrow> string" where
  "show_pad3 n = (let s = show_nat n in replicate (3 - length s) (CHR ''0'') @ s)"

definition new_job :: "nat \<Rightarrow> launch_args \<Rightarrow> 64 word \<Rightarrow> rt_job" where
  "new_job n a now =
     \<lparr>jb_ref = n, jb_kind = la_kind a, jb_state = JOB_RUNNING,
      jb_job_id = copy_into RT_SMALL (''job_'' @ show_pad3 n),
      jb_run_id = copy_into RT_SMALL (la_run_id a),
      jb_origin_event_id = copy_into RT_SMALL (la_origin_event_id a),
      jb_step_id = copy_into RT_SMALL (la_step_id a),
      jb_request_id = copy_into RT_SMALL (la_request_id a),
      jb_bound_task_id = copy_into RT_SMALL (la_bound_task_id a),
      jb_bound_work_rev = la_bound_work_rev a, jb_pid = 0, jb_launched_ms = now,
      jb_deadline_ms = la_deadline_ms a, jb_in_path = copy_into PATH_MAX (la_in_path a),
      jb_out_path = copy_into PATH_MAX (la_out_path a), jb_err_path = copy_into PATH_MAX (la_err_path a),
      jb_stdout_cap = (if la_stdout_cap a > 0 then la_stdout_cap a else JOB_OUTPUT_CAP_STDOUT_DEFAULT),
      jb_stderr_cap = (if la_stderr_cap a > 0 then la_stderr_cap a else JOB_OUTPUT_CAP_STDERR_DEFAULT),
      jb_stdout_fd = - 1, jb_stderr_fd = - 1, jb_progress_fd = - 1, jb_secret_broker = None,
      jb_stdout_eof = False, jb_stderr_eof = False, jb_progress_eof = (la_kind a \<noteq> JOB_AGENT),
      jb_stdout_drained = 0, jb_stderr_drained = 0, jb_progress_partial = [], jb_progress_dropped = False,
      jb_out_open = False, jb_err_open = False, jb_exited = False, jb_exit_status = 0, jb_signaled = False,
      jb_term_signal = 0, jb_killed_for_timeout = False, jb_killed_for_output_limit = False,
      jb_sigterm_at_ms = 0\<rparr>"

definition launch_ready :: "launch_args \<Rightarrow> launch_os \<Rightarrow> bool" where
  "launch_ready a lo \<longleftrightarrow> lo_out_file_ok lo \<and> lo_err_file_ok lo \<and> lo_pipe_out lo \<noteq> None \<and> lo_pipe_err lo \<noteq> None \<and>
     (la_kind a = JOB_AGENT \<longrightarrow> lo_pipe_progress lo \<noteq> None) \<and>
     (la_private_credentials a \<longrightarrow> la_action_id a \<noteq> [] \<and> lo_broker lo \<noteq> None) \<and> lo_pid lo \<noteq> None"

text \<open>The parent's side behind \<open>fork\<close>: the job gets its process and the read ends and joins the list.\<close>

definition launch_commit :: "launch_args \<Rightarrow> launch_os \<Rightarrow> rt_job \<Rightarrow> rt_jobrunner \<Rightarrow> rt_jobrunner" where
  "launch_commit a lo job r =
     r\<lparr>jr_jobs := job\<lparr>jb_pid := the (lo_pid lo), jb_stdout_fd := the (lo_pipe_out lo),
         jb_stderr_fd := the (lo_pipe_err lo),
         jb_progress_fd := (if la_kind a = JOB_AGENT then the (lo_pipe_progress lo) else - 1),
         jb_secret_broker := (if la_private_credentials a then lo_broker lo else None),
         jb_out_open := True, jb_err_open := True\<rparr> # jr_jobs r\<rparr>"

text \<open>The label \<open>fail\<close>: the artifact that was opened is removed again; the error file stays.\<close>

definition launch_cleanup :: "launch_os \<Rightarrow> string \<Rightarrow> (string \<Rightarrow> string option) \<Rightarrow> string \<Rightarrow> string option" where
  "launch_cleanup lo partial files = (if lo_out_file_ok lo then files(partial := None) else files)"

definition rt_jobrunner_launch :: "rt_jobrunner \<Rightarrow> launch_args \<Rightarrow> launch_os \<Rightarrow> jos \<Rightarrow> int \<times> rt_jobrunner \<times> jos" where
  "rt_jobrunner_launch r a lo os =
     (if \<not> lo_alloc_ok lo then (- 1, r, os)
      else
        (let job = new_job (jr_next_job_id r) a (lo_now_ms lo);
             r1 = r\<lparr>jr_next_job_id := jr_next_job_id r + 1\<rparr>
         in case out_partial_path job of
              None \<Rightarrow> (- 1, r1, os)
            | Some partial \<Rightarrow>
                (let files = (if lo_err_file_ok lo then (jo_files os)(jb_err_path job := Some []) else jo_files os) in
                 if launch_ready a lo then
                   (0, launch_commit a lo job r1, os\<lparr>jo_files := files(partial := Some [])\<rparr>)
                 else (- 1, r1, os\<lparr>jo_files := launch_cleanup lo partial files\<rparr>))))"

section \<open>Queries, popping and shutdown\<close>

definition rt_jobrunner_collect_fds :: "nat \<Rightarrow> rt_jobrunner \<Rightarrow> (secret_broker \<Rightarrow> int) \<Rightarrow> pollset \<Rightarrow> pollset" where
  "rt_jobrunner_collect_fds own r broker_events ps =
     fold (\<lambda>j ps0.
       if jb_state j \<noteq> JOB_RUNNING then ps0
       else
         (let add = (\<lambda>c fd ev ps. if c then snd (fc_pollset_add ps fd ev own (jb_ref j)) else ps);
              ps1 = add (jb_stdout_fd j \<ge> 0 \<and> \<not> jb_stdout_eof j) (jb_stdout_fd j) 1 ps0;
              ps2 = add (jb_stderr_fd j \<ge> 0 \<and> \<not> jb_stderr_eof j) (jb_stderr_fd j) 1 ps1;
              ps3 = add (jb_progress_fd j \<ge> 0 \<and> \<not> jb_progress_eof j) (jb_progress_fd j) 1 ps2
          in case jb_secret_broker j of
               None \<Rightarrow> ps3
             | Some b \<Rightarrow> add (broker_open j) (br_fd b) (broker_events b) ps3))
       (jr_jobs r) ps"

text \<open>\<open>relevant\<close> says whether the events include one of the four poll flags tested.\<close>

definition rt_jobrunner_on_fd :: "rt_jobrunner \<Rightarrow> int \<Rightarrow> bool \<Rightarrow> nat \<Rightarrow> jos \<Rightarrow> rt_jobrunner \<times> jos" where
  "rt_jobrunner_on_fd r fd relevant tag os =
     (case find_index (\<lambda>j. jb_ref j = tag) (jr_jobs r) of
        None \<Rightarrow> (r, os)
      | Some i \<Rightarrow>
          if \<not> relevant then (r, os)
          else
            (let job = jr_jobs r ! i in
             case (if fd = jb_stdout_fd job \<or> fd = jb_stderr_fd job \<or> fd = jb_progress_fd job
                   then drain_pending r job os else (r, job, os)) of
               (r1, job1, os1) \<Rightarrow>
                 (let job2 = (case jb_secret_broker job1 of
                        None \<Rightarrow> job1
                      | Some b \<Rightarrow> if fd = br_fd b then job1\<lparr>jb_secret_broker := Some (jo_broker os1 b)\<rparr> else job1)
                  in (r1\<lparr>jr_jobs := (jr_jobs r)[i := job2]\<rparr>, os1))))"

definition rt_jobrunner_count_active :: "rt_jobrunner \<Rightarrow> job_kind \<Rightarrow> nat" where
  "rt_jobrunner_count_active r kind =
     length (filter (\<lambda>j. jb_state j = JOB_RUNNING \<and> jb_kind j = kind) (jr_jobs r))"

definition rt_jobrunner_count_active_all :: "rt_jobrunner \<Rightarrow> nat" where
  "rt_jobrunner_count_active_all r = length (filter (\<lambda>j. jb_state j = JOB_RUNNING) (jr_jobs r))"

definition rt_jobrunner_progress_pop :: "rt_jobrunner \<Rightarrow> rt_job_progress option \<times> rt_jobrunner" where
  "rt_jobrunner_progress_pop r =
     (if jr_progress_count r = 0 then (None, r)
      else
        (Some (jr_progress_queue r ! jr_progress_head r),
         r\<lparr>jr_progress_queue := (jr_progress_queue r)[jr_progress_head r := empty_progress],
           jr_progress_head := (jr_progress_head r + 1) mod JOB_PROGRESS_QUEUE_CAP,
           jr_progress_count := jr_progress_count r - 1\<rparr>))"

fun cancel_jobs :: "string \<Rightarrow> 64 word \<Rightarrow> rt_job list \<Rightarrow> jos \<Rightarrow> nat \<times> rt_job list \<times> jos" where
  "cancel_jobs run_id now [] os = (0, [], os)"
| "cancel_jobs run_id now (j # js) os =
     (if jb_state j \<noteq> JOB_RUNNING \<or> jb_run_id j \<noteq> run_id then
        (case cancel_jobs run_id now js os of (n, js', os') \<Rightarrow> (n, j # js', os'))
      else
        (case send_sigterm j now os of (j', os1) \<Rightarrow>
         case cancel_jobs run_id now js os1 of (n, js', os') \<Rightarrow> (n + 1, j' # js', os')))"

definition rt_jobrunner_cancel_run :: "rt_jobrunner \<Rightarrow> string \<Rightarrow> 64 word \<Rightarrow> jos \<Rightarrow> nat \<times> rt_jobrunner \<times> jos" where
  "rt_jobrunner_cancel_run r run_id now os =
     (if run_id = [] then (0, r, os)
      else
        (case cancel_jobs run_id now (jr_jobs r) os of (n, jobs, os') \<Rightarrow> (n, r\<lparr>jr_jobs := jobs\<rparr>, os')))"

definition rt_jobrunner_pop_finished :: "rt_jobrunner \<Rightarrow> rt_job option \<times> rt_jobrunner" where
  "rt_jobrunner_pop_finished r =
     (case find_index (\<lambda>j. jb_state j = JOB_FINISHED \<or> jb_state j = JOB_FAILED) (jr_jobs r) of
        None \<Rightarrow> (None, r)
      | Some i \<Rightarrow> (Some (jr_jobs r ! i), r\<lparr>jr_jobs := remove_nth i (jr_jobs r)\<rparr>))"

definition unlink_job :: "rt_job list \<Rightarrow> rt_job \<Rightarrow> rt_job list" where
  "unlink_job jobs job =
     (case find_index (\<lambda>j. jb_ref j = jb_ref job) jobs of None \<Rightarrow> jobs | Some i \<Rightarrow> remove_nth i jobs)"

definition rt_jobrunner_release :: "rt_jobrunner \<Rightarrow> rt_job \<Rightarrow> jos \<Rightarrow> rt_jobrunner \<times> jos" where
  "rt_jobrunner_release r job os =
     (r\<lparr>jr_jobs := unlink_job (jr_jobs r) job\<rparr>, snd (close_pipes job os))"

fun rt_jobrunner_destroy :: "rt_job list \<Rightarrow> jos \<Rightarrow> jos" where
  "rt_jobrunner_destroy [] os = os"
| "rt_jobrunner_destroy (j # js) os = rt_jobrunner_destroy js (snd (close_pipes j os))"

definition still_running :: "rt_jobrunner \<Rightarrow> bool" where
  "still_running r \<longleftrightarrow> list_ex (\<lambda>j. jb_state j = JOB_RUNNING) (jr_jobs r)"

definition signal_running :: "posix_signal \<Rightarrow> rt_job list \<Rightarrow> jos \<Rightarrow> jos" where
  "signal_running sig jobs os =
     os\<lparr>jo_signals := jo_signals os @
        map (\<lambda>j. (jb_pid j, sig)) (filter (\<lambda>j. jb_state j = JOB_RUNNING \<and> jb_pid j > 0) jobs)\<rparr>"

text \<open>
  The two waiting loops of \<open>rt_jobrunner_shutdown_all\<close>. The clock readings come from outside, the one
  taken after the SIGTERM of a job as \<open>term_at\<close> of its number:
  each turn of the first loop reads the clock for its test and for the tick, and the loop ends at
  the deadline at the latest; the second loop makes at most fifty turns.
\<close>

fun reap_until :: "64 word \<Rightarrow> (64 word \<times> 64 word) list \<Rightarrow> rt_jobrunner \<Rightarrow> jos \<Rightarrow> rt_jobrunner \<times> jos" where
  "reap_until deadline [] r os = (r, os)"
| "reap_until deadline ((test, now) # clock) r os =
     (if \<not> test < deadline then (r, os)
      else
        (case rt_jobrunner_tick r now os of (r1, os1) \<Rightarrow>
           if \<not> still_running r1 then (r1, os1) else reap_until deadline clock r1 os1))"

fun reap_retries :: "64 word list \<Rightarrow> rt_jobrunner \<Rightarrow> jos \<Rightarrow> rt_jobrunner \<times> jos" where
  "reap_retries [] r os = (r, os)"
| "reap_retries (now # clock) r os =
     (case rt_jobrunner_tick r now os of (r1, os1) \<Rightarrow>
        if \<not> still_running r1 then (r1, os1) else reap_retries clock r1 os1)"

function release_finished :: "rt_jobrunner \<Rightarrow> jos \<Rightarrow> rt_jobrunner \<times> jos" where
  "release_finished r os =
     (case rt_jobrunner_pop_finished r of
        (None, r1) \<Rightarrow> (r1, os)
      | (Some j, r1) \<Rightarrow> (case rt_jobrunner_release r1 j os of (r2, os2) \<Rightarrow> release_finished r2 os2))"
  by pat_completeness auto

lemma pop_finished_shorter:
  "rt_jobrunner_pop_finished r = (Some j, r1) \<Longrightarrow> length (jr_jobs r1) < length (jr_jobs r)"
  by (auto simp: rt_jobrunner_pop_finished_def split: option.splits dest!: find_index_SomeD)

termination release_finished
  by (relation "measure (\<lambda>(r, os). length (jr_jobs r))")
    (auto simp: rt_jobrunner_release_def unlink_job_def split: option.splits
      dest!: pop_finished_shorter [OF sym] find_index_SomeD)

declare release_finished.simps [simp del]

definition rt_jobrunner_shutdown_all ::
  "rt_jobrunner \<Rightarrow> 64 word \<Rightarrow> 64 word \<Rightarrow> (nat \<Rightarrow> 64 word) \<Rightarrow> (64 word \<times> 64 word) list \<Rightarrow> 64 word list \<Rightarrow> jos \<Rightarrow> rt_jobrunner \<times> jos" where
  "rt_jobrunner_shutdown_all r grace started term_at clock retries os =
     (let deadline = started + (if grace = 0 then jr_kill_grace_ms r else grace);
          os1 = signal_running SIGTERM (jr_jobs r) os;
          r1 = r\<lparr>jr_jobs := map (\<lambda>j. if jb_state j = JOB_RUNNING \<and> jb_pid j > 0
                              then j\<lparr>jb_sigterm_at_ms := term_at (jb_ref j)\<rparr> else j) (jr_jobs r)\<rparr>
      in case reap_until deadline clock r1 os1 of (r2, os2) \<Rightarrow>
         case reap_retries (take 50 retries) r2 (signal_running SIGKILL (jr_jobs r2) os2) of (r3, os3) \<Rightarrow>
           release_finished r3 os3)"

section \<open>The reactor module\<close>

fun jr_deadline_loop :: "64 word \<Rightarrow> rt_job list \<Rightarrow> 64 word \<Rightarrow> 64 word" where
  "jr_deadline_loop grace [] earliest = earliest"
| "jr_deadline_loop grace (j # js) earliest =
     (if jb_state j \<noteq> JOB_RUNNING then jr_deadline_loop grace js earliest
      else
        (let e1 = (if jb_deadline_ms j > 0 \<and> jb_deadline_ms j < earliest then jb_deadline_ms j else earliest);
             kill_at = jb_sigterm_at_ms j + grace;
             e2 = (if jb_sigterm_at_ms j \<noteq> 0 \<and> kill_at < e1 then kill_at else e1)
         in jr_deadline_loop grace js e2))"

definition jr_next_deadline :: "rt_jobrunner \<Rightarrow> 64 word" where
  "jr_next_deadline r = jr_deadline_loop (jr_kill_grace_ms r) (jr_jobs r) FC_NO_DEADLINE"

text \<open>
  The module's callbacks on the pair of the runner and the operating system. \<open>own\<close> is the
  module's handle and \<open>wanted\<close> tests the poll flags of an event mask.
\<close>

definition jobrunner_module ::
  "nat \<Rightarrow> (secret_broker \<Rightarrow> int) \<Rightarrow> (int \<Rightarrow> bool) \<Rightarrow> (rt_jobrunner \<times> jos) module_ops" where
  "jobrunner_module own broker_events wanted =
     \<lparr>mo_init = Some (\<lambda>w. (0, w)),
      mo_collect_fds = Some (\<lambda>ps (r, os). (0, rt_jobrunner_collect_fds own r broker_events ps, (r, os))),
      mo_on_fd = Some (\<lambda>fd events tag (r, os). (0, rt_jobrunner_on_fd r fd (wanted events) tag os)),
      mo_tick = Some (\<lambda>now (r, os). (0, rt_jobrunner_tick r now os)),
      mo_shutdown = Some (\<lambda>w. w),
      mo_next_deadline_ms = Some (\<lambda>now (r, os). (jr_next_deadline r, (r, os)))\<rparr>"

end
