(* ===== verification/Jobrunner_Ring.thy ===== *)
theory Jobrunner_Ring
  imports Jobrunner
begin

text \<open>
  The ring of progress records in \<open>runtime/gateway/jobrunner.c\<close> refines a bounded first-in
  first-out queue. The contract is the locale \<open>bounded_fifo\<close>, interpreted on the runner's own
  \<open>queue_progress\<close> and \<open>rt_jobrunner_progress_pop\<close>.
\<close>

section \<open>The progress ring as a queue\<close>

datatype 'x queue_op = Q_Push 'x | Q_Pop

text \<open>The specification: a list of at most \<open>cap\<close> entries; \<open>entry\<close> says what an input enters as.\<close>

fun fifo_run :: "('x \<Rightarrow> 'a option) \<Rightarrow> nat \<Rightarrow> 'x queue_op list \<Rightarrow> 'a list \<Rightarrow> 'a option list \<times> 'a list" where
  "fifo_run entry cap [] q = ([], q)"
| "fifo_run entry cap (Q_Push x # ops) q =
     fifo_run entry cap ops (case entry x of None \<Rightarrow> q | Some a \<Rightarrow> if length q < cap then q @ [a] else q)"
| "fifo_run entry cap (Q_Pop # ops) q =
     (case q of
        [] \<Rightarrow> (case fifo_run entry cap ops [] of (outs, q') \<Rightarrow> (None # outs, q'))
      | a # q1 \<Rightarrow> (case fifo_run entry cap ops q1 of (outs, q') \<Rightarrow> (Some a # outs, q')))"

fun queue_run :: "('s \<Rightarrow> 'x \<Rightarrow> 's) \<Rightarrow> ('s \<Rightarrow> 'a option \<times> 's) \<Rightarrow> 'x queue_op list \<Rightarrow> 's \<Rightarrow> 'a option list \<times> 's" where
  "queue_run push pop [] s = ([], s)"
| "queue_run push pop (Q_Push x # ops) s = queue_run push pop ops (push s x)"
| "queue_run push pop (Q_Pop # ops) s =
     (case pop s of (a, s1) \<Rightarrow> case queue_run push pop ops s1 of (outs, s') \<Rightarrow> (a # outs, s'))"

locale bounded_fifo =
  fixes push :: "'s \<Rightarrow> 'x \<Rightarrow> 's" and pop :: "'s \<Rightarrow> 'a option \<times> 's" and view :: "'s \<Rightarrow> 'a list"
    and inv :: "'s \<Rightarrow> bool" and entry :: "'x \<Rightarrow> 'a option" and cap :: nat
  assumes push_inv: "inv s \<Longrightarrow> inv (push s x)"
    and pop_inv: "inv s \<Longrightarrow> inv (snd (pop s))"
    and view_push: "inv s \<Longrightarrow> view (push s x) =
      (case entry x of None \<Rightarrow> view s | Some a \<Rightarrow> if length (view s) < cap then view s @ [a] else view s)"
    and pop_empty: "inv s \<Longrightarrow> view s = [] \<Longrightarrow> pop s = (None, s)"
    and pop_view: "inv s \<Longrightarrow> view s = a # q \<Longrightarrow> fst (pop s) = Some a \<and> view (snd (pop s)) = q"
begin

lemma run_refines:
  "inv s \<Longrightarrow> queue_run push pop ops s = (outs, s') \<Longrightarrow>
     inv s' \<and> fifo_run entry cap ops (view s) = (outs, view s')"
proof (induction ops arbitrary: s outs)
  case (Cons op ops)
  show ?case
  proof (cases op)
    case (Q_Push x)
    then show ?thesis using Cons.IH [OF push_inv [OF Cons.prems(1)]] Cons.prems by (simp add: view_push)
  next
    case Q_Pop
    obtain a s1 where p: "pop s = (a, s1)" by fastforce
    obtain os where r: "queue_run push pop ops s1 = (os, s')" "outs = a # os"
      using Cons.prems Q_Pop p by (auto split: prod.splits)
    have IH: "inv s' \<and> fifo_run entry cap ops (view s1) = (os, view s')"
      using Cons.IH [of s1 os] pop_inv [OF Cons.prems(1)] p r by simp
    show ?thesis
    proof (cases "view s")
      case Nil
      then show ?thesis using pop_empty [OF Cons.prems(1)] p r IH Q_Pop by simp
    next
      case (Cons b q)
      then show ?thesis using pop_view [OF \<open>inv s\<close> Cons] p r IH Q_Pop by simp
    qed
  qed
qed simp

lemma run_bounded:
  "inv s \<Longrightarrow> length (view s) \<le> cap \<Longrightarrow> queue_run push pop ops s = (outs, s') \<Longrightarrow> length (view s') \<le> cap"
proof (induction ops arbitrary: s outs)
  case (Cons op ops)
  show ?case
  proof (cases op)
    case (Q_Push x)
    have "length (view (push s x)) \<le> cap"
      using Cons.prems by (auto simp: view_push split: option.splits)
    then show ?thesis using Cons.IH [OF push_inv [OF Cons.prems(1)]] Cons.prems Q_Push by simp
  next
    case Q_Pop
    have "length (view (snd (pop s))) \<le> cap"
      using Cons.prems pop_empty [of s] pop_view [of s] by (cases "view s") auto
    then show ?thesis using Cons.IH [OF pop_inv [OF Cons.prems(1)]] Cons.prems Q_Pop by (auto split: prod.splits)
  qed
qed simp

end

definition ring_inv :: "rt_jobrunner \<Rightarrow> bool" where
  "ring_inv r \<longleftrightarrow> length (jr_progress_queue r) = 64 \<and> jr_progress_head r < 64 \<and> jr_progress_count r \<le> 64"

definition ring_view :: "rt_jobrunner \<Rightarrow> rt_job_progress list" where
  "ring_view r = map (\<lambda>i. jr_progress_queue r ! ((jr_progress_head r + i) mod 64)) [0..<jr_progress_count r]"

definition progress_entry :: "rt_job \<times> string \<Rightarrow> rt_job_progress option" where
  "progress_entry x = (case x of (job, bytes) \<Rightarrow>
     if bytes = [] \<or> length bytes \<ge> JOB_PROGRESS_RECORD_CAP then None
     else Some \<lparr>jp_job_id = jb_job_id job, jp_run_id = jb_run_id job,
                jp_origin_event_id = jb_origin_event_id job, jp_record = bytes\<rparr>)"

definition ring_push :: "rt_jobrunner \<Rightarrow> rt_job \<times> string \<Rightarrow> rt_jobrunner" where
  "ring_push r x = (case x of (job, bytes) \<Rightarrow> fst (queue_progress r job bytes))"

lemma ring_slots_ordered: "(h + i) mod n = (h + c) mod n \<Longrightarrow> i \<le> c \<Longrightarrow> c < n \<Longrightarrow> i = (c::nat)"
  using mod_eq_dvd_iff_nat [of "h + i" "h + c" n] dvd_imp_le [of n "c - i"] by fastforce

lemma ring_slots_differ: "(h + i) mod n = (h + c) mod n \<Longrightarrow> i < n \<Longrightarrow> c < n \<Longrightarrow> i = (c::nat)"
  using ring_slots_ordered [of h i n c] ring_slots_ordered [of h c n i] by linarith

lemma length_ring_view [simp]: "length (ring_view r) = jr_progress_count r"
  by (simp add: ring_view_def)

lemma queue_progress_inv: "ring_inv r \<Longrightarrow> ring_inv (fst (queue_progress r job b))"
  by (auto simp: ring_inv_def queue_progress_def drop_progress_def JOB_PROGRESS_QUEUE_CAP_def Let_def)

lemma progress_pop_inv: "ring_inv r \<Longrightarrow> ring_inv (snd (rt_jobrunner_progress_pop r))"
  by (auto simp: ring_inv_def rt_jobrunner_progress_pop_def JOB_PROGRESS_QUEUE_CAP_def)

lemma ring_view_push:
  assumes "ring_inv r"
  shows "ring_view (ring_push r x) =
    (case progress_entry x of None \<Rightarrow> ring_view r
     | Some a \<Rightarrow> if length (ring_view r) < 64 then ring_view r @ [a] else ring_view r)"
proof -
  obtain job b where x: "x = (job, b)" by (cases x)
  show ?thesis
  proof (cases "b = [] \<or> length b \<ge> JOB_PROGRESS_RECORD_CAP \<or> jr_progress_count r \<ge> 64")
    case True
    then show ?thesis
      by (auto simp: x ring_push_def progress_entry_def queue_progress_def drop_progress_def ring_view_def JOB_PROGRESS_QUEUE_CAP_def)
  next
    case False
    let ?slot = "(jr_progress_head r + jr_progress_count r) mod 64"
    have e: "progress_entry x = Some \<lparr>jp_job_id = jb_job_id job, jp_run_id = jb_run_id job,
        jp_origin_event_id = jb_origin_event_id job, jp_record = b\<rparr>" (is "_ = Some ?p")
      using False by (simp add: x progress_entry_def)
    have p: "ring_push r x = r\<lparr>jr_progress_queue := (jr_progress_queue r)[?slot := ?p],
        jr_progress_count := jr_progress_count r + 1\<rparr>"
      using False by (simp add: x ring_push_def queue_progress_def JOB_PROGRESS_QUEUE_CAP_def Let_def)
    have "(jr_progress_queue r)[?slot := ?p] ! ((jr_progress_head r + i) mod 64) =
        jr_progress_queue r ! ((jr_progress_head r + i) mod 64)" if "i < jr_progress_count r" for i
    proof -
      have "(jr_progress_head r + i) mod 64 \<noteq> ?slot"
        using ring_slots_differ [of "jr_progress_head r" i 64 "jr_progress_count r"] that False by auto
      then show ?thesis by simp
    qed
    moreover have "?slot < length (jr_progress_queue r)" using assms by (simp add: ring_inv_def)
    ultimately show ?thesis using False by (simp add: e p ring_view_def)
  qed
qed

lemma ring_view_pop:
  assumes "ring_inv r" and "ring_view r = a # q"
  shows "fst (rt_jobrunner_progress_pop r) = Some a \<and> ring_view (snd (rt_jobrunner_progress_pop r)) = q"
proof -
  obtain n where n: "jr_progress_count r = Suc n" "n < 64"
    using assms length_ring_view [of r] by (cases "jr_progress_count r") (auto simp: ring_inv_def)
  have v: "a = jr_progress_queue r ! jr_progress_head r"
     "q = map (\<lambda>i. jr_progress_queue r ! ((jr_progress_head r + Suc i) mod 64)) [0..<n]"
    using assms n by (simp_all add: ring_view_def ring_inv_def map_upt_Suc del: upt_Suc)
  have s: "((jr_progress_head r + 1) mod 64 + i) mod 64 = (jr_progress_head r + Suc i) mod 64" for i
    by (simp add: mod_simps)
  have "(jr_progress_queue r)[jr_progress_head r := empty_progress] ! (((jr_progress_head r + 1) mod 64 + i) mod 64) =
      jr_progress_queue r ! ((jr_progress_head r + Suc i) mod 64)" if "i < n" for i
  proof -
    have "(jr_progress_head r + Suc i) mod 64 \<noteq> jr_progress_head r"
      using assms(1) n that ring_slots_differ [of "jr_progress_head r" "Suc i" 64 0] by (auto simp: ring_inv_def)
    then show ?thesis unfolding s by simp
  qed
  then show ?thesis using n v
    by (simp add: rt_jobrunner_progress_pop_def ring_view_def JOB_PROGRESS_QUEUE_CAP_def)
qed

interpretation ring: bounded_fifo ring_push rt_jobrunner_progress_pop ring_view ring_inv progress_entry 64
proof
  show "ring_inv s \<Longrightarrow> ring_inv (ring_push s x)" for s x
    by (cases x) (simp add: ring_push_def queue_progress_inv)
  show "ring_inv s \<Longrightarrow> ring_view s = [] \<Longrightarrow> rt_jobrunner_progress_pop s = (None, s)" for s
    using length_ring_view [of s] by (simp add: rt_jobrunner_progress_pop_def)
qed (auto simp: progress_pop_inv ring_view_push dest: ring_view_pop)

text \<open>
  C9. The 64-slot ring of progress records behaves as a bounded first-in first-out queue: for any
  interleaving of records queued by any jobs and records popped, the popped records are exactly those of the
  list specification, which enters a record (non-empty and below 4096 bytes) at the back unless
  64 are already waiting. No record is overwritten, reordered or delivered twice.
\<close>

theorem progress_queue_fifo:
  assumes "queue_run ring_push rt_jobrunner_progress_pop ops (rt_jobrunner_init slots) = (outs, r)"
    and "length slots = 64"
  shows "fifo_run progress_entry 64 ops [] = (outs, ring_view r) \<and> length (ring_view r) \<le> 64"
proof -
  have i: "ring_inv (rt_jobrunner_init slots)" "ring_view (rt_jobrunner_init slots) = []"
    using assms(2) by (simp_all add: ring_inv_def ring_view_def rt_jobrunner_init_def)
  show ?thesis using ring.run_refines [OF i(1) assms(1)] ring.run_bounded [OF i(1) _ assms(1)] i(2) by simp
qed

definition sample_job :: "string \<Rightarrow> rt_job" where
  "sample_job run = (new_job 1 \<lparr>la_in_path = ''in'', la_out_path = ''out'', la_err_path = ''err'', la_kind = JOB_AGENT,
     la_run_id = run, la_origin_event_id = ''ev'', la_step_id = [], la_request_id = [], la_bound_task_id = [],
     la_bound_work_rev = 0, la_action_id = [], la_private_credentials = False, la_deadline_ms = 500,
     la_stdout_cap = 10, la_stderr_cap = 10\<rparr> 100)\<lparr>jb_pid := 77, jb_stdout_fd := 5, jb_stderr_fd := 6,
     jb_progress_fd := 7, jb_out_open := True, jb_err_open := True\<rparr>"

theorem progress_queue_fifo_witness:
  "fst (fifo_run progress_entry 64 [Q_Pop, Q_Push (sample_job ''r'', ''ab''), Q_Pop] []) =
     [None, Some \<lparr>jp_job_id = ''job_001'', jp_run_id = ''r'', jp_origin_event_id = ''ev'', jp_record = ''ab''\<rparr>]"
proof -
  have "queue_run ring_push rt_jobrunner_progress_pop [Q_Pop, Q_Push (sample_job ''r'', ''ab''), Q_Pop]
      (rt_jobrunner_init (replicate 64 empty_progress)) =
    ([None, Some \<lparr>jp_job_id = ''job_001'', jp_run_id = ''r'', jp_origin_event_id = ''ev'', jp_record = ''ab''\<rparr>],
     (rt_jobrunner_init (replicate 64 empty_progress))\<lparr>jr_progress_head := 1\<rparr>)"
    by code_simp
  from progress_queue_fifo [OF this] show ?thesis by simp
qed

end
