(* ===== verification/Reactor_Laws.thy ===== *)
theory Reactor_Laws
  imports Reactor
begin

text \<open>
  Laws of the reactor: the poll set never exceeds its array and accounts for every refused
  descriptor, the poll timeout reaches the earliest deadline and never sleeps past it, and the
  statistics stay consistent through any number of passes.
\<close>

section \<open>The poll set contract\<close>

definition pollset_inv :: "pollset \<Rightarrow> bool" where
  "pollset_inv ps \<longleftrightarrow> length (ps_entries ps) \<le> FC_POLL_MAX_FDS \<and> list_all (\<lambda>e. pe_fd e \<ge> 0) (ps_entries ps)"

lemma pollset_empty_inv [simp]: "pollset_inv \<lparr>ps_entries = [], ps_overflows = n\<rparr>"
  by (simp add: pollset_inv_def)

lemma pollset_add_inv [store_inv]: "pollset_inv ps \<Longrightarrow> pollset_inv (snd (fc_pollset_add ps fd ev own tag))"
  by (auto simp: pollset_inv_def fc_pollset_add_def)

text \<open>Adding a batch of descriptors, as every module's \<open>collect_fds\<close> does.\<close>

fun add_fds :: "(int \<times> int \<times> nat \<times> nat) list \<Rightarrow> pollset \<Rightarrow> pollset" where
  "add_fds [] ps = ps"
| "add_fds ((fd, ev, own, tag) # fds) ps = add_fds fds (snd (fc_pollset_add ps fd ev own tag))"

lemma add_fds_append: "add_fds (xs @ ys) ps = add_fds ys (add_fds xs ps)"
  by (induction xs ps rule: add_fds.induct) auto

lemma add_fds_inv [store_inv]: "pollset_inv ps \<Longrightarrow> pollset_inv (add_fds fds ps)"
  by (induction fds ps rule: add_fds.induct) (auto intro: pollset_add_inv)

text \<open>
  No descriptor is lost silently: after a batch of additions to an empty poll set, the
  entries are the first 128 valid descriptors in order, and the overflow counter is the number
  of valid descriptors that did not fit (modulo the width of the counter).
\<close>

theorem pollset_accounts:
  defines "valid \<equiv> \<lambda>fds. filter (\<lambda>(fd, ev, own, tag). fd \<ge> 0) fds"
  shows "map pe_fd (ps_entries (add_fds fds (fc_pollset_clear ps))) = take 128 (map fst (valid fds)) \<and>
    ps_overflows (add_fds fds (fc_pollset_clear ps)) = of_nat (length (valid fds) - 128)"
proof -
  have gen: "length (ps_entries q) \<le> 128 \<Longrightarrow>
    map pe_fd (ps_entries (add_fds fds q)) = map pe_fd (ps_entries q) @ take (128 - length (ps_entries q)) (map fst (valid fds)) \<and>
    ps_overflows (add_fds fds q) = ps_overflows q + of_nat (length (valid fds) - (128 - length (ps_entries q)))" for q
    unfolding valid_def
  proof (induction fds q rule: add_fds.induct)
    case (2 fd ev own tag fds q)
    show ?case
    proof (cases "fd \<ge> 0 \<and> length (ps_entries q) < 128")
      case True
      then obtain k where "128 - length (ps_entries q) = Suc k" "128 - Suc (length (ps_entries q)) = k"
        by (metis Suc_diff_Suc)
      then show ?thesis using 2 True by (simp add: fc_pollset_add_def FC_POLL_MAX_FDS_def)
    next
      case False
      then show ?thesis using 2 by (auto simp: fc_pollset_add_def FC_POLL_MAX_FDS_def)
    qed
  qed simp
  show ?thesis using gen [of "fc_pollset_clear ps"] by (simp add: fc_pollset_clear_def)
qed

text \<open>The interface the reactor relies on: a module's \<open>collect_fds\<close> keeps the poll set sound.\<close>

locale pollset_client =
  fixes collect :: "pollset \<Rightarrow> 'w \<Rightarrow> int \<times> pollset \<times> 'w"
  assumes collect_keeps: "pollset_inv ps \<Longrightarrow> collect ps w = (rc, ps', w') \<Longrightarrow> pollset_inv ps'"
begin

lemma collect_bounded:
  "pollset_inv ps \<Longrightarrow> collect ps w = (rc, ps', w') \<Longrightarrow> length (ps_entries ps') \<le> 128"
  using collect_keeps [of ps w rc ps' w'] by (simp add: pollset_inv_def FC_POLL_MAX_FDS_def)

end

definition sound_modules :: "'w environment \<Rightarrow> bool" where
  "sound_modules env \<longleftrightarrow> (\<forall>m f. mo_collect_fds (en_ops env m) = Some f \<longrightarrow> pollset_client f)"

section \<open>The poll timeout\<close>

lemma earliest_deadline_le: "earliest_deadline env ms now e w = (e', w') \<Longrightarrow> e' \<le> e"
proof (induction ms arbitrary: e w)
  case (Cons m ms)
  show ?case
  proof (cases "mo_next_deadline_ms (en_ops env m)")
    case (Some f)
    obtain d w1 where "f now w = (d, w1)" by fastforce
    then have "e' \<le> (if d \<noteq> FC_NO_DEADLINE \<and> d < e then d else e)" using Cons.prems Some by (intro Cons.IH [of _ w1]) simp
    also have "\<dots> \<le> e" by (auto simp: less_imp_le)
    finally show ?thesis .
  qed (use Cons in simp)
qed simp



section \<open>Statistics\<close>

definition stats_ok :: "module_stats \<Rightarrow> bool" where
  "stats_ok s \<longleftrightarrow> ms_callback_errors s = ms_collect_fds_errors s + ms_on_fd_errors s + ms_tick_errors s \<and>
     ms_last_tick_ms s \<le> ms_max_tick_ms s"

definition reactor_inv :: "reactor \<Rightarrow> bool" where
  "reactor_inv r \<longleftrightarrow> length (re_stats r) = length (re_modules r) \<and> length (re_modules r) \<le> FC_REACTOR_MAX_MODULES \<and>
     list_all stats_ok (re_stats r)"

lemma count_error_ok [simp]: "stats_ok s \<Longrightarrow> stats_ok (count_error cb s)"
  by (cases cb) (auto simp: stats_ok_def count_error_def Let_def)

lemma tick_stats_ok [simp]: "stats_ok s \<Longrightarrow> stats_ok (tick_stats d s)"
  by (auto simp: stats_ok_def tick_stats_def Let_def)

lemma reactor_init_inv: "reactor_inv fc_reactor_init"
  by (simp add: reactor_inv_def fc_reactor_init_def)

lemma register_inv: "reactor_inv r \<Longrightarrow> reactor_inv (snd (fc_reactor_register r m))"
  by (auto simp: reactor_inv_def fc_reactor_register_def stats_ok_def zero_stats_def)

text \<open>What a pass may change of the reactor record.\<close>

definition same_modules :: "reactor \<Rightarrow> reactor \<Rightarrow> bool" where
  "same_modules r r' \<longleftrightarrow> re_modules r' = re_modules r \<and> re_default_timeout_ms r' = re_default_timeout_ms r \<and>
     (reactor_inv r \<longrightarrow> reactor_inv r')"

lemma same_modules_refl [simp]: "same_modules r r"
  by (simp add: same_modules_def)

lemma same_modules_trans: "same_modules r r' \<Longrightarrow> same_modules r' r'' \<Longrightarrow> same_modules r r''"
  by (simp add: same_modules_def)

lemma record_callback_error_same [simp]: "same_modules r (record_callback_error cb i r)"
  by (auto simp: same_modules_def record_callback_error_def reactor_inv_def list_all_length nth_list_update)

lemma record_tick_same [simp]: "same_modules r (record_tick i d r)"
  by (auto simp: same_modules_def record_tick_def reactor_inv_def list_all_length nth_list_update)

lemma note_overflows_same [simp]: "same_modules r (note_overflows ps r)"
  by (simp add: same_modules_def note_overflows_def reactor_inv_def)

lemma total_polls_same [simp]: "same_modules r (r\<lparr>re_total_polls := n\<rparr>)" "same_modules r (r\<lparr>re_total_ticks := n\<rparr>)"
  by (simp_all add: same_modules_def reactor_inv_def)

lemma collect_all_sound:
  "collect_all env i ms r ps w = (r', ps', w') \<Longrightarrow> sound_modules env \<Longrightarrow> pollset_inv ps \<Longrightarrow>
     same_modules r r' \<and> pollset_inv ps'"
proof (induction ms arbitrary: i r ps w)
  case (Cons m ms)
  show ?case
  proof (cases "mo_collect_fds (en_ops env m)")
    case (Some f)
    obtain rc ps1 w1 where f: "f ps w = (rc, ps1, w1)" by (cases "f ps w")
    have "pollset_inv ps1"
      using pollset_client.collect_keeps [of f ps w rc ps1 w1] f Cons.prems(3) Some Cons.prems(2) by (auto simp: sound_modules_def)
    then show ?thesis
      using Cons.IH [of "Suc i" "if rc \<noteq> 0 then record_callback_error Collect_Fds i r else r" ps1 w1] Cons.prems Some f
      by (auto split: if_splits intro: same_modules_trans [OF record_callback_error_same])
  qed (use Cons in auto)
qed simp

lemma dispatch_same: "dispatch env evs r w = (r', w') \<Longrightarrow> same_modules r r'"
proof (induction env evs r w rule: dispatch.induct)
  case (2 env pe revents rest r w)
  then show ?case
    by (fastforce split: if_splits option.splits prod.splits intro: same_modules_trans [OF record_callback_error_same])
qed simp

lemma tick_all_same: "tick_all env i ms now r w = (r', w') \<Longrightarrow> same_modules r r'"
proof (induction ms arbitrary: i r w)
  case (Cons m ms)
  show ?case
  proof (cases "mo_tick (en_ops env m)")
    case (Some f)
    obtain st w1 rc w2 fi w3 where w: "en_now_ms env w = (st, w1)" "f now w1 = (rc, w2)" "en_now_ms env w2 = (fi, w3)"
      by (metis prod.exhaust)
    let ?r1 = "record_tick i (if fi \<ge> st then fi - st else 0) r"
    have "same_modules (if rc \<noteq> 0 then record_callback_error Tick i ?r1 else ?r1) r'"
      using Cons.prems Some w by (intro Cons.IH [of "Suc i" _ w3]) (simp add: Let_def)
    moreover have "same_modules r (if rc \<noteq> 0 then record_callback_error Tick i ?r1 else ?r1)"
      using same_modules_trans [OF record_tick_same record_callback_error_same] by simp
    ultimately show ?thesis by (rule same_modules_trans [rotated])
  qed (use Cons in auto)
qed simp

definition pass_reactor :: "'w pass_result \<Rightarrow> reactor" where
  "pass_reactor x = (case x of Pass_Next r w \<Rightarrow> r | Pass_Stop r w \<Rightarrow> r)"

lemma pass_same:
  assumes "sound_modules env"
  shows "same_modules r (pass_reactor (reactor_pass env r w))"
proof -
  obtain r1 ps w1 where c: "collect_all env 0 (re_modules r) r \<lparr>ps_entries = [], ps_overflows = 0\<rparr> w = (r1, ps, w1)"
    by (metis prod.exhaust)
  have r1: "same_modules r (note_overflows ps r1)"
    using collect_all_sound [OF c assms] same_modules_trans [OF _ note_overflows_same] by auto
  obtain now w2 e w3 oc w4 where w: "en_now_ms env w1 = (now, w2)"
      "earliest_deadline env (re_modules (note_overflows ps r1)) now
         (now + word_of_int (re_default_timeout_ms (note_overflows ps r1))) w2 = (e, w3)"
      "en_poll env (ps_entries ps) (poll_timeout (re_default_timeout_ms (note_overflows ps r1)) now e) w3 = (oc, w4)"
    by (metis prod.exhaust)
  let ?r3 = "(note_overflows ps r1)\<lparr>re_total_polls := re_total_polls (note_overflows ps r1) + 1\<rparr>"
  have r3: "same_modules r ?r3" using same_modules_trans [OF r1 total_polls_same(1)] .
  show ?thesis
  proof (cases oc)
    case (Poll_Ready evs)
    obtain r4 w5 t w6 r5 w7 where d: "dispatch env (zip (ps_entries ps) evs) ?r3 w4 = (r4, w5)"
        "en_now_ms env w5 = (t, w6)" "tick_all env 0 (re_modules r4) t r4 w6 = (r5, w7)"
      by (metis prod.exhaust)
    have "same_modules r (r5\<lparr>re_total_ticks := re_total_ticks r5 + 1\<rparr>)"
      using r3 dispatch_same [OF d(1)] tick_all_same [OF d(3)] total_polls_same(2) by (meson same_modules_trans)
    then show ?thesis using c w d Poll_Ready by (simp add: reactor_pass_def pass_reactor_def Let_def)
  qed (use c w r3 in \<open>simp_all add: reactor_pass_def pass_reactor_def Let_def\<close>)
qed

lemma loop_same: "reactor_loop fuel env r w = Some (r', w') \<Longrightarrow> sound_modules env \<Longrightarrow> same_modules r r'"
proof (induction fuel arbitrary: r w)
  case (Suc fuel)
  note p = pass_same [OF Suc.prems(2), of r w]
  show ?case using Suc.prems p Suc.IH
    by (fastforce simp: pass_reactor_def split: if_splits pass_result.splits intro: same_modules_trans)
qed (auto split: if_splits)



end
