(* ===== verification/Jobrunner_Laws.thy ===== *)
theory Jobrunner_Laws
  imports Jobrunner_Ring Reactor_Laws
begin

text \<open>
  Laws of the job runner beyond its ring: the well-formedness of every reachable runner, the
  verdict of a job, the order of signals and the deadline the module gives to the reactor.
\<close>

section \<open>Well-formed jobs\<close>

definition job_inv :: "rt_job \<Rightarrow> bool" where
  "job_inv j \<longleftrightarrow>
     length (jb_progress_partial j) < JOB_PROGRESS_PARTIAL_CAP \<and> jb_stdout_cap j > 0 \<and> jb_stderr_cap j > 0 \<and>
     (jb_stdout_eof j \<longrightarrow> jb_stdout_fd j = - 1) \<and> (jb_stderr_eof j \<longrightarrow> jb_stderr_fd j = - 1) \<and>
     (jb_progress_eof j \<longrightarrow> jb_progress_fd j = - 1) \<and>
     (jb_killed_for_output_limit j \<longleftrightarrow>
        jb_stdout_drained j > jb_stdout_cap j \<or> jb_stderr_drained j > jb_stderr_cap j) \<and>
     (jb_state j \<noteq> JOB_RUNNING \<longrightarrow> jb_exited j \<and> jb_stdout_eof j \<and> jb_stderr_eof j \<and> jb_progress_eof j) \<and>
     (jb_state j \<noteq> JOB_RUNNING \<longrightarrow>
        (jb_state j = JOB_FINISHED \<longleftrightarrow> jb_exit_status j = 0 \<and> \<not> jb_killed_for_timeout j \<and> \<not> jb_killed_for_output_limit j))"

lemma finalize_out_file_fst [simp]: "fst (finalize_out_file job os) = job\<lparr>jb_out_open := False\<rparr>"
  by (cases job) (simp add: finalize_out_file_def Let_def split: option.split)

lemma drain_pipe_spec:
  "drain_pipe rs d cap over acc = (bytes, d', over', e, rs') \<Longrightarrow>
     (\<exists>new. bytes = acc @ new \<and> d' = d + length new) \<and> (cap > 0 \<longrightarrow>
       (over \<longrightarrow> over') \<and> (over' \<longrightarrow> over \<or> d' > cap) \<and> (d' > cap \<longrightarrow> d > cap \<or> over'))"
proof (induction rs d cap over acc arbitrary: bytes d' over' e rs' rule: drain_pipe.induct)
  case (2 b rs d cap over acc)
  show ?case using 2 (1) [OF refl, of bytes d' over' e rs'] 2 (2) by (auto simp: Let_def)
qed auto

text \<open>
  What draining a job's pipes keeps: the runner's job list, counters and ring, the identity of
  the job, what is known of its process, and its well-formedness. Such stages compose.
\<close>

definition same_runner :: "rt_jobrunner \<Rightarrow> rt_jobrunner \<Rightarrow> bool" where
  "same_runner r r' \<longleftrightarrow> jr_jobs r' = jr_jobs r \<and> jr_kill_grace_ms r' = jr_kill_grace_ms r \<and>
     jr_next_job_id r' = jr_next_job_id r \<and> (ring_inv r \<longrightarrow> ring_inv r')"

definition job_frame :: "rt_job \<Rightarrow> rt_job \<Rightarrow> bool" where
  "job_frame j j' \<longleftrightarrow> jb_ref j' = jb_ref j \<and> jb_kind j' = jb_kind j \<and> jb_run_id j' = jb_run_id j \<and> jb_pid j' = jb_pid j \<and>
     jb_deadline_ms j' = jb_deadline_ms j \<and> jb_state j' = jb_state j \<and>
     (jb_killed_for_output_limit j \<longrightarrow> jb_killed_for_output_limit j') \<and> (jb_stdout_eof j \<longrightarrow> jb_stdout_eof j') \<and>
     (jb_stderr_eof j \<longrightarrow> jb_stderr_eof j') \<and> (jb_progress_eof j \<longrightarrow> jb_progress_eof j')"

definition drain_frame :: "rt_job \<Rightarrow> rt_job \<Rightarrow> bool" where
  "drain_frame j j' \<longleftrightarrow> job_frame j j' \<and> jb_sigterm_at_ms j' = jb_sigterm_at_ms j \<and>
     jb_killed_for_timeout j' = jb_killed_for_timeout j \<and> jb_exited j' = jb_exited j \<and>
     jb_exit_status j' = jb_exit_status j \<and> jb_secret_broker j' = jb_secret_broker j"

definition dstage :: "rt_jobrunner \<Rightarrow> rt_job \<Rightarrow> rt_jobrunner \<Rightarrow> rt_job \<Rightarrow> bool" where
  "dstage r j r' j' \<longleftrightarrow> same_runner r r' \<and> drain_frame j j' \<and> (job_inv j \<longrightarrow> job_inv j')"

lemmas dstage_defs = dstage_def same_runner_def drain_frame_def job_frame_def

lemma dstage_refl [simp]: "dstage r j r j"
  by (simp add: dstage_defs)

lemma dstage_trans: "dstage r j r1 j1 \<Longrightarrow> dstage r1 j1 r2 j2 \<Longrightarrow> dstage r j r2 j2"
  by (simp add: dstage_defs)

lemma job_inv_frame [simp]:
  "job_inv (j\<lparr>jb_progress_dropped := b\<rparr>) = job_inv j" "job_inv (j\<lparr>jb_out_open := b\<rparr>) = job_inv j"
  "job_inv (j\<lparr>jb_sigterm_at_ms := t\<rparr>) = job_inv j" "job_inv (j\<lparr>jb_secret_broker := br\<rparr>) = job_inv j"
  by (simp_all add: job_inv_def)

lemma drain_stdout_dstage: "drain_stdout job os = (job', os') \<Longrightarrow> dstage r job r job'"
proof (cases "jb_stdout_fd job \<ge> 0 \<and> \<not> jb_stdout_eof job")
  case True
  assume d: "drain_stdout job os = (job', os')"
  obtain b n ov e rs where p: "drain_pipe (jo_reads os (jb_stdout_fd job)) (jb_stdout_drained job) (jb_stdout_cap job) False [] = (b, n, ov, e, rs)"
    by (metis prod.exhaust)
  have "job' = fst (drain_stdout job os)" using d by simp
  then show ?thesis using True p drain_pipe_spec [OF p]
    by (auto simp: drain_stdout_def Let_def dstage_defs job_inv_def)
qed (simp add: drain_stdout_def)

lemma drain_stderr_dstage: "drain_stderr job os = (job', os') \<Longrightarrow> dstage r job r job'"
proof (cases "jb_stderr_fd job \<ge> 0 \<and> \<not> jb_stderr_eof job")
  case True
  assume d: "drain_stderr job os = (job', os')"
  obtain b n ov e rs where p: "drain_pipe (jo_reads os (jb_stderr_fd job)) (jb_stderr_drained job) (jb_stderr_cap job) False [] = (b, n, ov, e, rs)"
    by (metis prod.exhaust)
  have "job' = fst (drain_stderr job os)" using d by simp
  then show ?thesis using True p drain_pipe_spec [OF p]
    by (auto simp: drain_stderr_def Let_def dstage_defs job_inv_def)
qed (simp add: drain_stderr_def)

lemma drop_progress_dstage [simp]: "drop_progress r job = (r', job') \<Longrightarrow> dstage r job r' job'"
  by (auto simp: drop_progress_def dstage_defs ring_inv_def)

lemma partial_dstage: "length p < JOB_PROGRESS_PARTIAL_CAP \<Longrightarrow> dstage r job r (job\<lparr>jb_progress_partial := p\<rparr>)"
  by (simp add: dstage_defs job_inv_def)

lemma partial_clear_dstage [simp]: "dstage r job r (job\<lparr>jb_progress_partial := []\<rparr>)"
  by (simp add: partial_dstage JOB_PROGRESS_PARTIAL_CAP_def)

lemma queue_progress_dstage: "queue_progress r job b = (r', job') \<Longrightarrow> dstage r job r' job'"
proof -
  assume q: "queue_progress r job b = (r', job')"
  have "ring_inv r \<Longrightarrow> ring_inv r'" using queue_progress_inv [of r job b] q by simp
  then show ?thesis using q
    by (auto simp: queue_progress_def drop_progress_def dstage_defs Let_def split: if_splits)
qed

lemma progress_consume_dstage: "progress_consume_bytes r job bytes = (r', job') \<Longrightarrow> dstage r job r' job'"
proof (induction r job bytes arbitrary: r' job' rule: progress_consume_bytes.induct)
  case (1 r job bytes)
  let ?part = "takeWhile (\<lambda>c. c \<noteq> CHR 0x0A) bytes"
  let ?rest = "drop (length ?part + 1) bytes"
  let ?job1 = "job\<lparr>jb_progress_partial := jb_progress_partial job @ ?part\<rparr>"
  consider "bytes = []"
    | "bytes \<noteq> []" "length (jb_progress_partial job) + length ?part \<ge> JOB_PROGRESS_PARTIAL_CAP"
    | "bytes \<noteq> []" "length (jb_progress_partial job) + length ?part < JOB_PROGRESS_PARTIAL_CAP"
    by linarith
  then show ?case
  proof cases
    case 1
    then show ?thesis using "1.prems" by (simp add: progress_consume_bytes.simps)
  next
    case 2
    obtain r1 j1 where d: "drop_progress r (job\<lparr>jb_progress_partial := []\<rparr>) = (r1, j1)" by fastforce
    have s: "dstage r job r1 j1" using dstage_trans [OF partial_clear_dstage drop_progress_dstage [OF d]] .
    show ?thesis
    proof (cases "CHR 0x0A \<in> set bytes")
      case True
      then have "progress_consume_bytes r1 j1 ?rest = (r', job')"
        using "1.prems" 2 d by (simp add: progress_consume_bytes.simps [of r job bytes] Let_def)
      then have "dstage r1 j1 r' job'" using "1.IH"(1) [OF 2(1) refl refl refl 2(2) d [symmetric]] True by simp
      then show ?thesis using s dstage_trans by blast
    next
      case False
      then have "(r', job') = (r1, j1)"
        using "1.prems" 2 d by (simp add: progress_consume_bytes.simps [of r job bytes] Let_def)
      then show ?thesis using s by simp
    qed
  next
    case 3
    have s1: "dstage r job r ?job1" using 3 by (intro partial_dstage) simp
    show ?thesis
    proof (cases "CHR 0x0A \<in> set bytes")
      case True
      obtain r2 j2 where q: "(if jb_progress_partial ?job1 \<noteq> [] then queue_progress r ?job1 (jb_progress_partial ?job1) else (r, ?job1)) = (r2, j2)"
        by (metis prod.exhaust)
      then have "dstage r ?job1 r2 j2" using queue_progress_dstage by (auto split: if_splits)
      then have s2: "dstage r job r2 (j2\<lparr>jb_progress_partial := []\<rparr>)" using s1 dstage_trans partial_clear_dstage by blast
      have "progress_consume_bytes r2 (j2\<lparr>jb_progress_partial := []\<rparr>) ?rest = (r', job')"
        using "1.prems" 3 True q by (simp add: progress_consume_bytes.simps [of r job bytes] Let_def split: if_splits)
      then have "dstage r2 (j2\<lparr>jb_progress_partial := []\<rparr>) r' job'"
        using "1.IH"(2) [OF 3(1) refl refl refl _ refl _ q [symmetric]] 3(2) True by simp
      then show ?thesis using s2 dstage_trans by blast
    next
      case False
      then show ?thesis using "1.prems" 3 s1 by (simp add: progress_consume_bytes.simps [of r job bytes] Let_def)
    qed
  qed
qed

lemma drain_progress_pipe_dstage: "drain_progress_pipe rs r job = (r', job', e, rs') \<Longrightarrow> dstage r job r' job'"
proof (induction rs r job arbitrary: r' job' rule: drain_progress_pipe.induct)
  case (2 b rs r job)
  then show ?case using progress_consume_dstage [of r job b] dstage_trans by (auto split: prod.splits)
qed auto

lemma drain_progress_dstage: "drain_progress r job os = (r', job', os') \<Longrightarrow> dstage r job r' job'"
proof (cases "jb_progress_fd job \<ge> 0 \<and> \<not> jb_progress_eof job")
  case True
  assume d: "drain_progress r job os = (r', job', os')"
  obtain r1 j1 e rs where p: "drain_progress_pipe (jo_reads os (jb_progress_fd job)) r job = (r1, j1, e, rs)"
    by (metis prod.exhaust)
  have closed: "dstage r1 j1 r1 (j1\<lparr>jb_progress_fd := - 1, jb_progress_eof := True\<rparr>)" (is "dstage _ _ _ ?j2")
    by (simp add: dstage_defs job_inv_def)
  have "dstage r1 j1 r' job'"
  proof (cases "e \<noteq> Drain_More \<and> jb_progress_partial j1 \<noteq> []")
    case True
    then have "drop_progress r1 (?j2\<lparr>jb_progress_partial := []\<rparr>) = (r', job')"
      using \<open>0 \<le> _ \<and> _\<close> d p by (auto simp: drain_progress_def Let_def split: prod.splits)
    then show ?thesis using closed dstage_trans partial_clear_dstage drop_progress_dstage by blast
  next
    case False
    then show ?thesis using \<open>0 \<le> _ \<and> _\<close> d p closed by (auto simp: drain_progress_def Let_def split: if_splits)
  qed
  then show ?thesis using drain_progress_pipe_dstage [OF p] dstage_trans by blast
qed (auto simp: drain_progress_def)

lemma drain_pending_dstage:
  assumes "drain_pending r job os = (r', job', os')"
  shows "dstage r job r' job'"
proof -
  obtain j1 os1 j2 os2 where d: "drain_stdout job os = (j1, os1)" "drain_stderr j1 os1 = (j2, os2)"
    by (metis prod.exhaust)
  then have "drain_progress r j2 os2 = (r', job', os')" using assms by (simp add: drain_pending_def)
  from drain_progress_dstage [OF this] show ?thesis
    by (rule dstage_trans [OF drain_stdout_dstage [OF d(1)] dstage_trans [OF drain_stderr_dstage [OF d(2)]]])
qed

lemma drain_pending_closed:
  "jb_stdout_eof job \<Longrightarrow> jb_stderr_eof job \<Longrightarrow> jb_progress_eof job \<Longrightarrow> drain_pending r job os = (r, job, os)"
  by (simp add: drain_pending_def drain_stdout_def drain_stderr_def drain_progress_def)

text \<open>The weaker frame of the stages that also signal or reap.\<close>

definition stage :: "rt_jobrunner \<Rightarrow> rt_job \<Rightarrow> rt_jobrunner \<Rightarrow> rt_job \<Rightarrow> bool" where
  "stage r j r' j' \<longleftrightarrow> same_runner r r' \<and> job_frame j j' \<and> (job_inv j \<longrightarrow> job_inv j')"

lemmas stage_defs = stage_def same_runner_def job_frame_def

lemma stage_refl [simp]: "stage r j r j"
  by (simp add: stage_defs)

lemma stage_trans: "stage r j r1 j1 \<Longrightarrow> stage r1 j1 r2 j2 \<Longrightarrow> stage r j r2 j2"
  by (simp add: stage_defs)

lemma dstage_stage: "dstage r j r' j' \<Longrightarrow> stage r j r' j'"
  by (simp add: dstage_def stage_def drain_frame_def)

lemmas drain_pending_stage = drain_pending_dstage [THEN dstage_stage]

section \<open>The tick of one job\<close>

lemma send_sigterm_stage: "send_sigterm job now os = (job', os') \<Longrightarrow> stage r job r job'"
  by (auto simp: send_sigterm_def stage_defs split: if_splits)

lemma timeout_stage: "jb_state job = JOB_RUNNING \<Longrightarrow> stage r job r (job\<lparr>jb_killed_for_timeout := True\<rparr>)"
  by (simp add: stage_defs job_inv_def)

lemma enforce_deadline_stage:
  "enforce_deadline job now os = (job', os') \<Longrightarrow> jb_state job = JOB_RUNNING \<Longrightarrow> stage r job r job'"
  unfolding enforce_deadline_def
  using stage_trans [OF timeout_stage send_sigterm_stage] by (auto split: if_splits)

lemma enforce_output_cap_stage: "enforce_output_cap job now os = (job', os') \<Longrightarrow> stage r job r job'"
  unfolding enforce_output_cap_def using send_sigterm_stage by (auto split: if_splits)

lemma exit_stage:
  "jb_state job = JOB_RUNNING \<Longrightarrow>
     stage r job r ((case st of
         Wait_Exited code \<Rightarrow> job\<lparr>jb_exit_status := code, jb_signaled := False\<rparr>
       | Wait_Signaled sig \<Rightarrow> job\<lparr>jb_signaled := True, jb_term_signal := sig, jb_exit_status := 128 + sig\<rparr>)\<lparr>jb_exited := True\<rparr>)"
  by (cases st) (simp_all add: stage_defs job_inv_def)

lemma reap_stage:
  "reap r job os = (r', job', os') \<Longrightarrow> jb_state job = JOB_RUNNING \<Longrightarrow> stage r job r' job'"
  unfolding reap_def Let_def
  using stage_trans [OF exit_stage drain_pending_stage, of job] by (fastforce split: if_splits option.splits)

lemma settle_keeps:
  "jb_state job = JOB_RUNNING \<Longrightarrow> job_inv job \<Longrightarrow> job_inv (settle job)"
  "jb_ref (settle job) = jb_ref job" "jb_pid (settle job) = jb_pid job" "jb_run_id (settle job) = jb_run_id job"
  by (auto simp: settle_def job_inv_def)

text \<open>The stages of a tick before the verdict, with the intermediate states named.\<close>

lemma tick_job_stages:
  assumes "tick_job now r job os = (r', job', os')" and "jb_state job = JOB_RUNNING"
  obtains r1 j1 os1 j2 os2 j3 os3 j4 where
    "drain_pending r (service_broker job os) os = (r1, j1, os1)"
    "enforce_deadline j1 now os1 = (j2, os2)" "enforce_output_cap j2 now os2 = (j3, os3)"
    "reap r1 j3 (escalate (jr_kill_grace_ms r) j3 now os3) = (r', j4, os')" "job' = settle j4"
    "stage r job r1 j1" "stage r j1 r j2" "stage r j2 r j3" "stage r1 j3 r' j4" "stage r job r' j4"
proof -
  obtain r1 j1 os1 where d: "drain_pending r (service_broker job os) os = (r1, j1, os1)" by (metis prod.exhaust)
  obtain j2 os2 j3 os3 where e: "enforce_deadline j1 now os1 = (j2, os2)" "enforce_output_cap j2 now os2 = (j3, os3)"
    by (metis prod.exhaust)
  have "stage r job r (service_broker job os)" by (simp add: service_broker_def stage_defs)
  then have s1: "stage r job r1 j1" using drain_pending_stage [OF d] stage_trans by blast
  then have run: "jb_state j1 = JOB_RUNNING" and g: "jr_kill_grace_ms r1 = jr_kill_grace_ms r"
    using assms(2) by (simp_all add: stage_defs)
  have s2: "stage x j1 x j2" "stage x j2 x j3" for x
    using enforce_deadline_stage [OF e(1) run] enforce_output_cap_stage [OF e(2)] by blast+
  obtain r4 j4 os4 where f: "reap r1 j3 (escalate (jr_kill_grace_ms r) j3 now os3) = (r4, j4, os4)" by (metis prod.exhaust)
  have "jb_state j3 = JOB_RUNNING" using s2 [of r] run by (simp add: stage_defs)
  from reap_stage [OF f this] have s4: "stage r1 j3 r4 j4" .
  have res: "r4 = r'" "job' = settle j4" "os4 = os'" using assms d e f g by (simp_all add: tick_job_def)
  have "stage r job r' j4"
    using stage_trans [OF s1 stage_trans [OF s2(1) stage_trans [OF s2(2) s4]]] res by simp
  then show thesis using that [OF d e f [unfolded res(1,3)] res(2) s1 s2] s4 res by blast
qed

lemma tick_job_keeps:
  assumes "tick_job now r job os = (r', job', os')"
  shows "same_runner r r' \<and> jb_ref job' = jb_ref job \<and> (job_inv job \<longrightarrow> job_inv job')"
proof (cases "jb_state job = JOB_RUNNING")
  case True
  from tick_job_stages [OF assms this] obtain j4 where "job' = settle j4" "stage r job r' j4" by blast
  then show ?thesis using settle_keeps [of j4] True by (auto simp: stage_defs)
qed (use assms in \<open>simp add: tick_job_def same_runner_def\<close>)

section \<open>Reachable runners\<close>

definition jr_inv :: "rt_jobrunner \<Rightarrow> bool" where
  "jr_inv r \<longleftrightarrow> ring_inv r \<and> list_all job_inv (jr_jobs r) \<and> distinct (map jb_ref (jr_jobs r)) \<and>
     list_all (\<lambda>j. jb_ref j < jr_next_job_id r) (jr_jobs r)"

text \<open>
  The operations of the runner in any order; the operating system does what it wants between and
  during them.
\<close>

inductive jr_step :: "rt_jobrunner \<Rightarrow> rt_jobrunner \<Rightarrow> bool" where
  step_launch: "rt_jobrunner_launch r a lo os = (rc, r', os') \<Longrightarrow> jr_step r r'"
| step_tick: "rt_jobrunner_tick r now os = (r', os') \<Longrightarrow> jr_step r r'"
| step_on_fd: "rt_jobrunner_on_fd r fd relevant tag os = (r', os') \<Longrightarrow> jr_step r r'"
| step_cancel: "rt_jobrunner_cancel_run r run_id now os = (n, r', os') \<Longrightarrow> jr_step r r'"
| step_progress_pop: "rt_jobrunner_progress_pop r = (p, r') \<Longrightarrow> jr_step r r'"
| step_pop_finished: "rt_jobrunner_pop_finished r = (j, r') \<Longrightarrow> jr_step r r'"
| step_release: "rt_jobrunner_release r j os = (r', os') \<Longrightarrow> jr_step r r'"
| step_shutdown: "rt_jobrunner_shutdown_all r grace started term_at clock retries os = (r', os') \<Longrightarrow> jr_step r r'"

inductive jr_reachable :: "rt_jobrunner \<Rightarrow> bool" where
  reach_init: "length slots = JOB_PROGRESS_QUEUE_CAP \<Longrightarrow> jr_reachable (rt_jobrunner_init slots)"
| reach_step: "jr_reachable r \<Longrightarrow> jr_step r r' \<Longrightarrow> jr_reachable r'"

lemma new_job_inv: "job_inv (new_job n a now)"
  by (simp add: job_inv_def new_job_def JOB_PROGRESS_PARTIAL_CAP_def JOB_OUTPUT_CAP_STDOUT_DEFAULT_def JOB_OUTPUT_CAP_STDERR_DEFAULT_def)

lemma new_job_launched_inv:
  "job_inv ((new_job n a now)\<lparr>jb_pid := pid, jb_stdout_fd := so, jb_stderr_fd := se,
     jb_progress_fd := (if la_kind a = JOB_AGENT then pf else - 1), jb_secret_broker := br, jb_out_open := x, jb_err_open := y\<rparr>)"
  by (simp add: job_inv_def new_job_def JOB_PROGRESS_PARTIAL_CAP_def JOB_OUTPUT_CAP_STDOUT_DEFAULT_def JOB_OUTPUT_CAP_STDERR_DEFAULT_def)

lemma jr_inv_next: "jr_inv r \<Longrightarrow> jr_inv (r\<lparr>jr_next_job_id := jr_next_job_id r + 1\<rparr>)"
  by (auto simp: jr_inv_def ring_inv_def list_all_iff less_Suc_eq)

lemma jr_inv_cons:
  "jr_inv r \<Longrightarrow> job_inv j \<Longrightarrow> jb_ref j = jr_next_job_id r \<Longrightarrow>
     jr_inv (r\<lparr>jr_next_job_id := jr_next_job_id r + 1, jr_jobs := j # jr_jobs r\<rparr>)"
  by (auto simp: jr_inv_def ring_inv_def list_all_iff less_Suc_eq)

lemma launch_inv:
  assumes "jr_inv r" and "rt_jobrunner_launch r a lo os = (rc, r', os')"
  shows "jr_inv r'"
proof -
  let ?job = "(new_job (jr_next_job_id r) a (lo_now_ms lo))\<lparr>jb_pid := the (lo_pid lo), jb_stdout_fd := the (lo_pipe_out lo),
    jb_stderr_fd := the (lo_pipe_err lo), jb_progress_fd := (if la_kind a = JOB_AGENT then the (lo_pipe_progress lo) else - 1),
    jb_secret_broker := (if la_private_credentials a then lo_broker lo else None), jb_out_open := True, jb_err_open := True\<rparr>"
  have "jb_ref ?job = jr_next_job_id r" by (simp add: new_job_def)
  then have "jr_inv (r\<lparr>jr_next_job_id := jr_next_job_id r + 1, jr_jobs := ?job # jr_jobs r\<rparr>)"
    by (intro jr_inv_cons assms new_job_launched_inv)
  moreover have "r' \<in> {r, r\<lparr>jr_next_job_id := jr_next_job_id r + 1\<rparr>, r\<lparr>jr_next_job_id := jr_next_job_id r + 1, jr_jobs := ?job # jr_jobs r\<rparr>}"
    using assms(2) unfolding rt_jobrunner_launch_def launch_commit_def Let_def by (simp split: if_splits option.splits)
  ultimately show ?thesis using assms(1) jr_inv_next by auto
qed

lemma tick_jobs_keeps:
  "tick_jobs now jobs r os = (jobs', r', os') \<Longrightarrow>
     same_runner r r' \<and> map jb_ref jobs' = map jb_ref jobs \<and> (list_all job_inv jobs \<longrightarrow> list_all job_inv jobs')"
proof (induction now jobs r os arbitrary: jobs' r' os' rule: tick_jobs.induct)
  case (2 now job jobs r os)
  obtain r1 j1 os1 where t: "tick_job now r job os = (r1, j1, os1)" by (metis prod.exhaust)
  obtain js r2 os2 where u: "tick_jobs now jobs r1 os1 = (js, r2, os2)" by (metis prod.exhaust)
  show ?case using "2.IH" [OF t [symmetric] refl u] tick_job_keeps [OF t] "2.prems" t u by (auto simp: same_runner_def)
qed (simp add: same_runner_def)

lemma jr_inv_refs:
  assumes "jr_inv r" and "same_runner r r1" and "map jb_ref jobs = map jb_ref (jr_jobs r)" and "list_all job_inv jobs"
  shows "jr_inv (r1\<lparr>jr_jobs := jobs\<rparr>)"
proof -
  have "list_all (\<lambda>j. jb_ref j < jr_next_job_id r) jobs"
    using assms(1,3) list.pred_map [of "\<lambda>n. n < jr_next_job_id r" jb_ref]
    by (metis (no_types, lifting) jr_inv_def comp_def list.pred_cong)
  then show ?thesis using assms by (simp add: jr_inv_def same_runner_def ring_inv_def)
qed

lemma tick_inv: "jr_inv r \<Longrightarrow> rt_jobrunner_tick r now os = (r', os') \<Longrightarrow> jr_inv r'"
  using tick_jobs_keeps jr_inv_refs unfolding rt_jobrunner_tick_def
  by (fastforce simp: jr_inv_def split: prod.splits)

lemma on_fd_inv:
  assumes "jr_inv r" and "rt_jobrunner_on_fd r fd relevant tag os = (r', os')"
  shows "jr_inv r'"
proof (cases "find_index (\<lambda>j. jb_ref j = tag) (jr_jobs r)")
  case (Some i)
  show ?thesis
  proof (cases relevant)
    case True
    let ?job = "jr_jobs r ! i"
    have i: "i < length (jr_jobs r)" using Some by (auto dest: find_index_SomeD)
    obtain r1 j1 os1 where d: "(if fd = jb_stdout_fd ?job \<or> fd = jb_stderr_fd ?job \<or> fd = jb_progress_fd ?job
        then drain_pending r ?job os else (r, ?job, os)) = (r1, j1, os1)" by (metis prod.exhaust)
    have s: "stage r ?job r1 j1" using d drain_pending_stage [of r ?job os r1 j1 os1] by (auto split: if_splits)
    obtain j2 where j2: "r' = r1\<lparr>jr_jobs := (jr_jobs r)[i := j2]\<rparr>" "j2 = j1 \<or> (\<exists>b. j2 = j1\<lparr>jb_secret_broker := b\<rparr>)"
      using assms(2) Some True d by (auto simp: rt_jobrunner_on_fd_def Let_def split: if_splits option.splits)
    have "job_inv ?job" using assms(1) i by (simp add: jr_inv_def list_all_length)
    then have "job_inv j2" "jb_ref j2 = jb_ref ?job" using s j2 by (auto simp: stage_defs)
    then have "list_all job_inv ((jr_jobs r)[i := j2])" "map jb_ref ((jr_jobs r)[i := j2]) = map jb_ref (jr_jobs r)"
      using assms(1) i by (simp_all add: jr_inv_def list_all_length nth_list_update map_update list_update_same_conv)
    then show ?thesis using jr_inv_refs [OF assms(1)] s j2 by (simp add: stage_def)
  qed (use assms Some in \<open>simp add: rt_jobrunner_on_fd_def\<close>)
qed (use assms in \<open>simp add: rt_jobrunner_on_fd_def\<close>)

lemma cancel_jobs_keeps:
  "cancel_jobs run_id now jobs os = (n, jobs', os') \<Longrightarrow>
     map jb_ref jobs' = map jb_ref jobs \<and> (list_all job_inv jobs \<longrightarrow> list_all job_inv jobs')"
proof (induction run_id now jobs os arbitrary: n jobs' os' rule: cancel_jobs.induct)
  case (2 run_id now j js os)
  then show ?case using send_sigterm_stage [of j now os] by (auto simp: stage_defs split: if_splits prod.splits)
qed simp

lemma cancel_inv: "jr_inv r \<Longrightarrow> rt_jobrunner_cancel_run r run_id now os = (n, r', os') \<Longrightarrow> jr_inv r'"
  using cancel_jobs_keeps jr_inv_refs [of r r] unfolding rt_jobrunner_cancel_run_def
  by (fastforce simp: jr_inv_def same_runner_def split: prod.splits if_splits)

lemma remove_nth_inv: "jr_inv r \<Longrightarrow> jr_inv (r\<lparr>jr_jobs := remove_nth i (jr_jobs r)\<rparr>)"
  using set_remove_nth_subset [of i "jr_jobs r"]
  by (auto simp: jr_inv_def ring_inv_def list_all_iff distinct_map_remove_nth)

lemma pop_finished_inv: "jr_inv r \<Longrightarrow> rt_jobrunner_pop_finished r = (j, r') \<Longrightarrow> jr_inv r'"
  using remove_nth_inv by (auto simp: rt_jobrunner_pop_finished_def split: option.splits)

lemma release_inv: "jr_inv r \<Longrightarrow> rt_jobrunner_release r j os = (r', os') \<Longrightarrow> jr_inv r'"
  using remove_nth_inv by (auto simp: rt_jobrunner_release_def unlink_job_def split: option.splits)

lemma reap_until_inv: "jr_inv r \<Longrightarrow> reap_until d clock r os = (r', os') \<Longrightarrow> jr_inv r'"
  by (induction d clock r os rule: reap_until.induct) (auto split: if_splits prod.splits dest: tick_inv)

lemma reap_retries_inv: "jr_inv r \<Longrightarrow> reap_retries clock r os = (r', os') \<Longrightarrow> jr_inv r'"
  by (induction clock r os rule: reap_retries.induct) (auto split: if_splits prod.splits dest: tick_inv)

lemma release_finished_inv: "jr_inv r \<Longrightarrow> release_finished r os = (r', os') \<Longrightarrow> jr_inv r'"
proof (induction r os rule: release_finished.induct)
  case (1 r os)
  obtain j r1 where p: "rt_jobrunner_pop_finished r = (j, r1)" by fastforce
  note i = pop_finished_inv [OF "1.prems"(1) p]
  show ?case
  proof (cases j)
    case (Some x)
    obtain r2 os2 where q: "rt_jobrunner_release r1 x os = (r2, os2)" by fastforce
    have "release_finished r2 os2 = (r', os')" using "1.prems"(2) p q Some by (simp add: release_finished.simps [of r])
    then show ?thesis using "1.IH" [OF p [symmetric] Some q [symmetric] release_inv [OF i q]] by simp
  qed (use p i "1.prems" in \<open>simp add: release_finished.simps [of r]\<close>)
qed

lemma shutdown_inv:
  assumes "jr_inv r" and "rt_jobrunner_shutdown_all r grace started term_at clock retries os = (r', os')"
  shows "jr_inv r'"
proof -
  let ?r1 = "r\<lparr>jr_jobs := map (\<lambda>j. if jb_state j = JOB_RUNNING \<and> jb_pid j > 0 then j\<lparr>jb_sigterm_at_ms := term_at (jb_ref j)\<rparr> else j) (jr_jobs r)\<rparr>"
  let ?d = "started + (if grace = 0 then jr_kill_grace_ms r else grace)"
  have "list_all job_inv (jr_jobs ?r1)" using assms(1) by (simp add: jr_inv_def list_all_length)
  moreover have "map jb_ref (jr_jobs ?r1) = map jb_ref (jr_jobs r)" "same_runner r r"
    by (simp_all add: same_runner_def)
  ultimately have i1: "jr_inv ?r1" using jr_inv_refs [OF assms(1), of r "jr_jobs ?r1"] by simp
  obtain r2 os2 where e: "reap_until ?d clock ?r1 (signal_running SIGTERM (jr_jobs r) os) = (r2, os2)" by (rule prod.exhaust)
  obtain r3 os3 where f: "reap_retries (take 50 retries) r2 (signal_running SIGKILL (jr_jobs r2) os2) = (r3, os3)"
    by (rule prod.exhaust)
  have "release_finished r3 os3 = (r', os')" using assms(2) e f by (simp add: rt_jobrunner_shutdown_all_def Let_def)
  then show ?thesis using release_finished_inv reap_retries_inv [OF reap_until_inv [OF i1 e] f] by blast
qed

lemma jr_step_inv: "jr_step r r' \<Longrightarrow> jr_inv r \<Longrightarrow> jr_inv r'"
proof (induction rule: jr_step.induct)
  case (step_progress_pop r p r')
  then show ?case using progress_pop_inv [of r]
    by (auto simp: jr_inv_def rt_jobrunner_progress_pop_def split: if_splits)
qed (auto intro: launch_inv tick_inv on_fd_inv cancel_inv pop_finished_inv release_inv shutdown_inv)



end
