(* ===== verification/Jobrunner_Signals.thy ===== *)
theory Jobrunner_Signals
  imports Jobrunner_Laws
begin

text \<open>
  When the job runner signals its children and when a job is decided: the order of SIGTERM and
  SIGKILL, the deadline that \<open>jobrunner_module.c\<close> advertises to the reactor, and the tick that
  gives a job its verdict.
\<close>

section \<open>The descriptors given to the reactor\<close>

interpretation jr_poll: pollset_client "\<lambda>ps (r, os :: jos). (0, rt_jobrunner_collect_fds own r broker_events ps, (r, os))"
  for own broker_events
proof
  fix ps ps' and rc :: int and w w' :: "rt_jobrunner \<times> jos"
  assume inv: "pollset_inv ps"
    and c: "(case w of (r, os) \<Rightarrow> (0, rt_jobrunner_collect_fds own r broker_events ps, (r, os))) = (rc, ps', w')"
  have "pollset_inv (rt_jobrunner_collect_fds own r broker_events ps)" for r
    unfolding rt_jobrunner_collect_fds_def
    by (rule fold_invariant [where Q = "\<lambda>_. True" and P = pollset_inv, OF _ inv])
      (auto simp: Let_def intro: pollset_add_inv split: option.split)
  then show "pollset_inv ps'" using c by (auto split: prod.splits)
qed

lemma jobrunner_module_sound:
  "mo_collect_fds (jobrunner_module own broker_events wanted) = Some f \<Longrightarrow> pollset_client f"
  using jr_poll.pollset_client_axioms by (auto simp: jobrunner_module_def)

section \<open>Signals\<close>

lemma finalize_signals [simp]: "jo_signals (snd (finalize_out_file job os)) = jo_signals os"
  by (auto simp: finalize_out_file_def Let_def split: option.split)

lemma append_file_signals [simp]: "jo_signals (append_file p b os) = jo_signals os"
  by (auto simp: append_file_def split: option.split)

lemma set_reads_signals [simp]: "jo_signals (set_reads fd rs os) = jo_signals os"
  by (simp add: set_reads_def)

lemma drain_stdout_signals [simp]: "jo_signals (snd (drain_stdout job os)) = jo_signals os"
  by (auto simp: drain_stdout_def Let_def split: prod.split option.split)

lemma drain_stderr_signals [simp]: "jo_signals (snd (drain_stderr job os)) = jo_signals os"
  by (auto simp: drain_stderr_def Let_def split: prod.split)

lemma drain_progress_signals: "drain_progress r job os = (r', job', os') \<Longrightarrow> jo_signals os' = jo_signals os"
  by (auto simp: drain_progress_def Let_def split: prod.splits if_splits)

lemma drain_pending_signals: "drain_pending r job os = (r', job', os') \<Longrightarrow> jo_signals os' = jo_signals os"
  using drain_stdout_signals [of job os] drain_stderr_signals drain_progress_signals
  by (metis drain_pending_def case_prod_beta prod.collapse)

lemma reap_signals: "reap r job os = (r', job', os') \<Longrightarrow> jo_signals os' = jo_signals os"
  by (auto simp: reap_def Let_def dest: drain_pending_signals split: if_splits option.splits)

lemma reap_sigterm: "reap r job os = (r', job', os') \<Longrightarrow> jb_sigterm_at_ms job' = jb_sigterm_at_ms job"
  by (auto simp: reap_def Let_def dstage_defs dest!: drain_pending_dstage
      split: if_splits option.splits wait_status.splits)

text \<open>What one tick of a running job adds to the log of signals.\<close>

definition term_due :: "rt_job \<Rightarrow> 64 word \<Rightarrow> bool" where
  "term_due j now \<longleftrightarrow> jb_pid j > 0 \<and> jb_sigterm_at_ms j = 0 \<and>
     (jb_deadline_ms j > 0 \<and> now \<ge> jb_deadline_ms j \<or> jb_killed_for_output_limit j)"

definition kill_due :: "64 word \<Rightarrow> rt_job \<Rightarrow> 64 word \<Rightarrow> bool" where
  "kill_due grace j now \<longleftrightarrow> jb_pid j > 0 \<and> jb_sigterm_at_ms j \<noteq> 0 \<and> now \<ge> jb_sigterm_at_ms j + grace"

lemma enforce_deadline_due:
  "jb_deadline_ms j > 0 \<Longrightarrow> now \<ge> jb_deadline_ms j \<Longrightarrow> jb_sigterm_at_ms j = 0 \<Longrightarrow> jb_pid j > 0 \<Longrightarrow>
     enforce_deadline j now os = (j\<lparr>jb_killed_for_timeout := True, jb_sigterm_at_ms := now\<rparr>,
       os\<lparr>jo_signals := jo_signals os @ [(jb_pid j, SIGTERM)]\<rparr>)"
  by (simp add: enforce_deadline_def send_sigterm_def)

lemma enforce_deadline_quiet:
  "\<not> (jb_deadline_ms j > 0 \<and> now \<ge> jb_deadline_ms j \<and> jb_sigterm_at_ms j = 0) \<Longrightarrow> enforce_deadline j now os = (j, os)"
  unfolding enforce_deadline_def by (rule if_not_P)

lemma enforce_output_cap_spec:
  "enforce_output_cap j now os =
     (if jb_killed_for_output_limit j \<and> jb_sigterm_at_ms j = 0 \<and> jb_pid j > 0
      then (j\<lparr>jb_sigterm_at_ms := now\<rparr>, os\<lparr>jo_signals := jo_signals os @ [(jb_pid j, SIGTERM)]\<rparr>) else (j, os))"
  by (simp add: enforce_output_cap_def send_sigterm_def)

lemma enforce_no_pid: "\<not> jb_pid j > 0 \<Longrightarrow> enforce_deadline j now os = (j2, os2) \<Longrightarrow>
    os2 = os \<and> jb_sigterm_at_ms j2 = jb_sigterm_at_ms j \<and> jb_pid j2 = jb_pid j"
  by (auto simp: enforce_deadline_def send_sigterm_def split: if_splits)

lemma enforce_spec:
  assumes "enforce_deadline j1 now os1 = (j2, os2)" and "enforce_output_cap j2 now os2 = (j3, os3)" and "now \<noteq> 0"
  shows "jo_signals os3 = jo_signals os1 @ (if term_due j1 now then [(jb_pid j1, SIGTERM)] else [])"
    and "jb_sigterm_at_ms j3 = (if term_due j1 now then now else jb_sigterm_at_ms j1)"
proof -
  consider "jb_pid j1 \<le> 0" | "jb_pid j1 > 0" "jb_deadline_ms j1 > 0 \<and> now \<ge> jb_deadline_ms j1 \<and> jb_sigterm_at_ms j1 = 0"
    | "jb_pid j1 > 0" "\<not> (jb_deadline_ms j1 > 0 \<and> now \<ge> jb_deadline_ms j1 \<and> jb_sigterm_at_ms j1 = 0)" by linarith
  then have "jo_signals os3 = jo_signals os1 @ (if term_due j1 now then [(jb_pid j1, SIGTERM)] else []) \<and>
    jb_sigterm_at_ms j3 = (if term_due j1 now then now else jb_sigterm_at_ms j1)"
  proof cases
    case 1
    then show ?thesis using enforce_no_pid [OF _ assms(1)] assms(2) by (simp add: enforce_output_cap_spec term_due_def)
  next
    case 2
    let ?j2 = "j1\<lparr>jb_killed_for_timeout := True, jb_sigterm_at_ms := now\<rparr>"
    have "j2 = ?j2" "os2 = os1\<lparr>jo_signals := jo_signals os1 @ [(jb_pid j1, SIGTERM)]\<rparr>"
      using assms(1) enforce_deadline_due [of j1 now os1] 2 by simp_all
    moreover have "enforce_output_cap ?j2 now os2 = (?j2, os2)" using assms(3) by (simp add: enforce_output_cap_def)
    ultimately have "j3 = ?j2" "jo_signals os3 = jo_signals os1 @ [(jb_pid j1, SIGTERM)]" using assms(2) by auto
    then show ?thesis using 2 by (simp add: term_due_def)
  next
    case 3
    have "j2 = j1" "os2 = os1" using assms(1) enforce_deadline_quiet [OF 3(2)] by simp_all
    then have e: "enforce_output_cap j1 now os1 = (j3, os3)" using assms(2) by simp
    show ?thesis
    proof (cases "jb_killed_for_output_limit j1 \<and> jb_sigterm_at_ms j1 = 0")
      case True
      then have "j3 = j1\<lparr>jb_sigterm_at_ms := now\<rparr>" "os3 = os1\<lparr>jo_signals := jo_signals os1 @ [(jb_pid j1, SIGTERM)]\<rparr>"
        using e 3(1) by (auto simp: enforce_output_cap_spec)
      then show ?thesis using True 3 by (simp add: term_due_def)
    next
      case False
      then have "j3 = j1" "os3 = os1" using e by (auto simp: enforce_output_cap_def)
      moreover have "\<not> term_due j1 now" using False 3 by (auto simp: term_due_def)
      ultimately show ?thesis by simp
    qed
  qed
  then show "jo_signals os3 = jo_signals os1 @ (if term_due j1 now then [(jb_pid j1, SIGTERM)] else [])"
    and "jb_sigterm_at_ms j3 = (if term_due j1 now then now else jb_sigterm_at_ms j1)" by simp_all
qed

lemma tick_job_signals:
  assumes "tick_job now r job os = (r', job', os')" and "jb_state job = JOB_RUNNING" and "now \<noteq> 0"
    and "now < now + jr_kill_grace_ms r"
  obtains j1 where "jb_sigterm_at_ms j1 = jb_sigterm_at_ms job" "jb_deadline_ms j1 = jb_deadline_ms job" "jb_pid j1 = jb_pid job"
    "jb_pid job' = jb_pid job" "jb_killed_for_output_limit j1 \<longrightarrow> jb_killed_for_output_limit job'"
    "jo_signals os' = jo_signals os @ (if term_due j1 now then [(jb_pid job, SIGTERM)]
       else if kill_due (jr_kill_grace_ms r) job now then [(jb_pid job, SIGKILL)] else [])"
    "jb_sigterm_at_ms job' = (if term_due j1 now then now else jb_sigterm_at_ms job)"
proof -
  obtain r1 j1 os1 j2 os2 j3 os3 j4 where
    d: "drain_pending r (service_broker job os) os = (r1, j1, os1)" and
    e: "enforce_deadline j1 now os1 = (j2, os2)" "enforce_output_cap j2 now os2 = (j3, os3)" and
    f: "reap r1 j3 (escalate (jr_kill_grace_ms r) j3 now os3) = (r', j4, os')" and s: "job' = settle j4" and
    st: "stage r job r1 j1" "stage r j1 r j2" "stage r j2 r j3" "stage r1 j3 r' j4" "stage r job r' j4"
    by (rule tick_job_stages [OF assms(1,2)])
  note q = enforce_spec [OF e assms(3)]
  have j1: "jb_sigterm_at_ms j1 = jb_sigterm_at_ms job" "jb_deadline_ms j1 = jb_deadline_ms job" "jb_pid j1 = jb_pid job"
    using drain_pending_dstage [OF d] by (auto simp: dstage_defs service_broker_def split: if_splits)
  have k: "jb_killed_for_output_limit j1 \<longrightarrow> jb_killed_for_output_limit job'" and pj: "jb_pid job' = jb_pid job"
    using st s by (auto simp: stage_defs settle_def)
  have p: "jb_pid j3 = jb_pid job" using st j1 by (simp add: stage_defs)
  have t: "jb_sigterm_at_ms job' = jb_sigterm_at_ms j3" using reap_sigterm [OF f] s by (simp add: settle_def)
  have "jo_signals os' = jo_signals os3 @ (if kill_due (jr_kill_grace_ms r) j3 now then [(jb_pid job, SIGKILL)] else [])"
    using reap_signals [OF f] p by (auto simp: escalate_def send_sigkill_def kill_due_def)
  moreover have "kill_due (jr_kill_grace_ms r) j3 now \<longleftrightarrow> \<not> term_due j1 now \<and> kill_due (jr_kill_grace_ms r) job now"
    using q(2) p assms(4) by (auto simp: kill_due_def j1)
  ultimately have "jo_signals os' = jo_signals os @ (if term_due j1 now then [(jb_pid job, SIGTERM)]
       else if kill_due (jr_kill_grace_ms r) job now then [(jb_pid job, SIGKILL)] else [])"
    using q(1) j1(3) drain_pending_signals [OF d] by simp
  then show thesis using that [OF j1 pj k] q(2) t j1(1) by simp
qed

section \<open>The order of signals\<close>

text \<open>
  One job over its life: ticks of the runner and cancellations of its run, with any state of the
  operating system at each of them. The trace records the time and the signal of every \<open>kill\<close> call.
\<close>

inductive job_run :: "64 word \<Rightarrow> rt_job \<Rightarrow> (64 word \<times> posix_signal) list \<Rightarrow> rt_job \<Rightarrow> bool" for grace where
  run_start: "job_run grace job [] job"
| run_tick: "job_run grace job tr j \<Longrightarrow> tick_job now r j os = (r', j', os') \<Longrightarrow> jr_kill_grace_ms r = grace \<Longrightarrow>
    now \<noteq> 0 \<Longrightarrow> now < now + grace \<Longrightarrow> jo_signals os' = jo_signals os @ new \<Longrightarrow>
    job_run grace job (tr @ map (\<lambda>(pid, sig). (now, sig)) new) j'"
| run_cancel: "job_run grace job tr j \<Longrightarrow> send_sigterm j now os = (j', os') \<Longrightarrow> now \<noteq> 0 \<Longrightarrow>
    jo_signals os' = jo_signals os @ new \<Longrightarrow> job_run grace job (tr @ map (\<lambda>(pid, sig). (now, sig)) new) j'"

definition signals_ordered :: "64 word \<Rightarrow> 64 word \<Rightarrow> (64 word \<times> posix_signal) list \<Rightarrow> bool" where
  "signals_ordered grace at tr \<longleftrightarrow>
     (if at = 0 then tr = [] else \<exists>kills. tr = (at, SIGTERM) # kills \<and> list_all (\<lambda>(t, sig). sig = SIGKILL \<and> at + grace \<le> t) kills)"

lemma job_run_ordered:
  "job_run grace job tr j \<Longrightarrow> jb_sigterm_at_ms job = 0 \<Longrightarrow> signals_ordered grace (jb_sigterm_at_ms j) tr"
proof (induction rule: job_run.induct)
  case (run_tick job tr j now r os r' j' os' new)
  show ?case
  proof (cases "jb_state j = JOB_RUNNING")
    case True
    have g: "now < now + jr_kill_grace_ms r" using run_tick by simp
    obtain j1 where j1: "jb_sigterm_at_ms j1 = jb_sigterm_at_ms j" and
      l: "jo_signals os' = jo_signals os @ (if term_due j1 now then [(jb_pid j, SIGTERM)]
         else if kill_due (jr_kill_grace_ms r) j now then [(jb_pid j, SIGKILL)] else [])" and
      t: "jb_sigterm_at_ms j' = (if term_due j1 now then now else jb_sigterm_at_ms j)"
      by (rule tick_job_signals [OF run_tick.hyps(2) True run_tick.hyps(4) g])
    have "new = (if term_due j1 now then [(jb_pid j, SIGTERM)]
         else if kill_due grace j now then [(jb_pid j, SIGKILL)] else [])"
      using l run_tick.hyps(3,6) by simp
    then show ?thesis using run_tick.IH [OF run_tick.prems] t j1 run_tick.hyps(4)
      by (auto simp: signals_ordered_def term_due_def kill_due_def split: if_splits)
  next
    case False
    then have "new = []" "j' = j" using run_tick.hyps by (simp_all add: tick_job_def)
    then show ?thesis using run_tick.IH [OF run_tick.prems] by simp
  qed
next
  case (run_cancel job tr j now os j' os' new)
  then show ?case by (auto simp: send_sigterm_def signals_ordered_def split: if_splits)
qed (simp add: signals_ordered_def)



end
