(* ===== verification/Jobrunner_Verdict.thy ===== *)
theory Jobrunner_Verdict
  imports Jobrunner_Signals
begin

text \<open>
  The deadline that \<open>jobrunner_module.c\<close> gives to the reactor, the tick that decides a job, and
  what a shutdown leaves behind.
\<close>

section \<open>The advertised deadline\<close>

lemma deadline_loop_le: "jr_deadline_loop grace js e \<le> e"
proof (induction js arbitrary: e)
  case (Cons j js)
  let ?e1 = "if jb_deadline_ms j > 0 \<and> jb_deadline_ms j < e then jb_deadline_ms j else e"
  let ?e2 = "if jb_sigterm_at_ms j \<noteq> 0 \<and> jb_sigterm_at_ms j + grace < ?e1 then jb_sigterm_at_ms j + grace else ?e1"
  have "?e2 \<le> e" by auto
  then show ?case using Cons [of ?e2] Cons [of e] by (auto simp: Let_def intro: order_trans)
qed simp

lemma deadline_loop_below:
  "now < jr_deadline_loop grace js e \<Longrightarrow> j \<in> set js \<Longrightarrow> jb_state j = JOB_RUNNING \<Longrightarrow>
     (jb_deadline_ms j > 0 \<longrightarrow> now < jb_deadline_ms j) \<and> (jb_sigterm_at_ms j \<noteq> 0 \<longrightarrow> now < jb_sigterm_at_ms j + grace)"
proof (induction js arbitrary: e)
  case (Cons i js)
  show ?case
  proof (cases "j = i")
    case True
    let ?e1 = "if jb_deadline_ms i > 0 \<and> jb_deadline_ms i < e then jb_deadline_ms i else e"
    let ?e2 = "if jb_sigterm_at_ms i \<noteq> 0 \<and> jb_sigterm_at_ms i + grace < ?e1 then jb_sigterm_at_ms i + grace else ?e1"
    have "now < ?e2" using Cons.prems True deadline_loop_le [of grace js ?e2] by (simp add: Let_def)
    then show ?thesis using True by (auto split: if_splits)
  next
    case False
    then show ?thesis using Cons by (auto simp: Let_def split: if_splits)
  qed
qed simp

text \<open>What a tick of the whole list adds to the log of signals, when it comes before every deadline.\<close>

lemma tick_jobs_quiet:
  assumes "tick_jobs now jobs r os = (jobs', r', os')" and "now \<noteq> 0" and "now < now + jr_kill_grace_ms r"
    and "\<forall>j \<in> set jobs. jb_state j = JOB_RUNNING \<longrightarrow>
      (jb_deadline_ms j > 0 \<longrightarrow> now < jb_deadline_ms j) \<and> (jb_sigterm_at_ms j \<noteq> 0 \<longrightarrow> now < jb_sigterm_at_ms j + jr_kill_grace_ms r)"
  shows "\<exists>new. jo_signals os' = jo_signals os @ new \<and>
    (\<forall>(pid, sig) \<in> set new. sig = SIGTERM \<and> (\<exists>j \<in> set jobs'. jb_pid j = pid \<and> jb_killed_for_output_limit j))"
  using assms
proof (induction now jobs r os arbitrary: jobs' r' os' rule: tick_jobs.induct)
  case (2 now job jobs r os)
  obtain r1 j1 os1 where t: "tick_job now r job os = (r1, j1, os1)" by (rule prod_cases3)
  obtain js r2 os2 where u: "tick_jobs now jobs r1 os1 = (js, r2, os2)" by (rule prod_cases3)
  have res: "jobs' = j1 # js" "os' = os2" using "2.prems"(1) t u by simp_all
  have g: "jr_kill_grace_ms r1 = jr_kill_grace_ms r" using tick_job_keeps [OF t] by (simp add: same_runner_def)
  obtain new where n: "jo_signals os2 = jo_signals os1 @ new"
    "\<forall>(pid, sig) \<in> set new. sig = SIGTERM \<and> (\<exists>j \<in> set js. jb_pid j = pid \<and> jb_killed_for_output_limit j)"
    using "2.IH" [OF t [symmetric] refl u "2.prems"(2)] "2.prems"(3,4) g by auto
  have "\<exists>new1. jo_signals os1 = jo_signals os @ new1 \<and>
    (\<forall>(pid, sig) \<in> set new1. sig = SIGTERM \<and> jb_pid j1 = pid \<and> jb_killed_for_output_limit j1)"
  proof (cases "jb_state job = JOB_RUNNING")
    case True
    obtain j where j: "jb_sigterm_at_ms j = jb_sigterm_at_ms job" "jb_deadline_ms j = jb_deadline_ms job"
      "jb_pid j1 = jb_pid job" "jb_killed_for_output_limit j \<longrightarrow> jb_killed_for_output_limit j1" and
      l: "jo_signals os1 = jo_signals os @ (if term_due j now then [(jb_pid job, SIGTERM)]
         else if kill_due (jr_kill_grace_ms r) job now then [(jb_pid job, SIGKILL)] else [])"
      by (rule tick_job_signals [OF t True "2.prems"(2,3)])
    have "\<not> kill_due (jr_kill_grace_ms r) job now" using "2.prems"(4) True by (auto simp: kill_due_def)
    moreover have "term_due j now \<Longrightarrow> jb_killed_for_output_limit j1"
      using "2.prems"(4) True j by (auto simp: term_due_def)
    ultimately show ?thesis using l j(3) by auto
  qed (use t in \<open>simp add: tick_job_def\<close>)
  then obtain new1 where m: "jo_signals os1 = jo_signals os @ new1"
    "\<forall>(pid, sig) \<in> set new1. sig = SIGTERM \<and> jb_pid j1 = pid \<and> jb_killed_for_output_limit j1" by blast
  show ?case unfolding res using n m by (intro exI [of _ "new1 @ new"]) fastforce
qed simp

text \<open>
  The module never promises the reactor too late a deadline: a tick before the deadline that
  \<open>jr_next_deadline\<close> returned sends no signal, except SIGTERM to a job that exceeded its
  output cap (which a descriptor event announces, not the clock).
\<close>

theorem no_signal_before_deadline:
  assumes "now < jr_next_deadline r" and "rt_jobrunner_tick r now os = (r', os')"
    and "now \<noteq> 0" and "now < now + jr_kill_grace_ms r"
  shows "\<exists>new. jo_signals os' = jo_signals os @ new \<and>
    (\<forall>(pid, sig) \<in> set new. sig = SIGTERM \<and> (\<exists>j \<in> set (jr_jobs r'). jb_pid j = pid \<and> jb_killed_for_output_limit j))"
proof -
  obtain jobs r1 os1 where t: "tick_jobs now (jr_jobs r) r os = (jobs, r1, os1)" by (rule prod_cases3)
  have d: "\<forall>j \<in> set (jr_jobs r). jb_state j = JOB_RUNNING \<longrightarrow>
      (jb_deadline_ms j > 0 \<longrightarrow> now < jb_deadline_ms j) \<and> (jb_sigterm_at_ms j \<noteq> 0 \<longrightarrow> now < jb_sigterm_at_ms j + jr_kill_grace_ms r)"
    using deadline_loop_below assms(1) unfolding jr_next_deadline_def by blast
  have "jr_jobs r' = jobs" "os' = os1" using assms(2) t by (auto simp: rt_jobrunner_tick_def)
  then show ?thesis using tick_jobs_quiet [OF t assms(3,4) d] by simp
qed

definition sample_os :: jos where
  "sample_os = \<lparr>jo_files = (\<lambda>_. None), jo_reads = (\<lambda>_. [Read_Eof]), jo_wait = (\<lambda>_. Some (Wait_Exited 0)), jo_signals = [],
     jo_broker = (\<lambda>b. b)\<rparr>"

definition sample_runner :: "rt_job list \<Rightarrow> rt_jobrunner" where
  "sample_runner jobs = (rt_jobrunner_init (replicate 64 empty_progress))\<lparr>jr_jobs := jobs\<rparr>"

theorem no_signal_before_deadline_witness:
  "jo_signals (snd (rt_jobrunner_tick (sample_runner [sample_job ''r'']) 499 sample_os)) = []"
proof -
  let ?r = "sample_runner [sample_job ''r'']"
  have b: "(499 :: 64 word) < jr_next_deadline ?r" "(499 :: 64 word) < 499 + jr_kill_grace_ms ?r"
    by code_simp+
  have k: "\<forall>j \<in> set (jr_jobs (fst (rt_jobrunner_tick ?r 499 sample_os))). \<not> jb_killed_for_output_limit j"
    by code_simp
  obtain r' os' where t: "rt_jobrunner_tick ?r 499 sample_os = (r', os')" by (rule prod.exhaust)
  from no_signal_before_deadline [OF b(1) t _ b(2)] obtain new where
    "jo_signals os' = jo_signals sample_os @ new"
    "\<forall>(pid, sig) \<in> set new. sig = SIGTERM \<and> (\<exists>j \<in> set (jr_jobs r'). jb_pid j = pid \<and> jb_killed_for_output_limit j)" by auto
  moreover from this(2) k t have "new = []" by (cases new) (auto split: prod.splits)
  ultimately show ?thesis using t by (simp add: sample_os_def)
qed

text \<open>
  While a job that passed its deadline waits out its grace period, the deadline advertised is
  the one already passed, so the reactor polls with a timeout of 0 until the job is decided: the
  loop of \<open>jr_next_deadline\<close> does not skip the deadlines that were already enforced.
\<close>

theorem expired_deadline_readvertised:
  assumes "j \<in> set (jr_jobs r)" and "jb_state j = JOB_RUNNING" and "0 < jb_deadline_ms j" and "jb_deadline_ms j \<le> now"
    and "0 \<le> d"
  shows "jr_next_deadline r \<le> now \<and> poll_timeout d now (jr_next_deadline r) = 0"
proof -
  have "\<not> now < jr_next_deadline r"
    using deadline_loop_below [of now "jr_kill_grace_ms r" "jr_jobs r" FC_NO_DEADLINE j] assms
    unfolding jr_next_deadline_def by auto
  then show ?thesis using assms(5) by (simp add: poll_timeout_def)
qed

theorem expired_deadline_readvertised_witness:
  "poll_timeout 200 600 (jr_next_deadline (sample_runner [(sample_job ''r'')\<lparr>jb_sigterm_at_ms := 550\<rparr>])) = 0"
  using expired_deadline_readvertised [of "(sample_job ''r'')\<lparr>jb_sigterm_at_ms := 550\<rparr>"
      "sample_runner [(sample_job ''r'')\<lparr>jb_sigterm_at_ms := 550\<rparr>]" 600 200]
  by (simp add: sample_runner_def sample_job_def new_job_def)

section \<open>The verdict\<close>

fun pipe_ends :: "read_result list \<Rightarrow> bool" where
  "pipe_ends [] = False"
| "pipe_ends (Read_Bytes b # rs) = pipe_ends rs"
| "pipe_ends (Read_Intr # rs) = pipe_ends rs"
| "pipe_ends (Read_Again # rs) = False"
| "pipe_ends (Read_Eof # rs) = True"
| "pipe_ends (Read_Error # rs) = True"

text \<open>Each pipe of the job is at its end already or its writers are gone, so that reading reaches the end.\<close>

definition pipes_end :: "rt_job \<Rightarrow> jos \<Rightarrow> bool" where
  "pipes_end job os \<longleftrightarrow>
     (jb_stdout_eof job \<or> jb_stdout_fd job \<ge> 0 \<and> pipe_ends (jo_reads os (jb_stdout_fd job))) \<and>
     (jb_stderr_eof job \<or> jb_stderr_fd job \<ge> 0 \<and> pipe_ends (jo_reads os (jb_stderr_fd job)) \<and> jb_stderr_fd job \<noteq> jb_stdout_fd job) \<and>
     (jb_progress_eof job \<or> jb_progress_fd job \<ge> 0 \<and> pipe_ends (jo_reads os (jb_progress_fd job)) \<and>
        jb_progress_fd job \<noteq> jb_stdout_fd job \<and> jb_progress_fd job \<noteq> jb_stderr_fd job)"

lemma drain_pipe_end: "drain_pipe rs d cap over acc = (b, d', over', e, rs') \<Longrightarrow> e \<noteq> Drain_More \<longleftrightarrow> pipe_ends rs"
  by (induction rs d cap over acc rule: drain_pipe.induct) (auto simp: Let_def)

lemma drain_progress_pipe_end: "drain_progress_pipe rs r job = (r', job', e, rs') \<Longrightarrow> e \<noteq> Drain_More \<longleftrightarrow> pipe_ends rs"
  by (induction rs r job rule: drain_progress_pipe.induct) (auto split: prod.splits)

lemma finalize_keeps [simp]:
  "jo_reads (snd (finalize_out_file job os)) = jo_reads os" "jo_wait (snd (finalize_out_file job os)) = jo_wait os"
  by (auto simp: finalize_out_file_def Let_def split: option.split)

lemma append_file_keeps [simp]: "jo_reads (append_file p b os) = jo_reads os" "jo_wait (append_file p b os) = jo_wait os"
  by (auto simp: append_file_def split: option.split)

lemma set_reads_keeps [simp]: "jo_wait (set_reads fd rs os) = jo_wait os" "jo_reads (set_reads fd rs os) = (jo_reads os)(fd := rs)"
  by (simp_all add: set_reads_def)

lemma drain_stdout_keeps:
  "jo_wait (snd (drain_stdout job os)) = jo_wait os"
  "fd \<noteq> jb_stdout_fd job \<Longrightarrow> jo_reads (snd (drain_stdout job os)) fd = jo_reads os fd"
  "jb_stderr_fd (fst (drain_stdout job os)) = jb_stderr_fd job" "jb_progress_fd (fst (drain_stdout job os)) = jb_progress_fd job"
  by (auto simp: drain_stdout_def Let_def split: prod.split option.split)

lemma drain_stderr_keeps:
  "jo_wait (snd (drain_stderr job os)) = jo_wait os"
  "fd \<noteq> jb_stderr_fd job \<Longrightarrow> jo_reads (snd (drain_stderr job os)) fd = jo_reads os fd"
  "jb_progress_fd (fst (drain_stderr job os)) = jb_progress_fd job"
  by (auto simp: drain_stderr_def Let_def split: prod.split)

lemma drain_progress_wait: "drain_progress r job os = (r', job', os') \<Longrightarrow> jo_wait os' = jo_wait os"
  by (auto simp: drain_progress_def Let_def split: prod.splits if_splits)

lemma drain_stdout_ends:
  "jb_stdout_eof job \<or> jb_stdout_fd job \<ge> 0 \<and> pipe_ends (jo_reads os (jb_stdout_fd job)) \<Longrightarrow>
     jb_stdout_eof (fst (drain_stdout job os))"
  by (auto simp: drain_stdout_def Let_def dest: drain_pipe_end split: prod.split)

lemma drain_stderr_ends:
  "jb_stderr_eof job \<or> jb_stderr_fd job \<ge> 0 \<and> pipe_ends (jo_reads os (jb_stderr_fd job)) \<Longrightarrow>
     jb_stderr_eof (fst (drain_stderr job os))"
  by (auto simp: drain_stderr_def Let_def dest: drain_pipe_end split: prod.split)

lemma drain_progress_ends:
  "jb_progress_eof job \<or> jb_progress_fd job \<ge> 0 \<and> pipe_ends (jo_reads os (jb_progress_fd job)) \<Longrightarrow>
     jb_progress_eof (fst (snd (drain_progress r job os)))"
  by (auto simp: drain_progress_def drop_progress_def Let_def dest: drain_progress_pipe_end split: prod.split)

lemma drain_pending_ends:
  assumes "drain_pending r job os = (r', job', os')"
  shows "jo_wait os' = jo_wait os" and "pipes_end job os \<Longrightarrow> jb_stdout_eof job' \<and> jb_stderr_eof job' \<and> jb_progress_eof job'"
proof -
  obtain j1 os1 where a: "drain_stdout job os = (j1, os1)" by (rule prod.exhaust)
  obtain j2 os2 where b: "drain_stderr j1 os1 = (j2, os2)" by (rule prod.exhaust)
  have c: "drain_progress r j2 os2 = (r', job', os')" using assms a b by (simp add: drain_pending_def)
  show "jo_wait os' = jo_wait os"
    using drain_stdout_keeps(1) [of job os] drain_stderr_keeps(1) [of j1 os1] drain_progress_wait [OF c] a b by simp
  note f1 = drain_stdout_dstage [OF a, of r] and f2 = drain_stderr_dstage [OF b, of r] and f3 = drain_progress_dstage [OF c]
  assume p: "pipes_end job os"
  have "jb_stdout_eof j1" using drain_stdout_ends [of job os] a p by (simp add: pipes_end_def)
  moreover have e: "jb_stderr_eof j1 \<or> jb_stderr_fd j1 \<ge> 0 \<and> pipe_ends (jo_reads os1 (jb_stderr_fd j1))"
    using p drain_stdout_keeps [where job = job and os = os] a f1 by (auto simp: pipes_end_def dstage_defs)
  then have "jb_stderr_eof j2" using drain_stderr_ends [of j1 os1] b by simp
  moreover have "jb_progress_eof j2 \<or> jb_progress_fd j2 \<ge> 0 \<and> pipe_ends (jo_reads os2 (jb_progress_fd j2))"
  proof (cases "jb_progress_eof job")
    case True
    then show ?thesis using f1 f2 by (simp add: dstage_defs)
  next
    case False
    have fd: "jb_progress_fd j2 = jb_progress_fd job" "jb_stderr_fd j1 = jb_stderr_fd job"
      using drain_stdout_keeps(3,4) [of job os] drain_stderr_keeps(3) [of j1 os1] a b by simp_all
    moreover have "jo_reads os2 (jb_progress_fd job) = jo_reads os (jb_progress_fd job)"
      using drain_stdout_keeps(2) [of "jb_progress_fd job" job os] drain_stderr_keeps(2) [of "jb_progress_fd job" j1 os1]
        False p a b fd(2) by (simp add: pipes_end_def)
    ultimately show ?thesis using False p by (simp add: pipes_end_def)
  qed
  then have "jb_progress_eof job'" using drain_progress_ends [of j2 os2 r] c by simp
  ultimately show "jb_stdout_eof job' \<and> jb_stderr_eof job' \<and> jb_progress_eof job'"
    using f2 f3 by (simp add: dstage_defs)
qed

lemma enforce_keeps:
  "jb_secret_broker (fst (enforce_deadline j now os)) = jb_secret_broker j" "jo_wait (snd (enforce_deadline j now os)) = jo_wait os"
  "jb_exited (fst (enforce_deadline j now os)) = jb_exited j"
  "jb_secret_broker (fst (enforce_output_cap j now os)) = jb_secret_broker j" "jo_wait (snd (enforce_output_cap j now os)) = jo_wait os"
  "jb_exited (fst (enforce_output_cap j now os)) = jb_exited j" "jo_wait (escalate grace j now os) = jo_wait os"
  by (simp_all add: enforce_deadline_def enforce_output_cap_def send_sigterm_def escalate_def send_sigkill_def)

lemma reap_exits:
  assumes "reap r job os = (r', job', os')" and "jb_exited job \<or> jo_wait os (jb_pid job) \<noteq> None"
  shows "jb_exited job' \<and> jb_secret_broker job' = jb_secret_broker job"
proof (cases "jb_exited job")
  case False
  then obtain st where st: "jo_wait os (jb_pid job) = Some st" using assms(2) by auto
  let ?j = "(case st of Wait_Exited code \<Rightarrow> job\<lparr>jb_exit_status := code, jb_signaled := False\<rparr>
     | Wait_Signaled sig \<Rightarrow> job\<lparr>jb_signaled := True, jb_term_signal := sig, jb_exit_status := 128 + sig\<rparr>)\<lparr>jb_exited := True\<rparr>"
  have "drain_pending r ?j os = (r', job', os')" using assms(1) False st by (simp add: reap_def Let_def)
  from drain_pending_dstage [OF this] show ?thesis by (auto simp: dstage_defs split: wait_status.splits)
qed (use assms in \<open>simp add: reap_def\<close>)

text \<open>
  C13. A job whose work is over is decided by the next tick: when its process has been or can be
  reaped, its open pipes have no writer left and its secret broker is absent or closed, one tick
  gives the verdict, finished exactly when the exit status is 0 and it was killed neither
  for its deadline nor for its output.
\<close>

theorem job_settles:
  assumes "tick_job now r job os = (r', job', os')" and "jb_state job = JOB_RUNNING" and "pipes_end job os"
    and "jb_exited job \<or> jo_wait os (jb_pid job) \<noteq> None" and "broker_done (service_broker job os)"
  shows "jb_state job' = (if jb_exit_status job' = 0 \<and> \<not> jb_killed_for_timeout job' \<and> \<not> jb_killed_for_output_limit job'
    then JOB_FINISHED else JOB_FAILED)"
proof -
  obtain r1 j1 os1 j2 os2 j3 os3 j4 where
    d: "drain_pending r (service_broker job os) os = (r1, j1, os1)" and
    e: "enforce_deadline j1 now os1 = (j2, os2)" "enforce_output_cap j2 now os2 = (j3, os3)" and
    f: "reap r1 j3 (escalate (jr_kill_grace_ms r) j3 now os3) = (r', j4, os')" and s: "job' = settle j4" and
    st: "stage r job r1 j1" "stage r j1 r j2" "stage r j2 r j3" "stage r1 j3 r' j4" "stage r job r' j4"
    by (rule tick_job_stages [OF assms(1,2)])
  have b: "jb_exited (service_broker job os) = jb_exited job" "pipes_end (service_broker job os) os"
    using assms(3) by (simp_all add: service_broker_def pipes_end_def)
  have eof: "jb_stdout_eof j4 \<and> jb_stderr_eof j4 \<and> jb_progress_eof j4"
    using drain_pending_ends(2) [OF d b(2)] st(2-4) by (simp add: stage_defs)
  have "jb_exited j1 = jb_exited job" "jb_secret_broker j1 = jb_secret_broker (service_broker job os)"
    using drain_pending_dstage [OF d] b(1) by (simp_all add: dstage_defs)
  then have j3: "jb_exited j3 = jb_exited job" "jb_secret_broker j3 = jb_secret_broker (service_broker job os)"
      "jo_wait os3 = jo_wait os" "jb_pid j3 = jb_pid job"
    using enforce_keeps(1-6) [of j1 now os1] enforce_keeps(1-6) [of j2 now os2] e drain_pending_ends(1) [OF d] st(1-3)
    by (simp_all add: stage_defs)
  have "jb_exited j4 \<and> jb_secret_broker j4 = jb_secret_broker (service_broker job os)"
    using reap_exits [OF f] j3 assms(4) enforce_keeps(7) [of "jr_kill_grace_ms r" j3 now os3] by simp
  moreover from this have "broker_done j4" using assms(5) by (simp add: broker_done_def)
  ultimately show ?thesis using eof s by (simp add: settle_def)
qed

theorem job_settles_witness:
  "jb_state (fst (snd (tick_job 400 (sample_runner []) (sample_job ''r'') sample_os))) = JOB_FINISHED"
proof -
  obtain r' j' os' where t: "tick_job 400 (sample_runner []) (sample_job ''r'') sample_os = (r', j', os')" by (rule prod_cases3)
  have h: "jb_state (sample_job ''r'') = JOB_RUNNING" "pipes_end (sample_job ''r'') sample_os"
      "jo_wait sample_os (jb_pid (sample_job ''r'')) \<noteq> None" "broker_done (service_broker (sample_job ''r'') sample_os)"
    by code_simp+
  have v: "jb_exit_status j' = 0 \<and> \<not> jb_killed_for_timeout j' \<and> \<not> jb_killed_for_output_limit j'"
  proof -
    have "(\<lambda>(r, j, os). jb_exit_status j = 0 \<and> \<not> jb_killed_for_timeout j \<and> \<not> jb_killed_for_output_limit j)
        (tick_job 400 (sample_runner []) (sample_job ''r'') sample_os)" by code_simp
    then show ?thesis using t by simp
  qed
  from job_settles [OF t h(1,2) _ h(4)] show ?thesis using h(3) v t by simp
qed

section \<open>Shutdown\<close>

lemma release_finished_running: "release_finished r os = (r', os') \<Longrightarrow> list_all (\<lambda>j. jb_state j = JOB_RUNNING) (jr_jobs r')"
proof (induction r os rule: release_finished.induct)
  case (1 r os)
  obtain j r1 where p: "rt_jobrunner_pop_finished r = (j, r1)" by (rule prod.exhaust)
  show ?case
  proof (cases j)
    case None
    then have "find_index (\<lambda>j. jb_state j = JOB_FINISHED \<or> jb_state j = JOB_FAILED) (jr_jobs r) = None" "r' = r"
      using p "1.prems" by (auto simp: rt_jobrunner_pop_finished_def release_finished.simps [of r] split: option.splits)
    then have "\<forall>j \<in> set (jr_jobs r'). \<not> (jb_state j = JOB_FINISHED \<or> jb_state j = JOB_FAILED)"
      by (simp add: find_index_None_iff)
    moreover have "jb_state j = JOB_RUNNING \<or> jb_state j = JOB_FINISHED \<or> jb_state j = JOB_FAILED" for j :: rt_job
      by (cases "jb_state j") simp_all
    ultimately show ?thesis unfolding list_all_iff by blast
  next
    case (Some x)
    obtain r2 os2 where q: "rt_jobrunner_release r1 x os = (r2, os2)" by (rule prod.exhaust)
    have "release_finished r2 os2 = (r', os')" using "1.prems" p q Some by (simp add: release_finished.simps [of r])
    then show ?thesis using "1.IH" [OF p [symmetric] Some q [symmetric]] by simp
  qed
qed

text \<open>
  A shutdown hands back every decided job: whatever the operating system does, the runner
  tracks only jobs that are still running afterwards, so it tracks none when the waiting loops
  saw every job decided.
\<close>

theorem shutdown_releases_decided:
  "list_all (\<lambda>j. jb_state j = JOB_RUNNING) (jr_jobs (fst (rt_jobrunner_shutdown_all r grace started term_at clock retries os)))"
proof -
  have fin: "list_all (\<lambda>j. jb_state j = JOB_RUNNING) (jr_jobs (fst (release_finished r3 os3)))" for r3 os3
    using release_finished_running [of r3 os3 "fst (release_finished r3 os3)" "snd (release_finished r3 os3)"] by simp
  show ?thesis unfolding rt_jobrunner_shutdown_all_def Let_def case_prod_beta by (rule fin)
qed

end
