(* ===== verification/Jobrunner_Progress.thy ===== *)
theory Jobrunner_Progress
  imports Jobrunner_Ring
begin

text \<open>
  The progress stream of a job does not depend on how \<open>read\<close> cuts it into pieces, as long as no
  line reaches the size of the partial-record buffer; a line that does is where it depends.
\<close>

text \<open>The specification takes one byte at a time.\<close>

definition feed_byte :: "char \<Rightarrow> rt_jobrunner \<times> rt_job \<Rightarrow> rt_jobrunner \<times> rt_job" where
  "feed_byte c s = (case s of (r, job) \<Rightarrow>
     if c = CHR 0x0A then
       (case (if jb_progress_partial job \<noteq> [] then queue_progress r job (jb_progress_partial job) else (r, job)) of
          (r', job') \<Rightarrow> (r', job'\<lparr>jb_progress_partial := []\<rparr>))
     else (r, job\<lparr>jb_progress_partial := jb_progress_partial job @ [c]\<rparr>))"

fun short_lines :: "nat \<Rightarrow> string \<Rightarrow> bool" where
  "short_lines n [] = (n < JOB_PROGRESS_PARTIAL_CAP)"
| "short_lines n (c # cs) = (n < JOB_PROGRESS_PARTIAL_CAP \<and> short_lines (if c = CHR 0x0A then 0 else Suc n) cs)"

lemma short_lines_here: "short_lines n cs \<Longrightarrow> n < JOB_PROGRESS_PARTIAL_CAP"
  by (cases cs) auto

lemma short_lines_append:
  "CHR 0x0A \<notin> set part \<Longrightarrow> short_lines n (part @ cs) \<Longrightarrow> short_lines (n + length part) cs"
proof (induction part arbitrary: n)
  case (Cons c part)
  then show ?case using Cons.IH [of "Suc n"] by (auto split: if_splits)
qed simp

lemma feed_part:
  "CHR 0x0A \<notin> set part \<Longrightarrow> fold feed_byte part (r, job) = (r, job\<lparr>jb_progress_partial := jb_progress_partial job @ part\<rparr>)"
proof (induction part arbitrary: job)
  case Nil
  then show ?case by (cases job) simp
next
  case (Cons c part)
  then have "c \<noteq> CHR 0x0A" "CHR 0x0A \<notin> set part" by auto
  then show ?case using Cons.IH by (simp add: feed_byte_def)
qed

lemma split_first_line:
  assumes "CHR 0x0A \<in> set bytes"
  shows "bytes = takeWhile (\<lambda>c. c \<noteq> CHR 0x0A) bytes @ CHR 0x0A #
    drop (length (takeWhile (\<lambda>c. c \<noteq> CHR 0x0A) bytes) + 1) bytes"
  using assms by (induction bytes) auto

lemma takeWhile_no_newline: "CHR 0x0A \<notin> set (takeWhile (\<lambda>c. c \<noteq> CHR 0x0A) bytes)"
  by (induction bytes) auto

lemma progress_consume_no_newline:
  assumes "CHR 0x0A \<notin> set bytes" and "bytes \<noteq> []"
  shows "progress_consume_bytes r job bytes =
    (if length (jb_progress_partial job) + length bytes \<ge> JOB_PROGRESS_PARTIAL_CAP
     then drop_progress r (job\<lparr>jb_progress_partial := []\<rparr>)
     else (r, job\<lparr>jb_progress_partial := jb_progress_partial job @ bytes\<rparr>))"
proof -
  have p: "takeWhile (\<lambda>c. c \<noteq> CHR 0x0A) bytes = bytes" using assms(1) by (auto simp: takeWhile_eq_all_conv)
  show ?thesis by (subst progress_consume_bytes.simps, unfold p Let_def) (simp add: assms split: prod.split)
qed

lemma progress_consume_feeds:
  "short_lines (length (jb_progress_partial job)) bytes \<Longrightarrow> progress_consume_bytes r job bytes = fold feed_byte bytes (r, job)"
proof (induction r job bytes rule: progress_consume_bytes.induct)
  case (1 r job bytes)
  let ?part = "takeWhile (\<lambda>c. c \<noteq> CHR 0x0A) bytes"
  let ?rest = "drop (length ?part + 1) bytes"
  let ?job1 = "job\<lparr>jb_progress_partial := jb_progress_partial job @ ?part\<rparr>"
  note np = takeWhile_no_newline [of bytes]
  show ?case
  proof (cases "CHR 0x0A \<in> set bytes")
    case True
    note b = split_first_line [OF True]
    have ne: "bytes \<noteq> []" using True by auto
    have sl: "short_lines (length (jb_progress_partial job) + length ?part) (CHR 0x0A # ?rest)"
      using short_lines_append [OF np, of "length (jb_progress_partial job)" "CHR 0x0A # ?rest"] 1(3) b by simp
    then have fits: "\<not> JOB_PROGRESS_PARTIAL_CAP \<le> length (jb_progress_partial job) + length ?part" and sr: "short_lines 0 ?rest"
      using short_lines_here by auto
    obtain r2 j2 where q: "(if jb_progress_partial ?job1 \<noteq> [] then queue_progress r ?job1 (jb_progress_partial ?job1) else (r, ?job1)) = (r2, j2)"
      by (rule prod.exhaust)
    have "progress_consume_bytes r job bytes = progress_consume_bytes r2 (j2\<lparr>jb_progress_partial := []\<rparr>) ?rest"
      using ne fits True q by (simp add: progress_consume_bytes.simps [of r job bytes] Let_def)
    also have "\<dots> = fold feed_byte ?rest (r2, j2\<lparr>jb_progress_partial := []\<rparr>)"
      using "1.IH"(2) [OF ne refl refl refl fits refl _ q [symmetric]] True sr by simp
    also have "\<dots> = fold feed_byte (CHR 0x0A # ?rest) (r, ?job1)"
      using q by (simp add: feed_byte_def)
    also have "\<dots> = fold feed_byte bytes (r, job)"
      using feed_part [OF np, of r job] by (subst (3) b) simp
    finally show ?thesis .
  next
    case False
    have "length (jb_progress_partial job) + length bytes < JOB_PROGRESS_PARTIAL_CAP"
      using short_lines_append [OF False, of _ "[]"] "1.prems" by simp
    then show ?thesis using feed_part [OF False, of r job] progress_consume_no_newline [OF False, of r job]
      by (cases "bytes = []") (simp_all add: progress_consume_bytes.simps [of r job "[]"])
  qed
qed

lemma queue_progress_partial: "jb_progress_partial (snd (queue_progress r job b)) = jb_progress_partial job"
  by (simp add: queue_progress_def drop_progress_def Let_def)

lemma short_lines_fed:
  "short_lines (length (jb_progress_partial job)) (a @ b) \<Longrightarrow>
     short_lines (length (jb_progress_partial (snd (fold feed_byte a (r, job))))) b"
proof (induction a arbitrary: r job)
  case (Cons c a)
  obtain r1 j1 where f: "feed_byte c (r, job) = (r1, j1)" by (rule prod.exhaust)
  have "length (jb_progress_partial j1) = (if c = CHR 0x0A then 0 else Suc (length (jb_progress_partial job)))"
    using f by (auto simp: feed_byte_def split: if_splits prod.splits)
  then show ?case using Cons f by simp
qed simp

lemma short_lines_prefix: "short_lines n (a @ b) \<Longrightarrow> short_lines n a"
  by (induction n a rule: short_lines.induct) (auto dest: short_lines_here)

text \<open>
  The records a job reports do not depend on how the pipe delivers them: as long as no line of
  the stream reaches the 8192 bytes of the partial-record buffer, reading the bytes in two
  pieces, cut anywhere, has the same effect on the queue, the job and the drop counters as reading them at once.
\<close>

theorem progress_chunks_agree:
  assumes "short_lines (length (jb_progress_partial job)) (a @ b)"
  shows "progress_consume_bytes r job (a @ b) =
    (case progress_consume_bytes r job a of (r1, job1) \<Rightarrow> progress_consume_bytes r1 job1 b)"
proof -
  obtain r1 j1 where a: "fold feed_byte a (r, job) = (r1, j1)" by (rule prod.exhaust)
  have "progress_consume_bytes r job a = (r1, j1)"
    using progress_consume_feeds [OF short_lines_prefix [OF assms]] a by simp
  moreover have "progress_consume_bytes r1 j1 b = fold feed_byte b (r1, j1)"
    using progress_consume_feeds short_lines_fed [OF assms, of r] a by simp
  ultimately show ?thesis using progress_consume_feeds [OF assms] a by simp
qed

theorem progress_chunks_agree_witness:
  "progress_consume_bytes (rt_jobrunner_init (replicate 64 empty_progress)) (sample_job ''r'') (''a'' @ ''b'' @ [CHR 0x0A]) =
   (case progress_consume_bytes (rt_jobrunner_init (replicate 64 empty_progress)) (sample_job ''r'') ''a'' of
      (r1, job1) \<Rightarrow> progress_consume_bytes r1 job1 (''b'' @ [CHR 0x0A]))"
  by (rule progress_chunks_agree) (simp add: sample_job_def new_job_def JOB_PROGRESS_PARTIAL_CAP_def)

text \<open>
  A line that does reach the buffer's size is not dropped as a whole: the bytes collected so far are
  discarded, and the rest of the same line, when it arrives in a later read, is queued as if it
  were a record of its own.
\<close>

theorem oversized_tail_queued:
  assumes "ring_inv r" and "jr_progress_count r < 64" and "length a \<ge> JOB_PROGRESS_PARTIAL_CAP" and "CHR 0x0A \<notin> set a"
    and "t \<noteq> []" and "length t < JOB_PROGRESS_RECORD_CAP" and "CHR 0x0A \<notin> set t"
  shows "ring_view (fst (case progress_consume_bytes r job a of (r1, job1) \<Rightarrow> progress_consume_bytes r1 job1 (t @ [CHR 0x0A]))) =
    ring_view r @ [the (progress_entry (job, t))]"
proof -
  let ?j1 = "job\<lparr>jb_progress_partial := [], jb_progress_dropped := True\<rparr>"
  let ?r1 = "r\<lparr>jr_progress_dropped := jr_progress_dropped r + 1\<rparr>"
  have "a \<noteq> []" using assms(3) by (auto simp: JOB_PROGRESS_PARTIAL_CAP_def)
  then have a: "progress_consume_bytes r job a = (?r1, ?j1)"
    using progress_consume_no_newline [OF assms(4), of r job] assms(3) by (simp add: drop_progress_def)
  have l: "length t < 8192" using assms(6) by (simp add: JOB_PROGRESS_RECORD_CAP_def)
  have "short_lines n (t @ [CHR 0x0A])" if "n + length t < 8192" for n
    using that assms(7) by (induction t arbitrary: n) (auto simp: JOB_PROGRESS_PARTIAL_CAP_def)
  from progress_consume_feeds [of ?j1, OF this] l
  have "progress_consume_bytes ?r1 ?j1 (t @ [CHR 0x0A]) = feed_byte (CHR 0x0A) (?r1, ?j1\<lparr>jb_progress_partial := t\<rparr>)"
    using feed_part [OF assms(7), of ?r1 ?j1] by simp
  then have "fst (progress_consume_bytes ?r1 ?j1 (t @ [CHR 0x0A])) = ring_push ?r1 (?j1\<lparr>jb_progress_partial := t\<rparr>, t)"
    using assms(5) by (simp add: feed_byte_def ring_push_def split: prod.split)
  moreover have "ring_inv ?r1" "ring_view ?r1 = ring_view r" using assms(1) by (simp_all add: ring_inv_def ring_view_def)
  moreover have "progress_entry (?j1\<lparr>jb_progress_partial := t\<rparr>, t) = progress_entry (job, t)" "progress_entry (job, t) \<noteq> None"
    using assms(5,6) by (simp_all add: progress_entry_def)
  ultimately show ?thesis using a ring_view_push [of ?r1 "(?j1\<lparr>jb_progress_partial := t\<rparr>, t)"] assms(2) by auto
qed

theorem oversized_tail_queued_witness:
  "ring_view (fst (case progress_consume_bytes (rt_jobrunner_init (replicate 64 empty_progress)) (sample_job ''r'') (replicate 8192 (CHR ''x'')) of
     (r1, job1) \<Rightarrow> progress_consume_bytes r1 job1 (''tail'' @ [CHR 0x0A]))) =
   [\<lparr>jp_job_id = ''job_001'', jp_run_id = ''r'', jp_origin_event_id = ''ev'', jp_record = ''tail''\<rparr>]"
proof -
  let ?r = "rt_jobrunner_init (replicate 64 empty_progress)"
  have i: "ring_inv ?r" "jr_progress_count ?r < 64" "ring_view ?r = []"
    by (simp_all add: ring_inv_def ring_view_def rt_jobrunner_init_def)
  have e: "the (progress_entry (sample_job ''r'', ''tail'')) =
      \<lparr>jp_job_id = ''job_001'', jp_run_id = ''r'', jp_origin_event_id = ''ev'', jp_record = ''tail''\<rparr>" by code_simp
  show ?thesis
    using oversized_tail_queued [OF i(1,2), of "replicate 8192 (CHR ''x'')" "''tail''" "sample_job ''r''"] i(3) e
    by (simp add: JOB_PROGRESS_PARTIAL_CAP_def JOB_PROGRESS_RECORD_CAP_def)
qed

end
