(* ===== verification/Sha256.thy ===== *)
theory Sha256
  imports Prelude
begin

text \<open>
  SHA-256 as \<open>runtime/support/sha256.c\<close> computes it: a context with the eight state words, the
  byte count, the 64-byte block buffer and the number of bytes in it. Bytes are \<open>8 word\<close>, state
  words \<open>32 word\<close>, the byte count a \<open>64 word\<close>. The bytes of the buffer behind \<open>block_len\<close> keep what was
  there before, as in C.
\<close>

unbundle bit_operations_syntax

type_synonym byte8 = "8 word"

type_synonym word32 = "32 word"

text \<open>The table, in the rows the source prints it in.\<close>

definition sha_k :: "word32 list" where
  "sha_k = concat [
      [0x428a2f98, 0x71374491, 0xb5c0fbcf, 0xe9b5dba5],
      [0x3956c25b, 0x59f111f1, 0x923f82a4, 0xab1c5ed5],
      [0xd807aa98, 0x12835b01, 0x243185be, 0x550c7dc3],
      [0x72be5d74, 0x80deb1fe, 0x9bdc06a7, 0xc19bf174],
      [0xe49b69c1, 0xefbe4786, 0x0fc19dc6, 0x240ca1cc],
      [0x2de92c6f, 0x4a7484aa, 0x5cb0a9dc, 0x76f988da],
      [0x983e5152, 0xa831c66d, 0xb00327c8, 0xbf597fc7],
      [0xc6e00bf3, 0xd5a79147, 0x06ca6351, 0x14292967],
      [0x27b70a85, 0x2e1b2138, 0x4d2c6dfc, 0x53380d13],
      [0x650a7354, 0x766a0abb, 0x81c2c92e, 0x92722c85],
      [0xa2bfe8a1, 0xa81a664b, 0xc24b8b70, 0xc76c51a3],
      [0xd192e819, 0xd6990624, 0xf40e3585, 0x106aa070],
      [0x19a4c116, 0x1e376c08, 0x2748774c, 0x34b0bcb5],
      [0x391c0cb3, 0x4ed8aa4a, 0x5b9cca4f, 0x682e6ff3],
      [0x748f82ee, 0x78a5636f, 0x84c87814, 0x8cc70208],
      [0x90befffa, 0xa4506ceb, 0xbef9a3f7, 0xc67178f2]]"

definition rotr :: "word32 \<Rightarrow> nat \<Rightarrow> word32" where
  "rotr v n = drop_bit n v OR push_bit (32 - n) v"

definition load_be32 :: "byte8 list \<Rightarrow> nat \<Rightarrow> word32" where
  "load_be32 p i = push_bit 24 (ucast (p ! i)) OR push_bit 16 (ucast (p ! (i + 1))) OR
     push_bit 8 (ucast (p ! (i + 2))) OR ucast (p ! (i + 3))"

definition store_be32 :: "word32 \<Rightarrow> byte8 list" where
  "store_be32 v = [ucast (drop_bit 24 v), ucast (drop_bit 16 v), ucast (drop_bit 8 v), ucast v]"

record sha256_ctx =
  sh_state :: "word32 list"
  sh_total_bytes :: "64 word"
  sh_block :: "byte8 list"
  sh_block_len :: nat

section \<open>The compression of one block\<close>

definition schedule_word :: "word32 list \<Rightarrow> nat \<Rightarrow> word32" where
  "schedule_word w i =
     (let s0 = rotr (w ! (i - 15)) 7 XOR rotr (w ! (i - 15)) 18 XOR drop_bit 3 (w ! (i - 15));
          s1 = rotr (w ! (i - 2)) 17 XOR rotr (w ! (i - 2)) 19 XOR drop_bit 10 (w ! (i - 2))
      in w ! (i - 16) + s0 + w ! (i - 7) + s1)"

text \<open>The array \<open>w\<close> filled from the block and then upwards, as many entries as \<open>n\<close> says.\<close>

fun schedule_loop :: "nat \<Rightarrow> word32 list \<Rightarrow> word32 list" where
  "schedule_loop 0 w = w"
| "schedule_loop (Suc n) w = schedule_loop n (w @ [schedule_word w (length w)])"

definition message_schedule :: "byte8 list \<Rightarrow> word32 list" where
  "message_schedule block = schedule_loop 48 (map (\<lambda>i. load_be32 block (i * 4)) [0..<16])"

type_synonym sha_vars = "word32 \<times> word32 \<times> word32 \<times> word32 \<times> word32 \<times> word32 \<times> word32 \<times> word32"

definition sha_round :: "word32 \<Rightarrow> word32 \<Rightarrow> sha_vars \<Rightarrow> sha_vars" where
  "sha_round ki wi v =
     (case v of (a, b, c, d, e, f, g, h) \<Rightarrow>
        (let s1 = rotr e 6 XOR rotr e 11 XOR rotr e 25;
             ch = (e AND f) XOR ((NOT e) AND g);
             t1 = h + s1 + ch + ki + wi;
             s0 = rotr a 2 XOR rotr a 13 XOR rotr a 22;
             majority = (a AND b) XOR (a AND c) XOR (b AND c);
             t2 = s0 + majority
         in (t1 + t2, a, b, c, d + t1, e, f, g)))"

definition load_vars :: "word32 list \<Rightarrow> sha_vars" where
  "load_vars s = (s ! 0, s ! 1, s ! 2, s ! 3, s ! 4, s ! 5, s ! 6, s ! 7)"

definition add_vars :: "word32 list \<Rightarrow> sha_vars \<Rightarrow> word32 list" where
  "add_vars s v =
     (case v of (a, b, c, d, e, f, g, h) \<Rightarrow>
        [s ! 0 + a, s ! 1 + b, s ! 2 + c, s ! 3 + d, s ! 4 + e, s ! 5 + f, s ! 6 + g, s ! 7 + h])"

definition transform :: "word32 list \<Rightarrow> byte8 list \<Rightarrow> word32 list" where
  "transform s block =
     (let w = message_schedule block
      in add_vars s (fold (\<lambda>(ki, wi) v. sha_round ki wi v) (zip sha_k w) (load_vars s)))"

section \<open>The context\<close>

definition sha_init_state :: "word32 list" where
  "sha_init_state = [0x6a09e667, 0xbb67ae85, 0x3c6ef372, 0xa54ff53a, 0x510e527f, 0x9b05688c, 0x1f83d9ab, 0x5be0cd19]"

text \<open>The buffer is not cleared: its content is a parameter.\<close>

definition fc_sha256_init :: "byte8 list \<Rightarrow> sha256_ctx" where
  "fc_sha256_init block =
     \<lparr>sh_state = sha_init_state, sh_total_bytes = 0, sh_block = block, sh_block_len = 0\<rparr>"

definition memcpy_at :: "byte8 list \<Rightarrow> nat \<Rightarrow> byte8 list \<Rightarrow> byte8 list" where
  "memcpy_at dst i src = take i dst @ src @ drop (i + length src) dst"

text \<open>
  The loop of \<open>fc_sha256_update\<close>. A \<open>block_len\<close> beyond the buffer never arises (the invariant
  below); C would have no defined behaviour there and the model stops.
\<close>

function update_loop :: "sha256_ctx \<Rightarrow> byte8 list \<Rightarrow> sha256_ctx" where
  "update_loop ctx src =
     (if src = [] \<or> sh_block_len ctx > 64 then ctx
      else
        (let room = 64 - sh_block_len ctx;
             n = (if length src < room then length src else room);
             block = memcpy_at (sh_block ctx) (sh_block_len ctx) (take n src);
             len = sh_block_len ctx + n
         in if len = 64
            then update_loop (ctx\<lparr>sh_block := block, sh_state := transform (sh_state ctx) block, sh_block_len := 0\<rparr>) (drop n src)
            else update_loop (ctx\<lparr>sh_block := block, sh_block_len := len\<rparr>) (drop n src)))"
  by pat_completeness auto
termination
  by (relation "measure (\<lambda>(ctx, src). 2 * length src + (if sh_block_len ctx = 64 then 1 else 0))")
    (auto simp: Let_def split: if_splits)

declare update_loop.simps [simp del]

definition fc_sha256_update :: "sha256_ctx \<Rightarrow> byte8 list \<Rightarrow> sha256_ctx" where
  "fc_sha256_update ctx data =
     update_loop (ctx\<lparr>sh_total_bytes := sh_total_bytes ctx + of_nat (length data)\<rparr>) data"

definition length_bytes :: "64 word \<Rightarrow> byte8 list" where
  "length_bytes bit_len = map (\<lambda>i. ucast (drop_bit ((7 - i) * 8) bit_len)) [0..<8]"

text \<open>The digest; the context is zeroed afterwards.\<close>

definition final_blocks :: "sha256_ctx \<Rightarrow> word32 list \<times> byte8 list" where
  "final_blocks ctx =
     (let block1 = memcpy_at (sh_block ctx) (sh_block_len ctx) [0x80];
          len1 = sh_block_len ctx + 1
      in if len1 > 56
         then (let block2 = memcpy_at block1 len1 (replicate (64 - len1) 0)
               in (transform (sh_state ctx) block2, memcpy_at block2 0 (replicate 56 0)))
         else (sh_state ctx, memcpy_at block1 len1 (replicate (56 - len1) 0)))"

definition fc_sha256_final :: "sha256_ctx \<Rightarrow> byte8 list" where
  "fc_sha256_final ctx =
     (case final_blocks ctx of (state, block) \<Rightarrow>
        concat (map store_be32 (transform state (memcpy_at block 56 (length_bytes (sh_total_bytes ctx * 8))))))"

definition fc_sha256 :: "byte8 list \<Rightarrow> byte8 list \<Rightarrow> byte8 list" where
  "fc_sha256 stack data = fc_sha256_final (fc_sha256_update (fc_sha256_init stack) data)"

definition hex_digits_lower :: string where
  "hex_digits_lower = ''0123456789abcdef''"

definition fc_sha256_hex :: "byte8 list \<Rightarrow> string" where
  "fc_sha256_hex digest =
     concat (map (\<lambda>b. [hex_digits_lower ! unat (drop_bit 4 b), hex_digits_lower ! unat (b AND 0x0f)]) digest)"

end
