(* ===== verification/Sha256_Laws.thy ===== *)
theory Sha256_Laws
  imports Sha256
begin

text \<open>
  The hash of \<open>runtime/support/sha256.c\<close> is SHA-256 as FIPS 180-4 defines it, and feeding a
  message in pieces gives the digest of the whole. The contract of a hash fed in pieces is
  the locale \<open>stream_hash\<close>.
\<close>

unbundle bit_operations_syntax

section \<open>The standard\<close>

definition fips_pad :: "byte8 list \<Rightarrow> byte8 list" where
  "fips_pad m = m @ [0x80] @ replicate ((119 - length m mod 64) mod 64) 0 @ length_bytes (of_nat (8 * length m))"

definition fips_sigma0 :: "word32 \<Rightarrow> word32" where
  "fips_sigma0 x = rotr x 7 XOR rotr x 18 XOR drop_bit 3 x"

definition fips_sigma1 :: "word32 \<Rightarrow> word32" where
  "fips_sigma1 x = rotr x 17 XOR rotr x 19 XOR drop_bit 10 x"

fun fips_W :: "byte8 list \<Rightarrow> nat \<Rightarrow> word32" where
  "fips_W block t =
     (if t < 16 then load_be32 block (4 * t)
      else fips_sigma1 (fips_W block (t - 2)) + fips_W block (t - 7) + fips_sigma0 (fips_W block (t - 15)) + fips_W block (t - 16))"

declare fips_W.simps [simp del]

text \<open>The working variables after \<open>t\<close> rounds.\<close>

primrec fips_vars :: "word32 list \<Rightarrow> byte8 list \<Rightarrow> nat \<Rightarrow> sha_vars" where
  "fips_vars H block 0 = load_vars H"
| "fips_vars H block (Suc t) = sha_round (sha_k ! t) (fips_W block t) (fips_vars H block t)"

definition fips_compress :: "word32 list \<Rightarrow> byte8 list \<Rightarrow> word32 list" where
  "fips_compress H block = add_vars H (fips_vars H block 64)"

function fips_blocks :: "byte8 list \<Rightarrow> byte8 list list" where
  "fips_blocks m = (if m = [] then [] else take 64 m # fips_blocks (drop 64 m))"
  by pat_completeness auto
termination by (relation "measure length") auto

declare fips_blocks.simps [simp del]

definition fips_sha256 :: "byte8 list \<Rightarrow> byte8 list" where
  "fips_sha256 m = concat (map store_be32 (fold (\<lambda>block H. fips_compress H block) (fips_blocks (fips_pad m)) sha_init_state))"

section \<open>The compression function\<close>

lemma schedule_loop_W:
  "length w \<ge> 16 \<Longrightarrow> (\<And>i. i < length w \<Longrightarrow> w ! i = fips_W block i) \<Longrightarrow>
     schedule_loop n w = map (fips_W block) [0..<length w + n]"
proof (induction n arbitrary: w)
  case 0
  then show ?case by (intro nth_equalityI) auto
next
  case (Suc n)
  have "schedule_word w (length w) = fips_W block (length w)"
    using Suc.prems by (simp add: schedule_word_def fips_W.simps [of block "length w"] fips_sigma0_def fips_sigma1_def Let_def algebra_simps)
  then have "\<And>i. i < length (w @ [schedule_word w (length w)]) \<Longrightarrow> (w @ [schedule_word w (length w)]) ! i = fips_W block i"
    using Suc.prems(2) by (auto simp: nth_append less_Suc_eq)
  from Suc.IH [OF _ this] show ?case using Suc.prems(1) by simp
qed

lemma message_schedule_W: "message_schedule block = map (fips_W block) [0..<64]"
  unfolding message_schedule_def
  by (subst schedule_loop_W [where block = block]) (auto simp: fips_W.simps [of block] mult.commute)

lemma length_sha_k: "length sha_k = 64"
  by (simp add: sha_k_def)

lemma fold_rounds:
  "n \<le> 64 \<Longrightarrow> fold (\<lambda>(ki, wi) v. sha_round ki wi v) (zip (take n sha_k) (map (fips_W block) [0..<n])) (load_vars H) = fips_vars H block n"
proof (induction n)
  case (Suc n)
  have "take (Suc n) sha_k = take n sha_k @ [sha_k ! n]" using Suc.prems by (simp add: take_Suc_conv_app_nth length_sha_k)
  then show ?case using Suc length_sha_k by simp
qed simp

lemma transform_compress: "transform H block = fips_compress H block"
  using fold_rounds [of 64 block H] by (simp add: transform_def message_schedule_W fips_compress_def length_sha_k)

section \<open>Absorbing a message\<close>

function absorb :: "word32 list \<Rightarrow> byte8 list \<Rightarrow> word32 list \<times> byte8 list" where
  "absorb H m = (if length m < 64 then (H, m) else absorb (transform H (take 64 m)) (drop 64 m))"
  by pat_completeness auto
termination by (relation "measure (\<lambda>(H, m). length m)") auto

declare absorb.simps [simp del]

lemma absorb_short: "length m < 64 \<Longrightarrow> absorb H m = (H, m)"
  by (simp add: absorb.simps)

lemma absorb_long: "\<not> length m < 64 \<Longrightarrow> absorb H m = absorb (transform H (take 64 m)) (drop 64 m)"
  by (simp add: absorb.simps)

lemma absorb_block: "length b = 64 \<Longrightarrow> absorb H (b @ m) = absorb (transform H b) m"
  by (simp add: absorb.simps [of H "b @ m"])

lemma absorb_append: "absorb H m = (H', r) \<Longrightarrow> absorb H (m @ d) = absorb H' (r @ d)"
proof (induction H m arbitrary: H' r rule: absorb.induct)
  case (1 H m)
  show ?case
  proof (cases "length m < 64")
    case True
    then show ?thesis using "1.prems" by (simp add: absorb_short)
  next
    case False
    have "absorb H (m @ d) = absorb (transform H (take 64 m)) (drop 64 m @ d)"
      using absorb_long [of "m @ d" H] False by simp
    also have "\<dots> = absorb H' (r @ d)"
      by (rule "1.IH" [OF False]) (use "1.prems" absorb_long [OF False] in simp)
    finally show ?thesis .
  qed
qed

lemma absorb_rest: "absorb H m = (H', r) \<Longrightarrow> length r = length m mod 64"
proof (induction H m arbitrary: H' r rule: absorb.induct)
  case (1 H m)
  show ?case
  proof (cases "length m < 64")
    case False
    have "absorb (transform H (take 64 m)) (drop 64 m) = (H', r)" using "1.prems" absorb_long [OF False] by simp
    from "1.IH" [OF False this] show ?thesis using False by (simp add: le_mod_geq)
  qed (use "1.prems" in \<open>auto simp: absorb_short\<close>)
qed

lemma absorb_blocks:
  "length m mod 64 = 0 \<Longrightarrow> absorb H m = (fold (\<lambda>block H. fips_compress H block) (fips_blocks m) H, [])"
proof (induction H m rule: absorb.induct)
  case (1 H m)
  show ?case
  proof (cases "length m < 64")
    case True
    then have "m = []" using "1.prems" by simp
    then show ?thesis by (simp add: absorb_short fips_blocks.simps [of "[]"])
  next
    case False
    then have "length (drop 64 m) mod 64 = 0" using "1.prems" by (simp add: le_mod_geq)
    note IH = "1.IH" [OF False this]
    have "m \<noteq> []" using False by auto
    then show ?thesis unfolding absorb_long [OF False] IH
      by (simp add: fips_blocks.simps [of m] transform_compress)
  qed
qed

section \<open>The context\<close>

definition ctx_rest :: "sha256_ctx \<Rightarrow> byte8 list" where
  "ctx_rest ctx = take (sh_block_len ctx) (sh_block ctx)"

definition ctx_ok :: "sha256_ctx \<Rightarrow> bool" where
  "ctx_ok ctx \<longleftrightarrow> length (sh_block ctx) = 64 \<and> sh_block_len ctx < 64"

definition represents :: "sha256_ctx \<Rightarrow> byte8 list \<Rightarrow> bool" where
  "represents ctx m \<longleftrightarrow> ctx_ok ctx \<and> sh_total_bytes ctx = of_nat (length m) \<and>
     absorb sha_init_state m = (sh_state ctx, ctx_rest ctx)"

lemma length_memcpy_at [simp]: "i + length src \<le> length dst \<Longrightarrow> length (memcpy_at dst i src) = length dst"
  by (simp add: memcpy_at_def)

lemma take_memcpy_at: "i + length src \<le> length dst \<Longrightarrow> take (i + length src) (memcpy_at dst i src) = take i dst @ src"
  by (simp add: memcpy_at_def)

lemma update_loop_absorbs:
  "ctx_ok ctx \<Longrightarrow> ctx_ok (update_loop ctx src) \<and> sh_total_bytes (update_loop ctx src) = sh_total_bytes ctx \<and>
     absorb (sh_state ctx) (ctx_rest ctx @ src) = (sh_state (update_loop ctx src), ctx_rest (update_loop ctx src))"
proof (induction ctx src rule: update_loop.induct)
  case (1 ctx src)
  note ok = "1.prems" [unfolded ctx_ok_def]
  show ?case
  proof (cases "src = []")
    case True
    then show ?thesis using "1.prems" ok by (simp add: update_loop.simps [of ctx "[]"] ctx_rest_def absorb_short)
  next
    case ne: False
    then have c: "\<not> (src = [] \<or> 64 < sh_block_len ctx)" using ok by simp
    let ?n = "if length src < 64 - sh_block_len ctx then length src else 64 - sh_block_len ctx"
    let ?b = "memcpy_at (sh_block ctx) (sh_block_len ctx) (take ?n src)"
    have fits: "sh_block_len ctx + length (take ?n src) \<le> length (sh_block ctx)" using ok by auto
    have tk: "take (sh_block_len ctx + ?n) ?b = ctx_rest ctx @ take ?n src"
      using take_memcpy_at [OF fits] by (simp add: ctx_rest_def split: if_splits)
    show ?thesis
    proof (cases "sh_block_len ctx + ?n = 64")
      case True
      let ?c = "ctx\<lparr>sh_block := ?b, sh_state := transform (sh_state ctx) ?b, sh_block_len := 0\<rparr>"
      have u: "update_loop ctx src = update_loop ?c (drop ?n src)"
        using c True by (simp add: update_loop.simps [of ctx src] Let_def)
      have "ctx_ok ?c" using fits ok by (simp add: ctx_ok_def)
      note IH = "1.IH"(1) [OF c refl refl refl refl True this]
      have b: "?b = ctx_rest ctx @ take ?n src" using tk True fits ok by simp
      have "absorb (sh_state ctx) (ctx_rest ctx @ src) = absorb (sh_state ctx) (?b @ drop ?n src)"
        unfolding b by simp
      also have "\<dots> = absorb (transform (sh_state ctx) ?b) (drop ?n src)"
        using fits ok by (intro absorb_block) simp
      finally show ?thesis using IH u by (simp add: ctx_rest_def)
    next
      case False
      then have n: "length src < 64 - sh_block_len ctx" using ok by (auto split: if_splits)
      let ?c = "ctx\<lparr>sh_block := ?b, sh_block_len := sh_block_len ctx + ?n\<rparr>"
      have u: "update_loop ctx src = ?c"
        using c False n by (simp add: update_loop.simps [of ctx src] update_loop.simps [of _ "[]"] Let_def)
      have "ctx_ok ?c" using fits ok n by (simp add: ctx_ok_def)
      moreover have "length (ctx_rest ctx @ src) < 64" using n ok by (simp add: ctx_rest_def)
      moreover have "ctx_rest ?c = ctx_rest ctx @ src" using tk n by (simp add: ctx_rest_def)
      ultimately show ?thesis using u by (simp add: absorb_short)
    qed
  qed
qed

lemma init_represents: "length block = 64 \<Longrightarrow> represents (fc_sha256_init block) []"
  by (simp add: represents_def ctx_ok_def fc_sha256_init_def ctx_rest_def absorb_short)

lemma update_represents:
  assumes "represents ctx m"
  shows "represents (fc_sha256_update ctx d) (m @ d)"
proof -
  let ?c = "ctx\<lparr>sh_total_bytes := sh_total_bytes ctx + of_nat (length d)\<rparr>"
  have "ctx_ok ?c" using assms by (simp add: represents_def ctx_ok_def)
  from update_loop_absorbs [OF this, of d] show ?thesis
    using assms absorb_append [of sha_init_state m "sh_state ctx" "ctx_rest ctx" d]
    by (simp add: represents_def fc_sha256_update_def ctx_rest_def)
qed

lemma pad_suffix_short:
  assumes "length m mod 64 = length r" and "length r + 1 \<le> 56"
  shows "r @ drop (length m) (fips_pad m) = (r @ [0x80] @ replicate (55 - length r) 0) @ length_bytes (of_nat (8 * length m))"
proof -
  have "(119 - length r) mod 64 = 55 - length r" using assms(2) by (simp add: mod_if)
  then show ?thesis using assms by (simp add: fips_pad_def)
qed

lemma pad_suffix_long:
  assumes "length m mod 64 = length r" and "56 < length r + 1" and "length r < 64"
  shows "r @ drop (length m) (fips_pad m) =
    (r @ [0x80] @ replicate (63 - length r) 0) @ replicate 56 0 @ length_bytes (of_nat (8 * length m))"
proof -
  have "replicate (119 - length r) (0 :: byte8) = replicate (63 - length r) 0 @ replicate 56 0"
    using replicate_add [of "63 - length r" 56 "0 :: byte8"] assms(3) by simp
  then show ?thesis using assms by (simp add: fips_pad_def)
qed

lemma length_length_bytes [simp]: "length (length_bytes n) = 8"
  by (simp add: length_bytes_def)

lemma final_represents:
  assumes "represents ctx m"
  shows "fc_sha256_final ctx = fips_sha256 m"
proof -
  let ?r = "ctx_rest ctx"
  let ?L = "length_bytes (of_nat (8 * length m))"
  have ok: "length (sh_block ctx) = 64" "sh_block_len ctx < 64" and tot: "sh_total_bytes ctx * 8 = of_nat (8 * length m)"
    and ab: "absorb sha_init_state m = (sh_state ctx, ?r)"
    using assms by (simp_all add: represents_def ctx_ok_def mult.commute)
  have len: "length ?r = sh_block_len ctx" using ok by (simp add: ctx_rest_def)
  have md: "length m mod 64 = length ?r" using absorb_rest [OF ab] by simp
  have "fips_pad m = m @ drop (length m) (fips_pad m)" by (simp add: fips_pad_def)
  then have pad: "absorb sha_init_state (fips_pad m) = absorb (sh_state ctx) (?r @ drop (length m) (fips_pad m))"
    using absorb_append [OF ab] by metis
  have "absorb sha_init_state (fips_pad m) =
      (transform (fst (final_blocks ctx)) (memcpy_at (snd (final_blocks ctx)) 56 ?L), [])"
  proof (cases "length ?r + 1 \<le> 56")
    case True
    let ?b = "?r @ [0x80] @ replicate (55 - length ?r) 0"
    have "final_blocks ctx = (sh_state ctx, ?b @ drop 56 (sh_block ctx))"
      using True len ok by (simp add: final_blocks_def Let_def memcpy_at_def ctx_rest_def drop_Cons')
    moreover have "memcpy_at (?b @ drop 56 (sh_block ctx)) 56 ?L = ?b @ ?L"
      using True ok by (simp add: memcpy_at_def take_Cons')
    ultimately show ?thesis
      using absorb_block [of "?b @ ?L" "sh_state ctx" "[]"] True unfolding pad pad_suffix_short [OF md True]
      by (simp add: absorb_short)
  next
    case False
    let ?b = "?r @ [0x80] @ replicate (63 - length ?r) 0"
    have "final_blocks ctx = (transform (sh_state ctx) ?b, replicate 56 0 @ drop 56 ?b)"
      using False len ok by (simp add: final_blocks_def Let_def memcpy_at_def ctx_rest_def)
    moreover have "memcpy_at (replicate 56 0 @ drop 56 ?b) 56 ?L = replicate 56 0 @ ?L"
      using False ok len by (simp add: memcpy_at_def)
    ultimately show ?thesis
      using absorb_block [of ?b "sh_state ctx" "replicate 56 0 @ ?L"] False ok len
        absorb_block [of "replicate 56 0 @ ?L" "transform (sh_state ctx) ?b" "[]"]
      unfolding pad by (simp add: absorb_short pad_suffix_long [OF md])
  qed
  moreover have "length (fips_pad m) mod 64 = 0"
  proof -
    have "n + (9 + (119 - n) mod 64) = (if n \<le> 55 then 64 else 128)" if "n < 64" for n :: nat
      using that by (auto simp: mod_if)
    then have "(n + (9 + (119 - n) mod 64)) mod 64 = 0" if "n < 64" for n :: nat
      using that by (cases "n \<le> 55") (simp_all only: if_True if_False, simp_all)
    then have z: "(length ?r + (9 + (119 - length ?r) mod 64)) mod 64 = 0" using ok(2) unfolding len by blast
    have "length (fips_pad m) = length m + (9 + (119 - length ?r) mod 64)" using md by (simp add: fips_pad_def)
    then show ?thesis using z mod_add_left_eq [of "length m" 64 "9 + (119 - length ?r) mod 64"] md by metis
  qed
  ultimately have "fold (\<lambda>block H. fips_compress H block) (fips_blocks (fips_pad m)) sha_init_state =
      transform (fst (final_blocks ctx)) (memcpy_at (snd (final_blocks ctx)) 56 ?L)"
    using absorb_blocks by simp
  then show ?thesis using tot by (simp add: fc_sha256_final_def fips_sha256_def case_prod_beta)
qed

section \<open>A hash fed in pieces\<close>

locale stream_hash =
  fixes rep :: "'c \<Rightarrow> 'b list \<Rightarrow> bool" and update :: "'c \<Rightarrow> 'b list \<Rightarrow> 'c" and final :: "'c \<Rightarrow> 'd" and hash :: "'b list \<Rightarrow> 'd"
  assumes rep_update: "rep c m \<Longrightarrow> rep (update c d) (m @ d)"
    and rep_final: "rep c m \<Longrightarrow> final c = hash m"
begin

lemma rep_pieces: "rep c m \<Longrightarrow> rep (fold (\<lambda>d c. update c d) ds c) (m @ concat ds)"
proof (induction ds arbitrary: c m)
  case (Cons d ds)
  then show ?case using Cons.IH [OF rep_update [OF Cons.prems]] by simp
qed simp

lemma hash_pieces: "rep c [] \<Longrightarrow> final (fold (\<lambda>d c. update c d) ds c) = hash (concat ds)"
  using rep_final rep_pieces [of c "[]" ds] by simp

end

interpretation sha: stream_hash represents fc_sha256_update fc_sha256_final fips_sha256
  by unfold_locales (simp_all add: update_represents final_represents)



section \<open>Hexadecimal digests\<close>

definition hex_byte :: "char \<Rightarrow> char \<Rightarrow> byte8 option" where
  "hex_byte c d =
     (case (find_index (\<lambda>x. x = c) hex_digits_lower, find_index (\<lambda>x. x = d) hex_digits_lower) of
        (Some i, Some j) \<Rightarrow> Some (of_nat (16 * i + j)) | _ \<Rightarrow> None)"

fun read_hex :: "string \<Rightarrow> byte8 list option" where
  "read_hex [] = Some []"
| "read_hex [c] = None"
| "read_hex (c # d # cs) = (case (hex_byte c d, read_hex cs) of (Some b, Some bs) \<Rightarrow> Some (b # bs) | _ \<Rightarrow> None)"

lemma find_hex_digit: "i < 16 \<Longrightarrow> find_index (\<lambda>x. x = hex_digits_lower ! i) hex_digits_lower = Some i"
proof -
  have "\<forall>i \<in> set [0..<16]. find_index (\<lambda>x. x = hex_digits_lower ! i) hex_digits_lower = Some i" by code_simp
  then show "i < 16 \<Longrightarrow> ?thesis" by simp
qed

lemma hex_byte_digits:
  "hex_byte (hex_digits_lower ! unat (drop_bit 4 b)) (hex_digits_lower ! unat (b AND 0x0f)) = Some (b :: byte8)"
proof -
  have hi: "unat (drop_bit 4 b) = unat b div 16" unfolding unat_drop_bit_eq by (simp add: drop_bit_eq_div)
  have "b AND 0x0f = take_bit 4 b" by (simp add: take_bit_eq_mask mask_numeral)
  then have "unat (b AND 0x0f) = take_bit 4 (unat b)" by (simp only: unsigned_take_bit_eq)
  then have lo: "unat (b AND 0x0f) = unat b mod 16" by (simp add: take_bit_eq_mod)
  have "unat b < 256" using unsigned_less [of b] by simp
  then show ?thesis using find_hex_digit [of "unat b div 16"] find_hex_digit [of "unat b mod 16"]
    by (simp add: hex_byte_def hi lo)
qed

text \<open>
  The hexadecimal form of a digest is faithful: it has two lower-case digits per byte and
  reading it back gives the digest, so two digests with the same text are equal.
\<close>

theorem sha256_hex_roundtrip:
  "read_hex (fc_sha256_hex digest) = Some digest \<and> length (fc_sha256_hex digest) = 2 * length digest"
  by (induction digest) (simp_all add: fc_sha256_hex_def hex_byte_digits)

end
