(* ===== verification/Json_Object.thy ===== *)
theory Json_Object
  imports Json_Print C_Text
begin

text \<open>
  JSON records as the durable stores of the runtime print and read them: an object written
  member by member without white space, with plain keys, escaped strings and decimal numbers.
  \<open>at_span r s\<close> says that a reference spans the text \<open>s\<close>, \<open>at_ref r s\<close> also that something follows
  that cannot extend a number; the laws give what the accessors of \<open>support/json.c\<close> return on it.
\<close>

definition at_ref :: "json_ref \<Rightarrow> string \<Rightarrow> bool" where
  "at_ref r s \<longleftrightarrow> (\<exists>t p rest. r = mk_ref t p (p + length s) \<and> drop p t = s @ rest \<and> (rest = [] \<or> \<not> is_digit (hd rest)))"

definition at_span :: "json_ref \<Rightarrow> string \<Rightarrow> bool" where
  "at_span r s \<longleftrightarrow> (\<exists>t p rest. r = mk_ref t p (p + length s) \<and> drop p t = s @ rest)"

lemma at_ref_span: "at_ref r s \<Longrightarrow> at_span r s"
  by (auto simp: at_ref_def at_span_def)

lemma at_span_type: "at_span r (c # s) \<Longrightarrow> jr_type r = json_ref_infer_type c"
  using drop_chD by (fastforce simp: at_span_def)

definition str_val :: "string \<Rightarrow> string" where
  "str_val s = DQ # escape_text s @ [DQ]"

definition member_text :: "string \<times> string \<Rightarrow> string" where
  "member_text m = DQ # fst m @ DQ # CHR '':'' # snd m"

fun join_comma :: "string list \<Rightarrow> string" where
  "join_comma [] = []"
| "join_comma [x] = x"
| "join_comma (x # y # xs) = x @ CHR '','' # join_comma (y # xs)"

definition obj_text :: "(string \<times> string) list \<Rightarrow> string" where
  "obj_text ms = CHR ''{'' # join_comma (map member_text ms) @ ''}''"

definition arr_text :: "string list \<Rightarrow> string" where
  "arr_text vs = CHR ''['' # join_comma vs @ '']''"

definition plain_key :: "string \<Rightarrow> bool" where
  "plain_key k \<longleftrightarrow> list_all (\<lambda>c. \<not> is_ctrl c \<and> c \<noteq> DQ \<and> c \<noteq> BSL \<and> c \<noteq> NUL) k \<and> length k < 256"

section \<open>Printed texts are JSON\<close>

lemma jchars_plain_key: "plain_key k \<Longrightarrow> jchars k"
  unfolding plain_key_def by (induction k) (auto intro: jchars.intros)

lemma jdecode_plain: "list_all (\<lambda>c. \<not> is_ctrl c \<and> c \<noteq> DQ \<and> c \<noteq> BSL \<and> c \<noteq> NUL) k \<Longrightarrow> jdecode k = Some k"
  by (induction k) (subst jdecode.simps, simp add: Let_def)+

lemma no_nul_plain: "plain_key k \<Longrightarrow> no_nul k"
  by (auto simp: plain_key_def no_nul_def list_all_iff)

lemma plain_key_member:
  assumes "plain_key k"
  shows "key_name (DQ # k @ [DQ]) = k" and "key_fits (DQ # k @ [DQ])" and "jstring (DQ # k @ [DQ])"
  using assms jdecode_plain [of k] jchars_plain_key [OF assms] no_nul_plain [OF assms]
  by (auto simp: key_name_def key_fits_def jstring_def plain_key_def)

lemma join_comma_Cons: "xs \<noteq> [] \<Longrightarrow> join_comma (x # xs) = x @ CHR '','' # join_comma xs"
  by (cases xs) simp_all

lemma jmember_list_printed:
  "ms \<noteq> [] \<Longrightarrow> \<forall>(k, v) \<in> set ms. plain_key k \<and> jvalue v \<Longrightarrow>
     jmember_list (map (\<lambda>(k, v). (DQ # k @ [DQ], v)) ms) (join_comma (map member_text ms) @ ''}'')"
proof (induction ms)
  case (Cons m ms)
  obtain k v where m: "m = (k, v)" by (cases m)
  then have kv: "jstring (DQ # k @ [DQ])" "jvalue v" using Cons.prems plain_key_member by auto
  show ?case
  proof (cases "ms = []")
    case True
    then show ?thesis using jml_last [OF kv(1) _ _ kv(2), of "[]" "[]" "[]"] m by (simp add: member_text_def)
  next
    case False
    have "jmember_list (map (\<lambda>(k, v). (DQ # k @ [DQ], v)) ms) (join_comma (map member_text ms) @ ''}'')"
      using Cons.IH [OF False] Cons.prems(2) by simp
    from jml_more [OF kv(1) _ _ kv(2) _ _ this, of "[]" "[]" "[]" "[]"]
    show ?thesis using m False by (simp add: join_comma_Cons member_text_def [of "(k, v)"])
  qed
qed simp

lemma jobject_printed:
  assumes "\<forall>(k, v) \<in> set ms. plain_key k \<and> jvalue v"
  shows "jobject (map (\<lambda>(k, v). (DQ # k @ [DQ], v)) ms) (obj_text ms)"
  unfolding jobject_def obj_text_def
  by (intro exI [of _ "[]"] exI [of _ "join_comma (map member_text ms) @ ''}''"])
    (use jmember_list_printed [OF _ assms] in auto)

lemma jelement_list_printed: "vs \<noteq> [] \<Longrightarrow> list_all jvalue vs \<Longrightarrow> jelement_list vs (join_comma vs @ '']'')"
proof (induction vs rule: join_comma.induct)
  case (2 x)
  then show ?case using jel_last [of x "[]"] by simp
next
  case (3 x y xs)
  then show ?case using jel_more [of x "[]" "[]" "y # xs"] by simp
qed simp

lemma jarray_printed:
  assumes "list_all jvalue vs"
  shows "jarray vs (arr_text vs)"
  unfolding jarray_def arr_text_def
  by (intro exI [of _ "[]"] exI [of _ "join_comma vs @ '']''"]) (use jelement_list_printed [OF _ assms] in auto)

lemma jvalue_str_val: "jvalue (str_val s)"
  using jchars_escape_text by (auto simp: str_val_def jstring_def intro: jvalue_string)

lemma jnumber_show_int: "jnumber (show_int n)"
proof -
  have "jdigits (show_nat m)" for m using show_nat_digits [of m] by (simp add: jdigits_def)
  then show ?thesis unfolding jnumber_def show_int_def
    by (intro exI [of _ "if n < 0 then ''-'' else []"] exI [of _ "show_nat (nat (if n < 0 then - n else n))"] exI [of _ "[]"])
      (simp add: jfraction_def jexponent_def)
qed

lemma digits_value_nat: "list_all is_digit ds \<Longrightarrow> digits_value ds = int (nat_of_digits ds)"
proof -
  have "list_all is_digit ds \<Longrightarrow> foldl (\<lambda>n c. 10 * n + digit_value c) (int m) ds = int (foldl (\<lambda>n c. n * 10 + (byte c - 48)) m ds)" for m
  proof (induction ds arbitrary: m)
    case (Cons c ds)
    have "10 * int m + digit_value c = int (m * 10 + (byte c - 48))"
      using Cons.prems by (auto simp: digit_value_def is_digit_def byte_def of_nat_diff)
    then have "foldl (\<lambda>n c. 10 * n + digit_value c) (int m) (c # ds) =
        foldl (\<lambda>n c. 10 * n + digit_value c) (int (m * 10 + (byte c - 48))) ds" by (simp add: mult.commute)
    then show ?case using Cons.IH [of "m * 10 + (byte c - 48)"] Cons.prems by simp
  qed simp
  from this [of 0] show "list_all is_digit ds \<Longrightarrow> ?thesis" by (simp add: digits_value_def nat_of_digits_def)
qed

lemma jint_show_int: "jint (show_int n) = Some n"
proof -
  have d: "show_nat m \<noteq> [] \<and> list_all is_digit (show_nat m)" for m by (rule show_nat_digits)
  obtain c cs where c: "show_nat (nat n) = c # cs" "is_digit c" using d [of "nat n"] by (cases "show_nat (nat n)") auto
  then have "c \<noteq> CHR ''-''" by (auto simp: char_class_defs)
  moreover have "nat_of_digits (c # cs) = nat n" using nat_of_digits_show [of "nat n"] c(1) by simp
  ultimately show ?thesis using d [of "nat n"] d [of "nat (- n)"] c
    by (auto simp: jint_def show_int_def jdigits_def digits_value_nat split: list.split)
qed

section \<open>Reading printed texts\<close>

lemma at_ref_object_get:
  assumes "at_span r (obj_text ms)" and "\<forall>(k, v) \<in> set ms. plain_key k \<and> jvalue v"
  shows "case map_of ms key of None \<Rightarrow> json_ref_object_get r key = None
    | Some v \<Rightarrow> \<exists>r'. json_ref_object_get r key = Some r' \<and> at_ref r' v"
proof -
  let ?ms = "map (\<lambda>(k, v). (DQ # k @ [DQ], v)) ms"
  obtain t p rest where r: "r = mk_ref t p (p + length (obj_text ms))" "drop p t = obj_text ms @ rest"
    using assms(1) by (auto simp: at_span_def)
  have f: "\<forall>(k, v) \<in> set ?ms. key_fits k" using assms(2) plain_key_member by auto
  have "find_member key ?ms = map_of ms key"
    using assms(2) by (induction ms) (auto simp: plain_key_member)
  then show ?thesis using object_get_member [OF jobject_printed [OF assms(2)] r(2) f, of key] r(1)
    by (auto simp: at_ref_def split: option.splits)
qed

lemma at_ref_array:
  assumes "at_ref r (arr_text vs)" and "list_all jvalue vs"
  shows "json_ref_array_size r = length vs"
    and "i < length vs \<Longrightarrow> \<exists>r'. json_ref_array_get r i = Some r' \<and> at_span r' (vs ! i)"
proof -
  obtain t p rest where r: "r = mk_ref t p (p + length (arr_text vs))" "drop p t = arr_text vs @ rest"
    using assms(1) by (auto simp: at_ref_def)
  note g = array_element [OF jarray_printed [OF assms(2)] r(2)]
  show "json_ref_array_size r = length vs" using g r(1) by simp
  assume i: "i < length vs"
  obtain q where q: "json_ref_array_get r i = Some (mk_ref t q (q + length (vs ! i)))" "span t q (q + length (vs ! i)) = vs ! i"
    using g [of i] i r(1) by auto
  have "drop q t = vs ! i @ drop (length (vs ! i)) (drop q t)"
    using q(2) append_take_drop_id [of "length (vs ! i)" "drop q t"] by (simp add: span_def)
  then show "\<exists>r'. json_ref_array_get r i = Some r' \<and> at_span r' (vs ! i)"
    using q(1) by (auto simp: at_span_def)
qed

lemma at_ref_string:
  assumes "at_ref r (str_val s)" and "length s < n"
  shows "json_ref_string_copy r n = (True, s)"
proof -
  obtain t p rest where r: "r = mk_ref t p (p + length (str_val s))" "drop p t = str_val s @ rest"
    using assms(1) by (auto simp: at_ref_def)
  have "p < length t" using r(2) by (metis append_is_Nil_conv drop_all linorder_not_less list.distinct(1) str_val_def)
  then have t: "t = take p t @ DQ # escape_text s @ DQ # rest" "length (take p t) = p"
    using r(2) append_take_drop_id [of p t] by (simp_all add: str_val_def)
  show ?thesis
    using literal_copy [OF jchars_escape_text, of n "take p t" s rest s] assms(2) jdecode_escape_text [of s] t r(1)
    by (simp add: str_val_def)
qed

lemma at_ref_long:
  assumes "at_ref r (show_int n)" and "LLONG_MIN \<le> n" and "n \<le> LLONG_MAX"
  shows "json_ref_get_long r = Some n"
proof -
  obtain t p rest where r: "r = mk_ref t p (p + length (show_int n))" "drop p t = show_int n @ rest"
      "rest = [] \<or> \<not> is_digit (hd rest)"
    using assms(1) by (auto simp: at_ref_def)
  show ?thesis using get_long_value [OF jnumber_show_int r(2,3)] r(1) assms jint_show_int by simp
qed

lemma at_ref_value_copy:
  assumes "at_ref r s" and "length s < n"
  shows "json_ref_value_copy r n = Some s"
proof -
  obtain t p rest where r: "r = mk_ref t p (p + length s)" "drop p t = s @ rest" using assms(1) by (auto simp: at_ref_def)
  then show ?thesis using assms(2) span_eqI [OF r(2)] by (simp add: json_ref_value_copy_def)
qed

text \<open>The accessors on a printed object, by the member the key names.\<close>

lemma printed_string:
  assumes "at_span r (obj_text ms)" and "\<forall>(k, v) \<in> set ms. plain_key k \<and> jvalue v"
    and "map_of ms key = Some (str_val s)" and "length s < n"
  shows "json_ref_object_get_string r key n = (True, s)"
  using at_ref_object_get [OF assms(1,2), of key] assms(3,4) at_ref_string
  by (auto simp: json_ref_object_get_string_def)

lemma printed_string_or_empty:
  assumes "at_span r (obj_text ms)" and "\<forall>(k, v) \<in> set ms. plain_key k \<and> jvalue v"
    and "map_of ms key = Some (str_val s)" and "length s < n" and "no_nul s"
  shows "get_string_or_empty r key n = s"
  using printed_string [OF assms(1-4)] assms(5) by (simp add: get_string_or_empty_def)

lemma printed_long:
  assumes "at_span r (obj_text ms)" and "\<forall>(k, v) \<in> set ms. plain_key k \<and> jvalue v"
    and "map_of ms key = Some (show_int i)" and "LLONG_MIN \<le> i" and "i \<le> LLONG_MAX"
  shows "get_long_or d r key = i"
  using at_ref_object_get [OF assms(1,2), of key] assms(3-5) at_ref_long
  by (auto simp: get_long_or_def json_ref_object_get_long_def)

lemma printed_raw:
  assumes "at_span r (obj_text ms)" and "\<forall>(k, v) \<in> set ms. plain_key k \<and> jvalue v"
    and "map_of ms key = Some v" and "length v < n"
  obtains r' where "json_ref_object_get r key = Some r'" and "json_ref_value_copy r' n = Some v"
  using at_ref_object_get [OF assms(1,2), of key] assms(3,4) at_ref_value_copy by auto

lemma top_object_printed:
  assumes "\<forall>(k, v) \<in> set ms. plain_key k \<and> jvalue v" and "jws w"
  obtains r where "json_ref_top_object (obj_text ms @ w) = Some r" and "at_ref r (obj_text ms)"
proof -
  let ?t = "obj_text ms @ w"
  let ?r = "mk_ref ?t 0 (length (obj_text ms))"
  have "json_ref_from_text ?t = Some ?r"
    using from_text_complete [of "[]" "obj_text ms" w] jobject_jvalue [OF jobject_printed [OF assms(1)]] assms(2) by simp
  moreover have "jr_type ?r = JSON_REF_OBJECT" by (simp add: obj_text_def json_ref_infer_type_def ch_at_def)
  ultimately have "json_ref_top_object ?t = Some ?r" by (simp add: json_ref_top_object_def)
  moreover have "w = [] \<or> \<not> is_digit (hd w)" using assms(2) by (cases w) (auto simp: char_class_defs)
  then have "at_ref ?r (obj_text ms)" unfolding at_ref_def
    by (intro exI [of _ ?t] exI [of _ 0] exI [of _ w]) simp
  ultimately show thesis by (rule that)
qed

section \<open>Bounds on what any text yields\<close>

lemma utf8_write_length: "utf8_write cp out n = Some out' \<Longrightarrow> length out' < n"
  by (auto simp: utf8_write_def split: if_splits)

lemma string_copy_loop_length: "length out < n \<Longrightarrow> length (snd (string_copy_loop t p vend n out)) < n"
proof (induction t p vend n out rule: string_copy_loop.induct)
  case (1 t p vend n out)
  show ?case
  proof (cases "p < vend \<and> ch_at t p \<noteq> DQ")
    case True
    show ?thesis
    proof (cases "ch_at t p = BSL")
      case True
      then show ?thesis using 1 utf8_write_length \<open>p < vend \<and> _\<close>
        by (subst string_copy_loop.simps) (auto simp: Let_def split: option.splits)
    next
      case False
      then show ?thesis using 1 \<open>p < vend \<and> _\<close> by (subst string_copy_loop.simps) (auto simp: Let_def)
    qed
  qed (use 1 in \<open>subst string_copy_loop.simps, auto simp: Let_def\<close>)
qed

lemma get_string_or_empty_ok: "0 < n \<Longrightarrow> no_nul (get_string_or_empty r key n) \<and> length (get_string_or_empty r key n) < n"
proof -
  assume n: "0 < n"
  have "length (snd (json_ref_object_get_string r key n)) < n"
    using n string_copy_loop_length [of "[]" n]
    by (auto simp: json_ref_object_get_string_def json_ref_string_copy_def split: option.split)
  then show ?thesis using length_cstr_le [of "snd (json_ref_object_get_string r key n)"]
    by (simp add: get_string_or_empty_def)
qed

lemma get_long_range: "json_ref_get_long r = Some n \<Longrightarrow> LLONG_MIN \<le> n \<and> n \<le> LLONG_MAX"
  by (auto simp: json_ref_get_long_def strtoll_def Let_def LLONG_MIN_def LLONG_MAX_def split: if_splits)

lemma get_long_or_range:
  "LLONG_MIN \<le> d \<Longrightarrow> d \<le> LLONG_MAX \<Longrightarrow> LLONG_MIN \<le> get_long_or d r key \<and> get_long_or d r key \<le> LLONG_MAX"
  using get_long_range by (auto simp: get_long_or_def json_ref_object_get_long_def split: option.splits)

lemma object_get_loop_value:
  "object_get_loop t p oend key = Some (vs, ve) \<Longrightarrow> parse_json_value_end t vs oend = Some ve"
proof (induction t p oend key rule: object_get_loop.induct)
  case (1 t p oend key)
  show ?case using "1.prems"
    by (subst (asm) object_get_loop.simps)
      (auto simp: Let_def split: option.splits prod.splits bool.splits if_splits intro: "1.IH")
qed

lemma object_get_value:
  assumes "json_ref_object_get obj key = Some r" and "jr_end obj \<le> length (jr_json obj)"
  shows "jr_json r = jr_json obj \<and> jvalue (span (jr_json r) (jr_start r) (jr_end r))"
  using assms by (auto simp: json_ref_object_get_def Let_def split: if_splits
      intro: jvalue_sound [OF object_get_loop_value])

lemma top_object_end: "json_ref_top_object t = Some r \<Longrightarrow> jr_json r = t \<and> jr_end r \<le> length t"
  using parse_json_value_end_bounds json_ref_from_text_eq_Some
  by (fastforce simp: json_ref_top_object_def split: option.splits if_splits)

lemma no_nul_span: "no_nul t \<Longrightarrow> no_nul (span t p q)"
  by (auto simp: no_nul_def span_def dest: in_set_takeD in_set_dropD)

section \<open>Texts of bounded fields\<close>

definition text_ok :: "nat \<Rightarrow> string \<Rightarrow> bool" where
  "text_ok n s \<longleftrightarrow> no_nul s \<and> length s < n"

definition long_ok :: "int \<Rightarrow> bool" where
  "long_ok n \<longleftrightarrow> LLONG_MIN \<le> n \<and> n \<le> LLONG_MAX"

lemma json_escape_text: "fst (json_escape s n) \<Longrightarrow> snd (json_escape s n) = escape_text s"
proof -
  assume "fst (json_escape s n)"
  then have n: "0 < n" and e: "escape_loop s n [] = (True, snd (json_escape s n))"
    by (auto simp: json_escape_def split: if_splits) (metis prod.collapse)
  from escape_loop_prefix [of "[]" n s True "snd (json_escape s n)"] e n show ?thesis by auto
qed

lemma jchars_no_nul: "jchars w \<Longrightarrow> no_nul w"
  by (induction rule: jchars.induct) (auto simp: char_class_defs is_simple_escape_def)

lemma no_nul_escape: "no_nul (escape_text s)"
  using jchars_no_nul jchars_escape_text by blast

lemma no_nul_show_nat: "no_nul (show_nat n)"
  using show_nat_digits [of n] by (auto simp: no_nul_def list_all_iff char_class_defs)

lemma no_nul_join: "list_all no_nul xs \<Longrightarrow> no_nul (join_comma xs)"
  by (induction xs rule: join_comma.induct) auto

lemma no_nul_obj_text: "\<forall>(k, v) \<in> set ms. no_nul k \<and> no_nul v \<Longrightarrow> no_nul (obj_text ms)"
  using no_nul_join [of "map member_text ms"] by (auto simp: obj_text_def member_text_def list_all_iff case_prod_beta)

lemma no_nul_str_val: "no_nul (str_val s)"
  using no_nul_escape by (auto simp: str_val_def)

lemma no_nul_show_int: "no_nul (show_int i)"
  using no_nul_show_nat by (auto simp: show_int_def)

lemma jvalue_show_int: "jvalue (show_int i)"
  by (rule jvalue_number [OF jnumber_show_int])

lemma show_nat_short: "n < 10 ^ k \<Longrightarrow> 0 < k \<Longrightarrow> length (show_nat n) \<le> k"
proof (induction n arbitrary: k rule: show_nat.induct)
  case (1 n)
  show ?case
  proof (cases "n < 10")
    case True
    then show ?thesis using 1(3) by (subst show_nat.simps) simp
  next
    case False
    then obtain j where j: "k = Suc j" "0 < j" using 1(2,3) by (cases k; cases "k - 1") auto
    have "n div 10 < 10 ^ j" using 1(2) j(1) by (simp add: div_less_iff_less_mult)
    then show ?thesis using 1(1) [OF False _ j(2)] False j(1) by (subst show_nat.simps) simp
  qed
qed

lemma show_int_short: "0 \<le> n \<Longrightarrow> n \<le> LLONG_MAX \<Longrightarrow> length (show_int n) \<le> 19"
  using show_nat_short [of "nat n" 19] by (simp add: show_int_def LLONG_MAX_def nat_less_iff)

lemma escape_unit_short: "length (escape_unit c) \<le> 6"
  by (auto simp: escape_unit_def short_escape_def format_u04x_def)

lemma json_escape_fits: "length s * 6 < n \<Longrightarrow> json_escape s n = (True, escape_text s)"
proof -
  assume n: "length s * 6 < n"
  have "length (escape_text s) \<le> length s * 6"
    by (induction s) (simp_all add: add_mono escape_unit_short)
  then show ?thesis using n escape_loop_fits [of "[]" s n] by (simp add: json_escape_def)
qed

lemma printed_get_string:
  assumes "at_span r (obj_text ms)" and "\<forall>(k, v) \<in> set ms. plain_key k \<and> jvalue v"
    and "map_of ms key = Some (str_val s)" and "text_ok n s"
  shows "get_string r key n = Some s" and "get_string_or_empty r key n = s"
  using printed_string [OF assms(1-3)] printed_string_or_empty [OF assms(1-3)] assms(4)
  by (simp_all add: get_string_def text_ok_def)

lemma printed_get_long:
  assumes "at_span r (obj_text ms)" and "\<forall>(k, v) \<in> set ms. plain_key k \<and> jvalue v"
    and "map_of ms key = Some (show_int i)" and "long_ok i"
  shows "json_ref_object_get_long r key = Some i" and "json_ref_object_get r key \<noteq> None" and "get_long_or d r key = i"
  using at_ref_object_get [OF assms(1,2), of key] assms(3,4) at_ref_long
  by (auto simp: json_ref_object_get_long_def long_ok_def get_long_or_def)

lemma record_text_ok: "\<forall>(k, v) \<in> set ms. plain_key k \<and> jvalue v \<and> no_nul v \<Longrightarrow> jvalue (obj_text ms) \<and> no_nul (obj_text ms)"
proof -
  assume f: "\<forall>(k, v) \<in> set ms. plain_key k \<and> jvalue v \<and> no_nul v"
  then have "\<forall>(k, v) \<in> set ms. plain_key k \<and> jvalue v" "\<forall>(k, v) \<in> set ms. no_nul k \<and> no_nul v" using no_nul_plain by fast+
  then show ?thesis using jobject_jvalue [OF jobject_printed] no_nul_obj_text by blast
qed

lemma positive_long: "0 \<le> n \<Longrightarrow> n \<le> LLONG_MAX \<Longrightarrow> long_ok n"
  by (simp add: long_ok_def LLONG_MIN_def)

lemma obj_span_type: "at_span r (obj_text ms) \<Longrightarrow> jr_type r = JSON_REF_OBJECT"
  using at_span_type [of r] by (simp add: obj_text_def json_ref_infer_type_def)

lemma arr_ref_type: "at_ref r (arr_text vs) \<Longrightarrow> jr_type r = JSON_REF_ARRAY"
  using at_ref_span [of r "arr_text vs"] at_span_type [of r "CHR ''[''"] by (simp add: arr_text_def json_ref_infer_type_def)

end
