(* ===== verification/Operation_State.thy ===== *)
theory Operation_State
  imports Rt_Base Json_Object Sha256
begin

text \<open>
  The managed-operation store of \<open>runtime/operation_state.c\<close>: one durable record per operation
  in a JSON file that every call loads and every change writes back as a whole. \<open>op_world\<close> is
  what the calls see of the file system: the content of the state file, the configuration
  file, and whether a write succeeds (directory, buffer and atomic rename). A NULL string argument is the empty string. The
  narration of pruning is not modelled.
\<close>

section \<open>Records\<close>

definition OPERATION_MAX_ITEMS :: nat where
  "OPERATION_MAX_ITEMS = 128"

definition OPERATION_DEFAULT_KEEP_FINISHED :: int where
  "OPERATION_DEFAULT_KEEP_FINISHED = 100"

definition RT_OPERATION_TOKEN_HEX :: nat where
  "RT_OPERATION_TOKEN_HEX = 64"

record operation_item =
  op_handle :: string
  op_worker_handle :: string
  op_action :: string
  op_request_id :: string
  op_trigger_event_id :: string
  op_task_id :: string
  op_context_id :: string
  op_channel :: string
  op_adapter_id :: string
  op_origin_event_id :: string
  op_ref_json :: string
  op_status :: string
  op_work_rev :: int
  op_deadline_ms :: int
  op_completion_token :: string
  op_claim_envelope_id :: string

text \<open>The array with its count is the list of the first \<open>count\<close> items.\<close>

type_synonym operation_store = "operation_item list"

record op_world =
  ow_state :: "string option"
  ow_config :: "string option"
  ow_disk_ok :: bool

definition zero_item :: operation_item where
  "zero_item = \<lparr>op_handle = [], op_worker_handle = [], op_action = [], op_request_id = [], op_trigger_event_id = [],
     op_task_id = [], op_context_id = [], op_channel = [], op_adapter_id = [], op_origin_event_id = [],
     op_ref_json = [], op_status = [], op_work_rev = 0, op_deadline_ms = 0, op_completion_token = [],
     op_claim_envelope_id = []\<rparr>"

definition finished :: "operation_item \<Rightarrow> bool" where
  "finished x \<longleftrightarrow> op_status x = ''finished''"

definition running :: "operation_item \<Rightarrow> bool" where
  "running x \<longleftrightarrow> op_status x = ''running''"

section \<open>Loading\<close>

text \<open>The raw text of the member \<open>ref\<close>, empty when it is absent, null or too long.\<close>

definition ref_json_of :: "json_ref \<Rightarrow> string" where
  "ref_json_of obj =
     (case json_ref_object_get obj ''ref'' of
        None \<Rightarrow> []
      | Some r \<Rightarrow>
          (case json_ref_value_copy r RT_MED of
             None \<Rightarrow> []
           | Some raw \<Rightarrow> if cstr raw \<noteq> ''null'' then copy_into RT_MED (cstr raw) else []))"

text \<open>The correlation members that a record and an event payload have in common.\<close>

definition read_correlation :: "json_ref \<Rightarrow> operation_item \<Rightarrow> operation_item" where
  "read_correlation obj x =
     x\<lparr>op_action := get_string_or_empty obj ''action'' RT_SMALL,
       op_request_id := get_string_or_empty obj ''request_id'' RT_SMALL,
       op_trigger_event_id := get_string_or_empty obj ''trigger_event_id'' RT_SMALL,
       op_task_id := get_string_or_empty obj ''task_id'' RT_SMALL,
       op_context_id := get_string_or_empty obj ''context_id'' RT_MED,
       op_channel := get_string_or_empty obj ''channel'' RT_SMALL,
       op_adapter_id := get_string_or_empty obj ''adapter_id'' RT_SMALL,
       op_origin_event_id := get_string_or_empty obj ''origin_event_id'' RT_SMALL,
       op_ref_json := ref_json_of obj,
       op_work_rev := get_long_or 0 obj ''work_rev''\<rparr>"

definition load_item :: "json_ref \<Rightarrow> operation_item option" where
  "load_item obj =
     (case json_ref_object_get_string obj ''handle'' RT_SMALL of (ok, h) \<Rightarrow>
        if \<not> ok \<or> cstr h = [] then None
        else
          Some ((read_correlation obj zero_item)
            \<lparr>op_handle := cstr h,
             op_worker_handle := get_string_or_empty obj ''worker_handle'' RT_SMALL,
             op_status := (case json_ref_object_get_string obj ''status'' RT_SMALL of (sok, s) \<Rightarrow>
               if \<not> sok \<or> cstr s = [] then ''running'' else cstr s),
             op_deadline_ms := get_long_or 0 obj ''deadline_ms'',
             op_completion_token := get_string_or_empty obj ''completion_token'' (RT_OPERATION_TOKEN_HEX + 1),
             op_claim_envelope_id := get_string_or_empty obj ''claim_envelope_id'' RT_SMALL\<rparr>))"

fun load_loop :: "json_ref \<Rightarrow> nat list \<Rightarrow> operation_store \<Rightarrow> operation_store" where
  "load_loop ops [] st = st"
| "load_loop ops (i # is) st =
     (if length st \<ge> OPERATION_MAX_ITEMS then st
      else
        (case json_ref_array_get ops i of
           None \<Rightarrow> load_loop ops is st
         | Some item \<Rightarrow>
             if jr_type item \<noteq> JSON_REF_OBJECT then load_loop ops is st
             else
               (case load_item item of
                  None \<Rightarrow> load_loop ops is st
                | Some x \<Rightarrow> load_loop ops is (st @ [x]))))"

definition load_store :: "op_world \<Rightarrow> operation_store" where
  "load_store w =
     (case fs_read_text (ow_state w) FS_READ_TEXT_DEFAULT_CAP of
        None \<Rightarrow> []
      | Some txt \<Rightarrow>
          (case json_ref_top_object txt of
             None \<Rightarrow> []
           | Some root \<Rightarrow>
               (case json_ref_object_get_array root ''operations'' of
                  None \<Rightarrow> []
                | Some ops \<Rightarrow> load_loop ops [0..<json_ref_array_size ops] [])))"

section \<open>Pruning\<close>

definition keep_finished_cap :: "op_world \<Rightarrow> int" where
  "keep_finished_cap w =
     (case fs_read_text (ow_config w) FS_READ_TEXT_DEFAULT_CAP of
        None \<Rightarrow> OPERATION_DEFAULT_KEEP_FINISHED
      | Some txt \<Rightarrow>
          (let v = (case json_ref_first_object txt of
                 None \<Rightarrow> OPERATION_DEFAULT_KEEP_FINISHED
               | Some root \<Rightarrow>
                   (case json_ref_object_get_object root ''appliance'' of
                      None \<Rightarrow> OPERATION_DEFAULT_KEEP_FINISHED
                    | Some appliance \<Rightarrow>
                        (case json_ref_object_get_object appliance ''operations'' of
                           None \<Rightarrow> OPERATION_DEFAULT_KEEP_FINISHED
                         | Some ops \<Rightarrow> get_long_or OPERATION_DEFAULT_KEEP_FINISHED ops ''keep_finished'')))
           in if v > 0 then to_int32 v else OPERATION_DEFAULT_KEEP_FINISHED))"

fun drop_finished :: "nat \<Rightarrow> operation_store \<Rightarrow> operation_store" where
  "drop_finished 0 st = st"
| "drop_finished (Suc n) st =
     (case find_index finished st of
        None \<Rightarrow> st
      | Some oldest \<Rightarrow> drop_finished n (remove_nth oldest st))"

definition purge_finished_over_cap :: "op_world \<Rightarrow> operation_store \<Rightarrow> operation_store" where
  "purge_finished_over_cap w st = drop_finished (nat (int (length (filter finished st)) - keep_finished_cap w)) st"

section \<open>Writing\<close>

definition escapes_fit :: "operation_item \<Rightarrow> bool" where
  "escapes_fit x \<longleftrightarrow>
     list_all (\<lambda>s. fst (json_escape s RT_MED))
       [op_handle x, op_worker_handle x, op_action x, op_request_id x, op_trigger_event_id x, op_task_id x,
        op_context_id x, op_channel x, op_adapter_id x, op_origin_event_id x] \<and>
     fst (json_escape (op_completion_token x) (RT_OPERATION_TOKEN_HEX * 2 + 2)) \<and>
     fst (json_escape (op_claim_envelope_id x) RT_MED) \<and> fst (json_escape (op_status x) RT_MED)"

definition item_text :: "bool \<Rightarrow> operation_item \<Rightarrow> string option" where
  \<open>item_text first x =
     (if \<not> escapes_fit x then None
      else
        (let e = (\<lambda>s. snd (json_escape s RT_MED));
             item = (if first then [] else '','') @
               ''{"handle":"'' @ e (op_handle x) @ ''","worker_handle":"'' @ e (op_worker_handle x) @
               ''","action":"'' @ e (op_action x) @ ''","request_id":"'' @ e (op_request_id x) @
               ''","trigger_event_id":"'' @ e (op_trigger_event_id x) @
               ''","task_id":"'' @ e (op_task_id x) @
               ''","context_id":"'' @ e (op_context_id x) @ ''","channel":"'' @ e (op_channel x) @
               ''","adapter_id":"'' @ e (op_adapter_id x) @
               ''","origin_event_id":"'' @ e (op_origin_event_id x) @
               ''","ref":'' @ (if op_ref_json x \<noteq> [] then op_ref_json x else ''null'') @
               '',"status":"'' @ e (op_status x) @ ''","work_rev":'' @ show_int (op_work_rev x) @
               '',"deadline_ms":'' @ show_int (op_deadline_ms x) @ '',"completion_token":"'' @
               snd (json_escape (op_completion_token x) (RT_OPERATION_TOKEN_HEX * 2 + 2)) @
               ''","claim_envelope_id":"'' @ e (op_claim_envelope_id x) @ ''"}''
         in if length item \<ge> RT_LARGE then None else Some item))\<close>

fun write_items :: "bool \<Rightarrow> operation_store \<Rightarrow> string \<Rightarrow> string option" where
  "write_items first [] out = Some out"
| "write_items first (x # xs) out =
     (case item_text first x of
        None \<Rightarrow> None
      | Some item \<Rightarrow>
          (case rt_append_text (RT_XL * 2) out item of
             None \<Rightarrow> None
           | Some out' \<Rightarrow> write_items False xs out'))"

definition store_text :: "operation_store \<Rightarrow> string option" where
  \<open>store_text st =
     (case rt_append_text (RT_XL * 2) [] ''{"operations":['' of
        None \<Rightarrow> None
      | Some out \<Rightarrow>
          (case write_items True st out of
             None \<Rightarrow> None
           | Some out' \<Rightarrow> rt_append_text (RT_XL * 2) out' ('']}'' @ [CHR 0x0A])))\<close>

definition write_store :: "operation_store \<Rightarrow> op_world \<Rightarrow> int \<times> op_world" where
  "write_store st w =
     (if \<not> ow_disk_ok w then (- 1, w)
      else (case store_text st of None \<Rightarrow> (- 1, w) | Some txt \<Rightarrow> (0, w\<lparr>ow_state := Some txt\<rparr>)))"

definition op_index_of :: "operation_store \<Rightarrow> string \<Rightarrow> nat option" where
  "op_index_of st operation_id =
     (if operation_id = [] then None else find_index (\<lambda>x. op_handle x = operation_id) st)"

section \<open>The reducer of operation events\<close>

definition rt_operation_is_event_type :: "string \<Rightarrow> bool" where
  "rt_operation_is_event_type type \<longleftrightarrow> type = ''operation_started'' \<or> type = ''operation_result''"

text \<open>The durable work identity of a payload against a record: exact for a repeated start.\<close>

definition same_identity :: "json_ref \<Rightarrow> operation_item \<Rightarrow> bool" where
  "same_identity payload x \<longleftrightarrow>
     op_action x = get_string_or_empty payload ''action'' RT_SMALL \<and>
     op_request_id x = get_string_or_empty payload ''request_id'' RT_SMALL \<and>
     op_trigger_event_id x = get_string_or_empty payload ''trigger_event_id'' RT_SMALL \<and>
     op_task_id x = get_string_or_empty payload ''task_id'' RT_SMALL \<and>
     op_work_rev x = get_long_or 0 payload ''work_rev''"

text \<open>A result must agree with every identity member the record has.\<close>

definition conflicts :: "json_ref \<Rightarrow> operation_item \<Rightarrow> bool" where
  "conflicts payload x \<longleftrightarrow>
     (op_action x \<noteq> [] \<and> op_action x \<noteq> get_string_or_empty payload ''action'' RT_SMALL) \<or>
     (op_request_id x \<noteq> [] \<and> op_request_id x \<noteq> get_string_or_empty payload ''request_id'' RT_SMALL) \<or>
     (op_trigger_event_id x \<noteq> [] \<and> op_trigger_event_id x \<noteq> get_string_or_empty payload ''trigger_event_id'' RT_SMALL) \<or>
     (op_task_id x \<noteq> [] \<and> op_task_id x \<noteq> get_string_or_empty payload ''task_id'' RT_SMALL) \<or>
     (op_work_rev x > 0 \<and> op_work_rev x \<noteq> get_long_or 0 payload ''work_rev'')"

definition started_item :: "json_ref \<Rightarrow> string \<Rightarrow> operation_item" where
  "started_item payload handle =
     (read_correlation payload zero_item)\<lparr>op_handle := handle, op_status := ''running'',
       op_deadline_ms := get_long_or 0 payload ''deadline_ms''\<rparr>"

definition result_item :: "json_ref \<Rightarrow> string \<Rightarrow> operation_item" where
  "result_item payload handle = (read_correlation payload zero_item)\<lparr>op_handle := handle, op_status := ''finished''\<rparr>"

text \<open>The terminal transition: the deadline and the completion capability end with it.\<close>

definition finish_item :: "operation_item \<Rightarrow> operation_item" where
  "finish_item x = x\<lparr>op_status := ''finished'', op_deadline_ms := 0, op_completion_token := []\<rparr>"

definition purge_and_write :: "operation_store \<Rightarrow> op_world \<Rightarrow> int \<times> op_world" where
  "purge_and_write st w = write_store (purge_finished_over_cap w st) w"

definition apply_started :: "json_ref \<Rightarrow> string \<Rightarrow> operation_store \<Rightarrow> op_world \<Rightarrow> int \<times> op_world" where
  "apply_started payload handle st w =
     (case op_index_of st handle of
        Some idx \<Rightarrow> ((if same_identity payload (st ! idx) then 0 else - 1), w)
      | None \<Rightarrow>
          if length st \<ge> OPERATION_MAX_ITEMS then
            (case find_index finished st of
               None \<Rightarrow> (- 1, w)
             | Some free_idx \<Rightarrow> purge_and_write (remove_nth free_idx st @ [started_item payload handle]) w)
          else purge_and_write (st @ [started_item payload handle]) w)"

definition apply_result :: "json_ref \<Rightarrow> string \<Rightarrow> operation_store \<Rightarrow> op_world \<Rightarrow> int \<times> op_world" where
  "apply_result payload handle st w =
     (case op_index_of st handle of
        None \<Rightarrow>
          (let st1 = (if length st \<ge> OPERATION_MAX_ITEMS then purge_finished_over_cap w st else st) in
           if length st1 \<ge> OPERATION_MAX_ITEMS then (- 1, w)
           else purge_and_write (st1 @ [result_item payload handle]) w)
      | Some idx \<Rightarrow>
          if conflicts payload (st ! idx) then (- 1, w)
          else if finished (st ! idx) then (0, w)
          else purge_and_write (st[idx := finish_item (st ! idx)]) w)"

definition rt_operation_apply_event :: "string \<Rightarrow> string \<Rightarrow> op_world \<Rightarrow> int \<times> op_world" where
  "rt_operation_apply_event type payload_json w =
     (if \<not> rt_operation_is_event_type type then (- 1, w)
      else
        (case json_ref_top_object payload_json of
           None \<Rightarrow> (- 1, w)
         | Some payload \<Rightarrow>
             (case json_ref_object_get_string payload ''handle'' RT_SMALL of (ok, h) \<Rightarrow>
                if \<not> ok \<or> cstr h = [] then (- 1, w)
                else if type = ''operation_started'' then apply_started payload (cstr h) (load_store w) w
                else apply_result payload (cstr h) (load_store w) w)))"

section \<open>Queries\<close>

text \<open>The code's return value 1 for an unknown operation is \<open>None\<close>.\<close>

definition rt_operation_status :: "string \<Rightarrow> nat \<Rightarrow> op_world \<Rightarrow> string option" where
  "rt_operation_status operation_id status_len w =
     map_option (\<lambda>idx. copy_into status_len (op_status (load_store w ! idx))) (op_index_of (load_store w) operation_id)"

record operation_snapshot =
  os_handle :: string
  os_worker_handle :: string
  os_action :: string
  os_request_id :: string
  os_trigger_event_id :: string
  os_task_id :: string
  os_context_id :: string
  os_channel :: string
  os_adapter_id :: string
  os_origin_event_id :: string
  os_ref_json :: string
  os_status :: string
  os_work_rev :: int
  os_deadline_ms :: int

definition snapshot_of :: "operation_item \<Rightarrow> operation_snapshot" where
  "snapshot_of x =
     \<lparr>os_handle = copy_into RT_SMALL (op_handle x), os_worker_handle = copy_into RT_SMALL (op_worker_handle x),
      os_action = copy_into RT_SMALL (op_action x), os_request_id = copy_into RT_SMALL (op_request_id x),
      os_trigger_event_id = copy_into RT_SMALL (op_trigger_event_id x), os_task_id = copy_into RT_SMALL (op_task_id x),
      os_context_id = copy_into RT_MED (op_context_id x), os_channel = copy_into RT_SMALL (op_channel x),
      os_adapter_id = copy_into RT_SMALL (op_adapter_id x),
      os_origin_event_id = copy_into RT_SMALL (op_origin_event_id x), os_ref_json = copy_into RT_MED (op_ref_json x),
      os_status = copy_into RT_SMALL (op_status x), os_work_rev = op_work_rev x, os_deadline_ms = op_deadline_ms x\<rparr>"

definition rt_operation_snapshot :: "string \<Rightarrow> op_world \<Rightarrow> operation_snapshot option" where
  "rt_operation_snapshot operation_id w =
     map_option (\<lambda>idx. snapshot_of (load_store w ! idx)) (op_index_of (load_store w) operation_id)"

section \<open>Capability and metadata writes\<close>

text \<open>A change of one record that a finished operation does not accept (return value 1).\<close>

definition update_running :: "string \<Rightarrow> (operation_item \<Rightarrow> operation_item) \<Rightarrow> op_world \<Rightarrow> int \<times> op_world" where
  "update_running operation_id f w =
     (case op_index_of (load_store w) operation_id of
        None \<Rightarrow> (1, w)
      | Some idx \<Rightarrow>
          if finished (load_store w ! idx) then (1, w)
          else write_store ((load_store w)[idx := f (load_store w ! idx)]) w)"

definition rt_operation_bind_secret :: "string \<Rightarrow> string \<Rightarrow> op_world \<Rightarrow> int \<times> op_world" where
  "rt_operation_bind_secret operation_id token w =
     (if token = [] then (- 1, w)
      else update_running operation_id
        (\<lambda>x. x\<lparr>op_completion_token := copy_into (RT_OPERATION_TOKEN_HEX + 1) token\<rparr>) w)"

definition rt_operation_set_worker_handle :: "string \<Rightarrow> string \<Rightarrow> op_world \<Rightarrow> int \<times> op_world" where
  "rt_operation_set_worker_handle operation_id worker_handle w =
     update_running operation_id (\<lambda>x. x\<lparr>op_worker_handle := copy_into RT_SMALL worker_handle\<rparr>) w"

definition rt_operation_bind_claim_envelope :: "string \<Rightarrow> string \<Rightarrow> op_world \<Rightarrow> int \<times> op_world" where
  "rt_operation_bind_claim_envelope operation_id envelope_id w =
     (if envelope_id = [] then (- 1, w)
      else update_running operation_id (\<lambda>x. x\<lparr>op_claim_envelope_id := copy_into RT_SMALL envelope_id\<rparr>) w)"

definition rt_operation_close_without_result :: "string \<Rightarrow> op_world \<Rightarrow> int \<times> op_world" where
  "rt_operation_close_without_result operation_id w =
     (case op_index_of (load_store w) operation_id of
        None \<Rightarrow> (1, w)
      | Some idx \<Rightarrow>
          if finished (load_store w ! idx) then (0, w)
          else purge_and_write ((load_store w)[idx := finish_item (load_store w ! idx)]) w)"

text \<open>A field of the record copied out into a buffer of \<open>out_len\<close> bytes.\<close>

definition field_of :: "(operation_item \<Rightarrow> string) \<Rightarrow> string \<Rightarrow> nat \<Rightarrow> op_world \<Rightarrow> string option" where
  "field_of f operation_id out_len w =
     map_option (\<lambda>idx. copy_into out_len (f (load_store w ! idx))) (op_index_of (load_store w) operation_id)"

definition rt_operation_claim_envelope_of :: "string \<Rightarrow> nat \<Rightarrow> op_world \<Rightarrow> string option" where
  "rt_operation_claim_envelope_of = field_of op_claim_envelope_id"

definition rt_operation_token_of :: "string \<Rightarrow> nat \<Rightarrow> op_world \<Rightarrow> string option" where
  "rt_operation_token_of = field_of op_completion_token"

definition rt_operation_channel_of :: "string \<Rightarrow> nat \<Rightarrow> op_world \<Rightarrow> string option" where
  "rt_operation_channel_of = field_of op_channel"

definition rt_operation_context_id_of :: "string \<Rightarrow> nat \<Rightarrow> op_world \<Rightarrow> string option" where
  "rt_operation_context_id_of = field_of op_context_id"

definition rt_operation_work_rev_of :: "string \<Rightarrow> op_world \<Rightarrow> int option" where
  "rt_operation_work_rev_of operation_id w =
     map_option (\<lambda>idx. op_work_rev (load_store w ! idx)) (op_index_of (load_store w) operation_id)"

unbundle bit_operations_syntax

text \<open>The fixed buffer of a token, zero bytes behind its end, and the comparison loop over it.\<close>

definition token_buffer :: "string \<Rightarrow> nat list" where
  "token_buffer s =
     (let c = copy_into (RT_OPERATION_TOKEN_HEX + 1) s
      in map byte c @ replicate (RT_OPERATION_TOKEN_HEX + 1 - length c) 0)"

definition token_diff :: "nat list \<Rightarrow> nat list \<Rightarrow> nat" where
  "token_diff stored presented = fold (\<lambda>(a, b) diff. diff OR (a XOR b)) (zip stored presented) 0"

definition rt_operation_token_matches :: "string \<Rightarrow> string \<Rightarrow> op_world \<Rightarrow> bool" where
  "rt_operation_token_matches operation_id token w =
     (if token = [] then False
      else
        (case op_index_of (load_store w) operation_id of
           None \<Rightarrow> False
         | Some idx \<Rightarrow>
             op_completion_token (load_store w ! idx) \<noteq> [] \<and>
             token_diff (token_buffer (op_completion_token (load_store w ! idx))) (token_buffer token) = 0))"

definition rt_operation_find_running_by_worker_handle :: "string \<Rightarrow> nat \<Rightarrow> op_world \<Rightarrow> string option" where
  "rt_operation_find_running_by_worker_handle worker_handle out_len w =
     (if worker_handle = [] \<or> out_len = 0 then None
      else
        map_option (\<lambda>x. copy_into out_len (op_handle x))
          (find (\<lambda>x. running x \<and> op_worker_handle x = worker_handle) (load_store w)))"

section \<open>Deadlines\<close>

fun earliest_loop :: "operation_store \<Rightarrow> int \<Rightarrow> int" where
  "earliest_loop [] best = best"
| "earliest_loop (x # xs) best =
     (if \<not> running x then earliest_loop xs best
      else if op_deadline_ms x \<le> 0 then 1
      else earliest_loop xs (if best = 0 \<or> op_deadline_ms x < best then op_deadline_ms x else best))"

definition rt_operation_earliest_deadline_ms :: "op_world \<Rightarrow> int" where
  "rt_operation_earliest_deadline_ms w = earliest_loop (load_store w) 0"

definition due :: "int \<Rightarrow> operation_item \<Rightarrow> bool" where
  "due now x \<longleftrightarrow> running x \<and> \<not> (op_deadline_ms x > 0 \<and> now < op_deadline_ms x)"

definition rt_operation_list_deadline_due :: "int \<Rightarrow> nat \<Rightarrow> op_world \<Rightarrow> string list" where
  "rt_operation_list_deadline_due now max_ids w =
     take max_ids (map (\<lambda>x. copy_into RT_SMALL (op_handle x)) (filter (due now) (load_store w)))"

definition rt_operation_any_running :: "op_world \<Rightarrow> bool" where
  "rt_operation_any_running w = list_ex running (load_store w)"

section \<open>Completion tokens\<close>

text \<open>
  The bytes come from the random device in pieces; an empty piece stands for an error or an end
  of file, and \<open>None\<close> for the device not opening.
\<close>

fun gather :: "byte8 list list \<Rightarrow> byte8 list \<Rightarrow> byte8 list option" where
  "gather reads got =
     (if length got \<ge> RT_OPERATION_TOKEN_HEX div 2 then Some got
      else
        (case reads of
           [] \<Rightarrow> None
         | r # rs \<Rightarrow>
             if r = [] then None else gather rs (got @ take (RT_OPERATION_TOKEN_HEX div 2 - length got) r)))"

declare gather.simps [simp del]

definition rt_operation_generate_token :: "byte8 list list option \<Rightarrow> nat \<Rightarrow> string option" where
  "rt_operation_generate_token device out_len =
     (if out_len < RT_OPERATION_TOKEN_HEX + 1 then None
      else
        (case device of
           None \<Rightarrow> None
         | Some reads \<Rightarrow>
             (case gather reads [] of
                None \<Rightarrow> None
              | Some raw \<Rightarrow>
                  Some (concat (map (\<lambda>b. [hex_digits_lower ! unat (drop_bit 4 b), hex_digits_lower ! unat (b AND 0x0f)]) raw)))))"

end
