(* ===== verification/Operation_Laws.thy ===== *)
theory Operation_Laws
  imports Operation_State Sha256_Laws
begin

text \<open>
  The operation store as a durable table: a store that was written is loaded back unchanged, so
  every call acts on the records the previous one left.
\<close>

section \<open>Well-formed records\<close>

definition ref_ok :: "string \<Rightarrow> bool" where
  "ref_ok s \<longleftrightarrow> s = [] \<or> jvalue s \<and> text_ok RT_MED s \<and> s \<noteq> ''null''"

definition item_ok :: "operation_item \<Rightarrow> bool" where
  "item_ok x \<longleftrightarrow>
     op_handle x \<noteq> [] \<and> op_status x \<noteq> [] \<and>
     list_all (text_ok RT_SMALL)
       [op_handle x, op_worker_handle x, op_action x, op_request_id x, op_trigger_event_id x, op_task_id x, op_channel x,
        op_adapter_id x, op_origin_event_id x, op_status x, op_claim_envelope_id x] \<and>
     text_ok RT_MED (op_context_id x) \<and> text_ok (RT_OPERATION_TOKEN_HEX + 1) (op_completion_token x) \<and>
     ref_ok (op_ref_json x) \<and> long_ok (op_work_rev x) \<and> long_ok (op_deadline_ms x)"

definition item_fields :: "operation_item \<Rightarrow> (string \<times> string) list" where
  "item_fields x =
     [(''handle'', str_val (op_handle x)), (''worker_handle'', str_val (op_worker_handle x)),
      (''action'', str_val (op_action x)), (''request_id'', str_val (op_request_id x)),
      (''trigger_event_id'', str_val (op_trigger_event_id x)), (''task_id'', str_val (op_task_id x)),
      (''context_id'', str_val (op_context_id x)), (''channel'', str_val (op_channel x)),
      (''adapter_id'', str_val (op_adapter_id x)), (''origin_event_id'', str_val (op_origin_event_id x)),
      (''ref'', if op_ref_json x \<noteq> [] then op_ref_json x else ''null''), (''status'', str_val (op_status x)),
      (''work_rev'', show_int (op_work_rev x)), (''deadline_ms'', show_int (op_deadline_ms x)),
      (''completion_token'', str_val (op_completion_token x)), (''claim_envelope_id'', str_val (op_claim_envelope_id x))]"

definition item_json :: "operation_item \<Rightarrow> string" where
  "item_json x = obj_text (item_fields x)"

lemma item_text_fields:
  assumes "item_text first x = Some doc"
  shows "doc = (if first then [] else '','') @ item_json x \<and> escapes_fit x"
proof -
  have f: "escapes_fit x" using assms by (auto simp: item_text_def split: if_splits)
  note e = json_escape_text [of _ RT_MED] json_escape_text [of _ "Suc (Suc (RT_OPERATION_TOKEN_HEX * 2))"]
  show ?thesis using assms f
    by (auto simp: item_text_def escapes_fit_def e item_json_def obj_text_def item_fields_def member_text_def str_val_def Let_def
        split: if_splits)
qed

section \<open>The written text\<close>

lemma write_items_text:
  "write_items first st out = Some out' \<Longrightarrow>
     out' = out @ (if first \<or> st = [] then [] else '','') @ join_comma (map item_json st)"
proof (induction first st out arbitrary: out' rule: write_items.induct)
  case (2 first x xs out)
  obtain item out1 where i: "item_text first x = Some item" and a: "rt_append_text (RT_XL * 2) out item = Some out1"
    and w: "write_items False xs out1 = Some out'"
    using 2(2) by (auto split: option.splits)
  have o1: "out1 = out @ item" using a by (auto simp: rt_append_text_def split: if_splits)
  have "out' = out1 @ (if xs = [] then [] else '','') @ join_comma (map item_json xs)" using 2(1) [OF i a w] by simp
  then show ?case using item_text_fields [OF i] o1 by (cases xs) (auto simp: join_comma_Cons)
qed simp

lemma store_text_printed:
  assumes "store_text st = Some doc"
  shows "doc = obj_text [(''operations'', arr_text (map item_json st))] @ [CHR 0x0A]"
    and "length doc < RT_XL * 2"
proof -
  obtain out where w: \<open>write_items True st ''{"operations":['' = Some out\<close>
    and f: "rt_append_text (RT_XL * 2) out ('']}'' @ [CHR 0x0A]) = Some doc"
    using assms by (auto simp: store_text_def rt_append_text_def [of _ "[]"] RT_XL_def split: option.splits if_splits)
  have o: \<open>out = ''{"operations":['' @ join_comma (map item_json st)\<close> using write_items_text [OF w] by simp
  have t: "doc = out @ '']}'' @ [CHR 0x0A]" and l: "length doc < RT_XL * 2"
    using f by (auto simp: rt_append_text_def split: if_splits)
  show "length doc < RT_XL * 2" by (rule l)
  show "doc = obj_text [(''operations'', arr_text (map item_json st))] @ [CHR 0x0A]"
    unfolding t o by (simp add: obj_text_def member_text_def arr_text_def)
qed

section \<open>Loading it back\<close>

lemma item_fields_ok:
  assumes "item_ok x"
  shows "\<forall>(k, v) \<in> set (item_fields x). plain_key k \<and> jvalue v \<and> no_nul k \<and> no_nul v"
proof -
  have s: "jvalue (str_val s)" "no_nul (str_val s)" for s
    using jvalue_str_val no_nul_escape by (auto simp: str_val_def)
  have n: "jvalue (show_int i)" "no_nul (show_int i)" for i
    using jvalue_number [OF jnumber_show_int] no_nul_show_nat by (auto simp: show_int_def)
  have r: "jvalue (if op_ref_json x \<noteq> [] then op_ref_json x else ''null'')" "no_nul (if op_ref_json x \<noteq> [] then op_ref_json x else ''null'')"
    using assms jvalue_null by (auto simp: item_ok_def ref_ok_def text_ok_def)
  have k: "plain_key k" "no_nul k" if "k \<in> set (map fst (item_fields x))" for k
    using that by (auto simp: item_fields_def plain_key_def char_class_defs)
  show ?thesis using s n r k by (auto simp: item_fields_def)
qed

lemma map_of_item_fields:
  "map_of (item_fields x) ''handle'' = Some (str_val (op_handle x))"
  "map_of (item_fields x) ''worker_handle'' = Some (str_val (op_worker_handle x))"
  "map_of (item_fields x) ''action'' = Some (str_val (op_action x))"
  "map_of (item_fields x) ''request_id'' = Some (str_val (op_request_id x))"
  "map_of (item_fields x) ''trigger_event_id'' = Some (str_val (op_trigger_event_id x))"
  "map_of (item_fields x) ''task_id'' = Some (str_val (op_task_id x))"
  "map_of (item_fields x) ''context_id'' = Some (str_val (op_context_id x))"
  "map_of (item_fields x) ''channel'' = Some (str_val (op_channel x))"
  "map_of (item_fields x) ''adapter_id'' = Some (str_val (op_adapter_id x))"
  "map_of (item_fields x) ''origin_event_id'' = Some (str_val (op_origin_event_id x))"
  "map_of (item_fields x) ''ref'' = Some (if op_ref_json x \<noteq> [] then op_ref_json x else ''null'')"
  "map_of (item_fields x) ''status'' = Some (str_val (op_status x))"
  "map_of (item_fields x) ''work_rev'' = Some (show_int (op_work_rev x))"
  "map_of (item_fields x) ''deadline_ms'' = Some (show_int (op_deadline_ms x))"
  "map_of (item_fields x) ''completion_token'' = Some (str_val (op_completion_token x))"
  "map_of (item_fields x) ''claim_envelope_id'' = Some (str_val (op_claim_envelope_id x))"
  by (simp_all add: item_fields_def)

lemma load_item_printed:
  assumes "at_span r (item_json x)" and "item_ok x"
  shows "load_item r = Some x"
proof -
  have r: "at_span r (obj_text (item_fields x))" using assms(1) by (simp add: item_json_def)
  have f: "\<forall>(k, v) \<in> set (item_fields x). plain_key k \<and> jvalue v" using item_fields_ok [OF assms(2)] by auto
  note ok = assms(2) [unfolded item_ok_def text_ok_def long_ok_def]
  note gs = printed_string_or_empty [OF r f] and gl = printed_long [OF r f]
  have handle: "json_ref_object_get_string r ''handle'' RT_SMALL = (True, op_handle x)"
    using ok by (intro printed_string [OF r f]) (simp_all add: map_of_item_fields)
  have status: "json_ref_object_get_string r ''status'' RT_SMALL = (True, op_status x)"
    using ok by (intro printed_string [OF r f]) (simp_all add: map_of_item_fields)
  have small: "get_string_or_empty r ''worker_handle'' RT_SMALL = op_worker_handle x"
    "get_string_or_empty r ''action'' RT_SMALL = op_action x"
    "get_string_or_empty r ''request_id'' RT_SMALL = op_request_id x"
    "get_string_or_empty r ''trigger_event_id'' RT_SMALL = op_trigger_event_id x"
    "get_string_or_empty r ''task_id'' RT_SMALL = op_task_id x"
    "get_string_or_empty r ''channel'' RT_SMALL = op_channel x"
    "get_string_or_empty r ''adapter_id'' RT_SMALL = op_adapter_id x"
    "get_string_or_empty r ''origin_event_id'' RT_SMALL = op_origin_event_id x"
    "get_string_or_empty r ''claim_envelope_id'' RT_SMALL = op_claim_envelope_id x"
    using ok by (simp_all add: gs [OF map_of_item_fields(2)] gs [OF map_of_item_fields(3)] gs [OF map_of_item_fields(4)]
        gs [OF map_of_item_fields(5)] gs [OF map_of_item_fields(6)] gs [OF map_of_item_fields(8)]
        gs [OF map_of_item_fields(9)] gs [OF map_of_item_fields(10)] gs [OF map_of_item_fields(16)])
  have other: "get_string_or_empty r ''context_id'' RT_MED = op_context_id x"
    "get_string_or_empty r ''completion_token'' (RT_OPERATION_TOKEN_HEX + 1) = op_completion_token x"
    "get_long_or 0 r ''work_rev'' = op_work_rev x" "get_long_or 0 r ''deadline_ms'' = op_deadline_ms x"
    using ok by (simp_all add: gs [OF map_of_item_fields(7)] gs [OF map_of_item_fields(15)]
        gl [OF map_of_item_fields(13)] gl [OF map_of_item_fields(14)])
  let ?v = "if op_ref_json x \<noteq> [] then op_ref_json x else ''null''"
  have v: "length ?v < RT_MED" "no_nul ?v" using ok by (auto simp: ref_ok_def text_ok_def RT_MED_def)
  obtain r' where "json_ref_object_get r ''ref'' = Some r'" "json_ref_value_copy r' RT_MED = Some ?v"
    by (rule printed_raw [OF r f map_of_item_fields(11) v(1)])
  then have "ref_json_of r = op_ref_json x" using v ok by (auto simp: ref_json_of_def ref_ok_def)
  then show ?thesis using handle status small other ok
    by (simp add: load_item_def read_correlation_def zero_item_def)
qed

lemma load_loop_printed:
  assumes "\<And>i. i < length st \<Longrightarrow> \<exists>r'. json_ref_array_get ops i = Some r' \<and> at_span r' (item_json (st ! i))"
    and "list_all item_ok st" and "length st \<le> OPERATION_MAX_ITEMS" and "n \<le> length st"
  shows "load_loop ops [n..<length st] (take n st) = st"
  using assms(4)
proof (induction "length st - n" arbitrary: n)
  case (Suc m)
  then have n: "n < length st" by simp
  obtain r' where r: "json_ref_array_get ops n = Some r'" "at_span r' (item_json (st ! n))" using assms(1) [OF n] by blast
  have "load_item r' = Some (st ! n)" using load_item_printed [OF r(2)] assms(2) n by (simp add: list_all_length)
  moreover have "jr_type r' = JSON_REF_OBJECT"
    using r(2) at_span_type [of r'] by (simp add: item_json_def obj_text_def json_ref_infer_type_def)
  moreover have "[n..<length st] = n # [Suc n..<length st]" using n by (simp add: upt_conv_Cons)
  moreover have "take n st @ [st ! n] = take (Suc n) st" using n by (simp add: take_Suc_conv_app_nth)
  ultimately show ?case using Suc(1) [of "Suc n"] Suc(2) n r(1) assms(3) by simp
qed simp

definition store_ok :: "operation_store \<Rightarrow> bool" where
  "store_ok st \<longleftrightarrow> list_all item_ok st \<and> length st \<le> OPERATION_MAX_ITEMS"

lemma load_store_text:
  assumes "store_ok st" and "store_text st = Some doc" and "ow_state w = Some doc"
  shows "load_store w = st"
proof -
  let ?v = "arr_text (map item_json st)"
  let ?ms = "[(''operations'', ?v)]"
  have ok: "list_all item_ok st" "length st \<le> OPERATION_MAX_ITEMS" using assms(1) by (simp_all add: store_ok_def)
  have doc: "doc = obj_text ?ms @ [CHR 0x0A]" "length doc < RT_XL * 2" using store_text_printed [OF assms(2)] by simp_all
  have items: "list_all jvalue (map item_json st)" "list_all no_nul (map item_json st)"
    using ok(1) item_fields_ok jobject_jvalue [OF jobject_printed] no_nul_obj_text
    by (fastforce simp: list_all_iff item_json_def)+
  have "jvalue ?v" using jarray_jvalue [OF jarray_printed [OF items(1)]] .
  moreover have key: "plain_key ''operations''" by (simp add: plain_key_def char_class_defs)
  ultimately have ms: "\<forall>(k, v) \<in> set ?ms. plain_key k \<and> jvalue v" by simp
  have "no_nul ?v" using no_nul_join [OF items(2)] by (simp add: arr_text_def)
  then have "no_nul doc" unfolding doc(1) using no_nul_obj_text [of ?ms] no_nul_plain [OF key] by simp
  then have rd: "fs_read_text (ow_state w) FS_READ_TEXT_DEFAULT_CAP = Some doc"
    using assms(3) doc(2) by (simp add: fs_read_text_def read_cap_def FS_READ_TEXT_DEFAULT_CAP_def RT_XL_def)
  obtain root where root: "json_ref_top_object doc = Some root" "at_ref root (obj_text ?ms)"
    unfolding doc(1) by (rule top_object_printed [OF ms, of "[CHR 0x0A]"]) (auto simp: char_class_defs)
  obtain ops where ops: "json_ref_object_get root ''operations'' = Some ops" "at_ref ops ?v"
    using at_ref_object_get [OF at_ref_span [OF root(2)] ms, of "''operations''"] by auto
  have "jr_type ops = JSON_REF_ARRAY"
    using at_ref_span [OF ops(2)] at_span_type [of ops] by (simp add: arr_text_def json_ref_infer_type_def)
  then have arr: "json_ref_object_get_array root ''operations'' = Some ops" using ops(1) by (simp add: json_ref_object_get_array_def)
  have "json_ref_array_size ops = length st" using at_ref_array(1) [OF ops(2) items(1)] by simp
  moreover have "\<exists>r'. json_ref_array_get ops i = Some r' \<and> at_span r' (item_json (st ! i))" if "i < length st" for i
    using at_ref_array(2) [OF ops(2) items(1), of i] that by simp
  ultimately have "load_loop ops [0..<json_ref_array_size ops] [] = st"
    using load_loop_printed [of st ops 0, OF _ ok] by simp
  then show ?thesis using rd root(1) arr by (simp add: load_store_def)
qed

text \<open>
  C19. The state file is faithful: whenever a store of well-formed records is written, loading
  it back gives exactly the same records, in the same order, with every byte of every field, for
  every string the fields can hold (quotes, control bytes and raw reference JSON included).
\<close>

theorem operation_store_roundtrip:
  assumes "store_ok st" and "write_store st w = (0, w')"
  shows "load_store w' = st"
proof -
  obtain doc where "store_text st = Some doc" "ow_state w' = Some doc"
    using assms(2) by (auto simp: write_store_def split: if_splits option.splits)
  then show ?thesis by (rule load_store_text [OF assms(1)])
qed

end
