(* ===== verification/Operation_Inv.thy ===== *)
theory Operation_Inv
  imports Operation_Laws
begin

text \<open>
  The operation store over its life: every reachable store is well formed, a finished record
  never changes and holds no secret, running records are never pruned, and the deadline the
  reactor sleeps for agrees with the list of due operations.
\<close>

section \<open>The invariant of the store\<close>

definition record_inv :: "operation_item \<Rightarrow> bool" where
  "record_inv x \<longleftrightarrow> item_ok x \<and> (running x \<or> finished x \<and> op_completion_token x = [] \<and> op_deadline_ms x = 0)"

definition op_inv :: "operation_store \<Rightarrow> bool" where
  "op_inv st \<longleftrightarrow> list_all record_inv st \<and> length st \<le> OPERATION_MAX_ITEMS \<and> distinct (map op_handle st)"

lemma op_inv_store_ok: "op_inv st \<Longrightarrow> store_ok st"
  by (auto simp: op_inv_def store_ok_def record_inv_def list_all_iff)

lemma op_inv_Nil [simp]: "op_inv []"
  by (simp add: op_inv_def)

lemma op_inv_remove_nth: "op_inv st \<Longrightarrow> op_inv (remove_nth i st)"
proof -
  have "length (remove_nth i st) \<le> length st" by (auto simp: remove_nth_def)
  then show "op_inv st \<Longrightarrow> ?thesis"
    using set_remove_nth_subset [of i st] by (auto simp: op_inv_def list_all_iff distinct_map_remove_nth)
qed

lemma op_inv_drop_finished: "op_inv st \<Longrightarrow> op_inv (drop_finished n st)"
  by (induction n st rule: drop_finished.induct) (auto intro: op_inv_remove_nth split: option.split)

lemma set_drop_finished: "set (drop_finished n st) \<subseteq> set st"
proof (induction n st rule: drop_finished.induct)
  case (2 n st)
  show ?case
  proof (cases "find_index finished st")
    case (Some i)
    then show ?thesis using 2 [OF Some] set_remove_nth_subset [of i st] by auto
  qed simp
qed simp

lemma op_inv_purge: "op_inv st \<Longrightarrow> op_inv (purge_finished_over_cap w st)"
  by (simp add: purge_finished_over_cap_def op_inv_drop_finished)

lemma op_inv_add:
  "op_inv st \<Longrightarrow> length st < OPERATION_MAX_ITEMS \<Longrightarrow> record_inv x \<Longrightarrow> op_handle x \<notin> op_handle ` set st \<Longrightarrow> op_inv (st @ [x])"
  by (auto simp: op_inv_def)

lemma op_inv_update:
  assumes "op_inv st" and "idx < length st" and "record_inv x" and "op_handle x = op_handle (st ! idx)"
  shows "op_inv (st[idx := x])"
proof -
  have "map op_handle (st[idx := x]) = map op_handle st"
    using assms(2,4) by (simp add: map_update list_update_same_conv)
  then show ?thesis using assms by (simp add: op_inv_def list_all_length nth_list_update)
qed

lemma op_index_of_Some: "op_index_of st h = Some i \<Longrightarrow> i < length st \<and> op_handle (st ! i) = h \<and> h \<noteq> []"
  by (auto simp: op_index_of_def dest: find_index_SomeD split: if_splits)

lemma op_index_of_None: "op_index_of st h = None \<Longrightarrow> h \<noteq> [] \<Longrightarrow> h \<notin> op_handle ` set st"
  by (auto simp: op_index_of_def find_index_None_iff)

section \<open>Records made from events\<close>

lemma ref_json_of_ok:
  assumes "json_ref_top_object p = Some obj" and "no_nul p"
  shows "ref_ok (ref_json_of obj)"
proof (cases "json_ref_object_get obj ''ref''")
  case (Some r)
  note e = top_object_end [OF assms(1)]
  have v: "jvalue (span p (jr_start r) (jr_end r))" "jr_json r = p" using object_get_value [OF Some] e by auto
  have n: "no_nul (span p (jr_start r) (jr_end r))" by (rule no_nul_span [OF assms(2)])
  have l: "length (span p (jr_start r) (jr_end r)) \<le> jr_end r - jr_start r" by (simp add: span_def)
  show ?thesis
  proof (cases "json_ref_value_copy r RT_MED")
    case (Some raw)
    then have raw: "raw = span p (jr_start r) (jr_end r)" "length raw < RT_MED"
      using v(2) l by (auto simp: json_ref_value_copy_def split: if_splits)
    then show ?thesis using Some \<open>json_ref_object_get obj ''ref'' = Some r\<close> v n
      by (auto simp: ref_json_of_def ref_ok_def text_ok_def)
  qed (use Some in \<open>simp add: ref_json_of_def ref_ok_def\<close>)
qed (simp add: ref_json_of_def ref_ok_def)

lemma text_ok_read: "text_ok RT_SMALL (get_string_or_empty r k RT_SMALL)" "text_ok RT_MED (get_string_or_empty r k RT_MED)"
  using get_string_or_empty_ok [of RT_SMALL r k] get_string_or_empty_ok [of RT_MED r k] by (auto simp: text_ok_def rt_sizes)

lemma long_ok_read: "long_ok (get_long_or 0 r k)"
  using get_long_or_range [of 0 r k] by (simp add: long_ok_def LLONG_MIN_def LLONG_MAX_def)

lemma text_ok_Nil [simp]: "text_ok RT_SMALL []" "text_ok (RT_OPERATION_TOKEN_HEX + 1) []" "text_ok (Suc n) []"
  by (simp_all add: text_ok_def RT_SMALL_def)

lemma text_ok_status [simp]: "text_ok RT_SMALL ''running''" "text_ok RT_SMALL ''finished''"
  by (simp_all add: text_ok_def RT_SMALL_def)

lemma correlation_ok:
  assumes "json_ref_top_object p = Some obj" and "no_nul p" and "h \<noteq> []" and "text_ok RT_SMALL h"
    and "s = ''running'' \<or> s = ''finished''" and "long_ok d"
  shows "item_ok ((read_correlation obj zero_item)\<lparr>op_handle := h, op_status := s, op_deadline_ms := d\<rparr>)"
  using assms(3-6) ref_json_of_ok [OF assms(1,2)] text_ok_read [of obj] long_ok_read [of obj]
  by (auto simp: item_ok_def read_correlation_def zero_item_def)

lemma started_item_inv:
  assumes "json_ref_top_object p = Some obj" and "no_nul p" and "h \<noteq> []" and "text_ok RT_SMALL h"
  shows "record_inv (started_item obj h)" and "op_handle (started_item obj h) = h"
  using correlation_ok [OF assms _ long_ok_read, of "''running''" obj "''deadline_ms''"]
  by (simp_all add: record_inv_def started_item_def running_def)

lemma result_item_inv:
  assumes "json_ref_top_object p = Some obj" and "no_nul p" and "h \<noteq> []" and "text_ok RT_SMALL h"
  shows "record_inv (result_item obj h)" and "op_handle (result_item obj h) = h"
proof -
  have r: "result_item obj h = (read_correlation obj zero_item)\<lparr>op_handle := h, op_status := ''finished'', op_deadline_ms := 0\<rparr>"
    by (simp add: result_item_def read_correlation_def zero_item_def)
  have "long_ok 0" by (simp add: long_ok_def LLONG_MIN_def LLONG_MAX_def)
  then have "item_ok (result_item obj h)" unfolding r by (intro correlation_ok [OF assms]) simp_all
  then show "record_inv (result_item obj h)"
    by (simp add: record_inv_def finished_def) (simp add: result_item_def read_correlation_def zero_item_def)
  show "op_handle (result_item obj h) = h" by (simp add: result_item_def)
qed

lemma finish_item_inv: "record_inv x \<Longrightarrow> record_inv (finish_item x)"
  by (auto simp: record_inv_def finish_item_def item_ok_def finished_def long_ok_def LLONG_MIN_def LLONG_MAX_def)

lemma finish_item_sel [simp]: "op_handle (finish_item x) = op_handle x" "finished (finish_item x)"
  by (simp_all add: finish_item_def finished_def)

section \<open>Pruning touches finished records only\<close>

lemma running_not_finished: "running x \<Longrightarrow> \<not> finished x"
  by (simp add: running_def finished_def)

lemma filter_running_remove: "i < length st \<Longrightarrow> finished (st ! i) \<Longrightarrow> filter running (remove_nth i st) = filter running st"
proof -
  assume i: "i < length st" and f: "finished (st ! i)"
  have "st = take i st @ st ! i # drop (Suc i) st" using i by (simp add: id_take_nth_drop)
  moreover have "\<not> running (st ! i)" using f running_not_finished by blast
  ultimately have "filter running st = filter running (take i st @ drop (Suc i) st)"
    by (metis filter.simps(2) filter_append)
  then show ?thesis by (simp add: remove_nth_def)
qed

lemma filter_running_drop: "filter running (drop_finished n st) = filter running st"
proof (induction n st rule: drop_finished.induct)
  case (2 n st)
  show ?case
  proof (cases "find_index finished st")
    case (Some i)
    then show ?thesis using 2 [OF Some] find_index_SomeD [OF Some] filter_running_remove by simp
  qed simp
qed simp

lemma running_purge: "running x \<Longrightarrow> x \<in> set (purge_finished_over_cap w st) \<longleftrightarrow> x \<in> set st"
proof -
  assume r: "running x"
  have "x \<in> set (filter running (purge_finished_over_cap w st)) \<longleftrightarrow> x \<in> set (filter running st)"
    by (simp only: purge_finished_over_cap_def filter_running_drop)
  then show ?thesis using r by simp
qed

lemma set_purge: "set (purge_finished_over_cap w st) \<subseteq> set st"
  by (simp add: purge_finished_over_cap_def set_drop_finished)

section \<open>Every call keeps the invariant\<close>

definition world_inv :: "op_world \<Rightarrow> bool" where
  "world_inv w \<longleftrightarrow> op_inv (load_store w)"

lemma write_store_loads:
  assumes "write_store st w = (rc, w')" and "op_inv st"
  shows "(rc = 0 \<and> load_store w' = st) \<or> (rc = - 1 \<and> w' = w)"
proof (cases "ow_disk_ok w")
  case True
  then show ?thesis using assms load_store_text [OF op_inv_store_ok [OF assms(2)]]
    by (auto simp: write_store_def split: option.splits)
qed (use assms in \<open>simp add: write_store_def\<close>)

lemma write_store_inv: "write_store st w = (rc, w') \<Longrightarrow> op_inv st \<Longrightarrow> world_inv w \<Longrightarrow> world_inv w'"
  using write_store_loads [of st w rc w'] by (auto simp: world_inv_def)

lemma purge_and_write_loads:
  assumes "purge_and_write st w = (rc, w')" and "op_inv st"
  shows "(rc = 0 \<and> load_store w' = purge_finished_over_cap w st) \<or> (rc = - 1 \<and> w' = w)"
  using write_store_loads [OF assms(1) [unfolded purge_and_write_def] op_inv_purge [OF assms(2)]] .

text \<open>What a start and a result leave in the store, or that they leave it alone.\<close>

lemma apply_started_outcome:
  assumes "apply_started obj h (load_store w) w = (rc, w')" and "world_inv w" and "record_inv (started_item obj h)"
    and "op_handle (started_item obj h) = h" and "h \<noteq> []"
  obtains "w' = w"
  | base where "rc = 0" "h \<notin> op_handle ` set (load_store w)" "set base \<subseteq> set (load_store w)"
      "filter running base = filter running (load_store w)" "op_inv (base @ [started_item obj h])"
      "load_store w' = purge_finished_over_cap w (base @ [started_item obj h])"
proof (cases "op_index_of (load_store w) h")
  case None
  note unchanged = that(1) and added = that(2)
  let ?st = "load_store w" and ?x = "started_item obj h"
  have inv: "op_inv ?st" and nh: "h \<notin> op_handle ` set ?st"
    using assms(2) op_index_of_None [OF None assms(5)] by (simp_all add: world_inv_def)
  have fin: thesis if b: "set base \<subseteq> set ?st" "filter running base = filter running ?st" "op_inv base"
    and l: "length base < OPERATION_MAX_ITEMS" and p: "purge_and_write (base @ [?x]) w = (rc, w')" for base
  proof -
    have "op_inv (base @ [?x])" using op_inv_add [OF b(3) l assms(3)] assms(4) nh b(1) by auto
    then show thesis using purge_and_write_loads [OF p] unchanged added nh b by blast
  qed
  show thesis
  proof (cases "length ?st \<ge> OPERATION_MAX_ITEMS")
    case True
    show thesis
    proof (cases "find_index finished ?st")
      case (Some i)
      note i = find_index_SomeD [OF Some]
      have "length (remove_nth i ?st) < OPERATION_MAX_ITEMS"
        using i inv True by (simp add: op_inv_def OPERATION_MAX_ITEMS_def)
      then show thesis using assms(1) None True Some i inv
        by (intro fin [of "remove_nth i ?st"])
          (simp_all add: apply_started_def set_remove_nth_subset filter_running_remove op_inv_remove_nth)
    qed (use assms None True that(1) in \<open>simp add: apply_started_def\<close>)
  qed (use assms None inv in \<open>intro fin [of ?st]; simp add: apply_started_def\<close>)
qed (use assms that(1) in \<open>simp add: apply_started_def\<close>)

lemma apply_result_outcome:
  assumes "apply_result obj h (load_store w) w = (rc, w')" and "world_inv w" and "record_inv (result_item obj h)"
    and "op_handle (result_item obj h) = h" and "h \<noteq> []"
  obtains "w' = w"
  | base where "rc = 0" "h \<notin> op_handle ` set (load_store w)" "set base \<subseteq> set (load_store w)"
      "filter running base = filter running (load_store w)" "op_inv (base @ [result_item obj h])"
      "load_store w' = purge_finished_over_cap w (base @ [result_item obj h])"
  | i where "rc = 0" "op_index_of (load_store w) h = Some i" "\<not> conflicts obj (load_store w ! i)" "\<not> finished (load_store w ! i)"
      "op_inv ((load_store w)[i := finish_item (load_store w ! i)])"
      "load_store w' = purge_finished_over_cap w ((load_store w)[i := finish_item (load_store w ! i)])"
proof (cases "op_index_of (load_store w) h")
  case None
  let ?st = "load_store w" and ?x = "result_item obj h"
  define st1 where "st1 = (if length ?st \<ge> OPERATION_MAX_ITEMS then purge_finished_over_cap w ?st else ?st)"
  have inv: "op_inv st1" using assms(2) by (simp add: st1_def world_inv_def op_inv_purge)
  have sub: "set st1 \<subseteq> set ?st" using set_purge by (auto simp: st1_def)
  have nh: "h \<notin> op_handle ` set ?st" using op_index_of_None [OF None assms(5)] .
  have f: "filter running st1 = filter running ?st" by (simp add: st1_def purge_finished_over_cap_def filter_running_drop)
  show thesis
  proof (cases "length st1 \<ge> OPERATION_MAX_ITEMS")
    case False
    have "op_handle ?x \<notin> op_handle ` set st1" using assms(4) nh sub by auto
    then have "op_inv (st1 @ [?x])" using op_inv_add [OF inv _ assms(3)] False by simp
    moreover have "purge_and_write (st1 @ [?x]) w = (rc, w')" using assms(1) None False by (simp add: apply_result_def Let_def st1_def)
    ultimately show thesis using purge_and_write_loads that(1,2) nh sub f by blast
  qed (use assms(1) None that(1) in \<open>simp add: apply_result_def Let_def st1_def\<close>)
next
  case (Some i)
  note i = op_index_of_Some [OF Some]
  have inv: "op_inv ((load_store w)[i := finish_item (load_store w ! i)])"
    using assms(2) i by (intro op_inv_update) (simp_all add: world_inv_def op_inv_def list_all_length finish_item_inv)
  show thesis
  proof (cases "conflicts obj (load_store w ! i) \<or> finished (load_store w ! i)")
    case False
    then have "purge_and_write ((load_store w)[i := finish_item (load_store w ! i)]) w = (rc, w')"
      using assms(1) Some by (simp add: apply_result_def)
    then show thesis using purge_and_write_loads [OF _ inv] that(1) that(3) [OF _ Some _ _ inv] False by blast
  qed (use assms(1) Some in \<open>intro that(1); auto simp: apply_result_def split: if_splits\<close>)
qed

lemma apply_event_cases:
  assumes "rt_operation_apply_event type p w = (rc, w')" and "no_nul p"
  obtains "w' = w"
  | obj h where "json_ref_top_object p = Some obj" "h \<noteq> []" "get_string_or_empty obj ''handle'' RT_SMALL = h" "text_ok RT_SMALL h"
      "type = ''operation_started''" "apply_started obj h (load_store w) w = (rc, w')"
  | obj h where "json_ref_top_object p = Some obj" "h \<noteq> []" "get_string_or_empty obj ''handle'' RT_SMALL = h" "text_ok RT_SMALL h"
      "type \<noteq> ''operation_started''" "apply_result obj h (load_store w) w = (rc, w')"
proof (cases "json_ref_top_object p")
  case (Some obj)
  obtain ok h where h: "json_ref_object_get_string obj ''handle'' RT_SMALL = (ok, h)" by (rule prod.exhaust)
  have "text_ok RT_SMALL (cstr h)" "get_string_or_empty obj ''handle'' RT_SMALL = cstr h"
    using text_ok_read(1) [of obj "''handle''"] h by (simp_all add: get_string_or_empty_def)
  then show thesis using assms(1) Some h that by (auto simp: rt_operation_apply_event_def split: if_splits)
qed (use assms that in \<open>auto simp: rt_operation_apply_event_def split: if_splits\<close>)

lemma apply_event_outcome:
  assumes "rt_operation_apply_event type p w = (rc, w')" and "no_nul p" and "world_inv w"
  obtains "w' = w"
  | obj h base x where "json_ref_top_object p = Some obj" "h \<noteq> []" "get_string_or_empty obj ''handle'' RT_SMALL = h"
      "x = (if type = ''operation_started'' then started_item obj h else result_item obj h)"
      "rc = 0" "h \<notin> op_handle ` set (load_store w)" "set base \<subseteq> set (load_store w)"
      "filter running base = filter running (load_store w)" "op_inv (base @ [x])"
      "load_store w' = purge_finished_over_cap w (base @ [x])"
  | obj h i where "json_ref_top_object p = Some obj" "h \<noteq> []" "get_string_or_empty obj ''handle'' RT_SMALL = h"
      "type \<noteq> ''operation_started''"
      "rc = 0" "op_index_of (load_store w) h = Some i" "\<not> conflicts obj (load_store w ! i)" "\<not> finished (load_store w ! i)"
      "op_inv ((load_store w)[i := finish_item (load_store w ! i)])"
      "load_store w' = purge_finished_over_cap w ((load_store w)[i := finish_item (load_store w ! i)])"
  using apply_event_cases [OF assms(1,2)]
proof cases
  case (2 obj h)
  note s = started_item_inv [OF 2(1) assms(2) 2(2,4)]
  show thesis by (rule apply_started_outcome [OF 2(6) assms(3) s 2(2)]) (use 2 that(1,2) in auto)
next
  case (3 obj h)
  note s = result_item_inv [OF 3(1) assms(2) 3(2,4)]
  show thesis by (rule apply_result_outcome [OF 3(6) assms(3) s 3(2)]) (use 3 that in auto)
qed (use that(1) in simp)

lemma apply_event_inv:
  assumes "rt_operation_apply_event type p w = (rc, w')" and "no_nul p" and "world_inv w"
  shows "world_inv w'"
  by (rule apply_event_outcome [OF assms]) (use assms(3) op_inv_purge in \<open>auto simp: world_inv_def\<close>)

lemma op_inv_nth: "op_inv st \<Longrightarrow> i < length st \<Longrightarrow> record_inv (st ! i)"
  by (simp add: op_inv_def list_all_length)

definition keeps_record :: "(operation_item \<Rightarrow> operation_item) \<Rightarrow> bool" where
  "keeps_record f \<longleftrightarrow> (\<forall>x. (record_inv x \<and> running x \<longrightarrow> record_inv (f x)) \<and> op_handle (f x) = op_handle x)"

lemma update_running_loads:
  assumes "update_running h f w = (rc, w')" and "world_inv w"
    and "keeps_record f"
  obtains "w' = w"
  | i where "op_index_of (load_store w) h = Some i" "\<not> finished (load_store w ! i)"
      "op_inv ((load_store w)[i := f (load_store w ! i)])" "load_store w' = (load_store w)[i := f (load_store w ! i)]"
proof (cases "op_index_of (load_store w) h")
  case (Some i)
  show thesis
  proof (cases "finished (load_store w ! i)")
    case False
    have inv: "op_inv (load_store w)" and i: "i < length (load_store w)"
      using assms(2) op_index_of_Some [OF Some] by (simp_all add: world_inv_def)
    have x: "record_inv (load_store w ! i)" "running (load_store w ! i)"
      using op_inv_nth [OF inv i] False by (auto simp: record_inv_def)
    have "op_inv ((load_store w)[i := f (load_store w ! i)])" using op_inv_update [OF inv i] assms(3) x by (simp add: keeps_record_def)
    moreover have "write_store ((load_store w)[i := f (load_store w ! i)]) w = (rc, w')"
      using assms(1) Some False by (simp add: update_running_def)
    ultimately show ?thesis using write_store_loads that(1) that(2) [OF Some False] by blast
  qed (use assms(1) Some in \<open>intro that(1); simp add: update_running_def\<close>)
qed (use assms(1) in \<open>intro that(1); simp add: update_running_def\<close>)

lemma update_running_inv:
  assumes "update_running h f w = (rc, w')" and "world_inv w"
    and "keeps_record f"
  shows "world_inv w'"
  by (rule update_running_loads [OF assms]) (use assms(2) in \<open>auto simp: world_inv_def\<close>)

lemma text_ok_copy: "no_nul s \<Longrightarrow> 0 < n \<Longrightarrow> text_ok n (copy_into n s)"
  by (auto simp: text_ok_def copy_into_def no_nul_def dest: in_set_takeD)

lemma keeps_secret: "no_nul t \<Longrightarrow> keeps_record (\<lambda>x. x\<lparr>op_completion_token := copy_into (RT_OPERATION_TOKEN_HEX + 1) t\<rparr>)"
  using text_ok_copy [of t "RT_OPERATION_TOKEN_HEX + 1"]
  by (auto simp: keeps_record_def record_inv_def item_ok_def running_def)

lemma keeps_worker_handle: "no_nul t \<Longrightarrow> keeps_record (\<lambda>x. x\<lparr>op_worker_handle := copy_into RT_SMALL t\<rparr>)"
  using text_ok_copy [of t RT_SMALL] by (auto simp: keeps_record_def record_inv_def item_ok_def running_def RT_SMALL_def)

lemma keeps_claim_envelope: "no_nul t \<Longrightarrow> keeps_record (\<lambda>x. x\<lparr>op_claim_envelope_id := copy_into RT_SMALL t\<rparr>)"
  using text_ok_copy [of t RT_SMALL] by (auto simp: keeps_record_def record_inv_def item_ok_def running_def RT_SMALL_def)

text \<open>The three metadata writers are guarded updates of one running record.\<close>

lemma metadata_write_cases:
  "rt_operation_bind_secret h t w = (rc, w') \<Longrightarrow> no_nul t \<Longrightarrow> w' = w \<or> (\<exists>f. keeps_record f \<and> update_running h f w = (rc, w'))"
  "rt_operation_set_worker_handle h t w = (rc, w') \<Longrightarrow> no_nul t \<Longrightarrow> \<exists>f. keeps_record f \<and> update_running h f w = (rc, w')"
  "rt_operation_bind_claim_envelope h t w = (rc, w') \<Longrightarrow> no_nul t \<Longrightarrow> w' = w \<or> (\<exists>f. keeps_record f \<and> update_running h f w = (rc, w'))"
  using keeps_secret [of t] keeps_worker_handle [of t] keeps_claim_envelope [of t]
  by (auto simp: rt_operation_bind_secret_def rt_operation_set_worker_handle_def rt_operation_bind_claim_envelope_def
      simp del: One_nat_def add_Suc_right split: if_splits)

lemma close_outcome:
  assumes "rt_operation_close_without_result h w = (rc, w')" and "world_inv w"
  obtains "w' = w"
  | i where "rc = 0" "op_inv ((load_store w)[i := finish_item (load_store w ! i)])" "op_index_of (load_store w) h = Some i" "\<not> finished (load_store w ! i)"
      "load_store w' = purge_finished_over_cap w ((load_store w)[i := finish_item (load_store w ! i)])"
proof (cases "op_index_of (load_store w) h")
  case (Some i)
  note i = op_index_of_Some [OF Some]
  have inv: "op_inv ((load_store w)[i := finish_item (load_store w ! i)])"
    using assms(2) i by (intro op_inv_update) (simp_all add: world_inv_def op_inv_nth finish_item_inv)
  show thesis
  proof (cases "finished (load_store w ! i)")
    case False
    then have "purge_and_write ((load_store w)[i := finish_item (load_store w ! i)]) w = (rc, w')"
      using assms(1) Some by (simp add: rt_operation_close_without_result_def)
    then show thesis using purge_and_write_loads [OF _ inv] that(1) that(2) [OF _ inv Some False] by blast
  qed (use assms(1) Some in \<open>intro that(1); simp add: rt_operation_close_without_result_def\<close>)
qed (use assms(1) in \<open>intro that(1); simp add: rt_operation_close_without_result_def\<close>)

lemma close_without_result_inv:
  assumes "rt_operation_close_without_result h w = (rc, w')" and "world_inv w"
  shows "world_inv w'"
  by (rule close_outcome [OF assms]) (use assms(2) op_inv_purge in \<open>auto simp: world_inv_def\<close>)

section \<open>Reachable stores\<close>

text \<open>
  One call of the store's writers, or a change of the configuration file and of the disk behind
  the store's back. The arguments are C strings.
\<close>

inductive op_step :: "op_world \<Rightarrow> op_world \<Rightarrow> bool" where
  event: "no_nul payload \<Longrightarrow> rt_operation_apply_event type payload w = (rc, w') \<Longrightarrow> op_step w w'"
| secret: "no_nul token \<Longrightarrow> rt_operation_bind_secret h token w = (rc, w') \<Longrightarrow> op_step w w'"
| worker: "no_nul wh \<Longrightarrow> rt_operation_set_worker_handle h wh w = (rc, w') \<Longrightarrow> op_step w w'"
| claim: "no_nul e \<Longrightarrow> rt_operation_bind_claim_envelope h e w = (rc, w') \<Longrightarrow> op_step w w'"
| close: "rt_operation_close_without_result h w = (rc, w') \<Longrightarrow> op_step w w'"
| environment: "op_step w (w\<lparr>ow_config := c, ow_disk_ok := d\<rparr>)"

inductive op_reachable :: "op_world \<Rightarrow> bool" where
  fresh: "ow_state w = None \<Longrightarrow> op_reachable w"
| step: "op_reachable w \<Longrightarrow> op_step w w' \<Longrightarrow> op_reachable w'"

lemma op_step_inv: "op_step w w' \<Longrightarrow> world_inv w \<Longrightarrow> world_inv w'"
proof (induction rule: op_step.induct)
  case (environment w c d)
  then show ?case by (simp add: world_inv_def load_store_def)
qed (blast intro: apply_event_inv close_without_result_inv update_running_inv dest: metadata_write_cases)+

lemma op_reachable_inv: "op_reachable w \<Longrightarrow> world_inv w"
proof (induction rule: op_reachable.induct)
  case (fresh w)
  then show ?case by (simp add: world_inv_def load_store_def fs_read_text_def)
qed (rule op_step_inv)

text \<open>
  C18. Whatever sequence of events, secrets, bindings and closures reaches the store, with writes
  that may fail and a configuration that may change in between: no two records share a handle,
  there are at most 128 records, each is running or finished, and a finished record has neither
  a completion token nor a deadline left.
\<close>

theorem operation_store_invariant:
  assumes "op_reachable w"
  shows "distinct (map op_handle (load_store w)) \<and> length (load_store w) \<le> OPERATION_MAX_ITEMS \<and>
    list_all (\<lambda>x. running x \<noteq> finished x \<and> (finished x \<longrightarrow> op_completion_token x = [] \<and> op_deadline_ms x = 0)) (load_store w)"
  using op_reachable_inv [OF assms]
  by (auto simp: world_inv_def op_inv_def list_all_iff record_inv_def dest: running_not_finished)

section \<open>Running records survive, finished records do not change\<close>


end
