(* ===== verification/Operation_Safety.thy ===== *)
theory Operation_Safety
  imports Operation_Inv
begin

text \<open>
  What callers of the operation store rely on: finished records do not change, replayed events
  do nothing, a completion token opens only its own running operation, and the deadline the
  reactor sleeps for agrees with the list of due operations.
\<close>

section \<open>Finished records\<close>

lemma same_handle: "op_inv st \<Longrightarrow> x \<in> set st \<Longrightarrow> y \<in> set st \<Longrightarrow> op_handle x = op_handle y \<Longrightarrow> x = y"
  by (simp add: op_inv_def distinct_map inj_on_def)

lemma finished_update:
  assumes "op_inv st" and "i < length st" and "\<not> finished (st ! i)" and "op_handle g = op_handle (st ! i)"
    and "x \<in> set st" and "finished x" and "x' \<in> set (st[i := g])" and "op_handle x' = op_handle x"
  shows "x' = x"
proof (cases "x' = g")
  case True
  then have "op_handle x = op_handle (st ! i)" using assms(4,8) by simp
  then have "x = st ! i" by (rule same_handle [OF assms(1,5) nth_mem [OF assms(2)]])
  then show ?thesis using assms(3,6) by simp
next
  case False
  then show ?thesis using set_update_subset_insert [of st i g] same_handle [OF assms(1) _ assms(5)] assms(7,8) by auto
qed

lemma unchanged_finished: "world_inv w \<Longrightarrow> x \<in> set (load_store w) \<Longrightarrow> x' \<in> set (load_store w) \<Longrightarrow> op_handle x' = op_handle x \<Longrightarrow> x' = x"
  by (auto simp: world_inv_def dest: same_handle)

lemma update_running_finished:
  assumes "update_running h f w = (rc, w')" and "world_inv w"
    and "keeps_record f"
    and x: "x \<in> set (load_store w)" "finished x" "x' \<in> set (load_store w')" "op_handle x' = op_handle x"
  shows "x' = x"
  using update_running_loads [OF assms(1,2,3)]
proof cases
  case 1
  then show ?thesis using same_handle [OF _ _ x(1)] x(3,4) assms(2) by (simp add: world_inv_def)
next
  case (2 i)
  have "op_inv (load_store w)" using assms(2) by (simp add: world_inv_def)
  then show ?thesis using op_index_of_Some [OF 2(1)] 2(2,4) assms(3) x by (auto simp: keeps_record_def intro: finished_update)
qed

lemma finish_finished:
  assumes "world_inv w" and "op_index_of (load_store w) h = Some i" and "\<not> finished (load_store w ! i)"
    and x: "x \<in> set (load_store w)" "finished x" "op_handle x' = op_handle x"
    and "x' \<in> set (purge_finished_over_cap w ((load_store w)[i := finish_item (load_store w ! i)]))"
  shows "x' = x"
  using set_purge assms op_index_of_Some [OF assms(2)]
  by (auto simp: world_inv_def intro!: finished_update [of "load_store w" i "finish_item (load_store w ! i)"])

lemma event_finished:
  assumes "rt_operation_apply_event type p w = (rc, w')" and "no_nul p" and "world_inv w"
    and x: "x \<in> set (load_store w)" "finished x" "x' \<in> set (load_store w')" "op_handle x' = op_handle x"
  shows "x' = x"
proof -
  have inv: "op_inv (load_store w)" using assms(3) by (simp add: world_inv_def)
  show ?thesis using apply_event_outcome [OF assms(1,2,3)]
  proof cases
    case (2 obj h base y)
    have "op_handle y = h" using 2(4) by (simp add: started_item_def result_item_def)
    then have "x' \<noteq> y" using 2(6) x(1,4) by auto
    moreover have "x' \<in> set (base @ [y])" using x(3) set_purge [of w "base @ [y]"] unfolding 2(10) by blast
    ultimately show ?thesis using 2(7) same_handle [OF inv _ x(1) x(4)] by auto
  next
    case (3 obj h i)
    show ?thesis using finish_finished [OF assms(3) 3(6,8) x(1,2,4)] x(3) 3(10) by simp
  qed (use same_handle [OF inv _ x(1) x(4)] x(3) in simp)
qed


section \<open>Replayed events\<close>

lemma op_index_of_mem: "op_inv st \<Longrightarrow> x \<in> set st \<Longrightarrow> \<exists>i. op_index_of st (op_handle x) = Some i \<and> st ! i = x"
proof -
  assume inv: "op_inv st" and x: "x \<in> set st"
  have h: "op_handle x \<noteq> []" using inv x by (auto simp: op_inv_def list_all_iff record_inv_def item_ok_def)
  obtain i where i: "op_index_of st (op_handle x) = Some i"
    using op_index_of_None [OF _ h] x by (cases "op_index_of st (op_handle x)") auto
  have "st ! i = x" using same_handle [OF inv _ x] op_index_of_Some [OF i] by simp
  then show ?thesis using i by blast
qed

lemma same_identity_started: "same_identity obj (started_item obj h)"
  by (simp add: same_identity_def started_item_def read_correlation_def)

lemma conflicts_result: "\<not> conflicts obj (result_item obj h)"
  by (simp add: conflicts_def result_item_def read_correlation_def)

lemma conflicts_finish [simp]: "conflicts obj (finish_item x) = conflicts obj x"
  by (simp add: conflicts_def finish_item_def)

lemma apply_event_known:
  assumes "json_ref_top_object p = Some obj" and "get_string_or_empty obj ''handle'' RT_SMALL = h" and "h \<noteq> []"
    and "fst (json_ref_object_get_string obj ''handle'' RT_SMALL)" and "op_index_of (load_store w) h = Some i"
  shows "type = ''operation_started'' \<Longrightarrow> same_identity obj (load_store w ! i) \<Longrightarrow> rt_operation_apply_event type p w = (0, w)"
    and "type = ''operation_result'' \<Longrightarrow> finished (load_store w ! i) \<Longrightarrow> \<not> conflicts obj (load_store w ! i) \<Longrightarrow>
      rt_operation_apply_event type p w = (0, w)"
  using assms
  by (auto simp: rt_operation_apply_event_def rt_operation_is_event_type_def apply_started_def apply_result_def
      get_string_or_empty_def split: prod.split)

lemma op_inv_purge_mem:
  "op_inv st \<Longrightarrow> load_store w' = purge_finished_over_cap w st \<Longrightarrow> h \<in> op_handle ` set (load_store w') \<Longrightarrow>
     x \<in> set st \<Longrightarrow> op_handle x = h \<Longrightarrow> \<exists>i. op_index_of (load_store w') h = Some i \<and> load_store w' ! i = x"
proof -
  assume inv: "op_inv st" and l: "load_store w' = purge_finished_over_cap w st" and h: "h \<in> op_handle ` set (load_store w')"
    and x: "x \<in> set st" "op_handle x = h"
  obtain y where y: "y \<in> set (load_store w')" "op_handle y = h" using h by auto
  have "y = x" using same_handle [OF inv _ x(1)] y x(2) set_purge [of w st] l by auto
  then show ?thesis using op_index_of_mem [OF op_inv_purge [OF inv]] y l by metis
qed

text \<open>
  Replay is harmless: an event that was applied can be applied again and changes nothing,
  as long as the record it made or finished is still in the store (a start's record always is).
\<close>

theorem event_replay:
  assumes "op_reachable w" and "no_nul p" and "rt_operation_apply_event type p w = (0, w')"
    and "json_ref_top_object p = Some obj"
    and "type = ''operation_started'' \<or> get_string_or_empty obj ''handle'' RT_SMALL \<in> op_handle ` set (load_store w')"
  shows "rt_operation_apply_event type p w' = (0, w')"
proof -
  have t: "type = ''operation_started'' \<or> type = ''operation_result''"
    and ok: "fst (json_ref_object_get_string obj ''handle'' RT_SMALL)"
    using assms(3,4)
    by (auto simp: rt_operation_apply_event_def rt_operation_is_event_type_def split: if_splits prod.splits)
  show ?thesis using apply_event_outcome [OF assms(3,2) op_reachable_inv [OF assms(1)]]
  proof cases
    case (2 obj' h base x)
    have obj: "obj' = obj" and hx: "op_handle x = h" using 2(1,4) assms(4) by (auto simp: started_item_def result_item_def)
    note known = apply_event_known [OF assms(4) 2(3) [unfolded obj] 2(2) ok]
    have "x \<in> set (load_store w')" if "type = ''operation_started''"
      using that 2(4,10) running_purge [of x w "base @ [x]"] by (simp add: running_def started_item_def)
    then have "h \<in> op_handle ` set (load_store w')" using assms(5) 2(3) hx obj by (metis imageI)
    then obtain i where i: "op_index_of (load_store w') h = Some i" "load_store w' ! i = x"
      using op_inv_purge_mem [OF 2(9,10)] hx by auto
    show ?thesis using t
    proof
      assume "type = ''operation_started''"
      then show ?thesis using known(1) [OF i(1)] i(2) 2(4) same_identity_started obj by simp
    next
      assume "type = ''operation_result''"
      then show ?thesis using known(2) [OF i(1)] i(2) 2(4) conflicts_result obj by (simp add: finished_def result_item_def)
    qed
  next
    case (3 obj' h i)
    have obj: "obj' = obj" using 3(1) assms(4) by simp
    note i = op_index_of_Some [OF 3(6)]
    have "h \<in> op_handle ` set (load_store w')" using assms(5) 3(3,4) obj by simp
    moreover have "finish_item (load_store w ! i) \<in> set ((load_store w)[i := finish_item (load_store w ! i)])"
      using i by (simp add: set_update_memI)
    ultimately obtain j where j: "op_index_of (load_store w') h = Some j" "load_store w' ! j = finish_item (load_store w ! i)"
      using op_inv_purge_mem [OF 3(9,10), of h "finish_item (load_store w ! i)"] i by force
    show ?thesis
      using apply_event_known(2) [OF assms(4) 3(3) [unfolded obj] 3(2) ok j(1)] t 3(4,7) j(2) obj by simp
  qed (use assms(3) in simp)
qed

section \<open>Completion tokens\<close>

lemma token_fold_zero:
  "length a = length b \<Longrightarrow> fold (\<lambda>(a, b) diff. diff OR (a XOR b)) (zip a b) d = (0::nat) \<longleftrightarrow> d = 0 \<and> a = b"
proof (induction a b arbitrary: d rule: list_induct2)
  case (Cons x xs y ys)
  have "d OR (x XOR y) = 0 \<longleftrightarrow> d = 0 \<and> x = y"
    by (auto simp: bit_eq_iff bit_simps)
  then show ?case using Cons by auto
qed simp

lemma token_diff_zero: "length a = length b \<Longrightarrow> token_diff a b = 0 \<longleftrightarrow> a = b"
  by (simp add: token_diff_def token_fold_zero)

lemma length_token_buffer [simp]: "length (token_buffer s) = RT_OPERATION_TOKEN_HEX + 1"
  by (auto simp: token_buffer_def copy_into_def Let_def)

lemma token_buffer_inj:
  assumes "no_nul s" and "no_nul t" and "token_buffer s = token_buffer t"
  shows "copy_into (RT_OPERATION_TOKEN_HEX + 1) s = copy_into (RT_OPERATION_TOKEN_HEX + 1) t"
proof -
  have "takeWhile (\<lambda>b. b \<noteq> 0) (token_buffer u) = map byte (copy_into (RT_OPERATION_TOKEN_HEX + 1) u)" if "no_nul u" for u
  proof -
    have z: "byte c = 0 \<longleftrightarrow> c = NUL" for c using byte_inject [of c NUL] by (simp add: byte_def del: byte_inject)
    have "NUL \<notin> set (copy_into (RT_OPERATION_TOKEN_HEX + 1) u)"
      using \<open>no_nul u\<close> no_nul_copy_into [of u "RT_OPERATION_TOKEN_HEX + 1"] by (simp only: no_nul_def not_False_eq_True)
    then have "b \<noteq> 0" if "b \<in> set (map byte (copy_into (RT_OPERATION_TOKEN_HEX + 1) u))" for b
      using that z by (metis (no_types, lifting) image_iff list.set_map)
    then show ?thesis by (simp add: token_buffer_def Let_def takeWhile_append2 del: set_map)
  qed
  then have "map byte (copy_into (RT_OPERATION_TOKEN_HEX + 1) s) = map byte (copy_into (RT_OPERATION_TOKEN_HEX + 1) t)"
    using assms by metis
  then show ?thesis by (rule map_injective) (simp add: inj_def)
qed

lemma token_buffer_eq:
  assumes "no_nul s" and "no_nul t" and "length s \<le> RT_OPERATION_TOKEN_HEX"
  shows "token_buffer s = token_buffer t \<longleftrightarrow> s = take RT_OPERATION_TOKEN_HEX t"
proof -
  have s: "copy_into (RT_OPERATION_TOKEN_HEX + 1) s = s" and t: "copy_into (RT_OPERATION_TOKEN_HEX + 1) t = take RT_OPERATION_TOKEN_HEX t"
    using assms(3) by (simp_all add: copy_into_def)
  show ?thesis using token_buffer_inj [OF assms(1,2)] s t by (auto simp: token_buffer_def Let_def)
qed


section \<open>Deadlines\<close>

lemma earliest_loop_bounds:
  assumes "0 \<le> best" and "1 \<le> now"
  shows "0 \<le> earliest_loop st best"
    and "(earliest_loop st best \<noteq> 0 \<and> earliest_loop st best \<le> now) \<longleftrightarrow> (best \<noteq> 0 \<and> best \<le> now) \<or> list_ex (due now) st"
  using assms
  by (induction st best rule: earliest_loop.induct) (auto simp: due_def)

text \<open>
  The sleeping deadline and the list of due operations agree: with room for one identifier,
  the list is non-empty exactly when the earliest deadline is set and has passed, so the loop
  that sleeps until the deadline neither misses a due operation nor wakes up for nothing.
\<close>

theorem deadline_wakes_iff_due:
  assumes "1 \<le> now" and "0 < max_ids"
  shows "rt_operation_list_deadline_due now max_ids w \<noteq> [] \<longleftrightarrow>
    rt_operation_earliest_deadline_ms w \<noteq> 0 \<and> rt_operation_earliest_deadline_ms w \<le> now"
  using earliest_loop_bounds(2) [of 0 now "load_store w"] assms
  by (auto simp: rt_operation_list_deadline_due_def rt_operation_earliest_deadline_ms_def list_ex_iff filter_empty_conv)

end
