(* ===== verification/Operation_Run.thy ===== *)
theory Operation_Run
  imports Operation_Safety
begin

text \<open>
  The operation store run on concrete events: the calls are evaluated on the records, the store
  texts by the round trip. The run instantiates the theorems on the store, and shows which
  record the pruning drops.
\<close>

section \<open>Stores that fit\<close>

lemma item_text_False:
  assumes "item_text False x = Some u"
  shows "item_text True x = Some (tl u)" and "length u < RT_LARGE"
  using assms by (auto simp: item_text_def Let_def split: if_splits)

lemma write_items_fit:
  "list_all (\<lambda>x. item_text False x \<noteq> None) st \<Longrightarrow> length out + length st * RT_LARGE < RT_XL * 2 \<Longrightarrow>
     \<exists>out'. write_items first st out = Some out' \<and> length out' \<le> length out + length st * RT_LARGE"
proof (induction st arbitrary: first out)
  case (Cons x xs)
  obtain u where u: "item_text False x = Some u" using Cons.prems(1) by auto
  obtain v where v: "item_text first x = Some v" "length v \<le> length u" "length v < RT_LARGE"
    using u item_text_False [OF u] by (cases first) auto
  have a: "rt_append_text (RT_XL * 2) out v = Some (out @ v)" using v(3) Cons.prems(2) by (simp add: rt_append_text_def)
  obtain out' where "write_items False xs (out @ v) = Some out'" "length out' \<le> length (out @ v) + length xs * RT_LARGE"
    using Cons.IH [of "out @ v" False] Cons.prems v(3) by auto
  then show ?case using v a by auto
qed simp

lemma small_store_text:
  assumes "list_all (\<lambda>x. item_text False x \<noteq> None) st" and "length st \<le> 31"
  shows "store_text st \<noteq> None"
proof -
  let ?o = \<open>''{"operations":[''\<close>
  have "length ?o + length st * RT_LARGE < RT_XL * 2"
    using assms(2) mult_le_mono1 [of "length st" 31 RT_LARGE] by (simp add: rt_sizes)
  then obtain out where o: "write_items True st ?o = Some out" "length out \<le> length ?o + length st * RT_LARGE"
    using write_items_fit [OF assms(1), of ?o True] by auto
  have l: "length out + 3 < RT_XL * 2" using o(2) assms(2) mult_le_mono1 [of "length st" 31 RT_LARGE] by (simp add: rt_sizes)
  show ?thesis using o(1) l by (simp add: store_text_def rt_append_text_def [of _ "[]"] rt_append_text_def [of _ out] RT_XL_def)
qed

text \<open>
  A store of at most 31 records, each of which fits its 4096-byte buffer, always fits the
  128 KiB text that is written: the write succeeds whenever the disk does.
\<close>

theorem small_store_written:
  assumes "list_all (\<lambda>x. item_text False x \<noteq> None) st" and "length st \<le> 31" and "ow_disk_ok w"
  shows "fst (write_store st w) = 0"
  using small_store_text [OF assms(1,2)] assms(3) by (auto simp: write_store_def)

section \<open>Two operations\<close>

definition world_with :: "string option \<Rightarrow> op_world" where
  "world_with config = \<lparr>ow_state = None, ow_config = config, ow_disk_ok = True\<rparr>"

definition payload_of :: "string \<Rightarrow> string" where
  \<open>payload_of h = ''{"handle":"'' @ h @ ''"}''\<close>

definition bare_item :: "string \<Rightarrow> string \<Rightarrow> operation_item" where
  "bare_item h status = zero_item\<lparr>op_handle := h, op_status := status\<rparr>"

definition payload_ref :: "string \<Rightarrow> json_ref" where
  "payload_ref h = \<lparr>jr_json = payload_of h, jr_start = 0, jr_end = 14, jr_type = JSON_REF_OBJECT\<rparr>"

lemma payloads:
  "json_ref_top_object (payload_of ''a'') = Some (payload_ref ''a'')"
  "json_ref_top_object (payload_of ''b'') = Some (payload_ref ''b'')"
  "json_ref_object_get_string (payload_ref ''a'') ''handle'' RT_SMALL = (True, ''a'')"
  "json_ref_object_get_string (payload_ref ''b'') ''handle'' RT_SMALL = (True, ''b'')"
  by code_simp+

lemma payload_items:
  "started_item (payload_ref ''a'') ''a'' = bare_item ''a'' ''running''"
  "started_item (payload_ref ''b'') ''b'' = bare_item ''b'' ''running''"
  "result_item (payload_ref ''a'') ''a'' = bare_item ''a'' ''finished''"
  "result_item (payload_ref ''b'') ''b'' = bare_item ''b'' ''finished''"
  by code_simp+

lemma bare_items_fit:
  "item_text False (bare_item ''a'' ''running'') \<noteq> None" "item_text False (bare_item ''b'' ''running'') \<noteq> None"
  "item_text False (bare_item ''a'' ''finished'') \<noteq> None" "item_text False (bare_item ''b'' ''finished'') \<noteq> None"
  by code_simp+

lemma bare_item_inv: "record_inv (bare_item ''a'' ''running'')" "record_inv (bare_item ''b'' ''running'')"
  "record_inv (bare_item ''a'' ''finished'')" "record_inv (bare_item ''b'' ''finished'')"
  by (simp_all add: record_inv_def item_ok_def bare_item_def zero_item_def running_def finished_def text_ok_def ref_ok_def
      long_ok_def LLONG_MIN_def LLONG_MAX_def rt_sizes no_nul_def)

lemma write_small:
  assumes "op_inv st" and "list_all (\<lambda>x. item_text False x \<noteq> None) st" and "length st \<le> 31" and "ow_disk_ok w"
  shows "fst (write_store st w) = 0" and "load_store (snd (write_store st w)) = st"
    and "ow_config (snd (write_store st w)) = ow_config w" and "ow_disk_ok (snd (write_store st w))"
proof -
  obtain t where t: "store_text st = Some t" using small_store_text [OF assms(2,3)] by auto
  then show "fst (write_store st w) = 0" "load_store (snd (write_store st w)) = st"
    "ow_config (snd (write_store st w)) = ow_config w" "ow_disk_ok (snd (write_store st w))"
    using assms(4) load_store_text [OF op_inv_store_ok [OF assms(1)] t] by (simp_all add: write_store_def)
qed

text \<open>The four events of the run, each from the store before it.\<close>

definition keep_one_text :: string where
  \<open>keep_one_text = ''{"appliance":{"operations":{"keep_finished":1}}}''\<close>

definition run0 :: op_world where
  "run0 = world_with (Some keep_one_text)"

definition run1 :: op_world where
  "run1 = snd (rt_operation_apply_event ''operation_started'' (payload_of ''a'') run0)"

definition run2 :: op_world where
  "run2 = snd (rt_operation_apply_event ''operation_started'' (payload_of ''b'') run1)"

definition run3 :: op_world where
  "run3 = snd (rt_operation_apply_event ''operation_result'' (payload_of ''b'') run2)"

definition run4 :: op_world where
  "run4 = snd (rt_operation_apply_event ''operation_result'' (payload_of ''a'') run3)"

definition cfg_ref :: "nat \<Rightarrow> nat \<Rightarrow> json_ref" where
  "cfg_ref s e = \<lparr>jr_json = keep_one_text, jr_start = s, jr_end = e, jr_type = JSON_REF_OBJECT\<rparr>"

lemma keep_one_lookup:
  "json_ref_first_object keep_one_text = Some (cfg_ref 0 48)"
  "json_ref_object_get_object (cfg_ref 0 48) ''appliance'' = Some (cfg_ref 13 47)"
  "json_ref_object_get_object (cfg_ref 13 47) ''operations'' = Some (cfg_ref 27 46)"
  "get_long_or 100 (cfg_ref 27 46) ''keep_finished'' = 1"
  "to_int32 1 = 1" "length keep_one_text = 48" "cstr keep_one_text = keep_one_text"
  by code_simp+

lemma keep_one: "keep_finished_cap run0 = 1"
  by (simp add: keep_finished_cap_def run0_def world_with_def fs_read_text_def read_cap_def FS_READ_TEXT_DEFAULT_CAP_def
      keep_one_lookup OPERATION_DEFAULT_KEEP_FINISHED_def)

lemma keep_config: "ow_config w = ow_config run0 \<Longrightarrow> keep_finished_cap w = 1"
  using keep_one by (simp add: keep_finished_cap_def)

lemmas run_eval = rt_operation_apply_event_def rt_operation_is_event_type_def payloads payload_items
  apply_started_def apply_result_def purge_and_write_def op_index_of_def OPERATION_MAX_ITEMS_def

lemma conflicts_bare: "\<not> conflicts r (bare_item h s)"
  by (simp add: conflicts_def bare_item_def zero_item_def)

lemma bare_sel [simp]: "op_handle (bare_item h s) = h" "finished (bare_item h s) \<longleftrightarrow> s = ''finished''"
  "finish_item (bare_item h s) = bare_item h ''finished''"
  by (simp_all add: bare_item_def zero_item_def finished_def finish_item_def)

lemma run0: "load_store run0 = []" "ow_disk_ok run0"
  by (simp_all add: run0_def world_with_def load_store_def fs_read_text_def)

lemma run1: "rt_operation_apply_event ''operation_started'' (payload_of ''a'') run0 = (0, run1)"
  "load_store run1 = [bare_item ''a'' ''running'']" "ow_config run1 = ow_config run0" "ow_disk_ok run1"
  using write_small [of "[bare_item ''a'' ''running'']" run0] bare_items_fit bare_item_inv
  by (simp_all add: run1_def run_eval run0 purge_finished_over_cap_def keep_one op_inv_def prod_eq_iff)

lemma run2: "rt_operation_apply_event ''operation_started'' (payload_of ''b'') run1 = (0, run2)"
  "load_store run2 = [bare_item ''a'' ''running'', bare_item ''b'' ''running'']" "ow_config run2 = ow_config run0" "ow_disk_ok run2"
  using write_small [of "[bare_item ''a'' ''running'', bare_item ''b'' ''running'']" run1] bare_items_fit bare_item_inv run1
  by (simp_all add: run2_def run_eval purge_finished_over_cap_def keep_config op_inv_def prod_eq_iff)

lemma run3: "rt_operation_apply_event ''operation_result'' (payload_of ''b'') run2 = (0, run3)"
  "load_store run3 = [bare_item ''a'' ''running'', bare_item ''b'' ''finished'']" "ow_config run3 = ow_config run0" "ow_disk_ok run3"
  using write_small [of "[bare_item ''a'' ''running'', bare_item ''b'' ''finished'']" run2] bare_items_fit bare_item_inv run2
  by (simp_all add: run3_def run_eval purge_finished_over_cap_def keep_config op_inv_def prod_eq_iff conflicts_bare)

text \<open>
  The record that pruning drops is the first finished one in the table, that is the one
  that started first, not the one that finished first: with \<open>keep_finished\<close> 1, the operation
  \<open>a\<close> started before \<open>b\<close> and finishes after it, and the call that finishes \<open>a\<close> succeeds and
  drops its record at once, so that nothing of it is left to recover from.
\<close>

theorem just_finished_record_pruned:
  "load_store run3 = [bare_item ''a'' ''running'', bare_item ''b'' ''finished''] \<and>
   rt_operation_apply_event ''operation_result'' (payload_of ''a'') run3 = (0, run4) \<and>
   load_store run4 = [bare_item ''b'' ''finished'']"
  using write_small [of "[bare_item ''b'' ''finished'']" run3] bare_items_fit bare_item_inv run3
  by (simp_all add: run4_def run_eval purge_finished_over_cap_def keep_config op_inv_def prod_eq_iff conflicts_bare remove_nth_def)

section \<open>The theorems on the run\<close>

lemma no_nul_payload: "no_nul (payload_of ''a'')" "no_nul (payload_of ''b'')"
  by (simp_all add: payload_of_def no_nul_def)

lemma run_reachable: "op_reachable run1" "op_reachable run2" "op_reachable run3"
proof -
  have "op_reachable run0" by (rule op_reachable.fresh) (simp add: run0_def world_with_def)
  then show r1: "op_reachable run1" by (rule op_reachable.step) (rule op_step.event [OF no_nul_payload(1) run1(1)])
  then show r2: "op_reachable run2" by (rule op_reachable.step) (rule op_step.event [OF no_nul_payload(2) run2(1)])
  then show "op_reachable run3" by (rule op_reachable.step) (rule op_step.event [OF no_nul_payload(2) run3(1)])
qed

theorem operation_store_roundtrip_witness:
  "store_ok [bare_item ''a'' ''running''] \<and>
   load_store (snd (write_store [bare_item ''a'' ''running''] run0)) = [bare_item ''a'' ''running'']"
proof -
  have s: "store_ok [bare_item ''a'' ''running'']" using bare_item_inv by (simp add: store_ok_def record_inv_def OPERATION_MAX_ITEMS_def)
  have "fst (write_store [bare_item ''a'' ''running''] run0) = 0"
    using small_store_text [of "[bare_item ''a'' ''running'']"] bare_items_fit run0 by (auto simp: write_store_def)
  then have "write_store [bare_item ''a'' ''running''] run0 = (0, snd (write_store [bare_item ''a'' ''running''] run0))"
    by (simp add: prod_eq_iff)
  then show ?thesis using operation_store_roundtrip [OF s] s by blast
qed

theorem operation_store_invariant_witness:
  "map op_handle (load_store run3) = [''a'', ''b''] \<and> distinct (map op_handle (load_store run3))"
  using operation_store_invariant [OF run_reachable(3)] run3(2) by simp



theorem event_replay_witness: "rt_operation_apply_event ''operation_result'' (payload_of ''b'') run3 = (0, run3)"
  by (rule event_replay [OF run_reachable(2) no_nul_payload(2) run3(1) payloads(2)])
    (simp add: run3 payloads get_string_or_empty_def cstr_def)

theorem deadline_wakes_iff_due_witness:
  "rt_operation_list_deadline_due 5 1 run3 \<noteq> [] \<and> rt_operation_earliest_deadline_ms run3 = 1"
proof -
  have e: "rt_operation_earliest_deadline_ms run3 = 1"
    by (simp add: rt_operation_earliest_deadline_ms_def run3 running_def) (simp add: bare_item_def zero_item_def)
  show ?thesis using deadline_wakes_iff_due [of 5 1 run3] e by simp
qed

theorem small_store_written_witness: "fst (write_store [bare_item ''a'' ''running''] run0) = 0"
  by (rule small_store_written) (use bare_items_fit run0 in simp_all)

text \<open>A secret bound to the running operation, and the comparison that accepts it.\<close>

definition run3_secret :: op_world where
  "run3_secret = snd (rt_operation_bind_secret ''a'' ''s3cret'' run3)"

lemma secret_fits: "item_text False ((bare_item ''a'' ''running'')\<lparr>op_completion_token := ''s3cret''\<rparr>) \<noteq> None"
  by code_simp

lemma secret_record_inv: "record_inv ((bare_item ''a'' ''running'')\<lparr>op_completion_token := ''s3cret''\<rparr>)"
  using bare_item_inv(1) by (simp add: record_inv_def item_ok_def bare_item_def zero_item_def running_def text_ok_def no_nul_def
      RT_OPERATION_TOKEN_HEX_def)

lemma run3_secret: "rt_operation_bind_secret ''a'' ''s3cret'' run3 = (0, run3_secret)"
  "load_store run3_secret = [(bare_item ''a'' ''running'')\<lparr>op_completion_token := ''s3cret''\<rparr>, bare_item ''b'' ''finished'']"
  using write_small [of "[(bare_item ''a'' ''running'')\<lparr>op_completion_token := ''s3cret''\<rparr>, bare_item ''b'' ''finished'']" run3]
    secret_fits bare_items_fit secret_record_inv bare_item_inv run3
  by (simp_all add: run3_secret_def rt_operation_bind_secret_def update_running_def op_index_of_def op_inv_def prod_eq_iff
      OPERATION_MAX_ITEMS_def RT_OPERATION_TOKEN_HEX_def copy_into_def)


end
