(* ===== verification/Work_State.thy ===== *)
theory Work_State
  imports Rt_Base Json_Object "HOL-Library.Monad_Syntax"
begin

text \<open>
  The ledger of work steps of \<open>runtime/work_state.c\<close>: revisions of a task with their budgets, and
  the steps that were selected in them with the evidence of their results. Every call loads the
  ledger from a JSON file, applies one event, and writes it back.

  \<open>work_env\<close> is what the ledger asks of the other state modules: the current work revision of a
  task with the return code of \<open>rt_task_work_rev_of\<close>, whether the outbox still publishes an
  event, whether \<open>rt_task_work_binding_json\<close> finds a live binding, and which allocations succeed.
  The theorems hold for every such environment. The scratch guard around the static store is
  always free in the single-threaded runtime and is not modelled.
\<close>

section \<open>Records\<close>

definition WORK_STEP_MAX_ITEMS :: nat where
  "WORK_STEP_MAX_ITEMS = 256"

definition WORK_REVISION_MAX_ITEMS :: nat where
  "WORK_REVISION_MAX_ITEMS = 128"

definition WORK_STEP_PROJECT_MAX :: nat where
  "WORK_STEP_PROJECT_MAX = 8"

definition WORK_DETAIL_MAX :: nat where
  "WORK_DETAIL_MAX = 1024"

definition WORK_STATE_SERIALIZED_MAX :: nat where
  "WORK_STATE_SERIALIZED_MAX = 4 * 1024 * 1024"

definition RT_WORK_SEMANTIC_STEP_LIMIT :: int where
  "RT_WORK_SEMANTIC_STEP_LIMIT = 8"

definition RT_WORK_REPAIR_ATTEMPT_LIMIT :: int where
  "RT_WORK_REPAIR_ATTEMPT_LIMIT = 8"

lemmas work_sizes = WORK_STEP_MAX_ITEMS_def WORK_REVISION_MAX_ITEMS_def WORK_DETAIL_MAX_def
  WORK_STATE_SERIALIZED_MAX_def RT_WORK_SEMANTIC_STEP_LIMIT_def RT_WORK_REPAIR_ATTEMPT_LIMIT_def

record work_step =
  wk_context_id :: string
  wk_task_id :: string
  wk_work_rev :: int
  wk_request_id :: string
  wk_action :: string
  wk_trigger_event_id :: string
  wk_selected_args :: string
  wk_handle :: string
  wk_status :: string
  wk_selected_event_id :: string
  wk_started_event_id :: string
  wk_result_event_id :: string
  wk_result_kind :: string
  wk_terminal_event_id :: string
  wk_terminal_kind :: string
  wk_repair_state :: string
  wk_detail :: string
  wk_terminal_detail :: string

record work_revision =
  wr_context_id :: string
  wr_task_id :: string
  wr_work_rev :: int
  wr_parent_work_rev :: int
  wr_lineage_root_rev :: int
  wr_semantic_steps :: int
  wr_repair_attempts :: int
  wr_request_id :: string
  wr_action :: string
  wr_trigger_event_id :: string
  wr_selected_event_id :: string

record work_store =
  ws_revisions :: "work_revision list"
  ws_items :: "work_step list"

record work_env =
  we_task_rev :: "string \<Rightarrow> int \<times> int"
  we_pending :: "string \<Rightarrow> int"
  we_live_binding :: "string \<Rightarrow> string \<Rightarrow> int \<Rightarrow> bool"
  we_malloc_ok :: "nat \<Rightarrow> bool"

definition zero_revision :: work_revision where
  "zero_revision = \<lparr>wr_context_id = [], wr_task_id = [], wr_work_rev = 0, wr_parent_work_rev = 0, wr_lineage_root_rev = 0,
     wr_semantic_steps = 0, wr_repair_attempts = 0, wr_request_id = [], wr_action = [], wr_trigger_event_id = [],
     wr_selected_event_id = []\<rparr>"

definition zero_step :: work_step where
  "zero_step = \<lparr>wk_context_id = [], wk_task_id = [], wk_work_rev = 0, wk_request_id = [], wk_action = [],
     wk_trigger_event_id = [], wk_selected_args = [], wk_handle = [], wk_status = [], wk_selected_event_id = [],
     wk_started_event_id = [], wk_result_event_id = [], wk_result_kind = [], wk_terminal_event_id = [],
     wk_terminal_kind = [], wk_repair_state = [], wk_detail = [], wk_terminal_detail = []\<rparr>"

definition empty_store :: work_store where
  "empty_store = \<lparr>ws_revisions = [], ws_items = []\<rparr>"

section \<open>Loading\<close>

definition in_range :: "int \<Rightarrow> int \<Rightarrow> int \<Rightarrow> int option" where
  "in_range lo hi v = (if v < lo \<or> v > hi then None else Some v)"

definition load_revision :: "json_ref \<Rightarrow> work_revision option" where
  "load_revision item =
     do {
       task_id \<leftarrow> get_string item ''task_id'' RT_SMALL;
       work_rev \<leftarrow> json_ref_object_get_long item ''work_rev'';
       _ \<leftarrow> (if work_rev \<le> 0 then None else Some ());
       root \<leftarrow> json_ref_object_get_long item ''lineage_root_rev'';
       _ \<leftarrow> (if root \<le> 0 then None else Some ());
       steps \<leftarrow> json_ref_object_get_long item ''semantic_steps'';
       steps \<leftarrow> in_range 0 RT_WORK_SEMANTIC_STEP_LIMIT steps;
       repairs \<leftarrow>
         (case json_ref_object_get item ''repair_attempts'' of
            None \<Rightarrow> Some 0
          | Some _ \<Rightarrow>
              (case json_ref_object_get_long item ''repair_attempts'' of
                 None \<Rightarrow> None
               | Some n \<Rightarrow> in_range 0 RT_WORK_REPAIR_ATTEMPT_LIMIT n));
       Some \<lparr>wr_context_id = get_string_or_empty item ''context_id'' RT_MED, wr_task_id = task_id, wr_work_rev = work_rev,
         wr_parent_work_rev = get_long_or 0 item ''parent_work_rev'', wr_lineage_root_rev = root,
         wr_semantic_steps = steps, wr_repair_attempts = repairs,
         wr_request_id = get_string_or_empty item ''request_id'' RT_SMALL,
         wr_action = get_string_or_empty item ''action'' RT_SMALL,
         wr_trigger_event_id = get_string_or_empty item ''trigger_event_id'' RT_SMALL,
         wr_selected_event_id = get_string_or_empty item ''selected_event_id'' RT_SMALL\<rparr>
     }"

text \<open>One bad revision fails the whole load.\<close>

fun load_revisions :: "json_ref \<Rightarrow> nat list \<Rightarrow> work_revision list \<Rightarrow> work_revision list option" where
  "load_revisions revisions [] acc = Some acc"
| "load_revisions revisions (i # is) acc =
     (case json_ref_array_get revisions i of
        None \<Rightarrow> None
      | Some item \<Rightarrow>
          if jr_type item \<noteq> JSON_REF_OBJECT then None
          else
            (case load_revision item of
               None \<Rightarrow> None
             | Some r \<Rightarrow> load_revisions revisions is (acc @ [r])))"

definition load_step :: "json_ref \<Rightarrow> work_step option" where
  "load_step item =
     do {
       task_id \<leftarrow> get_string item ''task_id'' RT_SMALL;
       work_rev \<leftarrow> json_ref_object_get_long item ''work_rev'';
       _ \<leftarrow> (if work_rev \<le> 0 then None else Some ());
       request_id \<leftarrow> get_string item ''request_id'' RT_SMALL;
       _ \<leftarrow> (if request_id = [] then None else Some ());
       Some \<lparr>wk_context_id = get_string_or_empty item ''context_id'' RT_MED, wk_task_id = task_id, wk_work_rev = work_rev,
         wk_request_id = request_id, wk_action = get_string_or_empty item ''action'' RT_SMALL,
         wk_trigger_event_id = get_string_or_empty item ''trigger_event_id'' RT_SMALL,
         wk_selected_args = get_string_or_empty item ''selected_args'' WORK_DETAIL_MAX,
         wk_handle = get_string_or_empty item ''handle'' RT_SMALL,
         wk_status = get_string_or_empty item ''status'' RT_SMALL,
         wk_selected_event_id = get_string_or_empty item ''selected_event_id'' RT_SMALL,
         wk_started_event_id = get_string_or_empty item ''started_event_id'' RT_SMALL,
         wk_result_event_id = get_string_or_empty item ''result_event_id'' RT_SMALL,
         wk_result_kind = get_string_or_empty item ''result_kind'' RT_SMALL,
         wk_terminal_event_id = get_string_or_empty item ''terminal_event_id'' RT_SMALL,
         wk_terminal_kind = get_string_or_empty item ''terminal_kind'' RT_SMALL,
         wk_repair_state = (let s = get_string_or_empty item ''repair_state'' RT_SMALL in if s = [] then ''none'' else s),
         wk_detail = get_string_or_empty item ''detail'' WORK_DETAIL_MAX,
         wk_terminal_detail = get_string_or_empty item ''terminal_detail'' WORK_DETAIL_MAX\<rparr>
     }"

text \<open>A bad step is skipped.\<close>

fun load_steps :: "json_ref \<Rightarrow> nat list \<Rightarrow> work_step list" where
  "load_steps steps [] = []"
| "load_steps steps (i # is) =
     (case json_ref_array_get steps i of
        None \<Rightarrow> load_steps steps is
      | Some item \<Rightarrow>
          if jr_type item \<noteq> JSON_REF_OBJECT then load_steps steps is
          else (case load_step item of None \<Rightarrow> load_steps steps is | Some x \<Rightarrow> x # load_steps steps is))"

text \<open>The file is \<open>None\<close> when it cannot be read; the result is \<open>None\<close> when the load fails.\<close>

definition load_work_store :: "string option \<Rightarrow> work_store option" where
  "load_work_store file =
     (case fs_read_text file FS_READ_TEXT_DEFAULT_CAP of
        None \<Rightarrow> Some empty_store
      | Some doc \<Rightarrow>
          do {
            root \<leftarrow> json_ref_top_object doc;
            steps \<leftarrow> json_ref_object_get_array root ''steps'';
            revs \<leftarrow>
              (case json_ref_object_get_array root ''revisions'' of
                 None \<Rightarrow> Some []
               | Some revisions \<Rightarrow>
                   if json_ref_array_size revisions > WORK_REVISION_MAX_ITEMS then None
                   else load_revisions revisions [0..<json_ref_array_size revisions] []);
            if json_ref_array_size steps > WORK_STEP_MAX_ITEMS then None
            else Some \<lparr>ws_revisions = revs, ws_items = load_steps steps [0..<json_ref_array_size steps]\<rparr>
          })"

section \<open>Writing\<close>

definition append_escaped_field :: "nat \<Rightarrow> string \<Rightarrow> string \<Rightarrow> string \<Rightarrow> string option" where
  "append_escaped_field out_len out name value =
     (case json_escape value (WORK_DETAIL_MAX * 6 + 1) of (ok, escaped) \<Rightarrow>
        if \<not> ok then None
        else
          (let prefix = [DQ] @ name @ [DQ, CHR '':'', DQ] in
           if length prefix \<ge> RT_SMALL then None
           else
             do {
               o1 \<leftarrow> rt_append_text out_len out prefix;
               o2 \<leftarrow> rt_append_text out_len o1 escaped;
               rt_append_text out_len o2 [DQ]
             }))"

text \<open>Fields with commas between them.\<close>

fun append_fields :: "nat \<Rightarrow> string \<Rightarrow> (string \<times> string) list \<Rightarrow> string option" where
  "append_fields out_len out [] = Some out"
| "append_fields out_len out [(name, v)] = append_escaped_field out_len out name v"
| "append_fields out_len out ((name, v) # f # fs) =
     do {
       o1 \<leftarrow> append_escaped_field out_len out name v;
       o2 \<leftarrow> rt_append_text out_len o1 '','';
       append_fields out_len o2 (f # fs)
     }"

text \<open>The unchecked \<open>snprintf\<close> of the numbers into 128 and 96 bytes.\<close>

definition revision_numbers :: "work_revision \<Rightarrow> string" where
  \<open>revision_numbers r =
     copy_into 128 ('',"work_rev":'' @ show_int (wr_work_rev r) @ '',"parent_work_rev":'' @ show_int (wr_parent_work_rev r) @
       '',"lineage_root_rev":'' @ show_int (wr_lineage_root_rev r) @ '',"semantic_steps":'' @ show_int (wr_semantic_steps r) @
       '',"repair_attempts":'' @ show_int (wr_repair_attempts r) @ '','')\<close>

definition step_numbers :: "work_step \<Rightarrow> string" where
  \<open>step_numbers x = copy_into 96 ('',"work_rev":'' @ show_int (wk_work_rev x) @ '','')\<close>

definition write_revision :: "nat \<Rightarrow> bool \<Rightarrow> work_revision \<Rightarrow> string \<Rightarrow> string option" where
  "write_revision out_len first r out =
     do {
       o1 \<leftarrow> (if first then Some out else rt_append_text out_len out '','');
       o2 \<leftarrow> rt_append_text out_len o1 ''{'';
       o3 \<leftarrow> append_fields out_len o2 [(''context_id'', wr_context_id r), (''task_id'', wr_task_id r)];
       o4 \<leftarrow> rt_append_text out_len o3 (revision_numbers r);
       o5 \<leftarrow> append_fields out_len o4 [(''request_id'', wr_request_id r), (''action'', wr_action r),
         (''trigger_event_id'', wr_trigger_event_id r), (''selected_event_id'', wr_selected_event_id r)];
       rt_append_text out_len o5 ''}''
     }"

definition write_step :: "nat \<Rightarrow> bool \<Rightarrow> work_step \<Rightarrow> string \<Rightarrow> string option" where
  "write_step out_len first x out =
     do {
       o1 \<leftarrow> (if first then Some out else rt_append_text out_len out '','');
       o2 \<leftarrow> rt_append_text out_len o1 ''{'';
       o3 \<leftarrow> append_fields out_len o2 [(''context_id'', wk_context_id x), (''task_id'', wk_task_id x)];
       o4 \<leftarrow> rt_append_text out_len o3 (step_numbers x);
       o5 \<leftarrow> append_fields out_len o4 [(''request_id'', wk_request_id x), (''action'', wk_action x),
         (''trigger_event_id'', wk_trigger_event_id x), (''selected_args'', wk_selected_args x),
         (''handle'', wk_handle x), (''status'', wk_status x), (''selected_event_id'', wk_selected_event_id x),
         (''started_event_id'', wk_started_event_id x), (''result_event_id'', wk_result_event_id x),
         (''result_kind'', wk_result_kind x), (''terminal_event_id'', wk_terminal_event_id x),
         (''terminal_kind'', wk_terminal_kind x), (''repair_state'', wk_repair_state x), (''detail'', wk_detail x),
         (''terminal_detail'', wk_terminal_detail x)];
       rt_append_text out_len o5 ''}''
     }"

fun write_list :: "(bool \<Rightarrow> 'a \<Rightarrow> string \<Rightarrow> string option) \<Rightarrow> bool \<Rightarrow> 'a list \<Rightarrow> string \<Rightarrow> string option" where
  "write_list wr first [] out = Some out"
| "write_list wr first (x # xs) out = (case wr first x out of None \<Rightarrow> None | Some out' \<Rightarrow> write_list wr False xs out')"

definition work_store_text :: "work_store \<Rightarrow> string option" where
  \<open>work_store_text st =
     do {
       o1 \<leftarrow> rt_append_text WORK_STATE_SERIALIZED_MAX [] ''{"revisions":['';
       o2 \<leftarrow> write_list (write_revision WORK_STATE_SERIALIZED_MAX) True (ws_revisions st) o1;
       o3 \<leftarrow> rt_append_text WORK_STATE_SERIALIZED_MAX o2 ''],"steps":['';
       o4 \<leftarrow> write_list (write_step WORK_STATE_SERIALIZED_MAX) True (ws_items st) o3;
       rt_append_text WORK_STATE_SERIALIZED_MAX o4 ('']}'' @ [CHR 0x0A])
     }\<close>

text \<open>The result code and the file; \<open>disk_ok\<close> covers the allocation, the directory and the atomic write.\<close>

definition write_work_store :: "bool \<Rightarrow> work_store \<Rightarrow> string option \<Rightarrow> int \<times> string option" where
  "write_work_store disk_ok st file =
     (if \<not> disk_ok then (- 1, file)
      else (case work_store_text st of None \<Rightarrow> (- 1, file) | Some doc \<Rightarrow> (0, Some doc)))"

end
