(* ===== verification/Work_Reducer.thy ===== *)
theory Work_Reducer
  imports Work_State
begin

text \<open>
  The reducer of \<open>runtime/work_state.c\<close>: \<open>apply_to_store\<close> applies one event to a loaded ledger.
  It returns the code's result with the ledger as it is left, also on an error: the rebuild goes
  on with that ledger, the live path does not write it.
\<close>

section \<open>Lookup and eviction\<close>

definition step_index :: "work_store \<Rightarrow> string \<Rightarrow> int \<Rightarrow> string \<Rightarrow> nat option" where
  "step_index st task_id work_rev request_id =
     find_index (\<lambda>x. wk_work_rev x = work_rev \<and> wk_task_id x = task_id \<and> wk_request_id x = request_id) (ws_items st)"

definition step_result_index :: "work_store \<Rightarrow> string \<Rightarrow> int \<Rightarrow> string \<Rightarrow> nat option" where
  "step_result_index st task_id work_rev result_event_id =
     find_index (\<lambda>x. wk_work_rev x = work_rev \<and> wk_task_id x = task_id \<and> wk_result_event_id x = result_event_id) (ws_items st)"

definition revision_index :: "work_store \<Rightarrow> string \<Rightarrow> int \<Rightarrow> nat option" where
  "revision_index st task_id work_rev =
     find_index (\<lambda>r. wr_work_rev r = work_rev \<and> wr_task_id r = task_id) (ws_revisions st)"

text \<open>A revision that is not the current one of its task.\<close>

definition revision_stale :: "work_env \<Rightarrow> work_revision \<Rightarrow> bool" where
  "revision_stale env r \<longleftrightarrow> (case we_task_rev env (wr_task_id r) of (rc, current) \<Rightarrow> rc \<noteq> 0 \<or> current \<noteq> wr_work_rev r)"

text \<open>The full table makes room by dropping its first stale revision. The new one is the last of the result.\<close>

definition make_room :: "nat \<Rightarrow> ('a \<Rightarrow> bool) \<Rightarrow> 'a list \<Rightarrow> 'a list option" where
  "make_room max_items evictable xs =
     (if length xs \<ge> max_items
      then (case find_index evictable xs of None \<Rightarrow> None | Some evict \<Rightarrow> Some (remove_nth evict xs))
      else Some xs)"

definition add_revision :: "work_env \<Rightarrow> work_store \<Rightarrow> string \<Rightarrow> int \<Rightarrow> work_store option" where
  "add_revision env st task_id work_rev =
     (case make_room WORK_REVISION_MAX_ITEMS (revision_stale env) (ws_revisions st) of
        None \<Rightarrow> None
      | Some rs \<Rightarrow>
          Some (st\<lparr>ws_revisions := rs @
            [zero_revision\<lparr>wr_task_id := copy_into RT_SMALL task_id, wr_work_rev := work_rev, wr_lineage_root_rev := work_rev\<rparr>]\<rparr>))"

definition step_is_current_live :: "work_env \<Rightarrow> work_step \<Rightarrow> bool" where
  "step_is_current_live env x =
     (if wk_result_event_id x \<noteq> [] \<and> we_pending env (wk_result_event_id x) \<noteq> 0 then True
      else if wk_terminal_event_id x \<noteq> [] \<and> we_pending env (wk_terminal_event_id x) \<noteq> 0 then True
      else if wk_context_id x = [] then False
      else if \<not> we_malloc_ok env RT_XL then True
      else we_live_binding env (wk_context_id x) (wk_task_id x) (wk_work_rev x))"

definition add_step :: "work_env \<Rightarrow> work_store \<Rightarrow> work_step \<Rightarrow> work_store option" where
  "add_step env st x =
     (case make_room WORK_STEP_MAX_ITEMS (\<lambda>y. \<not> step_is_current_live env y) (ws_items st) of
        None \<Rightarrow> None
      | Some xs \<Rightarrow> Some (st\<lparr>ws_items := xs @ [x]\<rparr>))"

text \<open>The record that \<open>add_step\<close> hands out.\<close>

definition fresh_step :: work_step where
  "fresh_step = zero_step\<lparr>wk_repair_state := ''none''\<rparr>"

section \<open>Details\<close>

definition truncated_marker :: string where
  \<open>truncated_marker = ''{"truncated":true,"source":"event_log"}''\<close>

definition detail_text :: "nat \<Rightarrow> string option \<Rightarrow> string" where
  "detail_text out_len compact =
     (case compact of
        None \<Rightarrow> []
      | Some c \<Rightarrow> copy_into out_len (if length (cstr c) \<ge> out_len then truncated_marker else cstr c))"

definition value_detail :: "work_env \<Rightarrow> json_ref \<Rightarrow> string \<Rightarrow> nat \<Rightarrow> string" where
  "value_detail env payload key out_len =
     (case json_ref_object_get payload key of
        None \<Rightarrow> []
      | Some v \<Rightarrow> detail_text out_len (json_ref_value_compact_dup (we_malloc_ok env) v))"

definition payload_detail :: "work_env \<Rightarrow> string \<Rightarrow> nat \<Rightarrow> string" where
  "payload_detail env payload_json out_len =
     (case json_ref_from_text payload_json of
        None \<Rightarrow> []
      | Some v \<Rightarrow> detail_text out_len (json_ref_value_compact_dup (we_malloc_ok env) v))"

section \<open>Revision events\<close>

text \<open>The identity a controller revision must carry: parent, request, action and trigger.\<close>

definition controller_fields :: "json_ref \<Rightarrow> (int \<times> string \<times> string \<times> string) option" where
  "controller_fields payload =
     do {
       parent_rev \<leftarrow> json_ref_object_get_long payload ''parent_work_rev'';
       request_id \<leftarrow> get_string payload ''request_id'' RT_SMALL;
       action \<leftarrow> get_string payload ''action'' RT_SMALL;
       trigger \<leftarrow> get_string payload ''trigger_event_id'' RT_SMALL;
       Some (parent_rev, request_id, action, trigger)
     }"

definition known_revision :: "json_ref \<Rightarrow> string \<Rightarrow> string \<Rightarrow> int \<Rightarrow> work_revision \<Rightarrow> int" where
  "known_revision payload origin context_id work_rev r =
     (if wr_context_id r \<noteq> context_id then - 1
      else if origin = ''controller'' then
        (case controller_fields payload of
           None \<Rightarrow> - 1
         | Some (parent_rev, request_id, action, trigger) \<Rightarrow>
             if wr_parent_work_rev r = parent_rev \<and> wr_request_id r = request_id \<and> wr_action r = action \<and>
                wr_trigger_event_id r = trigger then 0 else - 1)
      else if wr_parent_work_rev r = 0 \<and> wr_lineage_root_rev r = work_rev then 0 else - 1)"

text \<open>Replacing the record that was just added at the end.\<close>

definition set_last_revision :: "work_revision \<Rightarrow> work_store \<Rightarrow> work_store" where
  "set_last_revision r st = st\<lparr>ws_revisions := (ws_revisions st)[length (ws_revisions st) - 1 := r]\<rparr>"

definition carried_step :: "string \<Rightarrow> string \<Rightarrow> int \<Rightarrow> string \<Rightarrow> string \<Rightarrow> string \<Rightarrow> work_step \<Rightarrow> work_step" where
  "carried_step context_id task_id work_rev request_id action trigger parent_step =
     fresh_step\<lparr>wk_context_id := context_id, wk_task_id := task_id, wk_work_rev := work_rev, wk_request_id := request_id,
       wk_action := action, wk_trigger_event_id := trigger, wk_selected_event_id := wk_selected_event_id parent_step,
       wk_selected_args := wk_selected_args parent_step, wk_repair_state := wk_repair_state parent_step,
       wk_status := ''revised''\<rparr>"

text \<open>The parent revision and the step that causes the new revision, when every identity check passes.\<close>

definition controller_parent ::
  "work_store \<Rightarrow> json_ref \<Rightarrow> string \<Rightarrow> string \<Rightarrow> int \<Rightarrow> (int \<times> string \<times> string \<times> string \<times> work_revision \<times> work_step) option" where
  "controller_parent st payload task_id context_id work_rev =
     (case controller_fields payload of
        None \<Rightarrow> None
      | Some (parent_rev, request_id, action, trigger) \<Rightarrow>
          if parent_rev \<le> 0 \<or> work_rev \<noteq> parent_rev + 1 \<or> request_id = [] \<or> action \<noteq> ''work'' \<or> trigger = [] then None
          else
            (case revision_index st task_id parent_rev of
               None \<Rightarrow> None
             | Some parent_idx \<Rightarrow>
                 let parent = ws_revisions st ! parent_idx in
                 if wr_context_id parent \<noteq> context_id \<or> wr_request_id parent \<noteq> request_id \<or> wr_action parent \<noteq> action \<or>
                    wr_trigger_event_id parent \<noteq> trigger then None
                 else
                   (case step_index st task_id parent_rev request_id of
                      None \<Rightarrow> None
                    | Some parent_step_idx \<Rightarrow>
                        let parent_step = ws_items st ! parent_step_idx in
                        if wk_selected_event_id parent_step = [] \<or> wk_context_id parent_step \<noteq> context_id \<or>
                           wk_action parent_step \<noteq> action \<or> wk_trigger_event_id parent_step \<noteq> trigger then None
                        else Some (parent_rev, request_id, action, trigger, parent, parent_step))))"

definition inherited_revision ::
  "string \<Rightarrow> int \<Rightarrow> string \<Rightarrow> string \<Rightarrow> string \<Rightarrow> work_revision \<Rightarrow> work_step \<Rightarrow> work_revision \<Rightarrow> work_revision" where
  "inherited_revision context_id parent_rev request_id action trigger parent parent_step r =
     r\<lparr>wr_context_id := context_id, wr_parent_work_rev := parent_rev, wr_lineage_root_rev := wr_lineage_root_rev parent,
       wr_semantic_steps := wr_semantic_steps parent, wr_repair_attempts := wr_repair_attempts parent,
       wr_request_id := request_id, wr_action := action, wr_trigger_event_id := trigger,
       wr_selected_event_id := wk_selected_event_id parent_step\<rparr>"

definition apply_controller_revision ::
  "work_env \<Rightarrow> work_store \<Rightarrow> json_ref \<Rightarrow> string \<Rightarrow> string \<Rightarrow> int \<Rightarrow> int \<times> work_store" where
  "apply_controller_revision env st payload task_id context_id work_rev =
     (case controller_parent st payload task_id context_id work_rev of
        None \<Rightarrow> (- 1, st)
      | Some (parent_rev, request_id, action, trigger, parent, parent_step) \<Rightarrow>
          (case add_revision env st task_id work_rev of
             None \<Rightarrow> (- 1, st)
           | Some st1 \<Rightarrow>
               let st2 = set_last_revision (inherited_revision context_id parent_rev request_id action trigger parent parent_step
                     (last (ws_revisions st1))) st1 in
               if step_index st2 task_id work_rev request_id \<noteq> None then (0, st2)
               else
                 (case add_step env st2 (carried_step context_id task_id work_rev request_id action trigger parent_step) of
                    None \<Rightarrow> (- 1, st2)
                  | Some st3 \<Rightarrow> (0, st3))))"

definition apply_revision_event ::
  "work_env \<Rightarrow> work_store \<Rightarrow> string \<Rightarrow> string \<Rightarrow> json_ref \<Rightarrow> int \<times> work_store" where
  "apply_revision_event env st ctx_context type payload =
     (case get_string payload ''task_id'' RT_SMALL of
        None \<Rightarrow> (- 1, st)
      | Some task_id \<Rightarrow>
          if task_id = [] then (- 1, st)
          else if type = ''task_created'' \<and> get_string payload ''kind'' RT_SMALL \<noteq> Some ''work'' then (0, st)
          else if type = ''task_updated'' \<and> get_long_or 0 payload ''work_rev'' \<le> 0 then (0, st)
          else if type \<noteq> ''task_created'' \<and> type \<noteq> ''task_updated'' then (0, st)
          else
            (let work_rev = get_long_or (if type = ''task_created'' then 1 else 0) payload ''work_rev'';
                 context0 = get_string_or_empty payload ''context_id'' RT_MED;
                 context_id = (if context0 = [] then copy_into RT_MED ctx_context else context0);
                 origin = (if type = ''task_updated'' then get_string_or_empty payload ''revision_origin'' RT_SMALL else [])
             in if work_rev \<le> 0 then (- 1, st)
                else
                  (case revision_index st task_id work_rev of
                     Some idx \<Rightarrow> (known_revision payload origin context_id work_rev (ws_revisions st ! idx), st)
                   | None \<Rightarrow>
                       if origin = ''controller'' then apply_controller_revision env st payload task_id context_id work_rev
                       else
                         (case add_revision env st task_id work_rev of
                            None \<Rightarrow> (- 1, st)
                          | Some st1 \<Rightarrow>
                              (0, set_last_revision ((last (ws_revisions st1))\<lparr>wr_context_id := context_id,
                                 wr_lineage_root_rev := work_rev, wr_semantic_steps := 0, wr_repair_attempts := 0\<rparr>) st1)))))"

definition rt_work_state_is_event_type :: "string \<Rightarrow> bool" where
  "rt_work_state_is_event_type type \<longleftrightarrow>
     type \<in> {''task_created'', ''task_updated'', ''action_request'', ''action_started'', ''action_succeeded'', ''action_failed'',
       ''action_rejected'', ''operation_started'', ''operation_result'', ''work_completed'', ''work_blocked''}"

section \<open>Selections\<close>

text \<open>The members of the payload that identify a step.\<close>

record work_event =
  ev_task_id :: string
  ev_request_id :: string
  ev_action :: string
  ev_trigger :: string
  ev_context :: string
  ev_work_rev :: int

definition read_event :: "string \<Rightarrow> json_ref \<Rightarrow> work_event" where
  "read_event ctx_context payload =
     \<lparr>ev_task_id = get_string_or_empty payload ''task_id'' RT_SMALL,
      ev_request_id = get_string_or_empty payload ''request_id'' RT_SMALL,
      ev_action = get_string_or_empty payload ''action'' RT_SMALL,
      ev_trigger = get_string_or_empty payload ''trigger_event_id'' RT_SMALL,
      ev_context = (let c = get_string_or_empty payload ''context_id'' RT_MED in
        if c = [] then copy_into RT_MED ctx_context else c),
      ev_work_rev = get_long_or 0 payload ''work_rev''\<rparr>"

definition repairable :: "work_step \<Rightarrow> bool" where
  "repairable x \<longleftrightarrow> wk_result_kind x = ''action_failed'' \<or> wk_result_kind x = ''action_rejected''"

definition selected_step :: "work_env \<Rightarrow> work_event \<Rightarrow> json_ref \<Rightarrow> string \<Rightarrow> bool \<Rightarrow> work_step" where
  "selected_step env e payload event_id repair =
     fresh_step\<lparr>wk_context_id := ev_context e, wk_task_id := ev_task_id e, wk_work_rev := ev_work_rev e,
       wk_request_id := ev_request_id e, wk_action := ev_action e, wk_trigger_event_id := ev_trigger e,
       wk_selected_args := value_detail env payload ''args'' WORK_DETAIL_MAX, wk_status := ''selected'',
       wk_repair_state := (if repair then ''repair_attempt'' else ''none''),
       wk_selected_event_id := copy_into RT_SMALL event_id\<rparr>"

definition count_selection :: "work_event \<Rightarrow> string \<Rightarrow> work_revision \<Rightarrow> work_revision" where
  "count_selection e event_id r =
     r\<lparr>wr_semantic_steps := wr_semantic_steps r + 1, wr_request_id := ev_request_id e, wr_action := ev_action e,
       wr_trigger_event_id := ev_trigger e, wr_selected_event_id := copy_into RT_SMALL event_id\<rparr>"

text \<open>The revision of a selection, made on demand; \<open>None\<close> is the code's \<open>return -1\<close>.\<close>

definition selection_revision :: "work_env \<Rightarrow> work_store \<Rightarrow> work_event \<Rightarrow> (nat \<times> work_store) option" where
  "selection_revision env st e =
     (case revision_index st (ev_task_id e) (ev_work_rev e) of
        None \<Rightarrow>
          (case add_revision env st (ev_task_id e) (ev_work_rev e) of
             None \<Rightarrow> None
           | Some st1 \<Rightarrow>
               Some (length (ws_revisions st1) - 1,
                 set_last_revision ((last (ws_revisions st1))\<lparr>wr_context_id := ev_context e,
                   wr_lineage_root_rev := ev_work_rev e\<rparr>) st1))
      | Some ri \<Rightarrow> if wr_context_id (ws_revisions st ! ri) \<noteq> ev_context e then None else Some (ri, st))"

text \<open>The repair that a selection triggered by a failed or rejected step counts; \<open>None\<close> when the budget is used up.\<close>

definition count_repair :: "work_store \<Rightarrow> nat \<Rightarrow> work_event \<Rightarrow> (bool \<times> work_store) option" where
  "count_repair st ri e =
     (case step_result_index st (ev_task_id e) (ev_work_rev e) (ev_trigger e) of
        None \<Rightarrow> Some (False, st)
      | Some si \<Rightarrow>
          if \<not> repairable (ws_items st ! si) then Some (False, st)
          else if wr_repair_attempts (ws_revisions st ! ri) \<ge> RT_WORK_REPAIR_ATTEMPT_LIMIT then None
          else
            Some (True, st\<lparr>
              ws_revisions := (ws_revisions st)[ri := (ws_revisions st ! ri)
                \<lparr>wr_repair_attempts := wr_repair_attempts (ws_revisions st ! ri) + 1\<rparr>],
              ws_items := (ws_items st)[si := (ws_items st ! si)\<lparr>wk_repair_state := ''repair_selected''\<rparr>]\<rparr>))"

definition apply_action_request ::
  "work_env \<Rightarrow> work_store \<Rightarrow> work_event \<Rightarrow> json_ref \<Rightarrow> string \<Rightarrow> int \<times> work_store" where
  "apply_action_request env st e payload event_id =
     (if ev_trigger e = [] then (0, st)
      else
        (case step_index st (ev_task_id e) (ev_work_rev e) (ev_request_id e) of
           Some idx \<Rightarrow>
             (let x = ws_items st ! idx in
              if wk_action x = ev_action e \<and> wk_context_id x = ev_context e \<and> wk_trigger_event_id x = ev_trigger e \<and>
                 wk_selected_event_id x = event_id then (0, st) else (- 1, st))
         | None \<Rightarrow>
             (case selection_revision env st e of
                None \<Rightarrow> (- 1, st)
              | Some (ri, st1) \<Rightarrow>
                  (case count_repair st1 ri e of
                     None \<Rightarrow> (- 1, st1)
                   | Some (repair, st2) \<Rightarrow>
                       if wr_semantic_steps (ws_revisions st2 ! ri) \<ge> RT_WORK_SEMANTIC_STEP_LIMIT then (- 1, st2)
                       else
                         (case add_step env st2 (selected_step env e payload event_id repair) of
                            None \<Rightarrow> (- 1, st2)
                          | Some st3 \<Rightarrow>
                              (0, st3\<lparr>ws_revisions := (ws_revisions st3)[ri := count_selection e event_id (ws_revisions st3 ! ri)]\<rparr>))))))"

section \<open>Evidence\<close>

text \<open>
  A string member read into a field that already has content: a failed copy leaves the bytes it
  decoded in front of the rest of the old content.
\<close>

definition read_over :: "string \<Rightarrow> json_ref \<Rightarrow> string \<Rightarrow> nat \<Rightarrow> string" where
  "read_over old payload key n =
     (case json_ref_object_get_string payload key n of (ok, s) \<Rightarrow>
        if ok then cstr s else cstr (s @ drop (length s) old))"

definition is_terminal_type :: "string \<Rightarrow> bool" where
  "is_terminal_type type \<longleftrightarrow> type = ''work_completed'' \<or> type = ''work_blocked''"

definition terminal_evidence :: "work_env \<Rightarrow> string \<Rightarrow> json_ref \<Rightarrow> string \<Rightarrow> work_step \<Rightarrow> work_step" where
  "terminal_evidence env type payload event_id x =
     (let x1 = x\<lparr>wk_terminal_event_id := copy_into RT_SMALL event_id, wk_terminal_kind := type,
            wk_status := (if type = ''work_completed'' then ''completed'' else ''blocked''),
            wk_terminal_detail := value_detail env payload
              (if type = ''work_completed'' then ''summary'' else ''blocker'') WORK_DETAIL_MAX\<rparr>
      in if wk_result_event_id x1 = []
         then x1\<lparr>wk_result_event_id := copy_into RT_SMALL event_id, wk_result_kind := type, wk_detail := wk_terminal_detail x1\<rparr>
         else x1)"

definition failed_repair_state :: "work_step \<Rightarrow> string" where
  "failed_repair_state x = (if wk_repair_state x = ''repair_attempt'' then ''repair_failed'' else ''repair_available'')"

definition result_evidence :: "work_env \<Rightarrow> string \<Rightarrow> json_ref \<Rightarrow> string \<Rightarrow> string \<Rightarrow> work_step \<Rightarrow> work_step" where
  "result_evidence env type payload payload_json event_id x =
     (let x1 = x\<lparr>wk_result_event_id := copy_into RT_SMALL event_id, wk_result_kind := type\<rparr> in
      if type = ''action_succeeded'' then
        x1\<lparr>wk_status := ''succeeded'', wk_detail := value_detail env payload ''result'' WORK_DETAIL_MAX\<rparr>
      else if type = ''action_failed'' then
        x1\<lparr>wk_status := ''failed'', wk_repair_state := failed_repair_state x1,
           wk_detail := payload_detail env payload_json WORK_DETAIL_MAX\<rparr>
      else if type = ''action_rejected'' then
        x1\<lparr>wk_status := ''rejected'', wk_repair_state := failed_repair_state x1,
           wk_detail := payload_detail env payload_json WORK_DETAIL_MAX\<rparr>
      else
        x1\<lparr>wk_handle := read_over (wk_handle x1) payload ''handle'' RT_SMALL, wk_status := ''finished'',
           wk_detail := value_detail env payload ''text'' WORK_DETAIL_MAX\<rparr>)"

text \<open>The part of \<open>apply_to_store\<close> that works on one step, after the identity checks.\<close>

definition apply_evidence ::
  "work_env \<Rightarrow> string \<Rightarrow> json_ref \<Rightarrow> string \<Rightarrow> string \<Rightarrow> work_step \<Rightarrow> int \<times> work_step" where
  "apply_evidence env type payload payload_json event_id x =
     (if type = ''action_started'' then
        (if wk_started_event_id x \<noteq> [] \<and> wk_started_event_id x \<noteq> event_id then (- 1, x)
         else (0, x\<lparr>wk_status := (if wk_result_event_id x = [] then ''started'' else wk_status x),
                    wk_started_event_id := copy_into RT_SMALL event_id\<rparr>))
      else if type = ''operation_started'' then
        (let handle = get_string_or_empty payload ''handle'' RT_SMALL in
         if wk_handle x \<noteq> [] \<and> wk_handle x \<noteq> handle then (- 1, x)
         else (0, x\<lparr>wk_handle := handle, wk_status := (if wk_result_event_id x = [] then ''running'' else wk_status x)\<rparr>))
      else if type = ''action_succeeded'' \<and>
          get_string_or_empty payload ''continuation'' RT_SMALL \<in> {''managed_operation'', ''work_terminal''} then (0, x)
      else if get_string payload ''source_event_id'' RT_SMALL \<noteq> Some event_id then (0, x)
      else if is_terminal_type type then
        (if wk_terminal_event_id x \<noteq> [] then
           ((if wk_terminal_event_id x = event_id \<and> wk_terminal_kind x = type then 0 else - 1), x)
         else (0, terminal_evidence env type payload event_id x))
      else if wk_result_event_id x \<noteq> [] then
        ((if wk_result_event_id x = event_id \<and> wk_result_kind x = type then 0 else - 1), x)
      else (0, result_evidence env type payload payload_json event_id x))"

text \<open>A step that was selected accepts only events of its own context and trigger, and of its own action.\<close>

definition evidence_mismatch :: "work_event \<Rightarrow> work_step \<Rightarrow> bool" where
  "evidence_mismatch e x \<longleftrightarrow>
     (wk_selected_event_id x \<noteq> [] \<and>
        (wk_context_id x \<noteq> ev_context e \<or> ev_trigger e = [] \<or> wk_trigger_event_id x \<noteq> ev_trigger e)) \<or>
     (ev_action e \<noteq> [] \<and> wk_action x \<noteq> [] \<and> ev_action e \<noteq> wk_action x)"

definition apply_to_step ::
  "work_env \<Rightarrow> string \<Rightarrow> work_event \<Rightarrow> json_ref \<Rightarrow> string \<Rightarrow> string \<Rightarrow> work_step \<Rightarrow> int \<times> work_step" where
  "apply_to_step env type e payload payload_json event_id x =
     (if evidence_mismatch e x then (- 1, x)
      else
        apply_evidence env type payload payload_json event_id
          (if ev_action e \<noteq> [] \<and> wk_action x = [] then x\<lparr>wk_action := ev_action e\<rparr> else x))"

definition apply_step_at ::
  "work_env \<Rightarrow> string \<Rightarrow> work_event \<Rightarrow> json_ref \<Rightarrow> string \<Rightarrow> string \<Rightarrow> nat \<Rightarrow> work_store \<Rightarrow> int \<times> work_store" where
  "apply_step_at env type e payload payload_json event_id idx st =
     (case apply_to_step env type e payload payload_json event_id (ws_items st ! idx) of
        (rc, x) \<Rightarrow> (rc, st\<lparr>ws_items := (ws_items st)[idx := x]\<rparr>))"

definition stale_step :: "work_event \<Rightarrow> work_step" where
  "stale_step e =
     fresh_step\<lparr>wk_context_id := ev_context e, wk_task_id := ev_task_id e, wk_work_rev := ev_work_rev e,
       wk_request_id := ev_request_id e, wk_action := ev_action e, wk_status := ''stale_result''\<rparr>"

text \<open>An event whose step is not in the ledger.\<close>

definition apply_without_step ::
  "work_env \<Rightarrow> string \<Rightarrow> work_event \<Rightarrow> json_ref \<Rightarrow> string \<Rightarrow> string \<Rightarrow> work_store \<Rightarrow> int \<times> work_store" where
  "apply_without_step env type e payload payload_json event_id st =
     (if type = ''operation_result'' then
        (case we_task_rev env (ev_task_id e) of (rc, current_rev) \<Rightarrow>
           if rc \<noteq> 0 \<or> current_rev = ev_work_rev e then (0, st)
           else
             (case add_step env st (stale_step e) of
                None \<Rightarrow> (0, st)
              | Some st1 \<Rightarrow> apply_step_at env type e payload payload_json event_id (length (ws_items st1) - 1) st1))
      else if ev_trigger e = [] \<and> type \<in> {''action_started'', ''action_succeeded'', ''action_failed'', ''action_rejected''} then (0, st)
      else (- 1, st))"

definition apply_step_event ::
  "work_env \<Rightarrow> string \<Rightarrow> work_event \<Rightarrow> json_ref \<Rightarrow> string \<Rightarrow> string \<Rightarrow> work_store \<Rightarrow> int \<times> work_store" where
  "apply_step_event env type e payload payload_json event_id st =
     (if ev_task_id e = [] \<or> ev_work_rev e \<le> 0 \<or> ev_request_id e = [] then (0, st)
      else if is_terminal_type type \<and> ev_trigger e = [] then (0, st)
      else if type = ''operation_started'' \<and> ev_trigger e = [] then (0, st)
      else if type = ''action_request'' then apply_action_request env st e payload event_id
      else
        (case step_index st (ev_task_id e) (ev_work_rev e) (ev_request_id e) of
           Some idx \<Rightarrow> apply_step_at env type e payload payload_json event_id idx st
         | None \<Rightarrow> apply_without_step env type e payload payload_json event_id st))"

definition apply_to_store ::
  "work_env \<Rightarrow> work_store \<Rightarrow> string \<Rightarrow> string \<Rightarrow> string \<Rightarrow> string \<Rightarrow> int \<times> work_store" where
  "apply_to_store env st ctx_context type payload_json event_id =
     (if \<not> rt_work_state_is_event_type type \<or> event_id = [] then (- 1, st)
      else
        (case json_ref_top_object payload_json of
           None \<Rightarrow> (- 1, st)
         | Some payload \<Rightarrow>
             if type = ''task_created'' \<or> type = ''task_updated'' then apply_revision_event env st ctx_context type payload
             else apply_step_event env type (read_event ctx_context payload) payload payload_json event_id st))"

section \<open>The live path\<close>

text \<open>The file of the ledger and whether writing it succeeds.\<close>

record work_world =
  ww_file :: "string option"
  ww_disk_ok :: bool

definition rt_work_state_apply_event ::
  "work_env \<Rightarrow> string \<Rightarrow> string \<Rightarrow> string \<Rightarrow> string \<Rightarrow> work_world \<Rightarrow> int \<times> work_world" where
  "rt_work_state_apply_event env ctx_context type payload_json event_id w =
     (if \<not> rt_work_state_is_event_type type \<or> event_id = [] then (- 1, w)
      else
        (case json_ref_top_object payload_json of
           None \<Rightarrow> (- 1, w)
         | Some payload \<Rightarrow>
             (let e = read_event ctx_context payload in
              if (if type = ''task_created'' \<or> type = ''task_updated'' then ev_task_id e = []
                  else ev_task_id e = [] \<or> ev_work_rev e \<le> 0 \<or> ev_request_id e = []) then (0, w)
              else
                (case load_work_store (ww_file w) of
                   None \<Rightarrow> (- 1, w)
                 | Some st \<Rightarrow>
                     (case apply_to_store env st ctx_context type payload_json event_id of (rc, st1) \<Rightarrow>
                        if rc \<noteq> 0 then (rc, w)
                        else
                          (case write_work_store (ww_disk_ok w) st1 (ww_file w) of
                             (wrc, file) \<Rightarrow> (wrc, w\<lparr>ww_file := file\<rparr>)))))))"

end
