(* ===== verification/Work_Query.thy ===== *)
theory Work_Query
  imports Work_Reducer
begin

text \<open>
  What the rest of the runtime reads from the work ledger of \<open>runtime/work_state.c\<close>: the JSON
  projections for prompts, the budget snapshot, the repair disposition and the checks that a wake
  belongs to a recorded result; and the rebuild of the ledger from the event logs at start-up.
  The allocation of the rebuild's own buffers is taken to succeed, and the sort of the runs keeps
  the order of runs with the same number, which \<open>qsort\<close> leaves open. A return value \<open>-1\<close> is
  \<open>None\<close> where the call yields a text or a record.
\<close>

section \<open>Projections\<close>

definition comma_field :: "nat \<Rightarrow> string \<Rightarrow> string \<Rightarrow> string \<Rightarrow> string option" where
  "comma_field out_len out name v = do { o1 \<leftarrow> rt_append_text out_len out '',''; append_escaped_field out_len o1 name v }"

definition when_set :: "string \<Rightarrow> (string \<Rightarrow> string option) \<Rightarrow> string \<Rightarrow> string option" where
  "when_set v f out = (if v \<noteq> [] then f out else Some out)"

definition project_step :: "nat \<Rightarrow> bool \<Rightarrow> work_step \<Rightarrow> string \<Rightarrow> string option" where
  "project_step out_len first x out =
     do {
       o1 \<leftarrow> (if first then Some out else rt_append_text out_len out '','');
       o2 \<leftarrow> rt_append_text out_len o1 ''{'';
       o3 \<leftarrow> append_fields out_len o2 [(''request_id'', wk_request_id x), (''action'', wk_action x),
         (''trigger_event_id'', wk_trigger_event_id x), (''selected_args'', wk_selected_args x), (''status'', wk_status x),
         (''repair_state'', wk_repair_state x)];
       o4 \<leftarrow> when_set (wk_handle x) (\<lambda>p. comma_field out_len p ''handle'' (wk_handle x)) o3;
       o5 \<leftarrow> comma_field out_len o4 ''selected_event_id'' (wk_selected_event_id x);
       o6 \<leftarrow> when_set (wk_result_event_id x) (\<lambda>p.
         do {
           p1 \<leftarrow> comma_field out_len p ''result_event_id'' (wk_result_event_id x);
           p2 \<leftarrow> comma_field out_len p1 ''result_kind'' (wk_result_kind x);
           comma_field out_len p2 ''detail'' (wk_detail x)
         }) o5;
       o7 \<leftarrow> when_set (wk_terminal_event_id x) (\<lambda>p.
         do {
           p1 \<leftarrow> comma_field out_len p ''terminal_event_id'' (wk_terminal_event_id x);
           p2 \<leftarrow> comma_field out_len p1 ''terminal_kind'' (wk_terminal_kind x);
           comma_field out_len p2 ''terminal_detail'' (wk_terminal_detail x)
         }) o6;
       rt_append_text out_len o7 ''}''
     }"

text \<open>The last steps of one revision, at most eight.\<close>

definition matching_steps :: "work_store \<Rightarrow> string \<Rightarrow> int \<Rightarrow> work_step list" where
  "matching_steps st task_id work_rev =
     (let ms = filter (\<lambda>x. wk_work_rev x = work_rev \<and> wk_task_id x = task_id) (ws_items st)
      in drop (length ms - WORK_STEP_PROJECT_MAX) ms)"

definition projection_prefix :: "string \<Rightarrow> int \<Rightarrow> int \<Rightarrow> int \<Rightarrow> int \<Rightarrow> int \<Rightarrow> string" where
  \<open>projection_prefix etask work_rev root steps repairs max_repairs =
     copy_into (RT_MED + 192)
       (''{"task_id":"'' @ etask @ ''","work_rev":'' @ show_int work_rev @ '',"lineage_root_rev":'' @ show_int root @
        '',"semantic_steps_used":'' @ show_int steps @ '',"semantic_steps_max":'' @ show_int RT_WORK_SEMANTIC_STEP_LIMIT @
        '',"semantic_steps_remaining":'' @ show_int (RT_WORK_SEMANTIC_STEP_LIMIT - steps) @
        '',"repair_attempts_used":'' @ show_int repairs @ '',"repair_attempts_max":'' @ show_int max_repairs @
        '',"repair_attempts_remaining":'' @ show_int (if repairs < max_repairs then max_repairs - repairs else 0) @
        '',"steps":['')\<close>

definition rt_work_state_projection_json ::
  "string option \<Rightarrow> string \<Rightarrow> int \<Rightarrow> int \<Rightarrow> nat \<Rightarrow> string option" where
  "rt_work_state_projection_json file task_id work_rev max_repairs out_len =
     (if task_id = [] \<or> work_rev \<le> 0 \<or> max_repairs < 0 \<or> max_repairs > RT_WORK_REPAIR_ATTEMPT_LIMIT \<or> out_len = 0 then None
      else
        (case json_escape task_id RT_MED of (ok, etask) \<Rightarrow>
           if \<not> ok then None
           else
             do {
               st \<leftarrow> load_work_store file;
               (root, steps, repairs) \<leftarrow>
                 Some (case revision_index st task_id work_rev of
                    None \<Rightarrow> (work_rev, 0, 0)
                  | Some ri \<Rightarrow> (wr_lineage_root_rev (ws_revisions st ! ri), wr_semantic_steps (ws_revisions st ! ri),
                      wr_repair_attempts (ws_revisions st ! ri)));
               o1 \<leftarrow> rt_append_text out_len [] (projection_prefix etask work_rev root steps repairs max_repairs);
               o2 \<leftarrow> write_list (project_step out_len) True (matching_steps st task_id work_rev) o1;
               rt_append_text out_len o2 '']}''
             }))"

definition evidence_ref :: "nat \<Rightarrow> bool \<Rightarrow> work_step \<Rightarrow> string \<Rightarrow> string option" where
  "evidence_ref out_len first x out =
     do {
       o1 \<leftarrow> (if first then Some out else rt_append_text out_len out '','');
       o2 \<leftarrow> rt_append_text out_len o1 ''{'';
       o3 \<leftarrow> append_fields out_len o2 [(''request_id'', wk_request_id x), (''action'', wk_action x),
         (''selected_event_id'', wk_selected_event_id x)];
       o4 \<leftarrow> when_set (wk_result_event_id x) (\<lambda>p. comma_field out_len p ''result_event_id'' (wk_result_event_id x)) o3;
       o5 \<leftarrow> when_set (wk_terminal_event_id x) (\<lambda>p. comma_field out_len p ''terminal_event_id'' (wk_terminal_event_id x)) o4;
       rt_append_text out_len o5 ''}''
     }"

definition rt_work_state_evidence_refs_json :: "string option \<Rightarrow> string \<Rightarrow> int \<Rightarrow> nat \<Rightarrow> string option" where
  "rt_work_state_evidence_refs_json file task_id work_rev out_len =
     (if task_id = [] \<or> work_rev \<le> 0 \<or> out_len = 0 then None
      else
        do {
          st \<leftarrow> load_work_store file;
          o1 \<leftarrow> rt_append_text out_len [] ''['';
          o2 \<leftarrow> write_list (evidence_ref out_len) True (matching_steps st task_id work_rev) o1;
          rt_append_text out_len o2 '']''
        })"

section \<open>Budgets and results\<close>

record work_budget_snapshot =
  wb_context_id :: string
  wb_task_id :: string
  wb_work_rev :: int
  wb_lineage_root_rev :: int
  wb_semantic_steps :: int
  wb_repair_attempts :: int
  wb_request_id :: string
  wb_action :: string
  wb_trigger_event_id :: string

text \<open>The outer \<open>None\<close> is \<open>-1\<close>, the inner one the code 1 for an unknown revision.\<close>

definition rt_work_state_budget_snapshot :: "string option \<Rightarrow> string \<Rightarrow> int \<Rightarrow> work_budget_snapshot option option" where
  "rt_work_state_budget_snapshot file task_id work_rev =
     (if task_id = [] \<or> work_rev \<le> 0 then None
      else
        map_option (\<lambda>st. map_option (\<lambda>ri. let r = ws_revisions st ! ri in
            \<lparr>wb_context_id = wr_context_id r, wb_task_id = wr_task_id r, wb_work_rev = wr_work_rev r,
             wb_lineage_root_rev = wr_lineage_root_rev r, wb_semantic_steps = wr_semantic_steps r,
             wb_repair_attempts = wr_repair_attempts r, wb_request_id = wr_request_id r, wb_action = wr_action r,
             wb_trigger_event_id = wr_trigger_event_id r\<rparr>)
          (revision_index st task_id work_rev)) (load_work_store file))"

definition rt_work_state_repair_disposition :: "string option \<Rightarrow> string \<Rightarrow> int \<Rightarrow> string \<Rightarrow> string \<Rightarrow> int \<Rightarrow> int" where
  "rt_work_state_repair_disposition file task_id work_rev request_id source_event_id max_repairs =
     (if task_id = [] \<or> work_rev \<le> 0 \<or> request_id = [] \<or> max_repairs < 0 \<or> max_repairs > RT_WORK_REPAIR_ATTEMPT_LIMIT then - 1
      else
        (case load_work_store file of
           None \<Rightarrow> - 1
         | Some st \<Rightarrow>
             (case (step_index st task_id work_rev request_id, revision_index st task_id work_rev) of
                (Some idx, Some ri) \<Rightarrow>
                  if source_event_id \<noteq> [] \<and> wk_result_event_id (ws_items st ! idx) \<noteq> source_event_id then - 1
                  else if repairable (ws_items st ! idx) then
                    (if wr_repair_attempts (ws_revisions st ! ri) \<ge> max_repairs then 2 else 1)
                  else 0
              | _ \<Rightarrow> - 1)))"

text \<open>The revisions a controller made out of one step.\<close>

definition child_of :: "string \<Rightarrow> int \<Rightarrow> string \<Rightarrow> string \<Rightarrow> work_step \<Rightarrow> work_revision \<Rightarrow> bool" where
  "child_of task_id work_rev request_id action x r \<longleftrightarrow>
     wr_task_id r = task_id \<and> wr_parent_work_rev r = work_rev \<and> wr_request_id r = request_id \<and> wr_action r = action \<and>
     wr_trigger_event_id r = wk_trigger_event_id x \<and> wr_selected_event_id r = wk_selected_event_id x"

definition wake_kind_matches :: "string \<Rightarrow> work_step \<Rightarrow> bool" where
  "wake_kind_matches wake_type x \<longleftrightarrow>
     (wake_type = ''operation_result'' \<and> wk_result_kind x = ''operation_result'') \<or>
     (wake_type = ''work_step_result'' \<and> wk_result_kind x \<in> {''action_succeeded'', ''action_failed'', ''action_rejected''})"

text \<open>The return code and the effective revision.\<close>

definition rt_work_state_result_matches ::
  "string option \<Rightarrow> string \<Rightarrow> int \<Rightarrow> string \<Rightarrow> string \<Rightarrow> string \<Rightarrow> string \<Rightarrow> int \<times> int" where
  "rt_work_state_result_matches file task_id work_rev request_id action source_event_id wake_type =
     (if task_id = [] \<or> work_rev \<le> 0 \<or> request_id = [] \<or> source_event_id = [] \<or> action = [] then (- 1, work_rev)
      else
        (case load_work_store file of
           None \<Rightarrow> (- 1, work_rev)
         | Some st \<Rightarrow>
             (case step_index st task_id work_rev request_id of
                None \<Rightarrow> (0, work_rev)
              | Some idx \<Rightarrow>
                  let x = ws_items st ! idx in
                  if wk_selected_event_id x = [] \<or> wk_trigger_event_id x = [] \<or> action \<noteq> wk_action x \<or>
                     source_event_id \<noteq> wk_result_event_id x \<or> \<not> wake_kind_matches wake_type x then (0, work_rev)
                  else if action \<noteq> ''work'' then (1, work_rev)
                  else
                    (case filter (child_of task_id work_rev request_id action x) (ws_revisions st) of
                       [] \<Rightarrow> (1, work_rev)
                     | [r] \<Rightarrow> (1, wr_work_rev r)
                     | _ \<Rightarrow> (- 1, work_rev)))))"

definition outcome_kind_matches :: "string \<Rightarrow> string \<Rightarrow> bool" where
  "outcome_kind_matches status kind \<longleftrightarrow>
     (status = ''completed'' \<and> kind = ''work_completed'') \<or> (status = ''blocked'' \<and> kind = ''work_blocked'')"

definition rt_work_state_outcome_matches :: "work_env \<Rightarrow> string option \<Rightarrow> string \<Rightarrow> string \<Rightarrow> string \<Rightarrow> int" where
  "rt_work_state_outcome_matches env file event_kind event_payload_json ctx_context =
     (if event_kind \<noteq> ''work_outcome'' then 0
      else
        (case (do {
             payload \<leftarrow> json_ref_top_object event_payload_json;
             task_id \<leftarrow> get_string payload ''task_id'' RT_SMALL;
             work_rev \<leftarrow> json_ref_object_get_long payload ''work_rev'';
             request_id \<leftarrow> get_string payload ''request_id'' RT_SMALL;
             action \<leftarrow> get_string payload ''action'' RT_SMALL;
             source_event_id \<leftarrow> get_string payload ''source_event_id'' RT_SMALL;
             context_id \<leftarrow> get_string payload ''context_id'' RT_MED;
             status \<leftarrow> get_string payload ''status'' RT_SMALL;
             Some (task_id, work_rev, request_id, action, source_event_id, context_id, status)
           }) of
           None \<Rightarrow> 0
         | Some (task_id, work_rev, request_id, action, source_event_id, context_id, status) \<Rightarrow>
             if context_id \<noteq> ctx_context then 0
             else
               (case we_task_rev env task_id of (current, current_rev) \<Rightarrow>
                  if (current = 0 \<and> current_rev \<noteq> work_rev) \<or> (current \<noteq> 0 \<and> status \<noteq> ''completed'') then 0
                  else
                    (case load_work_store file of
                       None \<Rightarrow> - 1
                     | Some st \<Rightarrow>
                         (case step_index st task_id work_rev request_id of
                            None \<Rightarrow> 0
                          | Some idx \<Rightarrow>
                              let x = ws_items st ! idx;
                                  terminal_event = (if wk_terminal_event_id x \<noteq> [] then wk_terminal_event_id x else wk_result_event_id x);
                                  terminal_kind = (if wk_terminal_kind x \<noteq> [] then wk_terminal_kind x else wk_result_kind x)
                              in if wk_selected_event_id x \<noteq> [] \<and> wk_trigger_event_id x \<noteq> [] \<and> wk_context_id x = context_id \<and>
                                   wk_action x = action \<and> terminal_event = source_event_id \<and>
                                   outcome_kind_matches status terminal_kind
                                 then 1 else 0)))))"

section \<open>Rebuilding from the logs\<close>

definition WORK_REBUILD_RUN_CAP :: nat where
  "WORK_REBUILD_RUN_CAP = 4096"

text \<open>
  \<open>sscanf(name, "run_%d", &number)\<close>: the prefix, white space, a sign and digits; a value that does
  not fit is converted to \<open>int\<close> as by a cast.
\<close>

definition scan_run_number :: "string \<Rightarrow> int option" where
  "scan_run_number name =
     (if take 4 name \<noteq> ''run_'' then None
      else (case strtoll name 4 of (n, scan, ok) \<Rightarrow> if scan = 4 then None else Some (to_int32 n)))"

text \<open>The offset of the first smallest run number.\<close>

fun min_run_from :: "(int \<times> string) list \<Rightarrow> nat \<Rightarrow> nat list \<Rightarrow> nat" where
  "min_run_from runs m [] = m"
| "min_run_from runs m (k # ks) = min_run_from runs (if fst (runs ! k) < fst (runs ! m) then k else m) ks"

definition min_run :: "(int \<times> string) list \<Rightarrow> nat" where
  "min_run runs = min_run_from runs 0 [1..<length runs]"

text \<open>One directory entry: the runs kept so far, at most \<open>cap\<close> of them, and the index of the smallest.\<close>

definition keep_run :: "nat \<Rightarrow> string \<Rightarrow> (int \<times> string) list \<times> nat \<Rightarrow> (int \<times> string) list \<times> nat" where
  "keep_run cap name = (\<lambda>(runs, m).
     (case scan_run_number name of
        None \<Rightarrow> (runs, m)
      | Some number \<Rightarrow>
          if number < 1 then (runs, m)
          else if length runs < cap then
            (runs @ [(number, copy_into RT_SMALL name)], if runs = [] \<or> number < fst (runs ! m) then length runs else m)
          else if number \<le> fst (runs ! m) then (runs, m)
          else (let runs' = runs[m := (number, copy_into RT_SMALL name)] in (runs', min_run runs'))))"

definition kept_runs :: "nat \<Rightarrow> string list \<Rightarrow> (int \<times> string) list" where
  "kept_runs cap names = fst (fold (keep_run cap) names ([], 0))"

definition rebuild_context :: "string option \<Rightarrow> string" where
  "rebuild_context runstate =
     (case fs_read_text runstate FS_READ_TEXT_DEFAULT_CAP of
        None \<Rightarrow> []
      | Some doc \<Rightarrow>
          (case json_ref_top_object doc of None \<Rightarrow> [] | Some root \<Rightarrow> get_string_or_empty root ''context_id'' RT_MED))"

text \<open>The event of one committed log line: its type, its identifier and its payload.\<close>

definition log_event :: "string \<Rightarrow> (string \<times> string \<times> string) option" where
  "log_event line =
     do {
       event \<leftarrow> json_ref_top_object line;
       type \<leftarrow> get_string event ''type'' RT_SMALL;
       _ \<leftarrow> (if rt_work_state_is_event_type type then Some () else None);
       event_id \<leftarrow> get_string event ''event_id'' RT_SMALL;
       payload \<leftarrow> json_ref_object_get_object event ''payload'';
       payload_json \<leftarrow> json_ref_value_copy payload RT_XL;
       Some (type, event_id, payload_json)
     }"

text \<open>The ledger with the number of skipped events.\<close>

definition replay_line :: "work_env \<Rightarrow> string \<Rightarrow> string \<Rightarrow> work_store \<times> nat \<Rightarrow> work_store \<times> nat" where
  "replay_line env context_id line = (\<lambda>(st, skipped).
     (case log_event line of
        None \<Rightarrow> (st, skipped)
      | Some (type, event_id, payload_json) \<Rightarrow>
          (case apply_to_store env st context_id type payload_json event_id of
             (rc, st1) \<Rightarrow> (st1, if rc \<noteq> 0 then Suc skipped else skipped))))"

text \<open>The committed lines of a log: each ends in a newline, a torn tail is not one.\<close>

function log_lines :: "string \<Rightarrow> string list" where
  "log_lines text =
     (if CHR 0x0A \<notin> set text then []
      else
        (let line = takeWhile (\<lambda>c. c \<noteq> CHR 0x0A) text
         in line # log_lines (drop (Suc (length line)) text)))"
  by pat_completeness auto
termination
  by (relation "measure length") (simp, metis diff_less length_drop length_pos_if_in_set zero_less_Suc in_measure)

declare log_lines.simps [simp del]

text \<open>The run directory as the rebuild finds it, and the two files it reads of each run.\<close>

datatype runs_dir = Runs_Missing | Runs_Unreadable | Runs_Listed "string list"

record rebuild_fs =
  rb_runs :: runs_dir
  rb_runstate :: "string \<Rightarrow> string option"
  rb_log :: "string \<Rightarrow> string option"

definition replay_run :: "work_env \<Rightarrow> rebuild_fs \<Rightarrow> string \<Rightarrow> work_store \<times> nat \<Rightarrow> work_store \<times> nat" where
  "replay_run env fs name acc =
     (case fs_read_text (rb_log fs name) FS_READ_TEXT_DEFAULT_CAP of
        None \<Rightarrow> acc
      | Some text \<Rightarrow> fold (replay_line env (rebuild_context (rb_runstate fs name))) (log_lines text) acc)"

definition rebuild_store :: "work_env \<Rightarrow> rebuild_fs \<Rightarrow> string list \<Rightarrow> work_store \<Rightarrow> work_store \<times> nat" where
  "rebuild_store env fs names st =
     fold (\<lambda>(number, name). replay_run env fs name) (sort_key fst (kept_runs WORK_REBUILD_RUN_CAP names)) (st, 0)"

definition rt_work_state_rebuild_from_logs :: "work_env \<Rightarrow> rebuild_fs \<Rightarrow> work_world \<Rightarrow> int \<times> work_world" where
  "rt_work_state_rebuild_from_logs env fs w =
     (case load_work_store (ww_file w) of
        None \<Rightarrow> (- 1, w)
      | Some st \<Rightarrow>
          (case rb_runs fs of
             Runs_Unreadable \<Rightarrow> (- 1, w)
           | Runs_Missing \<Rightarrow>
               (case write_work_store (ww_disk_ok w) st (ww_file w) of (rc, file) \<Rightarrow> (rc, w\<lparr>ww_file := file\<rparr>))
           | Runs_Listed names \<Rightarrow>
               (case write_work_store (ww_disk_ok w) (fst (rebuild_store env fs names st)) (ww_file w) of
                  (rc, file) \<Rightarrow> (rc, w\<lparr>ww_file := file\<rparr>))))"

end
