(* ===== verification/Work_Laws.thy ===== *)
theory Work_Laws
  imports Work_Query
begin

text \<open>
  The work ledger under its reducer: the invariant of the ledger, that budgets only grow and are
  inherited along a lineage, that evidence is written once, and that live records are never
  evicted.
\<close>

section \<open>Making room\<close>

lemma make_room_cases:
  assumes "make_room n P xs = Some ys" and "0 < n" and "length xs \<le> n"
  shows "length ys < n" and "set ys \<subseteq> set xs" and "x \<in> set xs \<Longrightarrow> \<not> P x \<Longrightarrow> x \<in> set ys"
    and "distinct (map f xs) \<Longrightarrow> distinct (map f ys)"
proof -
  consider "length xs < n" "ys = xs" | i where "find_index P xs = Some i" "ys = remove_nth i xs" "length xs = n"
    using assms by (fastforce simp: make_room_def split: if_splits option.splits)
  then have "length ys < n \<and> set ys \<subseteq> set xs \<and> (x \<in> set xs \<longrightarrow> \<not> P x \<longrightarrow> x \<in> set ys) \<and> (distinct (map f xs) \<longrightarrow> distinct (map f ys))"
  proof cases
    case (2 i)
    note i = find_index_SomeD [OF 2(1)]
    have "xs = take i xs @ xs ! i # drop (Suc i) xs" using i by (simp add: id_take_nth_drop)
    then have "x \<in> set xs \<Longrightarrow> x \<noteq> xs ! i \<Longrightarrow> x \<in> set ys" unfolding 2(2) remove_nth_def by (metis Un_iff set_ConsD set_append)
    then show ?thesis using 2 i assms(2) set_remove_nth_subset [of i xs] distinct_map_remove_nth [of f xs i] by auto
  qed simp
  then show "length ys < n" and "set ys \<subseteq> set xs" and "x \<in> set xs \<Longrightarrow> \<not> P x \<Longrightarrow> x \<in> set ys"
    and "distinct (map f xs) \<Longrightarrow> distinct (map f ys)" by blast+
qed

section \<open>The invariant\<close>

definition rev_key :: "work_revision \<Rightarrow> string \<times> int" where
  "rev_key r = (wr_task_id r, wr_work_rev r)"

definition step_key :: "work_step \<Rightarrow> string \<times> int \<times> string" where
  "step_key x = (wk_task_id x, wk_work_rev x, wk_request_id x)"

definition revision_inv :: "work_revision \<Rightarrow> bool" where
  "revision_inv r \<longleftrightarrow>
     wr_task_id r \<noteq> [] \<and> 0 < wr_work_rev r \<and>
     0 \<le> wr_semantic_steps r \<and> wr_semantic_steps r \<le> RT_WORK_SEMANTIC_STEP_LIMIT \<and>
     0 \<le> wr_repair_attempts r \<and> wr_repair_attempts r \<le> RT_WORK_REPAIR_ATTEMPT_LIMIT \<and>
     (wr_parent_work_rev r = 0 \<and> wr_lineage_root_rev r = wr_work_rev r \<or>
      0 < wr_parent_work_rev r \<and> wr_work_rev r = wr_parent_work_rev r + 1 \<and>
      0 < wr_lineage_root_rev r \<and> wr_lineage_root_rev r \<le> wr_parent_work_rev r)"

definition step_inv :: "work_step \<Rightarrow> bool" where
  "step_inv x \<longleftrightarrow>
     wk_task_id x \<noteq> [] \<and> 0 < wk_work_rev x \<and> wk_request_id x \<noteq> [] \<and>
     (wk_result_event_id x = [] \<longleftrightarrow> wk_result_kind x = []) \<and>
     (wk_terminal_event_id x = [] \<longleftrightarrow> wk_terminal_kind x = []) \<and>
     (wk_terminal_event_id x \<noteq> [] \<longrightarrow> wk_result_event_id x \<noteq> [])"

definition ledger_inv :: "work_store \<Rightarrow> bool" where
  "ledger_inv st \<longleftrightarrow>
     list_all revision_inv (ws_revisions st) \<and> length (ws_revisions st) \<le> WORK_REVISION_MAX_ITEMS \<and>
     distinct (map rev_key (ws_revisions st)) \<and>
     list_all step_inv (ws_items st) \<and> length (ws_items st) \<le> WORK_STEP_MAX_ITEMS \<and>
     distinct (map step_key (ws_items st))"

lemma work_max_pos [simp]: "0 < WORK_REVISION_MAX_ITEMS" "0 < WORK_STEP_MAX_ITEMS"
  by (simp_all add: work_sizes)

lemma ledger_empty: "ledger_inv empty_store"
  by (simp add: ledger_inv_def empty_store_def)

lemma revision_index_Some:
  "revision_index st task_id work_rev = Some i \<Longrightarrow>
     i < length (ws_revisions st) \<and> wr_task_id (ws_revisions st ! i) = task_id \<and> wr_work_rev (ws_revisions st ! i) = work_rev"
  by (auto simp: revision_index_def dest: find_index_SomeD)

lemma revision_index_None: "revision_index st task_id work_rev = None \<longleftrightarrow> (task_id, work_rev) \<notin> rev_key ` set (ws_revisions st)"
  by (auto simp: revision_index_def rev_key_def find_index_None_iff)

lemma step_index_Some:
  "step_index st task_id work_rev request_id = Some i \<Longrightarrow>
     i < length (ws_items st) \<and> step_key (ws_items st ! i) = (task_id, work_rev, request_id)"
  by (auto simp: step_index_def step_key_def dest: find_index_SomeD)

lemma step_index_None:
  "step_index st task_id work_rev request_id = None \<longleftrightarrow> (task_id, work_rev, request_id) \<notin> step_key ` set (ws_items st)"
  by (auto simp: step_index_def step_key_def find_index_None_iff)

lemma distinct_key_update:
  assumes "distinct (map f xs)" and "i < length xs" and "f x = f (xs ! i)"
  shows "distinct (map f (xs[i := x]))"
proof -
  have "map f (xs[i := x]) = map f xs" using assms(2,3) by (simp add: map_update list_update_same_conv)
  then show ?thesis using assms(1) by simp
qed

lemma ledger_update_revision:
  assumes "ledger_inv st" and "i < length (ws_revisions st)" and "revision_inv r" and "rev_key r = rev_key (ws_revisions st ! i)"
  shows "ledger_inv (st\<lparr>ws_revisions := (ws_revisions st)[i := r]\<rparr>)"
  using assms by (simp add: ledger_inv_def list_all_length nth_list_update distinct_key_update)

lemma ledger_update_step:
  assumes "ledger_inv st" and "i < length (ws_items st)" and "step_inv x" and "step_key x = step_key (ws_items st ! i)"
  shows "ledger_inv (st\<lparr>ws_items := (ws_items st)[i := x]\<rparr>)"
  using assms by (simp add: ledger_inv_def list_all_length nth_list_update distinct_key_update)

lemma ledger_revision: "ledger_inv st \<Longrightarrow> i < length (ws_revisions st) \<Longrightarrow> revision_inv (ws_revisions st ! i)"
  by (simp add: ledger_inv_def list_all_length)

lemma ledger_step: "ledger_inv st \<Longrightarrow> i < length (ws_items st) \<Longrightarrow> step_inv (ws_items st ! i)"
  by (simp add: ledger_inv_def list_all_length)

text \<open>The table with one revision more, as every caller of \<open>add_revision\<close> leaves it.\<close>

lemma add_revision_cases:
  assumes "add_revision env st task_id work_rev = Some st1"
  obtains rs where "make_room WORK_REVISION_MAX_ITEMS (revision_stale env) (ws_revisions st) = Some rs"
    and "st1 = st\<lparr>ws_revisions := rs @ [zero_revision\<lparr>wr_task_id := copy_into RT_SMALL task_id, wr_work_rev := work_rev,
      wr_lineage_root_rev := work_rev\<rparr>]\<rparr>"
  using assms by (auto simp: add_revision_def split: option.splits)

lemma set_last_revision_added [simp]:
  "set_last_revision r (st\<lparr>ws_revisions := rs @ [r0]\<rparr>) = st\<lparr>ws_revisions := rs @ [r]\<rparr>"
  by (simp add: set_last_revision_def list_update_append)

lemma ledger_add_revision:
  assumes "ledger_inv st" and "make_room WORK_REVISION_MAX_ITEMS P (ws_revisions st) = Some rs"
    and "revision_inv r" and "rev_key r \<notin> rev_key ` set (ws_revisions st)"
  shows "ledger_inv (st\<lparr>ws_revisions := rs @ [r]\<rparr>)"
proof -
  have l: "length (ws_revisions st) \<le> WORK_REVISION_MAX_ITEMS" using assms(1) by (simp add: ledger_inv_def)
  note c = make_room_cases [OF assms(2) work_max_pos(1) l]
  have "rev_key r \<notin> rev_key ` set rs" using assms(4) c(2) by blast
  moreover have "list_all revision_inv rs" using assms(1) c(2) by (auto simp: ledger_inv_def list_all_iff)
  ultimately show ?thesis using assms(1,3) c(1) c(4) [of rev_key] by (auto simp: ledger_inv_def)
qed

lemma ledger_add_step:
  assumes "ledger_inv st" and "add_step env st x = Some st1" and "step_inv x" and "step_key x \<notin> step_key ` set (ws_items st)"
  shows "ledger_inv st1"
proof -
  obtain xs where m: "make_room WORK_STEP_MAX_ITEMS (\<lambda>y. \<not> step_is_current_live env y) (ws_items st) = Some xs"
    and st1: "st1 = st\<lparr>ws_items := xs @ [x]\<rparr>" using assms(2) by (auto simp: add_step_def split: option.splits)
  have l: "length (ws_items st) \<le> WORK_STEP_MAX_ITEMS" using assms(1) by (simp add: ledger_inv_def)
  note c = make_room_cases [OF m work_max_pos(2) l]
  have "step_key x \<notin> step_key ` set xs" using assms(4) c(2) by blast
  moreover have "list_all step_inv xs" using assms(1) c(2) by (auto simp: ledger_inv_def list_all_iff)
  ultimately show ?thesis using assms(1,3) c(1) c(4) [of step_key] by (auto simp: ledger_inv_def st1)
qed

section \<open>How records evolve\<close>

text \<open>Records of the same key are related by \<open>le\<close>; a record may go, and one with a new key may come.\<close>

definition evolves :: "('a \<Rightarrow> 'k) \<Rightarrow> ('a \<Rightarrow> 'a \<Rightarrow> bool) \<Rightarrow> 'a list \<Rightarrow> 'a list \<Rightarrow> bool" where
  "evolves key le xs ys \<longleftrightarrow> (\<forall>x \<in> set xs. \<forall>y \<in> set ys. key x = key y \<longrightarrow> le x y)"

lemma evolves_refl: "distinct (map key xs) \<Longrightarrow> (\<And>x. le x x) \<Longrightarrow> evolves key le xs xs"
  by (auto simp: evolves_def distinct_map inj_on_def)

lemma evolves_subset: "evolves key le xs ys \<Longrightarrow> set zs \<subseteq> set ys \<Longrightarrow> evolves key le xs zs"
  by (auto simp: evolves_def)

lemma evolves_add: "evolves key le xs ys \<Longrightarrow> key y \<notin> key ` set xs \<Longrightarrow> evolves key le xs (ys @ [y])"
  by (auto simp: evolves_def) (metis imageI)

lemma evolves_update:
  assumes "distinct (map key xs)" and "\<And>x. le x x" and "i < length xs" and "key y = key (xs ! i)" and "le (xs ! i) y"
  shows "evolves key le xs (xs[i := y])"
proof -
  have same: "x = x'" if "x \<in> set xs" "x' \<in> set xs" "key x = key x'" for x x'
    using assms(1) that by (auto simp: distinct_map inj_on_def)
  have "le x y'" if x: "x \<in> set xs" and y': "y' \<in> set (xs[i := y])" and k: "key x = key y'" for x y'
  proof (cases "y' = y")
    case True
    then have "x = xs ! i" using same [OF x nth_mem [OF assms(3)]] k assms(4) by simp
    then show ?thesis using assms(5) True by simp
  next
    case False
    then have "y' \<in> set xs" using y' set_update_subset_insert [of xs i y] by auto
    then show ?thesis using same [OF x _ k] assms(2) by auto
  qed
  then show ?thesis by (simp add: evolves_def)
qed

lemma evolves_trans:
  assumes "evolves key le xs ys" and "evolves key le ys zs" and "\<And>x y z. le x y \<Longrightarrow> le y z \<Longrightarrow> le x z"
    and "key ` set zs \<inter> key ` set xs \<subseteq> key ` set ys"
  shows "evolves key le xs zs"
proof -
  have "le x z" if "x \<in> set xs" "z \<in> set zs" "key x = key z" for x z
  proof -
    have "key z \<in> key ` set zs \<inter> key ` set xs" using that by (metis IntI imageI)
    then obtain y where "y \<in> set ys" "key y = key z" using assms(4) by force
    then show ?thesis using assms(1-3) that by (metis evolves_def)
  qed
  then show ?thesis by (simp add: evolves_def)
qed

lemma keys_update: "i < length xs \<Longrightarrow> key y = key (xs ! i) \<Longrightarrow> key ` set (xs[i := y]) = key ` set xs"
proof -
  assume "i < length xs" and "key y = key (xs ! i)"
  then have "map key (xs[i := y]) = map key xs" by (simp add: map_update list_update_same_conv)
  then show ?thesis by (metis list.set_map)
qed

text \<open>What stays of a revision and of a step.\<close>

definition rev_le :: "work_revision \<Rightarrow> work_revision \<Rightarrow> bool" where
  "rev_le r r' \<longleftrightarrow>
     wr_context_id r' = wr_context_id r \<and> wr_parent_work_rev r' = wr_parent_work_rev r \<and>
     wr_lineage_root_rev r' = wr_lineage_root_rev r \<and> wr_semantic_steps r \<le> wr_semantic_steps r' \<and>
     wr_repair_attempts r \<le> wr_repair_attempts r'"

definition step_le :: "work_step \<Rightarrow> work_step \<Rightarrow> bool" where
  "step_le x x' \<longleftrightarrow>
     wk_context_id x' = wk_context_id x \<and> wk_trigger_event_id x' = wk_trigger_event_id x \<and>
     wk_selected_event_id x' = wk_selected_event_id x \<and> wk_selected_args x' = wk_selected_args x \<and>
     (wk_action x \<noteq> [] \<longrightarrow> wk_action x' = wk_action x) \<and>
     (wk_result_event_id x \<noteq> [] \<longrightarrow> wk_result_event_id x' = wk_result_event_id x \<and> wk_result_kind x' = wk_result_kind x \<and>
        wk_detail x' = wk_detail x) \<and>
     (wk_terminal_event_id x \<noteq> [] \<longrightarrow> wk_terminal_event_id x' = wk_terminal_event_id x \<and>
        wk_terminal_kind x' = wk_terminal_kind x \<and> wk_terminal_detail x' = wk_terminal_detail x)"

lemma rev_le_refl [simp]: "rev_le r r"
  by (simp add: rev_le_def)

lemma rev_le_trans: "rev_le r s \<Longrightarrow> rev_le s t \<Longrightarrow> rev_le r t"
  by (auto simp: rev_le_def)

lemma step_le_refl [simp]: "step_le x x"
  by (simp add: step_le_def)

lemma step_le_trans: "step_le x y \<Longrightarrow> step_le y z \<Longrightarrow> step_le x z"
  by (auto simp: step_le_def)

definition store_le :: "work_store \<Rightarrow> work_store \<Rightarrow> bool" where
  "store_le st st' \<longleftrightarrow> evolves rev_key rev_le (ws_revisions st) (ws_revisions st') \<and>
     evolves step_key step_le (ws_items st) (ws_items st')"

lemma store_le_refl: "ledger_inv st \<Longrightarrow> store_le st st"
  by (simp add: store_le_def ledger_inv_def evolves_refl)

section \<open>Evidence on one step\<close>

lemma copy_into_nonempty: "s \<noteq> [] \<Longrightarrow> 1 < n \<Longrightarrow> copy_into n s \<noteq> []"
  by (auto simp: copy_into_def)

lemma RT_SMALL_gt1: "1 < RT_SMALL"
  by (simp add: RT_SMALL_def)

lemma terminal_evidence_keeps:
  assumes "step_inv x" and "event_id \<noteq> []" and "is_terminal_type type" and "wk_terminal_event_id x = []"
  shows "step_inv (terminal_evidence env type payload event_id x) \<and> step_le x (terminal_evidence env type payload event_id x) \<and>
    step_key (terminal_evidence env type payload event_id x) = step_key x"
  using assms copy_into_nonempty [OF assms(2) RT_SMALL_gt1]
  by (auto simp: terminal_evidence_def Let_def step_inv_def step_le_def step_key_def is_terminal_type_def)

lemma result_evidence_keeps:
  assumes "step_inv x" and "event_id \<noteq> []" and "type \<noteq> []" and "wk_result_event_id x = []"
  shows "step_inv (result_evidence env type payload pj event_id x) \<and> step_le x (result_evidence env type payload pj event_id x) \<and>
    step_key (result_evidence env type payload pj event_id x) = step_key x"
proof -
  define y where "y = x\<lparr>wk_result_event_id := copy_into RT_SMALL event_id, wk_result_kind := type\<rparr>"
  have y: "step_inv y" "step_le x y" "step_key y = step_key x"
    using assms copy_into_nonempty [OF assms(2) RT_SMALL_gt1] by (auto simp: y_def step_inv_def step_le_def step_key_def)
  let ?z = "result_evidence env type payload pj event_id x"
  have z: "step_inv ?z \<longleftrightarrow> step_inv y" "step_key ?z = step_key y"
    unfolding result_evidence_def Let_def y_def [symmetric] by (simp_all add: step_inv_def step_key_def)
  have "step_le x ?z \<longleftrightarrow> step_le x y"
    unfolding result_evidence_def Let_def y_def [symmetric] using assms(4) by (simp add: step_le_def)
  then show ?thesis using y z by simp
qed

definition kept :: "work_step \<Rightarrow> work_step \<Rightarrow> bool" where
  "kept x x' \<longleftrightarrow> step_inv x' \<and> step_le x x' \<and> step_key x' = step_key x"

lemma kept_updates:
  assumes "step_inv x"
  shows "kept x x" "kept x (x\<lparr>wk_status := s, wk_started_event_id := i\<rparr>)" "kept x (x\<lparr>wk_handle := h, wk_status := s\<rparr>)"
  using assms by (auto simp: kept_def step_inv_def step_le_def step_key_def)

lemma apply_evidence_keeps:
  assumes "apply_evidence env type payload pj event_id x = (rc, x')" and "step_inv x" and "event_id \<noteq> []" and "type \<noteq> []"
  shows "kept x x'"
proof -
  have t: "kept x (terminal_evidence env type payload event_id x)" if "is_terminal_type type" "wk_terminal_event_id x = []"
    using terminal_evidence_keeps [OF assms(2,3) that] by (simp add: kept_def)
  have r: "kept x (result_evidence env type payload pj event_id x)" if "wk_result_event_id x = []"
    using result_evidence_keeps [OF assms(2,3,4) that] by (simp add: kept_def)
  show ?thesis using assms(1) t r kept_updates [OF assms(2)]
    unfolding apply_evidence_def Let_def by (simp only: prod.inject split: if_split_asm) blast+
qed

lemma apply_to_step_keeps:
  assumes "apply_to_step env type e payload pj event_id x = (rc, x')" and "step_inv x" and "event_id \<noteq> []" and "type \<noteq> []"
  shows "step_inv x' \<and> step_le x x' \<and> step_key x' = step_key x"
proof (cases "evidence_mismatch e x")
  case False
  let ?y = "if ev_action e \<noteq> [] \<and> wk_action x = [] then x\<lparr>wk_action := ev_action e\<rparr> else x"
  have y: "step_inv ?y" "step_le x ?y" "step_key ?y = step_key x" using assms(2) by (auto simp: step_inv_def step_le_def step_key_def)
  have "apply_evidence env type payload pj event_id ?y = (rc, x')" using assms(1) False by (simp add: apply_to_step_def)
  then have "kept ?y x'" by (rule apply_evidence_keeps [OF _ y(1) assms(3,4)])
  then show ?thesis using y(3) step_le_trans [OF y(2), of x'] by (simp add: kept_def)
qed (use assms in \<open>simp add: apply_to_step_def\<close>)

lemma apply_step_at_keeps:
  assumes "apply_step_at env type e payload pj event_id i st = (rc, st')" and "ledger_inv st" and "i < length (ws_items st)"
    and "event_id \<noteq> []" and "type \<noteq> []"
  shows "ledger_inv st' \<and> evolves step_key step_le (ws_items st) (ws_items st') \<and> ws_revisions st' = ws_revisions st \<and>
    step_key ` set (ws_items st') = step_key ` set (ws_items st)"
proof -
  obtain x where x: "apply_to_step env type e payload pj event_id (ws_items st ! i) = (rc, x)"
    and st': "st' = st\<lparr>ws_items := (ws_items st)[i := x]\<rparr>"
    using assms(1) by (auto simp: apply_step_at_def split: prod.splits)
  note k = apply_to_step_keeps [OF x ledger_step [OF assms(2,3)] assms(4,5)]
  have d: "distinct (map step_key (ws_items st))" using assms(2) by (simp add: ledger_inv_def)
  show ?thesis using ledger_update_step [OF assms(2,3)] k evolves_update [where le = step_le, OF d step_le_refl assms(3), of x]
      keys_update [OF assms(3), of step_key x] by (simp add: st')
qed

section \<open>Revision events\<close>

lemma copy_task: "get_string payload ''task_id'' RT_SMALL = Some task_id \<Longrightarrow> copy_into RT_SMALL task_id = task_id"
  using get_string_or_empty_ok [of RT_SMALL payload "''task_id''"] RT_SMALL_gt1
  by (auto simp: get_string_def get_string_or_empty_def split: prod.splits if_splits)

lemma revision_inv_zero:
  "task_id \<noteq> [] \<Longrightarrow> 0 < work_rev \<Longrightarrow>
     revision_inv (zero_revision\<lparr>wr_task_id := task_id, wr_work_rev := work_rev, wr_lineage_root_rev := work_rev, wr_context_id := c\<rparr>)"
  by (simp add: revision_inv_def zero_revision_def work_sizes)

text \<open>A new revision is at the end, has a new key, and either starts a lineage or inherits from its parent.\<close>

definition inherits :: "work_store \<Rightarrow> work_revision \<Rightarrow> bool" where
  "inherits st r \<longleftrightarrow>
     (wr_parent_work_rev r = 0 \<and> wr_lineage_root_rev r = wr_work_rev r \<and> wr_semantic_steps r \<le> 1 \<and> wr_repair_attempts r \<le> 1) \<or>
     (\<exists>p \<in> set (ws_revisions st). wr_task_id p = wr_task_id r \<and> wr_work_rev p = wr_parent_work_rev r \<and>
        wr_lineage_root_rev r = wr_lineage_root_rev p \<and> wr_semantic_steps r = wr_semantic_steps p \<and>
        wr_repair_attempts r = wr_repair_attempts p)"

lemma evolves_make_room:
  "ledger_inv st \<Longrightarrow> make_room WORK_REVISION_MAX_ITEMS P (ws_revisions st) = Some rs \<Longrightarrow> evolves rev_key rev_le (ws_revisions st) rs"
proof -
  assume inv: "ledger_inv st" and m: "make_room WORK_REVISION_MAX_ITEMS P (ws_revisions st) = Some rs"
  have l: "length (ws_revisions st) \<le> WORK_REVISION_MAX_ITEMS" and d: "distinct (map rev_key (ws_revisions st))"
    using inv by (simp_all add: ledger_inv_def)
  show ?thesis by (rule evolves_subset [OF evolves_refl [where le = rev_le, OF d rev_le_refl] make_room_cases(2) [OF m work_max_pos(1) l]])
qed

lemma evolves_add_step:
  assumes "ledger_inv st" and "add_step env st x = Some st1" and "step_key x \<notin> step_key ` set xs"
    and "evolves step_key step_le xs (ws_items st)"
  shows "evolves step_key step_le xs (ws_items st1)" and "ws_revisions st1 = ws_revisions st"
proof -
  obtain ys where m: "make_room WORK_STEP_MAX_ITEMS (\<lambda>y. \<not> step_is_current_live env y) (ws_items st) = Some ys"
    and st1: "st1 = st\<lparr>ws_items := ys @ [x]\<rparr>" using assms(2) by (auto simp: add_step_def split: option.splits)
  have l: "length (ws_items st) \<le> WORK_STEP_MAX_ITEMS" using assms(1) by (simp add: ledger_inv_def)
  show "evolves step_key step_le xs (ws_items st1)"
    using evolves_add [OF evolves_subset [OF assms(4) make_room_cases(2) [OF m work_max_pos(2) l]] assms(3)] by (simp add: st1)
  show "ws_revisions st1 = ws_revisions st" by (simp add: st1)
qed

text \<open>The store after one revision was added: invariant, evolution and inheritance.\<close>

lemma new_revision_keeps:
  assumes "ledger_inv st" and "make_room WORK_REVISION_MAX_ITEMS P (ws_revisions st) = Some rs"
    and "revision_inv r" and "rev_key r \<notin> rev_key ` set (ws_revisions st)"
  shows "ledger_inv (st\<lparr>ws_revisions := rs @ [r]\<rparr>)" and "store_le st (st\<lparr>ws_revisions := rs @ [r]\<rparr>)"
  using ledger_add_revision [OF assms] evolves_add [OF evolves_make_room [OF assms(1,2)] assms(4)] store_le_refl [OF assms(1)]
  by (simp_all add: store_le_def)

definition new_inherit :: "work_store \<Rightarrow> work_store \<Rightarrow> bool" where
  "new_inherit st st' \<longleftrightarrow> (\<forall>r \<in> set (ws_revisions st'). rev_key r \<notin> rev_key ` set (ws_revisions st) \<longrightarrow> inherits st r)"

lemma new_inherit_refl [simp]: "new_inherit st st"
  by (auto simp: new_inherit_def)

lemma new_inherit_add:
  assumes "ledger_inv st" and "make_room WORK_REVISION_MAX_ITEMS P (ws_revisions st) = Some rs" and "inherits st r"
  shows "new_inherit st (st\<lparr>ws_revisions := rs @ [r]\<rparr>)"
proof -
  have "length (ws_revisions st) \<le> WORK_REVISION_MAX_ITEMS" using assms(1) by (simp add: ledger_inv_def)
  then have "set rs \<subseteq> set (ws_revisions st)" using make_room_cases(2) [OF assms(2) work_max_pos(1)] by blast
  then show ?thesis using assms(3) by (auto simp: new_inherit_def)
qed

lemma controller_parent_Some:
  assumes "controller_parent st payload task_id context_id work_rev = Some (parent_rev, request_id, action, trigger, parent, x)"
  shows "0 < parent_rev" and "work_rev = parent_rev + 1" and "request_id \<noteq> []" and "parent \<in> set (ws_revisions st)"
    and "wr_task_id parent = task_id" and "wr_work_rev parent = parent_rev" and "wr_context_id parent = context_id"
    and "controller_fields payload = Some (parent_rev, request_id, action, trigger)"
proof -
  obtain f where f: "controller_fields payload = Some f"
    using assms by (cases "controller_fields payload") (simp_all add: controller_parent_def)
  obtain a b c d where f': "f = (a, b, c, d)" by (rule prod_cases4)
  have g: "\<not> (a \<le> 0 \<or> work_rev \<noteq> a + 1 \<or> b = [] \<or> c \<noteq> ''work'' \<or> d = [])"
    using assms f f' by (simp add: controller_parent_def split: if_splits)
  obtain i where i: "revision_index st task_id a = Some i"
    using assms f f' g by (cases "revision_index st task_id a") (simp_all add: controller_parent_def)
  have h: "wr_context_id (ws_revisions st ! i) = context_id"
    using assms f f' g i by (simp add: controller_parent_def Let_def split: if_splits)
  have "a = parent_rev \<and> b = request_id \<and> c = action \<and> d = trigger \<and> parent = ws_revisions st ! i"
    using assms f f' g i by (simp add: controller_parent_def Let_def split: if_splits option.splits)
  then show "0 < parent_rev" and "work_rev = parent_rev + 1" and "request_id \<noteq> []" and "parent \<in> set (ws_revisions st)"
    and "wr_task_id parent = task_id" and "wr_work_rev parent = parent_rev" and "wr_context_id parent = context_id"
    and "controller_fields payload = Some (parent_rev, request_id, action, trigger)"
    using f f' g h revision_index_Some [OF i] by auto
qed

lemma carried_step_inv:
  "task_id \<noteq> [] \<Longrightarrow> 0 < work_rev \<Longrightarrow> request_id \<noteq> [] \<Longrightarrow> step_inv (carried_step c task_id work_rev request_id a t x)"
  by (simp add: carried_step_def fresh_step_def zero_step_def step_inv_def)

lemma step_key_carried: "step_key (carried_step c task_id work_rev request_id a t x) = (task_id, work_rev, request_id)"
  by (simp add: carried_step_def step_key_def)

lemma controller_revision_keeps:
  assumes "apply_controller_revision env st payload task_id context_id work_rev = (rc, st')" and "ledger_inv st"
    and "copy_into RT_SMALL task_id = task_id" and "task_id \<noteq> []" and "revision_index st task_id work_rev = None"
  shows "ledger_inv st' \<and> store_le st st' \<and> new_inherit st st'"
proof (cases "controller_parent st payload task_id context_id work_rev")
  case (Some p)
  obtain parent_rev request_id action trigger parent x where p: "p = (parent_rev, request_id, action, trigger, parent, x)" by (rule prod_cases6)
  note c = controller_parent_Some [OF Some [unfolded p]]
  show ?thesis
  proof (cases "add_revision env st task_id work_rev")
    case (Some st1)
    obtain rs where rs: "make_room WORK_REVISION_MAX_ITEMS (revision_stale env) (ws_revisions st) = Some rs"
      and st1: "st1 = st\<lparr>ws_revisions := rs @ [zero_revision\<lparr>wr_task_id := task_id, wr_work_rev := work_rev, wr_lineage_root_rev := work_rev\<rparr>]\<rparr>"
      using add_revision_cases [OF Some] assms(3) by auto
    define r where "r = inherited_revision context_id parent_rev request_id action trigger parent x
      (zero_revision\<lparr>wr_task_id := task_id, wr_work_rev := work_rev, wr_lineage_root_rev := work_rev\<rparr>)"
    let ?st2 = "st\<lparr>ws_revisions := rs @ [r]\<rparr>"
    have key: "rev_key r = (task_id, work_rev)" by (simp add: r_def inherited_revision_def rev_key_def)
    have pinv: "revision_inv parent" using assms(2) c(4) by (auto simp: ledger_inv_def list_all_iff)
    have rinv: "revision_inv r" using pinv c assms(4) by (auto simp: r_def inherited_revision_def revision_inv_def zero_revision_def)
    have "inherits st r" using c by (auto simp: inherits_def r_def inherited_revision_def intro!: bexI [of _ parent])
    then have ni: "new_inherit st ?st2" by (rule new_inherit_add [OF assms(2) rs])
    have new: "rev_key r \<notin> rev_key ` set (ws_revisions st)" using assms(5) key by (simp add: revision_index_None)
    note n = new_revision_keeps [OF assms(2) rs rinv new]
    let ?y = "carried_step context_id task_id work_rev request_id action trigger x"
    have body: "(if step_index ?st2 task_id work_rev request_id \<noteq> None then (0, ?st2)
        else (case add_step env ?st2 ?y of None \<Rightarrow> (- 1, ?st2) | Some st3 \<Rightarrow> (0, st3))) = (rc, st')"
      using assms(1) \<open>controller_parent _ _ _ _ _ = Some p\<close> p Some unfolding r_def
      by (simp add: apply_controller_revision_def st1 Let_def)
    show ?thesis
    proof (cases "st' = ?st2")
      case False
      then have si: "step_index ?st2 task_id work_rev request_id = None" and ad: "add_step env ?st2 ?y = Some st'"
        using body by (auto split: if_splits option.splits)
      have k: "step_key ?y \<notin> step_key ` set (ws_items ?st2)" using si by (simp only: step_index_None step_key_carried not_False_eq_True)
      have yinv: "step_inv ?y" using carried_step_inv assms(4) c by simp
      have it: "evolves step_key step_le (ws_items st) (ws_items ?st2)" using n(2) by (simp add: store_le_def)
      have k': "step_key ?y \<notin> step_key ` set (ws_items st)" using k by simp
      note e = evolves_add_step [OF n(1) ad k' it]
      show ?thesis using ledger_add_step [OF n(1) ad yinv k] e n(2) ni by (simp add: store_le_def new_inherit_def)
    qed (use n ni in simp)
  qed (use assms Some p store_le_refl in \<open>simp add: apply_controller_revision_def\<close>)
qed (use assms store_le_refl in \<open>simp add: apply_controller_revision_def\<close>)

definition good_step :: "work_store \<Rightarrow> work_store \<Rightarrow> bool" where
  "good_step st st' \<longleftrightarrow> ledger_inv st' \<and> store_le st st' \<and> new_inherit st st'"

lemma good_step_refl: "ledger_inv st \<Longrightarrow> good_step st st"
  by (simp add: good_step_def store_le_refl)

lemma new_root_keeps:
  assumes "add_revision env st task_id work_rev = Some st1" and "ledger_inv st" and "revision_index st task_id work_rev = None"
    and "task_id \<noteq> []" and "copy_into RT_SMALL task_id = task_id" and "0 < work_rev"
    and "r = (last (ws_revisions st1))\<lparr>wr_context_id := c, wr_lineage_root_rev := work_rev\<rparr>"
  shows "good_step st (set_last_revision r st1)" and "ws_items (set_last_revision r st1) = ws_items st"
    and "last (ws_revisions (set_last_revision r st1)) = r" and "0 < length (ws_revisions st1)"
    and "length (ws_revisions (set_last_revision r st1)) = length (ws_revisions st1)"
    and "wr_parent_work_rev r = 0 \<and> wr_lineage_root_rev r = work_rev \<and> wr_work_rev r = work_rev \<and> wr_task_id r = task_id \<and>
      wr_semantic_steps r = 0 \<and> wr_repair_attempts r = 0"
proof -
  obtain rs where rs: "make_room WORK_REVISION_MAX_ITEMS (revision_stale env) (ws_revisions st) = Some rs"
    and st1: "st1 = st\<lparr>ws_revisions := rs @ [zero_revision\<lparr>wr_task_id := task_id, wr_work_rev := work_rev, wr_lineage_root_rev := work_rev\<rparr>]\<rparr>"
    using add_revision_cases [OF assms(1)] assms(5) by auto
  have r: "r = zero_revision\<lparr>wr_task_id := task_id, wr_work_rev := work_rev, wr_lineage_root_rev := work_rev, wr_context_id := c\<rparr>"
    using assms(7) by (simp add: st1)
  have st2: "set_last_revision r st1 = st\<lparr>ws_revisions := rs @ [r]\<rparr>" by (simp only: st1 set_last_revision_added)
  have i: "revision_inv r" unfolding r by (rule revision_inv_zero [OF assms(4,6)])
  have k: "rev_key r \<notin> rev_key ` set (ws_revisions st)" using assms(3) by (simp add: revision_index_None r rev_key_def)
  have h: "inherits st r" by (simp add: inherits_def r zero_revision_def)
  show "good_step st (set_last_revision r st1)"
    using new_revision_keeps [OF assms(2) rs i k] new_inherit_add [OF assms(2) rs h] by (simp add: good_step_def st2)
  show "ws_items (set_last_revision r st1) = ws_items st" "last (ws_revisions (set_last_revision r st1)) = r"
    "0 < length (ws_revisions st1)" "length (ws_revisions (set_last_revision r st1)) = length (ws_revisions st1)"
    unfolding st2 by (simp_all add: st1)
  show "wr_parent_work_rev r = 0 \<and> wr_lineage_root_rev r = work_rev \<and> wr_work_rev r = work_rev \<and> wr_task_id r = task_id \<and>
      wr_semantic_steps r = 0 \<and> wr_repair_attempts r = 0" by (simp add: r zero_revision_def)
qed

text \<open>A revision event that changes the ledger passed the guards on its payload; they do not depend on the ledger.\<close>

definition revision_change :: "work_env \<Rightarrow> json_ref \<Rightarrow> string \<Rightarrow> string \<Rightarrow> int \<Rightarrow> string \<Rightarrow> work_store \<Rightarrow> int \<times> work_store" where
  "revision_change env payload task_id c w orig st =
     (case revision_index st task_id w of
        Some idx \<Rightarrow> (known_revision payload orig c w (ws_revisions st ! idx), st)
      | None \<Rightarrow>
          if orig = ''controller'' then apply_controller_revision env st payload task_id c w
          else
            (case add_revision env st task_id w of
               None \<Rightarrow> (- 1, st)
             | Some st1 \<Rightarrow> (0, set_last_revision ((last (ws_revisions st1))\<lparr>wr_context_id := c,
                 wr_lineage_root_rev := w, wr_semantic_steps := 0, wr_repair_attempts := 0\<rparr>) st1)))"

lemma revision_event_cases:
  assumes "apply_revision_event env st ctx type payload = (rc, st')" and "st' \<noteq> st"
  obtains task_id w c orig where "get_string payload ''task_id'' RT_SMALL = Some task_id" and "task_id \<noteq> []" and "0 < w"
    and "\<forall>st. apply_revision_event env st ctx type payload = revision_change env payload task_id c w orig st"
proof (cases "get_string payload ''task_id'' RT_SMALL")
  case (Some task_id)
  let ?w = "get_long_or (if type = ''task_created'' then 1 else 0) payload ''work_rev''"
  let ?c = "if get_string_or_empty payload ''context_id'' RT_MED = [] then copy_into RT_MED ctx
    else get_string_or_empty payload ''context_id'' RT_MED"
  let ?o = "if type = ''task_updated'' then get_string_or_empty payload ''revision_origin'' RT_SMALL else []"
  have g: "task_id \<noteq> []" "\<not> (type = ''task_created'' \<and> get_string payload ''kind'' RT_SMALL \<noteq> Some ''work'')"
    "\<not> (type = ''task_updated'' \<and> get_long_or 0 payload ''work_rev'' \<le> 0)"
    "\<not> (type \<noteq> ''task_created'' \<and> type \<noteq> ''task_updated'')" "\<not> ?w \<le> 0"
    using assms Some by (auto simp: apply_revision_event_def Let_def split: if_split_asm)
  have "\<forall>st. apply_revision_event env st ctx type payload = revision_change env payload task_id ?c ?w ?o st"
    unfolding apply_revision_event_def Some option.case Let_def revision_change_def using g by (simp only: if_False simp_thms)
  then show thesis by (rule that [OF Some g(1), rotated]) (use g(5) in simp)
qed (use assms in \<open>simp add: apply_revision_event_def\<close>)

lemma revision_event_keeps:
  assumes "apply_revision_event env st ctx type payload = (rc, st')" and "ledger_inv st"
  shows "good_step st st'"
proof (cases "st' = st")
  case False
  obtain task_id w c orig where t: "get_string payload ''task_id'' RT_SMALL = Some task_id" and ne: "task_id \<noteq> []" and w: "0 < w"
    and eq: "\<forall>st. apply_revision_event env st ctx type payload = revision_change env payload task_id c w orig st"
    by (rule revision_event_cases [OF assms(1) False])
  have b: "revision_change env payload task_id c w orig st = (rc, st')" using eq assms(1) by simp
  have i: "revision_index st task_id w = None" using b False by (auto simp: revision_change_def split: option.splits)
  show ?thesis
  proof (cases "orig = ''controller''")
    case True
    then have "apply_controller_revision env st payload task_id c w = (rc, st')" using b i by (simp add: revision_change_def)
    then show ?thesis using controller_revision_keeps [OF _ assms(2) copy_task [OF t] ne i] by (simp add: good_step_def)
  next
    case nc: False
    then obtain st1 where a: "add_revision env st task_id w = Some st1"
      and st': "st' = set_last_revision ((last (ws_revisions st1))\<lparr>wr_context_id := c,
            wr_lineage_root_rev := w, wr_semantic_steps := 0, wr_repair_attempts := 0\<rparr>) st1"
      using b i False by (auto simp: revision_change_def split: option.splits)
    let ?r = "(last (ws_revisions st1))\<lparr>wr_context_id := c, wr_lineage_root_rev := w\<rparr>"
    note n = new_root_keeps [where r = ?r and c = c, OF a assms(2) i ne copy_task [OF t] w refl]
    have "(last (ws_revisions st1))\<lparr>wr_context_id := c, wr_lineage_root_rev := w, wr_semantic_steps := 0, wr_repair_attempts := 0\<rparr> = ?r"
      using n(6) by (cases "last (ws_revisions st1)") simp
    then have "st' = set_last_revision ?r st1" by (simp add: st')
    then show ?thesis using n(1) by simp
  qed
qed (use good_step_refl [OF assms(2)] in simp)

section \<open>Selections\<close>

lemma read_event_task: "copy_into RT_SMALL (ev_task_id (read_event ctx payload)) = ev_task_id (read_event ctx payload)"
  using get_string_or_empty_ok [of RT_SMALL payload "''task_id''"] RT_SMALL_gt1 by (simp add: read_event_def)

text \<open>The revision that a selection is charged to.\<close>

definition charged :: "work_store \<Rightarrow> work_store \<Rightarrow> nat \<Rightarrow> bool" where
  "charged st st1 ri \<longleftrightarrow> ri < length (ws_revisions st1) \<and>
     (rev_key (ws_revisions st1 ! ri) \<notin> rev_key ` set (ws_revisions st) \<longrightarrow>
        wr_parent_work_rev (ws_revisions st1 ! ri) = 0 \<and> wr_lineage_root_rev (ws_revisions st1 ! ri) = wr_work_rev (ws_revisions st1 ! ri) \<and>
        wr_semantic_steps (ws_revisions st1 ! ri) = 0)"

lemma selection_revision_keeps:
  assumes "selection_revision env st e = Some (ri, st1)" and "ledger_inv st" and "ev_task_id e \<noteq> []"
    and "copy_into RT_SMALL (ev_task_id e) = ev_task_id e" and "0 < ev_work_rev e"
  shows "good_step st st1" and "ws_items st1 = ws_items st" and "charged st st1 ri"
    and "rev_key (ws_revisions st1 ! ri) = (ev_task_id e, ev_work_rev e)"
    and "wr_repair_attempts (ws_revisions st1 ! ri) = 0 \<or> (ev_task_id e, ev_work_rev e) \<in> rev_key ` set (ws_revisions st)"
proof -
  have "good_step st st1 \<and> ws_items st1 = ws_items st \<and> charged st st1 ri \<and>
      rev_key (ws_revisions st1 ! ri) = (ev_task_id e, ev_work_rev e) \<and>
      (wr_repair_attempts (ws_revisions st1 ! ri) = 0 \<or> (ev_task_id e, ev_work_rev e) \<in> rev_key ` set (ws_revisions st))"
  proof (cases "revision_index st (ev_task_id e) (ev_work_rev e)")
    case None
    then obtain st0 where a: "add_revision env st (ev_task_id e) (ev_work_rev e) = Some st0"
      and ri: "ri = length (ws_revisions st0) - 1"
      and st1: "st1 = set_last_revision ((last (ws_revisions st0))\<lparr>wr_context_id := ev_context e, wr_lineage_root_rev := ev_work_rev e\<rparr>) st0"
      using assms(1) by (auto simp: selection_revision_def split: option.splits)
    note n = new_root_keeps [where c = "ev_context e", OF a assms(2) None assms(3,4,5) refl]
    have l: "length (ws_revisions st1) = length (ws_revisions st0)" using n(5) by (simp only: st1)
    then have "ws_revisions st1 \<noteq> []" using n(4) by auto
    then have "ws_revisions st1 ! ri = last (ws_revisions st1)" and len: "ri < length (ws_revisions st1)"
      using l n(4) last_conv_nth [of "ws_revisions st1"] by (simp_all add: ri)
    then have "ws_revisions st1 ! ri = (last (ws_revisions st0))\<lparr>wr_context_id := ev_context e, wr_lineage_root_rev := ev_work_rev e\<rparr>"
      using n(3) by (simp add: st1)
    then show ?thesis using n(1,2,6) len by (simp add: st1 charged_def rev_key_def)
  next
    case (Some i)
    note i = revision_index_Some [OF Some]
    have e: "ri = i" "st1 = st" using assms(1) Some by (auto simp: selection_revision_def split: if_splits)
    have k: "rev_key (ws_revisions st ! i) = (ev_task_id e, ev_work_rev e)" using i by (simp add: rev_key_def)
    have m: "rev_key (ws_revisions st ! i) \<in> rev_key ` set (ws_revisions st)" using i by simp
    show ?thesis using e i k m good_step_refl [OF assms(2)] by (simp add: charged_def)
  qed
  then show "good_step st st1" "ws_items st1 = ws_items st" "charged st st1 ri"
    "rev_key (ws_revisions st1 ! ri) = (ev_task_id e, ev_work_rev e)"
    "wr_repair_attempts (ws_revisions st1 ! ri) = 0 \<or> (ev_task_id e, ev_work_rev e) \<in> rev_key ` set (ws_revisions st)" by blast+
qed

text \<open>The store after the charged revision was replaced and the steps changed.\<close>

lemma charge_keeps:
  assumes "good_step st st1" and "charged st st1 ri" and "ws_items st1 = ws_items st"
    and "ws_revisions st' = (ws_revisions st1)[ri := r]" and "rev_key r = rev_key (ws_revisions st1 ! ri)"
    and "revision_inv r" and "rev_le (ws_revisions st1 ! ri) r"
    and "rev_key r \<notin> rev_key ` set (ws_revisions st) \<Longrightarrow> wr_semantic_steps r \<le> 1 \<and> wr_repair_attempts r \<le> 1"
    and "ledger_inv (st1\<lparr>ws_items := ws_items st'\<rparr>)" and "evolves step_key step_le (ws_items st) (ws_items st')"
  shows "good_step st st'"
proof -
  have ri: "ri < length (ws_revisions st1)" using assms(2) by (simp add: charged_def)
  have st': "st' = (st1\<lparr>ws_items := ws_items st'\<rparr>)\<lparr>ws_revisions := (ws_revisions st1)[ri := r]\<rparr>" using assms(4) by simp
  have inv: "ledger_inv st'" by (subst st') (use ledger_update_revision [OF assms(9), of ri r] ri assms(5,6) in simp)
  have d: "distinct (map rev_key (ws_revisions st1))" using assms(1) by (simp add: good_step_def ledger_inv_def)
  have e1: "evolves rev_key rev_le (ws_revisions st1) (ws_revisions st')"
    using evolves_update [where le = rev_le, OF d rev_le_refl ri assms(5,7)] assms(4) by simp
  have e2: "evolves rev_key rev_le (ws_revisions st) (ws_revisions st')"
    by (rule evolves_trans [OF _ e1 rev_le_trans])
      (use assms(1,4,5) keys_update [OF ri, of rev_key r] in \<open>auto simp: good_step_def store_le_def\<close>)
  have "inherits st q" if q: "q \<in> set (ws_revisions st')" "rev_key q \<notin> rev_key ` set (ws_revisions st)" for q
  proof (cases "q = r")
    case True
    then show ?thesis using q(2) assms(2,5,7,8) by (auto simp: inherits_def charged_def rev_le_def rev_key_def)
  next
    case False
    then have "q \<in> set (ws_revisions st1)" using q(1) assms(4) set_update_subset_insert [of "ws_revisions st1" ri r] by auto
    then show ?thesis using q(2) assms(1) by (simp add: good_step_def new_inherit_def)
  qed
  then show ?thesis using inv e2 assms(10) by (simp add: good_step_def store_le_def new_inherit_def)
qed

lemma count_repair_cases:
  assumes "count_repair st1 ri e = Some (b, st2)" and "ri < length (ws_revisions st1)"
  obtains "b = False" "st2 = st1"
  | si where "b = True" "si < length (ws_items st1)" "wr_repair_attempts (ws_revisions st1 ! ri) < RT_WORK_REPAIR_ATTEMPT_LIMIT"
      "st2 = st1\<lparr>ws_revisions := (ws_revisions st1)[ri := (ws_revisions st1 ! ri)
          \<lparr>wr_repair_attempts := wr_repair_attempts (ws_revisions st1 ! ri) + 1\<rparr>],
        ws_items := (ws_items st1)[si := (ws_items st1 ! si)\<lparr>wk_repair_state := ''repair_selected''\<rparr>]\<rparr>"
proof (cases "step_result_index st1 (ev_task_id e) (ev_work_rev e) (ev_trigger e)")
  case (Some si)
  have si: "si < length (ws_items st1)" using Some find_index_SomeD unfolding step_result_index_def by blast
  show thesis
  proof (cases "repairable (ws_items st1 ! si)")
    case True
    have lim: "wr_repair_attempts (ws_revisions st1 ! ri) < RT_WORK_REPAIR_ATTEMPT_LIMIT"
      using assms(1) Some True by (simp add: count_repair_def split: if_splits)
    show thesis by (rule that(2) [OF _ si lim]) (use assms(1) Some True lim in \<open>simp_all add: count_repair_def\<close>)
  next
    case False
    then have "(False, st1) = (b, st2)" using assms(1) Some by (simp add: count_repair_def)
    then show thesis using that(1) by blast
  qed
next
  case None
  then have "(False, st1) = (b, st2)" using assms(1) by (simp add: count_repair_def)
  then show thesis using that(1) by blast
qed

lemma selected_step_inv:
  "ev_task_id e \<noteq> [] \<Longrightarrow> 0 < ev_work_rev e \<Longrightarrow> ev_request_id e \<noteq> [] \<Longrightarrow> step_inv (selected_step env e payload i b)"
  by (simp add: selected_step_def fresh_step_def zero_step_def step_inv_def)

lemma step_key_selected: "step_key (selected_step env e payload i b) = (ev_task_id e, ev_work_rev e, ev_request_id e)"
  by (simp add: selected_step_def step_key_def)

text \<open>The repair count and the mark on the failed step, with the selection count or without it.\<close>

lemma repair_keeps:
  assumes "good_step st st1" and "charged st st1 ri" and "ws_items st1 = ws_items st" and "count_repair st1 ri e = Some (b, st2)"
    and "wr_repair_attempts (ws_revisions st1 ! ri) = 0 \<or> rev_key (ws_revisions st1 ! ri) \<in> rev_key ` set (ws_revisions st)"
  shows "good_step st st2" and "\<exists>n. ws_revisions st2 = (ws_revisions st1)[ri := (ws_revisions st1 ! ri)\<lparr>wr_repair_attempts := n\<rparr>] \<and>
      wr_repair_attempts (ws_revisions st1 ! ri) \<le> n \<and> n \<le> wr_repair_attempts (ws_revisions st1 ! ri) + 1 \<and> n \<le> RT_WORK_REPAIR_ATTEMPT_LIMIT"
    and "step_key ` set (ws_items st2) = step_key ` set (ws_items st1)"
proof -
  have ri: "ri < length (ws_revisions st1)" and inv: "ledger_inv st1" using assms(1,2) by (simp_all add: charged_def good_step_def)
  note rinv = ledger_revision [OF inv ri]
  have r: "revision_inv ((ws_revisions st1 ! ri)\<lparr>wr_repair_attempts := n\<rparr>)" "rev_le (ws_revisions st1 ! ri) ((ws_revisions st1 ! ri)\<lparr>wr_repair_attempts := n\<rparr>)"
    if "wr_repair_attempts (ws_revisions st1 ! ri) \<le> n" "n \<le> RT_WORK_REPAIR_ATTEMPT_LIMIT" for n
    using rinv that by (auto simp: revision_inv_def rev_le_def)
  have "good_step st st2 \<and> (\<exists>n. ws_revisions st2 = (ws_revisions st1)[ri := (ws_revisions st1 ! ri)\<lparr>wr_repair_attempts := n\<rparr>] \<and>
      wr_repair_attempts (ws_revisions st1 ! ri) \<le> n \<and> n \<le> wr_repair_attempts (ws_revisions st1 ! ri) + 1 \<and> n \<le> RT_WORK_REPAIR_ATTEMPT_LIMIT) \<and>
      step_key ` set (ws_items st2) = step_key ` set (ws_items st1)"
    using count_repair_cases [OF assms(4) ri]
  proof cases
    case 1
    then show ?thesis using assms(1) rinv by (auto intro!: exI [of _ "wr_repair_attempts (ws_revisions st1 ! ri)"] simp: revision_inv_def)
  next
    case (2 si)
    let ?n = "wr_repair_attempts (ws_revisions st1 ! ri) + 1"
    let ?y = "(ws_items st1 ! si)\<lparr>wk_repair_state := ''repair_selected''\<rparr>"
    have y: "step_inv ?y" "step_key ?y = step_key (ws_items st1 ! si)" "step_le (ws_items st1 ! si) ?y"
      using ledger_step [OF inv 2(2)] by (auto simp: step_inv_def step_key_def step_le_def)
    have n: "wr_repair_attempts (ws_revisions st1 ! ri) \<le> ?n" "?n \<le> RT_WORK_REPAIR_ATTEMPT_LIMIT" using 2(3) by simp_all
    have li: "ledger_inv (st1\<lparr>ws_items := (ws_items st1)[si := ?y]\<rparr>)" by (rule ledger_update_step [OF inv 2(2) y(1,2)])
    have d: "distinct (map step_key (ws_items st1))" using inv by (simp add: ledger_inv_def)
    have ev: "evolves step_key step_le (ws_items st) ((ws_items st1)[si := ?y])"
      using evolves_update [where le = step_le, OF d step_le_refl 2(2) y(2,3)] assms(3) by simp
    have "good_step st st2"
      by (rule charge_keeps [OF assms(1,2,3), of st2 "(ws_revisions st1 ! ri)\<lparr>wr_repair_attempts := ?n\<rparr>"])
        (use 2(4) r [OF n] li ev assms(2,5) in \<open>auto simp: rev_key_def charged_def\<close>)
    then show ?thesis using n 2(4) keys_update [of si "ws_items st1" step_key ?y, OF 2(2) y(2)] by (auto intro!: exI [of _ ?n])
  qed
  then show "good_step st st2" and "\<exists>n. ws_revisions st2 = (ws_revisions st1)[ri := (ws_revisions st1 ! ri)\<lparr>wr_repair_attempts := n\<rparr>] \<and>
      wr_repair_attempts (ws_revisions st1 ! ri) \<le> n \<and> n \<le> wr_repair_attempts (ws_revisions st1 ! ri) + 1 \<and> n \<le> RT_WORK_REPAIR_ATTEMPT_LIMIT"
    and "step_key ` set (ws_items st2) = step_key ` set (ws_items st1)" by blast+
qed

lemma action_request_keeps:
  assumes "apply_action_request env st e payload event_id = (rc, st')" and "ledger_inv st" and "ev_task_id e \<noteq> []"
    and "copy_into RT_SMALL (ev_task_id e) = ev_task_id e" and "0 < ev_work_rev e" and "ev_request_id e \<noteq> []"
  shows "good_step st st'"
proof (cases "st' = st")
  case False
  have none: "step_index st (ev_task_id e) (ev_work_rev e) (ev_request_id e) = None"
    using assms(1) False by (auto simp: apply_action_request_def Let_def split: if_splits option.splits)
  have tr: "ev_trigger e \<noteq> []" using assms(1) False by (auto simp: apply_action_request_def)
  obtain ri st1 where s: "selection_revision env st e = Some (ri, st1)"
    using assms(1) False none tr by (auto simp: apply_action_request_def split: option.splits)
  note k = selection_revision_keeps [OF s assms(2-5)]
  have a: "apply_action_request env st e payload event_id =
      (case count_repair st1 ri e of
         None \<Rightarrow> (- 1, st1)
       | Some (repair, st2) \<Rightarrow>
           if wr_semantic_steps (ws_revisions st2 ! ri) \<ge> RT_WORK_SEMANTIC_STEP_LIMIT then (- 1, st2)
           else
             (case add_step env st2 (selected_step env e payload event_id repair) of
                None \<Rightarrow> (- 1, st2)
              | Some st3 \<Rightarrow>
                  (0, st3\<lparr>ws_revisions := (ws_revisions st3)[ri := count_selection e event_id (ws_revisions st3 ! ri)]\<rparr>)))"
    using none tr s by (simp add: apply_action_request_def)
  show ?thesis
  proof (cases "count_repair st1 ri e")
    case (Some p)
    obtain b st2 where p: "p = (b, st2)" by (rule prod.exhaust)
    have kk: "wr_repair_attempts (ws_revisions st1 ! ri) = 0 \<or> rev_key (ws_revisions st1 ! ri) \<in> rev_key ` set (ws_revisions st)"
      using k(4,5) by simp
    note r = repair_keeps [OF k(1,3,2) Some [unfolded p] kk]
    obtain n where n: "ws_revisions st2 = (ws_revisions st1)[ri := (ws_revisions st1 ! ri)\<lparr>wr_repair_attempts := n\<rparr>]"
      "wr_repair_attempts (ws_revisions st1 ! ri) \<le> n" "n \<le> wr_repair_attempts (ws_revisions st1 ! ri) + 1" "n \<le> RT_WORK_REPAIR_ATTEMPT_LIMIT"
      using r(2) by blast
    show ?thesis
    proof (cases "st' = st2")
      case False
      obtain st3 where lim: "wr_semantic_steps (ws_revisions st2 ! ri) < RT_WORK_SEMANTIC_STEP_LIMIT"
        and ad: "add_step env st2 (selected_step env e payload event_id b) = Some st3"
        and st': "st' = st3\<lparr>ws_revisions := (ws_revisions st3)[ri := count_selection e event_id (ws_revisions st3 ! ri)]\<rparr>"
        using assms(1) False unfolding a Some p by (auto split: if_splits option.splits)
      have inv2: "ledger_inv st2" and ev2: "evolves step_key step_le (ws_items st) (ws_items st2)"
        using r(1) by (simp_all add: good_step_def store_le_def)
      have ri: "ri < length (ws_revisions st1)" using k(3) by (simp add: charged_def)
      have new: "step_key (selected_step env e payload event_id b) \<notin> step_key ` set (ws_items st)"
        using none by (simp add: step_index_None step_key_selected)
      then have new2: "step_key (selected_step env e payload event_id b) \<notin> step_key ` set (ws_items st2)" using r(3) k(2) by simp
      note x = evolves_add_step [OF inv2 ad new ev2]
      note inv3 = ledger_add_step [OF inv2 ad selected_step_inv new2, OF assms(3,5,6)]
      define q where "q = count_selection e event_id ((ws_revisions st1 ! ri)\<lparr>wr_repair_attempts := n\<rparr>)"
      have st'r: "ws_revisions st' = (ws_revisions st1)[ri := q]" using ri by (simp add: st' x(2) n(1) q_def)
      have st'i: "ws_items st' = ws_items st3" by (simp add: st')
      have rinv: "revision_inv (ws_revisions st1 ! ri)" using k(1) ledger_revision [OF _ ri] by (simp add: good_step_def)
      have s1: "wr_semantic_steps (ws_revisions st1 ! ri) < RT_WORK_SEMANTIC_STEP_LIMIT" using lim ri by (simp add: n(1))
      have q: "revision_inv q" "rev_le (ws_revisions st1 ! ri) q" "rev_key q = rev_key (ws_revisions st1 ! ri)"
        using rinv s1 n(2,4) by (auto simp: q_def count_selection_def revision_inv_def rev_le_def rev_key_def)
      have small: "wr_semantic_steps q \<le> 1 \<and> wr_repair_attempts q \<le> 1" if "rev_key q \<notin> rev_key ` set (ws_revisions st)"
        using that q(3) k(3) kk n(3) by (auto simp: q_def count_selection_def charged_def)
      have li: "ledger_inv (st1\<lparr>ws_items := ws_items st'\<rparr>)" using inv3 k(1) by (simp add: st'i ledger_inv_def good_step_def)
      have ei: "evolves step_key step_le (ws_items st) (ws_items st')" using x(1) by (simp add: st'i)
      show ?thesis by (rule charge_keeps [OF k(1,3,2) st'r q(3,1,2) _ li ei]) (rule small)
    qed (use r(1) in simp)
  qed (use assms(1) k(1) in \<open>simp add: a\<close>)
qed (use good_step_refl [OF assms(2)] in simp)

section \<open>The whole reducer\<close>

lemma good_step_items:
  "ledger_inv st' \<Longrightarrow> evolves step_key step_le (ws_items st) (ws_items st') \<Longrightarrow> ws_revisions st' = ws_revisions st \<Longrightarrow> good_step st st'"
  by (auto simp: good_step_def store_le_def new_inherit_def ledger_inv_def evolves_refl)

lemma stale_step_inv: "ev_task_id e \<noteq> [] \<Longrightarrow> 0 < ev_work_rev e \<Longrightarrow> ev_request_id e \<noteq> [] \<Longrightarrow> step_inv (stale_step e)"
  by (simp add: stale_step_def fresh_step_def zero_step_def step_inv_def)

lemma without_step_keeps:
  assumes "apply_without_step env type e payload pj event_id st = (rc, st')" and "ledger_inv st"
    and "ev_task_id e \<noteq> []" and "0 < ev_work_rev e" and "ev_request_id e \<noteq> []"
    and "step_index st (ev_task_id e) (ev_work_rev e) (ev_request_id e) = None" and "event_id \<noteq> []" and "type \<noteq> []"
  shows "good_step st st'"
proof (cases "st' = st")
  case False
  obtain st1 where ad: "add_step env st (stale_step e) = Some st1"
    and ap: "apply_step_at env type e payload pj event_id (length (ws_items st1) - 1) st1 = (rc, st')"
    using assms(1) False by (auto simp: apply_without_step_def split: if_splits prod.splits option.splits)
  have new: "step_key (stale_step e) \<notin> step_key ` set (ws_items st)"
    using assms(6) by (simp add: step_index_None stale_step_def step_key_def)
  note inv1 = ledger_add_step [OF assms(2) ad stale_step_inv [OF assms(3,4,5)] new]
  have ev0: "evolves step_key step_le (ws_items st) (ws_items st)" using store_le_refl [OF assms(2)] by (simp add: store_le_def)
  note e1 = evolves_add_step [OF assms(2) ad new ev0]
  have "ws_items st1 \<noteq> []" using ad by (auto simp: add_step_def split: option.splits)
  then have l: "length (ws_items st1) - 1 < length (ws_items st1)" by simp
  note a = apply_step_at_keeps [OF ap inv1 l assms(7,8)]
  have "evolves step_key step_le (ws_items st) (ws_items st')" by (rule evolves_trans [OF e1(1) _ step_le_trans]) (use a in auto)
  then show ?thesis using a e1(2) good_step_items by simp
qed (use good_step_refl [OF assms(2)] in simp)

lemma step_event_keeps:
  assumes "apply_step_event env type e payload pj event_id st = (rc, st')" and "ledger_inv st"
    and "copy_into RT_SMALL (ev_task_id e) = ev_task_id e" and "event_id \<noteq> []" and "type \<noteq> []"
  shows "good_step st st'"
proof (cases "st' = st")
  case False
  then have b: "ev_task_id e \<noteq> []" "0 < ev_work_rev e" "ev_request_id e \<noteq> []"
    using assms(1) by (auto simp: apply_step_event_def split: if_splits)
  show ?thesis
  proof (cases "type = ''action_request''")
    case True
    then have "apply_action_request env st e payload event_id = (rc, st')"
      using assms(1) b by (simp add: apply_step_event_def is_terminal_type_def)
    then show ?thesis using action_request_keeps assms(2,3) b by blast
  next
    case False
    then have ap: "(case step_index st (ev_task_id e) (ev_work_rev e) (ev_request_id e) of
           Some idx \<Rightarrow> apply_step_at env type e payload pj event_id idx st
         | None \<Rightarrow> apply_without_step env type e payload pj event_id st) = (rc, st')"
      using assms(1) \<open>st' \<noteq> st\<close> by (auto simp: apply_step_event_def split: if_splits)
    show ?thesis
    proof (cases "step_index st (ev_task_id e) (ev_work_rev e) (ev_request_id e)")
      case None
      then show ?thesis using ap without_step_keeps [OF _ assms(2) b None assms(4,5)] by simp
    next
      case (Some i)
      then have "apply_step_at env type e payload pj event_id i st = (rc, st')" using ap by simp
      then show ?thesis using apply_step_at_keeps [OF _ assms(2) _ assms(4,5)] step_index_Some [OF Some] good_step_items by blast
    qed
  qed
qed (use good_step_refl [OF assms(2)] in simp)

lemma apply_to_store_keeps:
  assumes "apply_to_store env st ctx type pj event_id = (rc, st')" and "ledger_inv st"
  shows "good_step st st'"
proof (cases "\<not> rt_work_state_is_event_type type \<or> event_id = [] \<or> json_ref_top_object pj = None")
  case True
  then show ?thesis using assms good_step_refl by (auto simp: apply_to_store_def split: if_splits)
next
  case False
  then obtain payload where p: "json_ref_top_object pj = Some payload" and e: "event_id \<noteq> []" and t: "type \<noteq> []"
    and b: "(if type = ''task_created'' \<or> type = ''task_updated'' then apply_revision_event env st ctx type payload
             else apply_step_event env type (read_event ctx payload) payload pj event_id st) = (rc, st')"
    using assms(1) by (auto simp: apply_to_store_def rt_work_state_is_event_type_def)
  show ?thesis
  proof (cases "type = ''task_created'' \<or> type = ''task_updated''")
    case True
    then show ?thesis using b revision_event_keeps [OF _ assms(2)] by simp
  next
    case False
    then have "apply_step_event env type (read_event ctx payload) payload pj event_id st = (rc, st')" using b by simp
    then show ?thesis using step_event_keeps [OF _ assms(2) read_event_task e t] by blast
  qed
qed

end
