(* ===== verification/Work_Replay.thy ===== *)
theory Work_Replay
  imports Work_Safety
begin

text \<open>
  An event that the work ledger accepted can be applied again at once without any effect, the
  idempotence on which the rebuild over an existing ledger rests; and an example of a late replay
  that is refused although its event is already reflected.
\<close>

section \<open>Finding a record again\<close>

lemma found_revision:
  assumes "ledger_inv st" and "r \<in> set (ws_revisions st)" and "rev_key r = (t, w)"
  obtains i where "revision_index st t w = Some i" and "ws_revisions st ! i = r"
proof -
  have "revision_index st t w \<noteq> None" using assms(2,3) by (metis image_eqI revision_index_None)
  then obtain i where i: "revision_index st t w = Some i" by blast
  have "ws_revisions st ! i \<in> set (ws_revisions st)" "rev_key (ws_revisions st ! i) = rev_key r"
    using revision_index_Some [OF i] assms(3) by (simp_all add: rev_key_def)
  then have "ws_revisions st ! i = r" using assms(1,2) by (auto simp: ledger_inv_def distinct_map inj_on_def)
  then show thesis using i that by blast
qed

lemma found_step:
  assumes "ledger_inv st" and "x \<in> set (ws_items st)" and "step_key x = (t, w, q)"
  obtains i where "step_index st t w q = Some i" and "ws_items st ! i = x"
proof -
  have "step_index st t w q \<noteq> None" using assms(2,3) by (metis image_eqI step_index_None)
  then obtain i where i: "step_index st t w q = Some i" by blast
  have "ws_items st ! i \<in> set (ws_items st)" "step_key (ws_items st ! i) = step_key x"
    using step_index_Some [OF i] assms(3) by simp_all
  then have "ws_items st ! i = x" using assms(1,2) by (auto simp: ledger_inv_def distinct_map inj_on_def)
  then show thesis using i that by blast
qed

section \<open>One step\<close>

lemma copy_event: "length event_id < RT_SMALL \<Longrightarrow> copy_into RT_SMALL event_id = event_id"
  by (simp add: copy_into_def)

lemma terminal_evidence_sel:
  "wk_terminal_event_id (terminal_evidence env type p i x) = copy_into RT_SMALL i" "wk_terminal_kind (terminal_evidence env type p i x) = type"
  by (simp_all add: terminal_evidence_def Let_def)

lemma result_evidence_sel:
  "wk_result_event_id (result_evidence env type p pj i x) = copy_into RT_SMALL i" "wk_result_kind (result_evidence env type p pj i x) = type"
  by (simp_all add: result_evidence_def Let_def)

lemma apply_evidence_replay:
  assumes "apply_evidence env type p pj i x = (0, x')" and "i \<noteq> []" and "length i < RT_SMALL"
  shows "apply_evidence env type p pj i x' = (0, x')"
proof (cases "x' = x")
  case False
  note c = copy_event [OF assms(3)]
  show ?thesis
  proof (cases "type = ''action_started''")
    case True
    then have "x' = x\<lparr>wk_status := (if wk_result_event_id x = [] then ''started'' else wk_status x), wk_started_event_id := i\<rparr>"
      using assms(1) c by (simp add: apply_evidence_def split: if_splits)
    then show ?thesis using True c by (simp add: apply_evidence_def)
  next
    case na: False
    show ?thesis
    proof (cases "type = ''operation_started''")
      case True
      then have "x' = x\<lparr>wk_handle := get_string_or_empty p ''handle'' RT_SMALL,
          wk_status := (if wk_result_event_id x = [] then ''running'' else wk_status x)\<rparr>"
        using assms(1) by (simp add: apply_evidence_def Let_def split: if_splits)
      then show ?thesis using True by (simp add: apply_evidence_def Let_def)
    next
      case no: False
      have g: "\<not> (type = ''action_succeeded'' \<and> get_string_or_empty p ''continuation'' RT_SMALL \<in> {''managed_operation'', ''work_terminal''})"
        "get_string p ''source_event_id'' RT_SMALL = Some i"
        using assms(1) False na no by (auto simp: apply_evidence_def split: if_split_asm)
      show ?thesis
      proof (cases "is_terminal_type type")
        case True
        then have "x' = terminal_evidence env type p i x"
          using assms(1) False na no g by (simp add: apply_evidence_def split: if_split_asm)
        then show ?thesis using na no g True assms(2) c terminal_evidence_sel [of env type p i x]
          by (simp add: apply_evidence_def)
      next
        case nt: False
        then have "x' = result_evidence env type p pj i x"
          using assms(1) False na no g by (simp add: apply_evidence_def split: if_split_asm)
        then show ?thesis using na no g nt assms(2) c result_evidence_sel [of env type p pj i x]
          by (simp add: apply_evidence_def)
      qed
    qed
  qed
qed (use assms(1) in simp)

lemma apply_to_step_replay:
  assumes "apply_to_step env type e p pj i x = (0, x')" and "step_inv x" and "i \<noteq> []" and "length i < RT_SMALL" and "type \<noteq> []"
  shows "apply_to_step env type e p pj i x' = (0, x')"
proof -
  let ?y = "if ev_action e \<noteq> [] \<and> wk_action x = [] then x\<lparr>wk_action := ev_action e\<rparr> else x"
  have m: "\<not> evidence_mismatch e x" and a: "apply_evidence env type p pj i ?y = (0, x')"
    using assms(1) by (auto simp: apply_to_step_def split: if_split_asm)
  have y: "step_inv ?y" "ev_action e \<noteq> [] \<longrightarrow> wk_action ?y = ev_action e"
    using assms(2) m by (auto simp: step_inv_def evidence_mismatch_def)
  have "step_le ?y x'" using apply_evidence_keeps [OF a y(1) assms(3,5)] by (simp add: kept_def)
  then have k: "wk_selected_event_id x' = wk_selected_event_id x" "wk_context_id x' = wk_context_id x"
    "wk_trigger_event_id x' = wk_trigger_event_id x" "ev_action e \<noteq> [] \<longrightarrow> wk_action x' = ev_action e"
    using y(2) by (auto simp: step_le_def split: if_split_asm)
  then have "\<not> evidence_mismatch e x'" using m by (auto simp: evidence_mismatch_def)
  moreover have "(if ev_action e \<noteq> [] \<and> wk_action x' = [] then x'\<lparr>wk_action := ev_action e\<rparr> else x') = x'" using k(4) by auto
  ultimately show ?thesis using apply_evidence_replay [OF a assms(3,4)] by (simp add: apply_to_step_def)
qed

lemma apply_step_at_replay:
  assumes "apply_step_at env type e p pj i k st = (0, st')" and "ledger_inv st" and "k < length (ws_items st)"
    and "i \<noteq> []" and "length i < RT_SMALL" and "type \<noteq> []"
    and "step_key (ws_items st ! k) = (t, w, q)"
  shows "\<exists>j. step_index st' t w q = Some j \<and> apply_step_at env type e p pj i j st' = (0, st')"
proof -
  obtain x where x: "apply_to_step env type e p pj i (ws_items st ! k) = (0, x)" and st': "st' = st\<lparr>ws_items := (ws_items st)[k := x]\<rparr>"
    using assms(1) by (auto simp: apply_step_at_def split: prod.splits)
  note sk = apply_to_step_keeps [OF x ledger_step [OF assms(2,3)] assms(4,6)]
  have inv: "ledger_inv st'" using apply_step_at_keeps [OF assms(1-4,6)] by blast
  have "x \<in> set (ws_items st')" using assms(3) by (simp add: st' set_update_memI)
  then obtain j where j: "step_index st' t w q = Some j" "ws_items st' ! j = x" using found_step [OF inv] sk assms(7) by metis
  have "apply_to_step env type e p pj i x = (0, x)"
    by (rule apply_to_step_replay [OF x ledger_step [OF assms(2,3)] assms(4,5,6)])
  then have "apply_step_at env type e p pj i j st' = (0, st'\<lparr>ws_items := (ws_items st')[j := ws_items st' ! j]\<rparr>)"
    using j(2) by (simp add: apply_step_at_def)
  then show ?thesis using j(1) by simp
qed

section \<open>Every event\<close>

lemma added_last: "set_last_revision r st1 = st' \<Longrightarrow> ws_revisions st1 \<noteq> [] \<Longrightarrow> r \<in> set (ws_revisions st')"
  by (auto simp: set_last_revision_def intro!: set_update_memI)

lemma add_revision_last:
  assumes "add_revision env st t w = Some st1"
  shows "ws_revisions st1 \<noteq> []" and "last (ws_revisions st1) =
    zero_revision\<lparr>wr_task_id := copy_into RT_SMALL t, wr_work_rev := w, wr_lineage_root_rev := w\<rparr>"
  using assms by (auto simp: add_revision_def split: option.splits)

lemma add_step_revisions: "add_step env st x = Some st1 \<Longrightarrow> ws_revisions st1 = ws_revisions st"
  by (auto simp: add_step_def split: option.splits)

text \<open>The revision that a controller event adds carries the members that the replay compares.\<close>

lemma controller_added:
  assumes "apply_controller_revision env st p t c w = (0, st')" and "copy_into RT_SMALL t = t"
  obtains r pr q a tr where "r \<in> set (ws_revisions st')" and "rev_key r = (t, w)" and "wr_context_id r = c"
    and "controller_fields p = Some (pr, q, a, tr)"
    and "wr_parent_work_rev r = pr" and "wr_request_id r = q" and "wr_action r = a" and "wr_trigger_event_id r = tr"
proof (cases "controller_parent st p t c w")
  case (Some cp)
  obtain pr q a tr parent x where cp: "cp = (pr, q, a, tr, parent, x)" by (rule prod_cases6)
  note f = controller_parent_Some(8) [OF Some [unfolded cp]]
  obtain st1 where ad: "add_revision env st t w = Some st1"
    using assms(1) Some cp by (auto simp: apply_controller_revision_def split: option.splits)
  let ?r = "inherited_revision c pr q a tr parent x (last (ws_revisions st1))"
  let ?st2 = "set_last_revision ?r st1"
  have "ws_revisions st' = ws_revisions ?st2"
    using assms(1) Some cp ad add_step_revisions by (auto simp: apply_controller_revision_def Let_def split: if_splits option.splits)
  then have "?r \<in> set (ws_revisions st')" using added_last [OF refl add_revision_last(1) [OF ad]] by simp
  then show thesis by (rule that [OF _ _ _ f]) (simp_all add: inherited_revision_def rev_key_def add_revision_last(2) [OF ad] assms(2))
qed (use assms(1) in \<open>simp add: apply_controller_revision_def\<close>)

lemma revision_event_replay:
  assumes "apply_revision_event env st ctx type p = (0, st')" and "ledger_inv st" and "st' \<noteq> st"
  shows "apply_revision_event env st' ctx type p = (0, st')"
proof -
  obtain t w c orig where t: "get_string p ''task_id'' RT_SMALL = Some t"
    and eq: "\<forall>st. apply_revision_event env st ctx type p = revision_change env p t c w orig st"
    by (rule revision_event_cases [OF assms(1,3)]) blast
  have inv: "ledger_inv st'" using revision_event_keeps [OF assms(1,2)] by (simp add: good_step_def)
  have b: "revision_change env p t c w orig st = (0, st')" using eq assms(1) by simp
  have i: "revision_index st t w = None" using b assms(3) by (auto simp: revision_change_def split: option.splits)
  have "\<exists>r \<in> set (ws_revisions st'). rev_key r = (t, w) \<and> known_revision p orig c w r = 0"
  proof (cases "orig = ''controller''")
    case True
    then have "apply_controller_revision env st p t c w = (0, st')" using b i by (simp add: revision_change_def)
    then obtain r pr q a tr where r: "r \<in> set (ws_revisions st')" "rev_key r = (t, w)" "wr_context_id r = c"
      and "controller_fields p = Some (pr, q, a, tr)"
      and "wr_parent_work_rev r = pr" "wr_request_id r = q" "wr_action r = a" "wr_trigger_event_id r = tr"
      by (rule controller_added [OF _ copy_task [OF t]]) blast
    then have "known_revision p orig c w r = 0" using True by (simp add: known_revision_def)
    then show ?thesis using r by blast
  next
    case False
    then obtain st1 where a: "add_revision env st t w = Some st1"
      and st': "st' = set_last_revision ((last (ws_revisions st1))\<lparr>wr_context_id := c,
            wr_lineage_root_rev := w, wr_semantic_steps := 0, wr_repair_attempts := 0\<rparr>) st1"
      using b i by (auto simp: revision_change_def split: option.splits)
    let ?r = "(last (ws_revisions st1))\<lparr>wr_context_id := c, wr_lineage_root_rev := w, wr_semantic_steps := 0, wr_repair_attempts := 0\<rparr>"
    have "?r \<in> set (ws_revisions st')" by (rule added_last [OF st' [symmetric] add_revision_last(1) [OF a]])
    then show ?thesis using False
      by (intro bexI [of _ ?r]) (simp_all add: known_revision_def rev_key_def add_revision_last(2) [OF a] copy_task [OF t] zero_revision_def)
  qed
  then obtain r where r: "r \<in> set (ws_revisions st')" "rev_key r = (t, w)" "known_revision p orig c w r = 0" by blast
  obtain j where "revision_index st' t w = Some j" "ws_revisions st' ! j = r" by (rule found_revision [OF inv r(1,2)])
  then show ?thesis using r(3) by (simp add: eq revision_change_def)
qed

lemma request_replay:
  assumes "apply_action_request env st e p i = (0, st')" and "ledger_inv st'" and "st' \<noteq> st" and "length i < RT_SMALL"
  shows "apply_action_request env st' e p i = (0, st')"
proof -
  have tr: "ev_trigger e \<noteq> []" and none: "step_index st (ev_task_id e) (ev_work_rev e) (ev_request_id e) = None"
    using assms(1,3) by (auto simp: apply_action_request_def Let_def split: if_splits option.splits)
  obtain ri st1 b st2 st3 where "selection_revision env st e = Some (ri, st1)" "count_repair st1 ri e = Some (b, st2)"
    and ad: "add_step env st2 (selected_step env e p i b) = Some st3"
    and st': "st' = st3\<lparr>ws_revisions := (ws_revisions st3)[ri := count_selection e i (ws_revisions st3 ! ri)]\<rparr>"
    using assms(1) tr none by (auto simp: apply_action_request_def split: if_splits option.splits prod.splits)
  let ?x = "selected_step env e p i b"
  have "?x \<in> set (ws_items st3)" using ad by (auto simp: add_step_def split: option.splits)
  then have "?x \<in> set (ws_items st')" by (simp add: st')
  then obtain j where j: "step_index st' (ev_task_id e) (ev_work_rev e) (ev_request_id e) = Some j" "ws_items st' ! j = ?x"
    using found_step [OF assms(2)] step_key_selected by metis
  show ?thesis using tr j copy_event [OF assms(4)]
    by (simp add: apply_action_request_def) (simp add: selected_step_def)
qed

lemma without_step_replay:
  assumes "apply_without_step env type e p pj i st = (0, st')" and "ledger_inv st" and "st' \<noteq> st"
    and b: "ev_task_id e \<noteq> []" "0 < ev_work_rev e" "ev_request_id e \<noteq> []"
    and none: "step_index st (ev_task_id e) (ev_work_rev e) (ev_request_id e) = None"
    and i: "i \<noteq> []" "length i < RT_SMALL" "type \<noteq> []"
  shows "\<exists>j. step_index st' (ev_task_id e) (ev_work_rev e) (ev_request_id e) = Some j \<and> apply_step_at env type e p pj i j st' = (0, st')"
proof -
  obtain st1 where ad: "add_step env st (stale_step e) = Some st1"
    and ap: "apply_step_at env type e p pj i (length (ws_items st1) - 1) st1 = (0, st')"
    using assms(1,3) by (auto simp: apply_without_step_def split: if_splits prod.splits option.splits)
  have new: "step_key (stale_step e) \<notin> step_key ` set (ws_items st)"
    using none by (simp add: step_index_None stale_step_def step_key_def)
  note inv1 = ledger_add_step [OF assms(2) ad stale_step_inv [OF b] new]
  have l: "length (ws_items st1) - 1 < length (ws_items st1)" and x: "ws_items st1 ! (length (ws_items st1) - 1) = stale_step e"
    using ad by (auto simp: add_step_def nth_append split: option.splits)
  show ?thesis by (rule apply_step_at_replay [OF ap inv1 l i(1,2,3)]) (unfold x, simp add: stale_step_def step_key_def)
qed

lemma step_event_replay:
  assumes "apply_step_event env type e p pj i st = (0, st')" and "ledger_inv st" and "st' \<noteq> st"
    and "copy_into RT_SMALL (ev_task_id e) = ev_task_id e" and i: "i \<noteq> []" "length i < RT_SMALL" "type \<noteq> []"
  shows "apply_step_event env type e p pj i st' = (0, st')"
proof -
  have g: "ev_task_id e \<noteq> []" "0 < ev_work_rev e" "ev_request_id e \<noteq> []" "\<not> (is_terminal_type type \<and> ev_trigger e = [])"
    "\<not> (type = ''operation_started'' \<and> ev_trigger e = [])"
    using assms(1,3) by (auto simp: apply_step_event_def split: if_splits)
  have eq: "apply_step_event env type e p pj i s =
      (if type = ''action_request'' then apply_action_request env s e p i
       else (case step_index s (ev_task_id e) (ev_work_rev e) (ev_request_id e) of
           Some idx \<Rightarrow> apply_step_at env type e p pj i idx s
         | None \<Rightarrow> apply_without_step env type e p pj i s))" for s
    unfolding apply_step_event_def using g by auto
  show ?thesis
  proof (cases "type = ''action_request''")
    case True
    have "ledger_inv st'" using step_event_keeps [OF assms(1,2,4) i(1,3)] by (simp add: good_step_def)
    moreover have "apply_action_request env st e p i = (0, st')" using assms(1) True unfolding eq by simp
    ultimately show ?thesis unfolding eq using request_replay [OF _ _ assms(3) i(2)] True by simp
  next
    case False
    show ?thesis
    proof (cases "step_index st (ev_task_id e) (ev_work_rev e) (ev_request_id e)")
      case None
      then have "apply_without_step env type e p pj i st = (0, st')" using assms(1) False by (simp add: eq)
      from without_step_replay [OF this assms(2,3) g(1,2,3) None i] show ?thesis using False by (auto simp: eq)
    next
      case (Some k)
      note k = step_index_Some [OF Some]
      have "apply_step_at env type e p pj i k st = (0, st')" using assms(1) False Some by (simp add: eq)
      from apply_step_at_replay [OF this assms(2) _ i] k show ?thesis using False by (auto simp: eq)
    qed
  qed
qed

text \<open>
  C26. An accepted event is idempotent: applying it again to the ledger it produced succeeds and
  leaves the ledger as it is, for every type of event.
\<close>

theorem work_event_replay:
  assumes "ledger_reachable st" and "apply_to_store env st ctx type payload_json event_id = (0, st')" and "length event_id < RT_SMALL"
  shows "apply_to_store env st' ctx type payload_json event_id = (0, st')"
proof (cases "st' = st")
  case False
  note inv = ledger_reachable_inv [OF assms(1)]
  obtain payload where p: "json_ref_top_object payload_json = Some payload" and t: "rt_work_state_is_event_type type" and e: "event_id \<noteq> []"
    using assms(2) by (auto simp: apply_to_store_def split: if_splits option.splits)
  have tn: "type \<noteq> []" using t by (auto simp: rt_work_state_is_event_type_def)
  show ?thesis
  proof (cases "type = ''task_created'' \<or> type = ''task_updated''")
    case True
    then show ?thesis using assms(2) p t e revision_event_replay [OF _ inv False] by (simp add: apply_to_store_def)
  next
    case nr: False
    then have "apply_step_event env type (read_event ctx payload) payload payload_json event_id st = (0, st')"
      using assms(2) p t e by (simp add: apply_to_store_def)
    then show ?thesis using step_event_replay [OF _ inv False read_event_task e assms(3) tn] p t e nr by (simp add: apply_to_store_def)
  qed
qed (use assms in simp)

end
