(* ===== verification/Work_File.thy ===== *)
theory Work_File
  imports Work_State
begin

text \<open>
  The ledger on disk: the text that \<open>write_work_store\<close> builds is one JSON object with an array of
  revisions and an array of steps, and \<open>load_work_store\<close> reads every member of it back.
\<close>

section \<open>Well-formed records\<close>

definition revision_ok :: "work_revision \<Rightarrow> bool" where
  "revision_ok r \<longleftrightarrow>
     text_ok RT_MED (wr_context_id r) \<and>
     list_all (text_ok RT_SMALL) [wr_task_id r, wr_request_id r, wr_action r, wr_trigger_event_id r, wr_selected_event_id r] \<and>
     0 < wr_work_rev r \<and> wr_work_rev r \<le> LLONG_MAX \<and> long_ok (wr_parent_work_rev r) \<and>
     0 < wr_lineage_root_rev r \<and> wr_lineage_root_rev r \<le> LLONG_MAX \<and>
     0 \<le> wr_semantic_steps r \<and> wr_semantic_steps r \<le> RT_WORK_SEMANTIC_STEP_LIMIT \<and>
     0 \<le> wr_repair_attempts r \<and> wr_repair_attempts r \<le> RT_WORK_REPAIR_ATTEMPT_LIMIT"

definition step_ok :: "work_step \<Rightarrow> bool" where
  "step_ok x \<longleftrightarrow>
     text_ok RT_MED (wk_context_id x) \<and> wk_request_id x \<noteq> [] \<and> wk_repair_state x \<noteq> [] \<and>
     list_all (text_ok RT_SMALL)
       [wk_task_id x, wk_request_id x, wk_action x, wk_trigger_event_id x, wk_handle x, wk_status x, wk_selected_event_id x,
        wk_started_event_id x, wk_result_event_id x, wk_result_kind x, wk_terminal_event_id x, wk_terminal_kind x,
        wk_repair_state x] \<and>
     list_all (text_ok WORK_DETAIL_MAX) [wk_selected_args x, wk_detail x, wk_terminal_detail x] \<and>
     0 < wk_work_rev x \<and> wk_work_rev x \<le> LLONG_MAX"

text \<open>The numbers that fit the buffer of 128 bytes: 89 bytes are taken by the names and the marks.\<close>

definition numbers_fit :: "work_revision \<Rightarrow> bool" where
  "numbers_fit r \<longleftrightarrow>
     length (show_int (wr_work_rev r)) + length (show_int (wr_parent_work_rev r)) + length (show_int (wr_lineage_root_rev r)) +
     length (show_int (wr_semantic_steps r)) + length (show_int (wr_repair_attempts r)) < 39"

definition ledger_file_ok :: "work_store \<Rightarrow> bool" where
  "ledger_file_ok st \<longleftrightarrow>
     list_all revision_ok (ws_revisions st) \<and> list_all numbers_fit (ws_revisions st) \<and> list_all step_ok (ws_items st) \<and>
     length (ws_revisions st) \<le> WORK_REVISION_MAX_ITEMS \<and> length (ws_items st) \<le> WORK_STEP_MAX_ITEMS"

definition revision_fields :: "work_revision \<Rightarrow> (string \<times> string) list" where
  "revision_fields r =
     [(''context_id'', str_val (wr_context_id r)), (''task_id'', str_val (wr_task_id r)),
      (''work_rev'', show_int (wr_work_rev r)), (''parent_work_rev'', show_int (wr_parent_work_rev r)),
      (''lineage_root_rev'', show_int (wr_lineage_root_rev r)), (''semantic_steps'', show_int (wr_semantic_steps r)),
      (''repair_attempts'', show_int (wr_repair_attempts r)), (''request_id'', str_val (wr_request_id r)),
      (''action'', str_val (wr_action r)), (''trigger_event_id'', str_val (wr_trigger_event_id r)),
      (''selected_event_id'', str_val (wr_selected_event_id r))]"

definition step_texts :: "work_step \<Rightarrow> (string \<times> string) list" where
  "step_texts x =
     [(''request_id'', wk_request_id x), (''action'', wk_action x), (''trigger_event_id'', wk_trigger_event_id x),
      (''selected_args'', wk_selected_args x), (''handle'', wk_handle x), (''status'', wk_status x),
      (''selected_event_id'', wk_selected_event_id x), (''started_event_id'', wk_started_event_id x),
      (''result_event_id'', wk_result_event_id x), (''result_kind'', wk_result_kind x),
      (''terminal_event_id'', wk_terminal_event_id x), (''terminal_kind'', wk_terminal_kind x),
      (''repair_state'', wk_repair_state x), (''detail'', wk_detail x), (''terminal_detail'', wk_terminal_detail x)]"

definition str_fields :: "(string \<times> string) list \<Rightarrow> (string \<times> string) list" where
  "str_fields fs = map (\<lambda>(k, v). (k, str_val v)) fs"

definition step_fields :: "work_step \<Rightarrow> (string \<times> string) list" where
  "step_fields x =
     str_fields [(''context_id'', wk_context_id x), (''task_id'', wk_task_id x)] @ (''work_rev'', show_int (wk_work_rev x)) #
     str_fields (step_texts x)"

section \<open>The written text\<close>

lemma append_text_Some: "rt_append_text n out t = Some out' \<Longrightarrow> out' = out @ t \<and> length out' < n"
  by (auto simp: rt_append_text_def split: if_splits)

lemma append_escaped_field_text:
  assumes "append_escaped_field n out name v = Some out'"
  shows "out' = out @ member_text (name, str_val v)"
  using assms json_escape_text [of v "WORK_DETAIL_MAX * 6 + 1"]
  by (auto simp: append_escaped_field_def member_text_def str_val_def Let_def bind_eq_Some_conv
      split: prod.splits if_splits dest!: append_text_Some)

lemma append_fields_text:
  "append_fields n out fs = Some out' \<Longrightarrow> out' = out @ join_comma (map member_text (str_fields fs))"
proof (induction n out fs arbitrary: out' rule: append_fields.induct)
  case (3 n out name v f fs)
  then obtain o1 o2 where "append_escaped_field n out name v = Some o1" "rt_append_text n o1 '','' = Some o2"
    and "append_fields n o2 (f # fs) = Some out'" by (auto simp: bind_eq_Some_conv)
  then show ?case using 3(1) [of o1 o2 out'] append_escaped_field_text append_text_Some
    by (fastforce simp: str_fields_def)
qed (auto simp: str_fields_def dest: append_escaped_field_text)

lemma revision_numbers_text:
  assumes "numbers_fit r"
  shows \<open>revision_numbers r = '',"work_rev":'' @ show_int (wr_work_rev r) @ '',"parent_work_rev":'' @ show_int (wr_parent_work_rev r) @
       '',"lineage_root_rev":'' @ show_int (wr_lineage_root_rev r) @ '',"semantic_steps":'' @ show_int (wr_semantic_steps r) @
       '',"repair_attempts":'' @ show_int (wr_repair_attempts r) @ '',''\<close>
  using assms unfolding revision_numbers_def numbers_fit_def by (simp add: copy_into_def)

lemma step_numbers_text:
  assumes "0 < wk_work_rev x" and "wk_work_rev x \<le> LLONG_MAX"
  shows \<open>step_numbers x = '',"work_rev":'' @ show_int (wk_work_rev x) @ '',''\<close>
  using show_int_short [of "wk_work_rev x"] assms unfolding step_numbers_def by (simp add: copy_into_def)

definition sep :: "bool \<Rightarrow> string" where
  "sep first = (if first then [] else '','')"

lemma write_record_text:
  assumes "do {
       o1 \<leftarrow> (if first then Some out else rt_append_text n out '','');
       o2 \<leftarrow> rt_append_text n o1 ''{'';
       o3 \<leftarrow> append_fields n o2 before;
       o4 \<leftarrow> rt_append_text n o3 numbers;
       o5 \<leftarrow> append_fields n o4 behind;
       rt_append_text n o5 ''}''
     } = Some out'"
  shows "out' = out @ sep first @ CHR ''{'' # join_comma (map member_text (str_fields before)) @ numbers @
    join_comma (map member_text (str_fields behind)) @ ''}''"
  using assms by (auto simp: bind_eq_Some_conv sep_def split: if_splits dest!: append_text_Some append_fields_text)

lemma write_revision_text:
  assumes "write_revision n first r out = Some out'" and "numbers_fit r"
  shows "out' = out @ sep first @ obj_text (revision_fields r)"
  using write_record_text [OF assms(1) [unfolded write_revision_def]] unfolding revision_numbers_text [OF assms(2)]
  by (simp add: obj_text_def revision_fields_def str_fields_def member_text_def)

lemma write_step_text:
  assumes "write_step n first x out = Some out'" and "step_ok x"
  shows "out' = out @ sep first @ obj_text (step_fields x)"
proof -
  have "0 < wk_work_rev x" "wk_work_rev x \<le> LLONG_MAX" using assms(2) by (simp_all add: step_ok_def)
  note numbers = step_numbers_text [OF this]
  show ?thesis using write_record_text [OF assms(1) [unfolded write_step_def]] unfolding numbers
    by (simp add: obj_text_def step_fields_def step_texts_def str_fields_def member_text_def)
qed

lemma write_list_text:
  assumes "\<And>first x out out'. x \<in> set xs \<Longrightarrow> wr first x out = Some out' \<Longrightarrow> out' = out @ sep first @ txt x"
    and "write_list wr first xs out = Some out'"
  shows "out' = out @ (if xs = [] then [] else sep first) @ join_comma (map txt xs)"
  using assms
proof (induction xs arbitrary: first out)
  case (Cons x xs)
  obtain o1 where o1: "wr first x out = Some o1" "write_list wr False xs o1 = Some out'"
    using Cons.prems(2) by (auto split: option.splits)
  have "out' = o1 @ (if xs = [] then [] else sep False) @ join_comma (map txt xs)"
    by (rule Cons.IH [OF _ o1(2)]) (rule Cons.prems(1), simp_all)
  moreover have "o1 = out @ sep first @ txt x" by (rule Cons.prems(1) [OF _ o1(1)]) simp
  ultimately show ?case by (cases xs) (simp_all add: sep_def)
qed simp

abbreviation ledger_fields :: "work_store \<Rightarrow> (string \<times> string) list" where
  "ledger_fields st \<equiv>
     [(''revisions'', arr_text (map (obj_text \<circ> revision_fields) (ws_revisions st))),
      (''steps'', arr_text (map (obj_text \<circ> step_fields) (ws_items st)))]"

lemma work_store_text_printed:
  assumes "work_store_text st = Some doc" and "ledger_file_ok st"
  shows "doc = obj_text (ledger_fields st) @ [CHR 0x0A] \<and> length doc < WORK_STATE_SERIALIZED_MAX"
proof -
  obtain o1 o2 o3 o4 where o: \<open>rt_append_text WORK_STATE_SERIALIZED_MAX [] ''{"revisions":['' = Some o1\<close>
    "write_list (write_revision WORK_STATE_SERIALIZED_MAX) True (ws_revisions st) o1 = Some o2"
    \<open>rt_append_text WORK_STATE_SERIALIZED_MAX o2 ''],"steps":['' = Some o3\<close>
    "write_list (write_step WORK_STATE_SERIALIZED_MAX) True (ws_items st) o3 = Some o4"
    "rt_append_text WORK_STATE_SERIALIZED_MAX o4 ('']}'' @ [CHR 0x0A]) = Some doc"
    using assms(1) by (auto simp: work_store_text_def bind_eq_Some_conv)
  have r: "\<And>x. x \<in> set (ws_revisions st) \<Longrightarrow> numbers_fit x" and s: "\<And>x. x \<in> set (ws_items st) \<Longrightarrow> step_ok x"
    using assms(2) by (simp_all add: ledger_file_ok_def list_all_iff)
  have "o2 = o1 @ join_comma (map (obj_text \<circ> revision_fields) (ws_revisions st))"
    using write_list_text [OF write_revision_text [OF _ r] o(2)] by (simp add: sep_def comp_def split: if_splits)
  moreover have "o4 = o3 @ join_comma (map (obj_text \<circ> step_fields) (ws_items st))"
    using write_list_text [OF write_step_text [OF _ s] o(4)] by (simp add: sep_def comp_def split: if_splits)
  ultimately have "doc = obj_text (ledger_fields st) @ [CHR 0x0A]"
    using append_text_Some [OF o(1)] append_text_Some [OF o(3)] append_text_Some [OF o(5)]
    by (simp add: obj_text_def member_text_def arr_text_def)
  then show ?thesis using append_text_Some [OF o(5)] by blast
qed

section \<open>The text that fits is written\<close>

lemma append_text_fits: "length (out @ t) < n \<Longrightarrow> rt_append_text n out t = Some (out @ t)"
  by (simp add: rt_append_text_def)

lemma append_escaped_field_fits:
  assumes "length v < WORK_DETAIL_MAX" and "length name + 4 < RT_SMALL" and "length (out @ member_text (name, str_val v)) < n"
  shows "append_escaped_field n out name v = Some (out @ member_text (name, str_val v))"
  using assms json_escape_fits [of v "WORK_DETAIL_MAX * 6 + 1"]
  by (simp add: append_escaped_field_def append_text_fits member_text_def str_val_def)

definition small_fields :: "(string \<times> string) list \<Rightarrow> bool" where
  "small_fields fs \<longleftrightarrow> list_all (\<lambda>(name, v). length name + 4 < RT_SMALL \<and> length v < WORK_DETAIL_MAX) fs"

lemma append_fields_fits:
  "small_fields fs \<Longrightarrow> length (out @ join_comma (map member_text (str_fields fs))) < n \<Longrightarrow>
     append_fields n out fs = Some (out @ join_comma (map member_text (str_fields fs)))"
proof (induction n out fs rule: append_fields.induct)
  case (3 n out name v f fs)
  let ?o = "out @ member_text (name, str_val v)"
  have a: "append_escaped_field n out name v = Some ?o"
    using 3(2,3) by (intro append_escaped_field_fits) (simp_all add: small_fields_def str_fields_def)
  have b: "rt_append_text n ?o '','' = Some (?o @ '','')"
    using 3(3) by (intro append_text_fits) (simp add: str_fields_def)
  have "append_fields n (?o @ '','') (f # fs) = Some ((?o @ '','') @ join_comma (map member_text (str_fields (f # fs))))"
    using 3(2,3) by (intro 3(1) [OF a b]) (simp_all add: small_fields_def str_fields_def)
  then show ?case using a b by (simp add: str_fields_def)
qed (simp_all add: str_fields_def small_fields_def append_escaped_field_fits)

lemma write_record_fits:
  assumes "small_fields before" and "small_fields behind"
    and "length (out @ sep first @ CHR ''{'' # join_comma (map member_text (str_fields before)) @ numbers @
      join_comma (map member_text (str_fields behind)) @ ''}'') < n"
  shows "do {
       o1 \<leftarrow> (if first then Some out else rt_append_text n out '','');
       o2 \<leftarrow> rt_append_text n o1 ''{'';
       o3 \<leftarrow> append_fields n o2 before;
       o4 \<leftarrow> rt_append_text n o3 numbers;
       o5 \<leftarrow> append_fields n o4 behind;
       rt_append_text n o5 ''}''
     } \<noteq> None"
proof -
  have "(if first then Some out else rt_append_text n out '','') = Some (out @ sep first)"
    using assms(3) by (auto simp: sep_def append_text_fits)
  then show ?thesis using assms by (simp add: append_text_fits append_fields_fits)
qed

lemma write_list_fits:
  assumes "\<And>first x out. x \<in> set xs \<Longrightarrow> length (out @ sep first @ txt x) < n \<Longrightarrow> wr first x out = Some (out @ sep first @ txt x)"
    and "length (out @ (if xs = [] then [] else sep first) @ join_comma (map txt xs)) < n"
  shows "write_list wr first xs out = Some (out @ (if xs = [] then [] else sep first) @ join_comma (map txt xs))"
  using assms
proof (induction xs arbitrary: first out)
  case (Cons x xs)
  have j: "join_comma (map txt (x # xs)) = txt x @ (if xs = [] then [] else sep False) @ join_comma (map txt xs)"
    by (cases xs) (simp_all add: sep_def)
  have "write_list wr False xs (out @ sep first @ txt x) =
      Some ((out @ sep first @ txt x) @ (if xs = [] then [] else sep False) @ join_comma (map txt xs))"
    by (rule Cons.IH) (use Cons.prems j in \<open>auto split: if_splits\<close>)
  moreover have "wr first x out = Some (out @ sep first @ txt x)"
    by (rule Cons.prems(1)) (use Cons.prems(2) j in auto)
  ultimately show ?case unfolding j by simp
qed simp

lemma text_ok_small: "text_ok RT_SMALL s \<Longrightarrow> length s < WORK_DETAIL_MAX" "text_ok RT_MED s \<Longrightarrow> length s < WORK_DETAIL_MAX"
  "text_ok WORK_DETAIL_MAX s \<Longrightarrow> length s < WORK_DETAIL_MAX"
  by (auto simp: text_ok_def RT_SMALL_def RT_MED_def WORK_DETAIL_MAX_def)

lemma write_revision_fits:
  assumes "revision_ok r" and "numbers_fit r" and "length (out @ sep first @ obj_text (revision_fields r)) < n"
  shows "write_revision n first r out = Some (out @ sep first @ obj_text (revision_fields r))"
proof -
  have "write_revision n first r out \<noteq> None" unfolding write_revision_def
    by (rule write_record_fits)
      (use assms text_ok_small in \<open>simp_all add: revision_ok_def small_fields_def RT_SMALL_def revision_numbers_text obj_text_def
        revision_fields_def str_fields_def member_text_def\<close>)
  then show ?thesis using write_revision_text [OF _ assms(2)] by blast
qed

lemma write_step_fits:
  assumes "step_ok x" and "length (out @ sep first @ obj_text (step_fields x)) < n"
  shows "write_step n first x out = Some (out @ sep first @ obj_text (step_fields x))"
proof -
  have "0 < wk_work_rev x" "wk_work_rev x \<le> LLONG_MAX" using assms(1) by (simp_all add: step_ok_def)
  note numbers = step_numbers_text [OF this]
  have "write_step n first x out \<noteq> None" unfolding write_step_def
    by (rule write_record_fits)
      (use assms text_ok_small in \<open>simp_all add: step_ok_def small_fields_def RT_SMALL_def numbers obj_text_def
        step_fields_def step_texts_def str_fields_def member_text_def\<close>)
  then show ?thesis using write_step_text [OF _ assms(1)] by blast
qed

lemma work_store_text_fits:
  assumes "ledger_file_ok st" and "length (obj_text (ledger_fields st)) + 1 < WORK_STATE_SERIALIZED_MAX"
  shows "work_store_text st \<noteq> None"
proof -
  let ?rs = "join_comma (map (obj_text \<circ> revision_fields) (ws_revisions st))"
  let ?xs = "join_comma (map (obj_text \<circ> step_fields) (ws_items st))"
  let ?n = "WORK_STATE_SERIALIZED_MAX"
  have n: "length ?rs + length ?xs + 28 < ?n" using assms(2) by (simp add: obj_text_def member_text_def arr_text_def)
  have r: "revision_ok x \<and> numbers_fit x" if "x \<in> set (ws_revisions st)" for x
    using assms(1) that by (simp add: ledger_file_ok_def list_all_iff)
  have s: "step_ok x" if "x \<in> set (ws_items st)" for x
    using assms(1) that by (simp add: ledger_file_ok_def list_all_iff)
  let ?o1 = \<open>''{"revisions":[''\<close>
  have "rt_append_text ?n [] ?o1 = Some ([] @ ?o1)" by (rule append_text_fits) (use n in simp)
  moreover have "write_list (write_revision ?n) True (ws_revisions st) ?o1 = Some (?o1 @ (if ws_revisions st = [] then [] else sep True) @ ?rs)"
    by (rule write_list_fits [where n = ?n]) (use write_revision_fits r n in \<open>auto simp: sep_def\<close>)
  moreover have \<open>rt_append_text ?n (?o1 @ ?rs) ''],"steps":['' = Some ((?o1 @ ?rs) @ ''],"steps":['')\<close>
    by (rule append_text_fits) (use n in simp)
  moreover have \<open>write_list (write_step ?n) True (ws_items st) ((?o1 @ ?rs) @ ''],"steps":['') =
      Some (((?o1 @ ?rs) @ ''],"steps":['') @ (if ws_items st = [] then [] else sep True) @ ?xs)\<close>
    by (rule write_list_fits [where n = ?n]) (use write_step_fits s n in \<open>auto simp: sep_def\<close>)
  moreover have \<open>rt_append_text ?n (((?o1 @ ?rs) @ ''],"steps":['') @ ?xs) ('']}'' @ [CHR 0x0A]) =
      Some ((((?o1 @ ?rs) @ ''],"steps":['') @ ?xs) @ ('']}'' @ [CHR 0x0A]))\<close>
    by (rule append_text_fits) (use n in simp)
  ultimately show ?thesis by (simp add: work_store_text_def sep_def cong: if_cong)
qed

section \<open>Loading it back\<close>

lemma str_fields_ok: "list_all (\<lambda>(k, v). plain_key k) fs \<Longrightarrow> \<forall>(k, v) \<in> set (str_fields fs). plain_key k \<and> jvalue v \<and> no_nul v"
  using jvalue_str_val no_nul_str_val by (auto simp: str_fields_def list_all_iff)

lemma revision_fields_ok: "\<forall>(k, v) \<in> set (revision_fields r). plain_key k \<and> jvalue v \<and> no_nul v"
  using jvalue_str_val no_nul_str_val jvalue_show_int no_nul_show_int
  by (simp add: revision_fields_def plain_key_def char_class_defs)

lemma step_fields_ok: "\<forall>(k, v) \<in> set (step_fields x). plain_key k \<and> jvalue v \<and> no_nul v"
proof -
  have "list_all (\<lambda>(k, v). plain_key k) [(''context_id'', wk_context_id x), (''task_id'', wk_task_id x)]"
    "list_all (\<lambda>(k, v). plain_key k) (step_texts x)" and w: "plain_key ''work_rev''"
    by (simp_all add: step_texts_def plain_key_def char_class_defs)
  note f = this(1,2) [THEN str_fields_ok]
  have "plain_key ''work_rev'' \<and> jvalue (show_int (wk_work_rev x)) \<and> no_nul (show_int (wk_work_rev x))"
    using w jvalue_show_int no_nul_show_int by blast
  then show ?thesis unfolding step_fields_def set_append list.set ball_Un ball_simps(5,7) prod.case using f by blast
qed

lemma budget_long: "0 \<le> n \<Longrightarrow> n \<le> RT_WORK_SEMANTIC_STEP_LIMIT \<Longrightarrow> long_ok n" "0 \<le> n \<Longrightarrow> n \<le> RT_WORK_REPAIR_ATTEMPT_LIMIT \<Longrightarrow> long_ok n"
  by (simp_all add: long_ok_def LLONG_MIN_def LLONG_MAX_def work_sizes)

lemma map_of_revision_fields:
  "map_of (revision_fields r) ''context_id'' = Some (str_val (wr_context_id r))"
  "map_of (revision_fields r) ''task_id'' = Some (str_val (wr_task_id r))"
  "map_of (revision_fields r) ''work_rev'' = Some (show_int (wr_work_rev r))"
  "map_of (revision_fields r) ''parent_work_rev'' = Some (show_int (wr_parent_work_rev r))"
  "map_of (revision_fields r) ''lineage_root_rev'' = Some (show_int (wr_lineage_root_rev r))"
  "map_of (revision_fields r) ''semantic_steps'' = Some (show_int (wr_semantic_steps r))"
  "map_of (revision_fields r) ''repair_attempts'' = Some (show_int (wr_repair_attempts r))"
  "map_of (revision_fields r) ''request_id'' = Some (str_val (wr_request_id r))"
  "map_of (revision_fields r) ''action'' = Some (str_val (wr_action r))"
  "map_of (revision_fields r) ''trigger_event_id'' = Some (str_val (wr_trigger_event_id r))"
  "map_of (revision_fields r) ''selected_event_id'' = Some (str_val (wr_selected_event_id r))"
  by (simp_all add: revision_fields_def)

lemma load_revision_printed:
  assumes "at_span item (obj_text (revision_fields r))" and "revision_ok r"
  shows "load_revision item = Some r"
proof -
  have f: "\<forall>(k, v) \<in> set (revision_fields r). plain_key k \<and> jvalue v" using revision_fields_ok by fast
  note gs = printed_get_string [OF assms(1) f] and gl = printed_get_long [OF assms(1) f] and m = map_of_revision_fields
  note ok = assms(2) [unfolded revision_ok_def]
  have strings: "get_string item ''task_id'' RT_SMALL = Some (wr_task_id r)"
    "get_string_or_empty item ''context_id'' RT_MED = wr_context_id r"
    "get_string_or_empty item ''request_id'' RT_SMALL = wr_request_id r"
    "get_string_or_empty item ''action'' RT_SMALL = wr_action r"
    "get_string_or_empty item ''trigger_event_id'' RT_SMALL = wr_trigger_event_id r"
    "get_string_or_empty item ''selected_event_id'' RT_SMALL = wr_selected_event_id r"
    using ok by (simp_all add: gs(1) [OF m(2)] gs(2) [OF m(1)] gs(2) [OF m(8)] gs(2) [OF m(9)] gs(2) [OF m(10)] gs(2) [OF m(11)])
  have n: "long_ok (wr_work_rev r)" "long_ok (wr_lineage_root_rev r)" "long_ok (wr_semantic_steps r)" "long_ok (wr_repair_attempts r)"
    "long_ok (wr_parent_work_rev r)"
    using ok positive_long budget_long by auto
  obtain v where v: "json_ref_object_get item ''repair_attempts'' = Some v" using gl(2) [OF m(7) n(4)] by blast
  show ?thesis using ok
    by (simp add: load_revision_def strings v gl(1) [OF m(3) n(1)] gl(1) [OF m(5) n(2)] gl(1) [OF m(6) n(3)] gl(1) [OF m(7) n(4)]
        gl(3) [OF m(4) n(5)] in_range_def)
qed

lemma step_field: "(k, v) \<in> set (step_texts x) \<Longrightarrow> map_of (step_fields x) k = Some (str_val v)"
proof -
  assume "(k, v) \<in> set (step_texts x)"
  then have "(k, str_val v) \<in> set (step_fields x)" by (force simp: step_fields_def str_fields_def)
  moreover have "distinct (map fst (step_fields x))" by (simp add: step_texts_def step_fields_def str_fields_def)
  ultimately show ?thesis by simp
qed

lemma load_step_printed:
  assumes "at_span item (obj_text (step_fields x))" and "step_ok x"
  shows "load_step item = Some x"
proof -
  have f: "\<forall>(k, v) \<in> set (step_fields x). plain_key k \<and> jvalue v" using step_fields_ok by fast
  note gs = printed_get_string [OF assms(1) f] and gl = printed_get_long [OF assms(1) f]
  note ok = assms(2) [unfolded step_ok_def]
  have field: "get_string_or_empty item k n = v" if "(k, v) \<in> set (step_texts x)" "text_ok n v" for k v n
    using gs(2) [OF step_field [OF that(1)] that(2)] .
  have small: "get_string_or_empty item ''action'' RT_SMALL = wk_action x"
    "get_string_or_empty item ''trigger_event_id'' RT_SMALL = wk_trigger_event_id x"
    "get_string_or_empty item ''handle'' RT_SMALL = wk_handle x"
    "get_string_or_empty item ''status'' RT_SMALL = wk_status x"
    "get_string_or_empty item ''selected_event_id'' RT_SMALL = wk_selected_event_id x"
    "get_string_or_empty item ''started_event_id'' RT_SMALL = wk_started_event_id x"
    "get_string_or_empty item ''result_event_id'' RT_SMALL = wk_result_event_id x"
    "get_string_or_empty item ''result_kind'' RT_SMALL = wk_result_kind x"
    "get_string_or_empty item ''terminal_event_id'' RT_SMALL = wk_terminal_event_id x"
    "get_string_or_empty item ''terminal_kind'' RT_SMALL = wk_terminal_kind x"
    "get_string_or_empty item ''repair_state'' RT_SMALL = wk_repair_state x"
    using ok by (simp_all add: field step_texts_def)
  have detail: "get_string_or_empty item ''selected_args'' WORK_DETAIL_MAX = wk_selected_args x"
    "get_string_or_empty item ''detail'' WORK_DETAIL_MAX = wk_detail x"
    "get_string_or_empty item ''terminal_detail'' WORK_DETAIL_MAX = wk_terminal_detail x"
    using ok by (simp_all add: field step_texts_def)
  have "map_of (step_fields x) ''request_id'' = Some (str_val (wk_request_id x))" by (rule step_field) (simp add: step_texts_def)
  moreover have "map_of (step_fields x) ''task_id'' = Some (str_val (wk_task_id x))"
    "map_of (step_fields x) ''context_id'' = Some (str_val (wk_context_id x))"
    "map_of (step_fields x) ''work_rev'' = Some (show_int (wk_work_rev x))" by (simp_all add: step_fields_def str_fields_def)
  ultimately have "get_string item ''request_id'' RT_SMALL = Some (wk_request_id x)"
    "get_string item ''task_id'' RT_SMALL = Some (wk_task_id x)" "get_string_or_empty item ''context_id'' RT_MED = wk_context_id x"
    "json_ref_object_get_long item ''work_rev'' = Some (wk_work_rev x)"
    using gs gl(1) ok positive_long [of "wk_work_rev x"] by simp_all
  then show ?thesis using small detail ok by (simp add: load_step_def)
qed

lemma load_revisions_printed:
  assumes "\<And>i. i < length rs \<Longrightarrow> \<exists>r'. json_ref_array_get a i = Some r' \<and> at_span r' (obj_text (revision_fields (rs ! i)))"
    and "list_all revision_ok rs" and "n \<le> length rs"
  shows "load_revisions a [n..<length rs] (take n rs) = Some rs"
  using assms(3)
proof (induction "length rs - n" arbitrary: n)
  case (Suc m)
  then have n: "n < length rs" by simp
  obtain r' where r: "json_ref_array_get a n = Some r'" "at_span r' (obj_text (revision_fields (rs ! n)))" using assms(1) [OF n] by blast
  have "load_revision r' = Some (rs ! n)" using load_revision_printed [OF r(2)] assms(2) n by (simp add: list_all_length)
  moreover have "[n..<length rs] = n # [Suc n..<length rs]" using n by (simp add: upt_conv_Cons)
  moreover have "take n rs @ [rs ! n] = take (Suc n) rs" using n by (simp add: take_Suc_conv_app_nth)
  ultimately show ?case using Suc(1) [of "Suc n"] Suc(2) n r(1) obj_span_type [OF r(2)] by simp
qed simp

lemma load_steps_printed:
  assumes "\<And>i. i < length xs \<Longrightarrow> \<exists>r'. json_ref_array_get a i = Some r' \<and> at_span r' (obj_text (step_fields (xs ! i)))"
    and "list_all step_ok xs" and "set is \<subseteq> {..<length xs}"
  shows "load_steps a is = map ((!) xs) is"
  using assms(3)
proof (induction "is")
  case (Cons i "is")
  then have i: "i < length xs" by simp
  obtain r' where r: "json_ref_array_get a i = Some r'" "at_span r' (obj_text (step_fields (xs ! i)))" using assms(1) [OF i] by blast
  have "load_step r' = Some (xs ! i)" using load_step_printed [OF r(2)] assms(2) i by (simp add: list_all_length)
  then show ?case using Cons r(1) obj_span_type [OF r(2)] by simp
qed simp

lemma load_work_store_text:
  assumes "work_store_text st = Some doc" and "ledger_file_ok st"
  shows "load_work_store (Some doc) = Some st"
proof -
  let ?rs = "map (obj_text \<circ> revision_fields) (ws_revisions st)" and ?xs = "map (obj_text \<circ> step_fields) (ws_items st)"
  let ?ms = "ledger_fields st"
  have doc: "doc = obj_text ?ms @ [CHR 0x0A]" "length doc < WORK_STATE_SERIALIZED_MAX"
    using work_store_text_printed [OF assms] by blast+
  have ok: "list_all revision_ok (ws_revisions st)" "list_all step_ok (ws_items st)"
      "length (ws_revisions st) \<le> WORK_REVISION_MAX_ITEMS" "length (ws_items st) \<le> WORK_STEP_MAX_ITEMS"
    using assms(2) by (simp_all add: ledger_file_ok_def)
  have rs: "list_all jvalue ?rs" "list_all no_nul ?rs" and xs: "list_all jvalue ?xs" "list_all no_nul ?xs"
    using record_text_ok revision_fields_ok step_fields_ok by (simp_all add: list_all_iff)
  have key: "plain_key ''revisions''" "plain_key ''steps''" by (simp_all add: plain_key_def char_class_defs)
  have ms: "\<forall>(k, v) \<in> set ?ms. plain_key k \<and> jvalue v"
    using key jarray_jvalue [OF jarray_printed [OF rs(1)]] jarray_jvalue [OF jarray_printed [OF xs(1)]] by simp
  have "no_nul doc" unfolding doc(1)
    using no_nul_obj_text [of ?ms] no_nul_plain [OF key(1)] no_nul_plain [OF key(2)] no_nul_join [OF rs(2)] no_nul_join [OF xs(2)]
    by (simp add: arr_text_def)
  then have rd: "fs_read_text (Some doc) FS_READ_TEXT_DEFAULT_CAP = Some doc"
    using doc(2) by (simp add: fs_read_text_def read_cap_def FS_READ_TEXT_DEFAULT_CAP_def WORK_STATE_SERIALIZED_MAX_def)
  obtain root where root: "json_ref_top_object doc = Some root" "at_ref root (obj_text ?ms)"
    unfolding doc(1) by (rule top_object_printed [OF ms, of "[CHR 0x0A]"]) (auto simp: char_class_defs)
  note get = at_ref_object_get [OF at_ref_span [OF root(2)] ms]
  obtain ra where ra: "json_ref_object_get root ''revisions'' = Some ra" "at_ref ra (arr_text ?rs)"
    using get [of "''revisions''"] by auto
  obtain xa where xa: "json_ref_object_get root ''steps'' = Some xa" "at_ref xa (arr_text ?xs)"
    using get [of "''steps''"] by auto
  have arr: "json_ref_object_get_array root ''revisions'' = Some ra" "json_ref_object_get_array root ''steps'' = Some xa"
    using ra xa arr_ref_type by (simp_all add: json_ref_object_get_array_def)
  have size: "json_ref_array_size ra = length (ws_revisions st)" "json_ref_array_size xa = length (ws_items st)"
    using at_ref_array(1) [OF ra(2) rs(1)] at_ref_array(1) [OF xa(2) xs(1)] by simp_all
  have "load_revisions ra [0..<length (ws_revisions st)] (take 0 (ws_revisions st)) = Some (ws_revisions st)"
    by (rule load_revisions_printed [OF _ ok(1)]) (use at_ref_array(2) [OF ra(2) rs(1)] in auto)
  moreover have "load_steps xa [0..<length (ws_items st)] = map ((!) (ws_items st)) [0..<length (ws_items st)]"
    by (rule load_steps_printed [OF _ ok(2)]) (use at_ref_array(2) [OF xa(2) xs(1)] in auto)
  ultimately show ?thesis using rd root(1) arr size ok(3,4) by (simp add: load_work_store_def map_nth)
qed


end
