(* ===== verification/Work_Rebuild.thy ===== *)
theory Work_Rebuild
  imports Work_Safety "HOL-Library.Multiset"
begin

text \<open>
  The rebuild of the work ledger from the event logs: which run directories it keeps under its
  cap, and that the ledger it writes is one that events can reach.
\<close>

section \<open>The runs that are kept\<close>

text \<open>The run numbers among the names of the directory.\<close>

definition run_numbers :: "string list \<Rightarrow> int list" where
  "run_numbers names = filter (\<lambda>n. 1 \<le> n) (List.map_filter scan_run_number names)"

definition smallest_at :: "(int \<times> string) list \<Rightarrow> nat \<Rightarrow> bool" where
  "smallest_at runs m \<longleftrightarrow> runs = [] \<or> m < length runs \<and> (\<forall>r \<in> set runs. fst (runs ! m) \<le> fst r)"

lemma min_run_from_smallest:
  "m < length runs \<Longrightarrow> set ks \<subseteq> {..<length runs} \<Longrightarrow>
     min_run_from runs m ks < length runs \<and> (\<forall>k \<in> insert m (set ks). fst (runs ! min_run_from runs m ks) \<le> fst (runs ! k))"
proof (induction ks arbitrary: m)
  case (Cons k ks)
  let ?m = "if fst (runs ! k) < fst (runs ! m) then k else m"
  have m: "?m < length runs" "set ks \<subseteq> {..<length runs}" using Cons.prems by auto
  have "fst (runs ! min_run_from runs ?m ks) \<le> fst (runs ! ?m)" using Cons.IH [OF m] by blast
  then have "fst (runs ! min_run_from runs ?m ks) \<le> fst (runs ! m)" "fst (runs ! min_run_from runs ?m ks) \<le> fst (runs ! k)"
    by (auto split: if_splits)
  then show ?case using Cons.IH [OF m] by simp
qed simp

lemma min_run_smallest: "smallest_at runs (min_run runs)"
proof (cases "runs = []")
  case False
  have "insert 0 (set [1..<length runs]) = {..<length runs}" using False by (auto simp: atLeastLessThan_def)
  then have "min_run runs < length runs" "\<forall>k < length runs. fst (runs ! min_run runs) \<le> fst (runs ! k)"
    using min_run_from_smallest [of 0 runs "[1..<length runs]"] False by (auto simp: min_run_def)
  then show ?thesis unfolding smallest_at_def by (metis in_set_conv_nth)
qed (simp add: smallest_at_def)

text \<open>The kept runs after some names with the numbers \<open>ns\<close>: what was dropped is no larger than what is kept.\<close>

definition newest :: "nat \<Rightarrow> int list \<Rightarrow> (int \<times> string) list \<Rightarrow> bool" where
  "newest cap ns runs \<longleftrightarrow>
     (\<exists>dropped. mset ns = mset (map fst runs) + dropped \<and> (\<forall>d \<in># dropped. \<forall>r \<in> set runs. d \<le> fst r) \<and>
        length runs = min cap (length ns))"

lemma newest_append: "newest cap ns runs \<Longrightarrow> length runs < cap \<Longrightarrow> newest cap (ns @ [n]) (runs @ [(n, s)])"
proof -
  assume "newest cap ns runs" and l: "length runs < cap"
  then obtain dropped where d: "mset ns = mset (map fst runs) + dropped" "length runs = min cap (length ns)"
    by (auto simp: newest_def)
  then have "length ns = length runs" using l by auto
  moreover have "length ns = length runs + size dropped" using arg_cong [OF d(1), of size] by simp
  ultimately have "dropped = {#}" by simp
  then show ?thesis using d l unfolding newest_def by (intro exI [of _ "{#}"]) auto
qed

lemma newest_skip:
  assumes "newest cap ns runs" and "\<forall>r \<in> set runs. n \<le> fst r" and "length runs = cap"
  shows "newest cap (ns @ [n]) runs"
proof -
  obtain dropped where d: "mset ns = mset (map fst runs) + dropped" "\<forall>d \<in># dropped. \<forall>r \<in> set runs. d \<le> fst r"
    "length runs = min cap (length ns)" using assms(1) by (auto simp: newest_def)
  then show ?thesis using assms(2,3) unfolding newest_def by (intro exI [of _ "add_mset n dropped"]) auto
qed

lemma newest_replace:
  assumes "newest cap ns runs" and "m < length runs" and "\<forall>r \<in> set runs. fst (runs ! m) \<le> fst r"
    and "fst (runs ! m) < n" and "length runs = cap"
  shows "newest cap (ns @ [n]) (runs[m := (n, s)])"
proof -
  obtain dropped where d: "mset ns = mset (map fst runs) + dropped" "\<forall>d \<in># dropped. \<forall>r \<in> set runs. d \<le> fst r"
    "length runs = min cap (length ns)" using assms(1) by (auto simp: newest_def)
  let ?x = "fst (runs ! m)"
  have mem: "runs ! m \<in> set runs" using assms(2) by simp
  have "mset (map fst (runs[m := (n, s)])) = add_mset n (mset (map fst runs) - {#?x#})"
    using assms(2) by (simp add: map_update mset_update)
  moreover have "?x \<in># mset (map fst runs)" using mem by simp
  ultimately have "mset (ns @ [n]) = mset (map fst (runs[m := (n, s)])) + add_mset ?x dropped" using d(1) by simp
  moreover have "\<forall>d \<in># add_mset ?x dropped. \<forall>r \<in> set (runs[m := (n, s)]). d \<le> fst r"
  proof (intro ballI)
    fix d r
    assume "d \<in># add_mset ?x dropped" and r: "r \<in> set (runs[m := (n, s)])"
    then have "d = ?x \<or> d \<in># dropped" by simp
    moreover have "r = (n, s) \<or> r \<in> set runs" using r set_update_subset_insert [of runs m "(n, s)"] by auto
    ultimately show "d \<le> fst r" using d(2) mem assms(3,4) by fastforce
  qed
  ultimately show ?thesis using d(3) assms(5) unfolding newest_def by (intro exI [of _ "add_mset ?x dropped"]) auto
qed

lemma keep_run_newest:
  assumes "newest cap ns runs" and "smallest_at runs m" and "0 < cap" and "keep_run cap name (runs, m) = (runs', m')"
  shows "newest cap (ns @ run_numbers [name]) runs' \<and> smallest_at runs' m'"
proof (cases "run_numbers [name] = []")
  case True
  then show ?thesis using assms by (auto simp: keep_run_def run_numbers_def List.map_filter_def split: option.splits if_splits)
next
  case False
  then obtain n where n: "scan_run_number name = Some n" "1 \<le> n" "run_numbers [name] = [n]"
    by (auto simp: run_numbers_def List.map_filter_def split: option.splits if_splits)
  let ?r = "(n, copy_into RT_SMALL name)"
  consider "length runs < cap" "runs' = runs @ [?r]" "m' = (if runs = [] \<or> n < fst (runs ! m) then length runs else m)"
    | "length runs = cap" "n \<le> fst (runs ! m)" "runs' = runs" "m' = m"
    | "length runs = cap" "fst (runs ! m) < n" "runs' = runs[m := ?r]" "m' = min_run runs'"
    using assms(1,4) n by (fastforce simp: keep_run_def newest_def Let_def split: if_splits)
  then show ?thesis
  proof cases
    case 1
    moreover have "smallest_at runs' m'" using 1 assms(2) by (fastforce simp: smallest_at_def nth_append)
    ultimately show ?thesis using newest_append [OF assms(1)] n(3) by simp
  next
    case 2
    then have "\<forall>r \<in> set runs. n \<le> fst r" using assms(2,3) by (fastforce simp: smallest_at_def)
    then show ?thesis using newest_skip [OF assms(1)] 2 assms(2) n(3) by simp
  next
    case 3
    then have "m < length runs" "\<forall>r \<in> set runs. fst (runs ! m) \<le> fst r" using assms(2,3) by (auto simp: smallest_at_def)
    then show ?thesis using newest_replace [OF assms(1)] 3 n(3) min_run_smallest by simp
  qed
qed

lemma run_numbers_append: "run_numbers (xs @ ys) = run_numbers xs @ run_numbers ys"
  by (simp add: run_numbers_def List.map_filter_def)

lemma kept_runs_newest:
  "0 < cap \<Longrightarrow> fold (keep_run cap) names ([], 0) = (runs, m) \<Longrightarrow> newest cap (run_numbers names) runs \<and> smallest_at runs m"
proof (induction names arbitrary: runs m rule: rev_induct)
  case Nil
  then show ?case by (auto simp: newest_def smallest_at_def run_numbers_def List.map_filter_def)
next
  case (snoc name names)
  obtain runs0 m0 where r: "fold (keep_run cap) names ([], 0) = (runs0, m0)" by (cases "fold (keep_run cap) names ([], 0)")
  then have k: "keep_run cap name (runs0, m0) = (runs, m)" using snoc.prems(2) by simp
  from keep_run_newest [OF _ _ snoc.prems(1) k] snoc.IH [OF snoc.prems(1) r] show ?case
    unfolding run_numbers_append [of names "[name]"] by blast
qed


section \<open>The rebuilt ledger\<close>

lemma replay_line_reachable: "ledger_reachable st \<Longrightarrow> ledger_reachable (fst (replay_line env c line (st, n)))"
  by (auto simp: replay_line_def split: option.splits prod.splits intro: ledger_reachable.event)

lemma fold_fst_invariant:
  assumes "\<And>x st n. P st \<Longrightarrow> P (fst (f x (st, n)))" and "P st"
  shows "P (fst (fold f xs (st, n)))"
  using assms(2)
proof (induction xs arbitrary: st n)
  case (Cons x xs)
  then show ?case using assms(1) [of st x n] by (cases "f x (st, n)") simp
qed simp

lemma rebuild_store_reachable:
  assumes "ledger_reachable st"
  shows "ledger_reachable (fst (rebuild_store env fs names st))"
proof -
  have "ledger_reachable (fst (replay_run env fs name (s, n)))" if "ledger_reachable s" for name s n
    using fold_fst_invariant [where P = ledger_reachable and f = "replay_line env (rebuild_context (rb_runstate fs name))",
        OF replay_line_reachable that]
    by (simp add: replay_run_def that split: option.splits)
  then show ?thesis unfolding rebuild_store_def using assms
    by (intro fold_fst_invariant [where P = ledger_reachable]) auto
qed

end
