(* ===== verification/Work_Run.thy ===== *)
theory Work_Run
  imports Work_Replay Work_File Work_Rebuild
begin

text \<open>
  A run of the work ledger: a task is created, an action is selected for it, the action fails and a
  repair is selected. Each event is evaluated on the model; the theorems of the component are
  applied to the ledgers of this run.
\<close>

definition demo_env :: work_env where
  "demo_env = \<lparr>we_task_rev = \<lambda>_. (0, 1), we_pending = \<lambda>_. 0, we_live_binding = \<lambda>_ _ _. True, we_malloc_ok = \<lambda>_. True\<rparr>"

definition demo_created :: string where
  \<open>demo_created = ''{"task_id":"t","kind":"work"}''\<close>

definition demo_request :: string where
  \<open>demo_request = ''{"task_id":"t","work_rev":1,"request_id":"r","action":"a","trigger_event_id":"e1"}''\<close>

definition demo_failed :: string where
  \<open>demo_failed = ''{"task_id":"t","work_rev":1,"request_id":"r","action":"a","trigger_event_id":"e1","source_event_id":"e3"}''\<close>

definition demo_repair :: string where
  \<open>demo_repair = ''{"task_id":"t","work_rev":1,"request_id":"q","action":"b","trigger_event_id":"e3"}''\<close>

definition demo_revision :: work_revision where
  "demo_revision = zero_revision\<lparr>wr_context_id := ''c'', wr_task_id := ''t'', wr_work_rev := 1, wr_lineage_root_rev := 1\<rparr>"

definition demo_used :: work_revision where
  "demo_used = demo_revision\<lparr>wr_semantic_steps := 1, wr_request_id := ''r'', wr_action := ''a'', wr_trigger_event_id := ''e1'',
     wr_selected_event_id := ''e2''\<rparr>"

definition demo_step :: work_step where
  "demo_step = zero_step\<lparr>wk_context_id := ''c'', wk_task_id := ''t'', wk_work_rev := 1, wk_request_id := ''r'', wk_action := ''a'',
     wk_trigger_event_id := ''e1'', wk_status := ''selected'', wk_selected_event_id := ''e2'', wk_repair_state := ''none''\<rparr>"

definition demo_failure :: work_step where
  "demo_failure = demo_step\<lparr>wk_status := ''failed'', wk_result_event_id := ''e3'', wk_result_kind := ''action_failed'',
     wk_repair_state := ''repair_available'', wk_detail := demo_failed\<rparr>"

definition demo1 :: work_store where
  "demo1 = \<lparr>ws_revisions = [demo_revision], ws_items = []\<rparr>"

definition demo2 :: work_store where
  "demo2 = \<lparr>ws_revisions = [demo_used], ws_items = [demo_step]\<rparr>"

definition demo3 :: work_store where
  "demo3 = \<lparr>ws_revisions = [demo_used], ws_items = [demo_failure]\<rparr>"

definition demo4 :: work_store where
  "demo4 =
     \<lparr>ws_revisions = [demo_used\<lparr>wr_semantic_steps := 2, wr_repair_attempts := 1, wr_request_id := ''q'', wr_action := ''b'',
        wr_trigger_event_id := ''e3'', wr_selected_event_id := ''e4''\<rparr>],
      ws_items = [demo_failure\<lparr>wk_repair_state := ''repair_selected''\<rparr>,
        demo_step\<lparr>wk_request_id := ''q'', wk_action := ''b'', wk_trigger_event_id := ''e3'', wk_selected_event_id := ''e4'',
          wk_repair_state := ''repair_attempt''\<rparr>]\<rparr>"

lemma demo_run1: "apply_to_store demo_env empty_store ''c'' ''task_created'' demo_created ''e1'' = (0, demo1)"
  by code_simp

lemma demo_run2: "apply_to_store demo_env demo1 ''c'' ''action_request'' demo_request ''e2'' = (0, demo2)"
  by code_simp

lemma demo_run3: "apply_to_store demo_env demo2 ''c'' ''action_failed'' demo_failed ''e3'' = (0, demo3)"
  by code_simp

lemma demo_run4: "apply_to_store demo_env demo3 ''c'' ''action_request'' demo_repair ''e4'' = (0, demo4)"
  by code_simp

lemmas demo_reachable1 = ledger_reachable.event [OF ledger_reachable.empty demo_run1]
lemmas demo_reachable2 = ledger_reachable.event [OF demo_reachable1 demo_run2]
lemmas demo_reachable3 = ledger_reachable.event [OF demo_reachable2 demo_run3]
lemmas demo_reachable4 = ledger_reachable.event [OF demo_reachable3 demo_run4]

theorem work_ledger_invariant_witness:
  "ledger_reachable demo4 \<and> list_all (\<lambda>r. wr_repair_attempts r \<le> RT_WORK_REPAIR_ATTEMPT_LIMIT) (ws_revisions demo4)"
  using demo_reachable4 work_ledger_invariant [OF demo_reachable4] by (simp add: list_all_iff)


theorem work_evidence_written_once_witness:
  "\<exists>x \<in> set (ws_items demo4). wk_result_event_id x = ''e3'' \<and> wk_detail x = demo_failed"
proof -
  have x: "demo_failure \<in> set (ws_items demo3)" "demo_failure\<lparr>wk_repair_state := ''repair_selected''\<rparr> \<in> set (ws_items demo4)"
    "step_key (demo_failure\<lparr>wk_repair_state := ''repair_selected''\<rparr>) = step_key demo_failure"
    by (simp_all add: demo3_def demo4_def step_key_def)
  show ?thesis using work_evidence_written_once [OF demo_reachable3 demo_run4 x] x(2)
    by (intro bexI [OF _ x(2)]) (simp add: demo_failure_def)
qed

theorem work_event_replay_witness:
  "apply_to_store demo_env demo4 ''c'' ''action_request'' demo_repair ''e4'' = (0, demo4)"
  using work_event_replay [OF demo_reachable3 demo_run4] by (simp add: RT_SMALL_def)

lemma demo_file_ok: "ledger_file_ok demo4"
  by code_simp

lemma demo_length: "length (obj_text (ledger_fields demo4)) + 1 < WORK_STATE_SERIALIZED_MAX"
proof -
  have "length (obj_text (ledger_fields demo4)) + 1 < 4096" by code_simp
  then show ?thesis by (simp add: WORK_STATE_SERIALIZED_MAX_def)
qed



section \<open>A refused selection\<close>

text \<open>
  A selection that is refused because the semantic budget is used up has already counted a repair
  attempt and marked the failed step in the loaded ledger. The live path drops that ledger with
  the refusal; the rebuild from the logs goes on with it and writes it.
\<close>

lemma work_refused_selection_counts_repair:
  "apply_to_store demo_env \<lparr>ws_revisions = [demo_used\<lparr>wr_semantic_steps := 8\<rparr>], ws_items = [demo_failure]\<rparr>
      ''c'' ''action_request'' demo_repair ''e4'' =
    (- 1, \<lparr>ws_revisions = [demo_used\<lparr>wr_semantic_steps := 8, wr_repair_attempts := 1\<rparr>],
           ws_items = [demo_failure\<lparr>wk_repair_state := ''repair_selected''\<rparr>]\<rparr>)"
  by code_simp

end
