(* ===== verification/Fs_Model.thy ===== *)
theory Fs_Model
  imports Rt_Base "HOL-Library.AList"
begin

text \<open>
  The workspace files that the bus, the runs and the publication outbox share. A path is one of
  the fixed places of the runtime, with the base name inside the directory; the disk lists the
  files that exist, in the order in which a directory scan finds them.

  \<open>io_env\<close> says which system calls succeed during one call of the runtime. A failed call leaves
  the disk as it is, except that a short append leaves a torn tail; an environment in which every
  call from some point on fails describes the disk after a crash at that point as well.
  \<open>fs_write_text_atomic\<close> replaces a file as a whole or not at all, because it renames a finished
  temporary file. A directory that does not exist lists no names, and \<open>io_missing\<close> tells it
  from an empty one; a scan that fails does so when the directory is opened.
\<close>

datatype fpath =
    Inbox string        \<comment> \<open>\<open>workspace/bus/inbox\<close>\<close>
  | Processed string    \<comment> \<open>\<open>workspace/bus/processed\<close>\<close>
  | Outbox string       \<comment> \<open>\<open>workspace/bus/outbox\<close>\<close>
  | Bus_Counter         \<comment> \<open>\<open>workspace/bus/.counter\<close>\<close>
  | Bus_Log             \<comment> \<open>\<open>workspace/logs/bus.jsonl\<close>\<close>
  | Run_State string    \<comment> \<open>\<open>workspace/runs/<run>/runstate.json\<close>\<close>
  | Event_Log string    \<comment> \<open>\<open>workspace/runs/<run>/event_log.jsonl\<close>\<close>
  | Work_Steps          \<comment> \<open>\<open>workspace/memory/state/work_steps.json\<close>\<close>

datatype fdir = D_Bus | D_Inbox | D_Processed | D_Outbox | D_Logs | D_Runs

type_synonym disk = "(fpath \<times> string) list"

text \<open>The system calls of an atomic write, and how an append ends: a short one leaves a torn tail.\<close>

datatype atomic_step = At_Open | At_Chmod | At_Write | At_Sync | At_Close | At_Rename

datatype append_outcome = Ap_Done | Ap_Not_Opened | Ap_Short nat

record io_env =
  io_read_ok :: "fpath \<Rightarrow> bool"
  io_atomic_ok :: "fpath \<Rightarrow> atomic_step \<Rightarrow> bool"
  io_append :: "fpath \<Rightarrow> append_outcome"
  io_unlink_ok :: "fpath \<Rightarrow> bool"
  io_rename_ok :: "fpath \<Rightarrow> bool"
  io_sync_ok :: "fpath \<Rightarrow> bool"
  io_list_ok :: "fdir \<Rightarrow> bool"
  io_missing :: "fdir \<Rightarrow> bool"
  io_mkdir_ok :: "fdir \<Rightarrow> bool"
  io_lock_ok :: bool
  io_unlock_ok :: bool
  io_malloc_ok :: "nat \<Rightarrow> bool"
  io_time :: string

definition good_io :: io_env where
  "good_io = \<lparr>io_read_ok = \<lambda>_. True, io_atomic_ok = \<lambda>_ _. True, io_append = \<lambda>_. Ap_Done, io_unlink_ok = \<lambda>_. True,
     io_rename_ok = \<lambda>_. True, io_sync_ok = \<lambda>_. True, io_list_ok = \<lambda>_. True, io_missing = \<lambda>_. False, io_mkdir_ok = \<lambda>_. True, io_lock_ok = True,
     io_unlock_ok = True, io_malloc_ok = \<lambda>_. True, io_time = ''2026-01-01T00:00:00Z''\<rparr>"

section \<open>Reading\<close>

text \<open>The three outcomes of \<open>fs_read_text\<close> that its callers distinguish by \<open>errno\<close>.\<close>

datatype read_result = Rd_Absent | Rd_Error | Rd_Text string

definition fs_read :: "io_env \<Rightarrow> fpath \<Rightarrow> disk \<Rightarrow> read_result" where
  "fs_read io p d =
     (case map_of d p of
        None \<Rightarrow> Rd_Absent
      | Some content \<Rightarrow>
          if \<not> io_read_ok io p \<or> \<not> io_malloc_ok io (length content + 1) then Rd_Error
          else
            (case fs_read_text (Some content) FS_READ_TEXT_DEFAULT_CAP of
               None \<Rightarrow> Rd_Error
             | Some t \<Rightarrow> Rd_Text t))"

definition fs_file_exists :: "fpath \<Rightarrow> disk \<Rightarrow> bool" where
  "fs_file_exists p d \<longleftrightarrow> map_of d p \<noteq> None"

definition inbox_names :: "disk \<Rightarrow> string list" where
  "inbox_names d = [n. (Inbox n, _) \<leftarrow> d]"

definition outbox_names :: "disk \<Rightarrow> string list" where
  "outbox_names d = [n. (Outbox n, _) \<leftarrow> d]"

text \<open>The runs that have control state; a run directory without it never matters to a scan.\<close>

definition run_names :: "disk \<Rightarrow> string list" where
  "run_names d = [n. (Run_State n, _) \<leftarrow> d]"

section \<open>Writing\<close>

text \<open>
  The text goes to a temporary file beside the target, which no scan accepts by its name; the file
  gets the mode of the target when there is one, is synced, closed and renamed over it. Every
  failure removes the temporary file and reports it.
\<close>

definition atomic_write_ok :: "io_env \<Rightarrow> fpath \<Rightarrow> disk \<Rightarrow> bool" where
  "atomic_write_ok io p d \<longleftrightarrow>
     io_atomic_ok io p At_Open \<and> (map_of d p \<noteq> None \<longrightarrow> io_atomic_ok io p At_Chmod) \<and> io_atomic_ok io p At_Write \<and>
     io_atomic_ok io p At_Sync \<and> io_atomic_ok io p At_Close \<and> io_atomic_ok io p At_Rename"

definition fs_write_text_atomic :: "io_env \<Rightarrow> fpath \<Rightarrow> string \<Rightarrow> disk \<Rightarrow> bool \<times> disk" where
  "fs_write_text_atomic io p t d = (if atomic_write_ok io p d then (True, AList.update p t d) else (False, d))"

definition fs_append_text :: "io_env \<Rightarrow> fpath \<Rightarrow> string \<Rightarrow> disk \<Rightarrow> bool \<times> disk" where
  "fs_append_text io p t d =
     (let old = (case map_of d p of None \<Rightarrow> [] | Some s \<Rightarrow> s) in
      case io_append io p of
        Ap_Done \<Rightarrow> (True, AList.update p (old @ t) d)
      | Ap_Not_Opened \<Rightarrow> (False, d)
      | Ap_Short n \<Rightarrow> (False, AList.update p (old @ take n t) d))"

definition fs_rename :: "io_env \<Rightarrow> fpath \<Rightarrow> fpath \<Rightarrow> disk \<Rightarrow> bool \<times> disk" where
  "fs_rename io p q d =
     (case map_of d p of
        None \<Rightarrow> (False, d)
      | Some content \<Rightarrow> if io_rename_ok io p then (True, AList.update q content (AList.delete p d)) else (False, d))"

text \<open>\<open>unlink(path) != 0 && errno != ENOENT\<close> is the failure.\<close>

definition fs_unlink :: "io_env \<Rightarrow> fpath \<Rightarrow> disk \<Rightarrow> bool \<times> disk" where
  "fs_unlink io p d =
     (if map_of d p = None then (True, d) else if io_unlink_ok io p then (True, AList.delete p d) else (False, d))"

section \<open>Laws\<close>

named_theorems fs_laws

lemma map_of_update [simp]: "map_of (AList.update p t d) q = (if q = p then Some t else map_of d q)"
  by (simp add: AList.update_conv')

lemma map_of_remove [simp]: "map_of (AList.delete p d) q = (if q = p then None else map_of d q)"
  by (simp add: AList.delete_conv')

lemma fs_write_keeps [fs_laws]: "fs_write_text_atomic io p t d = (ok, d') \<Longrightarrow> q \<noteq> p \<Longrightarrow> map_of d' q = map_of d q"
  by (auto simp: fs_write_text_atomic_def split: if_splits)

lemma fs_append_keeps [fs_laws]: "fs_append_text io p t d = (ok, d') \<Longrightarrow> q \<noteq> p \<Longrightarrow> map_of d' q = map_of d q"
  by (auto simp: fs_append_text_def Let_def split: append_outcome.splits)

lemma append_frame [simp]: "q \<noteq> p \<Longrightarrow> map_of (snd (fs_append_text io p t d)) q = map_of d q"
  using fs_append_keeps [of io p t d "fst (fs_append_text io p t d)" "snd (fs_append_text io p t d)" q] by simp

lemma fs_rename_keeps [fs_laws]: "fs_rename io p r d = (ok, d') \<Longrightarrow> q \<noteq> p \<Longrightarrow> q \<noteq> r \<Longrightarrow> map_of d' q = map_of d q"
  by (auto simp: fs_rename_def split: if_splits option.splits)

lemma fs_unlink_keeps [fs_laws]: "fs_unlink io p d = (ok, d') \<Longrightarrow> q \<noteq> p \<Longrightarrow> map_of d' q = map_of d q"
  by (auto simp: fs_unlink_def split: if_splits)

lemma fs_write_result: "fs_write_text_atomic io p t d = (ok, d') \<Longrightarrow> if ok then map_of d' p = Some t else d' = d"
  by (auto simp: fs_write_text_atomic_def split: if_splits)

lemma fs_rename_result:
  "fs_rename io p q d = (ok, d') \<Longrightarrow> p \<noteq> q \<Longrightarrow>
     if ok then map_of d' p = None \<and> map_of d' q = map_of d p \<and> map_of d p \<noteq> None else d' = d"
  by (auto simp: fs_rename_def split: if_splits option.splits)

lemma fs_unlink_result: "fs_unlink io p d = (ok, d') \<Longrightarrow> if ok then map_of d' p = None else d' = d"
  by (auto simp: fs_unlink_def split: if_splits)

lemma set_inbox_names: "n \<in> set (inbox_names d) \<longleftrightarrow> map_of d (Inbox n) \<noteq> None"
  by (auto simp: inbox_names_def map_of_eq_None_iff split: fpath.splits) force+

lemma set_outbox_names: "n \<in> set (outbox_names d) \<longleftrightarrow> map_of d (Outbox n) \<noteq> None"
  by (auto simp: outbox_names_def map_of_eq_None_iff split: fpath.splits) force+

lemma set_run_names: "n \<in> set (run_names d) \<longleftrightarrow> map_of d (Run_State n) \<noteq> None"
  by (auto simp: run_names_def map_of_eq_None_iff split: fpath.splits) force+

end
