(* ===== verification/Bus.thy ===== *)
theory Bus
  imports Fs_Model Json_Object "HOL-Library.List_Lexorder" "HOL-Library.Char_ord"
begin

text \<open>
  The file-backed bus of \<open>runtime/bus/bus.c\<close>: envelopes are files of the inbox that a consumer
  renames into the directory of processed envelopes; identities come from a counter file; a
  publication under a reserved identity is repeatable. The wake socket, the narration and the
  printing of the log for the command line are left out.
\<close>

section \<open>Bounds and identities\<close>

definition BUS_ID_MAX :: nat where
  "BUS_ID_MAX = 32"

definition BUS_CHANNEL_MAX :: nat where
  "BUS_CHANNEL_MAX = 64"

definition BUS_TYPE_MAX :: nat where
  "BUS_TYPE_MAX = 64"

definition BUS_PAYLOAD_MAX :: nat where
  "BUS_PAYLOAD_MAX = 16384"

definition BUS_ROUTING_ADAPTER_MAX :: nat where
  "BUS_ROUTING_ADAPTER_MAX = 64"

definition BUS_ROUTING_CONTEXT_MAX :: nat where
  "BUS_ROUTING_CONTEXT_MAX = 128"

definition BUS_ROUTING_REF_MAX :: nat where
  "BUS_ROUTING_REF_MAX = 512"

definition BUS_ROUTING_JSON_MAX :: nat where
  "BUS_ROUTING_JSON_MAX = 2048"

definition BUS_CUSTOM_TYPE_MAX :: nat where
  "BUS_CUSTOM_TYPE_MAX = 63"

definition BUS_NAME_MAX :: nat where
  "BUS_NAME_MAX = 64"

definition BUS_NAMES_CAP :: nat where
  "BUS_NAMES_CAP = 1024"

definition BUS_PUBLISH_FAILED :: int where
  "BUS_PUBLISH_FAILED = - 1"

definition BUS_PUBLISH_CONFLICT :: int where
  "BUS_PUBLISH_CONFLICT = - 2"

lemmas bus_sizes = BUS_ID_MAX_def BUS_CHANNEL_MAX_def BUS_TYPE_MAX_def BUS_PAYLOAD_MAX_def BUS_ROUTING_ADAPTER_MAX_def
  BUS_ROUTING_CONTEXT_MAX_def BUS_ROUTING_REF_MAX_def BUS_ROUTING_JSON_MAX_def

lemmas publish_codes = BUS_PUBLISH_FAILED_def BUS_PUBLISH_CONFLICT_def

text \<open>The bytes after \<open>bus_\<close>: at least one digit, then digits up to the suffix.\<close>

definition bus_number :: "string \<Rightarrow> string \<Rightarrow> bool" where
  "bus_number suffix s \<longleftrightarrow> s \<noteq> [] \<and> is_digit (hd s) \<and> dropWhile is_digit s = suffix"

definition valid_envelope_id :: "string \<Rightarrow> bool" where
  "valid_envelope_id eid \<longleftrightarrow> length eid < BUS_ID_MAX \<and> take 4 eid = ''bus_'' \<and> bus_number [] (drop 4 eid)"

definition is_committed_envelope_name :: "string \<Rightarrow> bool" where
  "is_committed_envelope_name name \<longleftrightarrow> take 4 name = ''bus_'' \<and> bus_number ''.json'' (drop 4 name)"

definition json_name :: "string \<Rightarrow> string" where
  "json_name eid = eid @ ''.json''"

definition show_pad6 :: "nat \<Rightarrow> string" where
  "show_pad6 n = (let s = show_nat n in replicate (6 - length s) (CHR ''0'') @ s)"

definition counter_value :: "string \<Rightarrow> int option" where
  "counter_value t =
     (case strtoll t 0 of
        (n, scan, ok) \<Rightarrow>
          if \<not> ok \<or> scan = 0 \<or> n < 0 \<or> (drop scan t \<noteq> [] \<and> drop scan t \<noteq> [CHR 0x0A]) then None else Some n)"

definition bump_counter :: "io_env \<Rightarrow> int \<Rightarrow> nat \<Rightarrow> disk \<Rightarrow> string option \<times> disk" where
  "bump_counter io n out_len d =
     (if n = LLONG_MAX then (None, d)
      else
        (case fs_write_text_atomic io Bus_Counter (show_int (n + 1) @ [CHR 0x0A]) d of
           (False, d1) \<Rightarrow> (None, d1)
         | (True, d1) \<Rightarrow>
             let eid = ''bus_'' @ show_pad6 (nat (n + 1)) in
             if length eid \<ge> out_len \<or> \<not> io_unlock_ok io then (None, d1) else (Some eid, d1)))"

definition next_envelope_id :: "io_env \<Rightarrow> nat \<Rightarrow> disk \<Rightarrow> string option \<times> disk" where
  "next_envelope_id io out_len d =
     (if \<not> io_mkdir_ok io D_Bus \<or> \<not> io_lock_ok io then (None, d)
      else
        (case fs_read io Bus_Counter d of
           Rd_Error \<Rightarrow> (None, d)
         | Rd_Absent \<Rightarrow> bump_counter io 0 out_len d
         | Rd_Text t \<Rightarrow>
             (case counter_value t of None \<Rightarrow> (None, d) | Some n \<Rightarrow> bump_counter io n out_len d)))"

definition bus_reserve_envelope_id :: "io_env \<Rightarrow> nat \<Rightarrow> disk \<Rightarrow> string option \<times> disk" where
  "bus_reserve_envelope_id = next_envelope_id"

text \<open>The bit mask: 1 for the inbox, 2 for processed.\<close>

definition bus_envelope_locations :: "string \<Rightarrow> disk \<Rightarrow> int" where
  "bus_envelope_locations eid d =
     (if \<not> valid_envelope_id eid then - 1
      else (if fs_file_exists (Inbox (json_name eid)) d then 1 else 0) +
           (if fs_file_exists (Processed (json_name eid)) d then 2 else 0))"

section \<open>Types of events\<close>

definition type_char :: "char \<Rightarrow> bool" where
  "type_char c \<longleftrightarrow> is_alpha c \<or> is_digit c \<or> c \<in> {CHR ''_'', CHR ''.'', CHR '':'', CHR ''-''}"

definition bus_type_token_valid :: "string \<Rightarrow> bool" where
  "bus_type_token_valid type \<longleftrightarrow>
     type \<noteq> [] \<and> length type \<le> BUS_CUSTOM_TYPE_MAX \<and> is_alpha (hd type) \<and> list_all type_char (tl type)"

definition kReservedPrefixes :: "string list" where
  "kReservedPrefixes =
     [''user_'', ''action_'', ''affair_'', ''operation_'', ''work_'', ''task_'', ''run_'', ''memory_'']"

definition bus_type_is_reserved :: "string \<Rightarrow> bool" where
  "bus_type_is_reserved type \<longleftrightarrow> type = [] \<or> list_ex (\<lambda>p. take (length p) type = p) kReservedPrefixes"

section \<open>Routing\<close>

text \<open>An empty field stands for a missing one.\<close>

record bus_routing =
  rg_adapter_id :: string
  rg_context_id :: string
  rg_ref_json :: string

definition no_routing :: bus_routing where
  "no_routing = \<lparr>rg_adapter_id = [], rg_context_id = [], rg_ref_json = []\<rparr>"

definition escaped_or_fail :: "string \<Rightarrow> nat \<Rightarrow> string option" where
  "escaped_or_fail s n = (case json_escape s n of (ok, e) \<Rightarrow> if ok then Some e else None)"

definition routing_json :: "bus_routing \<Rightarrow> nat \<Rightarrow> string option" where
  \<open>routing_json r out_len =
     (if out_len = 0 then None
      else if rg_adapter_id r = [] \<and> rg_context_id r = [] \<and> rg_ref_json r = [] then Some []
      else if length (rg_adapter_id r) > BUS_ROUTING_ADAPTER_MAX \<or> length (rg_context_id r) > BUS_ROUTING_CONTEXT_MAX \<or>
              length (rg_ref_json r) > BUS_ROUTING_REF_MAX then None
      else
        (case (escaped_or_fail (rg_adapter_id r) (BUS_ROUTING_ADAPTER_MAX * 6 + 8),
               escaped_or_fail (rg_context_id r) (BUS_ROUTING_CONTEXT_MAX * 6 + 8),
               if rg_ref_json r = [] then Some [] else json_compact (rg_ref_json r) (BUS_ROUTING_REF_MAX + 1)) of
           (Some eadapter, Some econtext, Some cref) \<Rightarrow>
             let fields = (if rg_adapter_id r = [] then [] else [''"adapter_id":"'' @ eadapter @ ''"'']) @
                   (if rg_context_id r = [] then [] else [''"context_id":"'' @ econtext @ ''"'']) @
                   (if rg_ref_json r = [] then [] else [''"ref":'' @ cref]);
                 block = ''{'' @ join_comma fields @ ''}''
             in if length block \<ge> out_len then None else Some block
         | _ \<Rightarrow> None))\<close>

section \<open>Publishing\<close>

text \<open>Whether the file under the identity is this very publication (the code's result 1).\<close>

definition actual_routing :: "json_ref \<Rightarrow> string" where
  "actual_routing root =
     (case json_ref_object_get_object root ''routing'' of
        None \<Rightarrow> []
      | Some r \<Rightarrow>
          (case json_ref_value_copy r BUS_ROUTING_JSON_MAX of
             None \<Rightarrow> []
           | Some raw \<Rightarrow> (case json_compact raw BUS_ROUTING_JSON_MAX of None \<Rightarrow> [] | Some c \<Rightarrow> c)))"

definition document_matches :: "string \<Rightarrow> string \<Rightarrow> string \<Rightarrow> string \<Rightarrow> string \<Rightarrow> string \<Rightarrow> bool" where
  "document_matches doc eid channel type payload_json routing_expected \<longleftrightarrow>
     (case json_ref_top_object doc of
        None \<Rightarrow> False
      | Some root \<Rightarrow>
          get_string root ''event_id'' BUS_ID_MAX = Some eid \<and>
          get_string root ''channel'' BUS_CHANNEL_MAX = Some channel \<and>
          get_string root ''type'' BUS_TYPE_MAX = Some type \<and>
          (case json_ref_object_get root ''payload'' of
             None \<Rightarrow> False
           | Some payload \<Rightarrow>
               (case json_ref_value_copy payload BUS_PAYLOAD_MAX of
                  None \<Rightarrow> False
                | Some raw \<Rightarrow>
                    json_compact raw BUS_PAYLOAD_MAX \<noteq> None \<and>
                    json_compact raw BUS_PAYLOAD_MAX = json_compact payload_json BUS_PAYLOAD_MAX)) \<and>
          actual_routing root = routing_expected)"

definition existing_envelope_matches ::
  "io_env \<Rightarrow> fpath \<Rightarrow> string \<Rightarrow> string \<Rightarrow> string \<Rightarrow> string \<Rightarrow> string \<Rightarrow> disk \<Rightarrow> bool" where
  "existing_envelope_matches io path eid channel type payload_json routing_expected d =
     (case fs_read io path d of
        Rd_Text doc \<Rightarrow>
          io_malloc_ok io (BUS_PAYLOAD_MAX * 3) \<and> document_matches doc eid channel type payload_json routing_expected
      | _ \<Rightarrow> False)"

definition envelope_text :: "string \<Rightarrow> string \<Rightarrow> string \<Rightarrow> string \<Rightarrow> string \<Rightarrow> string \<Rightarrow> string" where
  \<open>envelope_text eid ts ec et routing_field compact_payload =
     ''{"event_id":"'' @ eid @ ''","ts":"'' @ ts @ ''","channel":"'' @ ec @ ''","type":"'' @ et @ ''"'' @ routing_field @
     '',"payload":'' @ compact_payload @ ''}'' @ [CHR 0x0A]\<close>

text \<open>The write of a new envelope: the inbox file is the commit, the log line is best effort.\<close>

definition commit_envelope ::
  "io_env \<Rightarrow> string \<Rightarrow> string \<Rightarrow> string \<Rightarrow> string \<Rightarrow> string \<Rightarrow> disk \<Rightarrow> int \<times> disk" where
  "commit_envelope io eid channel type payload_json routing_field d =
     (if \<not> io_mkdir_ok io D_Inbox \<or> \<not> io_mkdir_ok io D_Logs then (BUS_PUBLISH_FAILED, d)
      else
        (case (escaped_or_fail channel BUS_CHANNEL_MAX, escaped_or_fail type BUS_TYPE_MAX,
               if io_malloc_ok io BUS_PAYLOAD_MAX then json_compact payload_json BUS_PAYLOAD_MAX else None) of
           (Some ec, Some et, Some compact_payload) \<Rightarrow>
             let envelope = envelope_text eid (io_time io) ec et routing_field compact_payload in
             if \<not> io_malloc_ok io (length envelope + 1) then (BUS_PUBLISH_FAILED, d)
             else
               (case fs_write_text_atomic io (Inbox (json_name eid)) envelope d of
                  (False, d1) \<Rightarrow> (BUS_PUBLISH_FAILED, d1)
                | (True, d1) \<Rightarrow> (0, snd (fs_append_text io Bus_Log envelope d1)))
         | _ \<Rightarrow> (BUS_PUBLISH_FAILED, d)))"

definition bus_publish_stable_routed ::
  "io_env \<Rightarrow> string \<Rightarrow> string \<Rightarrow> string \<Rightarrow> string \<Rightarrow> bus_routing \<Rightarrow> disk \<Rightarrow> int \<times> disk" where
  \<open>bus_publish_stable_routed io eid channel type payload_json routing d =
     (if \<not> valid_envelope_id eid then (BUS_PUBLISH_FAILED, d)
      else
        (case routing_json routing BUS_ROUTING_JSON_MAX of
           None \<Rightarrow> (BUS_PUBLISH_FAILED, d)
         | Some routing_block \<Rightarrow>
             let routing_field = (if routing_block = [] then [] else '',"routing":'' @ routing_block);
                 locations = bus_envelope_locations eid d
             in if locations < 0 \<or> locations = 3 then (BUS_PUBLISH_CONFLICT, d)
                else if locations = 1 \<or> locations = 2 then
                  (if existing_envelope_matches io (if locations = 1 then Inbox (json_name eid) else Processed (json_name eid))
                        eid channel type payload_json routing_block d
                   then (0, d) else (BUS_PUBLISH_CONFLICT, d))
                else commit_envelope io eid channel type payload_json routing_field d))\<close>

definition bus_publish_stable :: "io_env \<Rightarrow> string \<Rightarrow> string \<Rightarrow> string \<Rightarrow> string \<Rightarrow> disk \<Rightarrow> int \<times> disk" where
  "bus_publish_stable io eid channel type payload_json d =
     bus_publish_stable_routed io eid channel type payload_json no_routing d"

definition bus_requeue_processed :: "io_env \<Rightarrow> string \<Rightarrow> disk \<Rightarrow> int \<times> disk" where
  "bus_requeue_processed io eid d =
     (let locations = bus_envelope_locations eid d in
      if locations < 0 \<or> locations = 3 then (- 1, d)
      else if locations = 0 \<or> locations = 1 then (0, d)
      else if \<not> io_mkdir_ok io D_Inbox then (- 1, d)
      else
        (case fs_rename io (Processed (json_name eid)) (Inbox (json_name eid)) d of
           (ok, d1) \<Rightarrow> (if ok then 0 else - 1, d1)))"

text \<open>The result code with the identity.\<close>

definition bus_publish_routed ::
  "io_env \<Rightarrow> string \<Rightarrow> string \<Rightarrow> string \<Rightarrow> bus_routing \<Rightarrow> disk \<Rightarrow> (int \<times> string) \<times> disk" where
  "bus_publish_routed io channel type payload_json routing d =
     (case bus_reserve_envelope_id io BUS_ID_MAX d of
        (None, d1) \<Rightarrow> ((BUS_PUBLISH_FAILED, []), d1)
      | (Some eid, d1) \<Rightarrow>
          (case bus_publish_stable_routed io eid channel type payload_json routing d1 of
             (rc, d2) \<Rightarrow> ((rc, if rc = 0 then eid else []), d2)))"

definition bus_publish :: "io_env \<Rightarrow> string \<Rightarrow> string \<Rightarrow> string \<Rightarrow> disk \<Rightarrow> (int \<times> string) \<times> disk" where
  "bus_publish io channel type payload_json d =
     (case bus_publish_routed io channel type payload_json no_routing d of
        ((rc, eid), d1) \<Rightarrow> ((if rc = 0 then 0 else - 1, eid), d1))"

text \<open>One attempt per environment; the sleeps between them are not visible.\<close>

fun publish_attempts :: "io_env list \<Rightarrow> string \<Rightarrow> string \<Rightarrow> string \<Rightarrow> disk \<Rightarrow> (int \<times> string) \<times> disk" where
  "publish_attempts [] channel type payload_json d = ((- 1, []), d)"
| "publish_attempts (io # ios) channel type payload_json d =
     (case bus_publish io channel type payload_json d of
        ((rc, eid), d1) \<Rightarrow>
          if rc = 0 then ((0, eid), d1) else publish_attempts ios channel type payload_json d1)"

definition bus_publish_with_retry ::
  "(nat \<Rightarrow> io_env) \<Rightarrow> string \<Rightarrow> string \<Rightarrow> string \<Rightarrow> int \<Rightarrow> disk \<Rightarrow> (int \<times> string) \<times> disk" where
  "bus_publish_with_retry ios channel type payload_json max_attempts d =
     publish_attempts (map ios [0..<nat (min 6 (max 1 max_attempts))]) channel type payload_json d"

section \<open>Consuming\<close>

text \<open>The names of at most 1024 envelopes, sorted by \<open>strcmp\<close>; \<open>None\<close> on a directory error.\<close>

definition inbox_scan_sorted :: "io_env \<Rightarrow> disk \<Rightarrow> string list option" where
  "inbox_scan_sorted io d =
     (if \<not> io_list_ok io D_Inbox then None
      else Some (sort (map (copy_into BUS_NAME_MAX) (take BUS_NAMES_CAP (filter is_committed_envelope_name (inbox_names d))))))"

text \<open>The result code, the name of the consumed envelope and the disk.\<close>

definition bus_pop_oldest :: "io_env \<Rightarrow> disk \<Rightarrow> (int \<times> string) \<times> disk" where
  "bus_pop_oldest io d =
     (case inbox_scan_sorted io d of
        None \<Rightarrow> ((- 1, []), d)
      | Some [] \<Rightarrow> ((1, []), d)
      | Some (name # _) \<Rightarrow>
          if \<not> io_mkdir_ok io D_Processed then ((- 1, []), d)
          else
            (case fs_rename io (Inbox name) (Processed name) d of
               (ok, d1) \<Rightarrow> ((if ok then 0 else - 1, if ok then name else []), d1)))"

text \<open>
  The handler gets the name of the envelope, already in processed, with its own state and the disk,
  which it may change; its flag stops the batch.
\<close>

fun drain_loop ::
  "io_env \<Rightarrow> (string \<Rightarrow> 'u \<times> disk \<Rightarrow> bool \<times> 'u \<times> disk) \<Rightarrow> string list \<Rightarrow> int \<Rightarrow> 'u \<times> disk \<Rightarrow> int \<times> 'u \<times> disk" where
  "drain_loop io handler [] consumed s = (consumed, s)"
| "drain_loop io handler (name # names) consumed (u, d) =
     (case fs_rename io (Inbox name) (Processed name) d of
        (False, d1) \<Rightarrow> drain_loop io handler names consumed (u, d1)
      | (True, d1) \<Rightarrow>
          (case handler name (u, d1) of
             (stop, s1) \<Rightarrow> if stop then (consumed + 1, s1) else drain_loop io handler names (consumed + 1) s1))"

definition bus_drain_inbox ::
  "io_env \<Rightarrow> int \<Rightarrow> (string \<Rightarrow> 'u \<times> disk \<Rightarrow> bool \<times> 'u \<times> disk) \<Rightarrow> 'u \<times> disk \<Rightarrow> int \<times> 'u \<times> disk" where
  "bus_drain_inbox io budget handler s =
     (if budget \<le> 0 then (0, s)
      else
        (case inbox_scan_sorted io (snd s) of
           None \<Rightarrow> (- 1, s)
         | Some [] \<Rightarrow> (0, s)
         | Some names \<Rightarrow>
             if \<not> io_mkdir_ok io D_Processed then (- 1, s)
             else drain_loop io handler (take (nat budget) names) 0 s))"

definition bus_inbox_has_pending :: "io_env \<Rightarrow> disk \<Rightarrow> int" where
  "bus_inbox_has_pending io d =
     (if \<not> io_list_ok io D_Inbox then - 1
      else if list_ex is_committed_envelope_name (inbox_names d) then 1 else 0)"

definition bus_inbox_count :: "io_env \<Rightarrow> disk \<Rightarrow> int" where
  "bus_inbox_count io d =
     (if \<not> io_list_ok io D_Inbox then - 1
      else int (length (filter is_committed_envelope_name (inbox_names d))))"

end
