(* ===== verification/Bus_Laws.thy ===== *)
theory Bus_Laws
  imports Bus
begin

text \<open>
  The bus as a durable queue of named envelopes: an envelope that was committed is in exactly one
  of the two directories and keeps its bytes; identities are handed out in increasing order; the
  consumer takes envelopes in the order of their names.
\<close>

section \<open>What each call does to the disk\<close>

text \<open>The envelope of a name, wherever it is.\<close>

definition envelope_at :: "disk \<Rightarrow> string \<Rightarrow> string option" where
  "envelope_at d n = (case map_of d (Inbox n) of Some c \<Rightarrow> Some c | None \<Rightarrow> map_of d (Processed n))"

definition one_place :: "disk \<Rightarrow> bool" where
  "one_place d \<longleftrightarrow> (\<forall>n. map_of d (Inbox n) = None \<or> map_of d (Processed n) = None)"

text \<open>Envelopes stay where they are or move; new ones appear under unused names.\<close>

definition bus_keeps :: "disk \<Rightarrow> disk \<Rightarrow> bool" where
  "bus_keeps d d' \<longleftrightarrow> (one_place d \<longrightarrow> one_place d' \<and> (\<forall>n c. envelope_at d n = Some c \<longrightarrow> envelope_at d' n = Some c))"

lemma bus_keeps_refl [simp]: "bus_keeps d d"
  by (simp add: bus_keeps_def)

lemma bus_keeps_trans: "bus_keeps d d1 \<Longrightarrow> bus_keeps d1 d2 \<Longrightarrow> bus_keeps d d2"
  by (simp add: bus_keeps_def)

lemma bus_keeps_other:
  assumes "\<And>n. map_of d' (Inbox n) = map_of d (Inbox n)" and "\<And>n. map_of d' (Processed n) = map_of d (Processed n)"
  shows "bus_keeps d d'"
  using assms by (simp add: bus_keeps_def one_place_def envelope_at_def split: option.splits)

lemma bus_keeps_new:
  assumes "map_of d (Inbox m) = None" and "map_of d (Processed m) = None"
    and "\<And>n. map_of d' (Inbox n) = (if n = m then Some c else map_of d (Inbox n))"
    and "\<And>n. map_of d' (Processed n) = map_of d (Processed n)"
  shows "bus_keeps d d'"
  using assms by (auto simp: bus_keeps_def one_place_def envelope_at_def split: option.splits)

lemma bus_keeps_move:
  assumes "fs_rename io (Inbox m) (Processed m) d = (ok, d') \<or> fs_rename io (Processed m) (Inbox m) d = (ok, d')"
  shows "bus_keeps d d'"
  unfolding bus_keeps_def
proof
  assume "one_place d"
  then have "map_of d (Inbox m) = None \<or> map_of d (Processed m) = None" by (simp add: one_place_def)
  then show "one_place d' \<and> (\<forall>n c. envelope_at d n = Some c \<longrightarrow> envelope_at d' n = Some c)"
    using assms \<open>one_place d\<close>
    by (auto simp: one_place_def envelope_at_def fs_rename_def split: option.splits if_splits) (metis option.distinct(1))+
qed

lemma write_counter_keeps: "fs_write_text_atomic io Bus_Counter t d = (ok, d') \<Longrightarrow> bus_keeps d d'"
  by (rule bus_keeps_other) (auto simp: fs_write_text_atomic_def split: if_splits)

lemma next_id_keeps: "next_envelope_id io n d = (r, d') \<Longrightarrow> bus_keeps d d'"
  by (auto simp: next_envelope_id_def bump_counter_def Let_def dest: write_counter_keeps
      split: if_splits read_result.splits option.splits prod.splits bool.splits)

lemma commit_keeps:
  assumes "commit_envelope io eid ch ty pl rf d = (rc, d')" and "map_of d (Inbox (json_name eid)) = None"
    and "map_of d (Processed (json_name eid)) = None"
  shows "bus_keeps d d'"
proof (cases "d' = d")
  case False
  then obtain e where "d' = snd (fs_append_text io Bus_Log e (AList.update (Inbox (json_name eid)) e d))"
    using assms(1) by (auto simp: commit_envelope_def fs_write_text_atomic_def Let_def split: if_splits option.splits)
  then show ?thesis using assms(2,3) by (intro bus_keeps_new [of d "json_name eid" d' e]) auto
qed simp

lemma publish_keeps: "bus_publish_stable_routed io eid ch ty pl r d = (rc, d') \<Longrightarrow> bus_keeps d d'"
  by (auto simp: bus_publish_stable_routed_def Let_def bus_envelope_locations_def fs_file_exists_def
      dest: commit_keeps split: if_splits option.splits)

lemma requeue_keeps: "bus_requeue_processed io eid d = (rc, d') \<Longrightarrow> bus_keeps d d'"
  by (auto simp: bus_requeue_processed_def Let_def split: if_splits prod.splits intro: bus_keeps_move)

lemma publish_routed_keeps: "bus_publish_routed io ch ty pl r d = (res, d') \<Longrightarrow> bus_keeps d d'"
  by (auto simp: bus_publish_routed_def bus_reserve_envelope_id_def split: prod.splits option.splits
      dest!: next_id_keeps publish_keeps intro: bus_keeps_trans)

lemma attempts_keeps: "publish_attempts ios ch ty pl d = (res, d') \<Longrightarrow> bus_keeps d d'"
proof (induction ios ch ty pl d arbitrary: res d' rule: publish_attempts.induct)
  case (2 io ios ch ty pl d)
  obtain rc eid d1 where b: "bus_publish io ch ty pl d = ((rc, eid), d1)" by (metis surj_pair)
  then have "bus_keeps d d1" by (auto simp: bus_publish_def split: prod.splits dest: publish_routed_keeps)
  then show ?case using 2 b by (cases res) (auto split: if_splits intro: bus_keeps_trans)
qed simp

lemma pop_keeps: "bus_pop_oldest io d = (res, d') \<Longrightarrow> bus_keeps d d'"
  by (auto simp: bus_pop_oldest_def split: option.splits list.splits if_splits prod.splits intro: bus_keeps_move)

lemma drain_loop_keeps:
  assumes "\<And>name u d stop u' d'. handler name (u, d) = (stop, u', d') \<Longrightarrow> bus_keeps d d'"
  shows "drain_loop io handler names k (u, d) = (k', u', d') \<Longrightarrow> bus_keeps d d'"
proof (induction names arbitrary: k u d)
  case (Cons name names)
  obtain ok d1 where r: "fs_rename io (Inbox name) (Processed name) d = (ok, d1)" by force
  have k1: "bus_keeps d d1" using r bus_keeps_move by blast
  show ?case
  proof (cases ok)
    case False
    then show ?thesis using Cons.prems r Cons.IH bus_keeps_trans [OF k1] by simp
  next
    case True
    obtain stop u2 d2 where h: "handler name (u, d1) = (stop, u2, d2)" using prod_cases3 by blast
    have "bus_keeps d d2" using bus_keeps_trans [OF k1 assms [OF h]] .
    then show ?thesis using Cons.prems r h True Cons.IH bus_keeps_trans by (auto split: if_splits)
  qed
qed simp

lemma drain_keeps:
  assumes "\<And>name u d stop u' d'. handler name (u, d) = (stop, u', d') \<Longrightarrow> bus_keeps d d'"
    and "bus_drain_inbox io budget handler (u, d) = (k, u', d')"
  shows "bus_keeps d d'"
proof -
  have "bus_keeps d d'" if "drain_loop io handler names 0 (u, d) = (k, u', d')" for names
    by (rule drain_loop_keeps [where handler = handler, OF assms(1) that])
  then show ?thesis using assms(2) by (auto simp: bus_drain_inbox_def split: if_splits option.splits list.splits)
qed

section \<open>Reachable disks\<close>

text \<open>
  The calls of the bus, under any behaviour of the file system, and writes of the other modules to
  files of their own. The handler of a drain makes such calls itself.
\<close>

definition bus_file :: "fpath \<Rightarrow> bool" where
  "bus_file p \<longleftrightarrow> (\<exists>n. p = Inbox n \<or> p = Processed n) \<or> p = Bus_Counter"

inductive bus_step :: "disk \<Rightarrow> disk \<Rightarrow> bool" where
  reserve: "bus_reserve_envelope_id io n d = (r, d') \<Longrightarrow> bus_step d d'"
| publish: "bus_publish_stable_routed io eid ch ty pl rt d = (rc, d') \<Longrightarrow> bus_step d d'"
| requeue: "bus_requeue_processed io eid d = (rc, d') \<Longrightarrow> bus_step d d'"
| pop: "bus_pop_oldest io d = (r, d') \<Longrightarrow> bus_step d d'"
| move: "fs_rename io (Inbox n) (Processed n) d = (ok, d') \<Longrightarrow> bus_step d d'"
| other: "\<forall>p. bus_file p \<longrightarrow> map_of d' p = map_of d p \<Longrightarrow> bus_step d d'"

inductive bus_reachable :: "disk \<Rightarrow> bool" where
  fresh: "\<forall>p. bus_file p \<longrightarrow> map_of d p = None \<Longrightarrow> bus_reachable d"
| step: "bus_reachable d \<Longrightarrow> bus_step d d' \<Longrightarrow> bus_reachable d'"

lemma bus_step_keeps: "bus_step d d' \<Longrightarrow> bus_keeps d d'"
proof (induction rule: bus_step.induct)
  case (other d' d)
  then show ?case by (intro bus_keeps_other) (auto simp: bus_file_def)
qed (auto simp: bus_reserve_envelope_id_def intro: next_id_keeps publish_keeps requeue_keeps pop_keeps bus_keeps_move)

lemma bus_reachable_one_place: "bus_reachable d \<Longrightarrow> one_place d"
proof (induction rule: bus_reachable.induct)
  case (fresh d)
  then show ?case by (auto simp: one_place_def bus_file_def)
next
  case (step d d')
  then show ?case using bus_step_keeps by (auto simp: bus_keeps_def)
qed

lemma bus_steps_keep: "bus_step\<^sup>*\<^sup>* d d' \<Longrightarrow> bus_keeps d d'"
  by (induction rule: rtranclp_induct) (auto intro: bus_keeps_trans bus_step_keeps)

text \<open>
  C36. An envelope is never lost, doubled or altered. Once its file is in the inbox or among the
  processed envelopes, then after any further calls of the bus, with any failures of the file
  system in between, it is in exactly one of the two directories, with the same bytes.
\<close>

theorem bus_envelope_kept:
  assumes "bus_reachable d" and "map_of d (Inbox n) = Some c \<or> map_of d (Processed n) = Some c" and "bus_step\<^sup>*\<^sup>* d d'"
  shows "(map_of d' (Inbox n) = Some c \<and> map_of d' (Processed n) = None) \<or>
    (map_of d' (Inbox n) = None \<and> map_of d' (Processed n) = Some c)"
proof -
  have o: "one_place d" by (rule bus_reachable_one_place [OF assms(1)])
  then have "map_of d (Inbox n) = None \<or> map_of d (Processed n) = None" by (simp add: one_place_def)
  then have "envelope_at d n = Some c" using assms(2) by (auto simp: envelope_at_def split: option.splits)
  then have "one_place d'" "envelope_at d' n = Some c" using bus_steps_keep [OF assms(3)] o by (auto simp: bus_keeps_def)
  then have "map_of d' (Inbox n) = None \<or> map_of d' (Processed n) = None" "envelope_at d' n = Some c" by (simp_all add: one_place_def)
  then show ?thesis by (auto simp: envelope_at_def split: option.splits)
qed

section \<open>Identities\<close>

lemma strtoll_digits:
  assumes "ds \<noteq> []" and "list_all is_digit ds" and "r = [] \<or> \<not> is_digit (hd r)" and "digits_value ds \<le> LLONG_MAX"
  shows "strtoll (ds @ r) 0 = (digits_value ds, length ds, True)"
proof -
  obtain d ds' where d: "ds = d # ds'" "is_digit d" using assms(1,2) by (cases ds) auto
  have c: "ch_at (ds @ r) 0 = d" by (simp add: d ch_at_def)
  have n: "\<not> is_space d" "d \<noteq> CHR ''-''" "d \<noteq> CHR ''+''" using d(2) by (auto simp: char_class_defs)
  have ws: "skip_ws (ds @ r) 0 = 0" using c n(1) by (subst skip_ws.simps) (simp add: d)
  have "\<not> is_digit (ch_at (ds @ r) (length ds))" using assms(3) by (cases r) (auto simp: ch_at_def nth_append)
  then have e: "skip_digits (ds @ r) 0 (length (ds @ r)) = length ds"
    using skip_digits_complete [of ds 0 "ds @ r" r] assms(2) by simp
  have "0 \<le> digits_value ds" using digits_value_nat [OF assms(2)] by simp
  then show ?thesis using ws c n e assms(1,4)
    by (simp add: strtoll_def Let_def span_def LLONG_MIN_def)
qed

lemma counter_value_printed:
  assumes "0 \<le> n" and "n \<le> LLONG_MAX"
  shows "counter_value (show_int n @ [CHR 0x0A]) = Some n"
proof -
  have d: "show_nat (nat n) \<noteq> []" "list_all is_digit (show_nat (nat n))" using show_nat_digits by auto
  have v: "digits_value (show_nat (nat n)) = n" using digits_value_nat [OF d(2)] assms(1) by simp
  have "strtoll (show_nat (nat n) @ [CHR 0x0A]) 0 = (n, length (show_nat (nat n)), True)"
    using strtoll_digits [OF d, of "[CHR 0x0A]"] v assms(2) by (simp add: char_class_defs)
  then show ?thesis using assms(1) d(1) by (simp add: counter_value_def show_int_def)
qed

definition bus_counter :: "disk \<Rightarrow> int option" where
  "bus_counter d = (case map_of d Bus_Counter of None \<Rightarrow> Some 0 | Some t \<Rightarrow> counter_value (cstr t))"

definition bus_id :: "nat \<Rightarrow> string" where
  "bus_id n = ''bus_'' @ show_pad6 n"

definition counter_le :: "disk \<Rightarrow> disk \<Rightarrow> bool" where
  "counter_le d d' \<longleftrightarrow> (\<forall>n. bus_counter d = Some n \<longrightarrow> (\<exists>m \<ge> n. bus_counter d' = Some m))"

lemma counter_le_refl [simp]: "counter_le d d"
  by (auto simp: counter_le_def)

lemma counter_le_trans: "counter_le d d1 \<Longrightarrow> counter_le d1 d2 \<Longrightarrow> counter_le d d2"
  unfolding counter_le_def by (meson order_trans)

lemma counter_le_same: "map_of d' Bus_Counter = map_of d Bus_Counter \<Longrightarrow> counter_le d d'"
  by (auto simp: counter_le_def bus_counter_def)

lemma counter_value_range: "counter_value t = Some n \<Longrightarrow> 0 \<le> n \<and> n \<le> LLONG_MAX"
  by (auto simp: counter_value_def strtoll_def Let_def LLONG_MAX_def split: prod.splits if_splits)

lemma bump_counter_result:
  assumes "bump_counter io n l d = (r, d')" and "0 \<le> n" and "n \<le> LLONG_MAX"
  shows "d' = d \<and> r = None \<or> bus_counter d' = Some (n + 1) \<and> (\<forall>a. r = Some a \<longrightarrow> a = bus_id (nat (n + 1)))"
proof (cases "n = LLONG_MAX \<or> \<not> atomic_write_ok io Bus_Counter d")
  case False
  let ?t = "show_int (n + 1) @ [CHR 0x0A]"
  have d': "d' = AList.update Bus_Counter ?t d" and r: "\<forall>a. r = Some a \<longrightarrow> a = bus_id (nat (n + 1))"
    using assms(1) False by (auto simp: bump_counter_def fs_write_text_atomic_def bus_id_def Let_def split: if_splits)
  have "no_nul ?t" using no_nul_show_int by simp
  then have "bus_counter d' = Some (n + 1)" using counter_value_printed [of "n + 1"] assms(2,3) False
    by (simp add: d' bus_counter_def)
  then show ?thesis using r by blast
qed (use assms(1) in \<open>auto simp: bump_counter_def fs_write_text_atomic_def split: if_splits\<close>)

lemma reserve_result:
  assumes "next_envelope_id io l d = (r, d')"
  shows "d' = d \<and> r = None \<or>
    (\<exists>n \<ge> 0. bus_counter d = Some n \<and> bus_counter d' = Some (n + 1) \<and> (\<forall>a. r = Some a \<longrightarrow> a = bus_id (nat (n + 1))))"
proof (cases "d' = d \<and> r = None")
  case False
  then obtain n where "bus_counter d = Some n" "bump_counter io n l d = (r, d')" "0 \<le> n" "n \<le> LLONG_MAX"
    using assms by (auto simp: next_envelope_id_def bus_counter_def fs_read_def fs_read_text_def LLONG_MAX_def
        dest: counter_value_range split: if_splits option.splits read_result.splits)
  then show ?thesis using bump_counter_result [of io n l d r d'] False by blast
qed simp

lemma bus_step_counter: "bus_step d d' \<Longrightarrow> counter_le d d'"
proof (induction rule: bus_step.induct)
  case (reserve io n d r d')
  then show ?case using reserve_result [of io n d r d'] by (auto simp: bus_reserve_envelope_id_def counter_le_def)
next
  case (publish io eid ch ty pl rt d rc d')
  then have "map_of d' Bus_Counter = map_of d Bus_Counter"
    by (auto simp: bus_publish_stable_routed_def commit_envelope_def fs_write_text_atomic_def Let_def
        split: if_splits option.splits)
  then show ?case by (rule counter_le_same)
next
  case (requeue io eid d rc d')
  then show ?case by (intro counter_le_same) (auto simp: bus_requeue_processed_def fs_rename_def Let_def split: if_splits option.splits)
next
  case (pop io d r d')
  then show ?case by (intro counter_le_same)
      (auto simp: bus_pop_oldest_def fs_rename_def split: if_splits option.splits list.splits)
next
  case (move io n d ok d')
  then show ?case by (intro counter_le_same) (auto simp: fs_rename_def split: if_splits option.splits)
next
  case (other d' d)
  then show ?case by (intro counter_le_same) (simp add: bus_file_def)
qed

lemma bus_steps_counter: "bus_step\<^sup>*\<^sup>* d d' \<Longrightarrow> counter_le d d'"
  by (induction rule: rtranclp_induct) (auto intro: counter_le_trans bus_step_counter)

lemma nat_of_digits_from: "foldl (\<lambda>n c. n * 10 + (byte c - 48)) m cs = m * 10 ^ length cs + nat_of_digits cs"
proof (induction cs arbitrary: m)
  case (Cons x xs)
  have "nat_of_digits (x # xs) = foldl (\<lambda>n c. n * 10 + (byte c - 48)) (byte x - 48) xs" by (simp add: nat_of_digits_def)
  then have x: "nat_of_digits (x # xs) = (byte x - 48) * 10 ^ length xs + nat_of_digits xs" by (simp only: Cons.IH)
  have "foldl (\<lambda>n c. n * 10 + (byte c - 48)) m (x # xs) = (m * 10 + (byte x - 48)) * 10 ^ length xs + nat_of_digits xs"
    by (simp only: foldl_Cons Cons.IH)
  then show ?case by (simp add: x distrib_right)
qed (simp add: nat_of_digits_def)

lemma nat_of_digits_Cons: "nat_of_digits (c # cs) = (byte c - 48) * 10 ^ length cs + nat_of_digits cs"
proof -
  have "nat_of_digits (c # cs) = foldl (\<lambda>n c. n * 10 + (byte c - 48)) (byte c - 48) cs" by (simp add: nat_of_digits_def)
  then show ?thesis by (simp only: nat_of_digits_from)
qed

lemma nat_of_digits_pad: "nat_of_digits (replicate k (CHR ''0'') @ s) = nat_of_digits s"
  by (induction k) (simp_all add: nat_of_digits_Cons byte_def)

lemma nat_of_pad6: "nat_of_digits (show_pad6 n) = n"
  by (simp add: show_pad6_def Let_def nat_of_digits_pad)

lemma bus_id_inject: "bus_id i = bus_id j \<longleftrightarrow> i = j"
proof
  assume "bus_id i = bus_id j"
  then have "show_pad6 i = show_pad6 j" by (simp add: bus_id_def)
  then have "nat_of_digits (show_pad6 i) = nat_of_digits (show_pad6 j)" by simp
  then show "i = j" by (simp only: nat_of_pad6)
qed simp

text \<open>
  C38. Identities are never handed out twice: an envelope identity that is reserved after another
  one, with any calls and failures in between, has a larger number.
\<close>

theorem bus_ids_increase:
  assumes "bus_reserve_envelope_id io l d = (Some a, d1)" and "bus_step\<^sup>*\<^sup>* d1 d2"
    and "bus_reserve_envelope_id io' l' d2 = (Some b, d3)"
  shows "a \<noteq> b \<and> (\<exists>i j. a = bus_id i \<and> b = bus_id j \<and> i < j)"
proof -
  obtain n where n: "0 \<le> n" "bus_counter d1 = Some (n + 1)" "a = bus_id (nat (n + 1))"
    using reserve_result [of io l d "Some a" d1] assms(1) by (auto simp: bus_reserve_envelope_id_def)
  obtain k where k: "0 \<le> k" "bus_counter d2 = Some k" "b = bus_id (nat (k + 1))"
    using reserve_result [of io' l' d2 "Some b" d3] assms(3) by (auto simp: bus_reserve_envelope_id_def)
  have "n + 1 \<le> k" using bus_steps_counter [OF assms(2)] n(2) k(2) by (auto simp: counter_le_def)
  then have l: "nat (n + 1) < nat (k + 1)" using n(1) k(1) by simp
  moreover have "a \<noteq> b" using less_imp_neq [OF l] unfolding n(3) k(3) bus_id_inject .
  ultimately show ?thesis using n(3) k(3) by blast
qed

section \<open>The order of consumption\<close>

lemma nat_of_digits_less: "list_all is_digit cs \<Longrightarrow> nat_of_digits cs < 10 ^ length cs"
proof (induction cs)
  case (Cons c cs)
  then have "nat_of_digits cs < 10 ^ length cs" "byte c - 48 \<le> 9" by (auto simp: is_digit_def)
  then have "(byte c - 48) * 10 ^ length cs + nat_of_digits cs < 9 * 10 ^ length cs + 10 ^ length cs"
    by (intro add_le_less_mono mult_right_mono) simp_all
  then show ?case by (simp add: nat_of_digits_Cons)
qed (simp add: nat_of_digits_def)

lemma char_less_byte: "c < d \<longleftrightarrow> byte c < byte d"
  by (simp add: less_char_def byte_def)

text \<open>Digit strings of the same length are ordered by their values.\<close>

lemma digits_order:
  "length xs = length ys \<Longrightarrow> list_all is_digit xs \<Longrightarrow> list_all is_digit ys \<Longrightarrow>
     (xs @ r < ys @ r \<longleftrightarrow> nat_of_digits xs < nat_of_digits ys)"
proof (induction xs ys rule: list_induct2)
  case (Cons x xs y ys)
  let ?k = "10 ^ length xs :: nat"
  have lt: "nat_of_digits xs < ?k" "nat_of_digits ys < ?k"
    using nat_of_digits_less [of xs] nat_of_digits_less [of ys] Cons.hyps Cons.prems by simp_all
  have d: "48 \<le> byte x" "48 \<le> byte y" using Cons.prems by (auto simp: is_digit_def)
  have IH: "xs @ r < ys @ r \<longleftrightarrow> nat_of_digits xs < nat_of_digits ys" using Cons by simp
  consider (lt) "byte x < byte y" | (eq) "byte x = byte y" | (gt) "byte y < byte x" by linarith
  then show ?case
  proof cases
    case lt
    then have "(byte x - 48 + 1) * ?k \<le> (byte y - 48) * ?k" using d by (intro mult_right_mono) simp_all
    then have "nat_of_digits (x # xs) < nat_of_digits (y # ys)"
      using \<open>nat_of_digits xs < ?k\<close> Cons.hyps by (simp add: nat_of_digits_Cons)
    then show ?thesis using lt by (simp add: char_less_byte)
  next
    case eq
    then have "x = y" by (simp add: byte_def of_char_eq_iff)
    then show ?thesis using IH Cons.hyps by (simp add: nat_of_digits_Cons)
  next
    case gt
    then have "(byte y - 48 + 1) * ?k \<le> (byte x - 48) * ?k" using d by (intro mult_right_mono) simp_all
    then have "\<not> nat_of_digits (x # xs) < nat_of_digits (y # ys)"
      using lt Cons.hyps by (simp add: nat_of_digits_Cons)
    moreover have "\<not> x < y" "x \<noteq> y" using gt by (auto simp: char_less_byte)
    ultimately show ?thesis by simp
  qed
qed (simp add: nat_of_digits_def)

definition bus_name :: "nat \<Rightarrow> string" where
  "bus_name n = json_name (bus_id n)"

lemma pad6_digits: "list_all is_digit (show_pad6 n)"
  using show_nat_digits [of n] by (auto simp: show_pad6_def Let_def list_all_iff char_class_defs)

lemma pad6_length: "n < 10 ^ 6 \<Longrightarrow> length (show_pad6 n) = 6"
  using show_nat_short [of n 6] by (simp add: show_pad6_def Let_def)

lemma bus_name_order:
  assumes "i < 10 ^ 6" and "j < 10 ^ 6"
  shows "bus_name i < bus_name j \<longleftrightarrow> i < j"
proof -
  have "bus_name i < bus_name j \<longleftrightarrow> show_pad6 i @ ''.json'' < show_pad6 j @ ''.json''"
    by (simp add: bus_name_def json_name_def bus_id_def)
  also have "\<dots> \<longleftrightarrow> i < j"
    using digits_order [OF _ pad6_digits pad6_digits, of i j "''.json''"] pad6_length [OF assms(1)] pad6_length [OF assms(2)]
    unfolding nat_of_pad6 by simp
  finally show ?thesis .
qed

lemma bus_name_inject: "bus_name i = bus_name j \<longleftrightarrow> i = j"
  using bus_id_inject by (simp add: bus_name_def json_name_def)

lemma bus_name_length: "n < 10 ^ 6 \<Longrightarrow> length (bus_name n) < BUS_NAME_MAX"
  using pad6_length [of n] by (simp add: bus_name_def json_name_def bus_id_def BUS_NAME_MAX_def)

lemma sort_bus_names:
  assumes "\<forall>i \<in> set is. i < 10 ^ 6" and "distinct is"
  shows "sort (map bus_name is) = map bus_name (sort is)"
proof (rule sorted_distinct_set_unique)
  have "sorted_wrt (<) (sort is)" using assms(2) by (simp add: strict_sorted_iff)
  then have "sorted_wrt (\<lambda>i j. bus_name i < bus_name j) (sort is)"
    by (rule sorted_wrt_mono_rel [rotated]) (use assms(1) bus_name_order in auto)
  then show "sorted (map bus_name (sort is))" "distinct (map bus_name (sort is))"
    using strict_sorted_iff [of "map bus_name (sort is)"] by (simp_all add: sorted_wrt_map)
qed (use assms(2) in \<open>auto simp: distinct_map inj_on_def bus_name_inject\<close>)

text \<open>A handler that records the envelopes it gets.\<close>

definition collect_names :: "string \<Rightarrow> string list \<times> disk \<Rightarrow> bool \<times> string list \<times> disk" where
  "collect_names name = (\<lambda>(u, d). (False, u @ [name], d))"

lemma collect_names_apply [simp]: "collect_names name (u, d) = (False, u @ [name], d)"
  by (simp add: collect_names_def)

lemma drain_collects:
  assumes "distinct names" and "\<forall>n \<in> set names. map_of d (Inbox n) \<noteq> None" and "\<forall>p. io_rename_ok io p"
  shows "\<exists>d'. drain_loop io collect_names names k (u, d) = (k + int (length names), u @ names, d') \<and>
    (\<forall>n. map_of d' (Inbox n) = (if n \<in> set names then None else map_of d (Inbox n)) \<and>
         map_of d' (Processed n) = (if n \<in> set names then map_of d (Inbox n) else map_of d (Processed n)))"
  using assms(1,2)
proof (induction names arbitrary: k u d)
  case (Cons name names)
  obtain c where c: "map_of d (Inbox name) = Some c" using Cons.prems(2) by auto
  let ?d = "AList.update (Processed name) c (AList.delete (Inbox name) d)"
  have r: "fs_rename io (Inbox name) (Processed name) d = (True, ?d)" using c assms(3) by (simp add: fs_rename_def)
  have "\<forall>n \<in> set names. map_of ?d (Inbox n) \<noteq> None" using Cons.prems by auto
  then obtain d' where d': "drain_loop io collect_names names (k + 1) (u @ [name], ?d) = (k + 1 + int (length names), (u @ [name]) @ names, d')"
    "\<forall>n. map_of d' (Inbox n) = (if n \<in> set names then None else map_of ?d (Inbox n)) \<and>
         map_of d' (Processed n) = (if n \<in> set names then map_of ?d (Inbox n) else map_of ?d (Processed n))"
    using Cons.IH [of ?d "k + 1" "u @ [name]"] Cons.prems(1) by auto
  have "map_of d' (Inbox n) = (if n \<in> set (name # names) then None else map_of d (Inbox n)) \<and>
      map_of d' (Processed n) = (if n \<in> set (name # names) then map_of d (Inbox n) else map_of d (Processed n))" for n
    using d'(2) [rule_format, of n] Cons.prems(1) c by (cases "n = name") auto
  then show ?case using d'(1) r by (intro exI [of _ d']) simp
qed simp

text \<open>
  C39. Envelopes are consumed oldest first. With up to 1024 envelopes in the inbox, all with
  numbers below one million, in whatever order the directory lists them, a drain hands the
  envelopes with the smallest numbers to the handler in increasing order, as many as the budget
  allows, moves exactly those to the processed ones and leaves the others.
\<close>

theorem bus_drain_oldest_first:
  assumes "filter is_committed_envelope_name (inbox_names d) = map bus_name is" and "distinct is"
    and "\<forall>i \<in> set is. i < 10 ^ 6" and "length is \<le> BUS_NAMES_CAP" and "0 < budget"
    and "io_list_ok io D_Inbox" and "io_mkdir_ok io D_Processed" and "\<forall>p. io_rename_ok io p"
  shows "\<exists>d'. bus_drain_inbox io budget collect_names ([], d) =
      (int (min (nat budget) (length is)), map bus_name (take (nat budget) (sort is)), d') \<and>
    (\<forall>i \<in> set is. if i \<in> set (take (nat budget) (sort is))
       then map_of d' (Inbox (bus_name i)) = None \<and> map_of d' (Processed (bus_name i)) = map_of d (Inbox (bus_name i))
       else map_of d' (Inbox (bus_name i)) = map_of d (Inbox (bus_name i)))"
proof -
  let ?ns = "take (nat budget) (sort is)"
  have c: "map (copy_into BUS_NAME_MAX) (map bus_name is) = map bus_name is" using assms(3) bus_name_length by simp
  have t: "take BUS_NAMES_CAP (map bus_name is) = map bus_name is" using assms(4) by simp
  have scan: "inbox_scan_sorted io d = Some (map bus_name (sort is))"
    unfolding inbox_scan_sorted_def assms(1) t c sort_bus_names [OF assms(3,2)] using assms(6) by simp
  have "distinct (map bus_name ?ns)" using assms(2) by (simp add: distinct_map inj_on_def bus_name_inject)
  moreover have "\<forall>n \<in> set (map bus_name ?ns). map_of d (Inbox n) \<noteq> None"
  proof
    fix n
    assume "n \<in> set (map bus_name ?ns)"
    then have "n \<in> set (map bus_name is)" by (auto dest: in_set_takeD)
    then have "n \<in> set (inbox_names d)" unfolding assms(1) [symmetric] by simp
    then show "map_of d (Inbox n) \<noteq> None" by (simp add: set_inbox_names)
  qed
  ultimately obtain d' where l: "drain_loop io collect_names (map bus_name ?ns) 0 ([], d) = (0 + int (length (map bus_name ?ns)), [] @ map bus_name ?ns, d')"
    and m: "\<forall>n. map_of d' (Inbox n) = (if n \<in> set (map bus_name ?ns) then None else map_of d (Inbox n)) \<and>
         map_of d' (Processed n) = (if n \<in> set (map bus_name ?ns) then map_of d (Inbox n) else map_of d (Processed n))"
    using drain_collects [of "map bus_name ?ns" d io 0 "[]"] assms(8) by blast
  have eq: "bus_drain_inbox io budget collect_names ([], d) = drain_loop io collect_names (map bus_name ?ns) 0 ([], d)"
    using scan assms(5,7) by (cases "sort is") (simp_all add: bus_drain_inbox_def take_map [symmetric])
  have "bus_name i \<in> set (map bus_name ?ns) \<longleftrightarrow> i \<in> set ?ns" for i by (auto simp: bus_name_inject)
  then show ?thesis using m unfolding eq l by (intro exI [of _ d']) (simp add: min.commute)
qed

text \<open>With seven digits the order of the names is no longer the order of the numbers.\<close>

lemma bus_order_breaks_at_million:
  "inbox_scan_sorted good_io [(Inbox ''bus_999999.json'', []), (Inbox ''bus_1000000.json'', [])] =
     Some [''bus_1000000.json'', ''bus_999999.json'']"
  by code_simp

end
