(* ===== verification/Json_Record.thy ===== *)
theory Json_Record
  imports Json_Object
begin

text \<open>
  Records that carry raw JSON values beside their strings, as the bus and the publication outbox
  write them: the values are compacted first, so that reading and compacting again gives the same
  bytes.
\<close>

lemma no_nul_ws: "jws w \<Longrightarrow> no_nul w"
  by (induction w) (auto simp: char_class_defs)

lemma no_nul_digits: "list_all is_digit ds \<Longrightarrow> no_nul ds"
  by (induction ds) (auto simp: char_class_defs)

lemma no_nul_jstring: "jstring k \<Longrightarrow> no_nul k"
  using jchars_no_nul by (auto simp: jstring_def)

lemma no_nul_jnumber: "jnumber s \<Longrightarrow> no_nul s"
  using no_nul_digits by (auto simp: jnumber_def jfraction_def jexponent_def jdigits_def)

lemma json_text_no_nul:
  shows "jvalue v \<Longrightarrow> no_nul v" and "jmembers m \<Longrightarrow> no_nul m" and "jelements l \<Longrightarrow> no_nul l"
  by (induction rule: jvalue_jmembers_jelements.inducts) (auto simp: no_nul_ws no_nul_jstring no_nul_jnumber)

lemma squeezes_join:
  "list_all (\<lambda>x. squeezes x x) xs \<Longrightarrow> squeezes (join_comma xs) (join_comma xs)"
  by (induction xs rule: join_comma.induct) (auto intro!: squeezes_append squeezes_tight)

lemma squeezes_obj_text:
  assumes "\<forall>(k, v) \<in> set ms. plain_key k \<and> squeezes v v"
  shows "squeezes (obj_text ms) (obj_text ms)"
proof -
  have "squeezes (member_text m) (member_text m)" if "m \<in> set ms" for m
  proof -
    obtain k v where m: "m = (k, v)" by (cases m)
    have "squeezes ((DQ # k @ [DQ]) @ CHR '':'' # v) ((DQ # k @ [DQ]) @ CHR '':'' # v)"
    proof (rule squeezes_append)
      show "squeezes (DQ # k @ [DQ]) (DQ # k @ [DQ])" using assms that m by (intro squeezes_string plain_key_member(3)) auto
      show "squeezes (CHR '':'' # v) (CHR '':'' # v)" using assms that m by (intro squeezes_tight) auto
    qed
    then show ?thesis by (simp add: m member_text_def)
  qed
  then have "squeezes (join_comma (map member_text ms)) (join_comma (map member_text ms))"
    by (intro squeezes_join) (simp add: list_all_iff)
  then have "squeezes (join_comma (map member_text ms) @ ''}'') (join_comma (map member_text ms) @ ''}'')"
    by (rule squeezes_append) (simp add: squeezes_all_tight)
  then show ?thesis unfolding obj_text_def by (simp add: squeezes_tight)
qed

lemma squeezes_str_val: "squeezes (str_val s) (str_val s)"
  by (rule squeezes_string) (auto simp: str_val_def jstring_def jchars_escape_text)

lemma escape_text_length: "length s \<le> length (escape_text s)"
proof (induction s)
  case (Cons c s)
  have "0 < length (escape_unit c)" by (auto simp: escape_unit_def short_escape_def format_u04x_def split: option.splits if_splits)
  then show ?case using Cons by (simp only: escape_text_simps length_append list.size)
qed simp

lemma json_escape_length: "json_escape s n = (True, e) \<Longrightarrow> e = escape_text s \<and> length e < n \<and> length s < n"
proof -
  assume a: "json_escape s n = (True, e)"
  then have n: "0 < n" "escape_loop s n [] = (True, e)" by (auto simp: json_escape_def split: if_splits)
  have e: "e = escape_text s" using json_escape_text [of s n] a by simp
  moreover have "length e < n" using escape_loop_prefix [of "[]" n s True e] n by auto
  ultimately show ?thesis using escape_text_length [of s] by simp
qed

text \<open>A plain text needs no escapes.\<close>

lemma escape_text_plain: "plain_key k \<Longrightarrow> escape_text k = k"
  unfolding plain_key_def by (induction k) (auto simp: escape_unit_def short_escape_def is_ctrl_def byte_def)

lemma value_copy_compact:
  assumes "at_ref r v" and "squeezes v v" and "length v < n"
  shows "json_ref_value_copy r n = Some v" and "json_compact v n = Some v"
  using at_ref_value_copy [OF assms(1,3)] compact_fixed [OF assms(2,3)] by simp_all

end
