(* ===== verification/Bus_Publish.thy ===== *)
theory Bus_Publish
  imports Bus_Laws Json_Record
begin

text \<open>
  Publication under a reserved identity is repeatable: the envelope that \<open>bus_publish_stable_routed\<close>
  writes is recognised as the same publication later, and as a conflict for any other content.
\<close>

section \<open>The written envelope\<close>

definition routing_ok :: "bus_routing \<Rightarrow> bool" where
  "routing_ok r \<longleftrightarrow> rg_ref_json r = [] \<or> jvalue (rg_ref_json r)"

definition routing_members :: "bus_routing \<Rightarrow> string \<Rightarrow> (string \<times> string) list" where
  "routing_members r cref =
     (if rg_adapter_id r = [] then [] else [(''adapter_id'', str_val (rg_adapter_id r))]) @
     (if rg_context_id r = [] then [] else [(''context_id'', str_val (rg_context_id r))]) @
     (if rg_ref_json r = [] then [] else [(''ref'', cref)])"

lemma plain_keys: "plain_key ''adapter_id''" "plain_key ''context_id''" "plain_key ''ref''" "plain_key ''event_id''" "plain_key ''ts''"
  "plain_key ''channel''" "plain_key ''type''" "plain_key ''routing''" "plain_key ''payload''"
  by (simp_all add: plain_key_def char_class_defs)

lemma escaped_or_fail_Some: "escaped_or_fail s n = Some e \<Longrightarrow> e = escape_text s \<and> length s < n \<and> length e < n"
  using json_escape_length [of s n e] by (cases "json_escape s n") (auto simp: escaped_or_fail_def split: if_splits)

lemma routing_block:
  assumes "routing_json r n = Some rb" and "routing_ok r" and "rb \<noteq> []"
  shows "jvalue rb \<and> squeezes rb rb \<and> length rb < n \<and> no_nul rb \<and> (\<exists>w. rb = CHR ''{'' # w)"
proof -
  obtain ea ec cref where ea: "escaped_or_fail (rg_adapter_id r) (BUS_ROUTING_ADAPTER_MAX * 6 + 8) = Some ea"
    and ec: "escaped_or_fail (rg_context_id r) (BUS_ROUTING_CONTEXT_MAX * 6 + 8) = Some ec"
    and cref: "(if rg_ref_json r = [] then Some [] else json_compact (rg_ref_json r) (BUS_ROUTING_REF_MAX + 1)) = Some cref"
    and rb: \<open>rb = ''{'' @ join_comma ((if rg_adapter_id r = [] then [] else [''"adapter_id":"'' @ ea @ ''"'']) @
                   (if rg_context_id r = [] then [] else [''"context_id":"'' @ ec @ ''"'']) @
                   (if rg_ref_json r = [] then [] else [''"ref":'' @ cref])) @ ''}''\<close>
    and l: "length rb < n"
    using assms(1,3) by (auto simp: routing_json_def Let_def split: if_splits option.splits)
  let ?ms = "routing_members r cref"
  have e: "ea = escape_text (rg_adapter_id r)" "ec = escape_text (rg_context_id r)"
    using escaped_or_fail_Some [OF ea] escaped_or_fail_Some [OF ec] by simp_all
  have printed: "rb = obj_text ?ms"
    unfolding rb e obj_text_def routing_members_def by (simp add: member_text_def str_val_def)
  have "rg_ref_json r \<noteq> [] \<Longrightarrow> jvalue cref \<and> squeezes cref cref"
    using assms(2) cref compact_value by (auto simp: routing_ok_def)
  then have ms: "\<forall>(k, v) \<in> set ?ms. plain_key k \<and> jvalue v \<and> squeezes v v"
    using jvalue_str_val squeezes_str_val plain_keys by (auto simp: routing_members_def)
  have "jvalue rb" unfolding printed by (rule jobject_jvalue [OF jobject_printed]) (use ms in auto)
  moreover have "squeezes rb rb" unfolding printed by (rule squeezes_obj_text) (use ms in auto)
  moreover have "\<exists>w. rb = CHR ''{'' # w" by (simp add: printed obj_text_def)
  ultimately show ?thesis using l json_text_no_nul(1) [of rb] by blast
qed

definition envelope_members :: "string \<Rightarrow> string \<Rightarrow> string \<Rightarrow> string \<Rightarrow> string \<Rightarrow> string \<Rightarrow> (string \<times> string) list" where
  "envelope_members eid ts ch ty rb c =
     [(''event_id'', str_val eid), (''ts'', DQ # ts @ [DQ]), (''channel'', str_val ch), (''type'', str_val ty)] @
     (if rb = [] then [] else [(''routing'', rb)]) @ [(''payload'', c)]"

lemma valid_id_plain: "valid_envelope_id eid \<Longrightarrow> plain_key eid \<and> length eid < BUS_ID_MAX"
proof -
  assume v: "valid_envelope_id eid"
  then have d: "dropWhile is_digit (drop 4 eid) = []" "take 4 eid = ''bus_''" "length eid < BUS_ID_MAX"
    by (auto simp: valid_envelope_id_def bus_number_def)
  then have "list_all is_digit (drop 4 eid)" by (simp add: dropWhile_eq_Nil_conv list_all_iff)
  then have "list_all (\<lambda>c. \<not> is_ctrl c \<and> c \<noteq> DQ \<and> c \<noteq> BSL \<and> c \<noteq> NUL) (drop 4 eid)"
    by (rule list.pred_mono_strong) (auto simp: char_class_defs)
  then have "list_all (\<lambda>c. \<not> is_ctrl c \<and> c \<noteq> DQ \<and> c \<noteq> BSL \<and> c \<noteq> NUL) (take 4 eid @ drop 4 eid)"
    unfolding d(2) by (simp add: char_class_defs)
  then show ?thesis using d(3) by (simp add: plain_key_def BUS_ID_MAX_def)
qed

lemma envelope_text_members:
  assumes "plain_key eid"
  shows \<open>envelope_text eid ts (escape_text ch) (escape_text ty) (if rb = [] then [] else '',"routing":'' @ rb) c =
     obj_text (envelope_members eid ts ch ty rb c) @ [CHR 0x0A]\<close>
  using escape_text_plain [OF assms]
  by (simp add: envelope_text_def obj_text_def envelope_members_def member_text_def str_val_def)

lemma envelope_members_ok:
  assumes "jchars ts" and "rb = [] \<or> jvalue rb" and "jvalue c"
  shows "\<forall>(k, v) \<in> set (envelope_members eid ts ch ty rb c). plain_key k \<and> jvalue v"
proof -
  have "jvalue (DQ # ts @ [DQ])" using assms(1) by (auto simp: jstring_def intro: jvalue_string)
  then show ?thesis using assms(2,3) jvalue_str_val plain_keys by (auto simp: envelope_members_def)
qed

text \<open>Two publications are the same when every member agrees.\<close>

definition same_publication :: "string \<Rightarrow> string \<Rightarrow> string \<Rightarrow> bus_routing \<Rightarrow> string \<Rightarrow> string \<Rightarrow> string \<Rightarrow> bus_routing \<Rightarrow> bool" where
  "same_publication ch ty pl r ch' ty' pl' r' \<longleftrightarrow>
     ch' = ch \<and> ty' = ty \<and> json_compact pl' BUS_PAYLOAD_MAX = json_compact pl BUS_PAYLOAD_MAX \<and>
     routing_json r' BUS_ROUTING_JSON_MAX = routing_json r BUS_ROUTING_JSON_MAX"

lemma document_matches_written:
  assumes "jchars ts" and "rb = [] \<or> jvalue rb \<and> squeezes rb rb \<and> length rb < BUS_ROUTING_JSON_MAX \<and> (\<exists>w. rb = CHR ''{'' # w)"
    and "jvalue c" and "squeezes c c" and "length c < BUS_PAYLOAD_MAX" and "json_compact pl BUS_PAYLOAD_MAX = Some c"
    and "text_ok BUS_ID_MAX eid" and "text_ok BUS_CHANNEL_MAX ch" and "text_ok BUS_TYPE_MAX ty"
  shows "document_matches (obj_text (envelope_members eid ts ch ty rb c) @ [CHR 0x0A]) eid ch ty pl rb"
proof -
  let ?ms = "envelope_members eid ts ch ty rb c"
  have ms: "\<forall>(k, v) \<in> set ?ms. plain_key k \<and> jvalue v" using envelope_members_ok assms(1-3) by blast
  obtain root where root: "json_ref_top_object (obj_text ?ms @ [CHR 0x0A]) = Some root" "at_ref root (obj_text ?ms)"
    by (rule top_object_printed [OF ms, of "[CHR 0x0A]"]) (auto simp: char_class_defs)
  note r = at_ref_span [OF root(2)]
  note gs = printed_get_string(1) [OF r ms]
  have strings: "get_string root ''event_id'' BUS_ID_MAX = Some eid" "get_string root ''channel'' BUS_CHANNEL_MAX = Some ch"
    "get_string root ''type'' BUS_TYPE_MAX = Some ty"
    by (rule gs; use assms(7-9) in \<open>simp add: envelope_members_def\<close>)+
  have "map_of ?ms ''payload'' = Some c" by (simp add: envelope_members_def)
  then obtain p where p: "json_ref_object_get root ''payload'' = Some p" "at_ref p c"
    using at_ref_object_get [OF r ms, of "''payload''"] by auto
  note pc = value_copy_compact [OF p(2) assms(4,5)]
  have "actual_routing root = rb"
  proof (cases "rb = []")
    case True
    then have "map_of ?ms ''routing'' = None" by (simp add: envelope_members_def)
    then have "json_ref_object_get root ''routing'' = None" using at_ref_object_get [OF r ms, of "''routing''"] by simp
    then show ?thesis using True by (simp add: actual_routing_def json_ref_object_get_object_def)
  next
    case False
    then have "map_of ?ms ''routing'' = Some rb" by (simp add: envelope_members_def)
    then obtain q where q: "json_ref_object_get root ''routing'' = Some q" "at_ref q rb"
      using at_ref_object_get [OF r ms, of "''routing''"] by auto
    obtain w where "rb = CHR ''{'' # w" using assms(2) False by blast
    then have "jr_type q = JSON_REF_OBJECT" using at_span_type at_ref_span [OF q(2)] by (simp add: json_ref_infer_type_def)
    then show ?thesis using q(1) value_copy_compact [OF q(2)] assms(2) False
      by (simp add: actual_routing_def json_ref_object_get_object_def)
  qed
  then show ?thesis using root(1) strings p(1) pc assms(6) by (simp add: document_matches_def)
qed

text \<open>A document matches at most one publication.\<close>

lemma document_matches_unique:
  assumes "document_matches doc eid ch ty pl rb"
  shows "document_matches doc eid ch' ty' pl' rb' \<longleftrightarrow>
    ch' = ch \<and> ty' = ty \<and> json_compact pl' BUS_PAYLOAD_MAX = json_compact pl BUS_PAYLOAD_MAX \<and> rb' = rb"
  using assms by (auto simp: document_matches_def split: option.splits)

section \<open>Publishing again\<close>

definition reads_ok :: "io_env \<Rightarrow> bool" where
  "reads_ok io \<longleftrightarrow> (\<forall>p. io_read_ok io p) \<and> (\<forall>n. io_malloc_ok io n)"

lemma fs_read_again: "fs_read io p d = Rd_Text t \<Longrightarrow> reads_ok io' \<Longrightarrow> fs_read io' p d = Rd_Text t"
  by (auto simp: fs_read_def reads_ok_def split: option.splits if_splits)

lemma fs_read_written:
  assumes "map_of d p = Some t" and "no_nul t" and "length t \<le> 67108864" and "reads_ok io"
  shows "fs_read io p d = Rd_Text t"
  using assms by (simp add: fs_read_def fs_read_text_def reads_ok_def read_cap_def FS_READ_TEXT_DEFAULT_CAP_def)

text \<open>After a publication that succeeded the document under the identity matches it.\<close>

lemma published_matches:
  assumes "bus_publish_stable_routed io eid ch ty pl r d = (0, d')" and "jvalue pl" and "routing_ok r" and "no_nul ch" and "no_nul ty"
    and "jchars (io_time io)" and "length (io_time io) < 64" and "reads_ok io'"
  shows "\<exists>doc rb p. routing_json r BUS_ROUTING_JSON_MAX = Some rb \<and> fs_read io' p d' = Rd_Text doc \<and> document_matches doc eid ch ty pl rb \<and>
    valid_envelope_id eid \<and>
    (bus_envelope_locations eid d' = 1 \<and> p = Inbox (json_name eid) \<or> bus_envelope_locations eid d' = 2 \<and> p = Processed (json_name eid))"
proof -
  obtain rb where rb: "routing_json r BUS_ROUTING_JSON_MAX = Some rb" and v: "valid_envelope_id eid"
    using assms(1) by (auto simp: bus_publish_stable_routed_def publish_codes split: if_splits option.splits)
  note id_ok = valid_id_plain [OF v]
  let ?loc = "bus_envelope_locations eid d"
  show ?thesis
  proof (cases "?loc = 1 \<or> ?loc = 2")
    case True
    let ?p = "if ?loc = 1 then Inbox (json_name eid) else Processed (json_name eid)"
    have m: "existing_envelope_matches io ?p eid ch ty pl rb d" and d': "d' = d"
      using assms(1) True v rb by (auto simp: bus_publish_stable_routed_def publish_codes Let_def split: if_splits)
    obtain doc where "fs_read io ?p d = Rd_Text doc" "document_matches doc eid ch ty pl rb"
      using m by (auto simp: existing_envelope_matches_def split: read_result.splits)
    then show ?thesis using True rb v d' fs_read_again [OF _ assms(8)] by auto
  next
    case False
    let ?rf = \<open>if rb = [] then [] else '',"routing":'' @ rb\<close>
    have c: "commit_envelope io eid ch ty pl ?rf d = (0, d')" and free: "map_of d (Inbox (json_name eid)) = None" "map_of d (Processed (json_name eid)) = None"
      using assms(1) False v rb
      by (auto simp: bus_publish_stable_routed_def publish_codes Let_def bus_envelope_locations_def fs_file_exists_def split: if_splits)
    obtain ec et cp where e: "escaped_or_fail ch BUS_CHANNEL_MAX = Some ec" "escaped_or_fail ty BUS_TYPE_MAX = Some et"
      "json_compact pl BUS_PAYLOAD_MAX = Some cp"
      and d': "d' = snd (fs_append_text io Bus_Log (envelope_text eid (io_time io) ec et ?rf cp)
        (AList.update (Inbox (json_name eid)) (envelope_text eid (io_time io) ec et ?rf cp) d))"
      using c by (auto simp: commit_envelope_def publish_codes fs_write_text_atomic_def Let_def split: if_splits option.splits)
    note es = escaped_or_fail_Some [OF e(1)] escaped_or_fail_Some [OF e(2)]
    let ?doc = "obj_text (envelope_members eid (io_time io) ch ty rb cp) @ [CHR 0x0A]"
    have doc: "envelope_text eid (io_time io) ec et ?rf cp = ?doc"
      using envelope_text_members id_ok es by simp
    note cv = compact_value [OF assms(2) e(3)]
    have rbv: "rb = [] \<or> jvalue rb \<and> squeezes rb rb \<and> length rb < BUS_ROUTING_JSON_MAX \<and> (\<exists>w. rb = CHR ''{'' # w)"
      using routing_block [OF rb assms(3)] by blast
    have "document_matches ?doc eid ch ty pl rb"
      by (rule document_matches_written [OF assms(6) rbv cv(1,2,3) e(3)]) (use id_ok es assms(4,5) no_nul_plain in \<open>auto simp: text_ok_def\<close>)
    moreover have "no_nul ?doc"
    proof -
      have "jvalue (obj_text (envelope_members eid (io_time io) ch ty rb cp))"
        by (rule jobject_jvalue [OF jobject_printed]) (use envelope_members_ok assms(6) rbv cv(1) in blast)
      then show ?thesis using json_text_no_nul(1) by simp
    qed
    moreover have "length ?doc \<le> 67108864"
    proof -
      have "length rb < BUS_ROUTING_JSON_MAX" using rbv by (auto simp: BUS_ROUTING_JSON_MAX_def)
      then show ?thesis unfolding doc [symmetric] using es cv(3) id_ok assms(7)
        by (auto simp: envelope_text_def bus_sizes)
    qed
    moreover have l: "map_of d' (Inbox (json_name eid)) = Some ?doc" "map_of d' (Processed (json_name eid)) = None"
      using free by (auto simp: d' doc)
    ultimately have "fs_read io' (Inbox (json_name eid)) d' = Rd_Text ?doc" "document_matches ?doc eid ch ty pl rb"
      using fs_read_written assms(8) by blast+
    moreover have "bus_envelope_locations eid d' = 1" using l v by (simp add: bus_envelope_locations_def fs_file_exists_def)
    ultimately show ?thesis using rb v by blast
  qed
qed

text \<open>
  C37. Publication under a reserved identity is repeatable. After a publication that succeeded,
  whatever was on the disk before it, publishing again under the same identity leaves the disk as
  it is: it succeeds when channel, type, routing and the payload up to white space are the same,
  and reports a conflict for anything else.
\<close>

theorem bus_publish_repeatable:
  assumes "bus_publish_stable_routed io eid ch ty pl r d = (0, d')" and "jvalue pl" and "routing_ok r" and "no_nul ch" and "no_nul ty"
    and "jchars (io_time io)" and "length (io_time io) < 64" and "reads_ok io'"
    and "routing_json r' BUS_ROUTING_JSON_MAX \<noteq> None"
  shows "bus_publish_stable_routed io' eid ch' ty' pl' r' d' =
    (if same_publication ch ty pl r ch' ty' pl' r' then (0, d') else (BUS_PUBLISH_CONFLICT, d'))"
proof -
  obtain rb' where rb': "routing_json r' BUS_ROUTING_JSON_MAX = Some rb'" using assms(9) by blast
  obtain doc rb p where rb: "routing_json r BUS_ROUTING_JSON_MAX = Some rb" and doc: "fs_read io' p d' = Rd_Text doc"
    and m: "document_matches doc eid ch ty pl rb" and v: "valid_envelope_id eid"
    and loc: "bus_envelope_locations eid d' = 1 \<and> p = Inbox (json_name eid) \<or> bus_envelope_locations eid d' = 2 \<and> p = Processed (json_name eid)"
    using published_matches [OF assms(1-8)] by blast
  have "existing_envelope_matches io' p eid ch' ty' pl' rb' d' \<longleftrightarrow> same_publication ch ty pl r ch' ty' pl' r'"
    using doc assms(8) document_matches_unique [OF m, of ch' ty' pl' rb'] rb rb'
    by (simp add: existing_envelope_matches_def reads_ok_def same_publication_def)
  then show ?thesis using loc v rb' by (auto simp: bus_publish_stable_routed_def Let_def)
qed

end
