(* ===== verification/Bus_Run.thy ===== *)
theory Bus_Run
  imports Bus_Publish
begin

text \<open>
  A small run of the bus: the first publication into an empty workspace, the consumption of the
  envelope, and a drain of an inbox whose directory lists the envelopes out of order. The
  properties of the bus are applied to it.
\<close>

definition demo_envelope :: string where
  \<open>demo_envelope = ''{"event_id":"bus_000001","ts":"2026-01-01T00:00:00Z","channel":"inbound","type":"user_message","payload":[1]}'' @ [CHR 0x0A]\<close>

definition demo_bus :: disk where
  "demo_bus = [(Inbox ''bus_000001.json'', demo_envelope), (Bus_Log, demo_envelope)]"

definition demo_inbox :: disk where
  "demo_inbox = [(Inbox ''bus_000012.json'', ''b''), (Inbox ''bus_000003.json'', ''a'')]"

definition demo_bus_done :: disk where
  "demo_bus_done = [(Bus_Log, demo_envelope), (Processed ''bus_000001.json'', demo_envelope)]"

lemma demo_published:
  \<open>bus_publish_stable_routed good_io ''bus_000001'' ''inbound'' ''user_message'' ''[ 1 ]'' no_routing [] = (0, demo_bus)\<close>
  by code_simp

lemma demo_popped: "bus_pop_oldest good_io demo_bus = ((0, ''bus_000001.json''), demo_bus_done)"
  by code_simp

lemma demo_moved: "bus_step\<^sup>*\<^sup>* demo_bus demo_bus_done"
  by (rule r_into_rtranclp) (rule bus_step.pop [OF demo_popped])

lemma demo_bus_reachable: "bus_reachable demo_bus"
proof (rule bus_reachable.step)
  show "bus_reachable []" by (rule bus_reachable.fresh) simp
  show "bus_step [] demo_bus" by (rule bus_step.publish [OF demo_published])
qed

lemma demo_routing: "routing_ok no_routing"
  by (simp add: routing_ok_def no_routing_def)

lemma demo_routing_json: "routing_json no_routing BUS_ROUTING_JSON_MAX = Some []"
  by code_simp

text \<open>The envelope of the demo is still there, unchanged, after it was consumed.\<close>

theorem bus_envelope_kept_witness:
  "(map_of demo_bus_done (Inbox ''bus_000001.json'') = Some demo_envelope \<and> map_of demo_bus_done (Processed ''bus_000001.json'') = None) \<or>
   (map_of demo_bus_done (Inbox ''bus_000001.json'') = None \<and> map_of demo_bus_done (Processed ''bus_000001.json'') = Some demo_envelope)"
  by (rule bus_envelope_kept [OF demo_bus_reachable _ demo_moved]) (simp add: demo_bus_def)

lemma demo_reserve:
  "bus_reserve_envelope_id good_io BUS_ID_MAX [] = (Some ''bus_000001'', [(Bus_Counter, ''1'' @ [CHR 0x0A])])"
  "bus_reserve_envelope_id good_io BUS_ID_MAX [(Bus_Counter, ''1'' @ [CHR 0x0A])] = (Some ''bus_000002'', [(Bus_Counter, ''2'' @ [CHR 0x0A])])"
proof -
  show "bus_reserve_envelope_id good_io BUS_ID_MAX [] = (Some ''bus_000001'', [(Bus_Counter, ''1'' @ [CHR 0x0A])])" by code_simp
  have i: "show_int 1 = ''1''" by code_simp
  have "fs_read good_io Bus_Counter [(Bus_Counter, ''1'' @ [CHR 0x0A])] = Rd_Text (''1'' @ [CHR 0x0A])"
    by (rule fs_read_written) (simp_all add: no_nul_def reads_ok_def good_io_def)
  moreover have "counter_value (''1'' @ [CHR 0x0A]) = Some 1"
    using counter_value_printed [of 1] unfolding i by (simp add: LLONG_MAX_def)
  moreover have "bump_counter good_io 1 BUS_ID_MAX [(Bus_Counter, ''1'' @ [CHR 0x0A])] =
      (Some ''bus_000002'', [(Bus_Counter, ''2'' @ [CHR 0x0A])])" by code_simp
  ultimately show "bus_reserve_envelope_id good_io BUS_ID_MAX [(Bus_Counter, ''1'' @ [CHR 0x0A])] =
      (Some ''bus_000002'', [(Bus_Counter, ''2'' @ [CHR 0x0A])])"
    unfolding bus_reserve_envelope_id_def next_envelope_id_def by (simp add: good_io_def)
qed

theorem bus_ids_increase_witness:
  "''bus_000001'' \<noteq> ''bus_000002'' \<and> (\<exists>i j. ''bus_000001'' = bus_id i \<and> ''bus_000002'' = bus_id j \<and> i < j)"
  by (rule bus_ids_increase [OF demo_reserve(1) rtranclp.rtrancl_refl demo_reserve(2)])

lemma demo_inbox_names: "filter is_committed_envelope_name (inbox_names demo_inbox) = map bus_name [12, 3]"
  by code_simp

theorem bus_drain_oldest_first_witness:
  "\<exists>d'. bus_drain_inbox good_io 1 collect_names ([], demo_inbox) =
      (int (min (nat 1) (length [12, 3 :: nat])), map bus_name (take (nat 1) (sort [12, 3])), d') \<and>
    (\<forall>i \<in> set [12, 3]. if i \<in> set (take (nat 1) (sort [12, 3]))
       then map_of d' (Inbox (bus_name i)) = None \<and> map_of d' (Processed (bus_name i)) = map_of demo_inbox (Inbox (bus_name i))
       else map_of d' (Inbox (bus_name i)) = map_of demo_inbox (Inbox (bus_name i)))"
  by (rule bus_drain_oldest_first [OF demo_inbox_names]) (simp_all add: BUS_NAMES_CAP_def good_io_def)

lemma demo_payload: \<open>jvalue ''[ 1 ]''\<close>
proof -
  have "jvalue ''1''" by (intro jvalue_number jnumber_digits) (simp_all add: char_class_defs)
  then have "jelements (''1'' @ '' '' @ '']'')" by (rule jelements_last) (simp add: char_class_defs)
  then show ?thesis using jvalue_array [of "'' ''" "''1'' @ '' '' @ '']''"] by (simp add: char_class_defs)
qed

lemma demo_time: "jchars (io_time good_io)"
  unfolding good_io_def by (simp add: jchars_plain jchars_Nil char_class_defs)

theorem bus_publish_repeatable_witness:
  \<open>bus_publish_stable_routed good_io ''bus_000001'' ''inbound'' ''user_message'' ''[2]'' no_routing demo_bus =
    (if same_publication ''inbound'' ''user_message'' ''[ 1 ]'' no_routing ''inbound'' ''user_message'' ''[2]'' no_routing
     then (0, demo_bus) else (BUS_PUBLISH_CONFLICT, demo_bus))\<close>
  by (rule bus_publish_repeatable [OF demo_published demo_payload demo_routing _ _ demo_time])
    (simp_all add: no_nul_def good_io_def reads_ok_def demo_routing_json)

end
