(* ===== verification/Profile.thy ===== *)
theory Profile
  imports Rt_Base Json_Object
begin

text \<open>
  The loop profile of \<open>runtime/profile.c\<close>: the recipe of steps that every run walks through. The
  lookup of a profile by name (\<open>rt_floop_loop_path\<close>) is a parameter that gives the content of the
  file; every message of the loader is a value of \<open>profile_error\<close>.
\<close>

definition RT_MAX_STEPS :: nat where
  "RT_MAX_STEPS = 32"

record rt_step =
  sp_id :: string
  sp_type :: string
  sp_target :: string
  sp_gate :: string
  sp_non_critical :: bool

record rt_profile =
  pf_version :: int
  pf_name :: string
  pf_description :: string
  pf_steps :: "rt_step list"
  pf_one_pass :: bool
  pf_serialize_contexts :: bool
  pf_retry_attempts :: int
  pf_operation_timeout_ms :: int

datatype profile_error =
    Floop_Not_Found string
  | Floop_Unreadable
  | Floop_Malformed
  | Floop_No_Steps
  | Step_Not_Object nat
  | Step_No_Id_Or_Type nat
  | Step_Bad_Target string

text \<open>The member that names the target of a step of each type.\<close>

definition copy_step_target :: "json_ref \<Rightarrow> string \<Rightarrow> nat \<Rightarrow> string option" where
  "copy_step_target step type out_len =
     (if type = ''agent'' then get_string step ''agent'' out_len
      else if type = ''builtin'' then get_string step ''builtin'' out_len
      else if type = ''action'' then get_string step ''action'' out_len
      else None)"

definition load_profile_step :: "json_ref \<Rightarrow> nat \<Rightarrow> profile_error + rt_step" where
  "load_profile_step steps i =
     (case json_ref_array_get steps i of
        None \<Rightarrow> Inl (Step_Not_Object i)
      | Some step \<Rightarrow>
          if jr_type step \<noteq> JSON_REF_OBJECT then Inl (Step_Not_Object i)
          else
            (case (get_string step ''id'' RT_SMALL, get_string step ''type'' RT_SMALL) of
               (Some sid, Some type) \<Rightarrow>
                 (case copy_step_target step type RT_SMALL of
                    None \<Rightarrow> Inl (Step_Bad_Target sid)
                  | Some target \<Rightarrow>
                      Inr \<lparr>sp_id = sid, sp_type = type, sp_target = target,
                        sp_gate = (case get_string step ''gate'' RT_SMALL of None \<Rightarrow> ''always'' | Some g \<Rightarrow> g),
                        sp_non_critical = (json_ref_object_get_bool step ''non_critical'' = Some True)\<rparr>)
             | _ \<Rightarrow> Inl (Step_No_Id_Or_Type i)))"

text \<open>The first step that cannot be read fails the whole profile.\<close>

fun load_profile_steps :: "json_ref \<Rightarrow> nat list \<Rightarrow> profile_error + rt_step list" where
  "load_profile_steps steps [] = Inr []"
| "load_profile_steps steps (i # is) =
     (case load_profile_step steps i of
        Inl e \<Rightarrow> Inl e
      | Inr s \<Rightarrow> (case load_profile_steps steps is of Inl e \<Rightarrow> Inl e | Inr ss \<Rightarrow> Inr (s # ss)))"

definition profile_options :: "json_ref \<Rightarrow> rt_profile \<Rightarrow> rt_profile" where
  "profile_options root p =
     p\<lparr>pf_one_pass := (json_ref_object_get_bool root ''one_pass'' = Some True),
       pf_serialize_contexts := (json_ref_object_get_bool root ''serialize_contexts'' = Some True),
       pf_retry_attempts := (let v = get_long_or 0 root ''retry_attempts'' in if v > 0 then (if v > 8 then 8 else v) else 0),
       pf_operation_timeout_ms := (let v = get_long_or 0 root ''operation_timeout_ms'' in if v > 0 then to_int32 v else 0)\<rparr>"

text \<open>
  The content of the file that the name resolves to: \<open>None\<close> for a name that does not resolve,
  \<open>Some None\<close> for a file that cannot be opened.
\<close>

definition rt_profile_load :: "(string \<Rightarrow> string option option) \<Rightarrow> string \<Rightarrow> profile_error + rt_profile" where
  "rt_profile_load floop_file name_or_path =
     (case floop_file name_or_path of
        None \<Rightarrow> Inl (Floop_Not_Found name_or_path)
      | Some file \<Rightarrow>
          (case fs_read_text file FS_READ_TEXT_DEFAULT_CAP of
             None \<Rightarrow> Inl Floop_Unreadable
           | Some content \<Rightarrow>
               (case json_ref_first_object content of
                  None \<Rightarrow> Inl Floop_Malformed
                | Some root \<Rightarrow>
                    (case (json_ref_object_get_long root ''version'', get_string root ''name'' RT_SMALL,
                           json_ref_object_get_array root ''steps'') of
                       (Some version, Some name, Some steps) \<Rightarrow>
                         if json_ref_array_size steps = 0 then Inl Floop_No_Steps
                         else
                           (case load_profile_steps steps [0..<min (json_ref_array_size steps) RT_MAX_STEPS] of
                              Inl e \<Rightarrow> Inl e
                            | Inr ss \<Rightarrow>
                                Inr (profile_options root
                                  \<lparr>pf_version = to_int32 version, pf_name = name,
                                   pf_description = get_string_or_empty root ''description'' RT_LARGE, pf_steps = ss,
                                   pf_one_pass = False, pf_serialize_contexts = False, pf_retry_attempts = 0,
                                   pf_operation_timeout_ms = 0\<rparr>))
                     | _ \<Rightarrow> Inl Floop_Malformed))))"

section \<open>What a loaded profile promises\<close>

definition profile_step_ok :: "rt_step \<Rightarrow> bool" where
  "profile_step_ok s \<longleftrightarrow> text_ok RT_SMALL (sp_id s) \<and> sp_type s \<in> {''agent'', ''builtin'', ''action''} \<and>
     text_ok RT_SMALL (sp_target s) \<and> text_ok RT_SMALL (sp_gate s)"

definition profile_ok :: "rt_profile \<Rightarrow> bool" where
  "profile_ok p \<longleftrightarrow> pf_steps p \<noteq> [] \<and> length (pf_steps p) \<le> RT_MAX_STEPS \<and> list_all profile_step_ok (pf_steps p) \<and>
     text_ok RT_SMALL (pf_name p) \<and> text_ok RT_LARGE (pf_description p) \<and> 0 \<le> pf_retry_attempts p \<and> pf_retry_attempts p \<le> 8"

lemma get_string_ok: "get_string r key n = Some s \<Longrightarrow> 0 < n \<Longrightarrow> text_ok n s"
  using get_string_or_empty_ok [of n r key]
  by (auto simp: get_string_def get_string_or_empty_def text_ok_def split: prod.splits if_splits)

lemma load_profile_step_ok: "load_profile_step steps i = Inr s \<Longrightarrow> profile_step_ok s"
  by (auto simp: load_profile_step_def copy_step_target_def profile_step_ok_def rt_sizes text_ok_def no_nul_def
      split: option.splits if_splits dest!: get_string_ok)

lemma load_profile_steps_ok:
  "load_profile_steps steps is = Inr ss \<Longrightarrow> length ss = length is \<and> (\<forall>k < length is. load_profile_step steps (is ! k) = Inr (ss ! k))"
proof (induction "is" arbitrary: ss)
  case (Cons i "is")
  then obtain s ss' where "load_profile_step steps i = Inr s" "load_profile_steps steps is = Inr ss'" "ss = s # ss'"
    by (auto split: sum.splits)
  then show ?case using Cons.IH [of ss'] by (auto simp: less_Suc_eq_0_disj)
qed simp

text \<open>
  C35. Every profile that the loader accepts is well formed: it has between 1 and 32 steps, all
  texts fit their buffers, every step is an agent, a builtin or an action with a target, and the
  number of retries is between 0 and 8. Its steps are the first steps of the file, in order.
\<close>

theorem profile_load_ok:
  assumes "rt_profile_load floop_file name = Inr p"
  shows "profile_ok p \<and>
    (\<exists>file content root steps. floop_file name = Some file \<and> fs_read_text file FS_READ_TEXT_DEFAULT_CAP = Some content \<and>
       json_ref_first_object content = Some root \<and> json_ref_object_get_array root ''steps'' = Some steps \<and>
       length (pf_steps p) = min (json_ref_array_size steps) RT_MAX_STEPS \<and>
       (\<forall>k < length (pf_steps p). load_profile_step steps k = Inr (pf_steps p ! k)))"
proof -
  obtain fl content root steps version ss nm where l: "floop_file name = Some fl" "fs_read_text fl FS_READ_TEXT_DEFAULT_CAP = Some content"
    "json_ref_first_object content = Some root" "json_ref_object_get_array root ''steps'' = Some steps" "json_ref_array_size steps \<noteq> 0"
    and n: "get_string root ''name'' RT_SMALL = Some nm"
    and ss: "load_profile_steps steps [0..<min (json_ref_array_size steps) RT_MAX_STEPS] = Inr ss"
    and p: "p = profile_options root \<lparr>pf_version = to_int32 version, pf_name = nm,
       pf_description = get_string_or_empty root ''description'' RT_LARGE, pf_steps = ss, pf_one_pass = False,
       pf_serialize_contexts = False, pf_retry_attempts = 0, pf_operation_timeout_ms = 0\<rparr>"
    using assms by (auto simp: rt_profile_load_def split: option.splits if_splits sum.splits)
  have len: "length ss = min (json_ref_array_size steps) RT_MAX_STEPS"
    and each: "\<forall>k < length ss. load_profile_step steps k = Inr (ss ! k)"
    using load_profile_steps_ok [OF ss] by auto
  have "list_all profile_step_ok ss" using each load_profile_step_ok by (auto simp: list_all_length)
  moreover have "ss \<noteq> []" using len l(5) by (auto simp: RT_MAX_STEPS_def)
  moreover have "text_ok RT_SMALL nm" using get_string_ok [OF n] by (simp add: rt_sizes)
  moreover have "text_ok RT_LARGE (get_string_or_empty root ''description'' RT_LARGE)"
    using get_string_or_empty_ok [of RT_LARGE root] by (simp add: text_ok_def rt_sizes)
  ultimately have "profile_ok p" using len by (auto simp: p profile_ok_def profile_options_def Let_def)
  then show ?thesis using l len each by (auto simp: p profile_options_def)
qed

definition demo_floop :: string where
  \<open>demo_floop = ''{"version":1,"name":"c","retry_attempts":9,"steps":[{"id":"a","type":"agent","agent":"t"}]}''\<close>

definition demo_profile :: rt_profile where
  "demo_profile = \<lparr>pf_version = 1, pf_name = ''c'', pf_description = [],
     pf_steps = [\<lparr>sp_id = ''a'', sp_type = ''agent'', sp_target = ''t'', sp_gate = ''always'', sp_non_critical = False\<rparr>],
     pf_one_pass = False, pf_serialize_contexts = False, pf_retry_attempts = 8, pf_operation_timeout_ms = 0\<rparr>"

definition demo_floop_file :: "string \<Rightarrow> string option option" where
  "demo_floop_file name = (if name = ''c'' then Some (Some demo_floop) else None)"

lemma demo_floop_read: "fs_read_text (Some demo_floop) FS_READ_TEXT_DEFAULT_CAP = Some demo_floop"
  by (simp add: fs_read_text_def read_cap_def FS_READ_TEXT_DEFAULT_CAP_def demo_floop_def cstr_def)

lemma demo_profile_load: "rt_profile_load demo_floop_file ''c'' = Inr demo_profile"
  unfolding rt_profile_load_def by (simp only: demo_floop_file_def demo_floop_read option.simps refl if_True) code_simp

theorem profile_load_ok_witness:
  "profile_ok demo_profile \<and>
    (\<exists>file content root steps. demo_floop_file ''c'' = Some file \<and> fs_read_text file FS_READ_TEXT_DEFAULT_CAP = Some content \<and>
       json_ref_first_object content = Some root \<and> json_ref_object_get_array root ''steps'' = Some steps \<and>
       length (pf_steps demo_profile) = min (json_ref_array_size steps) RT_MAX_STEPS \<and>
       (\<forall>k < length (pf_steps demo_profile). load_profile_step steps k = Inr (pf_steps demo_profile ! k)))"
  by (rule profile_load_ok [OF demo_profile_load])

end
