(* ===== verification/Run_State.thy ===== *)
theory Run_State
  imports Bus Profile
begin

text \<open>
  One run of the runtime and its durable control state: \<open>RtRun\<close> of \<open>runtime/runtime_kernel.h\<close>, the
  serializer and the status vocabulary of \<open>runtime/run_state.c\<close>, and the error classes of
  \<open>runtime/error_codes.h\<close>. The members of \<open>RtContext\<close> that these files and the scheduler use are
  members of the record; the others belong to prompts, memory and delivery.
\<close>

section \<open>Error classes\<close>

datatype fc_error_code =
    FC_ERROR_NONE
  | FC_ERROR_BAD_REQUEST | FC_ERROR_INVALID_ARGS | FC_ERROR_MALFORMED
  | FC_ERROR_NOT_FOUND | FC_ERROR_NOT_ALLOWED
  | FC_ERROR_RUNTIME | FC_ERROR_AGENT_FAILED | FC_ERROR_TIMEOUT | FC_ERROR_OUTPUT_LIMIT
  | FC_ERROR_EXTERNAL_CONNECTION | FC_ERROR_EXTERNAL_REQUEST | FC_ERROR_EXTERNAL_HTTP | FC_ERROR_EXTERNAL_AUTH
  | FC_ERROR_EXTERNAL_RESPONSE

fun fc_error_number :: "fc_error_code \<Rightarrow> int" where
  "fc_error_number FC_ERROR_NONE = 0"
| "fc_error_number FC_ERROR_BAD_REQUEST = 20"
| "fc_error_number FC_ERROR_INVALID_ARGS = 21"
| "fc_error_number FC_ERROR_MALFORMED = 22"
| "fc_error_number FC_ERROR_NOT_FOUND = 40"
| "fc_error_number FC_ERROR_NOT_ALLOWED = 41"
| "fc_error_number FC_ERROR_RUNTIME = 50"
| "fc_error_number FC_ERROR_AGENT_FAILED = 51"
| "fc_error_number FC_ERROR_TIMEOUT = 52"
| "fc_error_number FC_ERROR_OUTPUT_LIMIT = 53"
| "fc_error_number FC_ERROR_EXTERNAL_CONNECTION = 60"
| "fc_error_number FC_ERROR_EXTERNAL_REQUEST = 61"
| "fc_error_number FC_ERROR_EXTERNAL_HTTP = 62"
| "fc_error_number FC_ERROR_EXTERNAL_AUTH = 63"
| "fc_error_number FC_ERROR_EXTERNAL_RESPONSE = 64"

fun fc_error_default_code :: "fc_error_code \<Rightarrow> string" where
  "fc_error_default_code FC_ERROR_NONE = ''ok''"
| "fc_error_default_code FC_ERROR_BAD_REQUEST = ''bad_request''"
| "fc_error_default_code FC_ERROR_INVALID_ARGS = ''invalid_args''"
| "fc_error_default_code FC_ERROR_MALFORMED = ''malformed''"
| "fc_error_default_code FC_ERROR_NOT_FOUND = ''not_found''"
| "fc_error_default_code FC_ERROR_NOT_ALLOWED = ''not_allowed''"
| "fc_error_default_code FC_ERROR_RUNTIME = ''runtime_error''"
| "fc_error_default_code FC_ERROR_AGENT_FAILED = ''agent_failed''"
| "fc_error_default_code FC_ERROR_TIMEOUT = ''timeout''"
| "fc_error_default_code FC_ERROR_OUTPUT_LIMIT = ''output_limit''"
| "fc_error_default_code FC_ERROR_EXTERNAL_CONNECTION = ''external_connection_failed''"
| "fc_error_default_code FC_ERROR_EXTERNAL_REQUEST = ''external_request_failed''"
| "fc_error_default_code FC_ERROR_EXTERNAL_HTTP = ''external_http_error''"
| "fc_error_default_code FC_ERROR_EXTERNAL_AUTH = ''external_auth_failed''"
| "fc_error_default_code FC_ERROR_EXTERNAL_RESPONSE = ''external_response_error''"

section \<open>The run\<close>

definition RT_MAX_WAITING_JOBS :: nat where
  "RT_MAX_WAITING_JOBS = 16"

datatype run_state =
    RT_RUN_READY | RT_RUN_RUNNING | RT_RUN_WAITING_JOBS | RT_RUN_WAITING_EVENT | RT_RUN_WAITING_ACTION_SLOT
  | RT_RUN_DONE | RT_RUN_FAILED

datatype wait_reason =
    RT_WAIT_REASON_NONE | RT_WAIT_REASON_AGENT_JOB | RT_WAIT_REASON_ACTION_JOB | RT_WAIT_REASON_ACTION_SLOT

text \<open>A pending action; \<open>None\<close> are the arguments \<open>NULL\<close>, which mean the empty object.\<close>

record pending_action =
  pa_request_id :: string
  pa_source_agent :: string
  pa_action :: string
  pa_args_json :: "string option"
  pa_sig :: string
  pa_task_id :: string
  pa_work_rev :: int
  pa_trigger_event_id :: string
  pa_started :: bool
  pa_op_id :: string
  pa_op_token :: string

record rt_run =
  rn_run_id :: string
  rn_origin_event_id :: string
  rn_ctx_context_id :: string
  rn_event_kind :: string
  rn_inbound_affair_id :: string
  rn_memory_compaction_due :: bool
  rn_run_state_json :: string
  rn_profile :: "rt_profile option"
  rn_phase_index :: nat
  rn_state :: run_state
  rn_wait_reason :: wait_reason
  rn_run_started_emitted :: bool
  rn_lifecycle_terminal_emitted :: bool
  rn_wait_step_id :: string
  rn_wait_request_id :: string
  rn_wait_action :: string
  rn_pending_actions :: "pending_action list"
  rn_completed_action_ids :: "string list"
  rn_completed_action_sigs :: "(string \<times> string) list"
  rn_context_id :: string
  rn_created_from_event_id :: string
  rn_created_from_type :: string
  rn_advance :: "32 word"
  rn_event_attempts :: "32 word"
  rn_waiting_job_ids :: "string list"
  rn_last_error_code :: string
  rn_last_error_class :: fc_error_code
  rn_last_error_message :: string
  rn_last_error_job_id :: string
  rn_advance_started_job :: bool
  rn_advance_delivered_message :: bool
  rn_advance_state_changed :: bool
  rn_advance_work_progress :: bool
  rn_action_cli_only :: bool

text \<open>A slot of the pool after \<open>memset\<close>.\<close>

definition zero_run :: rt_run where
  "zero_run = \<lparr>rn_run_id = [], rn_origin_event_id = [], rn_ctx_context_id = [], rn_event_kind = [], rn_inbound_affair_id = [],
     rn_memory_compaction_due = False, rn_run_state_json = [], rn_profile = None, rn_phase_index = 0, rn_state = RT_RUN_READY,
     rn_wait_reason = RT_WAIT_REASON_NONE, rn_run_started_emitted = False, rn_lifecycle_terminal_emitted = False,
     rn_wait_step_id = [], rn_wait_request_id = [], rn_wait_action = [], rn_pending_actions = [], rn_completed_action_ids = [],
     rn_completed_action_sigs = [], rn_context_id = [], rn_created_from_event_id = [], rn_created_from_type = [], rn_advance = 0,
     rn_event_attempts = 0, rn_waiting_job_ids = [], rn_last_error_code = [], rn_last_error_class = FC_ERROR_NONE,
     rn_last_error_message = [], rn_last_error_job_id = [], rn_advance_started_job = False, rn_advance_delivered_message = False,
     rn_advance_state_changed = False, rn_advance_work_progress = False, rn_action_cli_only = False\<rparr>"

section \<open>Status\<close>

fun rt_run_status_name :: "run_state \<Rightarrow> string" where
  "rt_run_status_name RT_RUN_READY = ''ready''"
| "rt_run_status_name RT_RUN_RUNNING = ''running''"
| "rt_run_status_name RT_RUN_WAITING_JOBS = ''waiting_jobs''"
| "rt_run_status_name RT_RUN_WAITING_EVENT = ''waiting_event''"
| "rt_run_status_name RT_RUN_WAITING_ACTION_SLOT = ''waiting_event''"
| "rt_run_status_name RT_RUN_DONE = ''done''"
| "rt_run_status_name RT_RUN_FAILED = ''failed''"

definition run_states :: "run_state list" where
  "run_states = [RT_RUN_READY, RT_RUN_RUNNING, RT_RUN_WAITING_JOBS, RT_RUN_WAITING_EVENT, RT_RUN_WAITING_ACTION_SLOT,
     RT_RUN_DONE, RT_RUN_FAILED]"

definition run_state_for_status :: "string \<Rightarrow> run_state option" where
  "run_state_for_status status =
     (if status = [] then None else find (\<lambda>s. status = rt_run_status_name s) run_states)"

definition rt_run_status_is_valid :: "string \<Rightarrow> bool" where
  "rt_run_status_is_valid status \<longleftrightarrow> run_state_for_status status \<noteq> None"

definition rt_run_status_is_terminal :: "string \<Rightarrow> bool" where
  "rt_run_status_is_terminal status \<longleftrightarrow> run_state_for_status status \<in> {Some RT_RUN_DONE, Some RT_RUN_FAILED}"

definition rt_run_state_status_from_json :: "string \<Rightarrow> nat \<Rightarrow> string option" where
  "rt_run_state_status_from_json runstate_json out_len =
     (case json_ref_first_object runstate_json of
        None \<Rightarrow> None
      | Some root \<Rightarrow> (case get_string root ''status'' out_len of None \<Rightarrow> None | Some s \<Rightarrow> if s = [] then None else Some s))"

section \<open>The durable control state\<close>

fun waiting_jobs_loop :: "nat \<Rightarrow> bool \<Rightarrow> string list \<Rightarrow> string \<Rightarrow> string option" where
  "waiting_jobs_loop out_len comma [] out = Some out"
| "waiting_jobs_loop out_len comma (j # js) out =
     (case escaped_or_fail j (RT_SMALL * 2) of
        None \<Rightarrow> None
      | Some esc \<Rightarrow>
          let piece = (if comma then '','' else []) @ DQ # esc @ [DQ] in
          if length piece \<ge> out_len - length out then None else waiting_jobs_loop out_len True js (out @ piece))"

definition waiting_jobs_json :: "rt_run \<Rightarrow> nat \<Rightarrow> string option" where
  "waiting_jobs_json r out_len =
     (case waiting_jobs_loop out_len False (rn_waiting_job_ids r) ''['' of
        None \<Rightarrow> None
      | Some out \<Rightarrow> if length out + 2 > out_len then None else Some (out @ '']''))"

definition last_error_json :: "rt_run \<Rightarrow> nat \<Rightarrow> string option" where
  \<open>last_error_json r out_len =
     (if rn_last_error_code r = [] then Some ''null''
      else
        (case (escaped_or_fail (rn_last_error_code r) (RT_SMALL * 2), escaped_or_fail (rn_last_error_message r) (RT_MED * 2),
               escaped_or_fail (rn_last_error_job_id r) (RT_SMALL * 2)) of
           (Some code, Some msg, Some job) \<Rightarrow>
             let printed = ''{"class":'' @
                   show_int (fc_error_number (if rn_last_error_class r = FC_ERROR_NONE then FC_ERROR_RUNTIME else rn_last_error_class r)) @
                   '',"code":"'' @ code @ ''","message":"'' @ msg @ ''"'' @
                   (if rn_last_error_job_id r = [] then [] else '',"job_id":"'' @ job @ ''"'') @ ''}''
             in if length printed \<ge> out_len then None else Some printed
         | _ \<Rightarrow> None))\<close>

text \<open>The text of \<open>runstate.json\<close>; \<open>None\<close> when a part does not fit its own buffer.\<close>

definition run_state_text :: "rt_run \<Rightarrow> string option" where
  \<open>run_state_text r =
     (case (escaped_or_fail (case rn_profile r of None \<Rightarrow> [] | Some p \<Rightarrow> pf_name p) (RT_SMALL * 2),
            escaped_or_fail (rn_context_id r) (RT_MED * 2), escaped_or_fail (rn_created_from_event_id r) (RT_SMALL * 2),
            escaped_or_fail (rn_created_from_type r) (RT_SMALL * 2), waiting_jobs_json r RT_LARGE, last_error_json r RT_LARGE) of
        (Some profile, Some context, Some event_id, Some type, Some jobs, Some last_error) \<Rightarrow>
          Some (''{"run_id":"'' @ rn_run_id r @ ''","context_id":"'' @ context @ ''","profile":"'' @ profile @
            ''","status":"'' @ rt_run_status_name (rn_state r) @ ''","advance":'' @ show_nat (unat (rn_advance r)) @
            '',"created_from":{"event_id":"'' @ event_id @ ''","type":"'' @ type @
            ''"},"waiting":{"jobs":'' @ jobs @ '',"events":[],"deadline":null},"cursors":{"phase_index":'' @
            show_nat (rn_phase_index r) @ '',"last_advanced_event_seq":null},"last_error":'' @ last_error @ ''}'')
      | _ \<Rightarrow> None)\<close>

text \<open>The result code, the run with the text it keeps, and the disk.\<close>

definition rt_run_persist_state :: "io_env \<Rightarrow> rt_run \<Rightarrow> disk \<Rightarrow> int \<times> rt_run \<times> disk" where
  "rt_run_persist_state io r d =
     (case run_state_text r of
        None \<Rightarrow> (- 1, r, d)
      | Some t \<Rightarrow>
          let r1 = r\<lparr>rn_run_state_json := copy_into RT_LARGE t\<rparr> in
          if length t \<ge> RT_LARGE then (- 1, r1, d)
          else (case fs_write_text_atomic io (Run_State (rn_run_id r)) t d of (ok, d1) \<Rightarrow> (if ok then 0 else - 1, r1, d1)))"

section \<open>Errors, state and waiting jobs\<close>

definition rt_run_set_error_code :: "fc_error_code \<Rightarrow> string \<Rightarrow> string \<Rightarrow> string \<Rightarrow> rt_run \<Rightarrow> rt_run" where
  "rt_run_set_error_code class_code code message job_id r =
     (let cl = (if class_code = FC_ERROR_NONE then FC_ERROR_RUNTIME else class_code) in
      r\<lparr>rn_last_error_class := cl,
        rn_last_error_code := copy_into RT_SMALL (if code \<noteq> [] then code else fc_error_default_code cl),
        rn_last_error_message := copy_into RT_MED message,
        rn_last_error_job_id := copy_into RT_SMALL job_id\<rparr>)"

definition rt_run_set_error :: "string \<Rightarrow> string \<Rightarrow> string \<Rightarrow> rt_run \<Rightarrow> rt_run" where
  "rt_run_set_error code message job_id r = rt_run_set_error_code FC_ERROR_RUNTIME code message job_id r"

definition rt_run_set_state :: "io_env \<Rightarrow> run_state \<Rightarrow> rt_run \<Rightarrow> disk \<Rightarrow> rt_run \<times> disk" where
  "rt_run_set_state io s r d = snd (rt_run_persist_state io (r\<lparr>rn_state := s\<rparr>) d)"

definition rt_run_waiting_job_index_of :: "rt_run \<Rightarrow> string \<Rightarrow> nat option" where
  "rt_run_waiting_job_index_of r job_id = (if job_id = [] then None else find_index (\<lambda>j. j = job_id) (rn_waiting_job_ids r))"

definition rt_run_waiting_job_add :: "io_env \<Rightarrow> string \<Rightarrow> rt_run \<Rightarrow> disk \<Rightarrow> rt_run \<times> disk" where
  "rt_run_waiting_job_add io job_id r d =
     (if job_id = [] \<or> rt_run_waiting_job_index_of r job_id \<noteq> None then (r, d)
      else if length (rn_waiting_job_ids r) \<ge> RT_MAX_WAITING_JOBS then
        snd (rt_run_persist_state io (rt_run_set_error_code FC_ERROR_RUNTIME ''waiting_jobs_overflow'' ''too many waiting jobs'' job_id r) d)
      else snd (rt_run_persist_state io (r\<lparr>rn_waiting_job_ids := rn_waiting_job_ids r @ [copy_into RT_SMALL job_id]\<rparr>) d))"

definition rt_run_waiting_job_remove :: "string \<Rightarrow> rt_run \<Rightarrow> rt_run" where
  "rt_run_waiting_job_remove job_id r =
     (case rt_run_waiting_job_index_of r job_id of
        None \<Rightarrow> r
      | Some i \<Rightarrow> r\<lparr>rn_waiting_job_ids := remove_nth i (rn_waiting_job_ids r)\<rparr>)"

end
