(* ===== verification/Outbox.thy ===== *)
theory Outbox
  imports Run_State Work_Query
begin

text \<open>
  The durable publication outbox of \<open>runtime/publication_outbox.c\<close>. A record is written before the
  event it announces; reconciliation publishes the wake only when the event log holds exactly that
  event, and keeps the record until the run that the wake started is terminal. Narration is left
  out.
\<close>

section \<open>Records and verdicts\<close>

definition PUBLICATION_SCAN_CAP :: nat where
  "PUBLICATION_SCAN_CAP = 1024"

definition PUBLICATION_NAME_MAX :: nat where
  "PUBLICATION_NAME_MAX = 64"

definition PUBLICATION_WAKE_PAYLOAD_CAP :: nat where
  "PUBLICATION_WAKE_PAYLOAD_CAP = BUS_PAYLOAD_MAX"

record publication_record =
  pr_wake_id :: string
  pr_source_run_id :: string
  pr_source_event_id :: string
  pr_source_type :: string
  pr_channel :: string
  pr_wake_type :: string
  pr_claimed_run_id :: string
  pr_source_payload :: string
  pr_wake_payload :: string

datatype source_state = SOURCE_IO | SOURCE_CONFLICT | SOURCE_ABSENT | SOURCE_EXACT

datatype claim_state = CLAIM_IO | CLAIM_CONFLICT | CLAIM_NONE | CLAIM_PENDING | CLAIM_ACTIVE | CLAIM_TERMINAL

datatype claim_inbound_state = CLAIM_INBOUND_IO | CLAIM_INBOUND_CONFLICT | CLAIM_INBOUND_PENDING | CLAIM_INBOUND_EXACT

text \<open>The disk and the only state the module remembers: whether the next tick runs a full pass.\<close>

record outbox_world =
  ob_disk :: disk
  ob_retry_pass :: bool

section \<open>Names\<close>

definition safe_char :: "char \<Rightarrow> bool" where
  "safe_char c \<longleftrightarrow> is_alpha c \<or> is_digit c \<or> c = CHR ''_''"

definition safe_id :: "string \<Rightarrow> nat \<Rightarrow> bool" where
  "safe_id s max_len \<longleftrightarrow> s \<noteq> [] \<and> length s < max_len \<and> list_all safe_char s"

definition outbox_path :: "string \<Rightarrow> fpath option" where
  "outbox_path wake_id = (if safe_id wake_id BUS_ID_MAX then Some (Outbox (json_name wake_id)) else None)"

definition canonical_record_name :: "string \<Rightarrow> bool" where
  "canonical_record_name name \<longleftrightarrow>
     (let n = length name - 5; eid = take n name in
      length name > 5 \<and> n < BUS_ID_MAX \<and> drop n name = ''.json'' \<and> safe_id eid BUS_ID_MAX \<and>
      take 4 eid = ''bus_'' \<and> bus_number [] (drop 4 eid))"

definition outbox_record_count :: "io_env \<Rightarrow> disk \<Rightarrow> nat option" where
  "outbox_record_count io d =
     (if \<not> io_list_ok io D_Outbox then None else Some (length (filter canonical_record_name (outbox_names d))))"

definition compact_alloc :: "io_env \<Rightarrow> string \<Rightarrow> string option" where
  "compact_alloc io json = (if io_malloc_ok io (length json + 1) then json_compact json (length json + 1) else None)"

section \<open>The text of a record\<close>

definition claimed_field :: "publication_record \<Rightarrow> string option" where
  \<open>claimed_field r =
     (if pr_claimed_run_id r = [] then Some []
      else
        (case escaped_or_fail (pr_claimed_run_id r) RT_MED of
           None \<Rightarrow> None
         | Some eclaimed \<Rightarrow>
             let printed = '',"claimed_run_id":"'' @ eclaimed @ ''"'' in
             if length printed \<ge> RT_MED + 32 then None else Some printed))\<close>

definition record_serialize :: "io_env \<Rightarrow> publication_record \<Rightarrow> string option" where
  \<open>record_serialize io r =
     do {
       erun \<leftarrow> escaped_or_fail (pr_source_run_id r) RT_MED;
       esource_id \<leftarrow> escaped_or_fail (pr_source_event_id r) RT_MED;
       esource_type \<leftarrow> escaped_or_fail (pr_source_type r) RT_MED;
       echannel \<leftarrow> escaped_or_fail (pr_channel r) (BUS_CHANNEL_MAX * 2);
       ewake_type \<leftarrow> escaped_or_fail (pr_wake_type r) (BUS_TYPE_MAX * 2);
       claimed \<leftarrow> claimed_field r;
       let printed = ''{"wake_id":"'' @ pr_wake_id r @ ''","source_run_id":"'' @ erun @ ''","source_event_id":"'' @ esource_id @
         ''","source_type":"'' @ esource_type @ ''","source_payload":'' @ pr_source_payload r @ '',"channel":"'' @ echannel @
         ''","wake_type":"'' @ ewake_type @ ''","wake_payload":'' @ pr_wake_payload r @ claimed @ ''}'' @ [CHR 0x0A];
       if io_malloc_ok io (length printed + 1) then Some printed else None
     }\<close>

text \<open>The members of a record that is read, before the claim and the name are checked.\<close>

definition record_members :: "io_env \<Rightarrow> json_ref \<Rightarrow> publication_record option" where
  "record_members io root =
     do {
       wake_id \<leftarrow> get_string root ''wake_id'' BUS_ID_MAX;
       source_run_id \<leftarrow> get_string root ''source_run_id'' RT_SMALL;
       source_event_id \<leftarrow> get_string root ''source_event_id'' RT_SMALL;
       source_type \<leftarrow> get_string root ''source_type'' RT_SMALL;
       channel \<leftarrow> get_string root ''channel'' BUS_CHANNEL_MAX;
       wake_type \<leftarrow> get_string root ''wake_type'' BUS_TYPE_MAX;
       source_ref \<leftarrow> json_ref_object_get root ''source_payload'';
       wake_ref \<leftarrow> json_ref_object_get root ''wake_payload'';
       source_payload \<leftarrow> json_ref_value_compact_dup (io_malloc_ok io) source_ref;
       wake_payload \<leftarrow> json_ref_value_compact_dup (io_malloc_ok io) wake_ref;
       if safe_id wake_id BUS_ID_MAX \<and> safe_id source_run_id RT_SMALL \<and> safe_id source_event_id RT_SMALL
       then Some \<lparr>pr_wake_id = wake_id, pr_source_run_id = source_run_id, pr_source_event_id = source_event_id,
              pr_source_type = source_type, pr_channel = channel, pr_wake_type = wake_type, pr_claimed_run_id = [],
              pr_source_payload = source_payload, pr_wake_payload = wake_payload\<rparr>
       else None
     }"

text \<open>The record of the file \<open>name\<close> in the outbox.\<close>

definition record_load :: "io_env \<Rightarrow> string \<Rightarrow> disk \<Rightarrow> publication_record option" where
  "record_load io name d =
     (case fs_read io (Outbox name) d of
        Rd_Text content \<Rightarrow>
          do {
            root \<leftarrow> json_ref_top_object content;
            r \<leftarrow> record_members io root;
            r1 \<leftarrow> (case get_string root ''claimed_run_id'' RT_SMALL of
                    None \<Rightarrow> Some r
                  | Some run_id \<Rightarrow> if safe_id run_id RT_SMALL then Some (r\<lparr>pr_claimed_run_id := run_id\<rparr>) else None);
            if name = json_name (pr_wake_id r) then Some r1 else None
          }
      | _ \<Rightarrow> None)"

section \<open>Preparing\<close>

datatype prepared_lookup = Lookup_Error | Lookup_None | Lookup_Found string

fun lookup_loop :: "io_env \<Rightarrow> publication_record \<Rightarrow> string list \<Rightarrow> disk \<Rightarrow> prepared_lookup" where
  "lookup_loop io want [] d = Lookup_None"
| "lookup_loop io want (name # names) d =
     (if \<not> canonical_record_name name then lookup_loop io want names d
      else
        (case record_load io name d of
           None \<Rightarrow> Lookup_Error
         | Some r \<Rightarrow>
             if pr_source_run_id r = pr_source_run_id want \<and> pr_source_event_id r = pr_source_event_id want then
               (if pr_source_type r \<noteq> pr_source_type want \<or> pr_source_payload r \<noteq> pr_source_payload want \<or>
                   pr_channel r \<noteq> pr_channel want \<or> pr_wake_type r \<noteq> pr_wake_type want \<or> pr_wake_payload r \<noteq> pr_wake_payload want
                then Lookup_Error else Lookup_Found (pr_wake_id r))
             else lookup_loop io want names d))"

text \<open>The publication that is asked for is given as a record; its identity and claim are not looked at.\<close>

definition prepared_source_lookup :: "io_env \<Rightarrow> publication_record \<Rightarrow> disk \<Rightarrow> prepared_lookup" where
  "prepared_source_lookup io want d =
     (if \<not> io_list_ok io D_Outbox then Lookup_Error else lookup_loop io want (outbox_names d) d)"

text \<open>The record as the fixed buffers keep it.\<close>

definition fresh_record :: "string \<Rightarrow> publication_record \<Rightarrow> publication_record" where
  "fresh_record wake_id want =
     want\<lparr>pr_wake_id := copy_into BUS_ID_MAX wake_id, pr_source_run_id := copy_into RT_SMALL (pr_source_run_id want),
       pr_source_event_id := copy_into RT_SMALL (pr_source_event_id want), pr_source_type := copy_into RT_SMALL (pr_source_type want),
       pr_channel := copy_into BUS_CHANNEL_MAX (pr_channel want), pr_wake_type := copy_into BUS_TYPE_MAX (pr_wake_type want),
       pr_claimed_run_id := []\<rparr>"

text \<open>A new record: the count, the identity, the text and the write.\<close>

definition prepare_fresh :: "io_env \<Rightarrow> publication_record \<Rightarrow> disk \<Rightarrow> (int \<times> string) \<times> disk" where
  "prepare_fresh io want d =
     (case outbox_record_count io d of
        None \<Rightarrow> ((- 1, []), d)
      | Some n \<Rightarrow>
          if n \<ge> PUBLICATION_SCAN_CAP then ((- 1, []), d)
          else
            (case bus_reserve_envelope_id io BUS_ID_MAX d of
               (None, d1) \<Rightarrow> ((- 1, []), d1)
             | (Some wake_id, d1) \<Rightarrow>
                 (case (outbox_path wake_id, record_serialize io (fresh_record wake_id want)) of
                    (Some path, Some printed) \<Rightarrow>
                      if \<not> io_mkdir_ok io D_Outbox then ((- 1, []), d1)
                      else
                        (case fs_write_text_atomic io path printed d1 of
                           (ok, d2) \<Rightarrow> (if ok then (0, wake_id) else (- 1, []), d2))
                  | _ \<Rightarrow> ((- 1, []), d1))))"

text \<open>The result code with the identity of the wake.\<close>

definition rt_publication_outbox_prepare ::
  "io_env \<Rightarrow> string \<Rightarrow> string \<Rightarrow> string \<Rightarrow> string \<Rightarrow> string \<Rightarrow> string \<Rightarrow> string \<Rightarrow> disk \<Rightarrow> (int \<times> string) \<times> disk" where
  "rt_publication_outbox_prepare io run_id source_event_id source_type source_payload_json channel wake_type wake_payload_json d =
     (if \<not> safe_id run_id RT_SMALL \<or> \<not> safe_id source_event_id RT_SMALL \<or> source_type = [] \<or> channel = [] \<or> wake_type = []
      then ((- 1, []), d)
      else
        (case (compact_alloc io source_payload_json, compact_alloc io wake_payload_json) of
           (Some source_payload, Some wake_payload) \<Rightarrow>
             if length wake_payload \<ge> PUBLICATION_WAKE_PAYLOAD_CAP then ((- 1, []), d)
             else
               (let want = \<lparr>pr_wake_id = [], pr_source_run_id = run_id, pr_source_event_id = source_event_id,
                      pr_source_type = source_type, pr_channel = channel, pr_wake_type = wake_type, pr_claimed_run_id = [],
                      pr_source_payload = source_payload, pr_wake_payload = wake_payload\<rparr>
                in case prepared_source_lookup io want d of
                     Lookup_Error \<Rightarrow> ((- 1, []), d)
                   | Lookup_Found wake_id \<Rightarrow> ((0, wake_id), d)
                   | Lookup_None \<Rightarrow> prepare_fresh io want d)
         | _ \<Rightarrow> ((- 1, []), d)))"

section \<open>The source\<close>

text \<open>One committed line that carries the identity of the source.\<close>

definition line_is_source :: "io_env \<Rightarrow> publication_record \<Rightarrow> json_ref \<Rightarrow> bool" where
  "line_is_source io r event \<longleftrightarrow>
     get_string event ''run_id'' RT_SMALL = Some (pr_source_run_id r) \<and>
     get_string event ''type'' RT_SMALL = Some (pr_source_type r) \<and>
     (case json_ref_object_get event ''payload'' of
        None \<Rightarrow> False
      | Some payload \<Rightarrow> json_ref_value_compact_dup (io_malloc_ok io) payload = Some (pr_source_payload r))"

fun source_lines :: "io_env \<Rightarrow> publication_record \<Rightarrow> nat \<Rightarrow> source_state \<Rightarrow> string list \<Rightarrow> source_state \<times> nat" where
  "source_lines io r matches result [] = (result, matches)"
| "source_lines io r matches result (line # lines) =
     (case json_ref_top_object line of
        None \<Rightarrow> (SOURCE_CONFLICT, matches)
      | Some event \<Rightarrow>
          (case get_string event ''event_id'' RT_SMALL of
             None \<Rightarrow> (SOURCE_CONFLICT, matches)
           | Some event_id \<Rightarrow>
               if event_id \<noteq> pr_source_event_id r then source_lines io r matches result lines
               else if Suc matches > 1 \<or> \<not> line_is_source io r event then (SOURCE_CONFLICT, Suc matches)
               else source_lines io r (Suc matches) SOURCE_EXACT lines))"

definition source_state_of :: "io_env \<Rightarrow> publication_record \<Rightarrow> disk \<Rightarrow> source_state" where
  "source_state_of io r d =
     (case fs_read io (Event_Log (pr_source_run_id r)) d of
        Rd_Absent \<Rightarrow> SOURCE_ABSENT
      | Rd_Error \<Rightarrow> SOURCE_IO
      | Rd_Text content \<Rightarrow>
          (case source_lines io r 0 SOURCE_ABSENT (log_lines content) of
             (result, matches) \<Rightarrow>
               if result = SOURCE_EXACT \<and> matches = 1 \<and> \<not> io_sync_ok io (Event_Log (pr_source_run_id r)) then SOURCE_IO
               else result))"

section \<open>The claim\<close>

definition first_event_id :: "string \<Rightarrow> string" where
  "first_event_id run_name = ''evt_'' @ run_name @ ''_000001''"

definition claimed_inbound_state :: "io_env \<Rightarrow> string \<Rightarrow> publication_record \<Rightarrow> disk \<Rightarrow> claim_inbound_state" where
  "claimed_inbound_state io run_name r d =
     (if length (first_event_id run_name) \<ge> RT_SMALL then CLAIM_INBOUND_CONFLICT
      else
        (case fs_read io (Event_Log run_name) d of
           Rd_Absent \<Rightarrow> CLAIM_INBOUND_PENDING
         | Rd_Error \<Rightarrow> CLAIM_INBOUND_IO
         | Rd_Text content \<Rightarrow>
             (case log_lines content of
                [] \<Rightarrow> CLAIM_INBOUND_PENDING
              | line # _ \<Rightarrow>
                  (case json_ref_top_object line of
                     None \<Rightarrow> CLAIM_INBOUND_CONFLICT
                   | Some event \<Rightarrow>
                       if get_string event ''event_id'' RT_SMALL = Some (first_event_id run_name) \<and>
                          get_string event ''run_id'' RT_SMALL = Some run_name \<and>
                          get_string event ''type'' RT_SMALL = Some (pr_wake_type r) \<and>
                          get_string event ''source'' BUS_CHANNEL_MAX = Some (pr_channel r) \<and>
                          (case json_ref_object_get event ''payload'' of
                             None \<Rightarrow> False
                           | Some payload \<Rightarrow> json_ref_value_compact_dup (io_malloc_ok io) payload = Some (pr_wake_payload r))
                       then CLAIM_INBOUND_EXACT else CLAIM_INBOUND_CONFLICT))))"

record run_control =
  rc_run_id :: string
  rc_status :: string
  rc_event_id :: string
  rc_created_type :: string

definition no_control :: run_control where
  "no_control = \<lparr>rc_run_id = [], rc_status = [], rc_event_id = [], rc_created_type = []\<rparr>"

definition control_members :: "string \<Rightarrow> run_control option" where
  "control_members content =
     do {
       root \<leftarrow> json_ref_top_object content;
       run_id \<leftarrow> get_string root ''run_id'' RT_SMALL;
       status \<leftarrow> get_string root ''status'' RT_SMALL;
       created \<leftarrow> json_ref_object_get_object root ''created_from'';
       event_id \<leftarrow> get_string created ''event_id'' BUS_ID_MAX;
       created_type \<leftarrow> get_string created ''type'' BUS_TYPE_MAX;
       Some \<lparr>rc_run_id = run_id, rc_status = status, rc_event_id = event_id, rc_created_type = created_type\<rparr>
     }"

definition read_run_control :: "io_env \<Rightarrow> string \<Rightarrow> disk \<Rightarrow> claim_state \<times> run_control" where
  "read_run_control io run_name d =
     (case fs_read io (Run_State run_name) d of
        Rd_Absent \<Rightarrow> (CLAIM_NONE, no_control)
      | Rd_Error \<Rightarrow> (CLAIM_IO, no_control)
      | Rd_Text content \<Rightarrow>
          (case control_members content of None \<Rightarrow> (CLAIM_CONFLICT, no_control) | Some ctl \<Rightarrow> (CLAIM_ACTIVE, ctl)))"

definition claim_state_of_run :: "io_env \<Rightarrow> string \<Rightarrow> publication_record \<Rightarrow> run_control \<Rightarrow> disk \<Rightarrow> claim_state" where
  "claim_state_of_run io run_name r ctl d =
     (if rc_run_id ctl \<noteq> run_name \<or> rc_created_type ctl \<noteq> pr_wake_type r \<or> \<not> rt_run_status_is_valid (rc_status ctl)
      then CLAIM_CONFLICT
      else
        (case claimed_inbound_state io run_name r d of
           CLAIM_INBOUND_IO \<Rightarrow> CLAIM_IO
         | CLAIM_INBOUND_PENDING \<Rightarrow> CLAIM_PENDING
         | CLAIM_INBOUND_CONFLICT \<Rightarrow> CLAIM_CONFLICT
         | CLAIM_INBOUND_EXACT \<Rightarrow> if rt_run_status_is_terminal (rc_status ctl) then CLAIM_TERMINAL else CLAIM_ACTIVE))"

definition run_claim_state_bound :: "io_env \<Rightarrow> string \<Rightarrow> publication_record \<Rightarrow> disk \<Rightarrow> claim_state" where
  "run_claim_state_bound io run_name r d =
     (case read_run_control io run_name d of
        (read, ctl) \<Rightarrow>
          if read = CLAIM_NONE \<or> read = CLAIM_IO \<or> read = CLAIM_CONFLICT then read
          else if rc_event_id ctl \<noteq> pr_wake_id r then CLAIM_CONFLICT
          else claim_state_of_run io run_name r ctl d)"

fun run_claim_loop :: "io_env \<Rightarrow> publication_record \<Rightarrow> disk \<Rightarrow> nat \<Rightarrow> claim_state \<Rightarrow> string list \<Rightarrow> claim_state" where
  "run_claim_loop io r d matches result [] = result"
| "run_claim_loop io r d matches result (name # names) =
     (case scan_run_number name of
        None \<Rightarrow> run_claim_loop io r d matches result names
      | Some number \<Rightarrow>
          if number < 1 then run_claim_loop io r d matches result names
          else
            (case read_run_control io name d of
               (read, ctl) \<Rightarrow>
                 if read = CLAIM_NONE then run_claim_loop io r d matches result names
                 else if read = CLAIM_IO \<or> read = CLAIM_CONFLICT then read
                 else if rc_event_id ctl \<noteq> pr_wake_id r then run_claim_loop io r d matches result names
                 else if Suc matches > 1 then CLAIM_CONFLICT
                 else
                   (let verdict = claim_state_of_run io name r ctl d in
                    if verdict = CLAIM_IO then CLAIM_IO else run_claim_loop io r d (Suc matches) verdict names)))"

definition run_claim_scan :: "io_env \<Rightarrow> publication_record \<Rightarrow> disk \<Rightarrow> claim_state" where
  "run_claim_scan io r d =
     (if \<not> io_list_ok io D_Runs then CLAIM_IO else run_claim_loop io r d 0 CLAIM_NONE (run_names d))"

definition run_claim_state :: "io_env \<Rightarrow> publication_record \<Rightarrow> disk \<Rightarrow> claim_state" where
  "run_claim_state io r d =
     (if pr_claimed_run_id r \<noteq> [] then
        (let bound = run_claim_state_bound io (pr_claimed_run_id r) r d in if bound = CLAIM_NONE then CLAIM_TERMINAL else bound)
      else run_claim_scan io r d)"

section \<open>What is still pending\<close>

fun pending_loop :: "io_env \<Rightarrow> (publication_record \<Rightarrow> bool) \<Rightarrow> string list \<Rightarrow> disk \<Rightarrow> int" where
  "pending_loop io P [] d = 0"
| "pending_loop io P (name # names) d =
     (if \<not> canonical_record_name name then pending_loop io P names d
      else (case record_load io name d of None \<Rightarrow> - 1 | Some r \<Rightarrow> if P r then 1 else pending_loop io P names d))"

definition rt_publication_outbox_source_pending :: "io_env \<Rightarrow> string \<Rightarrow> disk \<Rightarrow> int" where
  "rt_publication_outbox_source_pending io source_event_id d =
     (if \<not> safe_id source_event_id RT_SMALL \<or> \<not> io_list_ok io D_Outbox then - 1
      else pending_loop io (\<lambda>r. pr_source_event_id r = source_event_id) (outbox_names d) d)"

text \<open>The result code with the identity of the wake that started the run.\<close>

definition claimed_wake_for_run :: "io_env \<Rightarrow> string \<Rightarrow> nat \<Rightarrow> disk \<Rightarrow> int \<times> string" where
  "claimed_wake_for_run io run_id wake_id_len d =
     (if run_id = [] \<or> wake_id_len = 0 then (- 1, [])
      else
        (case fs_read io (Run_State run_id) d of
           Rd_Absent \<Rightarrow> (0, [])
         | Rd_Error \<Rightarrow> (- 1, [])
         | Rd_Text content \<Rightarrow>
             (case do {
                root \<leftarrow> json_ref_top_object content;
                stored_run_id \<leftarrow> get_string root ''run_id'' RT_SMALL;
                _ \<leftarrow> (if stored_run_id = run_id then Some () else None);
                created \<leftarrow> json_ref_object_get_object root ''created_from'';
                get_string created ''event_id'' wake_id_len
              } of
                None \<Rightarrow> (- 1, [])
              | Some wake_id \<Rightarrow> (if wake_id \<noteq> [] then 1 else 0, wake_id))))"

definition rt_publication_outbox_run_pending :: "io_env \<Rightarrow> string \<Rightarrow> disk \<Rightarrow> int" where
  "rt_publication_outbox_run_pending io run_id d =
     (if \<not> safe_id run_id RT_SMALL then - 1
      else if outbox_names d = [] \<and> io_missing io D_Outbox then 0
      else if \<not> io_list_ok io D_Outbox then - 1
      else
        (case claimed_wake_for_run io run_id BUS_ID_MAX d of
           (claimed, claimed_wake) \<Rightarrow>
             if claimed < 0 then - 1
             else pending_loop io (\<lambda>r. pr_source_run_id r = run_id \<or> claimed = 1 \<and> pr_wake_id r = claimed_wake) (outbox_names d) d))"

definition rt_publication_outbox_wake_pending :: "io_env \<Rightarrow> string \<Rightarrow> disk \<Rightarrow> int" where
  "rt_publication_outbox_wake_pending io wake_id d =
     (case outbox_path wake_id of
        None \<Rightarrow> - 1
      | Some path \<Rightarrow>
          if \<not> fs_file_exists path d then 0
          else (case record_load io (json_name wake_id) d of None \<Rightarrow> - 1 | Some _ \<Rightarrow> 1))"

section \<open>Reconciliation\<close>

text \<open>
  The ledger asks the outbox which evidence is still announced (\<open>we_pending\<close>); the answers of the
  task state are the rest of the environment. The ledger's file is a file of the same disk.
\<close>

definition ledger_env :: "io_env \<Rightarrow> work_env \<Rightarrow> disk \<Rightarrow> work_env" where
  "ledger_env io env d =
     env\<lparr>we_pending := \<lambda>event_id. rt_publication_outbox_source_pending io event_id d, we_malloc_ok := io_malloc_ok io\<rparr>"

definition ledger_world :: "io_env \<Rightarrow> disk \<Rightarrow> work_world" where
  "ledger_world io d =
     \<lparr>ww_file = (if io_read_ok io Work_Steps then map_of d Work_Steps else None), ww_disk_ok = atomic_write_ok io Work_Steps d\<rparr>"

definition apply_exact_source_to_work_state :: "io_env \<Rightarrow> work_env \<Rightarrow> publication_record \<Rightarrow> disk \<Rightarrow> int \<times> disk" where
  "apply_exact_source_to_work_state io env r d =
     (if \<not> rt_work_state_is_event_type (pr_source_type r) then (- 1, d)
      else
        (case json_ref_top_object (pr_source_payload r) of
           None \<Rightarrow> (- 1, d)
         | Some payload \<Rightarrow>
             (case get_string payload ''context_id'' RT_MED of
                None \<Rightarrow> (- 1, d)
              | Some context_id \<Rightarrow>
                  if context_id = [] then (- 1, d)
                  else
                    (case rt_work_state_apply_event (ledger_env io env d) context_id (pr_source_type r) (pr_source_payload r)
                            (pr_source_event_id r) (ledger_world io d) of
                       (rc, w) \<Rightarrow> (rc, case ww_file w of None \<Rightarrow> d | Some content \<Rightarrow> AList.update Work_Steps content d)))))"

text \<open>The source of an unbound record is verified and applied to the ledger; the flag lets the pass go on.\<close>

datatype source_step = Source_Failed | Source_Skipped | Source_Ready

definition reconcile_source :: "io_env \<Rightarrow> work_env \<Rightarrow> publication_record \<Rightarrow> disk \<Rightarrow> source_step \<times> disk" where
  "reconcile_source io env r d =
     (if pr_claimed_run_id r \<noteq> [] then (Source_Ready, d)
      else
        (case source_state_of io r d of
           SOURCE_CONFLICT \<Rightarrow> (Source_Failed, d)
         | SOURCE_IO \<Rightarrow> (Source_Failed, d)
         | SOURCE_ABSENT \<Rightarrow> (Source_Skipped, d)
         | SOURCE_EXACT \<Rightarrow>
             (case apply_exact_source_to_work_state io env r d of
                (rc, d1) \<Rightarrow> (if rc \<noteq> 0 then Source_Failed else Source_Ready, d1))))"

text \<open>A wake that no run claims is published, or put back into the inbox. The flag is the failure.\<close>

definition publish_wake :: "io_env \<Rightarrow> publication_record \<Rightarrow> disk \<Rightarrow> bool \<times> disk" where
  "publish_wake io r d =
     (let locations = bus_envelope_locations (pr_wake_id r) d in
      if locations = 1 \<or> locations = 2 then
        (case bus_publish_stable io (pr_wake_id r) (pr_channel r) (pr_wake_type r) (pr_wake_payload r) d of
           (rc, d1) \<Rightarrow>
             if rc \<noteq> 0 then (True, d1)
             else if locations = 2 then (case bus_requeue_processed io (pr_wake_id r) d1 of (rc2, d2) \<Rightarrow> (rc2 \<noteq> 0, d2))
             else (False, d1))
      else if locations = 0 then
        (case bus_publish_stable io (pr_wake_id r) (pr_channel r) (pr_wake_type r) (pr_wake_payload r) d of
           (rc, d1) \<Rightarrow> (rc \<noteq> 0, d1))
      else (True, d))"

definition reconcile_claim :: "io_env \<Rightarrow> string \<Rightarrow> publication_record \<Rightarrow> disk \<Rightarrow> bool \<times> disk" where
  "reconcile_claim io name r d =
     (case run_claim_state io r d of
        CLAIM_CONFLICT \<Rightarrow> (True, d)
      | CLAIM_IO \<Rightarrow> (True, d)
      | CLAIM_TERMINAL \<Rightarrow> (case fs_unlink io (Outbox name) d of (ok, d1) \<Rightarrow> (\<not> ok, d1))
      | CLAIM_PENDING \<Rightarrow> (False, d)
      | CLAIM_ACTIVE \<Rightarrow> (False, d)
      | CLAIM_NONE \<Rightarrow> publish_wake io r d)"

definition reconcile_record :: "io_env \<Rightarrow> work_env \<Rightarrow> string \<Rightarrow> disk \<Rightarrow> bool \<times> disk" where
  "reconcile_record io env name d =
     (case record_load io name d of
        None \<Rightarrow> (True, d)
      | Some r \<Rightarrow>
          (case reconcile_source io env r d of
             (Source_Failed, d1) \<Rightarrow> (True, d1)
           | (Source_Skipped, d1) \<Rightarrow> (False, d1)
           | (Source_Ready, d1) \<Rightarrow> reconcile_claim io name r d1))"

fun reconcile_loop :: "io_env \<Rightarrow> work_env \<Rightarrow> string list \<Rightarrow> bool \<times> disk \<Rightarrow> bool \<times> disk" where
  "reconcile_loop io env [] s = s"
| "reconcile_loop io env (name # names) (failed, d) =
     (case reconcile_record io env name d of (f, d1) \<Rightarrow> reconcile_loop io env names (failed \<or> f, d1))"

definition reconcile_names :: "disk \<Rightarrow> string list" where
  "reconcile_names d =
     sort (take PUBLICATION_SCAN_CAP (filter (\<lambda>n. canonical_record_name n \<and> length n < PUBLICATION_NAME_MAX) (outbox_names d)))"

definition reconcile_pass :: "io_env \<Rightarrow> work_env \<Rightarrow> disk \<Rightarrow> int \<times> disk" where
  "reconcile_pass io env d =
     (if \<not> io_list_ok io D_Outbox then (- 1, d)
      else
        (let too_long = list_ex (\<lambda>n. canonical_record_name n \<and> length n \<ge> PUBLICATION_NAME_MAX) (outbox_names d) in
         case reconcile_loop io env (reconcile_names d) (too_long, d) of (failed, d1) \<Rightarrow> (if failed then - 1 else 0, d1)))"

definition rt_publication_outbox_reconcile :: "io_env \<Rightarrow> work_env \<Rightarrow> outbox_world \<Rightarrow> int \<times> outbox_world" where
  "rt_publication_outbox_reconcile io env w =
     (case reconcile_pass io env (ob_disk w) of (rc, d) \<Rightarrow> (rc, \<lparr>ob_disk = d, ob_retry_pass = (rc \<noteq> 0)\<rparr>))"

definition rt_publication_outbox_retry_if_pending :: "io_env \<Rightarrow> work_env \<Rightarrow> outbox_world \<Rightarrow> int \<times> outbox_world" where
  "rt_publication_outbox_retry_if_pending io env w =
     (if \<not> ob_retry_pass w then (0, w) else rt_publication_outbox_reconcile io env w)"

section \<open>Claiming, releasing, validating\<close>

definition bind_record :: "io_env \<Rightarrow> string \<Rightarrow> string \<Rightarrow> disk \<Rightarrow> int \<times> disk" where
  "bind_record io wake_id run_id d =
     (case record_load io (json_name wake_id) d of
        None \<Rightarrow> (- 1, d)
      | Some r \<Rightarrow>
          if pr_claimed_run_id r \<noteq> [] then (if pr_claimed_run_id r = run_id then 0 else - 1, d)
          else
            (case record_serialize io (r\<lparr>pr_claimed_run_id := copy_into RT_SMALL run_id\<rparr>) of
               None \<Rightarrow> (- 1, d)
             | Some printed \<Rightarrow>
                 (case fs_write_text_atomic io (Outbox (json_name wake_id)) printed d of (ok, d1) \<Rightarrow> (if ok then 0 else - 1, d1))))"

definition rt_publication_outbox_claim :: "io_env \<Rightarrow> string \<Rightarrow> string \<Rightarrow> outbox_world \<Rightarrow> int \<times> outbox_world" where
  "rt_publication_outbox_claim io wake_id run_id w =
     (if \<not> safe_id run_id RT_SMALL \<or> outbox_path wake_id = None then (- 1, w)
      else if \<not> fs_file_exists (Outbox (json_name wake_id)) (ob_disk w) then (0, w)
      else
        (case bind_record io wake_id run_id (ob_disk w) of
           (rc, d) \<Rightarrow> (rc, \<lparr>ob_disk = d, ob_retry_pass = (ob_retry_pass w \<or> rc \<noteq> 0)\<rparr>)))"

definition release_record :: "io_env \<Rightarrow> string \<Rightarrow> string \<Rightarrow> disk \<Rightarrow> int \<times> disk" where
  "release_record io wake_id run_id d =
     (case record_load io (json_name wake_id) d of
        None \<Rightarrow> (- 1, d)
      | Some r \<Rightarrow>
          if pr_claimed_run_id r \<noteq> [] \<and> pr_claimed_run_id r \<noteq> run_id then (- 1, d)
          else if run_claim_state_bound io run_id r d \<noteq> CLAIM_TERMINAL then (- 1, d)
          else (case fs_unlink io (Outbox (json_name wake_id)) d of (ok, d1) \<Rightarrow> (if ok then 0 else - 1, d1)))"

definition rt_publication_outbox_release :: "io_env \<Rightarrow> string \<Rightarrow> string \<Rightarrow> outbox_world \<Rightarrow> int \<times> outbox_world" where
  "rt_publication_outbox_release io wake_id run_id w =
     (if \<not> safe_id run_id RT_SMALL \<or> outbox_path wake_id = None then (0, w)
      else if \<not> fs_file_exists (Outbox (json_name wake_id)) (ob_disk w) then (0, w)
      else
        (case release_record io wake_id run_id (ob_disk w) of
           (rc, d) \<Rightarrow> (rc, \<lparr>ob_disk = d, ob_retry_pass = (ob_retry_pass w \<or> rc \<noteq> 0)\<rparr>)))"

definition rt_publication_outbox_validate :: "io_env \<Rightarrow> string \<Rightarrow> string \<Rightarrow> string \<Rightarrow> string \<Rightarrow> disk \<Rightarrow> int" where
  "rt_publication_outbox_validate io wake_id channel wake_type wake_payload_json d =
     (if outbox_path wake_id = None \<or> channel = [] \<or> wake_type = [] then - 1
      else if \<not> fs_file_exists (Outbox (json_name wake_id)) d then 0
      else
        (case (record_load io (json_name wake_id) d, compact_alloc io wake_payload_json) of
           (Some r, Some compact) \<Rightarrow>
             if pr_wake_id r \<noteq> wake_id \<or> pr_channel r \<noteq> channel \<or> pr_wake_type r \<noteq> wake_type \<or> pr_wake_payload r \<noteq> compact \<or>
                source_state_of io r d \<noteq> SOURCE_EXACT
             then - 1 else 1
         | _ \<Rightarrow> - 1))"

end
