(* ===== verification/Outbox_File.thy ===== *)
theory Outbox_File
  imports Outbox Bus_Publish
begin

text \<open>
  The two texts that outbox and runs exchange over the disk are read back as they were written: the
  publication record, and the control state of a run as the outbox reads it.
\<close>

section \<open>The record\<close>

definition record_ok :: "publication_record \<Rightarrow> bool" where
  "record_ok r \<longleftrightarrow> safe_id (pr_wake_id r) BUS_ID_MAX \<and> safe_id (pr_source_run_id r) RT_SMALL \<and>
     safe_id (pr_source_event_id r) RT_SMALL \<and> text_ok RT_SMALL (pr_source_type r) \<and> text_ok BUS_CHANNEL_MAX (pr_channel r) \<and>
     text_ok BUS_TYPE_MAX (pr_wake_type r) \<and> (pr_claimed_run_id r = [] \<or> safe_id (pr_claimed_run_id r) RT_SMALL) \<and>
     jvalue (pr_source_payload r) \<and> squeezes (pr_source_payload r) (pr_source_payload r) \<and>
     jvalue (pr_wake_payload r) \<and> squeezes (pr_wake_payload r) (pr_wake_payload r)"

definition record_fields :: "publication_record \<Rightarrow> (string \<times> string) list" where
  "record_fields r =
     [(''wake_id'', str_val (pr_wake_id r)), (''source_run_id'', str_val (pr_source_run_id r)),
      (''source_event_id'', str_val (pr_source_event_id r)), (''source_type'', str_val (pr_source_type r)),
      (''source_payload'', pr_source_payload r), (''channel'', str_val (pr_channel r)), (''wake_type'', str_val (pr_wake_type r)),
      (''wake_payload'', pr_wake_payload r)] @
     (if pr_claimed_run_id r = [] then [] else [(''claimed_run_id'', str_val (pr_claimed_run_id r))])"

lemma safe_id_plain: "safe_id s n \<Longrightarrow> n \<le> 256 \<Longrightarrow> plain_key s"
  by (auto simp: safe_id_def plain_key_def safe_char_def list_all_iff char_class_defs)

lemma safe_id_text: "safe_id s n \<Longrightarrow> n \<le> 256 \<Longrightarrow> text_ok n s"
  using safe_id_plain no_nul_plain by (auto simp: text_ok_def safe_id_def)

lemma claimed_text:
  \<open>claimed_field r = Some c \<Longrightarrow>
     c = (if pr_claimed_run_id r = [] then [] else '',"claimed_run_id":'' @ str_val (pr_claimed_run_id r))\<close>
  by (auto simp: claimed_field_def str_val_def Let_def split: if_splits option.splits dest!: escaped_or_fail_Some)

lemma record_text:
  assumes "record_serialize io r = Some t" and "plain_key (pr_wake_id r)"
  shows "t = obj_text (record_fields r) @ [CHR 0x0A]"
  using assms(1) escape_text_plain [OF assms(2)]
  by (auto simp: record_serialize_def record_fields_def obj_text_def member_text_def str_val_def Let_def
      split: Option.bind_splits if_splits dest!: escaped_or_fail_Some claimed_text)

lemma outbox_keys: "plain_key ''wake_id''" "plain_key ''source_run_id''" "plain_key ''source_event_id''" "plain_key ''source_type''"
  "plain_key ''source_payload''" "plain_key ''wake_type''" "plain_key ''wake_payload''" "plain_key ''claimed_run_id''"
  by (simp_all add: plain_key_def char_class_defs)

lemma record_fields_ok: "record_ok r \<Longrightarrow> \<forall>(k, v) \<in> set (record_fields r). plain_key k \<and> jvalue v"
  using jvalue_str_val outbox_keys plain_keys by (auto simp: record_fields_def record_ok_def)

lemma compact_dup_at:
  assumes "at_ref r v" and "squeezes v v" and "\<forall>n. m n"
  shows "json_ref_value_compact_dup m r = Some v"
proof -
  obtain t p rest where r: "r = mk_ref t p (p + length v)" using assms(1) by (auto simp: at_ref_def)
  then have l: "jr_start r = p" "jr_end r = p + length v" by simp_all
  note c = value_copy_compact [OF assms(1,2), of "length v + 1"]
  show ?thesis using c assms(3) by (simp add: json_ref_value_compact_dup_def json_ref_value_dup_def l Let_def)
qed

lemma record_members_printed:
  assumes "record_ok r" and "at_ref root (obj_text (record_fields r))" and "\<forall>n. io_malloc_ok io n"
  shows "record_members io root = Some (r\<lparr>pr_claimed_run_id := []\<rparr>)"
    and "get_string root ''claimed_run_id'' RT_SMALL = (if pr_claimed_run_id r = [] then None else Some (pr_claimed_run_id r))"
proof -
  let ?ms = "record_fields r"
  note ms = record_fields_ok [OF assms(1)] and rs = at_ref_span [OF assms(2)]
  note gs = printed_get_string(1) [OF rs ms]
  have ids: "text_ok BUS_ID_MAX (pr_wake_id r)" "text_ok RT_SMALL (pr_source_run_id r)" "text_ok RT_SMALL (pr_source_event_id r)"
    "pr_claimed_run_id r \<noteq> [] \<Longrightarrow> text_ok RT_SMALL (pr_claimed_run_id r)"
    using assms(1) safe_id_text by (auto simp: record_ok_def rt_sizes bus_sizes)
  note ok = assms(1) [unfolded record_ok_def]
  have strings: "get_string root ''wake_id'' BUS_ID_MAX = Some (pr_wake_id r)"
    "get_string root ''source_run_id'' RT_SMALL = Some (pr_source_run_id r)"
    "get_string root ''source_event_id'' RT_SMALL = Some (pr_source_event_id r)"
    "get_string root ''source_type'' RT_SMALL = Some (pr_source_type r)"
    "get_string root ''channel'' BUS_CHANNEL_MAX = Some (pr_channel r)"
    "get_string root ''wake_type'' BUS_TYPE_MAX = Some (pr_wake_type r)"
    by (rule gs; use ok ids in \<open>simp add: record_fields_def\<close>)+
  have "map_of ?ms ''source_payload'' = Some (pr_source_payload r)" "map_of ?ms ''wake_payload'' = Some (pr_wake_payload r)"
    by (simp_all add: record_fields_def)
  then obtain s w where s: "json_ref_object_get root ''source_payload'' = Some s" "at_ref s (pr_source_payload r)"
    and w: "json_ref_object_get root ''wake_payload'' = Some w" "at_ref w (pr_wake_payload r)"
    using at_ref_object_get [OF rs ms, of "''source_payload''"] at_ref_object_get [OF rs ms, of "''wake_payload''"] by auto
  have "json_ref_value_compact_dup (io_malloc_ok io) s = Some (pr_source_payload r)"
    "json_ref_value_compact_dup (io_malloc_ok io) w = Some (pr_wake_payload r)"
    using compact_dup_at [OF s(2)] compact_dup_at [OF w(2)] ok assms(3) by auto
  then show "record_members io root = Some (r\<lparr>pr_claimed_run_id := []\<rparr>)"
    using strings s(1) w(1) ok by (simp add: record_members_def)
  show "get_string root ''claimed_run_id'' RT_SMALL = (if pr_claimed_run_id r = [] then None else Some (pr_claimed_run_id r))"
  proof (cases "pr_claimed_run_id r = []")
    case True
    then have "map_of ?ms ''claimed_run_id'' = None" by (simp add: record_fields_def)
    then have "json_ref_object_get root ''claimed_run_id'' = None" using at_ref_object_get [OF rs ms, of "''claimed_run_id''"] by simp
    then show ?thesis using True by (simp add: get_string_def json_ref_object_get_string_def)
  next
    case False
    then have "get_string root ''claimed_run_id'' RT_SMALL = Some (pr_claimed_run_id r)"
      by (intro gs) (use ids in \<open>simp_all add: record_fields_def\<close>)
    then show ?thesis using False by simp
  qed
qed

lemma record_load_written:
  assumes "record_ok r" and "record_serialize io r = Some t" and "length t \<le> 67108864" and "reads_ok io'"
    and "map_of d (Outbox (json_name (pr_wake_id r))) = Some t"
  shows "record_load io' (json_name (pr_wake_id r)) d = Some r"
proof -
  have "plain_key (pr_wake_id r)" using assms(1) safe_id_plain by (auto simp: record_ok_def bus_sizes)
  note t = record_text [OF assms(2) this]
  note ms = record_fields_ok [OF assms(1)]
  have "no_nul (obj_text (record_fields r))" using json_text_no_nul(1) jobject_jvalue [OF jobject_printed [OF ms]] by blast
  then have "fs_read io' (Outbox (json_name (pr_wake_id r))) d = Rd_Text t"
    by (intro fs_read_written) (use assms(3-5) in \<open>auto simp: t\<close>)
  moreover obtain root where root: "json_ref_top_object t = Some root" "at_ref root (obj_text (record_fields r))"
    unfolding t by (rule top_object_printed [OF ms, of "[CHR 0x0A]"]) (auto simp: char_class_defs)
  moreover have "\<forall>n. io_malloc_ok io' n" using assms(4) by (simp add: reads_ok_def)
  note m = record_members_printed [OF assms(1) root(2) this]
  ultimately show ?thesis using assms(1) by (auto simp: record_load_def m record_ok_def)
qed

text \<open>
  A publication record is read back as it was written: after the text of a well-formed record
  was written to its file, loading the file gives exactly that record, bound to a run or not.
\<close>

theorem outbox_record_roundtrip:
  assumes "record_ok r" and "record_serialize io r = Some t" and "fs_write_text_atomic io (Outbox (json_name (pr_wake_id r))) t d = (True, d')"
    and "length t \<le> 67108864" and "reads_ok io'"
  shows "record_load io' (json_name (pr_wake_id r)) d' = Some r"
  using record_load_written [OF assms(1,2,4,5)] assms(3) by (auto simp: fs_write_text_atomic_def split: if_splits)

section \<open>The control state of a run\<close>

text \<open>What the rest of the runtime keeps of a run's texts: no NUL bytes, and identities short enough for the outbox.\<close>

definition run_texts_ok :: "rt_run \<Rightarrow> bool" where
  "run_texts_ok r \<longleftrightarrow> safe_id (rn_run_id r) RT_SMALL \<and> text_ok BUS_ID_MAX (rn_created_from_event_id r) \<and>
     text_ok BUS_TYPE_MAX (rn_created_from_type r)"

definition error_fields :: "rt_run \<Rightarrow> (string \<times> string) list" where
  "error_fields r =
     [(''class'', show_int (fc_error_number (if rn_last_error_class r = FC_ERROR_NONE then FC_ERROR_RUNTIME else rn_last_error_class r))),
      (''code'', str_val (rn_last_error_code r)), (''message'', str_val (rn_last_error_message r))] @
     (if rn_last_error_job_id r = [] then [] else [(''job_id'', str_val (rn_last_error_job_id r))])"

definition created_fields :: "rt_run \<Rightarrow> (string \<times> string) list" where
  "created_fields r = [(''event_id'', str_val (rn_created_from_event_id r)), (''type'', str_val (rn_created_from_type r))]"

definition control_fields :: "rt_run \<Rightarrow> (string \<times> string) list" where
  "control_fields r =
     [(''run_id'', str_val (rn_run_id r)), (''context_id'', str_val (rn_context_id r)),
      (''profile'', str_val (case rn_profile r of None \<Rightarrow> [] | Some p \<Rightarrow> pf_name p)),
      (''status'', str_val (rt_run_status_name (rn_state r))), (''advance'', show_nat (unat (rn_advance r))),
      (''created_from'', obj_text (created_fields r)),
      (''waiting'', obj_text [(''jobs'', arr_text (map str_val (rn_waiting_job_ids r))), (''events'', ''[]''), (''deadline'', ''null'')]),
      (''cursors'', obj_text [(''phase_index'', show_nat (rn_phase_index r)), (''last_advanced_event_seq'', ''null'')]),
      (''last_error'', if rn_last_error_code r = [] then ''null'' else obj_text (error_fields r))]"

lemma waiting_jobs_text:
  "waiting_jobs_loop n comma js out = Some res \<Longrightarrow>
     res = out @ (if comma \<and> js \<noteq> [] then '','' else []) @ join_comma (map str_val js)"
proof (induction js arbitrary: comma out)
  case (Cons j js)
  then obtain e where "escaped_or_fail j (RT_SMALL * 2) = Some e"
    and "waiting_jobs_loop n True js (out @ (if comma then '','' else []) @ DQ # e @ [DQ]) = Some res"
    by (auto simp: Let_def split: option.splits if_splits)
  then have "e = escape_text j" "res = (out @ (if comma then '','' else []) @ DQ # e @ [DQ]) @ (if True \<and> js \<noteq> [] then '','' else []) @
      join_comma (map str_val js)"
    using escaped_or_fail_Some Cons.IH by blast+
  then show ?case by (cases js) (simp_all add: str_val_def [of j])
qed simp

lemma jobs_json_text: "waiting_jobs_json r n = Some t \<Longrightarrow> t = arr_text (map str_val (rn_waiting_job_ids r))"
  by (auto simp: waiting_jobs_json_def arr_text_def split: option.splits if_splits dest!: waiting_jobs_text)

lemma last_error_text:
  "last_error_json r n = Some t \<Longrightarrow> t = (if rn_last_error_code r = [] then ''null'' else obj_text (error_fields r))"
  by (auto simp: last_error_json_def error_fields_def obj_text_def member_text_def str_val_def Let_def
      split: option.splits if_splits dest!: escaped_or_fail_Some)

lemma jvalue_show_nat: "jvalue (show_nat n)"
  using jvalue_show_int [of "int n"] by (simp add: show_int_def)

lemma status_plain: "escape_text (rt_run_status_name s) = rt_run_status_name s" "text_ok RT_SMALL (rt_run_status_name s)"
  by (cases s; intro escape_text_plain; simp add: plain_key_def char_class_defs)
    (cases s; simp add: text_ok_def no_nul_def RT_SMALL_def)

lemma run_state_printed:
  assumes "run_state_text r = Some t" and "safe_id (rn_run_id r) RT_SMALL"
  shows "t = obj_text (control_fields r)"
proof -
  have "escape_text (rn_run_id r) = rn_run_id r" using escape_text_plain [OF safe_id_plain [OF assms(2)]] by (simp add: RT_SMALL_def)
  then show ?thesis using assms(1)
    by (auto simp: run_state_text_def control_fields_def created_fields_def obj_text_def member_text_def str_val_def status_plain
        split: option.splits dest!: escaped_or_fail_Some jobs_json_text last_error_text)
qed

lemma control_keys: "plain_key ''run_id''" "plain_key ''profile''" "plain_key ''status''" "plain_key ''advance''" "plain_key ''created_from''"
  "plain_key ''waiting''" "plain_key ''jobs''" "plain_key ''events''" "plain_key ''deadline''" "plain_key ''cursors''"
  "plain_key ''phase_index''" "plain_key ''last_advanced_event_seq''" "plain_key ''last_error''" "plain_key ''class''"
  "plain_key ''code''" "plain_key ''message''" "plain_key ''job_id''"
  by (simp_all add: plain_key_def char_class_defs)

lemma jvalue_obj_text: "\<forall>(k, v) \<in> set ms. plain_key k \<and> jvalue v \<Longrightarrow> jvalue (obj_text ms)"
  by (rule jobject_jvalue [OF jobject_printed])

lemma jvalue_arr_text: "list_all jvalue vs \<Longrightarrow> jvalue (arr_text vs)"
  by (rule jarray_jvalue [OF jarray_printed])

lemma created_fields_ok: "\<forall>(k, v) \<in> set (created_fields r). plain_key k \<and> jvalue v"
  using jvalue_str_val plain_keys by (auto simp: created_fields_def)

lemma control_fields_ok: "\<forall>(k, v) \<in> set (control_fields r). plain_key k \<and> jvalue v"
proof -
  have e: "jvalue (obj_text (error_fields r))"
    by (rule jvalue_obj_text) (use jvalue_str_val jvalue_show_int control_keys in \<open>auto simp: error_fields_def\<close>)
  have a: "jvalue (arr_text (map str_val js))" for js
    by (rule jvalue_arr_text) (simp add: list_all_iff jvalue_str_val)
  have "jvalue ''[]''" using a [of "[]"] by (simp add: arr_text_def)
  then have w: "jvalue (obj_text [(''jobs'', arr_text (map str_val js)), (''events'', ''[]''), (''deadline'', ''null'')])" for js
    by (intro jvalue_obj_text) (use a control_keys jvalue_null in auto)
  have c: "jvalue (obj_text [(''phase_index'', show_nat i), (''last_advanced_event_seq'', ''null'')])" for i
    by (rule jvalue_obj_text) (use jvalue_show_nat control_keys jvalue_null in auto)
  show ?thesis using e w c jvalue_obj_text [OF created_fields_ok] jvalue_str_val jvalue_show_nat control_keys plain_keys jvalue_null
    by (auto simp: control_fields_def)
qed


end
