(* ===== verification/Outbox_Laws.thy ===== *)
theory Outbox_Laws
  imports Outbox_File
begin

text \<open>
  What a pass over the outbox may do to the disk, and when: a wake is published only for a source
  event that is committed exactly once, a record disappears only after the run it started is
  terminal, and a wake that nobody claims is in the inbox when a pass succeeds.
\<close>

section \<open>The frame of a pass\<close>

text \<open>Files that no step of a pass touches, among them everything a verdict depends on.\<close>

definition pass_keeps :: "disk \<Rightarrow> disk \<Rightarrow> bool" where
  "pass_keeps d d' \<longleftrightarrow>
     run_names d' = run_names d \<and> map_of d' Bus_Counter = map_of d Bus_Counter \<and>
     (\<forall>n. map_of d' (Run_State n) = map_of d (Run_State n)) \<and> (\<forall>n. map_of d' (Event_Log n) = map_of d (Event_Log n)) \<and>
     (\<forall>n c. map_of d (Inbox n) = Some c \<longrightarrow> map_of d' (Inbox n) = Some c) \<and> bus_keeps d d'"

lemma pass_keeps_refl [simp]: "pass_keeps d d"
  by (simp add: pass_keeps_def)

lemma pass_keeps_trans: "pass_keeps d d1 \<Longrightarrow> pass_keeps d1 d2 \<Longrightarrow> pass_keeps d d2"
  using bus_keeps_trans by (auto simp: pass_keeps_def)

lemma run_names_update: "(\<And>n. p \<noteq> Run_State n) \<Longrightarrow> run_names (AList.update p t d) = run_names d"
proof (induction d)
  case (Cons x d)
  then have "run_names (AList.update p t d) = run_names d" by blast
  then show ?case using Cons.prems by (cases x; cases "fst x") (auto simp: run_names_def)
qed (cases p; fastforce simp: run_names_def)

lemma run_names_delete: "(\<And>n. p \<noteq> Run_State n) \<Longrightarrow> run_names (AList.delete p d) = run_names d"
proof (induction d)
  case (Cons x d)
  then have "run_names (AList.delete p d) = run_names d" by blast
  then show ?case using Cons.prems by (cases x; cases "fst x") (auto simp: run_names_def)
qed (simp add: run_names_def)

lemmas run_names_simps [simp] = run_names_update run_names_delete

text \<open>Writing one file, or removing a record.\<close>

lemma pass_keeps_update:
  assumes "p = Work_Steps \<or> p = Bus_Log \<or> (\<exists>n. p = Outbox n)"
  shows "pass_keeps d (AList.update p t d)"
  using assms by (auto simp: pass_keeps_def intro!: bus_keeps_other)

lemma pass_keeps_remove: "pass_keeps d (AList.delete (Outbox n) d)"
  by (auto simp: pass_keeps_def intro!: bus_keeps_other)

lemma append_run_names: "(\<And>n. p \<noteq> Run_State n) \<Longrightarrow> run_names (snd (fs_append_text io p t d)) = run_names d"
  by (simp add: fs_append_text_def Let_def split: append_outcome.splits)

lemma publish_pass_keeps:
  assumes "bus_publish_stable io eid ch ty pl d = (rc, d')"
  shows "pass_keeps d d' \<and> (\<forall>n. map_of d' (Outbox n) = map_of d (Outbox n))"
proof -
  have a: "bus_publish_stable_routed io eid ch ty pl no_routing d = (rc, d')" using assms by (simp add: bus_publish_stable_def)
  have "d' = d \<or> (\<exists>e. envelope_at d (json_name eid) = None \<and>
      d' = snd (fs_append_text io Bus_Log e (AList.update (Inbox (json_name eid)) e d)))"
    using a by (auto simp: bus_publish_stable_routed_def commit_envelope_def fs_write_text_atomic_def Let_def envelope_at_def
        bus_envelope_locations_def fs_file_exists_def split: if_splits option.splits)
  then show ?thesis using publish_keeps [OF a]
    by (auto simp: pass_keeps_def append_run_names envelope_at_def split: option.splits)
qed

lemma requeue_pass_keeps:
  assumes "bus_requeue_processed io eid d = (rc, d')"
  shows "pass_keeps d d' \<and> (\<forall>n. map_of d' (Outbox n) = map_of d (Outbox n))"
proof -
  have "d' = d \<or> (\<exists>c. map_of d (Inbox (json_name eid)) = None \<and>
      d' = AList.update (Inbox (json_name eid)) c (AList.delete (Processed (json_name eid)) d))"
    using assms by (auto simp: bus_requeue_processed_def fs_rename_def Let_def bus_envelope_locations_def fs_file_exists_def
        split: if_splits option.splits)
  then show ?thesis using requeue_keeps [OF assms] by (auto simp: pass_keeps_def)
qed

lemma ledger_pass_keeps:
  assumes "apply_exact_source_to_work_state io env r d = (rc, d')"
  shows "pass_keeps d d' \<and> (\<forall>n. map_of d' (Outbox n) = map_of d (Outbox n)) \<and> (\<forall>n. envelope_at d' n = envelope_at d n)"
proof -
  have "d' = d \<or> (\<exists>t. d' = AList.update Work_Steps t d)"
    using assms by (auto simp: apply_exact_source_to_work_state_def split: if_splits option.splits prod.splits)
  then show ?thesis using pass_keeps_update by (auto simp: envelope_at_def split: option.split)
qed

section \<open>Verdicts depend on what a pass keeps\<close>

lemma fs_read_cong: "map_of d' p = map_of d p \<Longrightarrow> fs_read io p d' = fs_read io p d"
  by (simp add: fs_read_def)

lemma record_load_cong: "map_of d' (Outbox n) = map_of d (Outbox n) \<Longrightarrow> record_load io n d' = record_load io n d"
  by (simp add: record_load_def fs_read_cong [of d' "Outbox n" d])

lemma read_kept:
  "pass_keeps d d' \<Longrightarrow> fs_read io (Event_Log n) d' = fs_read io (Event_Log n) d"
  "pass_keeps d d' \<Longrightarrow> fs_read io (Run_State n) d' = fs_read io (Run_State n) d"
  by (rule fs_read_cong; simp add: pass_keeps_def)+

lemma source_state_kept: "pass_keeps d d' \<Longrightarrow> source_state_of io r d' = source_state_of io r d"
  by (simp add: source_state_of_def read_kept [of d d'])

lemma inbound_kept: "pass_keeps d d' \<Longrightarrow> claimed_inbound_state io n r d' = claimed_inbound_state io n r d"
  by (simp add: claimed_inbound_state_def read_kept [of d d'])

lemma control_kept: "pass_keeps d d' \<Longrightarrow> read_run_control io n d' = read_run_control io n d"
  by (simp add: read_run_control_def read_kept [of d d'])

lemma claim_of_run_kept: "pass_keeps d d' \<Longrightarrow> claim_state_of_run io n r ctl d' = claim_state_of_run io n r ctl d"
  by (simp add: claim_state_of_run_def inbound_kept [of d d'])

lemma claim_loop_kept:
  assumes "pass_keeps d d'"
  shows "run_claim_loop io r d' m res names = run_claim_loop io r d m res names"
  by (induction names arbitrary: m res)
    (simp_all add: control_kept [OF assms] claim_of_run_kept [OF assms] Let_def split: option.split prod.split)

lemma claim_bound_kept: "pass_keeps d d' \<Longrightarrow> run_claim_state_bound io n r d' = run_claim_state_bound io n r d"
  by (simp add: run_claim_state_bound_def control_kept [of d d'] claim_of_run_kept [of d d'] split: prod.split)

lemma claim_kept: "pass_keeps d d' \<Longrightarrow> run_claim_state io r d' = run_claim_state io r d"
proof -
  assume k: "pass_keeps d d'"
  then have "run_names d' = run_names d" by (simp add: pass_keeps_def)
  then show ?thesis by (simp add: run_claim_state_def run_claim_scan_def claim_loop_kept [OF k] claim_bound_kept [OF k])
qed

section \<open>What the verdicts mean\<close>

text \<open>The identity that a committed line carries.\<close>

definition line_event_id :: "string \<Rightarrow> string option" where
  "line_event_id line = (case json_ref_top_object line of None \<Rightarrow> None | Some event \<Rightarrow> get_string event ''event_id'' RT_SMALL)"

text \<open>The source event is in the log: one committed line has its identity, and that line is the source.\<close>

definition source_committed :: "io_env \<Rightarrow> publication_record \<Rightarrow> disk \<Rightarrow> bool" where
  "source_committed io r d \<longleftrightarrow>
     (\<exists>content line event. fs_read io (Event_Log (pr_source_run_id r)) d = Rd_Text content \<and>
        filter (\<lambda>l. line_event_id l = Some (pr_source_event_id r)) (log_lines content) = [line] \<and>
        json_ref_top_object line = Some event \<and> line_is_source io r event)"

lemma source_lines_step:
  "source_lines io r m res (line # lines) =
     (case line_event_id line of
        None \<Rightarrow> (SOURCE_CONFLICT, m)
      | Some e \<Rightarrow>
          if e \<noteq> pr_source_event_id r then source_lines io r m res lines
          else if Suc m > 1 \<or> \<not> line_is_source io r (the (json_ref_top_object line)) then (SOURCE_CONFLICT, Suc m)
          else source_lines io r (Suc m) SOURCE_EXACT lines)"
  by (simp add: line_event_id_def split: option.split)

lemma source_lines_found:
  "source_lines io r (Suc 0) SOURCE_EXACT lines = (SOURCE_EXACT, m) \<Longrightarrow>
     filter (\<lambda>l. line_event_id l = Some (pr_source_event_id r)) lines = []"
  by (induction lines) (auto simp: source_lines_step simp del: source_lines.simps(2) split: option.splits if_splits)

lemma line_event_id_Some: "line_event_id line = Some e \<Longrightarrow> \<exists>event. json_ref_top_object line = Some event"
  by (auto simp: line_event_id_def split: option.splits)

lemma source_lines_exact:
  "source_lines io r 0 SOURCE_ABSENT lines = (SOURCE_EXACT, m) \<Longrightarrow>
     \<exists>line event. filter (\<lambda>l. line_event_id l = Some (pr_source_event_id r)) lines = [line] \<and>
       json_ref_top_object line = Some event \<and> line_is_source io r event"
  by (induction lines) (auto simp: source_lines_step simp del: source_lines.simps(2) split: option.splits if_splits
      dest: source_lines_found line_event_id_Some)

lemma source_exact_committed: "source_state_of io r d = SOURCE_EXACT \<Longrightarrow> source_committed io r d"
  by (auto simp: source_state_of_def source_committed_def split: read_result.splits prod.splits if_splits dest!: source_lines_exact)

text \<open>
  The wake was served: some run was created from it, its first event is the wake, and its durable
  status is terminal; or the run that the record is bound to has no control state any more.
\<close>

definition wake_served :: "io_env \<Rightarrow> publication_record \<Rightarrow> disk \<Rightarrow> bool" where
  "wake_served io r d \<longleftrightarrow>
     (\<exists>run ctl. read_run_control io run d = (CLAIM_ACTIVE, ctl) \<and> rc_run_id ctl = run \<and> rc_event_id ctl = pr_wake_id r \<and>
        rc_created_type ctl = pr_wake_type r \<and> rt_run_status_is_terminal (rc_status ctl) \<and>
        claimed_inbound_state io run r d = CLAIM_INBOUND_EXACT) \<or>
     pr_claimed_run_id r \<noteq> [] \<and> map_of d (Run_State (pr_claimed_run_id r)) = None"

lemma claim_of_run_terminal:
  "claim_state_of_run io n r ctl d = CLAIM_TERMINAL \<Longrightarrow>
     rc_run_id ctl = n \<and> rc_created_type ctl = pr_wake_type r \<and> rt_run_status_is_terminal (rc_status ctl) \<and>
     claimed_inbound_state io n r d = CLAIM_INBOUND_EXACT"
  by (auto simp: claim_state_of_run_def split: if_splits claim_inbound_state.splits)

lemma read_control_active:
  "read_run_control io n d = (s, ctl) \<Longrightarrow> s = CLAIM_ACTIVE \<or> s = CLAIM_NONE \<or> s = CLAIM_IO \<or> s = CLAIM_CONFLICT"
  by (auto simp: read_run_control_def split: read_result.splits option.splits)

lemma read_control_none: "read_run_control io n d = (CLAIM_NONE, ctl) \<Longrightarrow> map_of d (Run_State n) = None"
  by (auto simp: read_run_control_def fs_read_def split: read_result.splits option.splits if_splits)

lemma claim_bound_terminal: "run_claim_state_bound io n r d = CLAIM_TERMINAL \<Longrightarrow> wake_served io r d"
  using read_control_active [of io n d]
  by (auto simp: run_claim_state_bound_def wake_served_def split: prod.splits if_splits dest!: claim_of_run_terminal)

lemma claim_loop_terminal:
  "run_claim_loop io r d m res names = CLAIM_TERMINAL \<Longrightarrow> res = CLAIM_TERMINAL \<or> wake_served io r d"
proof (induction names arbitrary: m res)
  case (Cons name names)
  obtain s ctl where c: "read_run_control io name d = (s, ctl)" by (cases "read_run_control io name d")
  show ?case
  proof (cases "claim_state_of_run io name r ctl d = CLAIM_TERMINAL \<and> s = CLAIM_ACTIVE \<and> rc_event_id ctl = pr_wake_id r")
    case True
    then have "wake_served io r d" using c by (auto simp: wake_served_def dest!: claim_of_run_terminal)
    then show ?thesis ..
  next
    case False
    then show ?thesis using Cons c read_control_active [OF c]
      by (auto simp: Let_def split: option.splits if_splits)
  qed
qed simp

lemma claim_terminal_served: "run_claim_state io r d = CLAIM_TERMINAL \<Longrightarrow> wake_served io r d"
proof -
  assume t: "run_claim_state io r d = CLAIM_TERMINAL"
  consider "run_claim_state_bound io (pr_claimed_run_id r) r d = CLAIM_TERMINAL"
    | "pr_claimed_run_id r \<noteq> []" "run_claim_state_bound io (pr_claimed_run_id r) r d = CLAIM_NONE"
    | "run_claim_loop io r d 0 CLAIM_NONE (run_names d) = CLAIM_TERMINAL"
    using t by (auto simp: run_claim_state_def run_claim_scan_def Let_def split: if_splits)
  then show ?thesis
  proof cases
    case 2
    then have "map_of d (Run_State (pr_claimed_run_id r)) = None"
      using read_control_none
      by (auto simp: run_claim_state_bound_def claim_state_of_run_def split: prod.splits if_splits claim_inbound_state.splits)
    then show ?thesis using 2(1) by (simp add: wake_served_def)
  qed (use claim_bound_terminal claim_loop_terminal in blast)+
qed

section \<open>One record\<close>

text \<open>The record of a file that may be removed, and an envelope that a record announces.\<close>

definition removable :: "io_env \<Rightarrow> string \<Rightarrow> disk \<Rightarrow> bool" where
  "removable io n d \<longleftrightarrow> (\<exists>r. record_load io n d = Some r \<and> run_claim_state io r d = CLAIM_TERMINAL)"

definition wake_ready :: "io_env \<Rightarrow> publication_record \<Rightarrow> disk \<Rightarrow> bool" where
  "wake_ready io r d \<longleftrightarrow> pr_claimed_run_id r = [] \<and> source_state_of io r d = SOURCE_EXACT \<and> run_claim_state io r d = CLAIM_NONE"

definition announced :: "io_env \<Rightarrow> string \<Rightarrow> disk \<Rightarrow> bool" where
  "announced io n d \<longleftrightarrow> (\<exists>name r. record_load io name d = Some r \<and> n = json_name (pr_wake_id r) \<and> wake_ready io r d)"

definition pass_rel :: "io_env \<Rightarrow> disk \<Rightarrow> disk \<Rightarrow> bool" where
  "pass_rel io d d' \<longleftrightarrow>
     pass_keeps d d' \<and>
     (\<forall>n. map_of d' (Outbox n) = map_of d (Outbox n) \<or> map_of d' (Outbox n) = None \<and> removable io n d) \<and>
     (\<forall>n. envelope_at d n = None \<longrightarrow> envelope_at d' n = None \<or> announced io n d)"

lemma pass_rel_refl [simp]: "pass_rel io d d"
  by (simp add: pass_rel_def)

lemma ready_kept: "pass_keeps d d' \<Longrightarrow> wake_ready io r d' = wake_ready io r d"
  by (simp add: wake_ready_def source_state_kept [of d d'] claim_kept [of d d'])

lemma record_load_present: "record_load io n d = Some r \<Longrightarrow> map_of d (Outbox n) \<noteq> None"
  by (auto simp: record_load_def fs_read_def split: option.splits read_result.splits)

lemma pass_rel_load:
  assumes "pass_rel io d d1" and "record_load io n d1 = Some r"
  shows "record_load io n d = Some r"
proof -
  have "map_of d1 (Outbox n) = map_of d (Outbox n)"
    using assms(1) record_load_present [OF assms(2)] unfolding pass_rel_def by metis
  then show ?thesis using assms(2) record_load_cong [of d1 n d io] by simp
qed

lemma pass_rel_trans:
  assumes "pass_rel io d d1" and "pass_rel io d1 d2"
  shows "pass_rel io d d2"
proof -
  have k: "pass_keeps d d1" "pass_keeps d1 d2" using assms by (simp_all add: pass_rel_def)
  have rem: "removable io n d1 \<Longrightarrow> removable io n d" for n
    using pass_rel_load [OF assms(1)] claim_kept [OF k(1)] by (auto simp: removable_def)
  have ann: "announced io n d1 \<Longrightarrow> announced io n d" for n
    using pass_rel_load [OF assms(1)] ready_kept [OF k(1)] unfolding announced_def by blast
  have out: "map_of d2 (Outbox n) = map_of d (Outbox n) \<or> map_of d2 (Outbox n) = None \<and> removable io n d" for n
    using assms rem [of n] unfolding pass_rel_def by metis
  have env: "envelope_at d n = None \<Longrightarrow> envelope_at d2 n = None \<or> announced io n d" for n
    using assms ann [of n] unfolding pass_rel_def by metis
  show ?thesis unfolding pass_rel_def using pass_keeps_trans [OF k] out env by blast
qed

lemma publish_new_envelope:
  "bus_publish_stable io eid ch ty pl d = (rc, d') \<Longrightarrow> n \<noteq> json_name eid \<Longrightarrow> envelope_at d' n = envelope_at d n"
  by (auto simp: bus_publish_stable_def bus_publish_stable_routed_def commit_envelope_def fs_write_text_atomic_def Let_def envelope_at_def
      split: if_splits option.splits)

lemma requeue_same_envelope: "bus_requeue_processed io eid d = (rc, d') \<Longrightarrow> n \<noteq> json_name eid \<Longrightarrow> envelope_at d' n = envelope_at d n"
  by (auto simp: bus_requeue_processed_def fs_rename_def Let_def envelope_at_def split: if_splits option.splits)

lemma publish_wake_effect:
  assumes "publish_wake io r d = (f, d')"
  shows "pass_keeps d d' \<and> (\<forall>n. map_of d' (Outbox n) = map_of d (Outbox n)) \<and>
    (\<forall>n. n \<noteq> json_name (pr_wake_id r) \<longrightarrow> envelope_at d' n = envelope_at d n)"
proof -
  obtain rc d1 where p: "bus_publish_stable io (pr_wake_id r) (pr_channel r) (pr_wake_type r) (pr_wake_payload r) d = (rc, d1)" by fastforce
  obtain rc2 d2 where q: "bus_requeue_processed io (pr_wake_id r) d1 = (rc2, d2)" by fastforce
  have "d' = d \<or> d' = d1 \<or> d' = d2" using assms p q by (auto simp: publish_wake_def Let_def split: if_splits)
  then show ?thesis
    using publish_pass_keeps [OF p] requeue_pass_keeps [OF q] publish_new_envelope [OF p] requeue_same_envelope [OF q]
      pass_keeps_trans [of d d1 d2] by auto
qed

lemma publish_wake_delivers:
  assumes "publish_wake io r d = (False, d')"
  shows "map_of d' (Inbox (json_name (pr_wake_id r))) \<noteq> None"
proof -
  let ?n = "json_name (pr_wake_id r)" and ?loc = "bus_envelope_locations (pr_wake_id r) d"
  obtain rc d1 where p: "bus_publish_stable io (pr_wake_id r) (pr_channel r) (pr_wake_type r) (pr_wake_payload r) d = (rc, d1)" by fastforce
  consider (absent) "?loc = 0" | (inbox) "?loc = 1" | (processed) "?loc = 2"
    using assms by (auto simp: publish_wake_def Let_def split: if_splits)
  then show ?thesis
  proof cases
    case absent
    then have "rc = 0" "d' = d1" using assms p by (auto simp: publish_wake_def)
    then show ?thesis using p absent
      by (auto simp: bus_publish_stable_def bus_publish_stable_routed_def commit_envelope_def publish_codes Let_def fs_write_text_atomic_def
          split: if_splits option.splits)
  next
    case inbox
    then have "map_of d (Inbox ?n) \<noteq> None" by (auto simp: bus_envelope_locations_def fs_file_exists_def split: if_splits)
    then show ?thesis using publish_wake_effect [OF assms] by (auto simp: pass_keeps_def)
  next
    case processed
    have d1: "d1 = d" using p processed
      by (auto simp: bus_publish_stable_def bus_publish_stable_routed_def Let_def split: if_splits option.splits)
    then show ?thesis using assms p processed
      by (auto simp: publish_wake_def Let_def bus_requeue_processed_def fs_rename_def split: if_splits option.splits)
  qed
qed

lemma reconcile_source_effect:
  assumes "reconcile_source io env r d = (s, d')"
  shows "pass_keeps d d' \<and> (\<forall>n. map_of d' (Outbox n) = map_of d (Outbox n)) \<and> (\<forall>n. envelope_at d' n = envelope_at d n) \<and>
    (s = Source_Ready \<longrightarrow> pr_claimed_run_id r = [] \<longrightarrow> source_state_of io r d = SOURCE_EXACT) \<and>
    (source_state_of io r d = SOURCE_EXACT \<longrightarrow> s \<noteq> Source_Skipped)"
  using assms ledger_pass_keeps [of io env r d]
  by (auto simp: reconcile_source_def split: if_splits source_state.splits prod.splits)

text \<open>A bound record is never published again: a claim that is gone counts as terminal.\<close>

lemma claim_none_unbound: "run_claim_state io r d = CLAIM_NONE \<Longrightarrow> pr_claimed_run_id r = []"
  by (auto simp: run_claim_state_def Let_def split: if_splits)

lemma reconcile_record_rel:
  assumes "reconcile_record io env name d = (f, d')"
  shows "pass_rel io d d'"
proof (cases "record_load io name d")
  case (Some r)
  obtain s d1 where s: "reconcile_source io env r d = (s, d1)" by fastforce
  note e = reconcile_source_effect [OF s]
  show ?thesis
  proof (cases "s = Source_Ready")
    case True
    then have c: "reconcile_claim io name r d1 = (f, d')" using assms Some s by (simp add: reconcile_record_def)
    have v: "run_claim_state io r d1 = run_claim_state io r d" using claim_kept e by blast
    show ?thesis
    proof (cases "run_claim_state io r d")
      case CLAIM_NONE
      then have w: "publish_wake io r d1 = (f, d')" using c v by (simp add: reconcile_claim_def)
      have "wake_ready io r d" using e True CLAIM_NONE claim_none_unbound by (auto simp: wake_ready_def)
      then have "announced io (json_name (pr_wake_id r)) d" using Some unfolding announced_def by blast
      then show ?thesis using publish_wake_effect [OF w] e pass_keeps_trans [of d d1 d']
        unfolding pass_rel_def by metis
    next
      case CLAIM_TERMINAL
      then have "removable io name d" using Some unfolding removable_def by blast
      moreover have "d' = d1 \<or> d' = AList.delete (Outbox name) d1"
        using c v CLAIM_TERMINAL by (auto simp: reconcile_claim_def fs_unlink_def split: if_splits)
      moreover have "envelope_at (AList.delete (Outbox name) d1) n = envelope_at d1 n" for n
        by (simp add: envelope_at_def split: option.split)
      ultimately show ?thesis using e pass_keeps_remove [of d1 name] pass_keeps_trans [of d d1]
        unfolding pass_rel_def by (auto split: if_splits)
    qed (use c v e in \<open>simp_all add: reconcile_claim_def pass_rel_def\<close>)
  next
    case False
    then have "d' = d1" using assms Some s by (cases s) (auto simp: reconcile_record_def)
    then show ?thesis using e by (simp add: pass_rel_def)
  qed
qed (use assms in \<open>simp add: reconcile_record_def\<close>)

lemma reconcile_record_delivers:
  assumes "reconcile_record io env name d = (False, d')" and "record_load io name d = Some r" and "wake_ready io r d"
  shows "map_of d' (Inbox (json_name (pr_wake_id r))) \<noteq> None"
proof -
  obtain s d1 where s: "reconcile_source io env r d = (s, d1)" by fastforce
  note e = reconcile_source_effect [OF s]
  have "s = Source_Ready" using assms s e by (cases s) (auto simp: reconcile_record_def wake_ready_def)
  then have "reconcile_claim io name r d1 = (False, d')" using assms(1,2) s by (simp add: reconcile_record_def)
  moreover have "run_claim_state io r d1 = CLAIM_NONE" using claim_kept e assms(3) by (auto simp: wake_ready_def)
  ultimately have "publish_wake io r d1 = (False, d')" by (simp add: reconcile_claim_def)
  then show ?thesis by (rule publish_wake_delivers)
qed

section \<open>A whole pass\<close>

lemma reconcile_loop_rel: "reconcile_loop io env names (f, d) = (f', d') \<Longrightarrow> pass_rel io d d'"
proof (induction names arbitrary: f d)
  case (Cons name names)
  obtain g d1 where r: "reconcile_record io env name d = (g, d1)" by fastforce
  then show ?case using Cons pass_rel_trans [OF reconcile_record_rel [OF r]] by auto
qed simp

lemma reconcile_pass_rel: "reconcile_pass io env d = (rc, d') \<Longrightarrow> pass_rel io d d'"
  by (auto simp: reconcile_pass_def Let_def split: if_splits prod.splits dest!: reconcile_loop_rel)

lemma ready_not_removable: "wake_ready io r d \<Longrightarrow> record_load io n d = Some r \<Longrightarrow> \<not> removable io n d"
  by (auto simp: wake_ready_def removable_def)

lemma reconcile_loop_delivers:
  assumes "reconcile_loop io env names (f, d) = (False, d')" and "name \<in> set names" and "record_load io name d = Some r" and "wake_ready io r d"
  shows "map_of d' (Inbox (json_name (pr_wake_id r))) \<noteq> None"
  using assms
proof (induction names arbitrary: f d)
  case (Cons x names)
  obtain g d1 where r: "reconcile_record io env x d = (g, d1)" by fastforce
  have l: "reconcile_loop io env names (f \<or> g, d1) = (False, d')" using Cons.prems(1) r by simp
  note rel = reconcile_record_rel [OF r]
  have k: "pass_keeps d d1" using rel by (simp add: pass_rel_def)
  have flag: "reconcile_loop io env ns (True, e) = (h, e') \<Longrightarrow> h" for ns e h e'
    by (induction ns arbitrary: e) (auto split: prod.splits)
  show ?case
  proof (cases "x = name")
    case True
    have "\<not> (f \<or> g)" using flag [of names d1 False d'] l by (cases "f \<or> g") simp_all
    then have "map_of d1 (Inbox (json_name (pr_wake_id r))) \<noteq> None"
      using reconcile_record_delivers [of io env name d d1 r] r True Cons.prems(3,4) by simp
    then show ?thesis using reconcile_loop_rel [OF l] by (auto simp: pass_rel_def pass_keeps_def)
  next
    case False
    have "map_of d1 (Outbox name) = map_of d (Outbox name)"
      using rel ready_not_removable [OF Cons.prems(4,3)] unfolding pass_rel_def by blast
    then have "record_load io name d1 = Some r" using Cons.prems(3) record_load_cong [of d1 name d io] by simp
    then show ?thesis using Cons.IH [OF l] Cons.prems(2,4) False ready_kept [OF k] by auto
  qed
qed simp

text \<open>
  C28. A wake is published only for committed truth. When a pass of reconciliation puts an envelope
  on the bus that was in neither directory, some record of the outbox announces it: the record is
  bound to no run, no run claims the wake, and the log of the source run has exactly one committed
  line with the identity of the source event, whose run, type and payload are those of the record.
\<close>

theorem outbox_publishes_only_committed:
  assumes "rt_publication_outbox_reconcile io env w = (rc, w')" and "envelope_at (ob_disk w) n = None"
    and "envelope_at (ob_disk w') n \<noteq> None"
  shows "\<exists>name r. record_load io name (ob_disk w) = Some r \<and> n = json_name (pr_wake_id r) \<and> pr_claimed_run_id r = [] \<and>
    source_committed io r (ob_disk w) \<and> run_claim_state io r (ob_disk w) = CLAIM_NONE"
proof -
  have "pass_rel io (ob_disk w) (ob_disk w')"
    using assms(1) by (auto simp: rt_publication_outbox_reconcile_def split: prod.splits dest!: reconcile_pass_rel)
  then have "announced io n (ob_disk w)" using assms(2,3) unfolding pass_rel_def by metis
  then show ?thesis using source_exact_committed unfolding announced_def wake_ready_def by blast
qed

text \<open>
  C29. A pass that succeeds leaves no committed wake behind: every record among the first 1024 whose
  source event is committed and whose wake no run claims has its envelope in the inbox afterwards,
  published, left there, or put back from the processed envelopes.
\<close>

theorem outbox_pass_delivers:
  assumes "rt_publication_outbox_reconcile io env w = (0, w')" and "name \<in> set (reconcile_names (ob_disk w))"
    and "record_load io name (ob_disk w) = Some r" and "pr_claimed_run_id r = []" and "source_state_of io r (ob_disk w) = SOURCE_EXACT"
    and "run_claim_state io r (ob_disk w) = CLAIM_NONE"
  shows "map_of (ob_disk w') (Inbox (json_name (pr_wake_id r))) \<noteq> None \<and> \<not> ob_retry_pass w'"
proof -
  obtain f d' where l: "reconcile_loop io env (reconcile_names (ob_disk w)) (f, ob_disk w) = (False, d')" and d': "ob_disk w' = d'"
    and "\<not> ob_retry_pass w'"
    using assms(1) by (auto simp: rt_publication_outbox_reconcile_def reconcile_pass_def Let_def split: prod.splits if_splits)
  moreover have "wake_ready io r (ob_disk w)" using assms(4-6) by (simp add: wake_ready_def)
  ultimately show ?thesis using reconcile_loop_delivers [OF l assms(2,3)] by simp
qed

section \<open>The life of a record\<close>

inductive outbox_step :: "io_env \<Rightarrow> outbox_world \<Rightarrow> outbox_world \<Rightarrow> bool" for io where
  prepare: "rt_publication_outbox_prepare io run_id eid ty pl ch wty wpl d = (res, d') \<Longrightarrow>
     outbox_step io \<lparr>ob_disk = d, ob_retry_pass = f\<rparr> \<lparr>ob_disk = d', ob_retry_pass = f\<rparr>"
| reconcile: "rt_publication_outbox_reconcile io env w = (rc, w') \<Longrightarrow> outbox_step io w w'"
| claim: "rt_publication_outbox_claim io wake_id run_id w = (rc, w') \<Longrightarrow> outbox_step io w w'"
| release: "rt_publication_outbox_release io wake_id run_id w = (rc, w') \<Longrightarrow> outbox_step io w w'"

lemma reserve_keeps_outbox: "bus_reserve_envelope_id io l d = (r, d') \<Longrightarrow> map_of d' (Outbox n) = map_of d (Outbox n)"
  by (auto simp: bus_reserve_envelope_id_def next_envelope_id_def bump_counter_def fs_write_text_atomic_def Let_def
      split: if_splits read_result.splits option.splits)

lemma prepare_keeps_outbox:
  "rt_publication_outbox_prepare io run_id eid ty pl ch wty wpl d = (res, d') \<Longrightarrow> map_of d (Outbox n) \<noteq> None \<Longrightarrow> map_of d' (Outbox n) \<noteq> None"
  by (auto simp: rt_publication_outbox_prepare_def prepare_fresh_def fs_write_text_atomic_def Let_def
      split: if_splits option.splits prepared_lookup.splits prod.splits dest: reserve_keeps_outbox [where n = n])

text \<open>
  C30. A record stays in the outbox until its wake was served. Whatever prepares, reconciles, claims
  or releases, successful or not: when a record's file is gone, the record could be read before and
  its wake was served, that is, a run that was created from exactly this wake is durably terminal,
  or the run the record is bound to has no control state any more.
\<close>

theorem outbox_record_kept_until_served:
  assumes "outbox_step io w w'" and "map_of (ob_disk w) (Outbox n) \<noteq> None" and "map_of (ob_disk w') (Outbox n) = None"
  shows "\<exists>r. record_load io n (ob_disk w) = Some r \<and> wake_served io r (ob_disk w)"
  using assms
proof (cases rule: outbox_step.cases)
  case (prepare run_id eid ty pl ch wty wpl d res d' f)
  then show ?thesis using assms(2,3) prepare_keeps_outbox by fastforce
next
  case (reconcile env rc)
  then have "pass_rel io (ob_disk w) (ob_disk w')"
    by (auto simp: rt_publication_outbox_reconcile_def split: prod.splits dest!: reconcile_pass_rel)
  then have "removable io n (ob_disk w)" using assms(2,3) unfolding pass_rel_def by metis
  then show ?thesis using claim_terminal_served unfolding removable_def by blast
next
  case (claim wake_id run_id rc)
  then show ?thesis using assms(2,3)
    by (auto simp: rt_publication_outbox_claim_def bind_record_def fs_write_text_atomic_def split: if_splits option.splits prod.splits)
next
  case (release wake_id run_id rc)
  then obtain r where "n = json_name wake_id" "record_load io n (ob_disk w) = Some r" "run_claim_state_bound io run_id r (ob_disk w) = CLAIM_TERMINAL"
    using assms(2,3)
    by (auto simp: rt_publication_outbox_release_def release_record_def fs_unlink_def split: if_splits option.splits prod.splits)
  then show ?thesis using claim_bound_terminal by blast
qed

end
