(* ===== verification/Outbox_Claim.thy ===== *)
theory Outbox_Claim
  imports Outbox_Laws
begin

text \<open>
  Preparing and claiming are repeatable: a producer that prepares the same publication again gets
  the identity it already has, and a record is bound to the first run that claims it.
\<close>

section \<open>Records that can be read\<close>

lemma compact_dup_value:
  assumes "json_ref_object_get root key = Some v" and "jr_end root \<le> length (jr_json root)" and "json_ref_value_compact_dup m v = Some c"
  shows "jvalue c \<and> squeezes c c"
proof -
  note o = object_get_value [OF assms(1,2)]
  obtain raw where raw: "json_ref_value_dup m v = Some raw" and c: "json_compact raw (jr_end v - jr_start v + 1) = Some c"
    using assms(3) by (auto simp: json_ref_value_compact_dup_def Let_def split: if_splits option.splits)
  have "raw = span (jr_json v) (jr_start v) (jr_end v)"
    using raw by (auto simp: json_ref_value_dup_def json_ref_value_copy_def Let_def split: if_splits)
  then have "jvalue raw" using o by auto
  then show ?thesis using compact_value [OF _ c] by blast
qed

lemma record_load_ok: "record_load io n d = Some r \<Longrightarrow> record_ok r"
proof -
  assume l: "record_load io n d = Some r"
  then obtain content root r0 where root: "json_ref_top_object content = Some root" and m: "record_members io root = Some r0"
    and r: "r = r0 \<or> (\<exists>run. r = r0\<lparr>pr_claimed_run_id := run\<rparr> \<and> safe_id run RT_SMALL)"
    by (auto simp: record_load_def split: read_result.splits Option.bind_splits option.splits if_splits)
  have e: "jr_end root \<le> length (jr_json root)" using top_object_end [OF root] by simp
  obtain s w where s: "json_ref_object_get root ''source_payload'' = Some s" "json_ref_value_compact_dup (io_malloc_ok io) s = Some (pr_source_payload r0)"
    and w: "json_ref_object_get root ''wake_payload'' = Some w" "json_ref_value_compact_dup (io_malloc_ok io) w = Some (pr_wake_payload r0)"
    and ids: "safe_id (pr_wake_id r0) BUS_ID_MAX" "safe_id (pr_source_run_id r0) RT_SMALL" "safe_id (pr_source_event_id r0) RT_SMALL"
    and t: "get_string root ''source_type'' RT_SMALL = Some (pr_source_type r0)" "get_string root ''channel'' BUS_CHANNEL_MAX = Some (pr_channel r0)"
      "get_string root ''wake_type'' BUS_TYPE_MAX = Some (pr_wake_type r0)"
    and c: "pr_claimed_run_id r0 = []"
    using m by (auto simp: record_members_def split: Option.bind_splits if_splits)
  have "record_ok r0"
    using compact_dup_value [OF s(1) e s(2)] compact_dup_value [OF w(1) e w(2)] ids c
      get_string_ok [OF t(1)] get_string_ok [OF t(2)] get_string_ok [OF t(3)] by (simp add: record_ok_def rt_sizes bus_sizes)
  then show ?thesis using r by (auto simp: record_ok_def)
qed

lemma compact_dup_again: "json_ref_value_compact_dup m v = Some c \<Longrightarrow> \<forall>n. m' n \<Longrightarrow> json_ref_value_compact_dup m' v = Some c"
  by (auto simp: json_ref_value_compact_dup_def json_ref_value_dup_def Let_def split: if_splits option.splits)

lemma record_load_again: "record_load io n d = Some r \<Longrightarrow> reads_ok io' \<Longrightarrow> record_load io' n d = Some r"
proof -
  assume l: "record_load io n d = Some r" and io: "reads_ok io'"
  obtain content where f: "fs_read io (Outbox n) d = Rd_Text content" using l by (auto simp: record_load_def split: read_result.splits)
  have cd: "json_ref_value_compact_dup (io_malloc_ok io) v = Some c \<Longrightarrow> json_ref_value_compact_dup (io_malloc_ok io') v = Some c" for v c
    by (erule compact_dup_again) (use io in \<open>simp add: reads_ok_def\<close>)
  have m: "record_members io' root = Some r0" if h: "record_members io root = Some r0" for root r0
  proof -
    obtain s w sp wp where p: "json_ref_object_get root ''source_payload'' = Some s" "json_ref_object_get root ''wake_payload'' = Some w"
      and c: "json_ref_value_compact_dup (io_malloc_ok io) s = Some sp" "json_ref_value_compact_dup (io_malloc_ok io) w = Some wp"
      using h by (auto simp: record_members_def split: Option.bind_splits)
    show ?thesis using h by (simp add: record_members_def p c cd [OF c(1)] cd [OF c(2)])
  qed
  show ?thesis using l f fs_read_again [OF f io] m
    by (auto simp: record_load_def bind_eq_Some_conv split: option.splits if_splits)
qed

section \<open>Preparing again\<close>

lemma lookup_found_again: "lookup_loop io want names d = Lookup_Found w \<Longrightarrow> reads_ok io' \<Longrightarrow> lookup_loop io' want names d = Lookup_Found w"
proof (induction names)
  case (Cons n names)
  show ?case
  proof (cases "canonical_record_name n")
    case True
    then obtain r where r: "record_load io n d = Some r" using Cons.prems(1) by (auto split: option.splits)
    show ?thesis using Cons True r record_load_again [OF r Cons.prems(2)] by (auto split: if_splits)
  qed (use Cons in simp)
qed simp

text \<open>The publication of a record is the one that is asked for; or it is another one's.\<close>

definition same_source :: "publication_record \<Rightarrow> publication_record \<Rightarrow> bool" where
  "same_source r want \<longleftrightarrow> pr_source_run_id r = pr_source_run_id want \<and> pr_source_event_id r = pr_source_event_id want"

lemma lookup_none:
  "lookup_loop io want names d = Lookup_None \<Longrightarrow> n \<in> set names \<Longrightarrow> canonical_record_name n \<Longrightarrow>
     \<exists>r. record_load io n d = Some r \<and> \<not> same_source r want"
  by (induction names) (auto simp: same_source_def split: option.splits if_splits)

lemma lookup_finds:
  assumes "\<forall>m \<in> set names. m \<noteq> n \<longrightarrow> canonical_record_name m \<longrightarrow> (\<exists>r. record_load io m d = Some r \<and> \<not> same_source r want)"
    and "n \<in> set names" and "canonical_record_name n" and "record_load io n d = Some (want\<lparr>pr_wake_id := wid\<rparr>)"
  shows "lookup_loop io want names d = Lookup_Found wid"
  using assms
proof (induction names)
  case (Cons m names)
  show ?case
  proof (cases "m = n")
    case False
    then show ?thesis using Cons by (auto simp: same_source_def split: option.splits)
  qed (use Cons.prems in simp)
qed simp

lemma outbox_names_update: "outbox_names (AList.update (Outbox n) t d) = (if n \<in> set (outbox_names d) then outbox_names d else outbox_names d @ [n])"
proof (induction d)
  case (Cons x d)
  then show ?case by (cases x; cases "fst x") (auto simp: outbox_names_def)
qed (simp add: outbox_names_def)

lemma outbox_names_counter: "outbox_names (AList.update Bus_Counter t d) = outbox_names d"
proof (induction d)
  case (Cons x d)
  then show ?case by (cases x; cases "fst x") (auto simp: outbox_names_def)
qed (simp add: outbox_names_def)

lemma digits_safe: "list_all is_digit ds \<Longrightarrow> list_all safe_char ds"
  by (auto simp: list_all_iff safe_char_def)

lemma bus_id_safe: "length (bus_id k) < BUS_ID_MAX \<Longrightarrow> safe_id (bus_id k) BUS_ID_MAX"
  using digits_safe [OF pad6_digits [of k]] by (simp add: safe_id_def bus_id_def safe_char_def char_class_defs)

lemma bus_id_number: "bus_number [] (show_pad6 k)"
proof -
  have d: "list_all is_digit (show_pad6 k)" by (rule pad6_digits)
  moreover have "show_pad6 k \<noteq> []" using show_nat_digits [of k] by (simp add: show_pad6_def Let_def)
  ultimately show ?thesis by (cases "show_pad6 k") (auto simp: bus_number_def dropWhile_eq_Nil_conv list_all_iff)
qed

lemma bus_id_canonical: "length (bus_id k) < BUS_ID_MAX \<Longrightarrow> canonical_record_name (json_name (bus_id k))"
  using bus_id_safe [of k] bus_id_number [of k] by (simp add: canonical_record_name_def json_name_def Let_def bus_id_def)

lemma reserve_id:
  assumes "bus_reserve_envelope_id io l d = (Some wid, d1)"
  shows "length wid < l \<and> (\<exists>k. wid = bus_id k) \<and> (\<exists>t. d1 = AList.update Bus_Counter t d)"
  using assms
  by (auto simp: bus_reserve_envelope_id_def next_envelope_id_def bump_counter_def bus_id_def fs_write_text_atomic_def Let_def
      split: if_splits read_result.splits option.splits)

lemma serialize_length:
  assumes "record_serialize io r = Some t" and "length (pr_wake_id r) < BUS_ID_MAX"
  shows "length t \<le> length (pr_source_payload r) + length (pr_wake_payload r) + 4096"
  using assms
  by (auto simp: record_serialize_def claimed_field_def Let_def rt_sizes bus_sizes
      split: Option.bind_splits option.splits if_splits dest!: escaped_or_fail_Some)

lemma compact_alloc_again: "compact_alloc io json = Some c \<Longrightarrow> reads_ok io' \<Longrightarrow> compact_alloc io' json = Some c"
  by (auto simp: compact_alloc_def reads_ok_def split: if_splits)

lemma compact_alloc_value: "compact_alloc io json = Some c \<Longrightarrow> jvalue json \<Longrightarrow> jvalue c \<and> squeezes c c \<and> length c \<le> length json"
  using compact_value [of json "length json + 1" c] by (auto simp: compact_alloc_def split: if_splits)

lemma prepare_fresh_found:
  assumes "prepare_fresh io want d = ((0, wid), d')" and "lookup_loop io want (outbox_names d) d = Lookup_None"
    and "\<And>w. safe_id w BUS_ID_MAX \<Longrightarrow> record_ok (want\<lparr>pr_wake_id := w\<rparr>)" and "pr_claimed_run_id want = []" and "reads_ok io'"
    and "length (pr_source_payload want) + length (pr_wake_payload want) \<le> 67000000"
  shows "lookup_loop io' want (outbox_names d') d' = Lookup_Found wid"
proof -
  let ?n = "json_name wid" and ?r = "want\<lparr>pr_wake_id := wid\<rparr>"
  obtain d1 t where r: "bus_reserve_envelope_id io BUS_ID_MAX d = (Some wid, d1)" and s: "record_serialize io (fresh_record wid want) = Some t"
    and d': "d' = AList.update (Outbox ?n) t d1"
    using assms(1)
    by (auto simp: prepare_fresh_def outbox_path_def fs_write_text_atomic_def split: option.splits if_splits prod.splits)
  obtain k c where l: "length wid < BUS_ID_MAX" and k: "wid = bus_id k" and d1: "d1 = AList.update Bus_Counter c d" using reserve_id [OF r] by blast
  have ok: "record_ok ?r" using assms(3) bus_id_safe l k by blast
  then have f: "fresh_record wid want = ?r" using l assms(4)
    by (simp add: fresh_record_def record_ok_def text_ok_def safe_id_def)
  have "length t \<le> 67108864" using serialize_length [of io ?r t] s f l assms(6) by simp
  then have "record_load io' ?n d' = Some ?r"
    using record_load_written [OF ok, of io t io' d'] s f assms(5) by (simp add: d')
  moreover have "canonical_record_name ?n" using bus_id_canonical l k by blast
  moreover have "?n \<in> set (outbox_names d')" by (simp add: d' set_outbox_names)
  moreover have "\<exists>r. record_load io' m d' = Some r \<and> \<not> same_source r want"
    if h: "m \<in> set (outbox_names d')" "m \<noteq> ?n" "canonical_record_name m" for m
  proof -
    have "m \<in> set (outbox_names d)" using h(1,2) by (simp add: d' d1 set_outbox_names)
    then obtain r0 where "record_load io m d = Some r0" "\<not> same_source r0 want" using lookup_none [OF assms(2) _ h(3)] by blast
    moreover have "map_of d' (Outbox m) = map_of d (Outbox m)" using h(2) by (simp add: d' d1)
    ultimately show ?thesis using record_load_again [OF _ assms(5)] record_load_cong by metis
  qed
  ultimately show ?thesis by (intro lookup_finds [of _ ?n]) auto
qed


section \<open>Claiming\<close>

text \<open>
  C31. A record is bound to the first run that claims its wake. After a claim that succeeded, the
  record on the disk names that run; a claim of the same run succeeds again and changes nothing, a
  claim of any other run is refused, leaves the record alone and asks for a full pass.
\<close>

theorem outbox_claim_exclusive:
  assumes "rt_publication_outbox_claim io wid run w = (0, w')" and "map_of (ob_disk w') (Outbox (json_name wid)) = Some t"
    and "length t \<le> 67108864" and "reads_ok io'" and "safe_id other RT_SMALL"
  shows "(\<exists>r. record_load io' (json_name wid) (ob_disk w') = Some r \<and> pr_claimed_run_id r = run) \<and>
    rt_publication_outbox_claim io' wid other w' = (if other = run then (0, w') else (- 1, w'\<lparr>ob_retry_pass := True\<rparr>))"
proof -
  let ?n = "json_name wid"
  have run: "safe_id run RT_SMALL" and path: "outbox_path wid \<noteq> None"
    using assms(1) by (auto simp: rt_publication_outbox_claim_def split: if_splits)
  have "map_of (ob_disk w) (Outbox ?n) \<noteq> None"
    using assms(1,2) run path by (auto simp: rt_publication_outbox_claim_def fs_file_exists_def split: if_splits)
  then have bind: "bind_record io wid run (ob_disk w) = (0, ob_disk w')" and retry: "ob_retry_pass w' = ob_retry_pass w"
    using assms(1) run path by (auto simp: rt_publication_outbox_claim_def fs_file_exists_def split: prod.splits)
  obtain r where r: "record_load io ?n (ob_disk w) = Some r" using bind by (auto simp: bind_record_def split: option.splits)
  have wid: "pr_wake_id r = wid"
    using r by (auto simp: record_load_def json_name_def split: read_result.splits Option.bind_splits option.splits if_splits)
  have "\<exists>r'. record_load io' ?n (ob_disk w') = Some r' \<and> pr_claimed_run_id r' = run"
  proof (cases "pr_claimed_run_id r = []")
    case True
    let ?r = "r\<lparr>pr_claimed_run_id := run\<rparr>"
    have c: "copy_into RT_SMALL run = run" using run by (simp add: safe_id_def)
    obtain t' where s': "record_serialize io ?r = Some t'" and "ob_disk w' = AList.update (Outbox ?n) t' (ob_disk w)"
      using bind r True by (auto simp: bind_record_def c fs_write_text_atomic_def split: option.splits if_splits)
    then have s: "record_serialize io ?r = Some t" using assms(2) by simp
    have "record_ok ?r" using record_load_ok [OF r] run by (simp add: record_ok_def)
    from record_load_written [OF this s assms(3,4), of "ob_disk w'"] show ?thesis using assms(2) wid by simp
  next
    case False
    then have "pr_claimed_run_id r = run" "ob_disk w' = ob_disk w" using bind r by (auto simp: bind_record_def split: if_splits)
    then show ?thesis using record_load_again [OF r assms(4)] by simp
  qed
  then obtain r' where r': "record_load io' ?n (ob_disk w') = Some r'" "pr_claimed_run_id r' = run" by blast
  have "run \<noteq> []" using run by (simp add: safe_id_def)
  then have "bind_record io' wid other (ob_disk w') = (if other = run then 0 else - 1, ob_disk w')"
    using r' by (simp add: bind_record_def)
  then show ?thesis using r' assms(2,5) path by (auto simp: rt_publication_outbox_claim_def fs_file_exists_def)
qed

end
