(* ===== verification/Outbox_Run.thy ===== *)
theory Outbox_Run
  imports Outbox_Claim
begin

text \<open>
  A small life of a publication record: it is prepared, the source event is appended, a pass
  publishes the wake, a run claims it, and a later pass removes the record of a run that is gone.
  The properties of the outbox are applied to it.
\<close>

definition demo_source :: string where
  \<open>demo_source = ''{"context_id":"c"}''\<close>

definition demo_record :: publication_record where
  "demo_record = \<lparr>pr_wake_id = ''bus_000001'', pr_source_run_id = ''run_1'', pr_source_event_id = ''e1'', pr_source_type = ''action_failed'',
     pr_channel = ''work'', pr_wake_type = ''work_result'', pr_claimed_run_id = [], pr_source_payload = demo_source, pr_wake_payload = ''{}''\<rparr>"

definition demo_record_text :: string where
  \<open>demo_record_text = ''{"wake_id":"bus_000001","source_run_id":"run_1","source_event_id":"e1","source_type":"action_failed",'' @
     ''"source_payload":{"context_id":"c"},"channel":"work","wake_type":"work_result","wake_payload":{}}'' @ [CHR 0x0A]\<close>

definition demo_log :: string where
  \<open>demo_log = ''{"event_id":"e1","run_id":"run_1","type":"action_failed","payload":{"context_id":"c"}}'' @ [CHR 0x0A]\<close>

definition demo_prepared :: disk where
  "demo_prepared = [(Bus_Counter, ''1'' @ [CHR 0x0A]), (Outbox ''bus_000001.json'', demo_record_text)]"

definition demo_appended :: disk where
  "demo_appended = demo_prepared @ [(Event_Log ''run_1'', demo_log)]"

definition demo_ledger_env :: work_env where
  "demo_ledger_env = \<lparr>we_task_rev = \<lambda>_. (0, 1), we_pending = \<lambda>_. 0, we_live_binding = \<lambda>_ _ _. True, we_malloc_ok = \<lambda>_. True\<rparr>"

lemma demo_serialize: "record_serialize good_io demo_record = Some demo_record_text"
  by code_simp

lemma demo_prepare:
  \<open>rt_publication_outbox_prepare good_io ''run_1'' ''e1'' ''action_failed'' demo_source ''work'' ''work_result'' ''{}'' [] =
     ((0, ''bus_000001''), demo_prepared)\<close>
  by code_simp

lemma demo_source_value: "jvalue demo_source"
proof -
  have "jvalue (obj_text [(''context_id'', str_val ''c'')])" by (rule jvalue_obj_text) (use jvalue_str_val plain_keys in auto)
  moreover have "obj_text [(''context_id'', str_val ''c'')] = demo_source" by code_simp
  ultimately show ?thesis by simp
qed

lemma demo_wake_value: "jvalue ''{}''"
  using jvalue_empty_object [of "[]"] by simp

lemma good_reads: "reads_ok good_io" "io_list_ok good_io D_Outbox" "io_list_ok good_io D_Runs"
  by (simp_all add: good_io_def reads_ok_def)

lemma good_calls [simp]: "io_sync_ok good_io p" "io_unlink_ok good_io p" "atomic_write_ok good_io p d"
  by (simp_all add: good_io_def atomic_write_ok_def)


lemma demo_record_ok: "record_ok demo_record"
proof -
  have "squeezes demo_source demo_source" "squeezes ''{}'' ''{}''"
  proof -
    have "json_compact demo_source 100 = Some demo_source" "json_compact ''{}'' 100 = Some ''{}''" by (code_simp, code_simp)
    then show "squeezes demo_source demo_source" "squeezes ''{}'' ''{}''"
      using compact_value(2) [OF demo_source_value] compact_value(2) [OF demo_wake_value] by blast+
  qed
  then show ?thesis using demo_source_value demo_wake_value
    by (simp add: record_ok_def demo_record_def safe_id_def safe_char_def text_ok_def no_nul_def rt_sizes bus_sizes char_class_defs)
qed

lemma demo_name: "json_name (pr_wake_id demo_record) = ''bus_000001.json''"
  by (simp add: json_name_def demo_record_def)

lemma demo_text_short: "length demo_record_text \<le> 67108864"
  by (simp add: demo_record_text_def)

lemma demo_written:
  "fs_write_text_atomic good_io (Outbox (json_name (pr_wake_id demo_record))) demo_record_text [(Bus_Counter, ''1'' @ [CHR 0x0A])] = (True, demo_prepared)"
  by code_simp

theorem outbox_record_roundtrip_witness:
  "record_load good_io (json_name (pr_wake_id demo_record)) demo_prepared = Some demo_record"
  by (rule outbox_record_roundtrip [OF demo_record_ok demo_serialize demo_written demo_text_short good_reads(1)])

section \<open>A pass publishes the wake\<close>

lemma demo_load: "record_load good_io ''bus_000001.json'' demo_appended = Some demo_record"
  using record_load_written [OF demo_record_ok demo_serialize demo_text_short good_reads(1), of demo_appended]
  by (simp add: demo_name demo_appended_def demo_prepared_def)

lemma demo_log_read: "fs_read good_io (Event_Log ''run_1'') demo_appended = Rd_Text demo_log"
  by (rule fs_read_written) (simp_all add: demo_appended_def demo_prepared_def demo_log_def no_nul_def good_reads(1))

lemma demo_source_exact: "source_state_of good_io demo_record demo_appended = SOURCE_EXACT"
proof -
  have "source_lines good_io demo_record 0 SOURCE_ABSENT (log_lines demo_log) = (SOURCE_EXACT, 1)" by code_simp
  moreover have "pr_source_run_id demo_record = ''run_1''" by (simp add: demo_record_def)
  ultimately show ?thesis by (simp add: source_state_of_def demo_log_read)
qed

lemma demo_unclaimed: "run_claim_state good_io demo_record demo_appended = CLAIM_NONE"
  by code_simp

definition demo_published :: disk where
  "demo_published = snd (publish_wake good_io demo_record demo_appended)"

lemma demo_publish: "publish_wake good_io demo_record demo_appended = (False, demo_published)"
proof -
  have "fst (publish_wake good_io demo_record demo_appended) = False" by code_simp
  then show ?thesis unfolding demo_published_def by (metis prod.collapse)
qed

lemma demo_apply: "apply_exact_source_to_work_state good_io demo_ledger_env demo_record demo_appended = (0, demo_appended)"
  by code_simp

lemma demo_names: "reconcile_names demo_appended = [''bus_000001.json'']" "outbox_names demo_appended = [''bus_000001.json'']"
  by (code_simp, code_simp)

lemma demo_reconcile:
  "rt_publication_outbox_reconcile good_io demo_ledger_env \<lparr>ob_disk = demo_appended, ob_retry_pass = True\<rparr> =
     (0, \<lparr>ob_disk = demo_published, ob_retry_pass = False\<rparr>)"
proof -
  have "pr_claimed_run_id demo_record = []" by (simp add: demo_record_def)
  then have "reconcile_record good_io demo_ledger_env ''bus_000001.json'' demo_appended = (False, demo_published)"
    by (simp add: reconcile_record_def demo_load reconcile_source_def demo_source_exact demo_apply reconcile_claim_def demo_unclaimed demo_publish)
  then show ?thesis
    by (simp add: rt_publication_outbox_reconcile_def reconcile_pass_def demo_names good_reads PUBLICATION_NAME_MAX_def)
qed

theorem outbox_publishes_only_committed_witness:
  "\<exists>name r. record_load good_io name demo_appended = Some r \<and> ''bus_000001.json'' = json_name (pr_wake_id r) \<and> pr_claimed_run_id r = [] \<and>
    source_committed good_io r demo_appended \<and> run_claim_state good_io r demo_appended = CLAIM_NONE"
proof -
  have "envelope_at demo_appended ''bus_000001.json'' = None" by code_simp
  moreover have "map_of demo_published (Inbox ''bus_000001.json'') \<noteq> None"
    using publish_wake_delivers [OF demo_publish] by (simp add: demo_name)
  then have "envelope_at demo_published ''bus_000001.json'' \<noteq> None" by (auto simp: envelope_at_def)
  ultimately show ?thesis using outbox_publishes_only_committed [OF demo_reconcile, of "''bus_000001.json''"] by simp
qed

theorem outbox_pass_delivers_witness:
  "map_of demo_published (Inbox ''bus_000001.json'') \<noteq> None"
  using outbox_pass_delivers [OF demo_reconcile, of "''bus_000001.json''" demo_record] demo_load demo_source_exact demo_unclaimed demo_name
  by (simp add: demo_names) (simp add: demo_record_def)

section \<open>A run claims the wake\<close>

definition demo_bound :: disk where
  "demo_bound = snd (bind_record good_io ''bus_000001'' ''run_2'' demo_appended)"

definition demo_bound_text :: string where
  \<open>demo_bound_text = ''{"wake_id":"bus_000001","source_run_id":"run_1","source_event_id":"e1","source_type":"action_failed",'' @
     ''"source_payload":{"context_id":"c"},"channel":"work","wake_type":"work_result","wake_payload":{},"claimed_run_id":"run_2"}'' @ [CHR 0x0A]\<close>

lemma demo_bound_record: "record_serialize good_io (demo_record\<lparr>pr_claimed_run_id := ''run_2''\<rparr>) = Some demo_bound_text"
  by code_simp

lemma demo_bind: "bind_record good_io ''bus_000001'' ''run_2'' demo_appended = (0, AList.update (Outbox ''bus_000001.json'') demo_bound_text demo_appended)"
proof -
  have "json_name ''bus_000001'' = ''bus_000001.json''" by (simp add: json_name_def)
  moreover have "pr_claimed_run_id demo_record = []" "copy_into RT_SMALL ''run_2'' = ''run_2''" by (simp_all add: demo_record_def RT_SMALL_def)
  ultimately show ?thesis by (simp add: bind_record_def demo_load demo_bound_record fs_write_text_atomic_def)
qed

lemma demo_claim:
  "rt_publication_outbox_claim good_io ''bus_000001'' ''run_2'' \<lparr>ob_disk = demo_appended, ob_retry_pass = False\<rparr> =
     (0, \<lparr>ob_disk = demo_bound, ob_retry_pass = False\<rparr>)"
proof -
  have "safe_id ''run_2'' RT_SMALL" "outbox_path ''bus_000001'' \<noteq> None" "fs_file_exists (Outbox (json_name ''bus_000001'')) demo_appended"
    by (code_simp, code_simp, code_simp)
  then show ?thesis by (simp add: rt_publication_outbox_claim_def demo_bind demo_bound_def)
qed

theorem outbox_claim_exclusive_witness:
  "rt_publication_outbox_claim good_io ''bus_000001'' ''run_3'' \<lparr>ob_disk = demo_bound, ob_retry_pass = False\<rparr> =
     (- 1, \<lparr>ob_disk = demo_bound, ob_retry_pass = True\<rparr>)"
proof -
  have "safe_id ''run_3'' RT_SMALL" by code_simp
  moreover have "map_of demo_bound (Outbox (json_name ''bus_000001'')) = Some demo_bound_text"
    by (simp add: demo_bound_def demo_bind json_name_def)
  moreover have "length demo_bound_text \<le> 67108864" by (simp add: demo_bound_text_def)
  ultimately show ?thesis
    using outbox_claim_exclusive [OF demo_claim _ _ good_reads(1), of demo_bound_text "''run_3''"] by simp
qed

section \<open>The record of a run that is gone\<close>

lemma demo_bound_load: "record_load good_io ''bus_000001.json'' demo_bound = Some (demo_record\<lparr>pr_claimed_run_id := ''run_2''\<rparr>)"
proof -
  let ?r = "demo_record\<lparr>pr_claimed_run_id := ''run_2''\<rparr>"
  have "safe_id ''run_2'' RT_SMALL" by code_simp
  then have "record_ok ?r" using demo_record_ok by (simp add: record_ok_def)
  moreover have "length demo_bound_text \<le> 67108864" by (simp add: demo_bound_text_def)
  moreover have "json_name (pr_wake_id ?r) = ''bus_000001.json''" using demo_name by simp
  moreover have "map_of demo_bound (Outbox ''bus_000001.json'') = Some demo_bound_text" by (simp add: demo_bound_def demo_bind)
  ultimately show ?thesis using record_load_written [OF _ demo_bound_record _ good_reads(1), of demo_bound] by simp
qed

lemma demo_gone:
  "rt_publication_outbox_reconcile good_io demo_ledger_env \<lparr>ob_disk = demo_bound, ob_retry_pass = False\<rparr> =
     (0, \<lparr>ob_disk = AList.delete (Outbox ''bus_000001.json'') demo_bound, ob_retry_pass = False\<rparr>)"
proof -
  let ?r = "demo_record\<lparr>pr_claimed_run_id := ''run_2''\<rparr>"
  have b: "demo_bound = AList.update (Outbox ''bus_000001.json'') demo_bound_text demo_appended" by (simp add: demo_bound_def demo_bind)
  have "map_of demo_bound (Run_State ''run_2'') = None" by (simp add: b demo_appended_def demo_prepared_def)
  then have "run_claim_state good_io ?r demo_bound = CLAIM_TERMINAL"
    by (simp add: run_claim_state_def run_claim_state_bound_def read_run_control_def fs_read_def)
  moreover have "fs_unlink good_io (Outbox ''bus_000001.json'') demo_bound = (True, AList.delete (Outbox ''bus_000001.json'') demo_bound)"
    by (simp add: fs_unlink_def b)
  ultimately have "reconcile_record good_io demo_ledger_env ''bus_000001.json'' demo_bound =
      (False, AList.delete (Outbox ''bus_000001.json'') demo_bound)"
    by (simp add: reconcile_record_def demo_bound_load reconcile_source_def reconcile_claim_def)
  moreover have "outbox_names demo_bound = [''bus_000001.json'']" "reconcile_names demo_bound = [''bus_000001.json'']"
    unfolding b by (code_simp, code_simp)
  ultimately show ?thesis
    by (simp add: rt_publication_outbox_reconcile_def reconcile_pass_def good_reads PUBLICATION_NAME_MAX_def)
qed

theorem outbox_record_kept_until_served_witness:
  "\<exists>r. record_load good_io ''bus_000001.json'' demo_bound = Some r \<and> wake_served good_io r demo_bound"
  using outbox_record_kept_until_served [OF outbox_step.reconcile [OF demo_gone], of "''bus_000001.json''"]
  by (simp add: demo_bound_def demo_bind)

section \<open>The control state of a run\<close>

definition demo_run :: rt_run where
  "demo_run = zero_run\<lparr>rn_run_id := ''run_2'', rn_context_id := ''c'', rn_created_from_event_id := ''bus_000001'',
     rn_created_from_type := ''work_result'', rn_state := RT_RUN_DONE\<rparr>"

definition demo_run_disk :: disk where
  "demo_run_disk = snd (snd (rt_run_persist_state good_io demo_run []))"

lemma demo_persist: "\<exists>r'. rt_run_persist_state good_io demo_run [] = (0, r', demo_run_disk)"
proof -
  have "fst (rt_run_persist_state good_io demo_run []) = 0" by code_simp
  then show ?thesis unfolding demo_run_disk_def by (metis prod.collapse)
qed


end
