(* ===== verification/Reactor_Stop.thy ===== *)
theory Reactor_Stop
  imports Reactor_Laws
begin

text \<open>
  The loop of the reactor ends when it is asked to: each pass polls once and looks at the stop flag
  once. The number of polls that the environment still needs before the flag is up is a measure of
  the world that no callback and no reading of the clock increases.
\<close>

definition callback_keeps :: "('w \<Rightarrow> nat) \<Rightarrow> 'w module_ops \<Rightarrow> bool" where
  "callback_keeps \<mu> ops \<longleftrightarrow>
     (\<forall>f w. mo_init ops = Some f \<longrightarrow> \<mu> (snd (f w)) \<le> \<mu> w) \<and>
     (\<forall>f ps w. mo_collect_fds ops = Some f \<longrightarrow> \<mu> (snd (snd (f ps w))) \<le> \<mu> w) \<and>
     (\<forall>f fd ev tag w. mo_on_fd ops = Some f \<longrightarrow> \<mu> (snd (f fd ev tag w)) \<le> \<mu> w) \<and>
     (\<forall>f now w. mo_tick ops = Some f \<longrightarrow> \<mu> (snd (f now w)) \<le> \<mu> w) \<and>
     (\<forall>f now w. mo_next_deadline_ms ops = Some f \<longrightarrow> \<mu> (snd (f now w)) \<le> \<mu> w)"

definition polls_until_stop :: "'w environment \<Rightarrow> ('w \<Rightarrow> nat) \<Rightarrow> bool" where
  "polls_until_stop env \<mu> \<longleftrightarrow>
     (\<forall>m. callback_keeps \<mu> (en_ops env m)) \<and> (\<forall>w. \<mu> (snd (en_now_ms env w)) \<le> \<mu> w) \<and>
     (\<forall>es t w. \<mu> (snd (en_poll env es t w)) \<le> \<mu> w - 1) \<and> (\<forall>w. \<mu> w = 0 \<longrightarrow> en_stopped env w)"

lemma keeps_now: "polls_until_stop env \<mu> \<Longrightarrow> en_now_ms env w = (t, w') \<Longrightarrow> \<mu> w' \<le> \<mu> w"
  unfolding polls_until_stop_def by (metis snd_conv)

lemma keeps_callback:
  assumes "polls_until_stop env \<mu>"
  shows "mo_init (en_ops env m) = Some f1 \<Longrightarrow> f1 w = (rc, w') \<Longrightarrow> \<mu> w' \<le> \<mu> w"
    and "mo_collect_fds (en_ops env m) = Some f2 \<Longrightarrow> f2 ps w = (rc, ps', w') \<Longrightarrow> \<mu> w' \<le> \<mu> w"
    and "mo_on_fd (en_ops env m) = Some f3 \<Longrightarrow> f3 fd ev tag w = (rc, w') \<Longrightarrow> \<mu> w' \<le> \<mu> w"
    and "mo_tick (en_ops env m) = Some f4 \<Longrightarrow> f4 now w = (rc, w') \<Longrightarrow> \<mu> w' \<le> \<mu> w"
    and "mo_next_deadline_ms (en_ops env m) = Some f5 \<Longrightarrow> f5 now w = (dl, w') \<Longrightarrow> \<mu> w' \<le> \<mu> w"
  using assms unfolding polls_until_stop_def callback_keeps_def by (metis snd_conv)+

lemma init_keeps: "init_modules env ms w = (ok, w') \<Longrightarrow> polls_until_stop env \<mu> \<Longrightarrow> \<mu> w' \<le> \<mu> w"
proof (induction ms arbitrary: w)
  case (Cons m ms)
  show ?case
  proof (cases "mo_init (en_ops env m)")
    case (Some f)
    obtain rc w1 where f: "f w = (rc, w1)" by (metis prod.exhaust)
    note k = keeps_callback(1) [OF Cons.prems(2) Some f]
    show ?thesis using k Cons.prems(1) Some f Cons.IH [OF _ Cons.prems(2), of w1] by (auto split: if_splits)
  qed (use Cons in auto)
qed simp

lemma collect_keeps: "collect_all env i ms r ps w = (r', ps', w') \<Longrightarrow> polls_until_stop env \<mu> \<Longrightarrow> \<mu> w' \<le> \<mu> w"
proof (induction ms arbitrary: i r ps w)
  case (Cons m ms)
  show ?case
  proof (cases "mo_collect_fds (en_ops env m)")
    case (Some f)
    obtain rc ps1 w1 where f: "f ps w = (rc, ps1, w1)" by (metis prod.exhaust)
    note k = keeps_callback(2) [OF Cons.prems(2) Some f]
    obtain r1 where "collect_all env (Suc i) ms r1 ps1 w1 = (r', ps', w')" using Cons.prems(1) Some f by auto
    from Cons.IH [OF this Cons.prems(2)] k show ?thesis by (rule order_trans)
  qed (use Cons in auto)
qed simp

lemma deadline_keeps: "earliest_deadline env ms now e w = (e', w') \<Longrightarrow> polls_until_stop env \<mu> \<Longrightarrow> \<mu> w' \<le> \<mu> w"
proof (induction ms arbitrary: e w)
  case (Cons m ms)
  show ?case
  proof (cases "mo_next_deadline_ms (en_ops env m)")
    case (Some f)
    obtain dl w1 where f: "f now w = (dl, w1)" by (metis prod.exhaust)
    note k = keeps_callback(5) [OF Cons.prems(2) Some f]
    obtain e1 where "earliest_deadline env ms now e1 w1 = (e', w')" using Cons.prems(1) Some f by auto
    from Cons.IH [OF this Cons.prems(2)] k show ?thesis by (rule order_trans)
  qed (use Cons in auto)
qed simp

lemma dispatch_keeps: "dispatch env es r w = (r', w') \<Longrightarrow> polls_until_stop env \<mu> \<Longrightarrow> \<mu> w' \<le> \<mu> w"
proof (induction es arbitrary: r w)
  case (Cons x es)
  obtain pe ev where x: "x = (pe, ev)" by (cases x)
  show ?case
  proof (cases "ev = 0 \<or> mo_on_fd (en_ops env (pe_owner pe)) = None")
    case False
    then obtain f where o: "mo_on_fd (en_ops env (pe_owner pe)) = Some f" by blast
    obtain rc w1 where f: "f (pe_fd pe) ev (pe_tag pe) w = (rc, w1)" by (metis prod.exhaust)
    note k = keeps_callback(3) [OF Cons.prems(2) o f]
    obtain r1 where "dispatch env es r1 w1 = (r', w')" using Cons.prems(1) x o f False by auto
    from Cons.IH [OF this Cons.prems(2)] k show ?thesis by (rule order_trans)
  qed (use Cons x in \<open>auto split: if_splits\<close>)
qed simp

lemma tick_all_keeps: "tick_all env i ms now r w = (r', w') \<Longrightarrow> polls_until_stop env \<mu> \<Longrightarrow> \<mu> w' \<le> \<mu> w"
proof (induction ms arbitrary: i r w)
  case (Cons m ms)
  show ?case
  proof (cases "mo_tick (en_ops env m)")
    case (Some f)
    obtain t w1 rc w2 t' w3 where c: "en_now_ms env w = (t, w1)" "f now w1 = (rc, w2)" "en_now_ms env w2 = (t', w3)"
      by (metis prod.exhaust)
    obtain i' r1 where "tick_all env i' ms now r1 w3 = (r', w')" using Cons.prems(1) Some c by (auto simp: Let_def)
    then have "\<mu> w' \<le> \<mu> w3" using Cons.IH Cons.prems(2) by blast
    also have "\<mu> w3 \<le> \<mu> w2" using keeps_now [OF Cons.prems(2) c(3)] .
    also have "\<mu> w2 \<le> \<mu> w1" using keeps_callback(4) [OF Cons.prems(2) Some c(2)] .
    also have "\<mu> w1 \<le> \<mu> w" using keeps_now [OF Cons.prems(2) c(1)] .
    finally show ?thesis .
  qed (use Cons in auto)
qed simp

text \<open>One pass uses one poll.\<close>

lemma pass_decreases:
  assumes "reactor_pass env r w = Pass_Next r' w'" and "polls_until_stop env \<mu>"
  shows "\<mu> w' \<le> \<mu> w - 1"
proof -
  obtain r1 ps w1 where c: "collect_all env 0 (re_modules r) r \<lparr>ps_entries = [], ps_overflows = 0\<rparr> w = (r1, ps, w1)"
    by (metis prod.exhaust)
  let ?r2 = "note_overflows ps r1"
  obtain now w2 e w3 oc w4 where w: "en_now_ms env w1 = (now, w2)"
      "earliest_deadline env (re_modules ?r2) now (now + word_of_int (re_default_timeout_ms ?r2)) w2 = (e, w3)"
      "en_poll env (ps_entries ps) (poll_timeout (re_default_timeout_ms ?r2) now e) w3 = (oc, w4)"
    by (metis prod.exhaust)
  have "\<mu> w3 \<le> \<mu> w"
    using collect_keeps [OF c assms(2)] keeps_now [OF assms(2) w(1)] deadline_keeps [OF w(2) assms(2)] by linarith
  moreover have "\<mu> w' \<le> \<mu> w4"
  proof (cases oc)
    case (Poll_Ready evs)
    let ?r3 = "?r2\<lparr>re_total_polls := re_total_polls ?r2 + 1\<rparr>"
    obtain r4 w5 t w6 r5 w7 where d: "dispatch env (zip (ps_entries ps) evs) ?r3 w4 = (r4, w5)"
        "en_now_ms env w5 = (t, w6)" "tick_all env 0 (re_modules r4) t r4 w6 = (r5, w7)"
      by (metis prod.exhaust)
    then have "w' = w7" using assms(1) c w Poll_Ready by (simp add: reactor_pass_def Let_def)
    then show ?thesis using dispatch_keeps [OF d(1) assms(2)] keeps_now [OF assms(2) d(2)] tick_all_keeps [OF d(3) assms(2)]
      by simp
  qed (use assms(1) c w in \<open>simp_all add: reactor_pass_def Let_def\<close>)
  moreover have "\<mu> w4 \<le> \<mu> w3 - 1" using assms(2) w(3) unfolding polls_until_stop_def by (metis snd_conv)
  ultimately show ?thesis by linarith
qed

lemma loop_stops: "polls_until_stop env \<mu> \<Longrightarrow> \<mu> w \<le> fuel \<Longrightarrow> \<exists>r' w'. reactor_loop fuel env r w = Some (r', w')"
proof (induction fuel arbitrary: r w)
  case 0
  then show ?case by (auto simp: polls_until_stop_def)
next
  case (Suc fuel)
  show ?case
  proof (cases "reactor_pass env r w")
    case (Pass_Next r' w')
    then have "\<mu> w' \<le> fuel" using pass_decreases [OF Pass_Next Suc.prems(1)] Suc.prems(2) by linarith
    then show ?thesis using Suc.IH [OF Suc.prems(1)] Pass_Next by simp
  qed simp
qed

text \<open>
  C15. The reactor stops when it is told to. When the stop flag is up after at most \<open>n\<close> more polls,
  whatever the callbacks, the clock and \<open>poll\<close> do besides, the run returns after at most \<open>n\<close> passes,
  with result 0 or, when a module could not be started, with -1.
\<close>

theorem reactor_run_stops:
  assumes "polls_until_stop env \<mu>" and "\<mu> w \<le> n"
  shows "\<exists>rc r' w'. fc_reactor_run n env timeout r w = Some (rc, r', w') \<and> rc \<in> {0, - 1}"
proof -
  let ?r1 = "if timeout > 0 then r\<lparr>re_default_timeout_ms := timeout\<rparr> else r"
  obtain ok w1 where i: "init_modules env (re_modules ?r1) w = (ok, w1)" by (metis prod.exhaust)
  then have "\<mu> w1 \<le> n" using init_keeps [OF i assms(1)] assms(2) by linarith
  then obtain r' w' where "reactor_loop n env ?r1 w1 = Some (r', w')" using loop_stops [OF assms(1)] by blast
  then show ?thesis using i by (cases ok) (simp_all add: fc_reactor_run_def Let_def)
qed

text \<open>A world that counts down with each poll, and the noop module, whose tick changes its own counter only.\<close>

definition countdown_env :: "(nat \<times> noop_state) environment" where
  "countdown_env = \<lparr>en_ops = (\<lambda>_. \<lparr>mo_init = None, mo_collect_fds = None, mo_on_fd = None,
       mo_tick = Some (\<lambda>now (n, s). case noop_tick now s of (rc, s') \<Rightarrow> (rc, n, s')), mo_shutdown = None,
       mo_next_deadline_ms = None\<rparr>),
     en_now_ms = (\<lambda>w. (1000, w)), en_poll = (\<lambda>es t (n, s). (Poll_Ready [], n - 1, s)), en_stopped = (\<lambda>(n, s). n = 0)\<rparr>"

theorem reactor_run_stops_witness:
  "\<exists>rc r' w'. fc_reactor_run 3 countdown_env 5 (snd (fc_reactor_register fc_reactor_init 7))
     (3, \<lparr>ns_tick_count = 0, ns_last_tick_ms = 0\<rparr>) = Some (rc, r', w') \<and> rc \<in> {0, - 1}"
proof (rule reactor_run_stops)
  show "polls_until_stop countdown_env fst"
    by (auto simp: polls_until_stop_def callback_keeps_def countdown_env_def noop_tick_def)
qed simp

end
