(* ===== verification/Action_Queue.thy ===== *)
theory Action_Queue
  imports Run_State
begin

unbundle bit_operations_syntax

text \<open>
  The queue of pending actions of a run, from \<open>runtime/action_runner.c\<close>: what an action request
  enters, how repeated requests are recognised, and how a terminal retires an entry. Of
  \<open>rt_action_emit_terminal\<close> and \<open>rt_action_emit_rejected\<close> (\<open>runtime/action_events.c\<close>) the effect on
  the run is modelled; whether the event was committed is an answer of the environment.
\<close>

definition RT_MAX_PENDING_ACTIONS :: nat where
  "RT_MAX_PENDING_ACTIONS = 16"

definition RT_MAX_COMPLETED_ACTIONS :: nat where
  "RT_MAX_COMPLETED_ACTIONS = 32"

text \<open>
  Whether the texts of an entry that is bound to work can be prepared, whether the terminal event of
  a request is committed, the type of the recorded outcome of an earlier request, and whether an
  allocation succeeds.
\<close>

record queue_env =
  qe_prepared :: "string \<Rightarrow> bool"
  qe_committed :: "string \<Rightarrow> bool"
  qe_outcome :: "string \<Rightarrow> string option"
  qe_malloc_ok :: "nat \<Rightarrow> bool"

section \<open>Lookups\<close>

definition rt_action_runner_pending_index :: "rt_run \<Rightarrow> string \<Rightarrow> nat option" where
  "rt_action_runner_pending_index r rid = find_index (\<lambda>p. pa_request_id p = rid) (rn_pending_actions r)"

definition rt_action_pending_remove_at :: "nat \<Rightarrow> rt_run \<Rightarrow> rt_run" where
  "rt_action_pending_remove_at i r =
     (if i \<ge> length (rn_pending_actions r) then r else r\<lparr>rn_pending_actions := remove_nth i (rn_pending_actions r)\<rparr>)"

definition rt_action_terminal_index_of :: "rt_run \<Rightarrow> string \<Rightarrow> nat option" where
  "rt_action_terminal_index_of r rid = (if rid = [] then None else find_index (\<lambda>x. x = rid) (rn_completed_action_ids r))"

definition rt_action_completed_sig_index_of :: "rt_run \<Rightarrow> string \<Rightarrow> nat option" where
  "rt_action_completed_sig_index_of r sig =
     (if sig = [] then None else find_index (\<lambda>(s, _). s = sig) (rn_completed_action_sigs r))"

definition rt_action_pending_sig_index_of :: "rt_run \<Rightarrow> string \<Rightarrow> nat option" where
  "rt_action_pending_sig_index_of r sig =
     (if sig = [] then None else find_index (\<lambda>p. pa_sig p = sig) (rn_pending_actions r))"

section \<open>Signatures\<close>

definition sig_hash_add :: "64 word \<Rightarrow> string \<Rightarrow> 64 word" where
  "sig_hash_add h s = foldl (\<lambda>h c. (h XOR of_nat (byte c)) * 1099511628211) h s"

text \<open>\<open>%016llx\<close>\<close>

definition sig_hex_digit :: "nat \<Rightarrow> char" where
  "sig_hex_digit n = (if n < 10 then char_of (48 + n) else char_of (87 + n))"

definition show_hex16 :: "64 word \<Rightarrow> string" where
  "show_hex16 h = map (\<lambda>i. sig_hex_digit (unat (drop_bit (60 - 4 * i) h AND 15))) [0..<16]"

definition signature_hash :: "string \<Rightarrow> string \<Rightarrow> string \<Rightarrow> string \<Rightarrow> int \<Rightarrow> 64 word" where
  "signature_hash source action args task_id work_rev =
     sig_hash_add 1469598103934665603
       (source @ [CHR 0x1F] @ action @ [CHR 0x1F] @ (if args = [] then ''{}'' else args) @ [CHR 0x1F] @ task_id @ [CHR 0x1F] @
        show_int work_rev)"

definition rt_action_signature :: "nat \<Rightarrow> string \<Rightarrow> string \<Rightarrow> string \<Rightarrow> string \<Rightarrow> int \<Rightarrow> string" where
  "rt_action_signature out_len source action args task_id work_rev =
     copy_into out_len (source @ '':'' @ action @ '':'' @ show_hex16 (signature_hash source action args task_id work_rev))"

section \<open>Bookkeeping\<close>

definition rt_action_completed_sig_add :: "string \<Rightarrow> string \<Rightarrow> rt_run \<Rightarrow> rt_run" where
  "rt_action_completed_sig_add sig rid r =
     (if sig = [] \<or> rt_action_completed_sig_index_of r sig \<noteq> None \<or>
         length (rn_completed_action_sigs r) \<ge> RT_MAX_COMPLETED_ACTIONS then r
      else r\<lparr>rn_completed_action_sigs := rn_completed_action_sigs r @ [(copy_into RT_MED sig, copy_into RT_SMALL rid)]\<rparr>)"

definition rt_action_completed_sig_rid :: "rt_run \<Rightarrow> string \<Rightarrow> string option" where
  "rt_action_completed_sig_rid r sig =
     (case rt_action_completed_sig_index_of r sig of
        None \<Rightarrow> None
      | Some i \<Rightarrow> let rid = snd (rn_completed_action_sigs r ! i) in if rid = [] then None else Some rid)"

definition rt_action_terminal_add :: "string \<Rightarrow> rt_run \<Rightarrow> rt_run" where
  "rt_action_terminal_add rid r =
     (if rid = [] \<or> rt_action_terminal_index_of r rid \<noteq> None \<or> length (rn_completed_action_ids r) \<ge> RT_MAX_COMPLETED_ACTIONS then r
      else r\<lparr>rn_completed_action_ids := rn_completed_action_ids r @ [copy_into RT_SMALL rid]\<rparr>)"

definition rt_action_runner_note_terminal :: "string \<Rightarrow> rt_run \<Rightarrow> rt_run" where
  "rt_action_runner_note_terminal rid r =
     (let r1 = rt_action_terminal_add rid r in
      case rt_action_runner_pending_index r rid of
        None \<Rightarrow> r1
      | Some i \<Rightarrow>
          let p = rn_pending_actions r1 ! i in
          rt_action_pending_remove_at i
            (if pa_sig p \<noteq> [] then rt_action_completed_sig_add (pa_sig p) (pa_request_id p) r1 else r1))"

definition rt_action_runner_note_trigger :: "string \<Rightarrow> string \<Rightarrow> rt_run \<Rightarrow> rt_run" where
  "rt_action_runner_note_trigger rid trigger_event_id r =
     (case rt_action_runner_pending_index r rid of
        None \<Rightarrow> r
      | Some i \<Rightarrow>
          if trigger_event_id = [] then r
          else r\<lparr>rn_pending_actions := (rn_pending_actions r)[i := (rn_pending_actions r ! i)\<lparr>pa_trigger_event_id := copy_into RT_SMALL trigger_event_id\<rparr>]\<rparr>)"

definition rt_action_runner_note_started :: "string \<Rightarrow> rt_run \<Rightarrow> rt_run" where
  "rt_action_runner_note_started rid r =
     (case rt_action_runner_pending_index r rid of
        None \<Rightarrow> r
      | Some i \<Rightarrow> r\<lparr>rn_pending_actions := (rn_pending_actions r)[i := (rn_pending_actions r ! i)\<lparr>pa_started := True\<rparr>]\<rparr>)"

section \<open>Terminals\<close>

definition bound_to_work :: "rt_run \<Rightarrow> string \<Rightarrow> bool" where
  "bound_to_work r rid \<longleftrightarrow>
     (case rt_action_runner_pending_index r rid of None \<Rightarrow> False | Some i \<Rightarrow> pa_trigger_event_id (rn_pending_actions r ! i) \<noteq> [])"

definition rt_action_emit_terminal :: "queue_env \<Rightarrow> string \<Rightarrow> string \<Rightarrow> string \<Rightarrow> string \<Rightarrow> rt_run \<Rightarrow> int \<times> rt_run" where
  "rt_action_emit_terminal qe type rid action task_id r =
     (if bound_to_work r rid \<and> \<not> qe_prepared qe rid then (- 1, r)
      else
      let r1 = (if action = ''message'' \<and> type = ''action_succeeded'' then r\<lparr>rn_advance_delivered_message := True\<rparr> else r) in
      if \<not> qe_committed qe rid then (- 1, r1)
      else
        (let r2 = (if task_id \<noteq> [] \<and> action \<noteq> ''message'' \<and> action \<noteq> ''working_memory_append''
                   then r1\<lparr>rn_advance_work_progress := True\<rparr> else r1)
         in (0, rt_action_runner_note_terminal rid r2)))"

definition rt_action_emit_rejected :: "queue_env \<Rightarrow> string \<Rightarrow> string \<Rightarrow> string \<Rightarrow> string \<Rightarrow> rt_run \<Rightarrow> int \<times> rt_run" where
  "rt_action_emit_rejected qe rid action task_id effect_sig r =
     (if bound_to_work r rid \<and> \<not> qe_prepared qe rid \<or> \<not> qe_committed qe rid then (- 1, r)
      else
        (let r1 = (if task_id \<noteq> [] \<and> action \<noteq> ''message'' \<and>
                      (effect_sig = [] \<or> rt_action_completed_sig_index_of r effect_sig = None)
                   then r\<lparr>rn_advance_work_progress := True\<rparr> else r)
         in (0, rt_action_runner_note_terminal rid r1)))"

section \<open>Requests\<close>

text \<open>The result of a rejection as \<open>rt_action_runner_note_request\<close> returns it.\<close>

definition reject_request :: "queue_env \<Rightarrow> string \<Rightarrow> string \<Rightarrow> string \<Rightarrow> string \<Rightarrow> rt_run \<Rightarrow> int \<times> rt_run" where
  "reject_request qe rid action task_id sig r =
     (case rt_action_emit_rejected qe rid action task_id sig r of (rc, r1) \<Rightarrow> (if rc = 0 then 0 else - 1, r1))"

text \<open>An equivalent call has an outcome: it is emitted again for the new request.\<close>

definition memoize_request :: "queue_env \<Rightarrow> string \<Rightarrow> string \<Rightarrow> string \<Rightarrow> string \<Rightarrow> rt_run \<Rightarrow> int \<times> rt_run" where
  "memoize_request qe rid action task_id sig r =
     (case rt_action_completed_sig_rid r sig of
        None \<Rightarrow> reject_request qe rid action task_id sig r
      | Some prior \<Rightarrow>
          (case qe_outcome qe prior of
             None \<Rightarrow> reject_request qe rid action task_id sig r
           | Some mtype \<Rightarrow>
               (case rt_action_emit_terminal qe mtype rid action task_id r of
                  (rc, r1) \<Rightarrow>
                    if rc \<noteq> 0 then (- 1, r1) else (2, r1\<lparr>rn_advance_work_progress := rn_advance_work_progress r\<rparr>))))"

definition queue_entry :: "string \<Rightarrow> string \<Rightarrow> string \<Rightarrow> string \<Rightarrow> string \<Rightarrow> int \<Rightarrow> string \<Rightarrow> pending_action" where
  "queue_entry source_agent rid action args task_id work_rev sig =
     \<lparr>pa_request_id = copy_into RT_SMALL rid, pa_source_agent = copy_into RT_SMALL source_agent, pa_action = copy_into RT_SMALL action,
      pa_args_json = (if args \<noteq> [] \<and> args \<noteq> ''{}'' then Some args else None), pa_sig = copy_into RT_MED sig,
      pa_task_id = copy_into RT_SMALL task_id, pa_work_rev = work_rev, pa_trigger_event_id = [], pa_started = False,
      pa_op_id = [], pa_op_token = []\<rparr>"

text \<open>1: queued; 2: answered with the earlier outcome; 0: not queued; \<open>- 1\<close>: an error.\<close>

definition rt_action_runner_note_request ::
  "queue_env \<Rightarrow> string \<Rightarrow> string \<Rightarrow> string \<Rightarrow> string \<Rightarrow> string \<Rightarrow> int \<Rightarrow> rt_run \<Rightarrow> int \<times> rt_run" where
  "rt_action_runner_note_request qe source_agent rid action args task_id work_rev r =
     (if rid = [] then (0, r)
      else
        (let sig = rt_action_signature RT_MED source_agent action args task_id work_rev in
         if rt_action_runner_pending_index r rid \<noteq> None then (0, r)
         else if rt_action_terminal_index_of r rid \<noteq> None then reject_request qe rid action task_id sig r
         else if sig \<noteq> [] \<and> rt_action_pending_sig_index_of r sig \<noteq> None then reject_request qe rid action task_id sig r
         else if sig \<noteq> [] \<and> rt_action_completed_sig_index_of r sig \<noteq> None then memoize_request qe rid action task_id sig r
         else if length (rn_pending_actions r) \<ge> RT_MAX_PENDING_ACTIONS then (0, r)
         else if args \<noteq> [] \<and> args \<noteq> ''{}'' \<and> \<not> qe_malloc_ok qe (length args + 1) then (- 1, r)
         else (1, r\<lparr>rn_pending_actions := rn_pending_actions r @ [queue_entry source_agent rid action args task_id work_rev sig]\<rparr>)))"

text \<open>The first entry that is not started: request, action and arguments.\<close>

definition rt_action_runner_peek_next :: "rt_run \<Rightarrow> nat \<Rightarrow> nat \<Rightarrow> nat \<Rightarrow> (string \<times> string \<times> string) option" where
  "rt_action_runner_peek_next r rid_len action_len args_len =
     (case find (\<lambda>p. \<not> pa_started p) (rn_pending_actions r) of
        None \<Rightarrow> None
      | Some p \<Rightarrow>
          Some (copy_into rid_len (pa_request_id p), copy_into action_len (pa_action p),
            copy_into args_len (case pa_args_json p of Some a \<Rightarrow> if a \<noteq> [] then a else ''{}'' | None \<Rightarrow> ''{}'')))"

end
