(* ===== verification/Run_Step.thy ===== *)
theory Run_Step
  imports Action_Queue Jobrunner
begin

text \<open>
  The state machine of one run, \<open>runtime/run.c\<close>: output events, lifecycle events, waiting, the gates
  of a step, draining pending actions and one step of the profile.

  The event log, the task state, the agents and the actions are other modules: what they answer and
  do is a member of \<open>run_env\<close>. A module acts on the run it is given and on the kernel (disk, job
  runner, operating system, the retry flag of the outbox and the rest of the workspace). The committed lifecycle events, which
  only this file writes, and the identities given to runs are kept in the kernel as lists. Trace lines, narration and error events
  are left out: nothing here depends on them.
\<close>

section \<open>The kernel and the other modules\<close>

definition RT_MAX_PROFILE_PASSES :: "32 word" where
  "RT_MAX_PROFILE_PASSES = 32"

datatype step_result =
    RT_STEP_ADVANCED | RT_STEP_WAITING_JOB | RT_STEP_WAITING_ACTION_SLOT | RT_STEP_DONE | RT_STEP_FAILED

text \<open>A committed lifecycle event: the run, the type and the reason.\<close>

record lifecycle_event =
  le_run_id :: string
  le_type :: string
  le_reason :: string

record 'w kernel =
  kn_disk :: disk
  kn_runner :: rt_jobrunner
  kn_os :: jos
  kn_lifecycle :: "lifecycle_event list"
  kn_outbox_retry :: bool
  kn_created :: "string list"
  kn_rest :: 'w

record 'w run_env =
  ve_io :: io_env
  ve_queue :: queue_env
  ve_append_ok :: "rt_run \<Rightarrow> string \<Rightarrow> 'w kernel \<Rightarrow> bool"
  ve_terminalize_tasks :: "rt_run \<Rightarrow> string \<Rightarrow> 'w kernel \<Rightarrow> 'w kernel"
  ve_snapshot :: "rt_run \<Rightarrow> 'w kernel \<Rightarrow> int \<times> 'w kernel"
  ve_task_event_type :: "string \<Rightarrow> bool"
  ve_select_work_consequence :: "rt_run \<Rightarrow> 'w kernel \<Rightarrow> int"
  ve_outcome_matches :: "rt_run \<Rightarrow> 'w kernel \<Rightarrow> int"
  ve_has_actionable :: "string \<Rightarrow> 'w kernel \<Rightarrow> bool"
  ve_agent_start :: "rt_step \<Rightarrow> rt_run \<Rightarrow> 'w kernel \<Rightarrow> int \<times> rt_run \<times> 'w kernel"
  ve_action_launch :: "string \<Rightarrow> string \<Rightarrow> string \<Rightarrow> rt_run \<Rightarrow> 'w kernel \<Rightarrow> int \<times> rt_run \<times> 'w kernel"
  ve_request_compaction :: "rt_step \<Rightarrow> rt_run \<Rightarrow> 'w kernel \<Rightarrow> int \<times> rt_run \<times> 'w kernel"

text \<open>The writes of \<open>Run_State\<close> on the disk of the kernel; their results are not looked at.\<close>

definition on_disk :: "(rt_run \<Rightarrow> disk \<Rightarrow> rt_run \<times> disk) \<Rightarrow> rt_run \<Rightarrow> 'w kernel \<Rightarrow> rt_run \<times> 'w kernel" where
  "on_disk f r k = (case f r (kn_disk k) of (r', d) \<Rightarrow> (r', k\<lparr>kn_disk := d\<rparr>))"

definition set_run_state :: "'w run_env \<Rightarrow> run_state \<Rightarrow> rt_run \<Rightarrow> 'w kernel \<Rightarrow> rt_run \<times> 'w kernel" where
  "set_run_state env s r k = on_disk (rt_run_set_state (ve_io env) s) r k"

section \<open>Jobs\<close>

definition rt_run_start_tracked_job ::
  "'w run_env \<Rightarrow> launch_args \<Rightarrow> launch_os \<Rightarrow> rt_run \<Rightarrow> 'w kernel \<Rightarrow> int \<times> rt_run \<times> 'w kernel" where
  "rt_run_start_tracked_job env spec lo r k =
     (case rt_jobrunner_launch (kn_runner k) (spec\<lparr>la_stdout_cap := 0, la_stderr_cap := 0\<rparr>) lo (kn_os k) of
        (rc, runner, os) \<Rightarrow>
          let k1 = k\<lparr>kn_runner := runner, kn_os := os\<rparr> in
          if rc \<noteq> 0 then (- 1, r, k1)
          else (0, on_disk (rt_run_waiting_job_add (ve_io env) (jb_job_id (hd (jr_jobs runner)))) r k1))"

section \<open>Accounting\<close>

definition advance_flags_reset :: "rt_run \<Rightarrow> rt_run" where
  "advance_flags_reset r = r\<lparr>rn_advance_started_job := False, rn_advance_delivered_message := False,
     rn_advance_state_changed := False, rn_advance_work_progress := False\<rparr>"

definition rt_run_set_phase_index :: "'w run_env \<Rightarrow> nat \<Rightarrow> rt_run \<Rightarrow> 'w kernel \<Rightarrow> rt_run \<times> 'w kernel" where
  "rt_run_set_phase_index env i r k = on_disk (\<lambda>r d. snd (rt_run_persist_state (ve_io env) r d)) (r\<lparr>rn_phase_index := i\<rparr>) k"

definition rt_run_advance_phase :: "'w run_env \<Rightarrow> rt_run \<Rightarrow> 'w kernel \<Rightarrow> rt_run \<times> 'w kernel" where
  "rt_run_advance_phase env r k = rt_run_set_phase_index env (rn_phase_index r + 1) r k"

definition event_type_changes_state :: "'w run_env \<Rightarrow> string \<Rightarrow> bool" where
  "event_type_changes_state env type \<longleftrightarrow>
     type \<in> {''user'', ''asst'', ''fact'', ''summ'', ''memory_compacted''} \<or> ve_task_event_type env type"

text \<open>The request in the payload of an \<open>action_request\<close>.\<close>

definition apply_action_request_event :: "'w run_env \<Rightarrow> string \<Rightarrow> json_ref \<Rightarrow> rt_run \<Rightarrow> rt_run" where
  "apply_action_request_event env source_agent payload r =
     (let rid = get_string_or_empty payload ''request_id'' RT_SMALL;
          action = get_string_or_empty payload ''action'' RT_SMALL;
          task_id = get_string_or_empty payload ''task_id'' RT_SMALL;
          work_rev = get_long_or 0 payload ''work_rev'';
          trigger_event_id = get_string_or_empty payload ''trigger_event_id'' RT_SMALL;
          args = (case json_ref_object_get payload ''args'' of
                    None \<Rightarrow> ''{}''
                  | Some args_ref \<Rightarrow>
                      (case json_ref_value_compact_dup (qe_malloc_ok (ve_queue env)) args_ref of None \<Rightarrow> ''{}'' | Some a \<Rightarrow> a))
      in case rt_action_runner_note_request (ve_queue env) source_agent rid action args task_id work_rev r of
           (nr, r1) \<Rightarrow>
             if nr \<noteq> 1 then r1
             else
               (let r2 = rt_action_runner_note_trigger rid trigger_event_id r1 in
                if task_id \<noteq> [] \<and> action \<noteq> ''message'' then r2\<lparr>rn_advance_work_progress := True\<rparr> else r2))"

definition apply_output_event :: "'w run_env \<Rightarrow> string \<Rightarrow> json_ref \<Rightarrow> rt_run \<Rightarrow> rt_run" where
  "apply_output_event env source_agent ev r =
     (case get_string ev ''type'' RT_SMALL of
        None \<Rightarrow> r
      | Some type \<Rightarrow>
          let r1 = (if event_type_changes_state env type then r\<lparr>rn_advance_state_changed := True\<rparr> else r) in
          if ve_task_event_type env type then r1\<lparr>rn_advance_work_progress := True\<rparr>
          else if type \<noteq> ''action_request'' then r1
          else
            (case json_ref_object_get_object ev ''payload'' of
               None \<Rightarrow> r1
             | Some payload \<Rightarrow> apply_action_request_event env source_agent payload r1))"

fun apply_output_loop :: "'w run_env \<Rightarrow> string \<Rightarrow> json_ref \<Rightarrow> nat list \<Rightarrow> rt_run \<Rightarrow> rt_run" where
  "apply_output_loop env source_agent events [] r = r"
| "apply_output_loop env source_agent events (i # is) r =
     apply_output_loop env source_agent events is
       (case json_ref_array_get events i of None \<Rightarrow> r | Some ev \<Rightarrow> apply_output_event env source_agent ev r)"

definition rt_run_apply_output_events :: "'w run_env \<Rightarrow> string \<Rightarrow> string \<Rightarrow> rt_run \<Rightarrow> rt_run" where
  "rt_run_apply_output_events env source_agent output_json r =
     (case json_ref_first_object output_json of
        None \<Rightarrow> r
      | Some root \<Rightarrow>
          (case json_ref_object_get_array root ''events'' of
             None \<Rightarrow> r
           | Some events \<Rightarrow> apply_output_loop env source_agent events [0..<json_ref_array_size events] r))"

section \<open>Lifecycle\<close>

definition emit_lifecycle :: "'w run_env \<Rightarrow> string \<Rightarrow> string \<Rightarrow> rt_run \<Rightarrow> 'w kernel \<Rightarrow> int \<times> 'w kernel" where
  "emit_lifecycle env type reason r k =
     (if ve_append_ok env r type k
      then (0, k\<lparr>kn_lifecycle := kn_lifecycle k @ [\<lparr>le_run_id = rn_run_id r, le_type = type, le_reason = reason\<rparr>]\<rparr>)
      else (- 1, k))"

definition apply_run_terminal_event ::
  "'w run_env \<Rightarrow> string \<Rightarrow> string \<Rightarrow> run_state \<Rightarrow> rt_run \<Rightarrow> 'w kernel \<Rightarrow> rt_run \<times> 'w kernel" where
  "apply_run_terminal_event env type reason final_state r k =
     (if rn_lifecycle_terminal_emitted r then (r, k)
      else
        (let r1 = (if final_state = RT_RUN_FAILED \<and> rn_last_error_code r = []
                   then rt_run_set_error (if reason \<noteq> [] then reason else ''run_failed'') (if reason \<noteq> [] then reason else ''run failed'') [] r
                   else r);
             k1 = (if type = ''run_failed'' then ve_terminalize_tasks env r1 ''task_failed'' k
                   else if type = ''run_canceled'' then ve_terminalize_tasks env r1 ''task_canceled'' k else k)
         in case emit_lifecycle env type reason r1 k1 of
              (rc, k2) \<Rightarrow>
                if rc \<noteq> 0 then
                  set_run_state env RT_RUN_FAILED
                    ((rt_run_set_error ''terminal_event_sync_failed'' ''terminal event append/fsync failed'' [] r1)
                       \<lparr>rn_lifecycle_terminal_emitted := True\<rparr>) k2
                else set_run_state env final_state (r1\<lparr>rn_lifecycle_terminal_emitted := True\<rparr>) k2))"

definition rt_run_finish :: "'w run_env \<Rightarrow> rt_run \<Rightarrow> 'w kernel \<Rightarrow> rt_run \<times> 'w kernel" where
  "rt_run_finish env r k = apply_run_terminal_event env ''run_done'' [] RT_RUN_DONE r k"

definition rt_run_fail :: "'w run_env \<Rightarrow> string \<Rightarrow> rt_run \<Rightarrow> 'w kernel \<Rightarrow> rt_run \<times> 'w kernel" where
  "rt_run_fail env why r k = apply_run_terminal_event env ''run_failed'' why RT_RUN_FAILED r k"

definition rt_run_cancel :: "'w run_env \<Rightarrow> string \<Rightarrow> rt_run \<Rightarrow> 'w kernel \<Rightarrow> rt_run \<times> 'w kernel" where
  "rt_run_cancel env why r k = apply_run_terminal_event env ''run_canceled'' why RT_RUN_FAILED r k"

definition rt_run_find_step_by_id :: "rt_profile option \<Rightarrow> string \<Rightarrow> rt_step option" where
  "rt_run_find_step_by_id p sid =
     (case p of None \<Rightarrow> None | Some p \<Rightarrow> if sid = [] then None else find (\<lambda>s. sp_id s = sid) (pf_steps p))"

section \<open>Waiting\<close>

definition rt_run_wait_clear :: "rt_run \<Rightarrow> rt_run" where
  "rt_run_wait_clear r = r\<lparr>rn_wait_reason := RT_WAIT_REASON_NONE, rn_wait_step_id := [], rn_wait_request_id := [], rn_wait_action := []\<rparr>"

definition rt_run_wait_for_agent :: "'w run_env \<Rightarrow> string \<Rightarrow> rt_run \<Rightarrow> 'w kernel \<Rightarrow> rt_run \<times> 'w kernel" where
  "rt_run_wait_for_agent env step_id r k =
     (case set_run_state env RT_RUN_WAITING_JOBS r k of
        (r1, k1) \<Rightarrow> (r1\<lparr>rn_wait_reason := RT_WAIT_REASON_AGENT_JOB, rn_wait_step_id := copy_into RT_SMALL step_id,
           rn_wait_request_id := [], rn_wait_action := []\<rparr>, k1))"

definition rt_run_wait_for_action_job :: "'w run_env \<Rightarrow> string \<Rightarrow> string \<Rightarrow> rt_run \<Rightarrow> 'w kernel \<Rightarrow> rt_run \<times> 'w kernel" where
  "rt_run_wait_for_action_job env rid action r k =
     (case set_run_state env RT_RUN_WAITING_JOBS r k of
        (r1, k1) \<Rightarrow> (r1\<lparr>rn_wait_reason := RT_WAIT_REASON_ACTION_JOB, rn_wait_request_id := copy_into RT_SMALL rid,
           rn_wait_action := copy_into RT_SMALL action, rn_wait_step_id := []\<rparr>, k1))"

definition rt_run_wait_for_action_slot :: "'w run_env \<Rightarrow> string \<Rightarrow> string \<Rightarrow> rt_run \<Rightarrow> 'w kernel \<Rightarrow> rt_run \<times> 'w kernel" where
  "rt_run_wait_for_action_slot env rid action r k =
     (case set_run_state env RT_RUN_WAITING_ACTION_SLOT r k of
        (r1, k1) \<Rightarrow> (r1\<lparr>rn_wait_reason := RT_WAIT_REASON_ACTION_SLOT, rn_wait_request_id := copy_into RT_SMALL rid,
           rn_wait_action := copy_into RT_SMALL action, rn_wait_step_id := []\<rparr>, k1))"

section \<open>Gates\<close>

definition affair_extraction_needed :: "rt_run \<Rightarrow> bool" where
  "affair_extraction_needed r \<longleftrightarrow> rn_inbound_affair_id r = []"

text \<open>The comma-separated kinds, compared one after the other.\<close>

function kind_in_list :: "string \<Rightarrow> string \<Rightarrow> bool" where
  "kind_in_list kind p =
     (if p = [] then False
      else
        (let item = takeWhile (\<lambda>c. c \<noteq> CHR '','') p in
         if item = kind then True
         else if length item = length p then False
         else kind_in_list kind (drop (length item + 1) p)))"
  by pat_completeness auto
termination by (relation "measure (\<lambda>(kind, p). length p)") auto

definition event_kind_gate_matches :: "rt_run \<Rightarrow> string \<Rightarrow> bool" where
  "event_kind_gate_matches r kinds \<longleftrightarrow> rn_event_kind r \<noteq> [] \<and> kind_in_list (rn_event_kind r) kinds"

text \<open>Why a step is skipped; \<open>None\<close> when its gate is open.\<close>

definition step_gate_skip_reason :: "'w run_env \<Rightarrow> rt_run \<Rightarrow> rt_step \<Rightarrow> 'w kernel \<Rightarrow> string option" where
  "step_gate_skip_reason env r step k =
     (let gate = sp_gate step in
      if gate = [] \<or> gate = ''always'' then None
      else if take 11 gate = ''event_kind:'' then
        (if event_kind_gate_matches r (drop 11 gate) then None else Some ''event_kind_mismatch'')
      else if gate = ''work_consequence'' then
        (let selected = ve_select_work_consequence env r k in
         if selected = 0 then None
         else if selected = 1 then Some ''no_work_consequence''
         else if selected = 2 then Some ''multiple_work_consequences''
         else if selected = 3 then Some ''stale_work_revision''
         else if selected = 4 then Some ''uncorrelated_work_result''
         else if selected = 5 then Some ''work_consequence_consumed''
         else Some ''work_consequence_lookup_failed'')
      else if gate = ''terminal_work_outcome'' then
        (let matched = ve_outcome_matches env r k in
         if matched = 1 then None else if matched = 0 then Some ''uncorrelated_work_outcome'' else Some ''work_outcome_lookup_failed'')
      else if gate = ''after_message_result'' then (if rn_advance_delivered_message r then None else Some ''config_noop'')
      else if gate = ''memory_compaction_due'' then (if rn_memory_compaction_due r then None else Some ''memory_compaction_not_due'')
      else if gate = ''affair_extraction_maybe_needed'' then
        (if affair_extraction_needed r then None else Some ''affair_extraction_not_needed'')
      else Some ''config_noop'')"

definition step_gate_allows :: "'w run_env \<Rightarrow> rt_run \<Rightarrow> rt_step \<Rightarrow> 'w kernel \<Rightarrow> bool" where
  "step_gate_allows env r step k \<longleftrightarrow> step_gate_skip_reason env r step k = None"

definition step_is_explicit_action_runner :: "rt_step option \<Rightarrow> bool" where
  "step_is_explicit_action_runner step \<longleftrightarrow>
     (case step of None \<Rightarrow> False | Some s \<Rightarrow> sp_type s = ''builtin'' \<and> sp_target s = ''action_runner'')"

definition post_reply_bookkeeping_failed :: "rt_run \<Rightarrow> string \<Rightarrow> bool" where
  "post_reply_bookkeeping_failed r step_id \<longleftrightarrow> rn_advance_delivered_message r \<and> step_id = ''memory.after''"

section \<open>Draining pending actions\<close>

text \<open>The profile of a run; the code never steps a run without one.\<close>

definition run_steps :: "rt_run \<Rightarrow> rt_step list" where
  "run_steps r = (case rn_profile r of None \<Rightarrow> [] | Some p \<Rightarrow> pf_steps p)"

definition one_pass_profile :: "rt_run \<Rightarrow> bool" where
  "one_pass_profile r \<longleftrightarrow> (case rn_profile r of None \<Rightarrow> False | Some p \<Rightarrow> pf_one_pass p)"

text \<open>The loop ends when no entry is left to launch, or when the run has to wait; \<open>None\<close> stands for a loop that does not end.\<close>

partial_function (option) drain_pending_effect ::
  "'w run_env \<Rightarrow> bool \<Rightarrow> bool \<Rightarrow> rt_run \<Rightarrow> 'w kernel \<Rightarrow> (step_result \<times> rt_run \<times> 'w kernel) option" where
  "drain_pending_effect env implicit launched_any r k =
     (case rt_action_runner_peek_next r RT_SMALL RT_SMALL RT_LARGE of
        None \<Rightarrow> Some (if launched_any then RT_STEP_ADVANCED else RT_STEP_DONE, r, k)
      | Some (rid, action, args) \<Rightarrow>
          (case ve_action_launch env rid action args r k of
             (lr, r1, k1) \<Rightarrow>
               if lr = 1 then Some (RT_STEP_WAITING_ACTION_SLOT, rt_run_wait_for_action_slot env rid action r1 k1)
               else if lr = 0 then
                 (if rn_waiting_job_ids r1 \<noteq> [] then
                    Some (RT_STEP_WAITING_JOB, rt_run_wait_for_action_job env rid action
                      (if \<not> implicit \<and> \<not> rn_action_cli_only r1 \<and> \<not> one_pass_profile r1 then r1\<lparr>rn_phase_index := 0\<rparr> else r1) k1)
                  else drain_pending_effect env implicit True r1 k1)
               else Some (RT_STEP_FAILED, rt_run_fail env ''action_launch'' r1 k1)))"

section \<open>One step\<close>

definition begin_advance_if_needed :: "'w run_env \<Rightarrow> rt_run \<Rightarrow> 'w kernel \<Rightarrow> int \<times> rt_run \<times> 'w kernel" where
  "begin_advance_if_needed env r k =
     (let fresh = (rn_phase_index r = 0 \<and> rn_state r = RT_RUN_READY) in
      if fresh \<and> rn_advance r \<ge> RT_MAX_PROFILE_PASSES then
        (- 1, rt_run_fail env ''max_profile_passes_exceeded''
          (rt_run_set_error ''max_profile_passes_exceeded'' ''profile pass cap reached without quiescing'' [] r) k)
      else
        (let r1 = (if fresh then advance_flags_reset (r\<lparr>rn_advance := rn_advance r + 1\<rparr>) else r) in
         if rn_state r1 = RT_RUN_READY then (0, set_run_state env RT_RUN_RUNNING r1 k) else (0, r1, k)))"

definition finish_advance :: "'w run_env \<Rightarrow> rt_run \<Rightarrow> 'w kernel \<Rightarrow> step_result \<times> rt_run \<times> 'w kernel" where
  "finish_advance env r k =
     (if rn_waiting_job_ids r \<noteq> [] then (RT_STEP_WAITING_JOB, set_run_state env RT_RUN_WAITING_JOBS r k)
      else if rn_action_cli_only r \<or> one_pass_profile r then (RT_STEP_DONE, rt_run_finish env r k)
      else if rn_advance_work_progress r \<and> ve_has_actionable env (rn_ctx_context_id r) k then
        (RT_STEP_ADVANCED, set_run_state env RT_RUN_READY (r\<lparr>rn_phase_index := 0\<rparr>) k)
      else (RT_STEP_DONE, rt_run_finish env r k))"

text \<open>A step of an agent: started as a job, finished at once, or failed.\<close>

definition step_agent :: "'w run_env \<Rightarrow> rt_step \<Rightarrow> rt_run \<Rightarrow> 'w kernel \<Rightarrow> step_result \<times> rt_run \<times> 'w kernel" where
  "step_agent env step r k =
     (case ve_agent_start env step r k of
        (lr, r1, k1) \<Rightarrow>
          if lr < 0 then
            (if sp_non_critical step then (RT_STEP_ADVANCED, rt_run_advance_phase env r1 k1)
             else if post_reply_bookkeeping_failed r1 (sp_id step) then (RT_STEP_DONE, rt_run_finish env r1 k1)
             else (RT_STEP_FAILED, rt_run_fail env (sp_id step) r1 k1))
          else if lr = 0 then
            (if sp_id step = ''memory.after'' then
               (case ve_request_compaction env step r1 k1 of
                  (rc, r2, k2) \<Rightarrow>
                    if rc \<noteq> 0 then
                      (if post_reply_bookkeeping_failed r2 (sp_id step) then (RT_STEP_DONE, rt_run_finish env r2 k2)
                       else (RT_STEP_FAILED, rt_run_fail env ''memory_compaction_request'' r2 k2))
                    else (RT_STEP_ADVANCED, rt_run_advance_phase env r2 k2))
             else (RT_STEP_ADVANCED, rt_run_advance_phase env r1 k1))
          else
            (case rt_run_advance_phase env r1 k1 of
               (r2, k2) \<Rightarrow> (RT_STEP_WAITING_JOB, rt_run_wait_for_agent env (sp_id step) r2 k2)))"

text \<open>The explicit dispatch step: a drained queue moves on to the next phase.\<close>

definition step_dispatch :: "'w run_env \<Rightarrow> rt_run \<Rightarrow> 'w kernel \<Rightarrow> (step_result \<times> rt_run \<times> 'w kernel) option" where
  "step_dispatch env r k =
     (case drain_pending_effect env False False r k of
        None \<Rightarrow> None
      | Some (res, r1, k1) \<Rightarrow>
          if res = RT_STEP_DONE \<or> res = RT_STEP_ADVANCED then Some (RT_STEP_ADVANCED, rt_run_advance_phase env r1 k1)
          else Some (res, r1, k1))"

text \<open>The lookups that fail a gated step.\<close>

definition gate_failure :: "'w run_env \<Rightarrow> rt_run \<Rightarrow> rt_step \<Rightarrow> 'w kernel \<Rightarrow> string option" where
  "gate_failure env r step k =
     (let selected = ve_select_work_consequence env r k in
      if sp_gate step = ''work_consequence'' \<and> (selected = 2 \<or> selected < 0) then
        Some (if selected = 2 then ''multiple_work_consequences'' else ''work_consequence_lookup_failed'')
      else if sp_gate step = ''terminal_work_outcome'' \<and> ve_outcome_matches env r k < 0 then Some ''work_outcome_lookup_failed''
      else None)"

definition run_step_at :: "'w run_env \<Rightarrow> rt_step \<Rightarrow> rt_run \<Rightarrow> 'w kernel \<Rightarrow> (step_result \<times> rt_run \<times> 'w kernel) option" where
  "run_step_at env step r k =
     (case gate_failure env r step k of
        Some why \<Rightarrow> Some (RT_STEP_FAILED, rt_run_fail env why r k)
      | None \<Rightarrow>
          if \<not> step_gate_allows env r step k then Some (RT_STEP_ADVANCED, rt_run_advance_phase env r k)
          else if sp_type step = ''agent'' then Some (step_agent env step r k)
          else if sp_type step = ''builtin'' \<and> sp_target step = ''action_runner'' then step_dispatch env r k
          else Some (RT_STEP_FAILED, rt_run_fail env ''unknown_step'' r k))"

text \<open>The first step of a run is announced.\<close>

definition announce_start :: "'w run_env \<Rightarrow> rt_run \<Rightarrow> 'w kernel \<Rightarrow> rt_run \<times> 'w kernel" where
  "announce_start env r k =
     (if rn_run_started_emitted r then (r, k)
      else (r\<lparr>rn_run_started_emitted := True\<rparr>, snd (emit_lifecycle env ''run_started'' [] r k)))"

definition rt_run_step_ready :: "'w run_env \<Rightarrow> rt_run \<Rightarrow> 'w kernel \<Rightarrow> (step_result \<times> rt_run \<times> 'w kernel) option" where
  "rt_run_step_ready env r k =
     (case announce_start env r k of
        (r0, k0) \<Rightarrow>
          (case ve_snapshot env r0 k0 of
             (rc, k1) \<Rightarrow>
               if rc \<noteq> 0 then Some (RT_STEP_FAILED, rt_run_fail env ''snapshot_failed'' r0 k1)
               else
                 (case begin_advance_if_needed env r0 k1 of
                    (rc1, r2, k2) \<Rightarrow>
                      if rc1 \<noteq> 0 then Some (RT_STEP_FAILED, r2, k2)
                      else
                        (let steps = run_steps r2;
                             next_step = (if rn_phase_index r2 < length steps then Some (steps ! rn_phase_index r2) else None)
                         in if rn_pending_actions r2 \<noteq> [] \<and> \<not> step_is_explicit_action_runner next_step
                            then drain_pending_effect env True False r2 k2
                            else
                              (case next_step of
                                 None \<Rightarrow> Some (finish_advance env r2 k2)
                               | Some step \<Rightarrow> run_step_at env step r2 k2)))))"

end
