(* ===== verification/Scheduler.thy ===== *)
theory Scheduler
  imports Run_Step Outbox
begin

text \<open>
  The scheduler of \<open>runtime/scheduler.c\<close> with the intake of \<open>runtime/ports.c\<close> that feeds it: the
  static pool of runs, the pump of finished jobs, the wake of waiting runs, one pass over the ready
  runs, and retiring. A pointer into the pool is the index of its slot. The job runner and the disk
  are those of the kernel, so that popping jobs, draining the inbox and releasing publication
  records are the operations of the other components. Lines of \<open>gateway.log\<close> and narration are left
  out.
\<close>

definition RT_MAX_ACTIVE_RUNS :: nat where
  "RT_MAX_ACTIVE_RUNS = 16"

definition RT_MAX_PHASE_ADVANCES_PER_TICK :: nat where
  "RT_MAX_PHASE_ADVANCES_PER_TICK = 8"

definition RT_INTAKE_PER_TICK :: int where
  "RT_INTAKE_PER_TICK = 4"

record scheduler =
  sc_pool :: "rt_run list"
  sc_used :: "bool list"
  sc_runs :: "nat list"
  sc_run_count_peak :: nat
  sc_action_count_peak :: nat
  sc_runs_completed :: "64 word"
  sc_runs_succeeded :: "64 word"
  sc_runs_failed :: "64 word"
  sc_last_retired_origin_event_id :: string
  sc_last_retired_run_id :: string
  sc_last_retired_state :: run_state
  sc_profile :: rt_profile

datatype inbound_commit = INBOUND_COMMIT_IO | INBOUND_COMMIT_CONFLICT | INBOUND_COMMIT_ABSENT | INBOUND_COMMIT_EXACT

text \<open>
  The other modules: completion of jobs, the pump of operation deadlines, the delivery of a failure,
  the archive of a context's tasks, the state of a claimed inbound event, the attempt to commit it
  again (the flag says that it was made), and the creation of a run from an envelope.
\<close>

record 'w sched_env =
  se_run :: "'w run_env"
  se_work :: work_env
  se_now_ms :: "64 word"
  se_operation_pump :: "64 word \<Rightarrow> 'w kernel \<Rightarrow> 'w kernel"
  se_agent_complete_job :: "rt_job \<Rightarrow> rt_run \<Rightarrow> 'w kernel \<Rightarrow> int \<times> rt_run \<times> 'w kernel"
  se_action_complete_job :: "rt_job \<Rightarrow> rt_run \<Rightarrow> 'w kernel \<Rightarrow> int \<times> rt_run \<times> 'w kernel"
  se_emit_run_failure :: "rt_run \<Rightarrow> 'w kernel \<Rightarrow> 'w kernel"
  se_archive_tasks :: "string \<Rightarrow> 'w kernel \<Rightarrow> 'w kernel"
  se_inbound_state :: "rt_run \<Rightarrow> 'w kernel \<Rightarrow> inbound_commit"
  se_recommit_inbound :: "rt_run \<Rightarrow> 'w kernel \<Rightarrow> bool \<times> rt_run \<times> 'w kernel"
  se_create_run :: "rt_profile \<Rightarrow> string \<Rightarrow> rt_run \<Rightarrow> 'w kernel \<Rightarrow> int \<times> rt_run \<times> 'w kernel"

section \<open>The pool\<close>

definition get_run :: "scheduler \<Rightarrow> nat \<Rightarrow> rt_run" where
  "get_run s i = sc_pool s ! i"

definition put_run :: "nat \<Rightarrow> rt_run \<Rightarrow> scheduler \<Rightarrow> scheduler" where
  "put_run i r s = s\<lparr>sc_pool := (sc_pool s)[i := r]\<rparr>"

definition rt_scheduler_alloc_run :: "scheduler \<Rightarrow> (nat \<times> scheduler) option" where
  "rt_scheduler_alloc_run s =
     (case find_index (\<lambda>u. \<not> u) (sc_used s) of
        None \<Rightarrow> None
      | Some i \<Rightarrow> Some (i, put_run i zero_run (s\<lparr>sc_used := (sc_used s)[i := True]\<rparr>)))"

definition rt_scheduler_free_run :: "nat \<Rightarrow> scheduler \<Rightarrow> scheduler" where
  "rt_scheduler_free_run i s =
     (if i < RT_MAX_ACTIVE_RUNS then put_run i zero_run (s\<lparr>sc_used := (sc_used s)[i := False]\<rparr>) else s)"

definition rt_scheduler_destroy :: "scheduler \<Rightarrow> 'w kernel \<Rightarrow> scheduler \<times> 'w kernel" where
  "rt_scheduler_destroy s k =
     ((fold rt_scheduler_free_run (sc_runs s) s)\<lparr>sc_runs := []\<rparr>,
      k\<lparr>kn_runner := (kn_runner k)\<lparr>jr_jobs := []\<rparr>, kn_os := rt_jobrunner_destroy (jr_jobs (kn_runner k)) (kn_os k)\<rparr>)"

definition origin_index :: "scheduler \<Rightarrow> string \<Rightarrow> nat option" where
  "origin_index s origin_event_id =
     (if origin_event_id = [] then None else find (\<lambda>i. rn_origin_event_id (get_run s i) = origin_event_id) (sc_runs s))"

text \<open>The result code with the run's identity.\<close>

definition rt_scheduler_lookup_origin :: "scheduler \<Rightarrow> string \<Rightarrow> nat \<Rightarrow> int \<times> string" where
  "rt_scheduler_lookup_origin s origin_event_id run_id_len =
     (case origin_index s origin_event_id of
        None \<Rightarrow> (1, [])
      | Some i \<Rightarrow> (0, copy_into run_id_len (rn_run_id (get_run s i))))"

definition rt_scheduler_cancel_origin :: "'w sched_env \<Rightarrow> string \<Rightarrow> string \<Rightarrow> scheduler \<Rightarrow> 'w kernel \<Rightarrow> int \<times> scheduler \<times> 'w kernel" where
  "rt_scheduler_cancel_origin env origin_event_id reason s k =
     (case origin_index s origin_event_id of
        None \<Rightarrow> (1, s, k)
      | Some i \<Rightarrow>
          (case rt_jobrunner_cancel_run (kn_runner k) (rn_run_id (get_run s i)) (se_now_ms env) (kn_os k) of
             (n, runner, os) \<Rightarrow>
               (case rt_run_cancel (se_run env) (if reason \<noteq> [] then reason else ''client_canceled'') (get_run s i)
                       (k\<lparr>kn_runner := runner, kn_os := os\<rparr>) of
                  (r, k1) \<Rightarrow> (0, put_run i r s, k1))))"

section \<open>Finished jobs\<close>

definition run_waits_for_job :: "rt_run \<Rightarrow> rt_job \<Rightarrow> bool" where
  "run_waits_for_job r job \<longleftrightarrow> rn_run_id r = jb_run_id job \<and> rn_state r = RT_RUN_WAITING_JOBS \<and>
     (if jb_kind job = JOB_AGENT then rn_wait_reason r = RT_WAIT_REASON_AGENT_JOB \<and> rn_wait_step_id r = jb_step_id job
      else rn_wait_request_id r = jb_request_id job \<or> rt_action_runner_pending_index r (jb_request_id job) \<noteq> None)"

definition rt_scheduler_find_run_for_job :: "scheduler \<Rightarrow> rt_job \<Rightarrow> nat option" where
  "rt_scheduler_find_run_for_job s job = find (\<lambda>i. run_waits_for_job (get_run s i) job) (sc_runs s)"

text \<open>The step whose job failed is a maintenance step.\<close>

definition step_non_critical :: "rt_run \<Rightarrow> string \<Rightarrow> bool" where
  "step_non_critical r step_id =
     (case rt_run_find_step_by_id (rn_profile r) step_id of None \<Rightarrow> False | Some step \<Rightarrow> sp_non_critical step)"

text \<open>The comparison of the attempts is unsigned.\<close>

definition may_retry :: "rt_run \<Rightarrow> bool" where
  "may_retry r =
     (case rn_profile r of
        None \<Rightarrow> False
      | Some p \<Rightarrow> pf_retry_attempts p > 0 \<and> rn_event_attempts r < word_of_int (pf_retry_attempts p))"

definition resume_run :: "'w sched_env \<Rightarrow> run_state \<Rightarrow> rt_run \<Rightarrow> 'w kernel \<Rightarrow> rt_run \<times> 'w kernel" where
  "resume_run env s r k = (case set_run_state (se_run env) s r k of (r1, k1) \<Rightarrow> (rt_run_wait_clear r1, k1))"

definition wake_run_after_job :: "'w sched_env \<Rightarrow> rt_job \<Rightarrow> int \<Rightarrow> rt_run \<Rightarrow> 'w kernel \<Rightarrow> rt_run \<times> 'w kernel" where
  "wake_run_after_job env j handler_rc r k =
     (let r1 = rt_run_waiting_job_remove (jb_job_id j) r in
      if handler_rc \<noteq> 0 then
        (if jb_kind j = JOB_AGENT \<and> jb_step_id j = ''memory.after'' \<and> rn_advance_delivered_message r1 then rt_run_finish (se_run env) r1 k
         else if jb_kind j = JOB_AGENT \<and> step_non_critical r1 (jb_step_id j) then
           resume_run env (if rn_waiting_job_ids r1 \<noteq> [] then RT_RUN_WAITING_JOBS else RT_RUN_RUNNING) r1 k
         else if jb_kind j = JOB_AGENT \<and> may_retry r1 then
           set_run_state (se_run env) RT_RUN_READY
             ((rt_run_wait_clear (r1\<lparr>rn_event_attempts := rn_event_attempts r1 + 1\<rparr>))\<lparr>rn_phase_index := 0\<rparr>) k
         else rt_run_fail (se_run env) (if jb_kind j = JOB_AGENT then jb_step_id j else rn_wait_action r1) r1 k)
      else
        resume_run env
          (if jb_kind j = JOB_AGENT then RT_RUN_RUNNING
           else if rn_waiting_job_ids r1 \<noteq> [] then RT_RUN_WAITING_JOBS else RT_RUN_READY) r1 k)"

text \<open>The run that waits for the job is completed and woken.\<close>

definition finish_job :: "'w sched_env \<Rightarrow> rt_job \<Rightarrow> scheduler \<Rightarrow> 'w kernel \<Rightarrow> scheduler \<times> 'w kernel" where
  "finish_job env j s k =
     (case rt_scheduler_find_run_for_job s j of
        None \<Rightarrow> (s, k)
      | Some i \<Rightarrow>
          (case (if jb_kind j = JOB_AGENT then se_agent_complete_job env else se_action_complete_job env) j (get_run s i) k of
             (rc, r, k1) \<Rightarrow> (case wake_run_after_job env j rc r k1 of (r1, k2) \<Rightarrow> (put_run i r1 s, k2))))"

text \<open>\<open>None\<close> stands for a pump that does not end.\<close>

partial_function (option) pump_finished_jobs :: "'w sched_env \<Rightarrow> scheduler \<Rightarrow> 'w kernel \<Rightarrow> (scheduler \<times> 'w kernel) option" where
  "pump_finished_jobs env s k =
     (case rt_jobrunner_pop_finished (kn_runner k) of
        (None, runner) \<Rightarrow> Some (s, k\<lparr>kn_runner := runner\<rparr>)
      | (Some j, runner) \<Rightarrow>
          (case finish_job env j s (k\<lparr>kn_runner := runner\<rparr>) of
             (s1, k1) \<Rightarrow>
               (case rt_jobrunner_release (kn_runner k1) j (kn_os k1) of
                  (runner1, os1) \<Rightarrow> pump_finished_jobs env s1 (k1\<lparr>kn_runner := runner1, kn_os := os1\<rparr>))))"

section \<open>The pass over the runs\<close>

fun wake_slot_loop :: "'w sched_env \<Rightarrow> nat list \<Rightarrow> scheduler \<Rightarrow> 'w kernel \<Rightarrow> scheduler \<times> 'w kernel" where
  "wake_slot_loop env [] s k = (s, k)"
| "wake_slot_loop env (i # is) s k =
     (if rn_state (get_run s i) = RT_RUN_WAITING_ACTION_SLOT then
        (case resume_run env RT_RUN_READY (get_run s i) k of (r, k1) \<Rightarrow> wake_slot_loop env is (put_run i r s) k1)
      else wake_slot_loop env is s k)"

definition wake_action_slot_waiters :: "'w sched_env \<Rightarrow> scheduler \<Rightarrow> 'w kernel \<Rightarrow> scheduler \<times> 'w kernel" where
  "wake_action_slot_waiters env s k =
     (if rt_jobrunner_count_active (kn_runner k) JOB_ACTION \<noteq> 0 then (s, k) else wake_slot_loop env (sc_runs s) s k)"

definition run_finished :: "rt_run \<Rightarrow> bool" where
  "run_finished r \<longleftrightarrow> rn_state r = RT_RUN_DONE \<or> rn_state r = RT_RUN_FAILED"

definition has_other_active_context_run :: "scheduler \<Rightarrow> nat \<Rightarrow> bool" where
  "has_other_active_context_run s skip \<longleftrightarrow> rn_ctx_context_id (get_run s skip) \<noteq> [] \<and>
     list_ex (\<lambda>i. i \<noteq> skip \<and> \<not> run_finished (get_run s i) \<and>
       rn_ctx_context_id (get_run s i) = rn_ctx_context_id (get_run s skip)) (sc_runs s)"

definition serialized_behind_older_run :: "scheduler \<Rightarrow> nat \<Rightarrow> bool" where
  "serialized_behind_older_run s idx \<longleftrightarrow>
     (let r = get_run s (sc_runs s ! idx) in
      pf_serialize_contexts (sc_profile s) \<and> rn_ctx_context_id r \<noteq> [] \<and>
      list_ex (\<lambda>i. \<not> run_finished (get_run s i) \<and> rn_ctx_context_id (get_run s i) = rn_ctx_context_id r) (take idx (sc_runs s)))"

text \<open>The steps of one run in a tick; the argument counts the advances that are left.\<close>

fun advance_run :: "'w run_env \<Rightarrow> nat \<Rightarrow> rt_run \<Rightarrow> 'w kernel \<Rightarrow> (rt_run \<times> 'w kernel) option" where
  "advance_run env 0 r k = Some (r, k)"
| "advance_run env (Suc left) r k =
     (if rn_state r = RT_RUN_READY \<or> rn_state r = RT_RUN_RUNNING then
        (case rt_run_step_ready env r k of
           None \<Rightarrow> None
         | Some (res, r1, k1) \<Rightarrow> if res = RT_STEP_ADVANCED then advance_run env left r1 k1 else Some (r1, k1))
      else Some (r, k))"

fun step_runs_loop :: "'w sched_env \<Rightarrow> nat list \<Rightarrow> scheduler \<Rightarrow> 'w kernel \<Rightarrow> (scheduler \<times> 'w kernel) option" where
  "step_runs_loop env [] s k = Some (s, k)"
| "step_runs_loop env (idx # idxs) s k =
     (if serialized_behind_older_run s idx then step_runs_loop env idxs s k
      else
        (case advance_run (se_run env) RT_MAX_PHASE_ADVANCES_PER_TICK (get_run s (sc_runs s ! idx)) k of
           None \<Rightarrow> None
         | Some (r, k1) \<Rightarrow> step_runs_loop env idxs (put_run (sc_runs s ! idx) r s) k1))"

definition step_ready_runs :: "'w sched_env \<Rightarrow> scheduler \<Rightarrow> 'w kernel \<Rightarrow> (scheduler \<times> 'w kernel) option" where
  "step_ready_runs env s k = step_runs_loop env [0..<length (sc_runs s)] s k"

section \<open>Retiring\<close>

text \<open>The publication record of the wake that started the run is released.\<close>

definition release_wake :: "'w sched_env \<Rightarrow> rt_run \<Rightarrow> 'w kernel \<Rightarrow> 'w kernel" where
  "release_wake env r k =
     (if rn_created_from_event_id r = [] then k
      else
        (case rt_publication_outbox_release (ve_io (se_run env)) (rn_created_from_event_id r) (rn_run_id r)
                \<lparr>ob_disk = kn_disk k, ob_retry_pass = kn_outbox_retry k\<rparr> of
           (rc, w) \<Rightarrow> k\<lparr>kn_disk := ob_disk w, kn_outbox_retry := ob_retry_pass w\<rparr>))"

definition count_retired :: "rt_run \<Rightarrow> scheduler \<Rightarrow> scheduler" where
  "count_retired r s =
     (let s1 = (if rn_state r = RT_RUN_DONE then s\<lparr>sc_runs_succeeded := sc_runs_succeeded s + 1\<rparr>
                else s\<lparr>sc_runs_failed := sc_runs_failed s + 1\<rparr>)
      in s1\<lparr>sc_last_retired_origin_event_id := copy_into RT_SMALL (rn_origin_event_id r),
            sc_last_retired_run_id := copy_into RT_SMALL (rn_run_id r), sc_last_retired_state := rn_state r\<rparr>)"

definition retire_run :: "'w sched_env \<Rightarrow> nat \<Rightarrow> scheduler \<Rightarrow> 'w kernel \<Rightarrow> scheduler \<times> 'w kernel" where
  "retire_run env i s k =
     (let r = get_run s i;
          k1 = (if rn_state r = RT_RUN_DONE then k else se_emit_run_failure env r k);
          s1 = count_retired r s;
          k2 = release_wake env r k1;
          k3 = (if has_other_active_context_run s1 i then k2 else se_archive_tasks env (rn_ctx_context_id r) k2);
          s2 = rt_scheduler_free_run i s1
      in (s2\<lparr>sc_runs_completed := sc_runs_completed s2 + 1\<rparr>, k3))"

text \<open>The list of runs is compacted in place: \<open>out\<close> is the next position to fill.\<close>

fun retire_loop :: "'w sched_env \<Rightarrow> nat list \<Rightarrow> nat \<Rightarrow> scheduler \<Rightarrow> 'w kernel \<Rightarrow> nat \<times> scheduler \<times> 'w kernel" where
  "retire_loop env [] out s k = (out, s, k)"
| "retire_loop env (idx # idxs) out s k =
     (let i = sc_runs s ! idx in
      if run_finished (get_run s i) then (case retire_run env i s k of (s1, k1) \<Rightarrow> retire_loop env idxs out s1 k1)
      else retire_loop env idxs (out + 1) (s\<lparr>sc_runs := (sc_runs s)[out := i]\<rparr>) k)"

definition retire_terminal_runs :: "'w sched_env \<Rightarrow> scheduler \<Rightarrow> 'w kernel \<Rightarrow> scheduler \<times> 'w kernel" where
  "retire_terminal_runs env s k =
     (case retire_loop env [0..<length (sc_runs s)] 0 s k of
        (out, s1, k1) \<Rightarrow> (s1\<lparr>sc_runs := take out (sc_runs s1)\<rparr>, k1))"

definition update_peaks :: "'w kernel \<Rightarrow> scheduler \<Rightarrow> scheduler" where
  "update_peaks k s = s\<lparr>sc_run_count_peak := max (sc_run_count_peak s) (length (sc_runs s)),
     sc_action_count_peak := max (sc_action_count_peak s) (rt_jobrunner_count_active (kn_runner k) JOB_ACTION)\<rparr>"

definition rt_scheduler_advance_and_retire :: "'w sched_env \<Rightarrow> 64 word \<Rightarrow> scheduler \<Rightarrow> 'w kernel \<Rightarrow> (scheduler \<times> 'w kernel) option" where
  "rt_scheduler_advance_and_retire env now_ms s k =
     (case pump_finished_jobs env (update_peaks k s) (se_operation_pump env now_ms k) of
        None \<Rightarrow> None
      | Some (s1, k1) \<Rightarrow>
          (case wake_action_slot_waiters env s1 k1 of
             (s2, k2) \<Rightarrow>
               (case step_ready_runs env s2 k2 of
                  None \<Rightarrow> None
                | Some (s3, k3) \<Rightarrow> (case retire_terminal_runs env s3 k3 of (s4, k4) \<Rightarrow> Some (update_peaks k4 s4, k4)))))"

section \<open>Intake\<close>

definition conflicting_claim :: "'w sched_env \<Rightarrow> string \<Rightarrow> rt_run \<Rightarrow> 'w kernel \<Rightarrow> rt_run \<times> 'w kernel" where
  "conflicting_claim env message r k =
     rt_run_fail (se_run env) ''inbound_claim_conflict'' (rt_run_set_error ''inbound_claim_conflict'' message [] r) k"

definition retry_inbound_claim :: "'w sched_env \<Rightarrow> rt_run \<Rightarrow> 'w kernel \<Rightarrow> rt_run \<times> 'w kernel" where
  "retry_inbound_claim env r k =
     (if rn_state r \<noteq> RT_RUN_WAITING_EVENT then (r, k)
      else
        (case se_inbound_state env r k of
           INBOUND_COMMIT_EXACT \<Rightarrow> set_run_state (se_run env) RT_RUN_READY r k
         | INBOUND_COMMIT_IO \<Rightarrow> (r, k)
         | INBOUND_COMMIT_CONFLICT \<Rightarrow>
             conflicting_claim env ''claimed processed envelope does not match the exact first run event'' r k
         | INBOUND_COMMIT_ABSENT \<Rightarrow>
             (case se_recommit_inbound env r k of
                (made, r1, k1) \<Rightarrow>
                  if \<not> made then (r1, k1)
                  else
                    (case se_inbound_state env r1 k1 of
                       INBOUND_COMMIT_EXACT \<Rightarrow> set_run_state (se_run env) RT_RUN_READY r1 k1
                     | INBOUND_COMMIT_CONFLICT \<Rightarrow>
                         conflicting_claim env ''retried processed envelope did not become the exact first run event'' r1 k1
                     | _ \<Rightarrow> (r1, k1)))))"

fun retry_waiting_inbound_claims :: "'w sched_env \<Rightarrow> nat list \<Rightarrow> scheduler \<Rightarrow> 'w kernel \<Rightarrow> scheduler \<times> 'w kernel" where
  "retry_waiting_inbound_claims env [] s k = (s, k)"
| "retry_waiting_inbound_claims env (i # is) s k =
     (case retry_inbound_claim env (get_run s i) k of (r, k1) \<Rightarrow> retry_waiting_inbound_claims env is (put_run i r s) k1)"

text \<open>One envelope: a slot is taken, and given back when no run can be made of it. The flag stops the drain.\<close>

definition intake_envelope :: "'w sched_env \<Rightarrow> string \<Rightarrow> (scheduler \<times> 'w kernel) \<times> disk \<Rightarrow> bool \<times> (scheduler \<times> 'w kernel) \<times> disk" where
  "intake_envelope env name u =
     (case u of ((s, k), d) \<Rightarrow>
        if length (sc_runs s) \<ge> RT_MAX_ACTIVE_RUNS then (True, (s, k), d)
        else
          (case rt_scheduler_alloc_run s of
             None \<Rightarrow> (True, (s, k), d)
           | Some (i, s1) \<Rightarrow>
               (case se_create_run env (sc_profile s) name (get_run s1 i) (k\<lparr>kn_disk := d\<rparr>) of
                  (rc, r, k1) \<Rightarrow>
                    if rc < 0 then (False, (rt_scheduler_free_run i (put_run i r s1), k1), kn_disk k1)
                    else (False, (let s2 = put_run i r s1 in s2\<lparr>sc_runs := sc_runs s2 @ [i]\<rparr>, k1), kn_disk k1))))"

definition drain_intake :: "'w sched_env \<Rightarrow> int \<Rightarrow> scheduler \<Rightarrow> 'w kernel \<Rightarrow> scheduler \<times> 'w kernel" where
  "drain_intake env budget s k =
     (case bus_drain_inbox (ve_io (se_run env)) budget (intake_envelope env) ((s, k), kn_disk k) of
        (n, (s1, k1), d) \<Rightarrow> (s1, k1\<lparr>kn_disk := d\<rparr>))"

definition rt_ports_drain_sources :: "'w sched_env \<Rightarrow> int \<Rightarrow> scheduler \<Rightarrow> 'w kernel \<Rightarrow> scheduler \<times> 'w kernel" where
  "rt_ports_drain_sources env max_intake s k =
     (case retry_waiting_inbound_claims env (sc_runs s) s k of
        (s1, k1) \<Rightarrow>
          (case rt_publication_outbox_retry_if_pending (ve_io (se_run env)) (se_work env)
                  \<lparr>ob_disk = kn_disk k1, ob_retry_pass = kn_outbox_retry k1\<rparr> of
             (rc, w) \<Rightarrow>
               let k2 = k1\<lparr>kn_disk := ob_disk w, kn_outbox_retry := ob_retry_pass w\<rparr>;
                   budget = int RT_MAX_ACTIVE_RUNS - int (length (sc_runs s1));
                   top = (if max_intake \<le> 0 then RT_INTAKE_PER_TICK else max_intake)
               in if rc \<noteq> 0 \<or> budget \<le> 0 then (s1, k2) else drain_intake env (min budget top) s1 k2))"

section \<open>Tick and shutdown\<close>

definition rt_scheduler_tick :: "'w sched_env \<Rightarrow> 64 word \<Rightarrow> scheduler \<Rightarrow> 'w kernel \<Rightarrow> (scheduler \<times> 'w kernel) option" where
  "rt_scheduler_tick env now_ms s k =
     (case rt_jobrunner_tick (kn_runner k) now_ms (kn_os k) of
        (runner, os) \<Rightarrow>
          (case rt_ports_drain_sources env RT_INTAKE_PER_TICK s (k\<lparr>kn_runner := runner, kn_os := os\<rparr>) of
             (s1, k1) \<Rightarrow> rt_scheduler_advance_and_retire env now_ms s1 k1))"

fun cancel_all :: "'w sched_env \<Rightarrow> nat list \<Rightarrow> scheduler \<Rightarrow> 'w kernel \<Rightarrow> scheduler \<times> 'w kernel" where
  "cancel_all env [] s k = (s, k)"
| "cancel_all env (i # is) s k =
     (case rt_run_cancel (se_run env) ''gateway_shutdown'' (get_run s i) k of
        (r, k1) \<Rightarrow> cancel_all env is (rt_scheduler_free_run i (put_run i r s)) k1)"

text \<open>The clock readings and retries of the job runner's shutdown are its arguments.\<close>

definition rt_scheduler_shutdown ::
  "'w sched_env \<Rightarrow> 64 word \<Rightarrow> 64 word \<Rightarrow> (nat \<Rightarrow> 64 word) \<Rightarrow> (64 word \<times> 64 word) list \<Rightarrow> 64 word list \<Rightarrow> scheduler \<Rightarrow> 'w kernel \<Rightarrow> scheduler \<times> 'w kernel" where
  "rt_scheduler_shutdown env grace_ms started term_at clock retries s k =
     (case rt_jobrunner_shutdown_all (kn_runner k) grace_ms started term_at clock retries (kn_os k) of
        (runner, os) \<Rightarrow>
          (case cancel_all env (sc_runs s) s (k\<lparr>kn_runner := runner, kn_os := os\<rparr>) of
             (s1, k1) \<Rightarrow> (s1\<lparr>sc_runs := []\<rparr>, k1)))"

end
