(* ===== verification/Action_Laws.thy ===== *)
theory Action_Laws
  imports Action_Queue
begin

text \<open>
  The queue of pending actions over the life of a run: its bounds, and that an identical call is
  queued at most once, so that a retried pass of the profile does not repeat an effect.
\<close>

section \<open>Signatures\<close>

lemma signature_nonempty [simp]: "rt_action_signature RT_MED source action args task_id wrev \<noteq> []"
  by (auto simp: rt_action_signature_def copy_into_def RT_MED_def)

lemma signature_length [simp]: "length (rt_action_signature RT_MED source action args task_id wrev) < RT_MED"
  by (simp add: rt_action_signature_def RT_MED_def)

section \<open>Operations on the queue\<close>

definition same_queue :: "rt_run \<Rightarrow> rt_run \<Rightarrow> bool" where
  "same_queue r r' \<longleftrightarrow> rn_pending_actions r' = rn_pending_actions r \<and> rn_completed_action_ids r' = rn_completed_action_ids r \<and>
     rn_completed_action_sigs r' = rn_completed_action_sigs r"

text \<open>The calls that act on the queue; an accepted request is reported with its signature. Everything else leaves the queue alone.\<close>

inductive queue_step :: "rt_run \<Rightarrow> string list \<Rightarrow> rt_run \<Rightarrow> bool" where
  request: "rt_action_runner_note_request qe source rid action args task_id wrev r = (rc, r') \<Longrightarrow> length rid < RT_SMALL \<Longrightarrow>
     queue_step r (if rc = 1 then [rt_action_signature RT_MED source action args task_id wrev] else []) r'"
| trigger: "queue_step r [] (rt_action_runner_note_trigger rid eid r)"
| started: "queue_step r [] (rt_action_runner_note_started rid r)"
| terminal: "length rid < RT_SMALL \<Longrightarrow> queue_step r [] (rt_action_runner_note_terminal rid r)"
| emit_terminal: "rt_action_emit_terminal qe type rid action task_id r = (rc, r') \<Longrightarrow> length rid < RT_SMALL \<Longrightarrow> queue_step r [] r'"
| emit_rejected: "rt_action_emit_rejected qe rid action task_id sig r = (rc, r') \<Longrightarrow> length rid < RT_SMALL \<Longrightarrow> queue_step r [] r'"
| other: "same_queue r r' \<Longrightarrow> queue_step r [] r'"

inductive queue_life :: "rt_run \<Rightarrow> string list \<Rightarrow> rt_run \<Rightarrow> bool" for r0 where
  start: "queue_life r0 [] r0"
| step: "queue_life r0 log r \<Longrightarrow> queue_step r new r' \<Longrightarrow> queue_life r0 (log @ new) r'"

abbreviation pending_sigs :: "rt_run \<Rightarrow> string list" where
  "pending_sigs r \<equiv> map pa_sig (rn_pending_actions r)"

abbreviation completed_sigs :: "rt_run \<Rightarrow> string list" where
  "completed_sigs r \<equiv> map fst (rn_completed_action_sigs r)"

definition queue_inv :: "rt_run \<Rightarrow> bool" where
  "queue_inv r \<longleftrightarrow>
     length (rn_pending_actions r) \<le> RT_MAX_PENDING_ACTIONS \<and> distinct (map pa_request_id (rn_pending_actions r)) \<and>
     length (rn_completed_action_ids r) \<le> RT_MAX_COMPLETED_ACTIONS \<and> distinct (rn_completed_action_ids r) \<and>
     length (rn_completed_action_sigs r) \<le> RT_MAX_COMPLETED_ACTIONS \<and> distinct (completed_sigs r) \<and>
     distinct (pending_sigs r) \<and> set (pending_sigs r) \<inter> set (completed_sigs r) = {} \<and>
     (\<forall>p \<in> set (rn_pending_actions r). pa_sig p \<noteq> [] \<and> length (pa_sig p) < RT_MED \<and> length (pa_request_id p) < RT_SMALL)"

text \<open>What retiring an entry does.\<close>

lemma note_terminal_missing:
  "rt_action_runner_pending_index r rid = None \<Longrightarrow> rt_action_runner_note_terminal rid r = rt_action_terminal_add rid r"
  by (simp add: rt_action_runner_note_terminal_def)

lemma terminal_add_fields [simp]:
  "rn_pending_actions (rt_action_terminal_add rid r) = rn_pending_actions r"
  "rn_completed_action_sigs (rt_action_terminal_add rid r) = rn_completed_action_sigs r"
  by (simp_all add: rt_action_terminal_add_def)

lemma sig_add_fields [simp]:
  "rn_pending_actions (rt_action_completed_sig_add sig rid r) = rn_pending_actions r"
  "rn_completed_action_ids (rt_action_completed_sig_add sig rid r) = rn_completed_action_ids r"
  by (simp_all add: rt_action_completed_sig_add_def)

lemma completed_sig_index_None: "sig \<noteq> [] \<Longrightarrow> rt_action_completed_sig_index_of r sig = None \<longleftrightarrow> sig \<notin> set (completed_sigs r)"
  by (force simp: rt_action_completed_sig_index_of_def find_index_None_iff)

lemma pending_sig_index_None: "sig \<noteq> [] \<Longrightarrow> rt_action_pending_sig_index_of r sig = None \<longleftrightarrow> sig \<notin> set (pending_sigs r)"
  by (force simp: rt_action_pending_sig_index_of_def find_index_None_iff)

lemma pending_index_Some:
  "rt_action_runner_pending_index r rid = Some i \<Longrightarrow>
     i < length (rn_pending_actions r) \<and> pa_request_id (rn_pending_actions r ! i) = rid"
  unfolding rt_action_runner_pending_index_def by (auto dest: find_index_SomeD)

lemma pending_index_None: "rt_action_runner_pending_index r rid = None \<longleftrightarrow> rid \<notin> set (map pa_request_id (rn_pending_actions r))"
  by (force simp: rt_action_runner_pending_index_def find_index_None_iff)

lemma distinct_remove_nth_notin:
  assumes "distinct (map f xs)" and "i < length xs"
  shows "set (map f (remove_nth i xs)) = set (map f xs) - {f (xs ! i)}"
proof -
  have split: "xs = take i xs @ xs ! i # drop (Suc i) xs" using assms(2) by (simp add: id_take_nth_drop)
  have d: "distinct (map f (take i xs) @ f (xs ! i) # map f (drop (Suc i) xs))"
    using assms(1) split by (metis list.simps(9) map_append)
  have "set (map f xs) = set (map f (take i xs)) \<union> {f (xs ! i)} \<union> set (map f (drop (Suc i) xs))"
    by (subst split) auto
  moreover have "set (map f (remove_nth i xs)) = set (map f (take i xs)) \<union> set (map f (drop (Suc i) xs))"
    using assms(2) by (auto simp: remove_nth_def)
  moreover have "f (xs ! i) \<notin> set (map f (take i xs)) \<union> set (map f (drop (Suc i) xs))" using d by auto
  ultimately show ?thesis by blast
qed

lemma note_terminal_present:
  assumes "queue_inv r" and "rt_action_runner_pending_index r rid = Some i" and "length (rn_completed_action_sigs r) < RT_MAX_COMPLETED_ACTIONS"
  defines "p \<equiv> rn_pending_actions r ! i"
  shows "rn_pending_actions (rt_action_runner_note_terminal rid r) = remove_nth i (rn_pending_actions r) \<and>
    rn_completed_action_sigs (rt_action_runner_note_terminal rid r) = rn_completed_action_sigs r @ [(pa_sig p, pa_request_id p)] \<and>
    rn_completed_action_ids (rt_action_runner_note_terminal rid r) = rn_completed_action_ids (rt_action_terminal_add rid r)"
proof -
  note i = pending_index_Some [OF assms(2)]
  then have p: "p \<in> set (rn_pending_actions r)" by (simp add: p_def)
  then have ok: "pa_sig p \<noteq> []" "length (pa_sig p) < RT_MED" "length (pa_request_id p) < RT_SMALL" "pa_sig p \<notin> set (completed_sigs r)"
    using assms(1) by (auto simp: queue_inv_def)
  then have "rt_action_completed_sig_index_of (rt_action_terminal_add rid r) (pa_sig p) = None"
    using completed_sig_index_None by simp
  then show ?thesis using assms(2,3) i ok
    by (simp add: rt_action_runner_note_terminal_def rt_action_pending_remove_at_def rt_action_completed_sig_add_def p_def [symmetric] Let_def)
qed

lemma note_terminal_ids:
  "rn_completed_action_ids (rt_action_runner_note_terminal rid r) = rn_completed_action_ids (rt_action_terminal_add rid r)"
  by (auto simp: rt_action_runner_note_terminal_def rt_action_pending_remove_at_def Let_def split: option.splits)

lemma note_terminal_pending:
  "rn_pending_actions (rt_action_runner_note_terminal rid r) =
     (case rt_action_runner_pending_index r rid of None \<Rightarrow> rn_pending_actions r | Some i \<Rightarrow> remove_nth i (rn_pending_actions r))"
  by (auto simp: rt_action_runner_note_terminal_def rt_action_pending_remove_at_def Let_def split: option.splits dest: pending_index_Some)

lemma note_terminal_sigs:
  assumes "queue_inv r"
  shows "rn_completed_action_sigs (rt_action_runner_note_terminal rid r) =
     (case rt_action_runner_pending_index r rid of
        None \<Rightarrow> rn_completed_action_sigs r
      | Some i \<Rightarrow>
          if length (rn_completed_action_sigs r) < RT_MAX_COMPLETED_ACTIONS
          then rn_completed_action_sigs r @ [(pa_sig (rn_pending_actions r ! i), pa_request_id (rn_pending_actions r ! i))]
          else rn_completed_action_sigs r)"
proof (cases "rt_action_runner_pending_index r rid")
  case (Some i)
  then show ?thesis using note_terminal_present [OF assms Some]
    by (auto simp: rt_action_runner_note_terminal_def rt_action_pending_remove_at_def rt_action_completed_sig_add_def Let_def)
qed (simp add: note_terminal_missing)

lemma terminal_add_ids:
  assumes "length rid < RT_SMALL" and "distinct (rn_completed_action_ids r)" and "length (rn_completed_action_ids r) \<le> RT_MAX_COMPLETED_ACTIONS"
  shows "distinct (rn_completed_action_ids (rt_action_terminal_add rid r)) \<and>
    length (rn_completed_action_ids (rt_action_terminal_add rid r)) \<le> RT_MAX_COMPLETED_ACTIONS"
  using assms by (auto simp: rt_action_terminal_add_def rt_action_terminal_index_of_def find_index_None_iff)

text \<open>
  The invariant with the log of accepted requests: while at most 32 were accepted, each signature of
  the log is pending or remembered, and none was accepted twice.
\<close>

definition logged :: "string list \<Rightarrow> rt_run \<Rightarrow> bool" where
  "logged log r \<longleftrightarrow> queue_inv r \<and> (length log \<le> RT_MAX_COMPLETED_ACTIONS \<longrightarrow>
     distinct log \<and> set log = set (pending_sigs r) \<union> set (completed_sigs r))"

lemma logged_terminal:
  assumes "logged log r" and "length rid < RT_SMALL"
  shows "logged log (rt_action_runner_note_terminal rid r)"
proof (cases "rt_action_runner_pending_index r rid")
  case None
  then show ?thesis using assms terminal_add_ids [OF assms(2)]
    by (auto simp: logged_def queue_inv_def note_terminal_missing)
next
  case (Some i)
  let ?r = "rt_action_runner_note_terminal rid r" and ?p = "rn_pending_actions r ! i"
  have inv: "queue_inv r" using assms(1) by (simp add: logged_def)
  note i = pending_index_Some [OF Some]
  note fields = note_terminal_pending [of rid r] note_terminal_sigs [OF inv, of rid] note_terminal_ids [of rid r]
  have pend: "set (pending_sigs ?r) = set (pending_sigs r) - {pa_sig ?p}"
    using distinct_remove_nth_notin [of pa_sig "rn_pending_actions r" i] inv i Some fields(1) by (simp add: queue_inv_def)
  have p: "?p \<in> set (rn_pending_actions r)" using i by simp
  have new: "pa_sig ?p \<notin> set (completed_sigs r)" using inv p by (auto simp: queue_inv_def)
  have inv': "queue_inv ?r" unfolding queue_inv_def
  proof (intro conjI)
    show "set (pending_sigs ?r) \<inter> set (completed_sigs ?r) = {}"
      using inv pend fields(2) Some by (auto simp: queue_inv_def)
    show "distinct (completed_sigs ?r)" using inv fields(2) Some new by (auto simp: queue_inv_def)
    show "\<forall>p\<in>set (rn_pending_actions ?r). pa_sig p \<noteq> [] \<and> length (pa_sig p) < RT_MED \<and> length (pa_request_id p) < RT_SMALL"
      using inv fields(1) Some set_remove_nth_subset [of i "rn_pending_actions r"] by (auto simp: queue_inv_def)
  qed (use inv fields Some i terminal_add_ids [OF assms(2)] in \<open>auto simp: queue_inv_def intro: distinct_map_remove_nth\<close>)
  show ?thesis
  proof (cases "length log \<le> RT_MAX_COMPLETED_ACTIONS")
    case True
    then have d: "distinct log" and l: "set log = set (pending_sigs r) \<union> set (completed_sigs r)" using assms(1) by (auto simp: logged_def)
    have "card (set (completed_sigs r)) < card (set log)"
      using l new p by (intro psubset_card_mono) auto
    moreover have "card (set (completed_sigs r)) = length (rn_completed_action_sigs r)"
      using inv distinct_card [of "completed_sigs r"] by (simp add: queue_inv_def)
    ultimately have "length (rn_completed_action_sigs r) < RT_MAX_COMPLETED_ACTIONS" using True distinct_card [OF d] by linarith
    then have "set (completed_sigs ?r) = insert (pa_sig ?p) (set (completed_sigs r))" using fields(2) Some by simp
    then show ?thesis using inv' d l pend p by (auto simp: logged_def)
  qed (use inv' in \<open>simp add: logged_def\<close>)
qed

lemma logged_same: "logged log r \<Longrightarrow> same_queue r r' \<Longrightarrow> logged log r'"
  by (simp add: logged_def queue_inv_def same_queue_def)

lemma logged_update:
  assumes "logged log r" and "pa_request_id p = pa_request_id (rn_pending_actions r ! i)" and "pa_sig p = pa_sig (rn_pending_actions r ! i)"
    and "i < length (rn_pending_actions r)"
  shows "logged log (r\<lparr>rn_pending_actions := (rn_pending_actions r)[i := p]\<rparr>)"
proof -
  have "map pa_sig ((rn_pending_actions r)[i := p]) = pending_sigs r"
    "map pa_request_id ((rn_pending_actions r)[i := p]) = map pa_request_id (rn_pending_actions r)"
    using assms(2-4) by (metis list_update_id map_update)+
  moreover have "\<forall>q \<in> set ((rn_pending_actions r)[i := p]). \<exists>q' \<in> set (rn_pending_actions r). pa_sig q = pa_sig q' \<and> pa_request_id q = pa_request_id q'"
    using assms(2-4) set_update_subset_insert [of "rn_pending_actions r" i p] nth_mem by fastforce
  ultimately show ?thesis using assms(1) unfolding logged_def queue_inv_def by simp (metis set_map)
qed

definition same_or_retired :: "string \<Rightarrow> rt_run \<Rightarrow> rt_run \<Rightarrow> bool" where
  "same_or_retired rid r r' \<longleftrightarrow> same_queue r r' \<or> (\<exists>r1. same_queue r r1 \<and> r' = rt_action_runner_note_terminal rid r1)"

lemma same_or_retiredI: "same_queue r r' \<Longrightarrow> same_or_retired rid r r'"
  "same_queue r r1 \<Longrightarrow> same_or_retired rid r (rt_action_runner_note_terminal rid r1)"
  by (auto simp: same_or_retired_def)

lemma emit_terminal_outcome: "rt_action_emit_terminal qe type rid action task_id r = (rc, r') \<Longrightarrow> same_or_retired rid r r'"
  unfolding rt_action_emit_terminal_def Let_def
  by (auto split: if_splits intro!: same_or_retiredI(2) intro: same_or_retiredI(1) simp: same_queue_def)

lemma emit_rejected_outcome: "rt_action_emit_rejected qe rid action task_id sig r = (rc, r') \<Longrightarrow> same_or_retired rid r r'"
  unfolding rt_action_emit_rejected_def Let_def
  by (auto split: if_splits intro!: same_or_retiredI(2) intro: same_or_retiredI(1) simp: same_queue_def)

lemma logged_emit:
  assumes "logged log r" and "length rid < RT_SMALL"
  shows "rt_action_emit_terminal qe type rid action task_id r = (rc, r') \<Longrightarrow> logged log r'"
    and "rt_action_emit_rejected qe rid action task_id sig r = (rc, r') \<Longrightarrow> logged log r'"
proof -
  have "logged log r'" if "same_or_retired rid r r'" using that logged_same [OF assms(1)] logged_terminal [OF _ assms(2)]
    by (auto simp: same_or_retired_def)
  then show "rt_action_emit_terminal qe type rid action task_id r = (rc, r') \<Longrightarrow> logged log r'"
    "rt_action_emit_rejected qe rid action task_id sig r = (rc, r') \<Longrightarrow> logged log r'"
    using emit_terminal_outcome emit_rejected_outcome by blast+
qed

lemma reject_outcome: "reject_request qe rid action task_id sig r = (rc, r') \<Longrightarrow> logged log r \<Longrightarrow> length rid < RT_SMALL \<Longrightarrow> rc \<noteq> 1 \<and> logged log r'"
  by (auto simp: reject_request_def split: prod.splits if_splits dest: logged_emit(2))

lemma memoize_outcome:
  assumes "memoize_request qe rid action task_id sig r = (rc, r')" and "logged log r" and "length rid < RT_SMALL"
  shows "rc \<noteq> 1 \<and> logged log r'"
proof -
  have "logged log (r1\<lparr>rn_advance_work_progress := b\<rparr>)" if "logged log r1" for r1 b
    using logged_same [OF that] by (simp add: same_queue_def)
  then show ?thesis using assms
    by (auto simp: memoize_request_def split: option.splits prod.splits if_splits dest: reject_outcome logged_emit(1))
qed

text \<open>What an accepted request leaves in the queue.\<close>

lemma request_fields:
  assumes "rt_action_runner_note_request qe source rid action args task_id wrev r = (1, r')" and "logged log r" and "length rid < RT_SMALL"
  defines "sig \<equiv> rt_action_signature RT_MED source action args task_id wrev"
  shows "r' = r\<lparr>rn_pending_actions := rn_pending_actions r @ [queue_entry source rid action args task_id wrev sig]\<rparr> \<and>
    sig \<notin> set (pending_sigs r) \<and> sig \<notin> set (completed_sigs r) \<and> rid \<notin> set (map pa_request_id (rn_pending_actions r)) \<and>
    length (rn_pending_actions r) < RT_MAX_PENDING_ACTIONS \<and> queue_inv r'"
proof -
  let ?e = "queue_entry source rid action args task_id wrev sig"
  have refused: "reject_request qe rid action task_id s r \<noteq> (1, r')" "memoize_request qe rid action task_id s r \<noteq> (1, r')" for s
    using reject_outcome [OF _ assms(2,3)] memoize_outcome [OF _ assms(2,3)] by blast+
  have c: "rt_action_runner_pending_index r rid = None" "rt_action_pending_sig_index_of r sig = None"
      "rt_action_completed_sig_index_of r sig = None" "length (rn_pending_actions r) < RT_MAX_PENDING_ACTIONS"
      "r' = r\<lparr>rn_pending_actions := rn_pending_actions r @ [?e]\<rparr>"
    using assms(1) refused unfolding sig_def
    by (auto simp: rt_action_runner_note_request_def Let_def split: if_splits)
  have new: "sig \<notin> set (pending_sigs r)" "sig \<notin> set (completed_sigs r)" "rid \<notin> set (map pa_request_id (rn_pending_actions r))"
    using c(1-3) pending_sig_index_None completed_sig_index_None pending_index_None unfolding sig_def by simp_all
  have "pa_sig ?e = sig" "pa_request_id ?e = rid" using assms(3) unfolding queue_entry_def sig_def by simp_all
  then have "queue_inv r'" using assms(2,3) new c unfolding logged_def queue_inv_def by (auto simp: sig_def)
  then show ?thesis using new c by blast
qed

lemma request_outcome:
  assumes "rt_action_runner_note_request qe source rid action args task_id wrev r = (rc, r')" and "logged log r" and "length rid < RT_SMALL"
  defines "sig \<equiv> rt_action_signature RT_MED source action args task_id wrev"
  shows "logged (log @ (if rc = 1 then [sig] else [])) r'"
proof (cases "rc = 1")
  case False
  then show ?thesis using assms(1,2)
    by (auto simp: rt_action_runner_note_request_def Let_def split: if_splits
        dest!: reject_outcome [OF _ assms(2,3)] memoize_outcome [OF _ assms(2,3)])
next
  case True
  note f = request_fields [OF assms(1) [unfolded True] assms(2,3), folded sig_def]
  have "pa_sig (queue_entry source rid action args task_id wrev sig) = sig" unfolding queue_entry_def sig_def by simp
  then have "distinct (log @ [sig]) \<and> set (log @ [sig]) = set (pending_sigs r') \<union> set (completed_sigs r')"
    if "length (log @ [sig]) \<le> RT_MAX_COMPLETED_ACTIONS"
    using that assms(2) f by (auto simp: logged_def)
  then show ?thesis using True f by (auto simp: logged_def)
qed

lemma find_index_append_new: "\<forall>x \<in> set xs. \<not> P x \<Longrightarrow> P y \<Longrightarrow> find_index P (xs @ [y]) = Some (length xs)"
  by (induction xs) auto

lemma queue_step_logged: "queue_step r new r' \<Longrightarrow> logged log r \<Longrightarrow> logged (log @ new) r'"
proof (induction rule: queue_step.induct)
  case (request qe source rid action args task_id wrev r rc r')
  then show ?case using request_outcome by blast
next
  case (trigger r rid eid)
  then show ?case
    by (auto simp: rt_action_runner_note_trigger_def split: option.splits dest: pending_index_Some intro!: logged_update)
next
  case (started r rid)
  then show ?case
    by (auto simp: rt_action_runner_note_started_def split: option.splits dest: pending_index_Some intro!: logged_update)
next
  case (emit_terminal qe type rid action task_id r rc r')
  then show ?case using logged_emit(1) by simp
next
  case (emit_rejected qe rid action task_id sig r rc r')
  then show ?case using logged_emit(2) by simp
qed (auto intro: logged_terminal logged_same)

lemma queue_life_logged: "queue_life r0 log r \<Longrightarrow> logged [] r0 \<Longrightarrow> logged log r"
  by (induction rule: queue_life.induct) (auto dest: queue_step_logged)

definition queue_empty :: "rt_run \<Rightarrow> bool" where
  "queue_empty r \<longleftrightarrow> rn_pending_actions r = [] \<and> rn_completed_action_ids r = [] \<and> rn_completed_action_sigs r = []"

lemma logged_empty: "queue_empty r \<Longrightarrow> logged [] r"
  by (simp add: queue_empty_def logged_def queue_inv_def)

text \<open>
  C34. An action is queued at most once. Whatever requests, starts and terminals a run sees, in any
  order and with failing appends and allocations, its queue keeps at most 16 pending and 32
  remembered calls, with distinct request ids and signatures; and as long as at most 32 requests
  were accepted, no two of them had the same signature: a call that was made before is answered or
  refused, not executed again.
\<close>

theorem action_queued_once:
  assumes "queue_life r0 log r" and "queue_empty r0"
  shows "queue_inv r \<and> (length log \<le> RT_MAX_COMPLETED_ACTIONS \<longrightarrow> distinct log)"
  using queue_life_logged [OF assms(1) logged_empty [OF assms(2)]] by (simp add: logged_def)

text \<open>
  The limit of that promise: with 32 remembered signatures a further one is not recorded, and the
  same call under a new request id is queued again.
\<close>

lemma repeated_call_queued_again:
  assumes "queue_inv r" and "length (rn_completed_action_sigs r) = RT_MAX_COMPLETED_ACTIONS"
    and "rt_action_runner_note_request qe source rid action [] task_id wrev r = (1, r1)"
    and "rid' \<noteq> []" and "rid' \<notin> set (map pa_request_id (rn_pending_actions r))" and "rid' \<noteq> rid"
    and "length rid < RT_SMALL" and "rt_action_terminal_index_of (rt_action_runner_note_terminal rid r1) rid' = None"
  shows "fst (rt_action_runner_note_request qe source rid' action [] task_id wrev (rt_action_runner_note_terminal rid r1)) = 1"
proof -
  let ?sig = "rt_action_signature RT_MED source action [] task_id wrev" and ?r = "rt_action_runner_note_terminal rid r1"
  let ?e = "queue_entry source rid action [] task_id wrev ?sig"
  have "logged (replicate 33 []) r" using assms(1) by (simp add: logged_def RT_MAX_COMPLETED_ACTIONS_def)
  from request_fields [OF assms(3) this assms(7)]
  have c: "r1 = r\<lparr>rn_pending_actions := rn_pending_actions r @ [?e]\<rparr>" "?sig \<notin> set (pending_sigs r)" "?sig \<notin> set (completed_sigs r)"
    "rid \<notin> set (map pa_request_id (rn_pending_actions r))" "length (rn_pending_actions r) < RT_MAX_PENDING_ACTIONS" "queue_inv r1" by auto
  have "pa_request_id ?e = rid" using assms(7) by (simp add: queue_entry_def)
  then have i: "rt_action_runner_pending_index r1 rid = Some (length (rn_pending_actions r))"
    using c(1,4) by (auto simp: rt_action_runner_pending_index_def intro!: find_index_append_new)
  have p: "rn_pending_actions ?r = rn_pending_actions r" using note_terminal_pending [of rid r1] i c(1) by (simp add: remove_nth_def)
  have s: "rn_completed_action_sigs ?r = rn_completed_action_sigs r"
    using note_terminal_sigs [OF c(6), of rid] i c(1) assms(2) by simp
  have "rt_action_pending_sig_index_of ?r ?sig = None" "rt_action_completed_sig_index_of ?r ?sig = None"
    using c(2,3) pending_sig_index_None completed_sig_index_None p s by simp_all
  moreover have "rt_action_runner_pending_index ?r rid' = None" using pending_index_None p assms(5) by simp
  ultimately show ?thesis using assms(4,8) p c(5) by (simp add: rt_action_runner_note_request_def)
qed

section \<open>A short life\<close>

definition demo_queue_env :: queue_env where
  "demo_queue_env = \<lparr>qe_prepared = (\<lambda>_. True), qe_committed = (\<lambda>_. True), qe_outcome = (\<lambda>_. Some ''action_succeeded''), qe_malloc_ok = (\<lambda>_. True)\<rparr>"

definition demo_queued :: rt_run where
  "demo_queued = snd (rt_action_runner_note_request demo_queue_env ''a'' ''r1'' ''message'' [] [] 0 zero_run)"

text \<open>The message is requested, its terminal is committed, and it is requested once more: the earlier outcome is the answer.\<close>

definition demo_repeated :: rt_run where
  "demo_repeated = snd (rt_action_runner_note_request demo_queue_env ''a'' ''r2'' ''message'' [] [] 0 (rt_action_runner_note_terminal ''r1'' demo_queued))"

abbreviation demo_sig :: string where
  "demo_sig \<equiv> rt_action_signature RT_MED ''a'' ''message'' [] [] 0"

lemma demo_queued_eval:
  "rt_action_runner_note_request demo_queue_env ''a'' ''r1'' ''message'' [] [] 0 zero_run = (1, demo_queued)"
  by (simp add: demo_queued_def rt_action_runner_note_request_def zero_run_def rt_action_runner_pending_index_def
      rt_action_terminal_index_of_def rt_action_pending_sig_index_of_def rt_action_completed_sig_index_of_def
      RT_MAX_PENDING_ACTIONS_def)

theorem action_queued_once_witness:
  "queue_inv demo_repeated \<and> length [demo_sig] \<le> RT_MAX_COMPLETED_ACTIONS \<and> distinct [demo_sig] \<and>
    fst (rt_action_runner_note_request demo_queue_env ''a'' ''r2'' ''message'' [] [] 0 (rt_action_runner_note_terminal ''r1'' demo_queued)) = 2"
proof -
  let ?r = "rt_action_runner_note_terminal ''r1'' demo_queued"
  let ?res = "rt_action_runner_note_request demo_queue_env ''a'' ''r2'' ''message'' [] [] 0 ?r"
  have two: "fst ?res = 2"
    by (simp add: demo_queued_def rt_action_runner_note_request_def zero_run_def rt_action_runner_pending_index_def queue_entry_def
        rt_action_terminal_index_of_def rt_action_pending_sig_index_of_def rt_action_completed_sig_index_of_def RT_SMALL_def
        RT_MAX_PENDING_ACTIONS_def rt_action_runner_note_terminal_def rt_action_terminal_add_def RT_MAX_COMPLETED_ACTIONS_def
        rt_action_completed_sig_add_def rt_action_pending_remove_at_def memoize_request_def rt_action_completed_sig_rid_def
        rt_action_emit_terminal_def demo_queue_env_def bound_to_work_def Let_def)
  have "queue_life zero_run [demo_sig] demo_queued"
    using queue_life.step [OF queue_life.start queue_step.request [OF demo_queued_eval]] by (simp add: RT_SMALL_def)
  then have "queue_life zero_run [demo_sig] ?r"
    using queue_life.step queue_step.terminal [of "''r1''" demo_queued] by (fastforce simp: RT_SMALL_def)
  moreover have "?res = (2, demo_repeated)" using two by (simp add: demo_repeated_def prod_eq_iff)
  ultimately have "queue_life zero_run [demo_sig] demo_repeated"
    using queue_life.step [OF _ queue_step.request [of demo_queue_env "''a''" "''r2''" "''message''" "[]" "[]" 0 ?r 2 demo_repeated]]
    by (fastforce simp: RT_SMALL_def)
  from action_queued_once [OF this] two show ?thesis by (simp add: queue_empty_def zero_run_def RT_MAX_COMPLETED_ACTIONS_def)
qed

end
