(* ===== verification/Run_Laws.thy ===== *)
theory Run_Laws
  imports Run_Step Action_Laws
begin

text \<open>
  The life of a run: what one step may change, that a run ends at most once and stays ended, that
  the number of passes is capped, and that a run which never has to wait ends after a bounded
  number of steps.
\<close>

section \<open>What the kernel relies on\<close>

definition run_over :: "rt_run \<Rightarrow> bool" where
  "run_over r \<longleftrightarrow> rn_state r = RT_RUN_DONE \<or> rn_state r = RT_RUN_FAILED"

text \<open>The members of a run that only the kernel writes.\<close>

definition keeps_control :: "rt_run \<Rightarrow> rt_run \<Rightarrow> bool" where
  "keeps_control r r' \<longleftrightarrow> rn_run_id r' = rn_run_id r \<and> rn_profile r' = rn_profile r \<and> rn_phase_index r' = rn_phase_index r \<and>
     rn_state r' = rn_state r \<and> rn_advance r' = rn_advance r \<and> rn_event_attempts r' = rn_event_attempts r \<and>
     rn_run_started_emitted r' = rn_run_started_emitted r \<and> rn_lifecycle_terminal_emitted r' = rn_lifecycle_terminal_emitted r \<and>
     rn_action_cli_only r' = rn_action_cli_only r \<and> rn_ctx_context_id r' = rn_ctx_context_id r"

definition keeps_kernel :: "'w kernel \<Rightarrow> 'w kernel \<Rightarrow> bool" where
  "keeps_kernel k k' \<longleftrightarrow> kn_lifecycle k' = kn_lifecycle k \<and> kn_created k' = kn_created k"

definition queue_bounded :: "rt_run \<Rightarrow> bool" where
  "queue_bounded r \<longleftrightarrow> length (rn_pending_actions r) \<le> RT_MAX_PENDING_ACTIONS"

definition unstarted :: "rt_run \<Rightarrow> nat" where
  "unstarted r = length (filter (\<lambda>p. \<not> pa_started p) (rn_pending_actions r))"

definition module_act :: "(rt_run \<Rightarrow> 'w kernel \<Rightarrow> int \<times> rt_run \<times> 'w kernel) \<Rightarrow> bool" where
  "module_act f \<longleftrightarrow> (\<forall>r k rc r' k'. f r k = (rc, r', k') \<longrightarrow>
     keeps_control r r' \<and> keeps_kernel k k' \<and> (queue_bounded r \<longrightarrow> queue_bounded r'))"

text \<open>
  The agents and actions leave the control members and the lifecycle events alone, and a launch that
  succeeds has started or retired the entry it was asked to launch.
\<close>

definition modules_ok :: "'w run_env \<Rightarrow> bool" where
  "modules_ok env \<longleftrightarrow>
     (\<forall>step. module_act (ve_agent_start env step)) \<and> (\<forall>step. module_act (ve_request_compaction env step)) \<and>
     (\<forall>rid action args. module_act (ve_action_launch env rid action args)) \<and>
     (\<forall>r k. keeps_kernel k (snd (ve_snapshot env r k))) \<and> (\<forall>r ty k. keeps_kernel k (ve_terminalize_tasks env r ty k)) \<and>
     (\<forall>rid action args r k r' k'. ve_action_launch env rid action args r k = (0, r', k') \<longrightarrow> unstarted r' < unstarted r)"

lemma modules_okD:
  assumes "modules_ok env"
  shows "ve_agent_start env step r k = (rc, r', k') \<Longrightarrow> keeps_control r r' \<and> keeps_kernel k k' \<and> (queue_bounded r \<longrightarrow> queue_bounded r')"
    and "ve_request_compaction env step r k = (rc, r', k') \<Longrightarrow> keeps_control r r' \<and> keeps_kernel k k' \<and> (queue_bounded r \<longrightarrow> queue_bounded r')"
    and "ve_action_launch env rid action args r k = (rc, r', k') \<Longrightarrow> keeps_control r r' \<and> keeps_kernel k k' \<and> (queue_bounded r \<longrightarrow> queue_bounded r')"
    and "ve_snapshot env r k = (rc, k') \<Longrightarrow> keeps_kernel k k'"
    and "keeps_kernel k (ve_terminalize_tasks env r ty k)"
    and "ve_action_launch env rid action args r k = (0, r', k') \<Longrightarrow> unstarted r' < unstarted r"
  using assms unfolding modules_ok_def module_act_def by (metis snd_conv)+

section \<open>The elementary writes\<close>

lemma persist_outcome: "snd (rt_run_persist_state io r d) = (r', d') \<Longrightarrow> \<exists>js. r' = r\<lparr>rn_run_state_json := js\<rparr>"
proof -
  have "\<exists>js. r = r\<lparr>rn_run_state_json := js\<rparr>" by (rule exI [of _ "rn_run_state_json r"]) simp
  then show "snd (rt_run_persist_state io r d) = (r', d') \<Longrightarrow> \<exists>js. r' = r\<lparr>rn_run_state_json := js\<rparr>"
    by (auto simp: rt_run_persist_state_def Let_def split: option.splits if_splits prod.splits)
qed

lemma set_run_state_outcome:
  assumes "set_run_state env s r k = (r', k')"
  obtains js d where "r' = r\<lparr>rn_state := s, rn_run_state_json := js\<rparr>" "k' = k\<lparr>kn_disk := d\<rparr>"
proof -
  obtain d where "snd (rt_run_persist_state (ve_io env) (r\<lparr>rn_state := s\<rparr>) (kn_disk k)) = (r', d)" "k' = k\<lparr>kn_disk := d\<rparr>"
    using assms by (auto simp: set_run_state_def on_disk_def rt_run_set_state_def split: prod.splits)
  with persist_outcome that show thesis by blast
qed

lemma set_phase_outcome:
  assumes "rt_run_set_phase_index env i r k = (r', k')"
  obtains js d where "r' = r\<lparr>rn_phase_index := i, rn_run_state_json := js\<rparr>" "k' = k\<lparr>kn_disk := d\<rparr>"
proof -
  obtain d where "snd (rt_run_persist_state (ve_io env) (r\<lparr>rn_phase_index := i\<rparr>) (kn_disk k)) = (r', d)" "k' = k\<lparr>kn_disk := d\<rparr>"
    using assms by (auto simp: rt_run_set_phase_index_def on_disk_def split: prod.splits)
  with persist_outcome that show thesis by blast
qed

section \<open>Moves of a run\<close>

definition terminal_type :: "string \<Rightarrow> bool" where
  "terminal_type ty \<longleftrightarrow> ty \<in> {''run_done'', ''run_failed'', ''run_canceled''}"

text \<open>The types of the terminal events that the log holds for a run.\<close>

definition endings :: "rt_run \<Rightarrow> 'w kernel \<Rightarrow> string list" where
  "endings r k = filter terminal_type (map le_type (filter (\<lambda>e. le_run_id e = rn_run_id r) (kn_lifecycle k)))"

text \<open>The lifecycle events of the other runs, and the identities given to runs.\<close>

definition foreign :: "rt_run \<Rightarrow> 'w kernel \<Rightarrow> lifecycle_event list \<times> string list" where
  "foreign r k = (filter (\<lambda>e. le_run_id e \<noteq> rn_run_id r) (kn_lifecycle k), kn_created k)"

definition phase_ok :: "rt_run \<Rightarrow> bool" where
  "phase_ok r \<longleftrightarrow> rn_phase_index r \<le> length (run_steps r)"

definition same_run :: "rt_run \<Rightarrow> rt_run \<Rightarrow> bool" where
  "same_run r r' \<longleftrightarrow> rn_run_id r' = rn_run_id r \<and> rn_profile r' = rn_profile r \<and> rn_event_attempts r' = rn_event_attempts r \<and>
     rn_ctx_context_id r' = rn_ctx_context_id r \<and> (phase_ok r \<longrightarrow> phase_ok r') \<and> (queue_bounded r \<longrightarrow> queue_bounded r')"

text \<open>A move that leaves the run alive, and one that ends it.\<close>

definition live_move :: "rt_run \<Rightarrow> 'w kernel \<Rightarrow> rt_run \<Rightarrow> 'w kernel \<Rightarrow> bool" where
  "live_move r k r' k' \<longleftrightarrow> same_run r r' \<and> rn_lifecycle_terminal_emitted r' = rn_lifecycle_terminal_emitted r \<and>
     endings r' k' = endings r k \<and> foreign r' k' = foreign r k \<and> \<not> run_over r'"

definition end_move :: "rt_run \<Rightarrow> 'w kernel \<Rightarrow> rt_run \<Rightarrow> 'w kernel \<Rightarrow> bool" where
  "end_move r k r' k' \<longleftrightarrow> same_run r r' \<and> rn_lifecycle_terminal_emitted r' \<and> foreign r' k' = foreign r k \<and>
     (rn_state r' = RT_RUN_DONE \<and> endings r' k' = endings r k @ [''run_done''] \<or>
      rn_state r' = RT_RUN_FAILED \<and> (endings r' k' = endings r k \<or> (\<exists>ty. ty \<noteq> ''run_done'' \<and> endings r' k' = endings r k @ [ty])))"

definition run_move :: "rt_run \<Rightarrow> 'w kernel \<Rightarrow> rt_run \<Rightarrow> 'w kernel \<Rightarrow> bool" where
  "run_move r k r' k' \<longleftrightarrow> live_move r k r' k' \<or> end_move r k r' k'"

lemma same_run_trans: "same_run r r' \<Longrightarrow> same_run r' r'' \<Longrightarrow> same_run r r''"
  by (simp add: same_run_def)

lemma live_move_trans [trans]: "live_move r k r' k' \<Longrightarrow> live_move r' k' r'' k'' \<Longrightarrow> live_move r k r'' k''"
  unfolding live_move_def by (auto intro: same_run_trans)

lemma live_run_move: "live_move r k r' k' \<Longrightarrow> run_move r' k' r'' k'' \<Longrightarrow> run_move r k r'' k''"
  unfolding run_move_def by (auto simp: end_move_def live_move_def intro: same_run_trans)

lemma endings_same: "rn_run_id r' = rn_run_id r \<Longrightarrow> kn_lifecycle k' = kn_lifecycle k \<Longrightarrow> endings r' k' = endings r k"
  by (simp add: endings_def)

text \<open>What a module does is a live move of a live run.\<close>

lemma module_live:
  "keeps_control r r' \<and> keeps_kernel k k' \<and> (queue_bounded r \<longrightarrow> queue_bounded r') \<Longrightarrow> \<not> run_over r \<Longrightarrow> live_move r k r' k'"
  by (auto simp: live_move_def keeps_control_def keeps_kernel_def same_run_def run_over_def phase_ok_def run_steps_def endings_def foreign_def)

lemma kernel_live: "keeps_kernel k k' \<Longrightarrow> \<not> run_over r \<Longrightarrow> live_move r k r k'"
  by (auto simp: live_move_def keeps_kernel_def same_run_def endings_def foreign_def)

lemma set_state_live:
  assumes "set_run_state env s r k = (r', k')" and "s \<noteq> RT_RUN_DONE" and "s \<noteq> RT_RUN_FAILED"
  shows "live_move r k r' k'"
  using assms(1)
proof (rule set_run_state_outcome)
  fix js d
  assume "r' = r\<lparr>rn_state := s, rn_run_state_json := js\<rparr>" "k' = k\<lparr>kn_disk := d\<rparr>"
  then show ?thesis using assms(2,3)
    by (simp add: live_move_def same_run_def run_over_def phase_ok_def run_steps_def endings_def foreign_def queue_bounded_def)
qed

lemma set_phase_live:
  assumes "rt_run_set_phase_index env i r k = (r', k')" and "i \<le> length (run_steps r)" and "\<not> run_over r"
  shows "live_move r k r' k'"
  using assms(1)
proof (rule set_phase_outcome)
  fix js d
  assume "r' = r\<lparr>rn_phase_index := i, rn_run_state_json := js\<rparr>" "k' = k\<lparr>kn_disk := d\<rparr>"
  then show ?thesis using assms(2,3)
    by (simp add: live_move_def same_run_def run_over_def phase_ok_def run_steps_def endings_def foreign_def queue_bounded_def)
qed

lemma emit_lifecycle_outcome:
  assumes "emit_lifecycle env ty why r k = (rc, k')"
  shows "rn_run_id r' = rn_run_id r \<Longrightarrow> endings r' k' = endings r k @ (if rc = 0 \<and> terminal_type ty then [ty] else []) \<and>
    foreign r' k' = foreign r k"
  using assms by (auto simp: emit_lifecycle_def endings_def foreign_def split: if_splits)

lemma set_error_fields [simp]:
  "rn_run_id (rt_run_set_error c m j r) = rn_run_id r" "rn_profile (rt_run_set_error c m j r) = rn_profile r"
  "rn_event_attempts (rt_run_set_error c m j r) = rn_event_attempts r" "rn_ctx_context_id (rt_run_set_error c m j r) = rn_ctx_context_id r"
  "rn_phase_index (rt_run_set_error c m j r) = rn_phase_index r" "rn_pending_actions (rt_run_set_error c m j r) = rn_pending_actions r"
  "rn_lifecycle_terminal_emitted (rt_run_set_error c m j r) = rn_lifecycle_terminal_emitted r"
  "rn_state (rt_run_set_error c m j r) = rn_state r" "rn_advance (rt_run_set_error c m j r) = rn_advance r"
  by (simp_all add: rt_run_set_error_def rt_run_set_error_code_def Let_def)

lemma same_run_fields:
  "rn_run_id r' = rn_run_id r \<Longrightarrow> rn_profile r' = rn_profile r \<Longrightarrow> rn_event_attempts r' = rn_event_attempts r \<Longrightarrow>
   rn_ctx_context_id r' = rn_ctx_context_id r \<Longrightarrow> rn_phase_index r' = rn_phase_index r \<Longrightarrow> rn_pending_actions r' = rn_pending_actions r \<Longrightarrow> same_run r r'"
  by (simp add: same_run_def phase_ok_def run_steps_def queue_bounded_def)

text \<open>Ending a run that has not ended.\<close>

lemma terminal_event_ends:
  assumes "apply_run_terminal_event env ty why fs r k = (r', k')" and "\<not> rn_lifecycle_terminal_emitted r" and "modules_ok env"
    and "fs = RT_RUN_DONE \<and> ty = ''run_done'' \<or> fs = RT_RUN_FAILED \<and> (ty = ''run_failed'' \<or> ty = ''run_canceled'')"
  shows "end_move r k r' k'"
proof -
  define r1 where "r1 = (if fs = RT_RUN_FAILED \<and> rn_last_error_code r = []
     then rt_run_set_error (if why \<noteq> [] then why else ''run_failed'') (if why \<noteq> [] then why else ''run failed'') [] r else r)"
  define k1 where "k1 = (if ty = ''run_failed'' then ve_terminalize_tasks env r1 ''task_failed'' k
     else if ty = ''run_canceled'' then ve_terminalize_tasks env r1 ''task_canceled'' k else k)"
  obtain rc k2 where e: "emit_lifecycle env ty why r1 k1 = (rc, k2)" by (metis prod.exhaust)
  define r2 where "r2 = (if rc \<noteq> 0 then rt_run_set_error ''terminal_event_sync_failed'' ''terminal event append/fsync failed'' [] r1 else r1)
     \<lparr>rn_lifecycle_terminal_emitted := True\<rparr>"
  define s where "s = (if rc \<noteq> 0 then RT_RUN_FAILED else fs)"
  have "set_run_state env s r2 k2 = (r', k')"
    using assms(1,2) e unfolding apply_run_terminal_event_def Let_def r1_def [symmetric] k1_def [symmetric] r2_def s_def
    by (cases "rc = 0") simp_all
  then obtain js d where r': "r' = r2\<lparr>rn_state := s, rn_run_state_json := js\<rparr>" and k': "k' = k2\<lparr>kn_disk := d\<rparr>"
    by (rule set_run_state_outcome)
  have same: "same_run r r'" by (rule same_run_fields) (simp_all add: r' r2_def r1_def)
  have k1: "kn_lifecycle k1 = kn_lifecycle k" "kn_created k1 = kn_created k" using modules_okD(5) [OF assms(3)] by (simp_all add: k1_def keeps_kernel_def)
  then have "endings r1 k1 = endings r k" by (intro endings_same) (simp_all add: r1_def)
  moreover have "endings r' k' = endings r1 k2" by (intro endings_same) (simp_all add: k' r' r2_def)
  moreover have "terminal_type ty" using assms(4) by (auto simp: terminal_type_def)
  ultimately have "endings r' k' = endings r k @ (if rc = 0 then [ty] else [])"
    using emit_lifecycle_outcome [OF e refl] by simp
  moreover have "foreign r' k' = foreign r k"
    using emit_lifecycle_outcome [OF e refl] k1 by (simp add: foreign_def k' r' r2_def r1_def)
  moreover have "rn_lifecycle_terminal_emitted r'" "rn_state r' = s" by (simp_all add: r' r2_def)
  ultimately show ?thesis using same assms(4) by (auto simp: end_move_def s_def)
qed

lemma ends:
  assumes "modules_ok env" and "\<not> rn_lifecycle_terminal_emitted r"
  shows "rt_run_finish env r k = (r', k') \<Longrightarrow> end_move r k r' k'"
    and "rt_run_fail env why r k = (r', k') \<Longrightarrow> end_move r k r' k'"
    and "rt_run_cancel env why r k = (r', k') \<Longrightarrow> end_move r k r' k'"
proof -
  note e = terminal_event_ends [OF _ assms(2,1)]
  show "rt_run_finish env r k = (r', k') \<Longrightarrow> end_move r k r' k'" by (rule e) (auto simp: rt_run_finish_def)
  show "rt_run_fail env why r k = (r', k') \<Longrightarrow> end_move r k r' k'" by (rule e) (auto simp: rt_run_fail_def)
  show "rt_run_cancel env why r k = (r', k') \<Longrightarrow> end_move r k r' k'" by (rule e) (auto simp: rt_run_cancel_def)
qed

lemma live_then:
  "live_move r k r1 k1 \<Longrightarrow> keeps_control r1 r2 \<Longrightarrow> rn_pending_actions r2 = rn_pending_actions r1 \<Longrightarrow> live_move r k r2 k1"
  by (rule live_move_trans [OF _ module_live]) (auto simp: keeps_kernel_def queue_bounded_def live_move_def)

lemma wait_live:
  shows "rt_run_wait_for_agent env sid r k = (r', k') \<Longrightarrow> live_move r k r' k'"
    and "rt_run_wait_for_action_job env rid action r k = (r', k') \<Longrightarrow> live_move r k r' k'"
    and "rt_run_wait_for_action_slot env rid action r k = (r', k') \<Longrightarrow> live_move r k r' k'"
  unfolding rt_run_wait_for_agent_def rt_run_wait_for_action_job_def rt_run_wait_for_action_slot_def
  by (auto split: prod.splits dest!: set_state_live elim!: live_then simp: keeps_control_def)

section \<open>Draining\<close>

definition run_live :: "rt_run \<Rightarrow> bool" where
  "run_live r \<longleftrightarrow> \<not> run_over r \<and> \<not> rn_lifecycle_terminal_emitted r"

lemma live_move_live: "live_move r k r' k' \<Longrightarrow> run_live r \<Longrightarrow> run_live r'"
  by (simp add: live_move_def run_live_def)

lemma keeps_control_trans: "keeps_control r r' \<Longrightarrow> keeps_control r' r'' \<Longrightarrow> keeps_control r r''"
  by (simp add: keeps_control_def)

lemma peek_next_None: "rt_action_runner_peek_next r a b c = None \<longleftrightarrow> unstarted r = 0"
  by (auto simp: rt_action_runner_peek_next_def unstarted_def find_None_iff find_Some_iff filter_empty_conv split: option.splits)

text \<open>A drain moves the run; when it does not have to wait, every entry was launched and the control members are as before.\<close>

definition drained :: "bool \<Rightarrow> step_result \<Rightarrow> rt_run \<Rightarrow> 'w kernel \<Rightarrow> rt_run \<Rightarrow> 'w kernel \<Rightarrow> bool" where
  "drained launched_any res r k r' k' \<longleftrightarrow> run_move r k r' k' \<and> rn_advance r' = rn_advance r \<and>
     (res = RT_STEP_ADVANCED \<or> res = RT_STEP_DONE \<longrightarrow> live_move r k r' k' \<and> keeps_control r r' \<and> unstarted r' = 0) \<and>
     (res = RT_STEP_ADVANCED \<longrightarrow> launched_any \<or> unstarted r > 0)"

lemma drained_step:
  "live_move r k r1 k1 \<Longrightarrow> keeps_control r r1 \<Longrightarrow> unstarted r > 0 \<Longrightarrow> drained True res r1 k1 r' k' \<Longrightarrow> drained b res r k r' k'"
  unfolding drained_def by (auto intro: live_run_move live_move_trans keeps_control_trans simp: keeps_control_def)

lemma terminal_event_advance: "apply_run_terminal_event env ty why fs r k = (r', k') \<Longrightarrow> rn_advance r' = rn_advance r"
  unfolding apply_run_terminal_event_def Let_def
  by (auto split: if_splits prod.splits elim!: set_run_state_outcome)

lemma wait_advance:
  "rt_run_wait_for_agent env sid r k = (r', k') \<Longrightarrow> rn_advance r' = rn_advance r"
  "rt_run_wait_for_action_job env rid action r k = (r', k') \<Longrightarrow> rn_advance r' = rn_advance r"
  "rt_run_wait_for_action_slot env rid action r k = (r', k') \<Longrightarrow> rn_advance r' = rn_advance r"
  unfolding rt_run_wait_for_agent_def rt_run_wait_for_action_job_def rt_run_wait_for_action_slot_def
  by (auto split: prod.splits elim!: set_run_state_outcome)

lemma phase_zero_live: "live_move r k r1 k1 \<Longrightarrow> live_move r k (r1\<lparr>rn_phase_index := 0\<rparr>) k1"
  by (auto simp: live_move_def same_run_def run_over_def phase_ok_def run_steps_def endings_def foreign_def queue_bounded_def)

lemma drain_outcome:
  assumes "modules_ok env"
  shows "drain_pending_effect env implicit b r k = Some (res, r', k') \<Longrightarrow> run_live r \<Longrightarrow> drained b res r k r' k'"
proof (induction "unstarted r" arbitrary: b r k rule: less_induct)
  case less
  show ?case
  proof (cases "rt_action_runner_peek_next r RT_SMALL RT_SMALL RT_LARGE")
    case None
    then have "r' = r" "k' = k" "res = (if b then RT_STEP_ADVANCED else RT_STEP_DONE)"
      using less.prems(1) by (auto simp: drain_pending_effect.simps)
    moreover have "live_move r k r k" using less.prems(2) by (auto simp: live_move_def same_run_def run_live_def)
    ultimately show ?thesis using None peek_next_None
      by (auto simp: drained_def run_move_def keeps_control_def)
  next
    case (Some x)
    then obtain rid action args where x: "x = (rid, action, args)" by (cases x) auto
    have pos: "unstarted r > 0" using Some peek_next_None [of r RT_SMALL RT_SMALL RT_LARGE] by auto
    obtain lr r1 k1 where l: "ve_action_launch env rid action args r k = (lr, r1, k1)" by (metis prod.exhaust)
    note ok = modules_okD(3) [OF assms l]
    have live: "live_move r k r1 k1" using module_live [OF ok] less.prems(2) by (simp add: run_live_def)
    then have live1: "run_live r1" using less.prems(2) live_move_live by blast
    have adv: "rn_advance r1 = rn_advance r" using ok by (simp add: keeps_control_def)
    have eq: "(if lr = 1 then Some (RT_STEP_WAITING_ACTION_SLOT, rt_run_wait_for_action_slot env rid action r1 k1)
       else if lr = 0 then
         (if rn_waiting_job_ids r1 \<noteq> [] then
            Some (RT_STEP_WAITING_JOB, rt_run_wait_for_action_job env rid action
              (if \<not> implicit \<and> \<not> rn_action_cli_only r1 \<and> \<not> one_pass_profile r1 then r1\<lparr>rn_phase_index := 0\<rparr> else r1) k1)
          else drain_pending_effect env implicit True r1 k1)
       else Some (RT_STEP_FAILED, rt_run_fail env ''action_launch'' r1 k1)) = Some (res, r', k')"
      using less.prems(1) Some x l by (simp add: drain_pending_effect.simps [of env implicit b r k])
    consider (again) "lr = 0" "drain_pending_effect env implicit True r1 k1 = Some (res, r', k')"
      | (slot) "res = RT_STEP_WAITING_ACTION_SLOT" "rt_run_wait_for_action_slot env rid action r1 k1 = (r', k')"
      | (job) r2 where "res = RT_STEP_WAITING_JOB" "rt_run_wait_for_action_job env rid action r2 k1 = (r', k')"
          "r2 = r1 \<or> r2 = r1\<lparr>rn_phase_index := 0\<rparr>"
      | (failed) "res = RT_STEP_FAILED" "rt_run_fail env ''action_launch'' r1 k1 = (r', k')"
      using eq by (auto split: if_splits)
    then show ?thesis
    proof cases
      case again
      have "unstarted r1 < unstarted r" using modules_okD(6) [OF assms] l again(1) by blast
      from less.hyps [OF this again(2) live1] show ?thesis using drained_step [OF live _ pos] ok by blast
    next
      case slot
      have "rn_advance r' = rn_advance r" using wait_advance(3) [OF slot(2)] adv by simp
      then show ?thesis using slot(1) live_move_trans [OF live wait_live(3) [OF slot(2)]] by (simp add: drained_def run_move_def)
    next
      case job
      then have "live_move r k r2 k1" using live phase_zero_live by blast
      then show ?thesis using job live_move_trans [OF _ wait_live(2)] wait_advance(2) adv by (fastforce simp: drained_def run_move_def)
    next
      case failed
      then have "end_move r1 k1 r' k'" using ends(2) [OF assms] live1 by (auto simp: run_live_def)
      moreover have "rn_advance r' = rn_advance r" using terminal_event_advance [OF failed(2) [unfolded rt_run_fail_def]] adv by simp
      ultimately show ?thesis using failed(1) live_run_move [OF live] by (auto simp: drained_def run_move_def)
    qed
  qed
qed

text \<open>The drain ends: each turn starts or retires an entry.\<close>

lemma drain_returns:
  assumes "modules_ok env"
  shows "\<exists>res r' k'. drain_pending_effect env implicit b r k = Some (res, r', k')"
proof (induction "unstarted r" arbitrary: b r k rule: less_induct)
  case less
  show ?case
  proof (cases "rt_action_runner_peek_next r RT_SMALL RT_SMALL RT_LARGE")
    case None
    then show ?thesis by (simp add: drain_pending_effect.simps)
  next
    case (Some x)
    then obtain rid action args where x: "x = (rid, action, args)" by (cases x) auto
    obtain lr r1 k1 where l: "ve_action_launch env rid action args r k = (lr, r1, k1)" by (metis prod.exhaust)
    have "lr = 0 \<Longrightarrow> \<exists>res r' k'. drain_pending_effect env implicit True r1 k1 = Some (res, r', k')"
      using less.hyps modules_okD(6) [OF assms] l by blast
    then show ?thesis using Some x l
      by (auto simp: drain_pending_effect.simps [of env implicit b r k])
  qed
qed

section \<open>One step\<close>

text \<open>
  A step that advances goes on to the next phase, launches pending actions, or starts over at phase
  zero. The state is the one after the pass was begun.
\<close>

definition advanced :: "rt_run \<Rightarrow> rt_run \<Rightarrow> bool" where
  "advanced r r' \<longleftrightarrow> rn_state r' = RT_RUN_READY \<and> rn_phase_index r' = 0 \<or>
     rn_state r' = rn_state r \<and> rn_phase_index r' = rn_phase_index r + 1 \<or>
     rn_state r' = rn_state r \<and> rn_phase_index r' = rn_phase_index r \<and> unstarted r' < unstarted r"

definition stepped :: "step_result \<Rightarrow> rt_run \<Rightarrow> 'w kernel \<Rightarrow> rt_run \<Rightarrow> 'w kernel \<Rightarrow> bool" where
  "stepped res r k r' k' \<longleftrightarrow> run_move r k r' k' \<and> rn_advance r' = rn_advance r \<and> (res = RT_STEP_ADVANCED \<longrightarrow> advanced r r')"

lemma stepped_end:
  assumes "modules_ok env" and "run_live r" and "res \<noteq> RT_STEP_ADVANCED"
  shows "rt_run_finish env r k = (r', k') \<Longrightarrow> stepped res r k r' k'"
    and "rt_run_fail env why r k = (r', k') \<Longrightarrow> stepped res r k r' k'"
proof -
  have e: "\<not> rn_lifecycle_terminal_emitted r" using assms(2) by (simp add: run_live_def)
  show "stepped res r k r' k'" if "rt_run_finish env r k = (r', k')"
    using ends(1) [OF assms(1) e that] terminal_event_advance that assms(3) unfolding rt_run_finish_def
    by (metis run_move_def stepped_def)
  show "stepped res r k r' k'" if "rt_run_fail env why r k = (r', k')"
    using ends(2) [OF assms(1) e that] terminal_event_advance that assms(3) unfolding rt_run_fail_def
    by (metis run_move_def stepped_def)
qed

lemma phase_advance:
  assumes "rt_run_advance_phase env r k = (r', k')" and "rn_phase_index r < length (run_steps r)" and "run_live r"
  shows "live_move r k r' k' \<and> rn_advance r' = rn_advance r \<and> rn_state r' = rn_state r \<and> rn_phase_index r' = rn_phase_index r + 1"
proof -
  note s = assms(1) [unfolded rt_run_advance_phase_def]
  have "live_move r k r' k'" using set_phase_live [OF s] assms(2,3) by (simp add: run_live_def)
  moreover from s have "rn_advance r' = rn_advance r \<and> rn_state r' = rn_state r \<and> rn_phase_index r' = rn_phase_index r + 1"
    by (rule set_phase_outcome) simp
  ultimately show ?thesis by simp
qed

lemma stepped_advance:
  "rt_run_advance_phase env r k = (r', k') \<Longrightarrow> rn_phase_index r < length (run_steps r) \<Longrightarrow> run_live r \<Longrightarrow> stepped RT_STEP_ADVANCED r k r' k'"
  by (drule (2) phase_advance) (simp add: stepped_def run_move_def advanced_def)

text \<open>A module ran before the rest of the step.\<close>

lemma stepped_after:
  assumes "keeps_control r r1 \<and> keeps_kernel k k1 \<and> (queue_bounded r \<longrightarrow> queue_bounded r1)" and "run_live r" and "stepped res r1 k1 r' k'"
    and "res = RT_STEP_ADVANCED \<Longrightarrow> rn_phase_index r' = rn_phase_index r1 + 1 \<and> rn_state r' = rn_state r1"
  shows "stepped res r k r' k'"
proof -
  have "live_move r k r1 k1" using module_live [OF assms(1)] assms(2) by (simp add: run_live_def)
  then show ?thesis using live_run_move assms by (auto simp: stepped_def advanced_def keeps_control_def)
qed

lemma finish_stepped:
  assumes "finish_advance env r k = (res, r', k')" and "modules_ok env" and "run_live r"
  shows "stepped res r k r' k'"
proof -
  note se = stepped_end [OF assms(2,3)]
  consider (wait) "res = RT_STEP_WAITING_JOB" "set_run_state env RT_RUN_WAITING_JOBS r k = (r', k')"
    | (ended) "res = RT_STEP_DONE" "rt_run_finish env r k = (r', k')"
    | (cycle) "res = RT_STEP_ADVANCED" "set_run_state env RT_RUN_READY (r\<lparr>rn_phase_index := 0\<rparr>) k = (r', k')"
    using assms(1) by (auto simp: finish_advance_def split: if_splits)
  then show ?thesis
  proof cases
    case wait
    moreover from wait(2) have "rn_advance r' = rn_advance r" by (rule set_run_state_outcome) simp
    ultimately show ?thesis using set_state_live [OF wait(2)] by (simp add: stepped_def run_move_def)
  next
    case cycle
    have "live_move r k r k" using assms(3) by (auto simp: live_move_def same_run_def run_live_def)
    from live_move_trans [OF phase_zero_live [OF this] set_state_live [OF cycle(2)]]
    have "live_move r k r' k'" by simp
    moreover from cycle(2) have "rn_advance r' = rn_advance r \<and> rn_state r' = RT_RUN_READY \<and> rn_phase_index r' = 0"
      by (rule set_run_state_outcome) simp
    ultimately show ?thesis by (auto simp: stepped_def run_move_def advanced_def)
  qed (use se in simp)
qed

lemma agent_stepped:
  assumes "step_agent env step r k = (res, r', k')" and "modules_ok env" and "run_live r" and "rn_phase_index r < length (run_steps r)"
  shows "stepped res r k r' k'"
proof -
  obtain lr r1 k1 where l: "ve_agent_start env step r k = (lr, r1, k1)" by (metis prod.exhaust)
  note ok1 = modules_okD(1) [OF assms(2) l]
  obtain rc r2 k2 where c: "ve_request_compaction env step r1 k1 = (rc, r2, k2)" by (metis prod.exhaust)
  note ok2 = modules_okD(2) [OF assms(2) c]
  have ok12: "keeps_control r r2 \<and> keeps_kernel k k2 \<and> (queue_bounded r \<longrightarrow> queue_bounded r2)"
    using ok1 ok2 keeps_control_trans by (auto simp: keeps_kernel_def)
  have after: "stepped res r k r' k'"
    if ok: "keeps_control r rx \<and> keeps_kernel k kx \<and> (queue_bounded r \<longrightarrow> queue_bounded rx)"
      and "res = RT_STEP_ADVANCED \<and> rt_run_advance_phase env rx kx = (r', k') \<or>
        res \<noteq> RT_STEP_ADVANCED \<and> (rt_run_finish env rx kx = (r', k') \<or> (\<exists>why. rt_run_fail env why rx kx = (r', k')))" for rx kx
  proof -
    have lx: "run_live rx" "rn_phase_index rx < length (run_steps rx)"
      using ok assms(3,4) by (auto simp: keeps_control_def run_live_def run_over_def run_steps_def)
    show ?thesis
    proof (rule stepped_after [OF ok assms(3)])
      show "stepped res rx kx r' k'" using that(2) stepped_advance [OF _ lx(2,1)] stepped_end [OF assms(2) lx(1)] by blast
      show "rn_phase_index r' = rn_phase_index rx + 1 \<and> rn_state r' = rn_state rx" if "res = RT_STEP_ADVANCED"
        using \<open>_ \<or> _\<close> that phase_advance [OF _ lx(2,1)] by metis
    qed
  qed
  show ?thesis
  proof (cases "lr > 0")
    case True
    obtain r3 k3 where a: "rt_run_advance_phase env r1 k1 = (r3, k3)" by (metis prod.exhaust)
    have r1: "run_live r1" "rn_phase_index r1 < length (run_steps r1)"
      using ok1 assms(3,4) by (auto simp: keeps_control_def run_live_def run_over_def run_steps_def)
    note p = phase_advance [OF a r1(2,1)]
    have w: "res = RT_STEP_WAITING_JOB" "rt_run_wait_for_agent env (sp_id step) r3 k3 = (r', k')"
      using assms(1) True l a by (auto simp: step_agent_def)
    have "live_move r1 k1 r' k'" using live_move_trans p wait_live(1) [OF w(2)] by blast
    then have "run_move r k r' k'"
      using live_run_move [OF module_live [OF ok1]] assms(3) by (auto simp: run_move_def run_live_def)
    then show ?thesis using w wait_advance(1) [OF w(2)] p ok1 by (simp add: stepped_def keeps_control_def)
  next
    case False
    show ?thesis
      using assms(1) False l c after [OF ok1] after [OF ok12]
      by (auto simp: step_agent_def split: if_splits)
  qed
qed

lemma dispatch_stepped:
  assumes "step_dispatch env r k = Some (res, r', k')" and "modules_ok env" and "run_live r" and "rn_phase_index r < length (run_steps r)"
  shows "stepped res r k r' k'"
proof -
  obtain res1 r1 k1 where d: "drain_pending_effect env False False r k = Some (res1, r1, k1)"
    using assms(1) by (auto simp: step_dispatch_def split: option.splits)
  note o = drain_outcome [OF assms(2) d assms(3)]
  show ?thesis
  proof (cases "res1 = RT_STEP_DONE \<or> res1 = RT_STEP_ADVANCED")
    case True
    then have l: "live_move r k r1 k1" and c: "keeps_control r r1" using o by (auto simp: drained_def)
    have "rt_run_advance_phase env r1 k1 = (r', k')" "res = RT_STEP_ADVANCED" using assms(1) d True by (auto simp: step_dispatch_def)
    moreover have "run_live r1" "rn_phase_index r1 < length (run_steps r1)"
      using c assms(3,4) by (auto simp: keeps_control_def run_live_def run_over_def run_steps_def)
    ultimately have p: "live_move r1 k1 r' k' \<and> rn_advance r' = rn_advance r1 \<and> rn_state r' = rn_state r1 \<and> rn_phase_index r' = rn_phase_index r1 + 1"
      using phase_advance by blast
    then show ?thesis using live_move_trans [OF l] c by (auto simp: stepped_def run_move_def advanced_def keeps_control_def)
  next
    case False
    then show ?thesis using assms(1) d o by (auto simp: step_dispatch_def stepped_def drained_def)
  qed
qed

lemma run_step_at_stepped:
  assumes "run_step_at env step r k = Some (res, r', k')" and "modules_ok env" and "run_live r" and "rn_phase_index r < length (run_steps r)"
  shows "stepped res r k r' k'"
proof -
  note se = stepped_end(2) [OF assms(2,3)]
  show ?thesis
    using assms(1) se stepped_advance [OF _ assms(4,3)] agent_stepped [OF _ assms(2,3,4)] dispatch_stepped [OF _ assms(2,3,4)]
    by (fastforce simp: run_step_at_def split: option.splits if_splits)
qed

lemma begin_outcome:
  assumes "begin_advance_if_needed env r k = (rc, r', k')" and "modules_ok env" and "run_live r"
  defines "fresh \<equiv> rn_phase_index r = 0 \<and> rn_state r = RT_RUN_READY"
  shows "rc \<noteq> 0 \<and> end_move r k r' k' \<and> rn_advance r' = rn_advance r \<or>
    rc = 0 \<and> live_move r k r' k' \<and> rn_phase_index r' = rn_phase_index r \<and> rn_pending_actions r' = rn_pending_actions r \<and>
    rn_state r' = (if rn_state r = RT_RUN_READY then RT_RUN_RUNNING else rn_state r) \<and>
    (if fresh then rn_advance r < 32 \<and> rn_advance r' = rn_advance r + 1 else rn_advance r' = rn_advance r)"
proof (cases "fresh \<and> rn_advance r \<ge> RT_MAX_PROFILE_PASSES")
  case True
  let ?e = "rt_run_set_error ''max_profile_passes_exceeded'' ''profile pass cap reached without quiescing'' [] r"
  have f: "rt_run_fail env ''max_profile_passes_exceeded'' ?e k = (r', k')" "rc = - 1"
    using assms(1) True unfolding fresh_def by (auto simp: begin_advance_if_needed_def)
  have "end_move ?e k r' k'" using ends(2) [OF assms(2) _ f(1)] assms(3) by (simp add: run_live_def)
  moreover have "same_run r ?e" "endings ?e k = endings r k" "foreign ?e k = foreign r k" by (auto intro: same_run_fields simp: endings_def foreign_def)
  ultimately have "end_move r k r' k'" using same_run_trans by (auto simp: end_move_def)
  then show ?thesis using f terminal_event_advance [OF f(1) [unfolded rt_run_fail_def]] by simp
next
  case False
  define r1 where "r1 = (if fresh then advance_flags_reset (r\<lparr>rn_advance := rn_advance r + 1\<rparr>) else r)"
  have r1: "same_run r r1" "rn_state r1 = rn_state r" "rn_phase_index r1 = rn_phase_index r" "rn_pending_actions r1 = rn_pending_actions r"
    "rn_lifecycle_terminal_emitted r1 = rn_lifecycle_terminal_emitted r" "endings r1 k = endings r k" "foreign r1 k = foreign r k"
    by (auto intro!: same_run_fields simp: r1_def advance_flags_reset_def endings_def foreign_def)
  then have l1: "live_move r k r1 k" using assms(3) by (simp add: live_move_def run_live_def run_over_def)
  have res: "rc = 0" "(if rn_state r = RT_RUN_READY then set_run_state env RT_RUN_RUNNING r1 k else (r1, k)) = (r', k')"
    using assms(1) False r1(2) unfolding begin_advance_if_needed_def fresh_def [symmetric] r1_def Let_def by (auto split: if_splits)
  have "live_move r k r' k' \<and> rn_phase_index r' = rn_phase_index r1 \<and> rn_pending_actions r' = rn_pending_actions r1 \<and>
      rn_state r' = (if rn_state r = RT_RUN_READY then RT_RUN_RUNNING else rn_state r) \<and> rn_advance r' = rn_advance r1"
  proof (cases "rn_state r = RT_RUN_READY")
    case True
    then have s: "set_run_state env RT_RUN_RUNNING r1 k = (r', k')" using res(2) by simp
    have "live_move r k r' k'" using live_move_trans [OF l1 set_state_live [OF s]] by simp
    moreover from s have "rn_phase_index r' = rn_phase_index r1 \<and> rn_pending_actions r' = rn_pending_actions r1 \<and>
      rn_state r' = RT_RUN_RUNNING \<and> rn_advance r' = rn_advance r1" by (rule set_run_state_outcome) simp
    ultimately show ?thesis using True by simp
  qed (use res(2) l1 r1 in auto)
  moreover have "rn_advance r1 = (if fresh then rn_advance r + 1 else rn_advance r)" by (simp add: r1_def advance_flags_reset_def)
  moreover have "fresh \<longrightarrow> rn_advance r < 32" using False by (simp add: RT_MAX_PROFILE_PASSES_def not_le)
  ultimately show ?thesis using res(1) r1 by simp
qed

lemma announce_live:
  assumes "announce_start env r k = (r', k')" and "run_live r"
  shows "live_move r k r' k' \<and> rn_phase_index r' = rn_phase_index r \<and> rn_pending_actions r' = rn_pending_actions r \<and>
    rn_state r' = rn_state r \<and> rn_advance r' = rn_advance r"
proof -
  have "endings r' k' = endings r k \<and> foreign r' k' = foreign r k"
    using assms(1) by (auto simp: announce_start_def emit_lifecycle_def endings_def foreign_def terminal_type_def split: if_splits)
  moreover have "same_run r r'" using assms(1) by (auto intro: same_run_fields simp: announce_start_def split: if_splits)
  ultimately show ?thesis using assms by (auto simp: announce_start_def live_move_def run_live_def run_over_def split: if_splits)
qed

text \<open>The run after its pass was begun, and the rest of the step.\<close>

definition begun :: "rt_run \<Rightarrow> rt_run \<Rightarrow> bool" where
  "begun r r1 \<longleftrightarrow> rn_phase_index r1 = rn_phase_index r \<and> rn_pending_actions r1 = rn_pending_actions r \<and>
     rn_state r1 = (if rn_state r = RT_RUN_READY then RT_RUN_RUNNING else rn_state r) \<and>
     (if rn_phase_index r = 0 \<and> rn_state r = RT_RUN_READY then rn_advance r < 32 \<and> rn_advance r1 = rn_advance r + 1
      else rn_advance r1 = rn_advance r)"

lemma step_ready_outcome:
  assumes "rt_run_step_ready env r k = Some (res, r', k')" and "modules_ok env" and "run_live r" and "phase_ok r"
  shows "res = RT_STEP_FAILED \<and> end_move r k r' k' \<and> rn_advance r' = rn_advance r \<or>
    (\<exists>r1 k1. live_move r k r1 k1 \<and> begun r r1 \<and> stepped res r1 k1 r' k')"
proof -
  obtain r0 k0 where a: "announce_start env r k = (r0, k0)" by (metis prod.exhaust)
  note al = announce_live [OF a assms(3)]
  obtain rc k1 where s: "ve_snapshot env r0 k0 = (rc, k1)" by (metis prod.exhaust)
  have l0: "run_live r0" using al live_move_live assms(3) by blast
  have l1: "live_move r k r0 k1"
    using al live_move_trans [OF _ kernel_live [OF modules_okD(4) [OF assms(2) s]]] l0 by (auto simp: run_live_def)
  obtain rc1 r2 k2 where b: "begin_advance_if_needed env r0 k1 = (rc1, r2, k2)" by (metis prod.exhaust)
  note bo = begin_outcome [OF b assms(2) l0]
  consider (snapshot) "rc \<noteq> 0" | (capped) "rc = 0" "rc1 \<noteq> 0" | (go) "rc = 0" "rc1 = 0" by blast
  then show ?thesis
  proof cases
    case snapshot
    then have f: "rt_run_fail env ''snapshot_failed'' r0 k1 = (r', k')" "res = RT_STEP_FAILED"
      using assms(1) a s by (auto simp: rt_run_step_ready_def)
    have "end_move r0 k1 r' k'" using ends(2) [OF assms(2) _ f(1)] l0 by (simp add: run_live_def)
    then have "end_move r k r' k'" using l1 same_run_trans by (auto simp: end_move_def live_move_def)
    then show ?thesis using f terminal_event_advance [OF f(1) [unfolded rt_run_fail_def]] al by simp
  next
    case capped
    then have "r' = r2" "k' = k2" "res = RT_STEP_FAILED" using assms(1) a s b by (auto simp: rt_run_step_ready_def)
    moreover have "end_move r0 k1 r2 k2" "rn_advance r2 = rn_advance r0" using bo capped by auto
    ultimately show ?thesis using l1 same_run_trans al by (auto simp: end_move_def live_move_def)
  next
    case go
    then have l2: "live_move r0 k1 r2 k2" and bg: "begun r r2" using bo al by (auto simp: begun_def)
    have r2: "run_live r2" "phase_ok r2"
      using live_move_live [OF l2 l0] l1 l2 assms(4) by (auto simp: live_move_def same_run_def)
    let ?next = "if rn_phase_index r2 < length (run_steps r2) then Some (run_steps r2 ! rn_phase_index r2) else None"
    have eq: "(if rn_pending_actions r2 \<noteq> [] \<and> \<not> step_is_explicit_action_runner ?next then drain_pending_effect env True False r2 k2
        else (case ?next of None \<Rightarrow> Some (finish_advance env r2 k2) | Some step \<Rightarrow> run_step_at env step r2 k2)) = Some (res, r', k')"
      using assms(1) a s b go by (simp add: rt_run_step_ready_def Let_def)
    have "stepped res r2 k2 r' k'"
    proof (cases "rn_pending_actions r2 \<noteq> [] \<and> \<not> step_is_explicit_action_runner ?next")
      case True
      then have "drained False res r2 k2 r' k'" using eq drain_outcome [OF assms(2) _ r2(1)] by simp
      then show ?thesis by (auto simp: drained_def stepped_def advanced_def keeps_control_def)
    next
      case False
      then show ?thesis using eq finish_stepped [OF _ assms(2) r2(1)] run_step_at_stepped [OF _ assms(2) r2(1)]
        by (auto split: if_splits)
    qed
    then show ?thesis using live_move_trans [OF l1 l2] bg by blast
  qed
qed

lemma step_ready_moves:
  assumes "rt_run_step_ready env r k = Some (res, r', k')" and "modules_ok env" and "run_live r" and "phase_ok r"
  shows "run_move r k r' k' \<and> (rn_advance r \<le> 32 \<longrightarrow> rn_advance r' \<le> 32)"
proof -
  have inc: "x < 32 \<Longrightarrow> x + 1 \<le> (32 :: 32 word)" for x by (simp add: inc_le)
  from step_ready_outcome [OF assms] show ?thesis
  proof
    assume "\<exists>r1 k1. live_move r k r1 k1 \<and> begun r r1 \<and> stepped res r1 k1 r' k'"
    then obtain r1 k1 where m: "live_move r k r1 k1" "begun r r1" "stepped res r1 k1 r' k'" by blast
    have "rn_advance r \<le> 32 \<longrightarrow> rn_advance r1 \<le> 32" using m(2) inc by (auto simp: begun_def split: if_splits)
    then show ?thesis using m live_run_move by (auto simp: stepped_def)
  qed (simp add: run_move_def)
qed

lemma step_ready_returns:
  assumes "modules_ok env"
  shows "\<exists>res r' k'. rt_run_step_ready env r k = Some (res, r', k')"
proof -
  have d: "step_dispatch env r k \<noteq> None" for r k
  proof -
    obtain res r' k' where "drain_pending_effect env False False r k = Some (res, r', k')" using drain_returns [OF assms] by blast
    then show ?thesis by (auto simp: step_dispatch_def)
  qed
  have "run_step_at env step r k \<noteq> None" for step r k
    using d by (simp add: run_step_at_def split: option.split del: not_None_eq)
  moreover have "drain_pending_effect env True False r k \<noteq> None" for r k using drain_returns [OF assms, of True False r k] by auto
  ultimately have "rt_run_step_ready env r k \<noteq> None"
    by (simp add: rt_run_step_ready_def Let_def split: prod.split option.split del: not_None_eq)
  then show ?thesis by (metis option.exhaust prod.exhaust)
qed

section \<open>A bound on the steps\<close>

definition steps_left :: "rt_run \<Rightarrow> nat" where
  "steps_left r =
     (2 * (32 - unat (rn_advance r)) + (if rn_state r = RT_RUN_READY \<and> rn_phase_index r = 0 then 0 else 1)) *
       ((length (run_steps r) + 1) * 17) +
     (length (run_steps r) - rn_phase_index r) * 17 + unstarted r"

lemma unstarted_le: "queue_bounded r \<Longrightarrow> unstarted r \<le> 16"
  unfolding queue_bounded_def unstarted_def RT_MAX_PENDING_ACTIONS_def by (rule order_trans [OF length_filter_le])

lemma steps_left_stepped:
  assumes "advanced r1 r'" and "rn_state r1 = RT_RUN_RUNNING" and "rn_advance r' = rn_advance r1" and "same_run r1 r'"
    and "phase_ok r1" and "queue_bounded r1"
  shows "steps_left r' < steps_left r1"
proof -
  have n: "run_steps r' = run_steps r1" using assms(4) by (simp add: same_run_def run_steps_def)
  have b: "unstarted r' \<le> 16" "rn_phase_index r' \<le> length (run_steps r1)"
    using assms(4-6) unstarted_le n by (auto simp: same_run_def phase_ok_def)
  let ?n = "length (run_steps r1)" and ?a = "2 * (32 - unat (rn_advance r1))"
  have l1: "steps_left r1 = (?a + 1) * ((?n + 1) * 17) + (?n - rn_phase_index r1) * 17 + unstarted r1"
    using assms(2) by (simp add: steps_left_def)
  from assms(1) consider "rn_state r' = RT_RUN_READY" "rn_phase_index r' = 0"
    | "rn_state r' = RT_RUN_RUNNING" "rn_phase_index r' = rn_phase_index r1 + 1"
    | "rn_state r' = RT_RUN_RUNNING" "rn_phase_index r' = rn_phase_index r1" "unstarted r' < unstarted r1"
    using assms(2) by (auto simp: advanced_def)
  then show ?thesis
  proof cases
    case 1
    then have "steps_left r' = ?a * ((?n + 1) * 17) + ?n * 17 + unstarted r'" using assms(3) n by (simp add: steps_left_def)
    then show ?thesis using l1 b by (simp add: algebra_simps)
  next
    case 2
    then have "steps_left r' = (?a + 1) * ((?n + 1) * 17) + (?n - (rn_phase_index r1 + 1)) * 17 + unstarted r'"
      using assms(3) n by (simp add: steps_left_def)
    moreover have "(?n - rn_phase_index r1) * 17 = (?n - (rn_phase_index r1 + 1)) * 17 + 17" using b 2 by (simp add: algebra_simps)
    ultimately show ?thesis using l1 b by linarith
  next
    case 3
    then show ?thesis using l1 assms(3) n by (simp add: steps_left_def)
  qed
qed

lemma steps_left_begun:
  assumes "begun r r1" and "rn_profile r1 = rn_profile r"
  shows "steps_left r1 \<le> steps_left r"
proof -
  have n: "run_steps r1 = run_steps r" using assms(2) by (simp add: run_steps_def)
  have u: "unstarted r1 = unstarted r" using assms(1) by (simp add: begun_def unstarted_def)
  show ?thesis
  proof (cases "rn_phase_index r = 0 \<and> rn_state r = RT_RUN_READY")
    case True
    then have a: "rn_advance r < 32" "rn_advance r1 = rn_advance r + 1" using assms(1) by (auto simp: begun_def)
    have lt: "unat (rn_advance r) < 32" using a(1) by (simp add: word_less_nat_alt)
    have "unat (rn_advance r1) = unat (rn_advance r) + 1" using lt by (simp add: a(2) unat_word_ariths)
    then have "2 * (32 - unat (rn_advance r1)) + 1 \<le> 2 * (32 - unat (rn_advance r))" using lt by simp
    then have "(2 * (32 - unat (rn_advance r1)) + 1) * ((length (run_steps r) + 1) * 17) \<le> 2 * (32 - unat (rn_advance r)) * ((length (run_steps r) + 1) * 17)"
      by (rule mult_le_mono1)
    then show ?thesis using True assms(1) n u by (simp add: steps_left_def begun_def)
  next
    case False
    then show ?thesis using assms(1) n u by (auto simp: steps_left_def begun_def)
  qed
qed

inductive advance_chain :: "'w run_env \<Rightarrow> nat \<Rightarrow> rt_run \<Rightarrow> 'w kernel \<Rightarrow> rt_run \<Rightarrow> 'w kernel \<Rightarrow> bool" for env where
  start: "advance_chain env 0 r k r k"
| step: "advance_chain env n r k r1 k1 \<Longrightarrow> rn_state r1 = RT_RUN_READY \<or> rn_state r1 = RT_RUN_RUNNING \<Longrightarrow>
    rt_run_step_ready env r1 k1 = Some (RT_STEP_ADVANCED, r2, k2) \<Longrightarrow> advance_chain env (Suc n) r k r2 k2"

lemma step_ready_decreases:
  assumes "rt_run_step_ready env r k = Some (RT_STEP_ADVANCED, r', k')" and "modules_ok env" and "run_live r" and "phase_ok r"
    and "queue_bounded r" and "rn_state r = RT_RUN_READY \<or> rn_state r = RT_RUN_RUNNING"
  shows "steps_left r' < steps_left r \<and> run_live r' \<and> phase_ok r' \<and> queue_bounded r' \<and> rn_profile r' = rn_profile r"
proof -
  obtain r1 k1 where m: "live_move r k r1 k1" "begun r r1" "stepped RT_STEP_ADVANCED r1 k1 r' k'"
    using step_ready_outcome [OF assms(1-4)] by auto
  have r1: "run_live r1" "phase_ok r1" "queue_bounded r1" "rn_profile r1 = rn_profile r"
    using m(1) live_move_live assms(3-5) by (auto simp: live_move_def same_run_def)
  have s1: "rn_state r1 = RT_RUN_RUNNING" using m(2) assms(6) by (auto simp: begun_def)
  have adv: "advanced r1 r'" "rn_advance r' = rn_advance r1" "run_move r1 k1 r' k'" using m(3) by (auto simp: stepped_def)
  have "\<not> run_over r'" using adv(1) s1 by (auto simp: advanced_def run_over_def)
  then have l: "live_move r1 k1 r' k'" using adv(3) by (auto simp: run_move_def end_move_def run_over_def)
  then have same: "same_run r1 r'" by (simp add: live_move_def)
  have "steps_left r' < steps_left r1" by (rule steps_left_stepped [OF adv(1) s1 adv(2) same r1(2,3)])
  also have "steps_left r1 \<le> steps_left r" by (rule steps_left_begun [OF m(2) r1(4)])
  finally show ?thesis using same r1 live_move_live [OF l r1(1)] by (auto simp: same_run_def)
qed

lemma chain_decreases:
  assumes "advance_chain env n r k r' k'" and "modules_ok env" and "run_live r" and "phase_ok r" and "queue_bounded r"
  shows "steps_left r' + n \<le> steps_left r \<and> run_live r' \<and> phase_ok r' \<and> queue_bounded r'"
  using assms
proof (induction rule: advance_chain.induct)
  case (step n r k r1 k1 r2 k2)
  then have i: "steps_left r1 + n \<le> steps_left r" "run_live r1" "phase_ok r1" "queue_bounded r1" by auto
  from step_ready_decreases [OF step.hyps(3) step.prems(1) i(2-4) step.hyps(2)] i(1) show ?case by linarith
qed simp

text \<open>
  C6. A run cannot keep the runtime busy. Each step of a run returns, and however the agents, actions
  and tasks answer, a run that never has to wait is ended or stopped after a bounded number of
  steps: at most 32 passes over its profile, each with at most one step per phase and one per
  pending action.
\<close>

theorem run_steps_bounded:
  assumes "modules_ok env" and "run_live r" and "phase_ok r" and "queue_bounded r" and "advance_chain env n r k r' k'"
  shows "n \<le> 66 * (length (run_steps r) + 1) * 17 \<and> (\<exists>res r'' k''. rt_run_step_ready env r' k' = Some (res, r'', k''))"
proof
  have "n \<le> steps_left r" using chain_decreases [OF assms(5,1-4)] by linarith
  also have "steps_left r \<le> 65 * ((length (run_steps r) + 1) * 17) + length (run_steps r) * 17 + 16"
    unfolding steps_left_def using unstarted_le [OF assms(4)]
    by (intro add_mono mult_le_mono1) auto
  also have "\<dots> \<le> 66 * (length (run_steps r) + 1) * 17" by simp
  finally show "n \<le> 66 * (length (run_steps r) + 1) * 17" .
  show "\<exists>res r'' k''. rt_run_step_ready env r' k' = Some (res, r'', k'')" by (rule step_ready_returns [OF assms(1)])
qed

section \<open>A small run\<close>

text \<open>
  Agents that finish at once, and actions that are retired when they are launched. The profile has a
  step for another kind of event and a dispatch step.
\<close>

definition retire_launch :: "string \<Rightarrow> string \<Rightarrow> string \<Rightarrow> rt_run \<Rightarrow> 'w kernel \<Rightarrow> int \<times> rt_run \<times> 'w kernel" where
  "retire_launch rid action args r k =
     (let r' = rt_action_runner_note_terminal rid r in if unstarted r' < unstarted r then (0, r', k) else (- 1, r, k))"

definition small_env :: "'w run_env" where
  "small_env = \<lparr>ve_io = good_io, ve_queue = demo_queue_env, ve_append_ok = (\<lambda>_ _ _. True), ve_terminalize_tasks = (\<lambda>_ _ k. k),
     ve_snapshot = (\<lambda>_ k. (0, k)), ve_task_event_type = (\<lambda>_. False), ve_select_work_consequence = (\<lambda>_ _. 1), ve_outcome_matches = (\<lambda>_ _. 0),
     ve_has_actionable = (\<lambda>_ _. False), ve_agent_start = (\<lambda>_ r k. (0, r, k)), ve_action_launch = retire_launch,
     ve_request_compaction = (\<lambda>_ r k. (0, r, k))\<rparr>"

definition small_profile :: rt_profile where
  "small_profile = \<lparr>pf_version = 1, pf_name = ''small'', pf_description = [],
     pf_steps = [\<lparr>sp_id = ''a'', sp_type = ''agent'', sp_target = ''a'', sp_gate = ''event_kind:timer'', sp_non_critical = False\<rparr>,
       \<lparr>sp_id = ''b'', sp_type = ''builtin'', sp_target = ''action_runner'', sp_gate = [], sp_non_critical = False\<rparr>],
     pf_one_pass = False, pf_serialize_contexts = True, pf_retry_attempts = 1, pf_operation_timeout_ms = 0\<rparr>"

definition small_run :: rt_run where
  "small_run = zero_run\<lparr>rn_run_id := ''run_001'', rn_ctx_context_id := ''c'', rn_event_kind := ''message'', rn_profile := Some small_profile\<rparr>"

definition small_kernel :: "unit kernel" where
  "small_kernel = \<lparr>kn_disk = [], kn_runner = rt_jobrunner_init [],
     kn_os = \<lparr>jo_files = (\<lambda>_. None), jo_reads = (\<lambda>_. []), jo_wait = (\<lambda>_. None), jo_signals = [], jo_broker = (\<lambda>b. b)\<rparr>,
     kn_lifecycle = [], kn_outbox_retry = False, kn_created = [''run_001''], kn_rest = ()\<rparr>"

lemma module_control [simp]:
  "keeps_control r (rt_action_terminal_add rid r)" "keeps_control r (rt_action_completed_sig_add sig rid r)"
  "keeps_control r (rt_action_pending_remove_at i r)"
  by (simp_all add: rt_action_terminal_add_def rt_action_completed_sig_add_def rt_action_pending_remove_at_def keeps_control_def)

lemma note_terminal_control: "keeps_control r (rt_action_runner_note_terminal rid r)"
  unfolding rt_action_runner_note_terminal_def Let_def
  by (auto split: option.split intro: keeps_control_trans [OF keeps_control_trans [OF module_control(1,2)] module_control(3)]
      keeps_control_trans [OF module_control(1,3)])

lemma note_terminal_bounded: "queue_bounded r \<Longrightarrow> queue_bounded (rt_action_runner_note_terminal rid r)"
  by (auto simp: queue_bounded_def note_terminal_pending remove_nth_def split: option.split)

lemma retire_launch_ok: "module_act (retire_launch rid action args)"
proof -
  have "keeps_control r r" for r by (simp add: keeps_control_def)
  then show ?thesis using note_terminal_control note_terminal_bounded
    by (auto simp: module_act_def retire_launch_def Let_def keeps_kernel_def split: if_splits)
qed

lemma small_modules_ok: "modules_ok (small_env :: 'w run_env)"
proof -
  have "module_act (\<lambda>r (k :: 'w kernel). (0, r, k))" by (simp add: module_act_def keeps_control_def keeps_kernel_def)
  moreover have "unstarted r' < unstarted r" if "retire_launch rid action args r k = (0, r', k')" for rid action args r r' and k :: "'w kernel" and k'
    using that by (auto simp: retire_launch_def Let_def split: if_splits)
  ultimately show ?thesis by (auto simp: modules_ok_def small_env_def retire_launch_ok keeps_kernel_def)
qed

lemma small_step: "\<exists>r' k'. advance_chain small_env 1 small_run small_kernel r' k'"
proof -
  let ?k = "snd (emit_lifecycle small_env ''run_started'' [] small_run small_kernel)"
  let ?r = "advance_flags_reset (small_run\<lparr>rn_run_started_emitted := True, rn_advance := 1\<rparr>)"
  obtain r1 k1 where s: "set_run_state small_env RT_RUN_RUNNING ?r ?k = (r1, k1)" by (metis prod.exhaust)
  then obtain js where r1: "r1 = ?r\<lparr>rn_state := RT_RUN_RUNNING, rn_run_state_json := js\<rparr>" by (rule set_run_state_outcome)
  have b: "begin_advance_if_needed small_env (small_run\<lparr>rn_run_started_emitted := True\<rparr>) ?k = (0, r1, k1)"
    using s by (simp add: begin_advance_if_needed_def Let_def small_run_def zero_run_def RT_MAX_PROFILE_PASSES_def advance_flags_reset_def)
  obtain r2 k2 where a: "rt_run_advance_phase small_env r1 k1 = (r2, k2)" by (metis prod.exhaust)
  have "announce_start small_env small_run small_kernel = (small_run\<lparr>rn_run_started_emitted := True\<rparr>, ?k)"
    by (simp add: announce_start_def small_run_def zero_run_def)
  then have "rt_run_step_ready small_env small_run small_kernel = Some (RT_STEP_ADVANCED, r2, k2)"
    using b a r1
    by (simp add: rt_run_step_ready_def small_env_def [THEN arg_cong, of ve_snapshot] run_steps_def small_run_def zero_run_def
        small_profile_def advance_flags_reset_def run_step_at_def gate_failure_def step_gate_allows_def step_gate_skip_reason_def
        event_kind_gate_matches_def kind_in_list.simps Let_def)
  moreover have "rn_state small_run = RT_RUN_READY" by (simp add: small_run_def zero_run_def)
  ultimately show ?thesis using advance_chain.step [OF advance_chain.start] by fastforce
qed

theorem run_steps_bounded_witness:
  "\<exists>r' k' res r'' k''. advance_chain small_env 1 small_run small_kernel r' k' \<and> (1 :: nat) \<le> 66 * (length (run_steps small_run) + 1) * 17 \<and>
    rt_run_step_ready small_env r' k' = Some (res, r'', k'')"
proof -
  obtain r' k' where c: "advance_chain small_env 1 small_run small_kernel r' k'" using small_step by blast
  have "run_live small_run" "phase_ok small_run" "queue_bounded small_run"
    by (simp_all add: run_live_def run_over_def phase_ok_def queue_bounded_def small_run_def zero_run_def)
  from run_steps_bounded [OF small_modules_ok this c] c show ?thesis by blast
qed

end
