(* ===== verification/Run_Life.thy ===== *)
theory Run_Life
  imports Scheduler Run_Laws
begin

text \<open>
  The whole life of one run, under everything that the scheduler, the jobs, the intake and the other
  runs do to it: it ends at most once, what the log says agrees with its state, and nothing changes
  a run that has ended.
\<close>

section \<open>What the scheduler relies on\<close>

text \<open>The completion of a job may move the cursor back, when an agent's answer has to be repaired.\<close>

definition completes_job :: "(rt_job \<Rightarrow> rt_run \<Rightarrow> 'w kernel \<Rightarrow> int \<times> rt_run \<times> 'w kernel) \<Rightarrow> bool" where
  "completes_job f \<longleftrightarrow> (\<forall>j r k rc r' k'. f j r k = (rc, r', k') \<longrightarrow>
     keeps_control r (r'\<lparr>rn_phase_index := rn_phase_index r\<rparr>) \<and> rn_phase_index r' \<le> rn_phase_index r \<and> keeps_kernel k k' \<and>
     (queue_bounded r \<longrightarrow> queue_bounded r'))"

definition sched_modules_ok :: "'w sched_env \<Rightarrow> bool" where
  "sched_modules_ok env \<longleftrightarrow> modules_ok (se_run env) \<and>
     completes_job (se_agent_complete_job env) \<and> completes_job (se_action_complete_job env) \<and>
     (\<forall>r k made r' k'. se_recommit_inbound env r k = (made, r', k') \<longrightarrow>
        keeps_control r r' \<and> keeps_kernel k k' \<and> (queue_bounded r \<longrightarrow> queue_bounded r'))"

definition complete_job :: "'w sched_env \<Rightarrow> rt_job \<Rightarrow> rt_run \<Rightarrow> 'w kernel \<Rightarrow> int \<times> rt_run \<times> 'w kernel" where
  "complete_job env j = (if jb_kind j = JOB_AGENT then se_agent_complete_job env else se_action_complete_job env) j"

lemma complete_job_keeps:
  assumes "sched_modules_ok env" and "complete_job env j r k = (rc, r', k')"
  shows "keeps_control r (r'\<lparr>rn_phase_index := rn_phase_index r\<rparr>) \<and> rn_phase_index r' \<le> rn_phase_index r \<and> keeps_kernel k k' \<and>
    (queue_bounded r \<longrightarrow> queue_bounded r')"
proof -
  have "completes_job (complete_job env)"
    using assms(1) unfolding sched_modules_ok_def completes_job_def complete_job_def by auto
  then show ?thesis using assms(2) unfolding completes_job_def by blast
qed

section \<open>The invariant of a run\<close>

definition attempts_ok :: "rt_run \<Rightarrow> bool" where
  "attempts_ok r \<longleftrightarrow>
     (case rn_profile r of
        None \<Rightarrow> rn_event_attempts r = 0
      | Some p \<Rightarrow> rn_event_attempts r \<le> (if pf_retry_attempts p > 0 then word_of_int (pf_retry_attempts p) else 0))"

lemma attempts_ok_same: "rn_profile r' = rn_profile r \<Longrightarrow> rn_event_attempts r' = rn_event_attempts r \<Longrightarrow> attempts_ok r' = attempts_ok r"
  by (simp add: attempts_ok_def split: option.split)

definition endings_ok :: "rt_run \<Rightarrow> string list \<Rightarrow> bool" where
  "endings_ok r es \<longleftrightarrow>
     (if rn_state r = RT_RUN_DONE then es = [''run_done'']
      else if rn_state r = RT_RUN_FAILED then es = [] \<or> (\<exists>ty. ty \<noteq> ''run_done'' \<and> es = [ty])
      else es = [])"

definition run_inv :: "rt_run \<Rightarrow> 'w kernel \<Rightarrow> bool" where
  "run_inv r k \<longleftrightarrow> (rn_lifecycle_terminal_emitted r \<longleftrightarrow> run_over r) \<and> endings_ok r (endings r k) \<and> rn_advance r \<le> 32 \<and>
     attempts_ok r \<and> phase_ok r \<and> queue_bounded r"

lemma run_inv_live: "run_inv r k \<Longrightarrow> \<not> run_over r \<Longrightarrow> run_live r \<and> endings r k = []"
  by (auto simp: run_inv_def run_live_def endings_ok_def run_over_def)

text \<open>What happens to a run is recorded for this run only.\<close>

definition own_change :: "rt_run \<Rightarrow> 'w kernel \<Rightarrow> rt_run \<Rightarrow> 'w kernel \<Rightarrow> bool" where
  "own_change r k r' k' \<longleftrightarrow> rn_run_id r' = rn_run_id r \<and> rn_ctx_context_id r' = rn_ctx_context_id r \<and> foreign r' k' = foreign r k"

lemma own_change_refl [simp]: "own_change r k r k"
  by (simp add: own_change_def)

lemma own_change_trans: "own_change r k r1 k1 \<Longrightarrow> own_change r1 k1 r2 k2 \<Longrightarrow> own_change r k r2 k2"
  by (simp add: own_change_def)

lemma own_change_move: "run_move r k r' k' \<Longrightarrow> own_change r k r' k'"
  by (auto simp: own_change_def run_move_def live_move_def end_move_def same_run_def)

definition run_kept :: "rt_run \<Rightarrow> 'w kernel \<Rightarrow> rt_run \<Rightarrow> 'w kernel \<Rightarrow> bool" where
  "run_kept r k r' k' \<longleftrightarrow> run_inv r' k' \<and> own_change r k r' k'"

lemma run_kept_refl: "run_inv r k \<Longrightarrow> run_kept r k r k"
  by (simp add: run_kept_def)

lemma run_kept_trans: "run_kept r k r1 k1 \<Longrightarrow> run_kept r1 k1 r2 k2 \<Longrightarrow> run_kept r k r2 k2"
  by (auto simp: run_kept_def intro: own_change_trans)

lemma run_kept_move:
  assumes "run_inv r k" and "\<not> run_over r" and "run_move r k r' k'" and "rn_advance r' \<le> 32"
  shows "run_kept r k r' k'"
proof -
  have "same_run r r'" using assms(3) by (auto simp: run_move_def live_move_def end_move_def)
  then have "attempts_ok r'" "phase_ok r'" "queue_bounded r'" using assms(1) by (auto simp: run_inv_def same_run_def attempts_ok_def split: option.splits)
  moreover have "endings r k = []" "\<not> rn_lifecycle_terminal_emitted r" using run_inv_live [OF assms(1,2)] by (auto simp: run_live_def)
  then have "(rn_lifecycle_terminal_emitted r' \<longleftrightarrow> run_over r') \<and> endings_ok r' (endings r' k')"
    using assms(3) by (auto simp: run_move_def live_move_def end_move_def run_over_def endings_ok_def)
  ultimately show ?thesis using assms(4) own_change_move [OF assms(3)] by (simp add: run_kept_def run_inv_def)
qed

lemma run_kept_end:
  assumes "run_inv r k" and "modules_ok env" and "apply_run_terminal_event env ty why fs r k = (r', k')"
    and "fs = RT_RUN_DONE \<and> ty = ''run_done'' \<or> fs = RT_RUN_FAILED \<and> (ty = ''run_failed'' \<or> ty = ''run_canceled'')"
  shows "run_kept r k r' k' \<and> (run_over r \<longrightarrow> r' = r)"
proof (cases "run_over r")
  case True
  then show ?thesis using assms(1,3) by (auto simp: run_kept_def run_inv_def apply_run_terminal_event_def)
next
  case False
  then have "\<not> rn_lifecycle_terminal_emitted r" using assms(1) by (simp add: run_inv_def)
  then have "run_move r k r' k'" using terminal_event_ends [OF assms(3) _ assms(2,4)] by (simp add: run_move_def)
  moreover have "rn_advance r' \<le> 32" using terminal_event_advance [OF assms(3)] assms(1) by (simp add: run_inv_def)
  ultimately show ?thesis using run_kept_move [OF assms(1) False] False by blast
qed

lemma run_kept_ends:
  assumes "run_inv r k" and "modules_ok env"
  shows "rt_run_finish env r k = (r', k') \<Longrightarrow> run_kept r k r' k'"
    and "rt_run_fail env why r k = (r', k') \<Longrightarrow> run_kept r k r' k'"
    and "rt_run_cancel env why r k = (r', k') \<Longrightarrow> run_kept r k r' k' \<and> (run_over r \<longrightarrow> r' = r)"
  unfolding rt_run_finish_def rt_run_fail_def rt_run_cancel_def using run_kept_end [OF assms] by blast+

section \<open>Waking\<close>

lemma waiting_job_remove_fields:
  "keeps_control r (rt_run_waiting_job_remove j r)" "rn_pending_actions (rt_run_waiting_job_remove j r) = rn_pending_actions r"
  by (auto simp: rt_run_waiting_job_remove_def keeps_control_def split: option.splits)

text \<open>A change of members that the invariant does not look at, and a cursor that moves back.\<close>

lemma run_kept_fields:
  assumes "run_inv r k" and "keeps_control r (r'\<lparr>rn_phase_index := rn_phase_index r\<rparr>)" and "rn_phase_index r' \<le> rn_phase_index r"
    and "keeps_kernel k k'" and "queue_bounded r \<Longrightarrow> queue_bounded r'"
  shows "run_kept r k r' k'"
proof -
  have f: "rn_state r' = rn_state r" "rn_profile r' = rn_profile r" "rn_run_id r' = rn_run_id r" "rn_advance r' = rn_advance r"
    "rn_event_attempts r' = rn_event_attempts r" "rn_lifecycle_terminal_emitted r' = rn_lifecycle_terminal_emitted r"
    "rn_ctx_context_id r' = rn_ctx_context_id r"
    using assms(2) by (auto simp: keeps_control_def)
  have "endings r' k' = endings r k" using assms(4) f by (intro endings_same) (simp_all add: keeps_kernel_def)
  moreover have "foreign r' k' = foreign r k" using assms(4) f(3) by (simp add: foreign_def keeps_kernel_def)
  moreover have "phase_ok r'" using assms(1,3) f(2) by (auto simp: run_inv_def phase_ok_def run_steps_def)
  ultimately show ?thesis using assms(1,5) attempts_ok_same [OF f(2,5)] f
    by (simp add: run_kept_def own_change_def run_inv_def run_over_def endings_ok_def)
qed

lemma run_kept_set_state:
  assumes "run_inv r k" and "\<not> run_over r" and "set_run_state env s r k = (r', k')" and "s \<noteq> RT_RUN_DONE" and "s \<noteq> RT_RUN_FAILED"
  shows "run_kept r k r' k'"
proof -
  have "run_move r k r' k'" using set_state_live [OF assms(3-5)] by (simp add: run_move_def)
  moreover from assms(3) have "rn_advance r' = rn_advance r" by (rule set_run_state_outcome) simp
  ultimately show ?thesis using run_kept_move [OF assms(1,2)] assms(1) by (simp add: run_inv_def)
qed

lemma run_kept_resume:
  assumes "run_inv r k" and "\<not> run_over r" and "resume_run env s r k = (r', k')" and "s \<noteq> RT_RUN_DONE" and "s \<noteq> RT_RUN_FAILED"
  shows "run_kept r k r' k'"
proof -
  obtain r1 where "set_run_state (se_run env) s r k = (r1, k')" and r': "r' = rt_run_wait_clear r1"
    using assms(3) by (auto simp: resume_run_def split: prod.splits)
  then have r1: "run_kept r k r1 k'" using run_kept_set_state [OF assms(1,2) _ assms(4,5)] by blast
  then have "run_kept r1 k' r' k'"
    unfolding r' by (intro run_kept_fields) (simp_all add: run_kept_def rt_run_wait_clear_def keeps_control_def keeps_kernel_def queue_bounded_def)
  with r1 show ?thesis by (rule run_kept_trans)
qed

lemma run_kept_retry:
  assumes "run_inv r k" and "\<not> run_over r" and "may_retry r"
  shows "run_kept r k ((rt_run_wait_clear (r\<lparr>rn_event_attempts := rn_event_attempts r + 1\<rparr>))\<lparr>rn_phase_index := 0\<rparr>) k"
proof -
  obtain p where p: "rn_profile r = Some p" "pf_retry_attempts p > 0" "rn_event_attempts r < word_of_int (pf_retry_attempts p)"
    using assms(3) by (auto simp: may_retry_def split: option.splits)
  then have "rn_event_attempts r + 1 \<le> word_of_int (pf_retry_attempts p)" by (simp add: inc_le)
  then show ?thesis using assms(1) p
    by (auto simp: run_kept_def own_change_def foreign_def run_inv_def rt_run_wait_clear_def run_over_def endings_ok_def endings_def attempts_ok_def
        phase_ok_def run_steps_def queue_bounded_def)
qed

lemma run_kept_wake:
  assumes "run_inv r k" and "\<not> run_over r" and "modules_ok (se_run env)" and "wake_run_after_job env j rc r k = (r', k')"
  shows "run_kept r k r' k'"
proof -
  define r1 where "r1 = rt_run_waiting_job_remove (jb_job_id j) r"
  have c: "keeps_control r r1" "rn_pending_actions r1 = rn_pending_actions r" unfolding r1_def by (rule waiting_job_remove_fields)+
  have kept: "run_kept r k r1 k"
    by (rule run_kept_fields [OF assms(1)]) (use c in \<open>auto simp: keeps_control_def keeps_kernel_def queue_bounded_def\<close>)
  then have i: "run_inv r1 k" by (simp add: run_kept_def)
  have o: "\<not> run_over r1" using c(1) assms(2) by (simp add: keeps_control_def run_over_def)
  note res = run_kept_resume [OF i o] and fin = run_kept_ends [OF i assms(3)]
  have retry: "run_kept r1 k r' k'"
    if "may_retry r1" "set_run_state (se_run env) RT_RUN_READY
      ((rt_run_wait_clear (r1\<lparr>rn_event_attempts := rn_event_attempts r1 + 1\<rparr>))\<lparr>rn_phase_index := 0\<rparr>) k = (r', k')"
  proof (rule run_kept_trans [OF run_kept_retry [OF i o that(1)] run_kept_set_state [OF _ _ that(2)]])
    show "run_inv ((rt_run_wait_clear (r1\<lparr>rn_event_attempts := rn_event_attempts r1 + 1\<rparr>))\<lparr>rn_phase_index := 0\<rparr>) k"
      using run_kept_retry [OF i o that(1)] by (simp add: run_kept_def)
  qed (use o in \<open>auto simp: run_over_def rt_run_wait_clear_def\<close>)
  have "run_kept r1 k r' k'" using assms(4) res fin retry unfolding wake_run_after_job_def r1_def [symmetric] Let_def
    by (auto split: if_splits)
  with kept show ?thesis by (rule run_kept_trans)
qed

lemma set_error_kept: "run_inv r k \<Longrightarrow> run_kept r k (rt_run_set_error c msg j r) k"
  by (rule run_kept_fields)
    (auto simp: keeps_control_def keeps_kernel_def queue_bounded_def rt_run_set_error_def rt_run_set_error_code_def Let_def)

lemma conflict_kept:
  assumes "run_inv r k" and "modules_ok (se_run env)" and "conflicting_claim env msg r k = (r', k')"
  shows "run_kept r k r' k'"
proof -
  let ?e = "rt_run_set_error ''inbound_claim_conflict'' msg [] r"
  have e: "run_kept r k ?e k" by (rule set_error_kept [OF assms(1)])
  have "run_kept ?e k r' k'"
    by (rule run_kept_ends(2) [OF _ assms(2)]) (use e assms(3) in \<open>auto simp: run_kept_def conflicting_claim_def\<close>)
  with e show ?thesis by (rule run_kept_trans)
qed

lemma run_kept_claim:
  assumes "run_inv r k" and "sched_modules_ok env" and "retry_inbound_claim env r k = (r', k')"
  shows "run_kept r k r' k' \<and> (run_over r \<longrightarrow> r' = r)"
proof (cases "rn_state r = RT_RUN_WAITING_EVENT")
  case True
  have m: "modules_ok (se_run env)" using assms(2) by (simp add: sched_modules_ok_def)
  obtain made r1 k1 where rec: "se_recommit_inbound env r k = (made, r1, k1)" by (metis prod.exhaust)
  have kc: "keeps_control r r1" "keeps_kernel k k1" "queue_bounded r \<longrightarrow> queue_bounded r1"
    using assms(2) rec unfolding sched_modules_ok_def by blast+
  then have k1: "run_kept r k r1 k1" by (intro run_kept_fields [OF assms(1)]) (auto simp: keeps_control_def)
  then have i1: "run_inv r1 k1" by (simp add: run_kept_def)
  have s1: "rn_state r1 = RT_RUN_WAITING_EVENT" using kc(1) True by (simp add: keeps_control_def)
  have ready: "run_kept rx kx ry ky" if "run_inv rx kx" "rn_state rx = RT_RUN_WAITING_EVENT" "set_run_state (se_run env) RT_RUN_READY rx kx = (ry, ky)"
    for rx kx ry ky using run_kept_set_state [OF that(1) _ that(3)] that(2) by (simp add: run_over_def)
  note after = run_kept_trans [OF k1]
  have "run_kept r k r' k'"
    using assms(3) True rec conflict_kept [OF assms(1) m] after [OF conflict_kept [OF i1 m]] ready [OF assms(1) True]
      after [OF ready [OF i1 s1]] k1 run_kept_refl [OF assms(1)]
    unfolding retry_inbound_claim_def by (auto split: inbound_commit.splits if_splits)
  then show ?thesis using True by (simp add: run_over_def)
next
  case False
  then show ?thesis using assms(1,3) by (simp add: retry_inbound_claim_def run_kept_refl)
qed

lemma run_kept_step:
  assumes "run_inv r k" and "\<not> run_over r" and "modules_ok env" and "rt_run_step_ready env r k = Some (res, r', k')"
  shows "run_kept r k r' k'"
proof -
  have "run_live r" "phase_ok r" "rn_advance r \<le> 32" using assms(1) run_inv_live [OF assms(1,2)] by (auto simp: run_inv_def)
  then have "run_move r k r' k'" "rn_advance r' \<le> 32" using step_ready_moves [OF assms(4,3)] by blast+
  then show ?thesis using run_kept_move [OF assms(1,2)] by blast
qed

lemma run_kept_job:
  assumes "run_inv r k" and "sched_modules_ok env" and "run_waits_for_job r j" and "complete_job env j r k = (rc, r1, k1)"
    and "wake_run_after_job env j rc r1 k1 = (r', k')"
  shows "run_kept r k r' k'"
proof -
  have o: "\<not> run_over r" using assms(3) by (auto simp: run_waits_for_job_def run_over_def)
  note f = complete_job_keeps [OF assms(2,4)]
  then have r1: "run_kept r k r1 k1" using run_kept_fields [OF assms(1)] by blast
  moreover have "\<not> run_over r1" using f o by (simp add: keeps_control_def run_over_def)
  ultimately have "run_kept r1 k1 r' k'" using run_kept_wake [OF _ _ _ assms(5)] assms(2) by (simp add: run_kept_def sched_modules_ok_def)
  with r1 show ?thesis by (rule run_kept_trans)
qed

section \<open>Everything that happens to a run\<close>

text \<open>
  One thing that happens to a run: a step of the pass over the ready runs, the end of a job it waits
  for, a free action slot, the retry of its inbound claim, a cancellation, or the activity of the
  rest of the process, which writes no terminal event of this run.
\<close>

inductive run_event :: "'w sched_env \<Rightarrow> rt_run \<Rightarrow> 'w kernel \<Rightarrow> rt_run \<Rightarrow> 'w kernel \<Rightarrow> bool" for env where
  step: "rn_state r = RT_RUN_READY \<or> rn_state r = RT_RUN_RUNNING \<Longrightarrow> rt_run_step_ready (se_run env) r k = Some (res, r', k') \<Longrightarrow>
    run_event env r k r' k'"
| job: "run_waits_for_job r j \<Longrightarrow> complete_job env j r k = (rc, r1, k1) \<Longrightarrow> wake_run_after_job env j rc r1 k1 = (r', k') \<Longrightarrow>
    run_event env r k r' k'"
| slot: "rn_state r = RT_RUN_WAITING_ACTION_SLOT \<Longrightarrow> resume_run env RT_RUN_READY r k = (r', k') \<Longrightarrow> run_event env r k r' k'"
| claim: "retry_inbound_claim env r k = (r', k') \<Longrightarrow> run_event env r k r' k'"
| cancel: "rt_run_cancel (se_run env) why r k = (r', k') \<Longrightarrow> run_event env r k r' k'"
| others: "endings r k' = endings r k \<Longrightarrow> run_event env r k r k'"

inductive run_history :: "'w sched_env \<Rightarrow> rt_run \<Rightarrow> 'w kernel \<Rightarrow> rt_run \<Rightarrow> 'w kernel \<Rightarrow> bool" for env where
  start: "run_history env r k r k"
| step: "run_history env r k r1 k1 \<Longrightarrow> run_event env r1 k1 r2 k2 \<Longrightarrow> run_history env r k r2 k2"

lemma run_event_inv:
  assumes "run_event env r k r' k'" and "sched_modules_ok env" and "run_inv r k"
  shows "run_inv r' k' \<and> (run_over r \<longrightarrow> r' = r)"
  using assms(1)
proof cases
  case (step res)
  have o: "\<not> run_over r" using step(1) by (auto simp: run_over_def)
  then show ?thesis using run_kept_step [OF assms(3) o _ step(2)] assms(2) by (simp add: sched_modules_ok_def run_kept_def)
next
  case (job j rc r1 k1)
  then show ?thesis using run_kept_job [OF assms(3,2)] by (auto simp: run_waits_for_job_def run_over_def run_kept_def)
next
  case slot
  then show ?thesis using run_kept_resume [OF assms(3)] by (simp add: run_over_def run_kept_def)
next
  case claim
  then show ?thesis using run_kept_claim [OF assms(3,2)] unfolding run_kept_def by blast
next
  case (cancel why)
  then show ?thesis using run_kept_ends(3) [OF assms(3)] assms(2) unfolding sched_modules_ok_def run_kept_def by blast
next
  case others
  then show ?thesis using assms(3) by (simp add: run_inv_def)
qed

lemma run_history_inv:
  "run_history env r k r' k' \<Longrightarrow> sched_modules_ok env \<Longrightarrow> run_inv r k \<Longrightarrow> run_inv r' k' \<and> (run_over r \<longrightarrow> r' = r)"
proof (induction rule: run_history.induct)
  case (step r k r1 k1 r2 k2)
  then have "run_inv r1 k1" "run_over r \<longrightarrow> r1 = r" by auto
  then show ?case using run_event_inv [OF step.hyps(2) step.prems(1)] by auto
qed simp


text \<open>A run that is canceled twice.\<close>

definition small_sched :: "'w sched_env" where
  "small_sched = \<lparr>se_run = small_env, se_work = \<lparr>we_task_rev = (\<lambda>_. (0, 0)), we_pending = (\<lambda>_. 0), we_live_binding = (\<lambda>_ _ _. False), we_malloc_ok = (\<lambda>_. True)\<rparr>,
     se_now_ms = 0, se_operation_pump = (\<lambda>_ k. k), se_agent_complete_job = (\<lambda>_ r k. (0, r, k)), se_action_complete_job = (\<lambda>_ r k. (0, r, k)),
     se_emit_run_failure = (\<lambda>_ k. k), se_archive_tasks = (\<lambda>_ k. k), se_inbound_state = (\<lambda>_ _. INBOUND_COMMIT_EXACT),
     se_recommit_inbound = (\<lambda>r k. (True, r, k)), se_create_run = (\<lambda>_ _ r k. (- 1, r, k))\<rparr>"

lemma small_sched_ok: "sched_modules_ok small_sched"
proof -
  have "se_run small_sched = small_env" by (simp add: small_sched_def)
  then show ?thesis using small_modules_ok
    by (simp add: sched_modules_ok_def) (simp add: small_sched_def completes_job_def keeps_control_def keeps_kernel_def)
qed

definition small_end :: "rt_run \<times> unit kernel" where
  "small_end = rt_run_cancel small_env ''stop'' small_run small_kernel"


end
