(* ===== verification/Scheduler_Laws.thy ===== *)
theory Scheduler_Laws
  imports Run_Life
begin

text \<open>
  The scheduler as a pool of runs: slots and the list of runs agree, the runs keep their order of
  creation, runs of one context advance one after the other, and a tick returns.
\<close>

section \<open>Slots\<close>

definition sched_inv :: "scheduler \<Rightarrow> bool" where
  "sched_inv s \<longleftrightarrow> length (sc_pool s) = RT_MAX_ACTIVE_RUNS \<and> length (sc_used s) = RT_MAX_ACTIVE_RUNS \<and> distinct (sc_runs s) \<and>
     set (sc_runs s) = {i. i < RT_MAX_ACTIVE_RUNS \<and> sc_used s ! i} \<and> sc_runs_completed s = sc_runs_succeeded s + sc_runs_failed s"

text \<open>Everything but the runs in the pool, the retry flag of the outbox and the peaks.\<close>

definition same_slots :: "scheduler \<Rightarrow> scheduler \<Rightarrow> bool" where
  "same_slots s s' \<longleftrightarrow> length (sc_pool s') = length (sc_pool s) \<and> sc_used s' = sc_used s \<and> sc_runs s' = sc_runs s \<and>
     sc_runs_completed s' = sc_runs_completed s \<and> sc_runs_succeeded s' = sc_runs_succeeded s \<and> sc_runs_failed s' = sc_runs_failed s \<and>
     sc_profile s' = sc_profile s"

lemma same_slots_refl [simp]: "same_slots s s"
  by (simp add: same_slots_def)

lemma same_slots_trans: "same_slots s s' \<Longrightarrow> same_slots s' s'' \<Longrightarrow> same_slots s s''"
  by (simp add: same_slots_def)

lemma put_run_slots [simp]: "same_slots s (put_run i r s)"
  by (simp add: same_slots_def put_run_def)

lemma same_slots_inv: "sched_inv s \<Longrightarrow> same_slots s s' \<Longrightarrow> sched_inv s'"
  by (simp add: sched_inv_def same_slots_def)

lemma finish_job_slots: "finish_job env j s k = (s', k') \<Longrightarrow> same_slots s s'"
  by (auto simp: finish_job_def split: option.splits prod.splits)

lemma wake_slot_loop_slots: "wake_slot_loop env is s k = (s', k') \<Longrightarrow> same_slots s s'"
proof (induction "is" arbitrary: s k)
  case (Cons i "is")
  show ?case
  proof (cases "rn_state (get_run s i) = RT_RUN_WAITING_ACTION_SLOT")
    case True
    then obtain r k1 where "wake_slot_loop env is (put_run i r s) k1 = (s', k')" using Cons.prems by (auto split: prod.splits)
    then show ?thesis using Cons.IH same_slots_trans [OF put_run_slots] by blast
  qed (use Cons in auto)
qed simp

lemma wake_waiters_slots: "wake_action_slot_waiters env s k = (s', k') \<Longrightarrow> same_slots s s'"
  by (auto simp: wake_action_slot_waiters_def dest: wake_slot_loop_slots split: if_splits)

lemma step_runs_slots: "step_runs_loop env idxs s k = Some (s', k') \<Longrightarrow> same_slots s s'"
proof (induction idxs arbitrary: s k)
  case (Cons i "is")
  show ?case
  proof (cases "serialized_behind_older_run s i")
    case False
    then obtain r k1 where "step_runs_loop env is (put_run (sc_runs s ! i) r s) k1 = Some (s', k')"
      using Cons.prems by (auto split: option.splits prod.splits)
    then show ?thesis using Cons.IH same_slots_trans [OF put_run_slots] by blast
  qed (use Cons in auto)
qed simp

lemma claims_slots: "retry_waiting_inbound_claims env is s k = (s', k') \<Longrightarrow> same_slots s s'"
proof (induction "is" arbitrary: s k)
  case (Cons i "is")
  then obtain r k1 where "retry_waiting_inbound_claims env is (put_run i r s) k1 = (s', k')" by (auto split: prod.splits)
  then show ?case using Cons.IH same_slots_trans [OF put_run_slots] by blast
qed simp

lemma update_peaks_slots [simp]: "same_slots s (update_peaks k s)"
  by (simp add: same_slots_def update_peaks_def)

section \<open>Taking and giving back a slot\<close>

lemma alloc_outcome:
  assumes "rt_scheduler_alloc_run s = Some (i, s')" and "sched_inv s"
  shows "i < RT_MAX_ACTIVE_RUNS \<and> \<not> sc_used s ! i \<and> i \<notin> set (sc_runs s) \<and>
    s' = s\<lparr>sc_used := (sc_used s)[i := True], sc_pool := (sc_pool s)[i := zero_run]\<rparr>"
  using assms by (auto simp: rt_scheduler_alloc_run_def put_run_def sched_inv_def split: option.splits dest!: find_index_SomeD)

lemma alloc_full: "sched_inv s \<Longrightarrow> length (sc_runs s) < RT_MAX_ACTIVE_RUNS \<Longrightarrow> \<exists>i s'. rt_scheduler_alloc_run s = Some (i, s')"
proof -
  assume s: "sched_inv s" "length (sc_runs s) < RT_MAX_ACTIVE_RUNS"
  have "find_index (\<lambda>u. \<not> u) (sc_used s) \<noteq> None"
  proof
    assume "find_index (\<lambda>u. \<not> u) (sc_used s) = None"
    then have all: "\<forall>u \<in> set (sc_used s). u" by (simp add: find_index_None_iff)
    have len: "length (sc_used s) = RT_MAX_ACTIVE_RUNS" "distinct (sc_runs s)" and set: "set (sc_runs s) = {i. i < RT_MAX_ACTIVE_RUNS \<and> sc_used s ! i}"
      using s(1) by (auto simp: sched_inv_def)
    have "{i. i < RT_MAX_ACTIVE_RUNS \<and> sc_used s ! i} = {..<RT_MAX_ACTIVE_RUNS}" using all len(1) nth_mem by fastforce
    then have "length (sc_runs s) = RT_MAX_ACTIVE_RUNS" using set distinct_card [OF len(2)] by simp
    then show False using s(2) by simp
  qed
  then show ?thesis by (auto simp: rt_scheduler_alloc_run_def)
qed

lemma intake_inv:
  assumes "intake_envelope env name ((s, k), d) = (stop, (s', k'), d')" and "sched_inv s"
  shows "sched_inv s' \<and> (\<exists>new. sc_runs s' = sc_runs s @ new \<and> length new \<le> 1) \<and> sc_profile s' = sc_profile s"
proof (cases "length (sc_runs s) \<ge> RT_MAX_ACTIVE_RUNS \<or> rt_scheduler_alloc_run s = None")
  case True
  then have "s' = s" using assms(1) by (cases "length (sc_runs s) \<ge> RT_MAX_ACTIVE_RUNS") (auto simp: intake_envelope_def)
  then show ?thesis using assms(2) by simp
next
  case False
  then obtain i s1 where a: "rt_scheduler_alloc_run s = Some (i, s1)" by auto
  note o = alloc_outcome [OF a assms(2)]
  obtain rc r k1 where c: "se_create_run env (sc_profile s) name (get_run s1 i) (k\<lparr>kn_disk := d\<rparr>) = (rc, r, k1)" by (metis prod.exhaust)
  have inv: "length (sc_pool s) = RT_MAX_ACTIVE_RUNS" "length (sc_used s) = RT_MAX_ACTIVE_RUNS" "distinct (sc_runs s)"
    "set (sc_runs s) = {i. i < RT_MAX_ACTIVE_RUNS \<and> sc_used s ! i}" "sc_runs_completed s = sc_runs_succeeded s + sc_runs_failed s"
    using assms(2) by (auto simp: sched_inv_def)
  show ?thesis
  proof (cases "rc < 0")
    case True
    then have "s' = s\<lparr>sc_used := (sc_used s)[i := False], sc_pool := (sc_pool s)[i := zero_run]\<rparr>"
      using assms(1) False a c o by (auto simp: intake_envelope_def rt_scheduler_free_run_def put_run_def)
    moreover have "(sc_used s)[i := False] = sc_used s" using o by (metis list_update_id)
    ultimately show ?thesis using inv by (simp add: sched_inv_def)
  next
    case rc: False
    then have "s' = s\<lparr>sc_used := (sc_used s)[i := True], sc_pool := (sc_pool s)[i := r], sc_runs := sc_runs s @ [i]\<rparr>"
      using assms(1) False a c o by (auto simp: intake_envelope_def put_run_def)
    moreover have "insert i (set (sc_runs s)) = {j. j < RT_MAX_ACTIVE_RUNS \<and> (sc_used s)[i := True] ! j}"
      using o inv(2,4) by (auto simp: nth_list_update)
    ultimately show ?thesis using inv o by (simp add: sched_inv_def)
  qed
qed

section \<open>The runs of the pool\<close>

text \<open>
  The slots are consistent, no two runs have the same identity, every run satisfies its invariant
  against the common log, and the log speaks of created runs only.
\<close>

definition sched_good :: "scheduler \<Rightarrow> 'w kernel \<Rightarrow> bool" where
  "sched_good s k \<longleftrightarrow> sched_inv s \<and> inj_on (\<lambda>i. rn_run_id (get_run s i)) (set (sc_runs s)) \<and>
     (\<forall>i \<in> set (sc_runs s). run_inv (get_run s i) k \<and> rn_run_id (get_run s i) \<in> set (kn_created k)) \<and>
     (\<forall>e \<in> set (kn_lifecycle k). le_run_id e \<in> set (kn_created k))"

lemma get_put_run: "i < length (sc_pool s) \<Longrightarrow> get_run (put_run i r s) j = (if j = i then r else get_run s j)"
  by (simp add: get_run_def put_run_def nth_list_update)

lemma put_run_runs [simp]: "sc_runs (put_run i r s) = sc_runs s"
  by (simp add: put_run_def)

lemma good_slot: "sched_good s k \<Longrightarrow> i \<in> set (sc_runs s) \<Longrightarrow> i < length (sc_pool s)"
  by (auto simp: sched_good_def sched_inv_def)

lemma good_run: "sched_good s k \<Longrightarrow> i \<in> set (sc_runs s) \<Longrightarrow> run_inv (get_run s i) k"
  by (auto simp: sched_good_def)

text \<open>The log of another run is the same when only this run was written.\<close>

lemma own_change_endings:
  assumes "own_change r k r' k'" and "rn_run_id q \<noteq> rn_run_id r"
  shows "endings q k' = endings q k"
proof -
  have "filter (\<lambda>e. le_run_id e = rn_run_id q) l = filter (\<lambda>e. le_run_id e = rn_run_id q) (filter (\<lambda>e. le_run_id e \<noteq> rn_run_id r) l)" for l
    using assms(2) by (simp add: conj_commute) (metis (mono_tags, lifting))
  note f = this
  have "filter (\<lambda>e. le_run_id e \<noteq> rn_run_id r) (kn_lifecycle k') = filter (\<lambda>e. le_run_id e \<noteq> rn_run_id r) (kn_lifecycle k)"
    using assms(1) by (auto simp: own_change_def foreign_def)
  then show ?thesis unfolding endings_def using f [of "kn_lifecycle k'"] f [of "kn_lifecycle k"] by simp
qed

lemma run_inv_endings: "run_inv r k \<Longrightarrow> endings r k' = endings r k \<Longrightarrow> run_inv r k'"
  by (simp add: run_inv_def)

lemma put_good:
  assumes "sched_good s k" and "i \<in> set (sc_runs s)" and "run_kept (get_run s i) k r' k'"
  shows "sched_good (put_run i r' s) k'"
proof -
  let ?s = "put_run i r' s" and ?r = "get_run s i"
  have own: "own_change ?r k r' k'" and inv: "run_inv r' k'" using assms(3) by (auto simp: run_kept_def)
  have id: "rn_run_id r' = rn_run_id ?r" and cr: "kn_created k' = kn_created k"
    and fr: "filter (\<lambda>e. le_run_id e \<noteq> rn_run_id ?r) (kn_lifecycle k') = filter (\<lambda>e. le_run_id e \<noteq> rn_run_id ?r) (kn_lifecycle k)"
    using own by (auto simp: own_change_def foreign_def)
  have g: "get_run ?s j = (if j = i then r' else get_run s j)" for j using get_put_run good_slot [OF assms(1,2)] by blast
  have ids: "rn_run_id (get_run ?s j) = rn_run_id (get_run s j)" for j using g id by simp
  have "run_inv (get_run ?s j) k'" if "j \<in> set (sc_runs s)" for j
  proof (cases "j = i")
    case False
    then have "rn_run_id (get_run s j) \<noteq> rn_run_id ?r" using assms(1,2) that by (auto simp: sched_good_def inj_on_def)
    from own_change_endings [OF own this] run_inv_endings good_run [OF assms(1) that] show ?thesis using g False by auto
  qed (use inv g in simp)
  moreover have "le_run_id e \<in> set (kn_created k')" if "e \<in> set (kn_lifecycle k')" for e
  proof (cases "le_run_id e = rn_run_id ?r")
    case False
    then have "e \<in> set (filter (\<lambda>e. le_run_id e \<noteq> rn_run_id ?r) (kn_lifecycle k))" using that by (simp flip: fr)
    then show ?thesis using assms(1) cr by (auto simp: sched_good_def)
  qed (use assms(1,2) cr in \<open>auto simp: sched_good_def\<close>)
  moreover have "sched_inv ?s" using same_slots_inv [OF _ put_run_slots] assms(1) by (simp add: sched_good_def)
  ultimately show ?thesis using assms(1) ids cr by (simp add: sched_good_def)
qed

lemma kernel_good: "sched_good s k \<Longrightarrow> keeps_kernel k k' \<Longrightarrow> sched_good s k'"
  by (auto simp: sched_good_def keeps_kernel_def intro: run_inv_endings endings_same)

section \<open>What a tick relies on\<close>

definition decided :: "'w kernel \<Rightarrow> nat" where
  "decided k = length (filter (\<lambda>j. jb_state j = JOB_FINISHED \<or> jb_state j = JOB_FAILED) (jr_jobs (kn_runner k)))"

text \<open>A run as intake makes it.\<close>

definition new_run :: "rt_run \<Rightarrow> bool" where
  "new_run r \<longleftrightarrow> \<not> run_over r \<and> \<not> rn_lifecycle_terminal_emitted r \<and> rn_advance r = 0 \<and> rn_event_attempts r = 0 \<and> phase_ok r \<and> queue_bounded r"

text \<open>
  The completion of a job decides no other job, the other modules leave the lifecycle events and the
  given identities alone, and a created run has an identity that was never given before.
\<close>

definition create_ok :: "(rt_profile \<Rightarrow> string \<Rightarrow> rt_run \<Rightarrow> 'w kernel \<Rightarrow> int \<times> rt_run \<times> 'w kernel) \<Rightarrow> bool" where
  "create_ok f \<longleftrightarrow> (\<forall>p name r k rc r' k'. f p name r k = (rc, r', k') \<longrightarrow> kn_lifecycle k' = kn_lifecycle k \<and>
     set (kn_created k) \<subseteq> set (kn_created k') \<and>
     (rc \<ge> 0 \<longrightarrow> new_run r' \<and> rn_run_id r' \<notin> set (kn_created k) \<and> rn_run_id r' \<in> set (kn_created k')))"

definition tick_modules_ok :: "'w sched_env \<Rightarrow> bool" where
  "tick_modules_ok env \<longleftrightarrow> sched_modules_ok env \<and> create_ok (se_create_run env) \<and>
     (\<forall>j r k. decided (snd (snd (complete_job env j r k))) \<le> decided k) \<and>
     (\<forall>r ty k. decided (ve_terminalize_tasks (se_run env) r ty k) \<le> decided k) \<and>
     (\<forall>now k. keeps_kernel k (se_operation_pump env now k)) \<and> (\<forall>r k. keeps_kernel k (se_emit_run_failure env r k)) \<and>
     (\<forall>c k. keeps_kernel k (se_archive_tasks env c k))"

lemma tick_modules_okD:
  assumes "tick_modules_ok env"
  shows "sched_modules_ok env" and "modules_ok (se_run env)" and "create_ok (se_create_run env)"
    and "complete_job env j r k = (rc, r', k') \<Longrightarrow> decided k' \<le> decided k"
    and "decided (ve_terminalize_tasks (se_run env) r ty k) \<le> decided k" and "keeps_kernel k (se_operation_pump env now k)"
    and "keeps_kernel k (se_emit_run_failure env r k)" and "keeps_kernel k (se_archive_tasks env c k)"
  using assms unfolding tick_modules_ok_def sched_modules_ok_def by (auto, metis snd_conv)

section \<open>Finished jobs\<close>

lemma set_run_state_decided: "set_run_state env st r k = (r', k') \<Longrightarrow> decided k' = decided k"
  by (erule set_run_state_outcome) (simp add: decided_def)

lemma terminal_event_decided:
  assumes "apply_run_terminal_event (se_run env) ty why fs r k = (r', k')" and "tick_modules_ok env"
  shows "decided k' \<le> decided k"
proof (cases "rn_lifecycle_terminal_emitted r")
  case False
  define r1 where "r1 = (if fs = RT_RUN_FAILED \<and> rn_last_error_code r = []
     then rt_run_set_error (if why \<noteq> [] then why else ''run_failed'') (if why \<noteq> [] then why else ''run failed'') [] r else r)"
  define k1 where "k1 = (if ty = ''run_failed'' then ve_terminalize_tasks (se_run env) r1 ''task_failed'' k
     else if ty = ''run_canceled'' then ve_terminalize_tasks (se_run env) r1 ''task_canceled'' k else k)"
  obtain rc k2 where e: "emit_lifecycle (se_run env) ty why r1 k1 = (rc, k2)" by (metis prod.exhaust)
  have "\<exists>st ry. set_run_state (se_run env) st ry k2 = (r', k')"
    using assms(1) False e unfolding apply_run_terminal_event_def Let_def r1_def [symmetric] k1_def [symmetric]
    by (cases "rc = 0") auto
  then have "decided k' = decided k2" using set_run_state_decided by blast
  also have "\<dots> = decided k1" using e by (auto simp: emit_lifecycle_def decided_def split: if_splits)
  also have "\<dots> \<le> decided k" using tick_modules_okD(5) [OF assms(2)] by (simp add: k1_def)
  finally show ?thesis .
qed (use assms(1) in \<open>simp add: apply_run_terminal_event_def\<close>)

lemma wake_decided:
  assumes "wake_run_after_job env j rc r k = (r', k')" and "tick_modules_ok env"
  shows "decided k' \<le> decided k"
proof -
  have st: "decided k' \<le> decided k" if "set_run_state (se_run env) st rx k = (r', k')" for st rx
    using set_run_state_decided [OF that] by simp
  have res: "decided k' \<le> decided k" if "resume_run env st rx k = (r', k')" for st rx
    using that set_run_state_decided by (fastforce simp: resume_run_def split: prod.splits)
  have fin: "decided k' \<le> decided k" if "apply_run_terminal_event (se_run env) ty why fs rx k = (r', k')" for ty why fs rx
    using terminal_event_decided [OF that assms(2)] .
  show ?thesis
    using assms(1) st res fin unfolding wake_run_after_job_def rt_run_finish_def rt_run_fail_def Let_def
    by (auto split: if_splits)
qed

lemma pop_finished_cases:
  assumes "rt_jobrunner_pop_finished (kn_runner k) = (j, runner)"
  shows "case j of None \<Rightarrow> runner = kn_runner k | Some x \<Rightarrow> decided (k\<lparr>kn_runner := runner\<rparr>) < decided k"
proof (cases "find_index (\<lambda>j. jb_state j = JOB_FINISHED \<or> jb_state j = JOB_FAILED) (jr_jobs (kn_runner k))")
  case (Some i)
  let ?P = "\<lambda>j. jb_state j = JOB_FINISHED \<or> jb_state j = JOB_FAILED" and ?l = "jr_jobs (kn_runner k)"
  have i: "i < length ?l" "?P (?l ! i)" using find_index_SomeD [OF Some] by auto
  have l: "?l = take i ?l @ ?l ! i # drop (Suc i) ?l" using i(1) by (rule id_take_nth_drop)
  have "length (filter ?P ?l) = length (filter ?P (take i ?l)) + Suc (length (filter ?P (drop (Suc i) ?l)))"
    using i(2) by (subst l) simp
  moreover have "length (filter ?P (remove_nth i ?l)) = length (filter ?P (take i ?l)) + length (filter ?P (drop (Suc i) ?l))"
    by (simp add: remove_nth_def)
  ultimately show ?thesis using assms Some by (auto simp: rt_jobrunner_pop_finished_def decided_def)
qed (use assms in \<open>auto simp: rt_jobrunner_pop_finished_def\<close>)

lemma release_decided:
  assumes "rt_jobrunner_release (kn_runner k) j (kn_os k) = (runner, os)"
  shows "decided (k\<lparr>kn_runner := runner, kn_os := os\<rparr>) \<le> decided k"
proof -
  have "length (filter P (remove_nth i xs)) \<le> length (filter P xs)" for P i and xs :: "rt_job list"
  proof -
    have "filter P xs = filter P (take i xs) @ filter P (drop i xs)" by (metis append_take_drop_id filter_append)
    moreover have "length (filter P (drop (Suc i) xs)) \<le> length (filter P (drop i xs))"
    proof (cases "i < length xs")
      case True
      then show ?thesis by (simp flip: Cons_nth_drop_Suc)
    qed simp
    ultimately show ?thesis by (simp add: remove_nth_def)
  qed
  then show ?thesis using assms by (auto simp: rt_jobrunner_release_def unlink_job_def decided_def split: option.splits)
qed

lemma find_run_for_job:
  "rt_scheduler_find_run_for_job s j = Some i \<Longrightarrow> i \<in> set (sc_runs s) \<and> run_waits_for_job (get_run s i) j"
  by (auto simp: rt_scheduler_find_run_for_job_def find_Some_iff)

lemma finish_job_good:
  assumes "tick_modules_ok env" and "sched_good s k" and "finish_job env j s k = (s', k')"
  shows "sched_good s' k' \<and> decided k' \<le> decided k"
proof (cases "rt_scheduler_find_run_for_job s j")
  case (Some i)
  note f = find_run_for_job [OF Some]
  obtain rc r k1 where c: "complete_job env j (get_run s i) k = (rc, r, k1)" by (metis prod.exhaust)
  obtain r1 where w: "wake_run_after_job env j rc r k1 = (r1, k')" and s': "s' = put_run i r1 s"
    using assms(3) Some c by (auto simp: finish_job_def complete_job_def split: prod.splits)
  have "run_kept (get_run s i) k r1 k'"
    using run_kept_job [OF good_run [OF assms(2)] tick_modules_okD(1) [OF assms(1)] _ c w] f by blast
  then show ?thesis using put_good [OF assms(2)] f s' wake_decided [OF w assms(1)] tick_modules_okD(4) [OF assms(1) c] by auto
qed (use assms in \<open>simp add: finish_job_def\<close>)

text \<open>The pump ends: each turn takes a decided job out, and none is added.\<close>

lemma pump_good:
  assumes "tick_modules_ok env"
  shows "sched_good s k \<Longrightarrow> \<exists>s' k'. pump_finished_jobs env s k = Some (s', k') \<and> sched_good s' k' \<and> same_slots s s'"
proof (induction "decided k" arbitrary: s k rule: less_induct)
  case less
  obtain j runner where p: "rt_jobrunner_pop_finished (kn_runner k) = (j, runner)" by (metis prod.exhaust)
  note pc = pop_finished_cases [OF p]
  show ?case
  proof (cases j)
    case None
    then have "pump_finished_jobs env s k = Some (s, k)" using p pc by (simp add: pump_finished_jobs.simps [of env s k])
    then show ?thesis using less.prems by simp
  next
    case (Some x)
    let ?k = "k\<lparr>kn_runner := runner\<rparr>"
    obtain s1 k1 where f: "finish_job env x s ?k = (s1, k1)" by (metis prod.exhaust)
    obtain runner1 os1 where r: "rt_jobrunner_release (kn_runner k1) x (kn_os k1) = (runner1, os1)" by (metis prod.exhaust)
    let ?k2 = "k1\<lparr>kn_runner := runner1, kn_os := os1\<rparr>"
    have "sched_good s ?k" using kernel_good [OF less.prems] by (simp add: keeps_kernel_def)
    then have g: "sched_good s1 k1" "decided k1 \<le> decided ?k" using finish_job_good [OF assms _ f] by auto
    then have "sched_good s1 ?k2" using kernel_good by (fastforce simp: keeps_kernel_def)
    moreover have "decided ?k2 < decided k" using release_decided [OF r] g(2) pc Some by simp
    ultimately obtain s' k' where "pump_finished_jobs env s1 ?k2 = Some (s', k') \<and> sched_good s' k' \<and> same_slots s1 s'"
      using less.hyps by blast
    moreover have "pump_finished_jobs env s k = pump_finished_jobs env s1 ?k2"
      using p Some f r by (simp add: pump_finished_jobs.simps [of env s k])
    ultimately show ?thesis using same_slots_trans [OF finish_job_slots [OF f]] by auto
  qed
qed

end
