(* ===== verification/Scheduler_Life.thy ===== *)
theory Scheduler_Life
  imports Scheduler_Laws
begin

text \<open>
  The tick of the scheduler: waking, the pass over the runs, intake and retiring keep the pool good,
  the tick returns, and runs of one context advance one after the other.
\<close>

section \<open>The pass over the runs\<close>

lemma wake_slot_loop_good:
  assumes "tick_modules_ok env"
  shows "wake_slot_loop env is s k = (s', k') \<Longrightarrow> sched_good s k \<Longrightarrow> set is \<subseteq> set (sc_runs s) \<Longrightarrow> sched_good s' k'"
proof (induction "is" arbitrary: s k)
  case (Cons i "is")
  show ?case
  proof (cases "rn_state (get_run s i) = RT_RUN_WAITING_ACTION_SLOT")
    case True
    obtain r k1 where r: "resume_run env RT_RUN_READY (get_run s i) k = (r, k1)" by (metis prod.exhaust)
    have "run_kept (get_run s i) k r k1"
      using run_kept_resume [OF good_run [OF Cons.prems(2)] _ r] True Cons.prems(3) by (simp add: run_over_def)
    then have "sched_good (put_run i r s) k1" using put_good [OF Cons.prems(2)] Cons.prems(3) by simp
    then show ?thesis using Cons.IH [of "put_run i r s" k1] Cons.prems True r by simp
  qed (use Cons in auto)
qed simp

lemma wake_waiters_good:
  "tick_modules_ok env \<Longrightarrow> wake_action_slot_waiters env s k = (s', k') \<Longrightarrow> sched_good s k \<Longrightarrow> sched_good s' k'"
  by (auto simp: wake_action_slot_waiters_def intro: wake_slot_loop_good split: if_splits)

lemma advance_run_kept:
  assumes "modules_ok env"
  shows "run_inv r k \<Longrightarrow> \<exists>r' k'. advance_run env n r k = Some (r', k') \<and> run_kept r k r' k'"
proof (induction n arbitrary: r k)
  case (Suc n)
  show ?case
  proof (cases "rn_state r = RT_RUN_READY \<or> rn_state r = RT_RUN_RUNNING")
    case True
    obtain res r1 k1 where s: "rt_run_step_ready env r k = Some (res, r1, k1)" using step_ready_returns [OF assms] by blast
    have kept: "run_kept r k r1 k1" using run_kept_step [OF Suc.prems _ assms s] True by (auto simp: run_over_def)
    then have "run_inv r1 k1" by (simp add: run_kept_def)
    then obtain r' k' where "advance_run env n r1 k1 = Some (r', k') \<and> run_kept r1 k1 r' k'" using Suc.IH by blast
    then show ?thesis using True s kept run_kept_trans [OF kept] by (cases "res = RT_STEP_ADVANCED") auto
  qed (use Suc.prems run_kept_refl in auto)
qed (simp add: run_kept_refl)

lemma step_runs_good:
  assumes "tick_modules_ok env"
  shows "sched_good s k \<Longrightarrow> set idxs \<subseteq> {..<length (sc_runs s)} \<Longrightarrow>
    \<exists>s' k'. step_runs_loop env idxs s k = Some (s', k') \<and> sched_good s' k'"
proof (induction idxs arbitrary: s k)
  case (Cons idx idxs)
  show ?case
  proof (cases "serialized_behind_older_run s idx")
    case False
    have i: "sc_runs s ! idx \<in> set (sc_runs s)" using Cons.prems(2) by simp
    obtain r k1 where a: "advance_run (se_run env) RT_MAX_PHASE_ADVANCES_PER_TICK (get_run s (sc_runs s ! idx)) k = Some (r, k1)"
      and kept: "run_kept (get_run s (sc_runs s ! idx)) k r k1"
      using advance_run_kept [OF tick_modules_okD(2) [OF assms] good_run [OF Cons.prems(1) i]] by blast
    show ?thesis using Cons.IH [OF put_good [OF Cons.prems(1) i kept]] Cons.prems(2) False a by simp
  qed (use Cons in auto)
qed simp

lemma claims_good:
  assumes "tick_modules_ok env"
  shows "retry_waiting_inbound_claims env is s k = (s', k') \<Longrightarrow> sched_good s k \<Longrightarrow> set is \<subseteq> set (sc_runs s) \<Longrightarrow> sched_good s' k'"
proof (induction "is" arbitrary: s k)
  case (Cons i "is")
  obtain r k1 where r: "retry_inbound_claim env (get_run s i) k = (r, k1)" by (metis prod.exhaust)
  have "run_kept (get_run s i) k r k1"
    using run_kept_claim [OF good_run [OF Cons.prems(2)] tick_modules_okD(1) [OF assms] r] Cons.prems(3) by simp
  then have "sched_good (put_run i r s) k1" using put_good [OF Cons.prems(2)] Cons.prems(3) by simp
  then show ?case using Cons.IH [of "put_run i r s" k1] Cons.prems r by simp
qed simp

section \<open>Retiring\<close>

text \<open>The runs that are still to be looked at and those that were kept.\<close>

abbreviation with_runs :: "nat list \<Rightarrow> scheduler \<Rightarrow> scheduler" where
  "with_runs rs s \<equiv> s\<lparr>sc_runs := rs\<rparr>"

lemma get_run_with_runs [simp]: "get_run (with_runs rs s) i = get_run s i"
  by (simp add: get_run_def)

lemma release_wake_kernel: "keeps_kernel k (release_wake env r k)"
  by (simp add: release_wake_def keeps_kernel_def split: prod.split)

lemma keeps_kernel_trans: "keeps_kernel k k1 \<Longrightarrow> keeps_kernel k1 k2 \<Longrightarrow> keeps_kernel k k2"
  by (simp add: keeps_kernel_def)

lemma retire_run_outcome:
  assumes "retire_run env i s k = (s', k')" and "tick_modules_ok env" and "i < RT_MAX_ACTIVE_RUNS"
  shows "keeps_kernel k k' \<and> sc_pool s' = (sc_pool s)[i := zero_run] \<and> sc_used s' = (sc_used s)[i := False] \<and> sc_runs s' = sc_runs s \<and>
    sc_profile s' = sc_profile s \<and> sc_runs_completed s' = sc_runs_completed s + 1 \<and>
    sc_runs_succeeded s' + sc_runs_failed s' = sc_runs_succeeded s + sc_runs_failed s + 1"
proof -
  let ?r = "get_run s i"
  define k1 where "k1 = (if rn_state ?r = RT_RUN_DONE then k else se_emit_run_failure env ?r k)"
  define k2 where "k2 = release_wake env ?r k1"
  have "keeps_kernel k k1" using tick_modules_okD(7) [OF assms(2)] by (simp add: k1_def keeps_kernel_def)
  moreover have "keeps_kernel k1 k2" unfolding k2_def by (rule release_wake_kernel)
  moreover have "keeps_kernel k2 (se_archive_tasks env c k2)" for c by (rule tick_modules_okD(8) [OF assms(2)])
  moreover have "k' = k2 \<or> (\<exists>c. k' = se_archive_tasks env c k2)"
    using assms(1) unfolding retire_run_def Let_def k1_def [symmetric] k2_def [symmetric] by (auto split: if_splits)
  ultimately have "keeps_kernel k k'" using keeps_kernel_trans by blast
  moreover have "s' = (let s2 = rt_scheduler_free_run i (count_retired ?r s) in s2\<lparr>sc_runs_completed := sc_runs_completed s2 + 1\<rparr>)"
    using assms(1) by (auto simp: retire_run_def Let_def)
  ultimately show ?thesis using assms(3)
    by (simp add: rt_scheduler_free_run_def count_retired_def put_run_def Let_def algebra_simps)
qed

lemma retire_good:
  assumes "retire_run env i s k = (s', k')" and "tick_modules_ok env" and "sched_good (with_runs (xs @ i # ys) s) k"
  shows "sched_good (with_runs (xs @ ys) s') k' \<and> (\<forall>j \<in> set (xs @ ys). get_run s' j = get_run s j) \<and> sc_runs s' = sc_runs s"
proof -
  have inv: "sched_inv (with_runs (xs @ i # ys) s)" using assms(3) by (simp add: sched_good_def)
  then have i: "i < RT_MAX_ACTIVE_RUNS" "i \<notin> set (xs @ ys)" by (auto simp: sched_inv_def)
  note o = retire_run_outcome [OF assms(1,2) i(1)]
  have len: "length (sc_pool s) = RT_MAX_ACTIVE_RUNS" "length (sc_used s) = RT_MAX_ACTIVE_RUNS" using inv by (auto simp: sched_inv_def)
  have g: "get_run s' j = get_run s j" if "j \<in> set (xs @ ys)" for j
  proof -
    have "j \<noteq> i" using i(2) that by metis
    then show ?thesis using o by (simp add: get_run_def)
  qed
  have "set (xs @ ys) = {j. j < RT_MAX_ACTIVE_RUNS \<and> sc_used s' ! j}"
  proof -
    have "set (xs @ i # ys) = {j. j < RT_MAX_ACTIVE_RUNS \<and> sc_used s ! j}" using inv by (simp add: sched_inv_def)
    then have "set (xs @ ys) = {j. j < RT_MAX_ACTIVE_RUNS \<and> sc_used s ! j} - {i}" using i(2) by auto
    also have "\<dots> = {j. j < RT_MAX_ACTIVE_RUNS \<and> sc_used s' ! j}" using o len i(1) by (auto simp: nth_list_update)
    finally show ?thesis .
  qed
  then have "sched_inv (with_runs (xs @ ys) s')" using inv o len by (auto simp: sched_inv_def algebra_simps)
  moreover have "sched_good (with_runs (xs @ i # ys) s) k'" using kernel_good [OF assms(3)] o by blast
  ultimately have "sched_good (with_runs (xs @ ys) s') k'" using g by (simp add: sched_good_def inj_on_def)
  then show ?thesis using g o by blast
qed

text \<open>The compaction keeps exactly the runs that are not finished, in order.\<close>

lemma retire_loop_good:
  assumes "tick_modules_ok env"
  shows "retire_loop env [m..<n] out s k = (out', s', k') \<Longrightarrow> n = length (sc_runs s) \<Longrightarrow> out \<le> m \<Longrightarrow> m \<le> n \<Longrightarrow>
    sched_good (with_runs (take out (sc_runs s) @ drop m (sc_runs s)) s) k \<Longrightarrow>
    take out' (sc_runs s') = take out (sc_runs s) @ filter (\<lambda>i. \<not> run_finished (get_run s i)) (drop m (sc_runs s)) \<and>
    sched_good (with_runs (take out' (sc_runs s')) s') k' \<and> (\<forall>i \<in> set (take out' (sc_runs s')). get_run s' i = get_run s i)"
proof (induction "n - m" arbitrary: m out s k)
  case 0
  then show ?case by simp
next
  case (Suc d)
  then have m: "m < n" by simp
  let ?R = "sc_runs s" let ?i = "?R ! m"
  have up: "[m..<n] = m # [Suc m..<n]" using m by (rule upt_conv_Cons)
  have dd: "d = n - Suc m" using Suc.hyps(2) m by simp
  have dr: "drop m ?R = ?i # drop (Suc m) ?R" using m Suc.prems(2) by (simp add: Cons_nth_drop_Suc)
  show ?case
  proof (cases "run_finished (get_run s ?i)")
    case True
    obtain s1 k1 where r: "retire_run env ?i s k = (s1, k1)" by (metis prod.exhaust)
    note g = retire_good [OF r assms Suc.prems(5) [unfolded dr]]
    have R1: "sc_runs s1 = ?R" using g by blast
    have same: "get_run s1 j = get_run s j" if "j \<in> set (take out ?R @ drop (Suc m) ?R)" for j using g that by blast
    have loop: "retire_loop env [Suc m..<n] out s1 k1 = (out', s', k')" using Suc.prems(1) up True r by simp
    have good: "sched_good (with_runs (take out (sc_runs s1) @ drop (Suc m) (sc_runs s1)) s1) k1" using g R1 by simp
    have b: "n = length (sc_runs s1)" "out \<le> Suc m" "Suc m \<le> n" using Suc.prems(2,3) m R1 by simp_all
    note ih = Suc.hyps(1) [OF dd loop b good, unfolded R1]
    have "filter (\<lambda>i. \<not> run_finished (get_run s1 i)) (drop (Suc m) ?R) = filter (\<lambda>i. \<not> run_finished (get_run s i)) (drop (Suc m) ?R)"
      by (rule filter_cong) (use same in auto)
    with ih True same dr show ?thesis by auto
  next
    case False
    let ?s = "with_runs (?R[out := ?i]) s"
    have "retire_loop env [Suc m..<n] (out + 1) ?s k = (out', s', k')" using Suc.prems(1) up False by (simp add: Let_def)
    moreover have t: "take (out + 1) (?R[out := ?i]) = take out ?R @ [?i]" using Suc.prems(2,3) m by (simp add: take_Suc_conv_app_nth)
    moreover have d: "drop (Suc m) (?R[out := ?i]) = drop (Suc m) ?R" using Suc.prems(3) by simp
    moreover have "sched_good (with_runs (take (out + 1) (sc_runs ?s) @ drop (Suc m) (sc_runs ?s)) ?s) k"
      using Suc.prems(5) t d dr by simp
    ultimately show ?thesis using Suc.hyps(1) [OF dd, of "out + 1" ?s k] Suc.prems(2,3) m dr False by auto
  qed
qed

lemma retire_terminal_good:
  assumes "tick_modules_ok env" and "sched_good s k" and "retire_terminal_runs env s k = (s', k')"
  shows "sched_good s' k' \<and> sc_runs s' = filter (\<lambda>i. \<not> run_finished (get_run s i)) (sc_runs s) \<and>
    list_all (\<lambda>i. \<not> run_finished (get_run s' i)) (sc_runs s')"
proof -
  obtain out s1 where l: "retire_loop env [0..<length (sc_runs s)] 0 s k = (out, s1, k')" and s': "s' = with_runs (take out (sc_runs s1)) s1"
    using assms(3) by (auto simp: retire_terminal_runs_def split: prod.splits)
  have "sched_good (with_runs (take 0 (sc_runs s) @ drop 0 (sc_runs s)) s) k" using assms(2) by simp
  from retire_loop_good [OF assms(1) l refl _ _ this] s' show ?thesis by (auto simp: list_all_iff)
qed

section \<open>Intake\<close>

lemma intake_good:
  assumes "intake_envelope env name ((s, k), d) = (stop, (s', k'), d')" and "sched_good s k" and "tick_modules_ok env"
  shows "sched_good s' k' \<and> (\<exists>new. sc_runs s' = sc_runs s @ new \<and> length new \<le> 1) \<and> (length (sc_runs s) < RT_MAX_ACTIVE_RUNS \<longrightarrow> \<not> stop)"
proof (cases "length (sc_runs s) < RT_MAX_ACTIVE_RUNS")
  case False
  then have "s' = s" "k' = k" using assms(1) by (auto simp: intake_envelope_def)
  then show ?thesis using assms(2) False by simp
next
  case True
  have inv: "sched_inv s" using assms(2) by (simp add: sched_good_def)
  then obtain i s1 where a: "rt_scheduler_alloc_run s = Some (i, s1)" using alloc_full True by blast
  note o = alloc_outcome [OF a inv]
  obtain rc r k1 where c: "se_create_run env (sc_profile s) name (get_run s1 i) (k\<lparr>kn_disk := d\<rparr>) = (rc, r, k1)" by (metis prod.exhaust)
  have co: "kn_lifecycle k1 = kn_lifecycle k" "set (kn_created k) \<subseteq> set (kn_created k1)"
    "rc \<ge> 0 \<longrightarrow> new_run r \<and> rn_run_id r \<notin> set (kn_created k) \<and> rn_run_id r \<in> set (kn_created k1)"
    using tick_modules_okD(3) [OF assms(3)] c unfolding create_ok_def by force+
  have k': "k' = k1" "\<not> stop" using assms(1) True a c by (auto simp: intake_envelope_def Let_def split: if_splits)
  have i: "i \<notin> set (sc_runs s)" "i < length (sc_pool s)" using o inv by (auto simp: sched_inv_def)
  have inv': "sched_inv s'" "\<exists>new. sc_runs s' = sc_runs s @ new \<and> length new \<le> 1" using intake_inv [OF assms(1) inv] by auto
  have old: "get_run s' j = get_run s j" if "j \<in> set (sc_runs s)" for j
  proof -
    have "j \<noteq> i" using that i(1) by metis
    then show ?thesis using assms(1) True a c o
      by (auto simp: intake_envelope_def rt_scheduler_free_run_def put_run_def get_run_def Let_def split: if_splits)
  qed
  have kept: "run_inv (get_run s j) k1" "rn_run_id (get_run s j) \<in> set (kn_created k)" if "j \<in> set (sc_runs s)" for j
    using assms(2) that co(1) by (auto simp: sched_good_def intro: run_inv_endings endings_same)
  have log: "\<forall>e \<in> set (kn_lifecycle k1). le_run_id e \<in> set (kn_created k)" using assms(2) co(1) by (simp add: sched_good_def)
  show ?thesis
  proof (cases "rc < 0")
    case True
    then have "sc_runs s' = sc_runs s"
      using assms(1) \<open>length _ < _\<close> a c o by (auto simp: intake_envelope_def rt_scheduler_free_run_def put_run_def)
    then have "sched_good s' k'" using assms(2) inv'(1) old kept co(2) log k'(1) by (auto simp: sched_good_def inj_on_def)
    then show ?thesis using inv'(2) k'(2) by blast
  next
    case rc: False
    then have R: "sc_runs s' = sc_runs s @ [i]" and g: "get_run s' i = r"
      using assms(1) True a c o i(2) by (auto simp: intake_envelope_def put_run_def get_run_def)
    have n: "new_run r" "rn_run_id r \<notin> set (kn_created k)" "rn_run_id r \<in> set (kn_created k1)" using co(3) rc by auto
    have "endings r k1 = []" using log n(2) by (fastforce simp: endings_def filter_empty_conv)
    moreover have "attempts_ok r" using n(1) by (auto simp: attempts_ok_def new_run_def split: option.split)
    ultimately have "run_inv r k1" using n(1) by (simp add: run_inv_def new_run_def endings_ok_def run_over_def)
    moreover have "inj_on (\<lambda>j. rn_run_id (get_run s' j)) (insert i (set (sc_runs s)))"
    proof -
      have "inj_on (\<lambda>j. rn_run_id (get_run s' j)) (set (sc_runs s))" using assms(2) old by (simp add: sched_good_def inj_on_def)
      moreover have "rn_run_id (get_run s' i) \<notin> (\<lambda>j. rn_run_id (get_run s' j)) ` set (sc_runs s)" using old kept(2) n(2) g by auto
      ultimately show ?thesis by (simp add: inj_on_insert) (use i in auto)
    qed
    ultimately have "sched_good s' k'" using inv'(1) R g old kept co(2) log k'(1) n(3) by (auto simp: sched_good_def)
    then show ?thesis using inv'(2) k'(2) by blast
  qed
qed

text \<open>With room for every name, no envelope that left the inbox is refused for want of a slot.\<close>

lemma drain_loop_good:
  assumes "tick_modules_ok env"
  shows "drain_loop io (intake_envelope env) names c ((s, k), d) = (n, (s', k'), d') \<Longrightarrow> sched_good s k \<Longrightarrow>
    sched_good s' k' \<and> (\<exists>new. sc_runs s' = sc_runs s @ new \<and> length new \<le> length names)"
proof (induction names arbitrary: c s k d)
  case (Cons name names)
  obtain ok d1 where rn: "fs_rename io (Inbox name) (Processed name) d = (ok, d1)" by (metis prod.exhaust)
  show ?case
  proof (cases ok)
    case False
    then have "drain_loop io (intake_envelope env) names c ((s, k), d1) = (n, (s', k'), d')" using Cons.prems(1) rn by simp
    from Cons.IH [OF this Cons.prems(2)] obtain new where "sched_good s' k'" "sc_runs s' = sc_runs s @ new" "length new \<le> length names" by blast
    then show ?thesis by (intro conjI exI [of _ new]) auto
  next
    case True
    obtain stop s1 k1 d2 where h: "intake_envelope env name ((s, k), d1) = (stop, (s1, k1), d2)" by (metis prod.exhaust)
    obtain new where g: "sched_good s1 k1" "sc_runs s1 = sc_runs s @ new" "length new \<le> 1" using intake_good [OF h Cons.prems(2) assms] by blast
    show ?thesis
    proof (cases stop)
      case True
      then have "s' = s1" "k' = k1" using Cons.prems(1) rn \<open>ok\<close> h by auto
      then show ?thesis using g by (intro conjI exI [of _ new]) auto
    next
      case False
      then have "drain_loop io (intake_envelope env) names (c + 1) ((s1, k1), d2) = (n, (s', k'), d')"
        using Cons.prems(1) rn \<open>ok\<close> h by simp
      from Cons.IH [OF this g(1)] obtain more where "sched_good s' k'" "sc_runs s' = sc_runs s @ new @ more" "length more \<le> length names"
        using g(2) by auto
      then show ?thesis using g(3) by (intro conjI exI [of _ "new @ more"]) auto
    qed
  qed
qed simp

lemma drain_intake_good:
  assumes "tick_modules_ok env" and "drain_intake env budget s k = (s', k')" and "sched_good s k"
  shows "sched_good s' k' \<and> (\<exists>new. sc_runs s' = sc_runs s @ new \<and> length new \<le> nat budget)"
proof -
  obtain n s1 k1 d where b: "bus_drain_inbox (ve_io (se_run env)) budget (intake_envelope env) ((s, k), kn_disk k) = (n, (s1, k1), d)"
    by (metis prod.exhaust)
  then have k': "s' = s1" "k' = k1\<lparr>kn_disk := d\<rparr>" using assms(2) by (auto simp: drain_intake_def)
  have "sched_good s1 k1 \<and> (\<exists>new. sc_runs s1 = sc_runs s @ new \<and> length new \<le> nat budget)"
  proof (cases "s1 = s \<and> k1 = k")
    case False
    then obtain names where "drain_loop (ve_io (se_run env)) (intake_envelope env) (take (nat budget) names) 0 ((s, k), kn_disk k) = (n, (s1, k1), d)"
      using b by (auto simp: bus_drain_inbox_def split: if_splits option.splits list.splits)
    from drain_loop_good [OF assms(1) this assms(3)] obtain new where "sched_good s1 k1" "sc_runs s1 = sc_runs s @ new" "length new \<le> nat budget" by auto
    then show ?thesis by blast
  qed (use assms(3) in auto)
  then show ?thesis using kernel_good [of s1 k1 k'] k' by (auto simp: keeps_kernel_def)
qed

lemma drain_sources_good:
  assumes "tick_modules_ok env" and "rt_ports_drain_sources env RT_INTAKE_PER_TICK s k = (s', k')" and "sched_good s k"
  shows "sched_good s' k' \<and> (\<exists>new. sc_runs s' = sc_runs s @ new \<and> length new \<le> 4)"
proof -
  obtain s1 k1 where c: "retry_waiting_inbound_claims env (sc_runs s) s k = (s1, k1)" by (metis prod.exhaust)
  have g1: "sched_good s1 k1" using claims_good [OF assms(1) c assms(3)] by simp
  have R1: "sc_runs s1 = sc_runs s" using claims_slots [OF c] by (simp add: same_slots_def)
  obtain rc w where o: "rt_publication_outbox_retry_if_pending (ve_io (se_run env)) (se_work env)
      \<lparr>ob_disk = kn_disk k1, ob_retry_pass = kn_outbox_retry k1\<rparr> = (rc, w)" by (metis prod.exhaust)
  define k2 where "k2 = k1\<lparr>kn_disk := ob_disk w, kn_outbox_retry := ob_retry_pass w\<rparr>"
  define budget where "budget = int RT_MAX_ACTIVE_RUNS - int (length (sc_runs s1))"
  have g2: "sched_good s1 k2" using kernel_good [OF g1] by (simp add: k2_def keeps_kernel_def)
  have e: "(if rc \<noteq> 0 \<or> budget \<le> 0 then (s1, k2) else drain_intake env (min budget RT_INTAKE_PER_TICK) s1 k2) = (s', k')"
    using assms(2) c o by (auto simp: rt_ports_drain_sources_def Let_def k2_def budget_def RT_INTAKE_PER_TICK_def split: if_splits)
  show ?thesis
  proof (cases "rc \<noteq> 0 \<or> budget \<le> 0")
    case True
    then show ?thesis using e g2 R1 by auto
  next
    case False
    then have "drain_intake env (min budget RT_INTAKE_PER_TICK) s1 k2 = (s', k')" using e by simp
    from drain_intake_good [OF assms(1) this g2] obtain new where "sched_good s' k'" "sc_runs s' = sc_runs s @ new"
      "length new \<le> nat (min budget RT_INTAKE_PER_TICK)" using R1 by auto
    then show ?thesis by (auto simp: RT_INTAKE_PER_TICK_def)
  qed
qed

section \<open>The tick\<close>

lemma update_peaks_runs [simp]: "get_run (update_peaks k s) i = get_run s i" "sc_runs (update_peaks k s) = sc_runs s"
  by (simp_all add: update_peaks_def get_run_def)

lemma update_peaks_good: "sched_good s k \<Longrightarrow> sched_good (update_peaks k0 s) k"
  using same_slots_inv [OF _ update_peaks_slots, of s k0] by (simp add: sched_good_def)

lemma advance_and_retire_good:
  assumes "tick_modules_ok env" and "sched_good s k"
  shows "\<exists>s' k' keep. rt_scheduler_advance_and_retire env now s k = Some (s', k') \<and> sched_good s' k' \<and>
    sc_runs s' = filter keep (sc_runs s) \<and> list_all (\<lambda>i. \<not> run_finished (get_run s' i)) (sc_runs s')"
proof -
  have "sched_good (update_peaks k s) (se_operation_pump env now k)"
    using kernel_good [OF update_peaks_good [OF assms(2)] tick_modules_okD(6) [OF assms(1)]] .
  then obtain s1 k1 where p: "pump_finished_jobs env (update_peaks k s) (se_operation_pump env now k) = Some (s1, k1)" "sched_good s1 k1"
    "same_slots (update_peaks k s) s1" using pump_good [OF assms(1)] by blast
  obtain s2 k2 where w: "wake_action_slot_waiters env s1 k1 = (s2, k2)" by (metis prod.exhaust)
  have g2: "sched_good s2 k2" by (rule wake_waiters_good [OF assms(1) w p(2)])
  obtain s3 k3 where st: "step_ready_runs env s2 k2 = Some (s3, k3)" "sched_good s3 k3"
    using step_runs_good [OF assms(1) g2, of "[0..<length (sc_runs s2)]"] by (auto simp: step_ready_runs_def lessThan_atLeast0)
  obtain s4 k4 where r: "retire_terminal_runs env s3 k3 = (s4, k4)" by (metis prod.exhaust)
  note rg = retire_terminal_good [OF assms(1) st(2) r]
  have "same_slots s2 s3" using step_runs_slots st(1) by (simp add: step_ready_runs_def)
  then have "sc_runs s3 = sc_runs s" using p(3) wake_waiters_slots [OF w] by (simp add: same_slots_def update_peaks_def)
  moreover have "rt_scheduler_advance_and_retire env now s k = Some (update_peaks k4 s4, k4)"
    using p w st r by (simp add: rt_scheduler_advance_and_retire_def)
  moreover have "sched_good (update_peaks k4 s4) k4" using rg update_peaks_good by blast
  moreover have "list_all (\<lambda>i. \<not> run_finished (get_run (update_peaks k4 s4) i)) (sc_runs (update_peaks k4 s4))"
    unfolding update_peaks_runs using rg by blast
  ultimately show ?thesis using rg by (intro exI [of _ "update_peaks k4 s4"] exI [of _ k4]) (auto simp: update_peaks_def)
qed

lemma tick_good:
  assumes "tick_modules_ok env" and "sched_good s k"
  shows "\<exists>s' k' new keep. rt_scheduler_tick env now s k = Some (s', k') \<and> sched_good s' k' \<and>
    sc_runs s' = filter keep (sc_runs s @ new) \<and> length new \<le> 4 \<and> list_all (\<lambda>i. \<not> run_finished (get_run s' i)) (sc_runs s')"
proof -
  obtain runner os where t: "rt_jobrunner_tick (kn_runner k) now (kn_os k) = (runner, os)" by (metis prod.exhaust)
  let ?k = "k\<lparr>kn_runner := runner, kn_os := os\<rparr>"
  obtain s1 k1 where d: "rt_ports_drain_sources env RT_INTAKE_PER_TICK s ?k = (s1, k1)" by (metis prod.exhaust)
  have "sched_good s ?k" using kernel_good [OF assms(2)] by (simp add: keeps_kernel_def)
  then obtain new where g: "sched_good s1 k1" "sc_runs s1 = sc_runs s @ new" "length new \<le> 4" using drain_sources_good [OF assms(1) d] by blast
  obtain s' k' keep where "rt_scheduler_advance_and_retire env now s1 k1 = Some (s', k')" "sched_good s' k'" "sc_runs s' = filter keep (sc_runs s1)"
    "list_all (\<lambda>i. \<not> run_finished (get_run s' i)) (sc_runs s')" using advance_and_retire_good [OF assms(1) g(1)] by blast
  then show ?thesis using t d g by (simp add: rt_scheduler_tick_def) blast
qed

lemma cancel_origin_good:
  assumes "tick_modules_ok env" and "sched_good s k" and "rt_scheduler_cancel_origin env origin reason s k = (rc, s', k')"
  shows "sched_good s' k'"
proof (cases "origin_index s origin")
  case (Some i)
  have i: "i \<in> set (sc_runs s)" using Some by (auto simp: origin_index_def find_Some_iff split: if_splits)
  obtain n runner os where c: "rt_jobrunner_cancel_run (kn_runner k) (rn_run_id (get_run s i)) (se_now_ms env) (kn_os k) = (n, runner, os)"
    by (metis prod.exhaust)
  let ?k = "k\<lparr>kn_runner := runner, kn_os := os\<rparr>"
  obtain why r where r: "rt_run_cancel (se_run env) why (get_run s i) ?k = (r, k')" "s' = put_run i r s"
    using assms(3) Some c by (auto simp: rt_scheduler_cancel_origin_def split: prod.splits)
  have g: "sched_good s ?k" using kernel_good [OF assms(2)] by (simp add: keeps_kernel_def)
  have "run_kept (get_run s i) ?k r k'" using run_kept_ends(3) [OF good_run [OF g i] tick_modules_okD(2) [OF assms(1)] r(1)] by blast
  then show ?thesis using put_good [OF g i] r(2) by blast
qed (use assms in \<open>simp add: rt_scheduler_cancel_origin_def\<close>)

text \<open>The scheduler as its start leaves it, when there is nothing to recover.\<close>

definition sched_empty :: "scheduler \<Rightarrow> 'w kernel \<Rightarrow> bool" where
  "sched_empty s k \<longleftrightarrow> length (sc_pool s) = RT_MAX_ACTIVE_RUNS \<and> sc_used s = replicate RT_MAX_ACTIVE_RUNS False \<and> sc_runs s = [] \<and>
     sc_runs_completed s = 0 \<and> sc_runs_succeeded s = 0 \<and> sc_runs_failed s = 0 \<and> kn_lifecycle k = []"

inductive sched_life :: "'w sched_env \<Rightarrow> scheduler \<Rightarrow> 'w kernel \<Rightarrow> scheduler \<Rightarrow> 'w kernel \<Rightarrow> bool" for env where
  start: "sched_life env s k s k"
| tick: "sched_life env s k s1 k1 \<Longrightarrow> rt_scheduler_tick env now s1 k1 = Some (s2, k2) \<Longrightarrow> sched_life env s k s2 k2"
| cancel: "sched_life env s k s1 k1 \<Longrightarrow> rt_scheduler_cancel_origin env origin reason s1 k1 = (rc, s2, k2) \<Longrightarrow> sched_life env s k s2 k2"
| outside: "sched_life env s k s1 k1 \<Longrightarrow> keeps_kernel k1 k2 \<Longrightarrow> sched_life env s k s1 k2"

lemma sched_empty_good: "sched_empty s k \<Longrightarrow> sched_good s k"
  by (auto simp: sched_empty_def sched_good_def sched_inv_def)

lemma sched_life_good:
  "sched_life env s0 k0 s k \<Longrightarrow> sched_empty s0 k0 \<Longrightarrow> tick_modules_ok env \<Longrightarrow> sched_good s k"
proof (induction rule: sched_life.induct)
  case (start s k)
  then show ?case by (intro sched_empty_good)
next
  case (tick s k s1 k1 now s2 k2)
  then show ?case using tick_good [of env s1 k1 now] by fastforce
next
  case (cancel s k s1 k1 origin reason rc s2 k2)
  then show ?case using cancel_origin_good by blast
next
  case (outside s k s1 k1 k2)
  then show ?case using kernel_good by blast
qed


section \<open>Serialized contexts\<close>

lemma advance_run_finished: "run_finished r \<Longrightarrow> advance_run env n r k = Some (r, k)"
  by (cases n) (auto simp: run_finished_def)

text \<open>One position of the pass: a run that is behind a live run of its context stays as it is.\<close>

lemma step_runs_finished:
  assumes "tick_modules_ok env"
  shows "step_runs_loop env idxs s k = Some (s', k') \<Longrightarrow> sched_good s k \<Longrightarrow> set idxs \<subseteq> {..<length (sc_runs s)} \<Longrightarrow> run_finished (get_run s i) \<Longrightarrow> get_run s' i = get_run s i"
proof (induction idxs arbitrary: s k)
  case (Cons idx idxs)
  show ?case
  proof (cases "serialized_behind_older_run s idx")
    case False
    let ?i = "sc_runs s ! idx"
    have m: "?i \<in> set (sc_runs s)" using Cons.prems(3) by simp
    obtain r k1 where a: "advance_run (se_run env) RT_MAX_PHASE_ADVANCES_PER_TICK (get_run s ?i) k = Some (r, k1)" and kept: "run_kept (get_run s ?i) k r k1"
      using advance_run_kept [OF tick_modules_okD(2) [OF assms] good_run [OF Cons.prems(2) m]] by blast
    have "get_run (put_run ?i r s) i = get_run s i"
    proof (cases "i = ?i")
      case True
      then have "r = get_run s i" using a advance_run_finished [OF Cons.prems(4), of "se_run env" RT_MAX_PHASE_ADVANCES_PER_TICK k] by simp
      then show ?thesis using get_put_run [OF good_slot [OF Cons.prems(2) m]] True by simp
    qed (use get_put_run [OF good_slot [OF Cons.prems(2) m]] in simp)
    moreover have "step_runs_loop env idxs (put_run ?i r s) k1 = Some (s', k')" using Cons.prems(1) False a by simp
    ultimately show ?thesis using Cons.IH [OF _ put_good [OF Cons.prems(2) m kept]] Cons.prems(3,4) by simp
  qed (use Cons in auto)
qed simp

lemma step_runs_serialized:
  assumes "tick_modules_ok env"
  shows "step_runs_loop env [m..<n] s k = Some (s', k') \<Longrightarrow> sched_good s k \<Longrightarrow> n = length (sc_runs s) \<Longrightarrow> pf_serialize_contexts (sc_profile s) \<Longrightarrow>
    idx < n \<Longrightarrow> rn_ctx_context_id (get_run s (sc_runs s ! idx)) \<noteq> [] \<Longrightarrow> get_run s' (sc_runs s ! idx) \<noteq> get_run s (sc_runs s ! idx) \<Longrightarrow>
    j < idx \<Longrightarrow> rn_ctx_context_id (get_run s (sc_runs s ! j)) = rn_ctx_context_id (get_run s (sc_runs s ! idx)) \<Longrightarrow>
    run_finished (get_run s' (sc_runs s ! j))"
proof (induction "n - m" arbitrary: m s k)
  case (Suc d)
  let ?R = "sc_runs s" and ?ctx = "\<lambda>s i. rn_ctx_context_id (get_run s i)"
  have m: "m < n" and dd: "d = n - Suc m" using Suc.hyps(2) by simp_all
  have up: "[m..<n] = m # [Suc m..<n]" using m by (rule upt_conv_Cons)
  show ?case
  proof (cases "serialized_behind_older_run s m")
    case True
    then have "step_runs_loop env [Suc m..<n] s k = Some (s', k')" using Suc.prems(1) up by simp
    from Suc.hyps(1) [OF dd this Suc.prems(2-9)] show ?thesis .
  next
    case False
    let ?i = "?R ! m"
    have i: "?i \<in> set ?R" using m Suc.prems(3) by simp
    obtain r k1 where a: "advance_run (se_run env) RT_MAX_PHASE_ADVANCES_PER_TICK (get_run s ?i) k = Some (r, k1)" and kept: "run_kept (get_run s ?i) k r k1"
      using advance_run_kept [OF tick_modules_okD(2) [OF assms] good_run [OF Suc.prems(2) i]] by blast
    let ?s = "put_run ?i r s"
    have loop: "step_runs_loop env [Suc m..<n] ?s k1 = Some (s', k')" using Suc.prems(1) up False a by simp
    have good: "sched_good ?s k1" by (rule put_good [OF Suc.prems(2) i kept])
    have g: "get_run ?s x = (if x = ?i then r else get_run s x)" for x using get_put_run good_slot [OF Suc.prems(2) i] by blast
    have ctx: "?ctx ?s x = ?ctx s x" for x using g kept by (simp add: run_kept_def own_change_def)
    have pr: "sc_profile ?s = sc_profile s" by (simp add: put_run_def)
    note ih = Suc.hyps(1) [OF dd loop good, unfolded put_run_runs pr ctx, OF Suc.prems(3-6) _ Suc.prems(8,9)]
    show ?thesis
    proof (cases "get_run s' (?R ! idx) = get_run ?s (?R ! idx)")
      case True
      then have "get_run ?s (?R ! idx) \<noteq> get_run s (?R ! idx)" using Suc.prems(7) by simp
      then have eq: "?R ! idx = ?i" using g by metis
      then have "idx = m" using m Suc.prems(2,3,5) by (metis nth_eq_iff_index_eq sched_good_def sched_inv_def)
      then have "run_finished (get_run s (?R ! j))"
        using False Suc.prems(3,4,5,6,8,9) unfolding serialized_behind_older_run_def Let_def list_ex_iff
        by (auto simp: in_set_conv_nth dest!: bspec)
      moreover have "?R ! j \<noteq> ?i" using \<open>idx = m\<close> m Suc.prems(2,3,8) by (metis less_trans nat_neq_iff nth_eq_iff_index_eq sched_good_def sched_inv_def)
      ultimately have "run_finished (get_run ?s (?R ! j))" using g by simp
      moreover have "set [Suc m..<n] \<subseteq> {..<length (sc_runs ?s)}" using Suc.prems(3) by auto
      ultimately show ?thesis using step_runs_finished [OF assms loop good] by metis
    qed (rule ih)
  qed
qed simp

text \<open>
  C7. Runs of one context advance one after the other. When the profile serializes contexts and the
  pass over the runs changes a run with a context, every older run of the same context is finished
  at the end of the pass.
\<close>

theorem context_serialized:
  assumes "tick_modules_ok env" and "sched_good s k" and "step_ready_runs env s k = Some (s', k')" and "pf_serialize_contexts (sc_profile s)"
    and "idx < length (sc_runs s)" and "rn_ctx_context_id (get_run s (sc_runs s ! idx)) \<noteq> []"
    and "get_run s' (sc_runs s ! idx) \<noteq> get_run s (sc_runs s ! idx)"
    and "j < idx" and "rn_ctx_context_id (get_run s (sc_runs s ! j)) = rn_ctx_context_id (get_run s (sc_runs s ! idx))"
  shows "run_finished (get_run s' (sc_runs s ! j))"
  by (rule step_runs_serialized [OF assms(1) assms(3) [unfolded step_ready_runs_def] assms(2) refl assms(4-9)])

section \<open>A small pool\<close>

text \<open>Intake numbers the runs by the identities already given.\<close>

definition numbered_run :: "rt_profile \<Rightarrow> string \<Rightarrow> rt_run \<Rightarrow> 'w kernel \<Rightarrow> int \<times> rt_run \<times> 'w kernel" where
  "numbered_run p name r k =
     (let rid = replicate (Suc (sum_list (map length (kn_created k)))) CHR ''r''
      in (0, zero_run\<lparr>rn_run_id := rid, rn_created_from_event_id := name, rn_profile := Some p\<rparr>, k\<lparr>kn_created := kn_created k @ [rid]\<rparr>))"

definition pool_env :: "'w sched_env" where
  "pool_env = small_sched\<lparr>se_create_run := numbered_run\<rparr>"

lemma numbered_run_ok: "create_ok numbered_run"
proof -
  have fresh: "replicate (Suc (sum_list (map length xs))) CHR ''r'' \<notin> set xs" for xs :: "string list"
  proof
    assume "replicate (Suc (sum_list (map length xs))) CHR ''r'' \<in> set xs"
    then have "Suc (sum_list (map length xs)) \<in> set (map length xs)" by (metis image_eqI length_replicate list.set_map)
    from member_le_sum_list [OF this] show False by simp
  qed
  have "new_run (zero_run\<lparr>rn_run_id := a, rn_created_from_event_id := b, rn_profile := Some p\<rparr>)" for a b p
    by (simp add: new_run_def zero_run_def run_over_def phase_ok_def queue_bounded_def)
  then show ?thesis using fresh by (simp add: create_ok_def numbered_run_def Let_def) blast
qed

lemma pool_env_ok: "tick_modules_ok (pool_env :: 'w sched_env)"
proof -
  have e: "se_run (pool_env :: 'w sched_env) = small_env" "se_create_run (pool_env :: 'w sched_env) = numbered_run"
    by (simp_all add: pool_env_def small_sched_def)
  have ok: "sched_modules_ok (pool_env :: 'w sched_env)"
    using small_sched_ok [where 'a = 'w] by (simp add: sched_modules_ok_def pool_env_def)
  have t: "ve_terminalize_tasks (small_env :: 'w run_env) = (\<lambda>_ _ k. k)" by (simp add: small_env_def)
  have c: "complete_job pool_env j r k = (0, r, k)" for j r and k :: "'w kernel"
    by (simp add: complete_job_def pool_env_def small_sched_def)
  have o: "se_operation_pump pool_env now k = k" "se_emit_run_failure pool_env r k = k" "se_archive_tasks pool_env cx k = k" for now r cx and k :: "'w kernel"
    by (simp_all add: pool_env_def small_sched_def)
  show ?thesis unfolding tick_modules_ok_def using ok numbered_run_ok [where 'a = 'w] by (simp add: e t c o keeps_kernel_def)
qed

definition empty_pool :: scheduler where
  "empty_pool = \<lparr>sc_pool = replicate RT_MAX_ACTIVE_RUNS zero_run, sc_used = replicate RT_MAX_ACTIVE_RUNS False, sc_runs = [], sc_run_count_peak = 0,
     sc_action_count_peak = 0, sc_runs_completed = 0, sc_runs_succeeded = 0, sc_runs_failed = 0, sc_last_retired_origin_event_id = [],
     sc_last_retired_run_id = [], sc_last_retired_state = RT_RUN_READY, sc_profile = small_profile\<rparr>"

lemma empty_pool_ok: "sched_empty empty_pool small_kernel"
  by (simp add: sched_empty_def empty_pool_def small_kernel_def)


text \<open>Two runs of one context: the older one is canceled, the younger one is at the end of its profile.\<close>

definition last_run :: rt_run where
  "last_run = small_run\<lparr>rn_run_id := ''run_002'', rn_phase_index := 2\<rparr>"

definition two_kernel :: "unit kernel" where
  "two_kernel = small_kernel\<lparr>kn_created := [''run_001'', ''run_002'']\<rparr>"

definition two_pool :: scheduler where
  "two_pool = empty_pool\<lparr>sc_pool := small_run # last_run # replicate 14 zero_run, sc_used := True # True # replicate 14 False, sc_runs := [0, 1]\<rparr>"

definition canceled_pool :: "scheduler \<times> unit kernel" where
  "canceled_pool = (case rt_run_cancel small_env ''stop'' small_run two_kernel of (r, k) \<Rightarrow> (put_run 0 r two_pool, k))"

lemma last_step:
  obtains r' k' where "rt_run_step_ready small_env last_run k = Some (RT_STEP_DONE, r', k')" "run_over r'"
proof -
  let ?r = "last_run\<lparr>rn_run_started_emitted := True\<rparr>" and ?k = "snd (emit_lifecycle small_env ''run_started'' [] last_run k)"
  obtain r1 k1 where s: "set_run_state small_env RT_RUN_RUNNING ?r ?k = (r1, k1)" by (metis prod.exhaust)
  then obtain js where r1: "r1 = ?r\<lparr>rn_state := RT_RUN_RUNNING, rn_run_state_json := js\<rparr>" by (rule set_run_state_outcome)
  have b: "begin_advance_if_needed small_env ?r ?k = (0, r1, k1)"
    using s by (simp add: begin_advance_if_needed_def Let_def last_run_def small_run_def zero_run_def)
  obtain r2 k2 where f: "rt_run_finish small_env r1 k1 = (r2, k2)" by (metis prod.exhaust)
  have "finish_advance small_env r1 k1 = (RT_STEP_DONE, r2, k2)"
    using f unfolding r1 by (simp add: finish_advance_def one_pass_profile_def last_run_def small_run_def zero_run_def small_profile_def)
  moreover have "announce_start small_env last_run k = (?r, ?k)" by (simp add: announce_start_def last_run_def small_run_def zero_run_def)
  ultimately have "rt_run_step_ready small_env last_run k = Some (RT_STEP_DONE, r2, k2)"
    using b unfolding r1
    by (simp add: rt_run_step_ready_def small_env_def [THEN arg_cong, of ve_snapshot] run_steps_def last_run_def small_run_def zero_run_def
        small_profile_def Let_def)
  moreover have "\<not> rn_lifecycle_terminal_emitted r1" by (simp add: r1 last_run_def small_run_def zero_run_def)
  then have "run_over r2" using ends(1) [OF small_modules_ok _ f] by (auto simp: end_move_def run_over_def)
  ultimately show thesis by (rule that)
qed

lemma two_pool_good: "sched_good two_pool two_kernel"
proof -
  have "run_inv small_run two_kernel" "run_inv last_run two_kernel"
    by (simp_all add: run_inv_def run_over_def endings_ok_def endings_def attempts_ok_def phase_ok_def run_steps_def queue_bounded_def last_run_def
        small_run_def zero_run_def two_kernel_def small_kernel_def small_profile_def)
  moreover have "i < 16 \<and> (True # True # replicate 14 False) ! i \<longleftrightarrow> i = 0 \<or> i = 1" for i
    by (cases i; cases "i - 1") auto
  then have "sched_inv two_pool"
    by (auto simp: sched_inv_def two_pool_def empty_pool_def RT_MAX_ACTIVE_RUNS_def)
  ultimately show ?thesis
    by (simp add: sched_good_def two_pool_def get_run_def two_kernel_def small_kernel_def last_run_def small_run_def zero_run_def inj_on_def)
qed

theorem context_serialized_witness:
  "\<exists>s' k'. step_ready_runs pool_env (fst canceled_pool) (snd canceled_pool) = Some (s', k') \<and>
    get_run s' 1 \<noteq> get_run (fst canceled_pool) 1 \<and> run_finished (get_run s' 0)"
proof -
  have e: "se_run pool_env = small_env" by (simp add: pool_env_def small_sched_def)
  obtain r k where c: "rt_run_cancel small_env ''stop'' small_run two_kernel = (r, k)" by (metis prod.exhaust)
  let ?s = "put_run 0 r two_pool"
  have p: "canceled_pool = (?s, k)" by (simp add: canceled_pool_def c)
  have g0: "get_run two_pool 0 = small_run" "0 \<in> set (sc_runs two_pool)" by (simp_all add: two_pool_def get_run_def)
  have kept: "run_kept (get_run two_pool 0) two_kernel r k"
    using run_kept_ends(3) [OF good_run [OF two_pool_good g0(2)] small_modules_ok] c g0(1) by metis
  note good = put_good [OF two_pool_good g0(2) kept]
  have "end_move small_run two_kernel r k" by (rule ends(3) [OF small_modules_ok _ c]) (simp add: small_run_def zero_run_def)
  then have over: "run_finished r" by (auto simp: end_move_def run_finished_def)
  have R: "sc_runs ?s = [0, 1]" "get_run ?s 0 = r" "get_run ?s 1 = last_run" "pf_serialize_contexts (sc_profile ?s)"
    by (simp_all add: two_pool_def put_run_def get_run_def empty_pool_def small_profile_def)
  have ctx: "rn_ctx_context_id r = ''c''" "rn_ctx_context_id last_run = ''c''"
    using kept g0(1) by (simp_all add: run_kept_def own_change_def last_run_def small_run_def)
  obtain r' k' where st: "rt_run_step_ready small_env last_run k = Some (RT_STEP_DONE, r', k')" "run_over r'" by (rule last_step)
  have "rn_state last_run = RT_RUN_READY" by (simp add: last_run_def small_run_def zero_run_def)
  then have a1: "advance_run small_env RT_MAX_PHASE_ADVANCES_PER_TICK last_run k = Some (r', k')" and neq: "r' \<noteq> last_run"
    using st by (auto simp: RT_MAX_PHASE_ADVANCES_PER_TICK_def numeral_eq_Suc run_over_def)
  have a0: "advance_run small_env RT_MAX_PHASE_ADVANCES_PER_TICK r k = Some (r, k)" by (rule advance_run_finished [OF over])
  have same: "put_run 0 r ?s = ?s" by (simp add: put_run_def)
  have "\<not> serialized_behind_older_run ?s 0" "\<not> serialized_behind_older_run ?s 1"
    using R over by (simp_all add: serialized_behind_older_run_def Let_def)
  then have step: "step_ready_runs pool_env ?s k = Some (put_run 1 r' ?s, k')"
    using R same a1 a0 by (simp add: step_ready_runs_def upt_rec e)
  have new: "get_run (put_run 1 r' ?s) 1 = r'" by (simp add: get_run_def put_run_def two_pool_def)
  have "run_finished (get_run (put_run 1 r' ?s) (sc_runs ?s ! 0))"
    by (rule context_serialized [OF pool_env_ok good step R(4), of 1 0]) (use R ctx new neq in simp_all)
  then show ?thesis unfolding p fst_conv snd_conv using step new neq R by auto
qed

end
