(* ===== verification/Spec2Isabelle.thy ===== *)
theory Spec2Isabelle
  imports Fjson_Valid Reconnect_Backoff Http1_Laws Jobrunner_Verdict Jobrunner_Progress Sha256_Laws Operation_Run Work_Run Bus_Run Outbox_Run Reactor_Stop Scheduler_Life
begin

text \<open>
  \<^bold>\<open>Verification of the FloofClaw runtime core\<close> (\<open>src/runtime\<close>).

  FloofClaw is an agent runtime written in C. A gateway process runs a reactor that polls the
  descriptors of its modules; channel adapters put envelopes on a file-backed bus; intake turns an
  envelope into a run; a run walks the steps of its loop profile, starts agents and actions as child
  processes through the job runner, and records what happened as events. Stores that must survive a
  crash (operations, work ledger, publication outbox, control state of a run) are JSON texts that are
  written atomically and read back with the runtime's own JSON scanner.

  \<^bold>\<open>How the program is represented.\<close> A C string is the list of its bytes before the NUL, a buffer of
  \<open>n\<close> bytes keeps at most \<open>n - 1\<close> of them (\<open>copy_into\<close>); every function that reports an error returns
  an option, a sum or the C result code, and takes every early return of the source. Integers are
  \<open>w word\<close> where the code relies on their width (clocks, hash words, counters of a run) and \<open>int\<close>
  with the narrowing written out (\<open>to_int32\<close>) elsewhere. Loops over an array are structural recursion
  on the list; loops over an offset are functions with a termination proof by the distance to the
  limit. Only the reactor's endless loop has fuel: one unit is one pass, its invariant holds for every
  fuel, and \<open>Reactor_Stop\<close> proves how much is enough. The drain of pending actions and the pump of
  finished jobs are \<open>partial_function (option)\<close>; that they return is proved from what the modules
  they call promise. What the system answers (clock, poll, read, wait status, allocation, each system call of
  a file operation) is an argument of the operation, so the theorems hold for every answer, failures
  included. The module state of C is a record that is passed along.

  \<^bold>\<open>Layers and theories.\<close>

  \<^item> Prelude and C text. \<open>Prelude\<close> (byte classes, C strings, spans, list and option lemmas, the
    collections of simplification rules), \<open>C_Text\<close> (\<open>memchr\<close>, decimal output), \<open>Rt_Base\<close> (sizes of
    \<open>runtime.h\<close>, bounded append, bounded read of \<open>support/fsutil.c\<close>).

  \<^item> JSON, \<open>support/json.c\<close>. \<open>Json_Scan\<close> is the validating scanner, \<open>Json_Ref\<close> the references and
    accessors, \<open>Json_Print\<close> the escaping and compaction. \<open>Json_Grammar\<close> is the grammar as an
    independent inductive specification; \<open>Json_Laws\<close> proves that the scanner accepts exactly its
    texts, that object lookup returns the first matching member, that string decoding and number
    reading are exact. \<open>Json_Object\<close> and \<open>Json_Record\<close> are the library by which the stores below
    are printed and read back.

  \<^item> JSON repair, \<open>fjson_repair/repair.c\<close>. \<open>Fjson_Repair\<close> is the whole repair; \<open>Fjson_Laws\<close> its contract
    (no overflow, exact counts, a success is a JSON text), \<open>Fjson_Valid\<close> that valid input is copied
    byte for byte out of prose or a fence.

  \<^item> Transport. \<open>Http1\<close> and \<open>Http1_Laws\<close> (\<open>support/http1.c\<close>: stability of results, bodies inside the
    buffer, round trip of chunked bodies), \<open>Reconnect_Backoff\<close> (\<open>support/reconnect_backoff.c\<close>: delay
    bounds at 64 bits), \<open>Sha256\<close> and \<open>Sha256_Laws\<close> (\<open>support/sha256.c\<close>: equality with FIPS 180-4 for
    every division of the input). The locale \<open>stream_hash\<close> states what an incremental hash promises and
    proves the division lemma once; \<open>sha\<close> interprets it.

  \<^item> Process layer. \<open>Reactor\<close> and \<open>Reactor_Laws\<close> (\<open>gateway/reactor.c\<close>: the poll set, the exact poll
    timeout, the invariant of a run of the loop) with \<open>Reactor_Stop\<close> (the loop returns once it is told to
    stop); the locale \<open>pollset_client\<close> is the contract between
    the reactor and a module that collects descriptors, and \<open>jr_poll\<close> interprets it on the job runner.
    \<open>Jobrunner\<close> (\<open>gateway/jobrunner.c\<close>, \<open>jobrunner_module.c\<close>) with \<open>Jobrunner_Ring\<close> (the ring of progress
    records refines a bounded queue, locale \<open>bounded_fifo\<close> interpreted as \<open>ring\<close>), \<open>Jobrunner_Laws\<close>
    (invariant of every reachable runner), \<open>Jobrunner_Signals\<close> (order of signals), \<open>Jobrunner_Verdict\<close>
    (deadlines, the deciding tick) and \<open>Jobrunner_Progress\<close> (independence of how reads cut a stream).

  \<^item> Operation store, \<open>operation_state.c\<close>. \<open>Operation_State\<close> (loading, pruning, writing, the reducer,
    tokens, deadlines), \<open>Operation_Laws\<close> (round trip of the file), \<open>Operation_Inv\<close> and \<open>Operation_Safety\<close>
    (invariant, running records are never lost, finished records are final, replay, tokens, deadlines),
    \<open>Operation_Run\<close> (a concrete run and the witnesses).

  \<^item> Work ledger, \<open>work_state.c\<close>. \<open>Work_State\<close>, \<open>Work_Reducer\<close>, \<open>Work_Query\<close> (the file, the reducer of
    work events, projections, the rebuild from logs), \<open>Work_Laws\<close>, \<open>Work_Safety\<close>, \<open>Work_Replay\<close>,
    \<open>Work_File\<close>, \<open>Work_Rebuild\<close> (invariant, budgets, evidence, replay, round trip, which runs the
    rebuild keeps), \<open>Work_Run\<close> (a concrete run and the witnesses).

  \<^item> Files and bus. \<open>Fs_Model\<close> is the workspace as an explicit disk with atomic writes, torn appends,
    renames and scans (\<open>support/fsutil.c\<close> as its callers see it). \<open>Bus\<close> (\<open>bus/bus.c\<close>) with \<open>Bus_Laws\<close>
    and \<open>Bus_Publish\<close>: an envelope is never lost, changed or duplicated, identities increase,
    publication under a reserved identity is repeatable, a drain is oldest first; \<open>Bus_Run\<close> holds the
    witnesses.

  \<^item> Runs and outbox. \<open>Profile\<close> (\<open>profile.c\<close>: every accepted profile is well formed), \<open>Run_State\<close>
    (\<open>RtRun\<close>, \<open>run_state.c\<close>, \<open>error_codes.h\<close>), \<open>Outbox\<close> (\<open>publication_outbox.c\<close>). The outbox composes the
    parts: a record is prepared under an identity of the bus, the source is read from the event log,
    the ledger's reducer is applied, the wake is published on the bus, and the control state written
    by \<open>run_state.c\<close> decides when the record may go. \<open>Outbox_File\<close> proves that the two sides read what
    the other wrote, \<open>Outbox_Laws\<close> that a wake is published only for committed truth, that a
    successful pass delivers every committed wake, and that a record is kept until its wake was
    served, \<open>Outbox_Claim\<close> that preparing is repeatable and claiming exclusive; \<open>Outbox_Run\<close> holds the
    witnesses.

  \<^item> Running. \<open>Action_Queue\<close> (the queue of \<open>action_runner.c\<close> and the effect of the terminals of
    \<open>action_events.c\<close> on a run) with \<open>Action_Laws\<close> (a call is queued at most once while its signature
    is remembered). \<open>Run_Step\<close> (\<open>run.c\<close>: output and lifecycle events, waiting, gates, draining, one
    step) with \<open>Run_Laws\<close> (what one step may change, every step returns, the number of steps without
    waiting is bounded). \<open>Scheduler\<close> (\<open>scheduler.c\<close> and the intake of \<open>ports.c\<close>: the pool, the pump of
    jobs, waking, the pass over the runs, retiring, tick, shutdown). \<open>Run_Life\<close> follows one run through
    all of this: it ends at most once and its log agrees with its state. \<open>Scheduler_Laws\<close> and
    \<open>Scheduler_Life\<close> lift this to the pool: slots, identities and order are kept by every tick and
    cancellation, a tick returns, and runs of one context advance one after the other. Agents,
    actions, task state and event log are arguments; \<open>modules_ok\<close>, \<open>sched_modules_ok\<close> and
    \<open>tick_modules_ok\<close> say what is relied on: they leave the control members of a run and the lifecycle
    events alone, a launch that succeeds starts or retires its entry, the completion of a job decides
    no other job, and a new run has a new identity.

  \<^bold>\<open>Bounds.\<close> The capacities are those of the code: 16 runs, 16 pending and 32 remembered actions
  of a run, 32 passes, 1024 names of a scan, 128 operations, 64 progress records, 64 MiB of a text
  file. Theorems that read a file back assume its text below the 64 MiB cap and no failing read; theorems about the order of a drain assume fewer than a million identities,
  because the code sorts names of six digits as text.

  \<^bold>\<open>Not modelled.\<close> The channel adapters, the language-model client, secrets and the command line are
  protocol, terminal or credential code around the parts above; agents and built-in actions assemble
  prompts and files; the start of the scheduler rebuilds runs from their logs (\<open>recovery.c\<close>);
  the gateway process sets up sockets and modules; task and affair state, event log, memory and projections are stores and texts of their own, whose answers are arguments here.
  Floating point accessors of \<open>support/json.c\<close>, the child side of a fork and narration to the terminal
  are left out of otherwise modelled files.
\<close>

end
